(* ===== verification/Prelude.thy ===== *)
theory Prelude
  imports Main "HOL-Library.Word"
begin

text \<open>
  Shared vocabulary of the development: the machine integers of the C code as words, the
  byte order of the target (little endian, \<^verbatim>\<open>WORDS_BIGENDIAN\<close> is not defined in
  \<^verbatim>\<open>crypto/include/config.h\<close>), the C library's byte swapping functions, octet strings with
  in-place updates, the error codes of \<^verbatim>\<open>crypto/include/err.h\<close>, and the generic lemmas
  and rule collections the component theories share.
\<close>

unbundle bit_operations_syntax

subsection \<open>Machine integers\<close>

type_synonym u8 = "8 word"
type_synonym u16 = "16 word"
type_synonym u32 = "32 word"
type_synonym u64 = "64 word"
type_synonym octets = "u8 list"

named_theorems bit_access \<open>bit-level characterisations of the operations on machine words\<close>
named_theorems octet_simps \<open>lengths, reads and writes of octet strings\<close>

text \<open>A C \<^verbatim>\<open>int\<close> that receives an unsigned 32-bit value is its two's complement reading.\<close>

definition int_of_u32 :: "u32 \<Rightarrow> int" where
  "int_of_u32 w = sint w"

lemma int_of_u32_eq: "int_of_u32 w = (if uint w < 2 ^ 31 then uint w else uint w - 2 ^ 32)"
  using uint_bounded [of w]
  by (simp add: int_of_u32_def sint_uint signed_take_bit_eq_take_bit_minus take_bit_eq_mod bit_iff_odd
      div_eq_0_iff) (auto simp: not_less odd_iff_mod_2_eq_one)

subsection \<open>Byte order\<close>

text \<open>The octets of a word in memory order, and the word read back from memory.\<close>

definition le32_bytes :: "u32 \<Rightarrow> octets" where
  "le32_bytes w = [ucast w, ucast (drop_bit 8 w), ucast (drop_bit 16 w), ucast (drop_bit 24 w)]"

definition be32_bytes :: "u32 \<Rightarrow> octets" where
  "be32_bytes w = [ucast (drop_bit 24 w), ucast (drop_bit 16 w), ucast (drop_bit 8 w), ucast w]"

definition le32_of :: "u8 \<Rightarrow> u8 \<Rightarrow> u8 \<Rightarrow> u8 \<Rightarrow> u32" where
  "le32_of a b c d = ucast a OR push_bit 8 (ucast b) OR push_bit 16 (ucast c) OR push_bit 24 (ucast d)"

definition be32_of :: "u8 \<Rightarrow> u8 \<Rightarrow> u8 \<Rightarrow> u8 \<Rightarrow> u32" where
  "be32_of a b c d = le32_of d c b a"

lemma bit_le32_of [bit_access]:
  "bit (le32_of a b c d) n \<longleftrightarrow>
     (if n < 8 then bit a n else if n < 16 then bit b (n - 8)
      else if n < 24 then bit c (n - 16) else if n < 32 then bit d (n - 24) else False)"
  by (auto simp: le32_of_def bit_simps dest: bit_imp_le_length)

lemma le32_of_inverse: "le32_of (ucast w) (ucast (drop_bit 8 w)) (ucast (drop_bit 16 w)) (ucast (drop_bit 24 w)) = w"
  by (rule bit_word_eqI) (auto simp: bit_le32_of bit_simps)

lemma ucast_le32_of [simp]:
  "(ucast (le32_of a b c d) :: u8) = a"
  "(ucast (drop_bit 8 (le32_of a b c d)) :: u8) = b"
  "(ucast (drop_bit 16 (le32_of a b c d)) :: u8) = c"
  "(ucast (drop_bit 24 (le32_of a b c d)) :: u8) = d"
  by (rule bit_word_eqI, simp add: bit_le32_of bit_simps)+

subsubsection \<open>The C library's byte swapping functions\<close>

definition bswap32 :: "u32 \<Rightarrow> u32" where
  "bswap32 w = be32_of (ucast w) (ucast (drop_bit 8 w)) (ucast (drop_bit 16 w)) (ucast (drop_bit 24 w))"

definition bswap16 :: "u16 \<Rightarrow> u16" where
  "bswap16 w = push_bit 8 w OR drop_bit 8 w"

abbreviation (input) htonl :: "u32 \<Rightarrow> u32" where "htonl \<equiv> bswap32"
abbreviation (input) ntohl :: "u32 \<Rightarrow> u32" where "ntohl \<equiv> bswap32"
abbreviation (input) htons :: "u16 \<Rightarrow> u16" where "htons \<equiv> bswap16"
abbreviation (input) ntohs :: "u16 \<Rightarrow> u16" where "ntohs \<equiv> bswap16"

lemma bswap32_le32_of [simp]: "bswap32 (le32_of a b c d) = le32_of d c b a"
  by (simp add: bswap32_def be32_of_def)

lemma bswap32_bswap32 [simp]: "bswap32 (bswap32 w) = w"
  by (metis bswap32_le32_of le32_of_inverse)

lemma le32_bytes_bswap32: "le32_bytes (bswap32 w) = be32_bytes w"
  by (simp add: le32_bytes_def be32_bytes_def bswap32_def be32_of_def)

lemma be32_bytes_bswap32: "be32_bytes (bswap32 w) = le32_bytes w"
  by (simp add: le32_bytes_def be32_bytes_def bswap32_def be32_of_def)

lemma length_word_bytes [simp, octet_simps]: "length (le32_bytes w) = 4" "length (be32_bytes w) = 4"
  by (simp_all add: le32_bytes_def be32_bytes_def)

lemma be32_of_inverse: "be32_of (ucast (drop_bit 24 w)) (ucast (drop_bit 16 w)) (ucast (drop_bit 8 w)) (ucast w) = w"
  by (simp add: be32_of_def le32_of_inverse)

lemma bit_bswap16 [bit_access]:
  "n < 16 \<Longrightarrow> bit (bswap16 w) n = (if n < 8 then bit w (n + 8) else bit w (n - 8))"
  by (auto simp: bswap16_def bit_simps add.commute dest: bit_imp_le_length)

lemma bswap16_bswap16 [simp]: "bswap16 (bswap16 w) = w"
  by (rule bit_word_eqI) (auto simp: bit_bswap16)

text \<open>The exclusive or of the octets of two words.\<close>

lemma ucast_xor: "(ucast (a XOR b) :: 'a::len word) = ucast a XOR ucast b"
  by (rule bit_word_eqI) (auto simp: bit_simps)

lemma le32_bytes_xor: "le32_bytes (a XOR b) = map2 (XOR) (le32_bytes a) (le32_bytes b)"
  by (simp add: le32_bytes_def ucast_xor drop_bit_xor)

lemma le32_of_xor: "le32_of (a XOR a') (b XOR b') (c XOR c') (d XOR d') = le32_of a b c d XOR le32_of a' b' c' d'"
  by (rule bit_word_eqI) (simp add: bit_le32_of bit_simps)

subsection \<open>Octet strings\<close>

text \<open>
  A buffer is the list of octets from its first address. \<open>write_at\<close> overwrites a run of octets
  in place; \<open>slice\<close> reads one. A write or a read that leaves the buffer is a memory fault, and the
  models test for it before they use these functions.
\<close>

definition slice :: "nat \<Rightarrow> nat \<Rightarrow> octets \<Rightarrow> octets" where
  "slice off n buf = take n (drop off buf)"

definition write_at :: "nat \<Rightarrow> octets \<Rightarrow> octets \<Rightarrow> octets" where
  "write_at off bs buf = take off buf @ bs @ drop (off + length bs) buf"

definition xor_octets :: "octets \<Rightarrow> octets \<Rightarrow> octets" where
  "xor_octets xs ys = map2 (XOR) xs ys"

lemma length_slice [octet_simps]: "off + n \<le> length buf \<Longrightarrow> length (slice off n buf) = n"
  by (simp add: slice_def)

lemma length_write_at [octet_simps]: "off + length bs \<le> length buf \<Longrightarrow> length (write_at off bs buf) = length buf"
  by (simp add: write_at_def)

lemma slice_write_at [octet_simps]:
  "off + length bs \<le> length buf \<Longrightarrow> slice off (length bs) (write_at off bs buf) = bs"
  by (simp add: slice_def write_at_def)

lemma nth_write_at [octet_simps]:
  "off + length bs \<le> length buf \<Longrightarrow> i < length buf \<Longrightarrow>
     write_at off bs buf ! i = (if off \<le> i \<and> i < off + length bs then bs ! (i - off) else buf ! i)"
  by (auto simp: write_at_def nth_append min_def)

lemma take_write_at [octet_simps]:
  "k \<le> off \<Longrightarrow> off + length bs \<le> length buf \<Longrightarrow> take k (write_at off bs buf) = take k buf"
  by (simp add: write_at_def)

lemma drop_write_at [octet_simps]:
  "off + length bs \<le> k \<Longrightarrow> off + length bs \<le> length buf \<Longrightarrow> drop k (write_at off bs buf) = drop k buf"
  by (simp add: write_at_def)

lemma slice_write_at_before [octet_simps]:
  "k + n \<le> off \<Longrightarrow> off + length bs \<le> length buf \<Longrightarrow> slice k n (write_at off bs buf) = slice k n buf"
  by (simp add: slice_def write_at_def take_drop)

lemma slice_write_at_after [octet_simps]:
  "off + length bs \<le> k \<Longrightarrow> off + length bs \<le> length buf \<Longrightarrow> slice k n (write_at off bs buf) = slice k n buf"
  by (simp add: slice_def drop_write_at)

lemma write_at_slice [octet_simps]: "off + n \<le> length buf \<Longrightarrow> write_at off (slice off n buf) buf = buf"
  by (simp add: write_at_def slice_def) (metis append_take_drop_id drop_drop add.commute min.absorb2 append_assoc)

lemma write_at_write_at [octet_simps]:
  "length cs = length bs \<Longrightarrow> off + length bs \<le> length buf \<Longrightarrow>
     write_at off cs (write_at off bs buf) = write_at off cs buf"
  by (simp add: write_at_def)

lemma length_xor_octets [simp, octet_simps]: "length (xor_octets xs ys) = min (length xs) (length ys)"
  by (simp add: xor_octets_def)

lemma nth_xor_octets [octet_simps]:
  "i < length xs \<Longrightarrow> i < length ys \<Longrightarrow> xor_octets xs ys ! i = xs ! i XOR ys ! i"
  by (simp add: xor_octets_def)

lemma xor_octets_cancel [simp]: "length xs \<le> length ys \<Longrightarrow> xor_octets (xor_octets xs ys) ys = xs"
  by (rule nth_equalityI) (simp_all add: nth_xor_octets xor.assoc)

lemma xor_octets_append:
  "length xs = length ks \<Longrightarrow> xor_octets (xs @ ys) (ks @ ls) = xor_octets xs ks @ xor_octets ys ls"
  by (simp add: xor_octets_def)

lemma xor_octets_zero [simp]: "xor_octets (replicate (length ks) 0) ks = ks"
  by (rule nth_equalityI) (simp_all add: nth_xor_octets)

subsection \<open>All octets\<close>

text \<open>
  A property of every octet, or of every entry of a 256-entry table, is decided by evaluation over
  the list of all octets.
\<close>

definition all_octets :: octets where
  "all_octets = [
  0, 1, 2, 3, 4, 5, 6, 7, 8, 9, 10, 11, 12, 13, 14, 15,
  16, 17, 18, 19, 20, 21, 22, 23, 24, 25, 26, 27, 28, 29, 30, 31,
  32, 33, 34, 35, 36, 37, 38, 39, 40, 41, 42, 43, 44, 45, 46, 47,
  48, 49, 50, 51, 52, 53, 54, 55, 56, 57, 58, 59, 60, 61, 62, 63,
  64, 65, 66, 67, 68, 69, 70, 71, 72, 73, 74, 75, 76, 77, 78, 79,
  80, 81, 82, 83, 84, 85, 86, 87, 88, 89, 90, 91, 92, 93, 94, 95,
  96, 97, 98, 99, 100, 101, 102, 103, 104, 105, 106, 107, 108, 109, 110, 111,
  112, 113, 114, 115, 116, 117, 118, 119, 120, 121, 122, 123, 124, 125, 126, 127,
  128, 129, 130, 131, 132, 133, 134, 135, 136, 137, 138, 139, 140, 141, 142, 143,
  144, 145, 146, 147, 148, 149, 150, 151, 152, 153, 154, 155, 156, 157, 158, 159,
  160, 161, 162, 163, 164, 165, 166, 167, 168, 169, 170, 171, 172, 173, 174, 175,
  176, 177, 178, 179, 180, 181, 182, 183, 184, 185, 186, 187, 188, 189, 190, 191,
  192, 193, 194, 195, 196, 197, 198, 199, 200, 201, 202, 203, 204, 205, 206, 207,
  208, 209, 210, 211, 212, 213, 214, 215, 216, 217, 218, 219, 220, 221, 222, 223,
  224, 225, 226, 227, 228, 229, 230, 231, 232, 233, 234, 235, 236, 237, 238, 239,
  240, 241, 242, 243, 244, 245, 246, 247, 248, 249, 250, 251, 252, 253, 254, 255]"

lemma all_octets_eq: "all_octets = map word_of_nat [0..<256]"
  by code_simp

lemma unat_octet_less: "unat (w :: u8) < 256"
proof -
  have "unat w < 2 ^ LENGTH(8)" by (rule unsigned_less)
  then show ?thesis by simp
qed

lemma nth_all_octets: "all_octets ! unat w = w"
  by (simp add: all_octets_eq unat_octet_less)

lemma all_octetsI: "list_all P all_octets \<Longrightarrow> P w"
  using nth_all_octets [of w] unat_octet_less [of w] by (auto simp: list_all_length all_octets_eq)

lemma table_lookup: "list_all2 (\<lambda>w v. v = f w) all_octets tab \<Longrightarrow> tab ! unat w = f w"
proof -
  assume *: "list_all2 (\<lambda>w v. v = f w) all_octets tab"
  have "unat w < length all_octets"
    by (simp add: all_octets_eq unat_octet_less)
  with * have "tab ! unat w = f (all_octets ! unat w)" by (rule list_all2_nthD)
  then show ?thesis by (simp add: nth_all_octets)
qed

subsection \<open>Error codes (crypto/include/err.h)\<close>

datatype err_status_t =
    err_status_ok
  | err_status_fail
  | err_status_bad_param
  | err_status_alloc_fail
  | err_status_dealloc_fail
  | err_status_init_fail
  | err_status_terminus
  | err_status_auth_fail
  | err_status_cipher_fail
  | err_status_replay_fail
  | err_status_replay_old
  | err_status_algo_fail
  | err_status_no_such_op
  | err_status_no_ctx
  | err_status_cant_check
  | err_status_key_expired
  | err_status_socket_err
  | err_status_signal_err
  | err_status_nonce_bad
  | err_status_read_fail
  | err_status_write_fail
  | err_status_parse_err
  | err_status_encode_err
  | err_status_semaphore_err
  | err_status_pfkey_err

text \<open>
  The code of a status is its position in the enumeration: what an \<^verbatim>\<open>if (status)\<close> tests
  and what the native methods return to Java.
\<close>

fun err_code :: "err_status_t \<Rightarrow> int" where
  "err_code err_status_ok = 0"
| "err_code err_status_fail = 1"
| "err_code err_status_bad_param = 2"
| "err_code err_status_alloc_fail = 3"
| "err_code err_status_dealloc_fail = 4"
| "err_code err_status_init_fail = 5"
| "err_code err_status_terminus = 6"
| "err_code err_status_auth_fail = 7"
| "err_code err_status_cipher_fail = 8"
| "err_code err_status_replay_fail = 9"
| "err_code err_status_replay_old = 10"
| "err_code err_status_algo_fail = 11"
| "err_code err_status_no_such_op = 12"
| "err_code err_status_no_ctx = 13"
| "err_code err_status_cant_check = 14"
| "err_code err_status_key_expired = 15"
| "err_code err_status_socket_err = 16"
| "err_code err_status_signal_err = 17"
| "err_code err_status_nonce_bad = 18"
| "err_code err_status_read_fail = 19"
| "err_code err_status_write_fail = 20"
| "err_code err_status_parse_err = 21"
| "err_code err_status_encode_err = 22"
| "err_code err_status_semaphore_err = 23"
| "err_code err_status_pfkey_err = 24"

lemma err_code_eq_0_iff [simp]: "err_code s = 0 \<longleftrightarrow> s = err_status_ok"
  by (cases s) simp_all

lemma err_code_nonneg: "0 \<le> err_code s"
  by (cases s) simp_all

end
