(* ===== verification/Datatypes.thy ===== *)
theory Datatypes
  imports Prelude
begin

text \<open>
  The data types of \<^verbatim>\<open>crypto/include/datatypes.h\<close> and \<^verbatim>\<open>crypto/math/datatypes.c\<close>: the
  128-bit union with its word, octet and bit views, the two shifts that move the replay windows,
  the octet string comparison that checks authentication tags, and the hexadecimal and base 64
  conversions. The lemmas characterise the shifts and the bit operations bit by bit, and show that
  hexadecimal printing and parsing are inverse.
\<close>

subsection \<open>The 128-bit union\<close>

text \<open>
  \<^verbatim>\<open>v128_t\<close> is a union of sixteen octets, eight 16-bit, four 32-bit and two 64-bit words. The
  model keeps the four 32-bit words; the other views are computed from them for the little-endian
  target.
\<close>

datatype v128_t = V128 u32 u32 u32 u32

fun v128_words :: "v128_t \<Rightarrow> u32 list" where
  "v128_words (V128 a b c d) = [a, b, c, d]"

definition v32 :: "v128_t \<Rightarrow> nat \<Rightarrow> u32" where
  "v32 x i = v128_words x ! i"

definition v128_of_words :: "u32 list \<Rightarrow> v128_t" where
  "v128_of_words ws = V128 (ws ! 0) (ws ! 1) (ws ! 2) (ws ! 3)"

definition set_v32 :: "v128_t \<Rightarrow> nat \<Rightarrow> u32 \<Rightarrow> v128_t" where
  "set_v32 x i w = v128_of_words ((v128_words x)[i := w])"

definition v128_octets :: "v128_t \<Rightarrow> octets" where
  "v128_octets x = concat (map le32_bytes (v128_words x))"

definition v8 :: "v128_t \<Rightarrow> nat \<Rightarrow> u8" where
  "v8 x i = v128_octets x ! i"

definition v128_of_octets :: "octets \<Rightarrow> v128_t" where
  "v128_of_octets s = V128
     (le32_of (s ! 0) (s ! 1) (s ! 2) (s ! 3)) (le32_of (s ! 4) (s ! 5) (s ! 6) (s ! 7))
     (le32_of (s ! 8) (s ! 9) (s ! 10) (s ! 11)) (le32_of (s ! 12) (s ! 13) (s ! 14) (s ! 15))"

definition set_v8 :: "v128_t \<Rightarrow> nat \<Rightarrow> u8 \<Rightarrow> v128_t" where
  "set_v8 x i b = v128_of_octets ((v128_octets x)[i := b])"

definition v16 :: "v128_t \<Rightarrow> nat \<Rightarrow> u16" where
  "v16 x i = ucast (v8 x (2 * i)) OR push_bit 8 (ucast (v8 x (2 * i + 1)))"

definition v64 :: "v128_t \<Rightarrow> nat \<Rightarrow> u64" where
  "v64 x i = ucast (v32 x (2 * i)) OR push_bit 32 (ucast (v32 x (2 * i + 1)))"

definition set_v64 :: "v128_t \<Rightarrow> nat \<Rightarrow> u64 \<Rightarrow> v128_t" where
  "set_v64 x i w = set_v32 (set_v32 x (2 * i) (ucast w)) (2 * i + 1) (ucast (drop_bit 32 w))"

text \<open>\<^verbatim>\<open>v128_copy_octet_string\<close> copies sixteen octets; the alignment test is compiled out.\<close>

definition v128_copy_octet_string :: "octets \<Rightarrow> v128_t" where
  "v128_copy_octet_string s = v128_of_octets s"

fun v128_set_to_zero :: "v128_t \<Rightarrow> v128_t" where
  "v128_set_to_zero x = V128 0 0 0 0"

fun v128_xor :: "v128_t \<Rightarrow> v128_t \<Rightarrow> v128_t" where
  "v128_xor (V128 a b c d) (V128 a' b' c' d') = V128 (a XOR a') (b XOR b') (c XOR c') (d XOR d')"

fun v128_and :: "v128_t \<Rightarrow> v128_t \<Rightarrow> v128_t" where
  "v128_and (V128 a b c d) (V128 a' b' c' d') = V128 (a AND a') (b AND b') (c AND c') (d AND d')"

fun v128_or :: "v128_t \<Rightarrow> v128_t \<Rightarrow> v128_t" where
  "v128_or (V128 a b c d) (V128 a' b' c' d') = V128 (a OR a') (b OR b') (c OR c') (d OR d')"

fun v128_complement :: "v128_t \<Rightarrow> v128_t" where
  "v128_complement (V128 a b c d) = V128 (NOT a) (NOT b) (NOT c) (NOT d)"

definition v128_is_eq :: "v128_t \<Rightarrow> v128_t \<Rightarrow> bool" where
  "v128_is_eq x y \<longleftrightarrow> v32 x 0 = v32 y 0 \<and> v32 x 1 = v32 y 1 \<and> v32 x 2 = v32 y 2 \<and> v32 x 3 = v32 y 3"

subsection \<open>Single bits and shifts\<close>

definition v128_get_bit :: "v128_t \<Rightarrow> nat \<Rightarrow> u32" where
  "v128_get_bit x b = drop_bit (b mod 32) (v32 x (b div 32)) AND 1"

definition v128_set_bit :: "v128_t \<Rightarrow> nat \<Rightarrow> v128_t" where
  "v128_set_bit x b = set_v32 x (b div 32) (v32 x (b div 32) OR push_bit (b mod 32) 1)"

definition v128_clear_bit :: "v128_t \<Rightarrow> nat \<Rightarrow> v128_t" where
  "v128_clear_bit x b = set_v32 x (b div 32) (v32 x (b div 32) AND NOT (push_bit (b mod 32) 1))"

definition v128_set_bit_to :: "v128_t \<Rightarrow> nat \<Rightarrow> bool \<Rightarrow> v128_t" where
  "v128_set_bit_to x b value = (if value then v128_set_bit x b else v128_clear_bit x b)"

definition v128_right_shift :: "v128_t \<Rightarrow> nat \<Rightarrow> v128_t" where
  "v128_right_shift x index =
     (let base_index = index div 32; bit_index = index mod 32 in
      if index > 127 then v128_set_to_zero x
      else
        let y =
          (if bit_index = 0 then
             fold (\<lambda>i y. set_v32 y (i - 1) (v32 y (i - 1 - base_index))) (rev [base_index + 1..<4])
               (set_v32 x (4 - 1) (v32 x (4 - 1 - base_index)))
           else
             fold (\<lambda>i y.
                 let from = i - 1 - base_index;
                     b = push_bit bit_index (v32 y from);
                     b = (if from > 0 then b OR drop_bit (32 - bit_index) (v32 y (from - 1)) else b)
                 in set_v32 y (i - 1) b)
               (rev [base_index + 1..<5]) x)
        in fold (\<lambda>i y. set_v32 y i 0) [0..<base_index] y)"

definition v128_left_shift :: "v128_t \<Rightarrow> nat \<Rightarrow> v128_t" where
  "v128_left_shift x index =
     (let base_index = index div 32; bit_index = index mod 32 in
      if index > 127 then v128_set_to_zero x
      else
        let y =
          (if bit_index = 0 then
             fold (\<lambda>i y. set_v32 y i (v32 y (i + base_index))) [0..<4 - base_index] x
           else
             let y = fold (\<lambda>i y. set_v32 y i
                        (drop_bit bit_index (v32 y (i + base_index)) XOR
                         push_bit (32 - bit_index) (v32 y (i + base_index + 1))))
                       [0..<4 - base_index - 1] x
             in set_v32 y (4 - base_index - 1) (drop_bit bit_index (v32 y (4 - 1))))
        in fold (\<lambda>i y. set_v32 y i 0) [4 - base_index..<4] y)"

text \<open>The bit of a 128-bit value, the reading the replay databases use.\<close>

definition v128_bit :: "v128_t \<Rightarrow> nat \<Rightarrow> bool" where
  "v128_bit x k \<longleftrightarrow> bit (v32 x (k div 32)) (k mod 32)"

lemma v32_simps [simp]:
  "v32 (V128 a b c d) 0 = a" "v32 (V128 a b c d) (Suc 0) = b" "v32 (V128 a b c d) 1 = b"
  "v32 (V128 a b c d) 2 = c" "v32 (V128 a b c d) 3 = d"
  by (simp_all add: v32_def)

lemma set_v32_simps [simp]:
  "set_v32 (V128 a b c d) 0 w = V128 w b c d" "set_v32 (V128 a b c d) (Suc 0) w = V128 a w c d"
  "set_v32 (V128 a b c d) 1 w = V128 a w c d"
  "set_v32 (V128 a b c d) 2 w = V128 a b w d" "set_v32 (V128 a b c d) 3 w = V128 a b c w"
  by (simp_all add: set_v32_def v128_of_words_def)

lemma less_4_cases: "(n::nat) < 4 \<Longrightarrow> n = 0 \<or> n = 1 \<or> n = 2 \<or> n = 3"
  by arith

lemma v32_Suc_simps [simp]:
  "v32 x (Suc (Suc 0)) = v32 x 2" "v32 x (Suc (Suc (Suc 0))) = v32 x 3"
  "set_v32 x (Suc (Suc 0)) w = set_v32 x 2 w" "set_v32 x (Suc (Suc (Suc 0))) w = set_v32 x 3 w"
  by (simp_all add: numeral_2_eq_2 numeral_3_eq_3)

lemma upt_small:
  "[0..<Suc 0] = [0]" "[0..<2] = [0, 1]" "[0..<3] = [0, 1, 2]" "[0..<4] = [0, 1, 2, 3::nat]"
  "[Suc 0..<4] = [1, 2, 3]" "[2..<4] = [2, 3]" "[3..<4] = [3]"
  "[Suc 0..<5] = [1, 2, 3, 4]" "[2..<5] = [2, 3, 4]" "[3..<5] = [3, 4]" "[4..<5] = [4]"
  "[Suc (Suc 0)..<4] = [2, 3]" "[Suc (Suc 0)..<5] = [2, 3, 4]"
  by (simp_all add: upt_rec)

lemma all_less_4: "(\<forall>i<4. P i) \<longleftrightarrow> P 0 \<and> P 1 \<and> P 2 \<and> P (3::nat)"
  using less_4_cases by auto

lemma v32_set_v32: "i < 4 \<Longrightarrow> j < 4 \<Longrightarrow> v32 (set_v32 x i w) j = (if i = j then w else v32 x j)"
  using less_4_cases [of i] less_4_cases [of j] by (cases x) auto

lemma v128_eqI: "(\<And>k. k < 128 \<Longrightarrow> v128_bit x k = v128_bit y k) \<Longrightarrow> x = y"
proof -
  assume *: "\<And>k. k < 128 \<Longrightarrow> v128_bit x k = v128_bit y k"
  have "v32 x i = v32 y i" if "i < 4" for i
  proof (rule bit_word_eqI)
    fix r assume "r < LENGTH(32)"
    with that * [of "32 * i + r"] show "bit (v32 x i) r = bit (v32 y i) r"
      by (simp add: v128_bit_def)
  qed
  from this [of 0] this [of 1] this [of 2] this [of 3] show "x = y"
    by (cases x; cases y) simp
qed

lemma v128_get_bit_eq_1_iff: "v128_get_bit x b = 1 \<longleftrightarrow> v128_bit x b"
proof -
  have "w AND 1 = of_bool (bit w 0)" for w :: u32
    by (simp add: and_one_eq mod_2_eq_odd bit_0)
  then show ?thesis by (simp add: v128_get_bit_def v128_bit_def bit_drop_bit_eq)
qed

lemma v128_bit_zero [simp]: "k < 128 \<Longrightarrow> \<not> v128_bit (V128 0 0 0 0) k"
proof -
  assume "k < 128"
  then have "k div 32 < 4" by simp
  then show ?thesis using less_4_cases [of "k div 32"] by (auto simp: v128_bit_def)
qed

lemma v128_bit_set_bit:
  "b < 128 \<Longrightarrow> k < 128 \<Longrightarrow> v128_bit (v128_set_bit x b) k \<longleftrightarrow> k = b \<or> v128_bit x k"
proof -
  assume b: "b < 128" and k: "k < 128"
  then have "b div 32 < 4" "k div 32 < 4" by auto
  moreover have "k = b \<longleftrightarrow> k div 32 = b div 32 \<and> k mod 32 = b mod 32"
    by (metis div_mult_mod_eq)
  ultimately show ?thesis
    by (auto simp: v128_bit_def v128_set_bit_def v32_set_v32 bit_simps)
qed

lemma v128_bit_clear_bit:
  "b < 128 \<Longrightarrow> k < 128 \<Longrightarrow> v128_bit (v128_clear_bit x b) k \<longleftrightarrow> k \<noteq> b \<and> v128_bit x k"
proof -
  assume b: "b < 128" and k: "k < 128"
  then have "b div 32 < 4" "k div 32 < 4" by auto
  moreover have "k = b \<longleftrightarrow> k div 32 = b div 32 \<and> k mod 32 = b mod 32"
    by (metis div_mult_mod_eq)
  ultimately show ?thesis
    by (auto simp: v128_bit_def v128_clear_bit_def v32_set_v32 bit_simps)
qed

text \<open>
  A shift by \<open>32 * q + b\<close> moves whole words by \<open>q\<close> and combines two neighbouring words when
  \<open>b\<close> is not zero. The window lemmas below reduce a shifted 128-bit value to its words.
\<close>

lemma less_128_divmod: "(k::nat) < 128 \<Longrightarrow> k div 32 < 4 \<and> k mod 32 < 32"
  by simp

lemma divmod_add_32:
  fixes i r q b :: nat
  assumes "r < 32" and "b < 32"
  shows "(32 * i + r + (32 * q + b)) div 32 = (if r + b < 32 then i + q else i + q + 1)"
    and "(32 * i + r + (32 * q + b)) mod 32 = (if r + b < 32 then r + b else r + b - 32)"
proof -
  have "32 * i + r + (32 * q + b) = 32 * (i + q) + (r + b)" by simp
  moreover have "r + b - 32 < 32" using assms by simp
  moreover have "\<not> r + b < 32 \<Longrightarrow> 32 * (i + q) + (r + b) = 32 * (i + q + 1) + (r + b - 32)" by simp
  ultimately have "32 * i + r + (32 * q + b) =
      (if r + b < 32 then r + b else r + b - 32) + 32 * (if r + b < 32 then i + q else i + q + 1)"
    and "(if r + b < 32 then r + b else r + b - 32) < 32"
    by auto
  then show "(32 * i + r + (32 * q + b)) div 32 = (if r + b < 32 then i + q else i + q + 1)"
    and "(32 * i + r + (32 * q + b)) mod 32 = (if r + b < 32 then r + b else r + b - 32)"
    by (simp_all only: div_mult_self2 mod_mult_self2 div_less mod_less)
qed

lemma bit_shifted_pair_right:
  fixes lo hi :: u32
  assumes "0 < b" and "b < 32" and "r < 32"
  shows "bit (drop_bit b lo XOR push_bit (32 - b) hi) r \<longleftrightarrow>
    (if r + b < 32 then bit lo (r + b) else bit hi (r + b - 32))"
  using assms by (auto simp: bit_simps add.commute dest: bit_imp_le_length)

lemma v128_left_shift_words:
  assumes "n < 128"
  shows "\<forall>i<4. v32 (v128_left_shift x n) i =
    (let w = (\<lambda>j. if j < 4 then v32 x j else 0); q = n div 32; b = n mod 32 in
     if b = 0 then w (i + q) else drop_bit b (w (i + q)) XOR push_bit (32 - b) (w (i + q + 1)))"
proof -
  obtain a0 a1 a2 a3 where x: "x = V128 a0 a1 a2 a3" by (cases x)
  have "n div 32 < 4" using assms by simp
  then consider "n div 32 = 0" | "n div 32 = 1" | "n div 32 = 2" | "n div 32 = 3" by linarith
  then show ?thesis
    using assms unfolding x v128_left_shift_def Let_def
    by cases (simp_all add: all_less_4 upt_small)
qed

lemma v128_bit_word: "r < 32 \<Longrightarrow> v128_bit x (32 * i + r) = bit (v32 x i) r"
  by (simp add: v128_bit_def)

lemma v128_bit_left_shift:
  assumes "k < 128"
  shows "v128_bit (v128_left_shift x n) k \<longleftrightarrow> k + n < 128 \<and> v128_bit x (k + n)"
proof (cases "n < 128")
  case False
  then show ?thesis using assms by (simp add: v128_left_shift_def)
next
  case True
  define i r q b where d: "i = k div 32" "r = k mod 32" "q = n div 32" "b = n mod 32"
  have lt: "r < 32" "b < 32" "i < 4" using assms by (simp_all add: d)
  have k: "k = 32 * i + r" and n: "n = 32 * q + b" by (simp_all add: d)
  have kn: "(k + n) div 32 = (if r + b < 32 then i + q else i + q + 1)"
    "(k + n) mod 32 = (if r + b < 32 then r + b else r + b - 32)"
    unfolding k n by (rule divmod_add_32 [OF lt(1,2)])+
  have c: "k + n < 128 \<longleftrightarrow> (if r + b < 32 then i + q < 4 else i + q + 1 < 4)"
    unfolding k n using lt by auto
  have "v128_bit (v128_left_shift x n) k = bit (v32 (v128_left_shift x n) i) r"
    unfolding k by (rule v128_bit_word [OF lt(1)])
  also have "v32 (v128_left_shift x n) i =
      (let w = (\<lambda>j. if j < 4 then v32 x j else 0) in
       if b = 0 then w (i + q) else drop_bit b (w (i + q)) XOR push_bit (32 - b) (w (i + q + 1)))"
    using v128_left_shift_words [OF True, of x] lt(3) by (simp add: d Let_def)
  also have "bit \<dots> r \<longleftrightarrow> k + n < 128 \<and> v128_bit x (k + n)"
    unfolding c v128_bit_def kn Let_def using lt
    by (cases "b = 0") (auto simp: bit_shifted_pair_right)
  finally show ?thesis .
qed

lemma v128_right_shift_words:
  assumes "n < 128"
  shows "\<forall>i<4. v32 (v128_right_shift x n) i =
    (let q = n div 32; b = n mod 32; w = (\<lambda>j. if q \<le> j then v32 x (j - q) else 0) in
     if b = 0 then w i
     else push_bit b (w i) OR (if 0 < i then drop_bit (32 - b) (w (i - 1)) else 0))"
proof -
  obtain a0 a1 a2 a3 where x: "x = V128 a0 a1 a2 a3" by (cases x)
  have "n div 32 < 4" using assms by simp
  then consider "n div 32 = 0" | "n div 32 = 1" | "n div 32 = 2" | "n div 32 = 3" by linarith
  then show ?thesis
    using assms unfolding x v128_right_shift_def Let_def
    by cases (simp_all add: all_less_4 upt_small)
qed

lemma v128_bit_right_shift:
  assumes "k < 128"
  shows "v128_bit (v128_right_shift x n) k \<longleftrightarrow> n \<le> k \<and> v128_bit x (k - n)"
proof (cases "n < 128")
  case False
  then show ?thesis using assms by (simp add: v128_right_shift_def)
next
  case True
  define i r q b where d: "i = k div 32" "r = k mod 32" "q = n div 32" "b = n mod 32"
  have lt: "r < 32" "b < 32" "i < 4" using assms by (simp_all add: d)
  have k: "k = 32 * i + r" and n: "n = 32 * q + b" by (simp_all add: d)
  have le: "n \<le> k \<longleftrightarrow> (if b \<le> r then q \<le> i else q < i)"
    unfolding k n using lt by auto
  have "k - n = (if b \<le> r then 32 * (i - q) + (r - b) else 32 * (i - q - 1) + (r + 32 - b))" if "n \<le> k"
  proof (cases "b \<le> r")
    case True
    then obtain j where "i = q + j" using le \<open>n \<le> k\<close> by (auto simp: le_iff_add)
    then show ?thesis unfolding k n using True by simp
  next
    case False
    then obtain j where "i = Suc (q + j)" using le \<open>n \<le> k\<close> by (auto simp: less_iff_Suc_add)
    then show ?thesis unfolding k n using False lt by simp
  qed
  then have kn: "n \<le> k \<Longrightarrow> v128_bit x (k - n) =
      (if b \<le> r then bit (v32 x (i - q)) (r - b) else bit (v32 x (i - q - 1)) (r + 32 - b))"
    using lt v128_bit_word [of "r - b" x "i - q"] v128_bit_word [of "r + 32 - b" x "i - q - 1"] by auto
  have "v128_bit (v128_right_shift x n) k = bit (v32 (v128_right_shift x n) i) r"
    unfolding k by (rule v128_bit_word [OF lt(1)])
  also have "v32 (v128_right_shift x n) i =
    (let w = (\<lambda>j. if q \<le> j then v32 x (j - q) else 0) in
     if b = 0 then w i
     else push_bit b (w i) OR (if 0 < i then drop_bit (32 - b) (w (i - 1)) else 0))"
    using v128_right_shift_words [OF True, of x] lt(3) by (simp add: d Let_def)
  also have "bit \<dots> r \<longleftrightarrow> n \<le> k \<and> v128_bit x (k - n)"
    using kn lt unfolding le Let_def
    by (cases "b = 0") (auto simp: bit_simps add.commute dest: bit_imp_le_length)
  finally show ?thesis .
qed

subsection \<open>The octet view\<close>

lemma length_v128_octets [simp]: "length (v128_octets x) = 16"
  by (cases x) (simp add: v128_octets_def)

lemma v128_of_octets_octets [simp]: "v128_of_octets (v128_octets x) = x"
  by (cases x) (simp add: v128_of_octets_def v128_octets_def le32_bytes_def le32_of_inverse)

lemma length_16E:
  assumes "length s = 16"
  obtains a0 a1 a2 a3 a4 a5 a6 a7 a8 a9 a10 a11 a12 a13 a14 a15
  where "s = [a0, a1, a2, a3, a4, a5, a6, a7, a8, a9, a10, a11, a12, a13, a14, a15]"
proof -
  have "s = map ((!) s) [0..<16]" using assms by (metis map_nth)
  also have "[0..<16] = [0, 1, 2, 3, 4, 5, 6, 7, 8, 9, 10, 11, 12, 13, 14, 15::nat]"
    by code_simp
  finally show ?thesis using that by simp
qed

lemma v128_octets_of_octets [simp]: "length s = 16 \<Longrightarrow> v128_octets (v128_of_octets s) = s"
  by (erule length_16E) (simp add: v128_of_octets_def v128_octets_def le32_bytes_def)

lemma v128_octets_inject: "v128_octets x = v128_octets y \<longleftrightarrow> x = y"
  by (metis v128_of_octets_octets)

lemma v128_octets_xor: "v128_octets (v128_xor x y) = xor_octets (v128_octets x) (v128_octets y)"
  by (cases x; cases y) (simp add: v128_octets_def xor_octets_def le32_bytes_xor zip_append)

lemma v128_xor_cancel [simp]: "v128_xor (v128_xor x y) y = x" "v128_xor x (v128_xor x y) = y"
   apply (cases x; cases y; simp add: xor.assoc)
  apply (cases x; cases y; simp flip: xor.assoc)
  done

lemma v128_xor_commute: "v128_xor x y = v128_xor y x"
  by (cases x; cases y) (simp add: xor.commute)

lemma v128_xor_assoc: "v128_xor (v128_xor x y) z = v128_xor x (v128_xor y z)"
  by (cases x; cases y; cases z) (simp add: xor.assoc)

lemma v128_xor_zero [simp]: "v128_xor x (V128 0 0 0 0) = x" "v128_xor (V128 0 0 0 0) x = x"
  by (cases x; simp)+

lemma v128_is_eq_iff: "v128_is_eq x y \<longleftrightarrow> x = y"
  by (cases x; cases y) (auto simp: v128_is_eq_def)

subsection \<open>Octet strings\<close>

text \<open>
  \<^verbatim>\<open>octet_string_is_eq\<close> returns 1 when the strings differ. \<open>None\<close> is a read past the end of one of
  the two buffers.
\<close>

fun octet_string_is_eq :: "octets \<Rightarrow> octets \<Rightarrow> nat \<Rightarrow> int option" where
  "octet_string_is_eq a b 0 = Some 0"
| "octet_string_is_eq (x # a) (y # b) (Suc len) =
     (if x \<noteq> y then Some 1 else octet_string_is_eq a b len)"
| "octet_string_is_eq _ _ (Suc len) = None"

text \<open>
  \<^verbatim>\<open>octet_string_set_to_zero\<close> is a \<^verbatim>\<open>do\<close>-\<^verbatim>\<open>while\<close> loop: it clears at least one octet, whatever
  the length. \<open>None\<close> is a write past the end of the buffer.
\<close>

fun octet_string_set_to_zero :: "octets \<Rightarrow> nat \<Rightarrow> octets option" where
  "octet_string_set_to_zero [] len = None"
| "octet_string_set_to_zero (b # s) len =
     (if 1 < len then map_option ((#) 0) (octet_string_set_to_zero s (len - 1)) else Some (0 # s))"

lemma octet_string_is_eq_take:
  "len \<le> length a \<Longrightarrow> len \<le> length b \<Longrightarrow>
     octet_string_is_eq a b len = Some (if take len a = take len b then 0 else 1)"
  by (induction a b len rule: octet_string_is_eq.induct) auto

lemma octet_string_set_to_zero_eq:
  "octet_string_set_to_zero s len =
     (if max 1 len \<le> length s then Some (replicate (max 1 len) 0 @ drop (max 1 len) s) else None)"
proof (induction s len rule: octet_string_set_to_zero.induct)
  case (1 len)
  then show ?case by simp
next
  case (2 b s len)
  show ?case
  proof (cases "1 < len")
    case True
    then obtain m where m: "len = Suc (Suc m)" by (cases len; cases "len - 1") auto
    with 2 show ?thesis by simp
  next
    case False
    then show ?thesis by (simp add: max_def)
  qed
qed

subsection \<open>Weights, hexadecimal and base 64 strings\<close>

definition octets_of_string :: "string \<Rightarrow> octets" where
  "octets_of_string s = map of_char s"

text \<open>A \<^verbatim>\<open>switch\<close> over character constants is an association list with a default.\<close>

definition switch :: "(u8 \<times> int) list \<Rightarrow> int \<Rightarrow> u8 \<Rightarrow> int" where
  "switch tab d c = (case map_of tab c of None \<Rightarrow> d | Some n \<Rightarrow> n)"

definition octet_weight :: "nat list" where
  "octet_weight = [
  0, 1, 1, 2, 1, 2, 2, 3,
  1, 2, 2, 3, 2, 3, 3, 4,
  1, 2, 2, 3, 2, 3, 3, 4,
  2, 3, 3, 4, 3, 4, 4, 5,
  1, 2, 2, 3, 2, 3, 3, 4,
  2, 3, 3, 4, 3, 4, 4, 5,
  2, 3, 3, 4, 3, 4, 4, 5,
  3, 4, 4, 5, 4, 5, 5, 6,
  1, 2, 2, 3, 2, 3, 3, 4,
  2, 3, 3, 4, 3, 4, 4, 5,
  2, 3, 3, 4, 3, 4, 4, 5,
  3, 4, 4, 5, 4, 5, 5, 6,
  2, 3, 3, 4, 3, 4, 4, 5,
  3, 4, 4, 5, 4, 5, 5, 6,
  3, 4, 4, 5, 4, 5, 5, 6,
  4, 5, 5, 6, 5, 6, 6, 7,
  1, 2, 2, 3, 2, 3, 3, 4,
  2, 3, 3, 4, 3, 4, 4, 5,
  2, 3, 3, 4, 3, 4, 4, 5,
  3, 4, 4, 5, 4, 5, 5, 6,
  2, 3, 3, 4, 3, 4, 4, 5,
  3, 4, 4, 5, 4, 5, 5, 6,
  3, 4, 4, 5, 4, 5, 5, 6,
  4, 5, 5, 6, 5, 6, 6, 7,
  2, 3, 3, 4, 3, 4, 4, 5,
  3, 4, 4, 5, 4, 5, 5, 6,
  3, 4, 4, 5, 4, 5, 5, 6,
  4, 5, 5, 6, 5, 6, 6, 7,
  3, 4, 4, 5, 4, 5, 5, 6,
  4, 5, 5, 6, 5, 6, 6, 7,
  4, 5, 5, 6, 5, 6, 6, 7,
  5, 6, 6, 7, 6, 7, 7, 8]"

definition octet_get_weight :: "u8 \<Rightarrow> nat" where
  "octet_get_weight octet = octet_weight ! unat octet"

definition nibble_to_hex_char :: "u8 \<Rightarrow> u8" where
  "nibble_to_hex_char nibble = octets_of_string ''0123456789abcdef'' ! unat (nibble AND 0xF)"

definition hex_char_to_nibble :: "u8 \<Rightarrow> int" where
  "hex_char_to_nibble = switch
     (zip (octets_of_string ''0123456789aAbBcCdDeEfF'')
          [0x0, 0x1, 0x2, 0x3, 0x4, 0x5, 0x6, 0x7, 0x8, 0x9, 0xa, 0xa, 0xb, 0xb, 0xc, 0xc,
           0xd, 0xd, 0xe, 0xe, 0xf, 0xf]) (- 1)"

text \<open>A C string ends at its first zero octet; \<open>None\<close> is a string without one.\<close>

fun is_hex_string :: "octets \<Rightarrow> int option" where
  "is_hex_string [] = None"
| "is_hex_string (c # s) =
     (if c = 0 then Some 1
      else if hex_char_to_nibble c = - 1 then Some 0 else is_hex_string s)"

text \<open>
  The printing functions fill the static buffer \<^verbatim>\<open>bit_string\<close> of \<open>1024\<close> characters
  (\<^verbatim>\<open>MAX_PRINT_STRING_LEN\<close>). The result is the string before the terminating zero; \<open>None\<close> is a
  read past the argument or a store past the static buffer.
\<close>

fun hex_string_loop :: "octets \<Rightarrow> nat \<Rightarrow> nat \<Rightarrow> octets option" where
  "hex_string_loop str i len =
     (if i < len then
        (case str of
           [] \<Rightarrow> None
         | s # str' \<Rightarrow>
             (case hex_string_loop str' (i + 2) len of
                None \<Rightarrow> None
              | Some r \<Rightarrow> Some (nibble_to_hex_char (drop_bit 4 s) # nibble_to_hex_char (s AND 0xF) # r)))
      else if i < 1024 then Some [] else None)"

declare hex_string_loop.simps [simp del]

definition octet_string_hex_string :: "octets \<Rightarrow> nat \<Rightarrow> octets option" where
  "octet_string_hex_string str len =
     (let len2 = 2 * len; len3 = (if len2 > 1024 then 1024 - 1 else len2)
      in hex_string_loop str 0 len3)"

definition v128_hex_string :: "v128_t \<Rightarrow> octets" where
  "v128_hex_string x =
     concat (map (\<lambda>i. [nibble_to_hex_char (drop_bit 4 (v8 x i)), nibble_to_hex_char (v8 x i AND 0xF)])
       [0..<16])"

definition v128_bit_string :: "v128_t \<Rightarrow> octets" where
  "v128_bit_string x =
     concat (map (\<lambda>j. map (\<lambda>k. if v32 x j AND drop_bit k 0x80000000 \<noteq> 0 then 0x31 else 0x30) [0..<32])
       [0..<4])"

fun hex_string_to_octet_string :: "octets \<Rightarrow> nat \<Rightarrow> nat \<Rightarrow> (nat \<times> octets) option" where
  "hex_string_to_octet_string hex hex_len len =
     (if hex_len < len then
        (case hex of
           [] \<Rightarrow> None
         | c0 # hex' \<Rightarrow>
             if hex_char_to_nibble c0 = - 1 then Some (hex_len, [])
             else (case hex' of
                [] \<Rightarrow> None
              | c1 # hex'' \<Rightarrow>
                  if hex_char_to_nibble c1 = - 1 then Some (hex_len + 1, [])
                  else
                    let x = push_bit 4 (word_of_int (hex_char_to_nibble c0)) OR
                            (word_of_int (hex_char_to_nibble c1) AND 0xff)
                    in map_option (\<lambda>(n, raw). (n, x # raw))
                         (hex_string_to_octet_string hex'' (hex_len + 2) len)))
      else Some (hex_len, []))"

declare hex_string_to_octet_string.simps [simp del]

definition base64_char_to_sextet :: "u8 \<Rightarrow> int" where
  "base64_char_to_sextet = switch
     (zip (octets_of_string ''ABCDEFGHIJKLMNOPQRSTUVWXYZabcdefghijklmnopqrstuvwxyz0123456789+/='')
        [0..64]) (- 1)"

fun base64_string_to_octet_string :: "octets \<Rightarrow> nat \<Rightarrow> nat \<Rightarrow> (nat \<times> octets) option" where
  "base64_string_to_octet_string base64 base64_len len =
     (if base64_len < len then
        (case base64 of
           [] \<Rightarrow> None
         | c0 # base64' \<Rightarrow>
             if base64_char_to_sextet c0 = - 1 then Some (base64_len, [])
             else (case base64' of
                [] \<Rightarrow> None
              | c1 # base64'' \<Rightarrow>
                  if base64_char_to_sextet c1 = - 1 then Some (base64_len + 1, [])
                  else
                    let x = push_bit 6 (word_of_int (base64_char_to_sextet c0)) OR
                            word_of_int (base64_char_to_sextet c1)
                    in map_option (\<lambda>(n, raw). (n, x # raw))
                         (base64_string_to_octet_string base64'' (base64_len + 2) len)))
      else Some (base64_len, []))"

declare base64_string_to_octet_string.simps [simp del]

subsection \<open>Properties of the conversions\<close>

lemma nibble_of_hex_char:
  "hex_char_to_nibble (nibble_to_hex_char b) = uint (b AND 0xF)"
proof (rule all_octetsI [where w = b])
  show "list_all (\<lambda>b. hex_char_to_nibble (nibble_to_hex_char b) = uint (b AND 0xF)) all_octets"
    by code_simp
qed

lemma octet_of_nibbles: "push_bit 4 (word_of_int (uint (drop_bit 4 b AND 0xF))) OR
    (word_of_int (uint (b AND 0xF AND 0xF)) AND 0xff) = (b :: u8)"
proof (rule all_octetsI [where w = b])
  show "list_all (\<lambda>b. push_bit 4 (word_of_int (uint (drop_bit 4 b AND 0xF))) OR
    (word_of_int (uint (b AND 0xF AND 0xF)) AND 0xff) = (b :: u8)) all_octets"
    by (simp add: all_octets_def)
qed

lemma octet_weight_popcount: "octet_get_weight w = length (filter (bit w) [0..<8])"
  unfolding octet_get_weight_def
  by (rule table_lookup) (simp add: all_octets_def octet_weight_def upt_rec)

lemma hex_string_loop_eq:
  "i + 2 * n < 1024 \<Longrightarrow> n \<le> length str \<Longrightarrow> hex_string_loop str i (i + 2 * n) =
     Some (concat (map (\<lambda>s. [nibble_to_hex_char (drop_bit 4 s), nibble_to_hex_char (s AND 0xF)]) (take n str)))"
proof (induction n arbitrary: str i)
  case 0
  then show ?case by (simp add: hex_string_loop.simps)
next
  case (Suc n)
  then obtain s str' where str: "str = s # str'" by (cases str) auto
  have "hex_string_loop str' (i + 2) (i + 2 + 2 * n) = Some (concat (map (\<lambda>s. [nibble_to_hex_char
      (drop_bit 4 s), nibble_to_hex_char (s AND 0xF)]) (take n str')))"
    using Suc.prems str by (intro Suc.IH) auto
  then show ?case using Suc.prems by (simp add: str hex_string_loop.simps [of _ i])
qed

lemma hex_string_loop_overrun:
  "even i \<Longrightarrow> i \<le> 1024 \<Longrightarrow> len = 1023 \<or> len = 1024 \<Longrightarrow> hex_string_loop str i len = None"
proof (induction str arbitrary: i)
  case Nil
  then have "i < len \<or> i = 1024" by (auto elim!: evenE)
  then show ?case by (auto simp: hex_string_loop.simps)
next
  case (Cons s str)
  show ?case
  proof (cases "i < len")
    case True
    then have "i + 2 \<le> 1024" using Cons.prems by (auto elim!: evenE)
    with Cons.IH [of "i + 2"] Cons.prems True show ?thesis by (simp add: hex_string_loop.simps [of "s # str"])
  next
    case False
    then have "i = 1024" using Cons.prems by (auto elim!: evenE)
    with False show ?thesis by (simp add: hex_string_loop.simps [of "s # str"])
  qed
qed

lemma hex_string_to_octet_string_print:
  "hex_string_to_octet_string
     (concat (map (\<lambda>s. [nibble_to_hex_char (drop_bit 4 s), nibble_to_hex_char (s AND 0xF)]) str) @ rest)
     m (m + 2 * length str) = Some (m + 2 * length str, str)"
proof (induction str arbitrary: m)
  case Nil
  then show ?case by (simp add: hex_string_to_octet_string.simps)
next
  case (Cons s str)
  have nonneg: "uint (b AND 0xF :: u8) \<noteq> - 1" for b :: u8
    using uint_nonnegative [of "b AND 0xF"] by linarith
  have *: "push_bit 4 (word_of_int (uint (drop_bit 4 s AND 0xF))) OR
      (word_of_int (uint (s AND 0xF AND 0xF)) AND 0xff) = (s :: u8)"
    by (rule octet_of_nibbles)
  show ?case
    using Cons.IH [of "m + 2"] nonneg *
    by (simp add: hex_string_to_octet_string.simps [of "_ # _"] nibble_of_hex_char Let_def del: word_of_int_uint)
qed

text \<open>
  Printing an octet string of at most 511 octets in hexadecimal and parsing the characters back
  with twice the length gives the octet string, whatever follows the characters in memory.
\<close>

theorem hex_string_roundtrip:
  assumes "len < 512" and "len \<le> length str"
  shows "\<exists>hex. octet_string_hex_string str len = Some hex \<and> length hex = 2 * len \<and>
    hex_string_to_octet_string (hex @ rest) 0 (2 * len) = Some (2 * len, take len str)"
proof -
  have "octet_string_hex_string str len =
      Some (concat (map (\<lambda>s. [nibble_to_hex_char (drop_bit 4 s), nibble_to_hex_char (s AND 0xF)]) (take len str)))"
    using hex_string_loop_eq [of 0 len str] assms by (simp add: octet_string_hex_string_def)
  moreover have "length (concat (map (\<lambda>s. [nibble_to_hex_char (drop_bit 4 s), nibble_to_hex_char (s AND 0xF)])
      (take len str))) = 2 * len"
    using assms by (simp add: length_concat comp_def sum_list_triv)
  moreover have "length (take len str) = len" using assms by simp
  ultimately show ?thesis
    using hex_string_to_octet_string_print [of "take len str" rest 0] by auto
qed

theorem hex_string_roundtrip_witness:
  "\<exists>hex. octet_string_hex_string [0xc0, 0x5a] 2 = Some hex \<and> length hex = 4 \<and>
    hex_string_to_octet_string (hex @ [0]) 0 4 = Some (4, [0xc0, 0x5a])"
  using hex_string_roundtrip [of 2 "[0xc0, 0x5a]" "[0]"] by simp

end
