(* ===== verification/Streaming.thy ===== *)
theory Streaming
  imports Datatypes
begin

text \<open>
  The contract of a streaming hash: a context that is initialised, fed octet strings and finished
  computes the hash of their concatenation. SHA-1 interprets the locale; HMAC uses its lemmas.
  \<open>wf\<close> are the contexts that may be initialised, \<open>holds c m\<close> says that the context \<open>c\<close> has absorbed
  \<open>m\<close>, and \<open>limit\<close> bounds the length of a message.
\<close>

locale streaming_hash =
  fixes wf :: "'c \<Rightarrow> bool" and holds :: "'c \<Rightarrow> octets \<Rightarrow> bool" and limit :: nat
    and init :: "'c \<Rightarrow> 'c" and update :: "'c \<Rightarrow> octets \<Rightarrow> 'c" and final :: "'c \<Rightarrow> 'c \<times> octets"
    and hash :: "octets \<Rightarrow> octets"
  assumes init_holds: "wf c \<Longrightarrow> holds (init c) []"
    and update_holds: "holds c m \<Longrightarrow> holds (update c x) (m @ x)"
    and final_hash: "holds c m \<Longrightarrow> length m < limit \<Longrightarrow> snd (final c) = hash m"
    and holds_wf: "holds c m \<Longrightarrow> wf c"
    and final_wf: "holds c m \<Longrightarrow> wf (fst (final c))"
begin

lemma updates_hold: "holds c m \<Longrightarrow> holds (fold (\<lambda>x c. update c x) xs c) (m @ concat xs)"
proof (induction xs arbitrary: c m)
  case (Cons x xs)
  from Cons.IH [OF update_holds [OF Cons.prems, of x]] show ?case by simp
qed simp

lemma streamed:
  assumes "wf c" and "length (concat xs) < limit"
  shows "snd (final (fold (\<lambda>x c. update c x) xs (init c))) = hash (concat xs)"
  using updates_hold [OF init_holds [OF assms(1)], of xs] assms(2) by (simp add: final_hash)

text \<open>A hash of a prefix and another hash, as HMAC finishes a tag.\<close>

lemma holds_init_update: "wf c \<Longrightarrow> holds (update (init c) x) x"
  using update_holds [OF init_holds] by fastforce

end

end
