(* ===== verification/Sha1.thy ===== *)
theory Sha1
  imports Streaming
begin

text \<open>
  SHA-1 as \<^verbatim>\<open>crypto/hash/sha1.c\<close> computes it: the compression of one block, the buffered streaming
  interface and the padding done word by word in \<^verbatim>\<open>sha1_final\<close>. The reference is the standard's
  definition (recursive message schedule, round functions by index, padding of the whole message);
  the lemmas show that any sequence of updates followed by the final call computes it.
\<close>

type_synonym sha1_state = "u32 \<times> u32 \<times> u32 \<times> u32 \<times> u32"

definition S1 :: "u32 \<Rightarrow> u32" where "S1 X = push_bit 1 X OR drop_bit 31 X"
definition S5 :: "u32 \<Rightarrow> u32" where "S5 X = push_bit 5 X OR drop_bit 27 X"
definition S30 :: "u32 \<Rightarrow> u32" where "S30 X = push_bit 30 X OR drop_bit 2 X"

definition f0 :: "u32 \<Rightarrow> u32 \<Rightarrow> u32 \<Rightarrow> u32" where "f0 B C D = (B AND C) OR (NOT B AND D)"
definition f1 :: "u32 \<Rightarrow> u32 \<Rightarrow> u32 \<Rightarrow> u32" where "f1 B C D = B XOR C XOR D"
definition f2 :: "u32 \<Rightarrow> u32 \<Rightarrow> u32 \<Rightarrow> u32" where "f2 B C D = (B AND C) OR (B AND D) OR (C AND D)"
definition f3 :: "u32 \<Rightarrow> u32 \<Rightarrow> u32 \<Rightarrow> u32" where "f3 B C D = B XOR C XOR D"

abbreviation (input) SHA_K0 :: u32 where "SHA_K0 \<equiv> 0x5A827999"
abbreviation (input) SHA_K1 :: u32 where "SHA_K1 \<equiv> 0x6ED9EBA1"
abbreviation (input) SHA_K2 :: u32 where "SHA_K2 \<equiv> 0x8F1BBCDC"
abbreviation (input) SHA_K3 :: u32 where "SHA_K3 \<equiv> 0xCA62C1D6"

text \<open>The message schedule: one word appended to the array, until it has 80 words.\<close>

definition W_extend :: "u32 list \<Rightarrow> u32 list" where
  "W_extend W = (let t = length W;
     TEMP = W ! (t - 3) XOR W ! (t - 8) XOR W ! (t - 14) XOR W ! (t - 16) in W @ [S1 TEMP])"

definition W_schedule :: "u32 list \<Rightarrow> u32 list" where
  "W_schedule W = (W_extend ^^ 64) W"

definition sha1_round ::
  "(u32 \<Rightarrow> u32 \<Rightarrow> u32 \<Rightarrow> u32) \<Rightarrow> u32 \<Rightarrow> u32 list \<Rightarrow> nat \<Rightarrow> sha1_state \<Rightarrow> sha1_state" where
  "sha1_round f K W t = (\<lambda>(A, B, C, D, E).
     (S5 A + f B C D + E + W ! t + K, A, S30 B, C, D))"

text \<open>The four loops over the schedule, and the addition to the state vector.\<close>

definition sha1_process :: "u32 list \<Rightarrow> sha1_state \<Rightarrow> sha1_state" where
  "sha1_process W = (\<lambda>(H0, H1, H2, H3, H4).
     let (A, B, C, D, E) =
       fold (sha1_round f3 SHA_K3 W) [60..<80]
         (fold (sha1_round f2 SHA_K2 W) [40..<60]
           (fold (sha1_round f1 SHA_K1 W) [20..<40]
             (fold (sha1_round f0 SHA_K0 W) [0..<20] (H0, H1, H2, H3, H4))))
     in (H0 + A, H1 + B, H2 + C, H3 + D, H4 + E))"

text \<open>The words of the message buffer, read from its octets on a little-endian host.\<close>

definition M_word :: "octets \<Rightarrow> nat \<Rightarrow> u32" where
  "M_word M i = le32_of (M ! (4 * i)) (M ! (4 * i + 1)) (M ! (4 * i + 2)) (M ! (4 * i + 3))"

definition sha1_core :: "octets \<Rightarrow> sha1_state \<Rightarrow> sha1_state" where
  "sha1_core M hash_value =
     sha1_process (W_schedule (map (\<lambda>i. bswap32 (M_word M i)) [0..<16])) hash_value"

record sha1_ctx_t =
  sha1_H :: sha1_state
  sha1_M :: octets
  octets_in_buffer :: nat
  num_bits_in_msg :: u32

definition sha1_init :: "sha1_ctx_t \<Rightarrow> sha1_ctx_t" where
  "sha1_init ctx = ctx\<lparr>
     sha1_H := (0x67452301, 0xefcdab89, 0x98badcfe, 0x10325476, 0xc3d2e1f0),
     octets_in_buffer := 0, num_bits_in_msg := 0\<rparr>"

text \<open>The loop of \<^verbatim>\<open>sha1_update\<close>; \<open>msg\<close> holds the octets that are left.\<close>

function sha1_update_loop :: "sha1_ctx_t \<Rightarrow> octets \<Rightarrow> sha1_ctx_t" where
  "sha1_update_loop ctx msg =
     (if msg = [] then ctx
      else if length msg + octets_in_buffer ctx \<ge> 64 then
        (let n = 64 - octets_in_buffer ctx;
             M = write_at (octets_in_buffer ctx) (take n msg) (sha1_M ctx)
         in sha1_update_loop
              (ctx\<lparr>sha1_M := M, octets_in_buffer := 0, sha1_H := sha1_core M (sha1_H ctx)\<rparr>)
              (drop n msg))
      else ctx\<lparr>sha1_M := write_at (octets_in_buffer ctx) msg (sha1_M ctx),
               octets_in_buffer := octets_in_buffer ctx + length msg\<rparr>)"
  by auto
termination
  by (relation "measure (\<lambda>(ctx, msg). length msg + (if octets_in_buffer ctx \<ge> 64 then 1 else 0))") auto

declare sha1_update_loop.simps [simp del]

definition sha1_update :: "sha1_ctx_t \<Rightarrow> octets \<Rightarrow> sha1_ctx_t" where
  "sha1_update ctx msg =
     sha1_update_loop (ctx\<lparr>num_bits_in_msg := num_bits_in_msg ctx + of_nat (length msg * 8)\<rparr>) msg"

text \<open>
  The first word array of \<^verbatim>\<open>sha1_final\<close>: the buffered words, the octet \<open>0x80\<close> behind the message,
  zeros, and the bit count when there is room for it.
\<close>

definition final_words :: "sha1_ctx_t \<Rightarrow> u32 list" where
  "final_words ctx =
     (let n = octets_in_buffer ctx; tail = n mod 4; i = (n + 3) div 4;
          be = (\<lambda>j. bswap32 (M_word (sha1_M ctx) j));
          W = map be [0..<i];
          W = (if tail = 3 then W[i - 1 := (be (i - 1) AND 0xffffff00) OR 0x80] @ [0]
               else if tail = 2 then W[i - 1 := (be (i - 1) AND 0xffff0000) OR 0x8000] @ [0]
               else if tail = 1 then W[i - 1 := (be (i - 1) AND 0xff000000) OR 0x800000] @ [0]
               else W @ [0x80000000]);
          W = W @ replicate (15 - length W) 0
      in if n < 56 then take 15 W @ [num_bits_in_msg ctx]
         else if n < 60 then take 15 W @ [0]
         else take 16 W)"

definition final_extra_words :: "sha1_ctx_t \<Rightarrow> u32 list" where
  "final_extra_words ctx = replicate 15 0 @ [num_bits_in_msg ctx]"

text \<open>The output is written in network byte order: the 20 octets of the state vector.\<close>

fun sha1_output :: "sha1_state \<Rightarrow> octets" where
  "sha1_output (a, b, c, d, e) = concat (map (\<lambda>h. le32_bytes (bswap32 h)) [a, b, c, d, e])"

definition sha1_final :: "sha1_ctx_t \<Rightarrow> sha1_ctx_t \<times> octets" where
  "sha1_final ctx =
     (let H = sha1_process (W_schedule (final_words ctx)) (sha1_H ctx);
          H = (if octets_in_buffer ctx \<ge> 56
               then sha1_process (W_schedule (final_extra_words ctx)) H else H)
      in (ctx\<lparr>sha1_H := H, octets_in_buffer := 0\<rparr>, sha1_output H))"

definition sha1 :: "sha1_ctx_t \<Rightarrow> octets \<Rightarrow> octets" where
  "sha1 ctx msg = snd (sha1_final (sha1_update (sha1_init ctx) msg))"

subsection \<open>The standard's definition\<close>

fun fips_W :: "(nat \<Rightarrow> u32) \<Rightarrow> nat \<Rightarrow> u32" where
  "fips_W M t =
     (if t < 16 then M t
      else word_rotl 1 (fips_W M (t - 3) XOR fips_W M (t - 8) XOR fips_W M (t - 14) XOR fips_W M (t - 16)))"

declare fips_W.simps [simp del]

definition fips_f :: "nat \<Rightarrow> u32 \<Rightarrow> u32 \<Rightarrow> u32 \<Rightarrow> u32" where
  "fips_f t x y z =
     (if t < 20 then (x AND y) XOR (NOT x AND z)
      else if t < 40 then x XOR y XOR z
      else if t < 60 then (x AND y) XOR (x AND z) XOR (y AND z)
      else x XOR y XOR z)"

definition fips_K :: "nat \<Rightarrow> u32" where
  "fips_K t = (if t < 20 then 0x5a827999 else if t < 40 then 0x6ed9eba1
     else if t < 60 then 0x8f1bbcdc else 0xca62c1d6)"

definition fips_step :: "(nat \<Rightarrow> u32) \<Rightarrow> nat \<Rightarrow> sha1_state \<Rightarrow> sha1_state" where
  "fips_step W t = (\<lambda>(a, b, c, d, e).
     (word_rotl 5 a + fips_f t b c d + e + fips_K t + W t, a, word_rotl 30 b, c, d))"

definition fips_block_word :: "octets \<Rightarrow> nat \<Rightarrow> u32" where
  "fips_block_word b t = be32_of (b ! (4 * t)) (b ! (4 * t + 1)) (b ! (4 * t + 2)) (b ! (4 * t + 3))"

definition fips_compress :: "sha1_state \<Rightarrow> octets \<Rightarrow> sha1_state" where
  "fips_compress = (\<lambda>(h0, h1, h2, h3, h4) b.
     let (a, b, c, d, e) = fold (fips_step (fips_W (fips_block_word b))) [0..<80] (h0, h1, h2, h3, h4)
     in (a + h0, b + h1, c + h2, d + h3, e + h4))"

function fips_blocks :: "sha1_state \<Rightarrow> octets \<Rightarrow> sha1_state" where
  "fips_blocks H m =
     (if length m < 64 then H else fips_blocks (fips_compress H (take 64 m)) (drop 64 m))"
  by auto
termination by (relation "measure (\<lambda>(H, m). length m)") auto

declare fips_blocks.simps [simp del]

definition fips_H0 :: sha1_state where
  "fips_H0 = (0x67452301, 0xefcdab89, 0x98badcfe, 0x10325476, 0xc3d2e1f0)"

definition be64_bytes :: "u64 \<Rightarrow> octets" where
  "be64_bytes w = be32_bytes (ucast (drop_bit 32 w)) @ be32_bytes (ucast w)"

text \<open>The message, the octet \<open>0x80\<close>, the fewest zeros that make whole blocks, the 64-bit length.\<close>

definition fips_pad :: "octets \<Rightarrow> octets" where
  "fips_pad m = m @ [0x80] @ replicate ((119 - length m mod 64) mod 64) 0 @
     be64_bytes (of_nat (8 * length m))"

fun fips_output :: "sha1_state \<Rightarrow> octets" where
  "fips_output (a, b, c, d, e) = be32_bytes a @ be32_bytes b @ be32_bytes c @ be32_bytes d @ be32_bytes e"

definition fips_sha1 :: "octets \<Rightarrow> octets" where
  "fips_sha1 m = fips_output (fips_blocks fips_H0 (fips_pad m))"

subsection \<open>The compression function\<close>

lemma shift_or_rotl:
  assumes "0 < n" "n < 32"
  shows "push_bit n (x :: u32) OR drop_bit (32 - n) x = word_rotl n x"
proof (rule bit_word_eqI)
  fix k assume "k < LENGTH(32)"
  then have k: "k < 32" and l32: "LENGTH(32) = (32 :: nat)" by simp_all
  have "bit (push_bit n x OR drop_bit (32 - n) x) k \<longleftrightarrow> bit x (if k < n then (32 - n) + k else k - n)"
    using assms k by (auto simp: bit_or_iff bit_push_bit_iff bit_drop_bit_eq dest: bit_imp_le_length)
  moreover have "bit (word_rotl n x) k \<longleftrightarrow> bit x ((k + (32 - n)) mod 32)"
    using assms k l32 by (simp only: bit_word_rotl_iff l32 mod_less simp_thms)
  moreover have "(k + (32 - n)) mod 32 = (if k < n then (32 - n) + k else k - n)"
    using assms k by (auto simp: mod_if)
  ultimately show "bit (push_bit n x OR drop_bit (32 - n) x) k = bit (word_rotl n x) k" by (simp only:)
qed

lemma S_eq_rotl: "S1 x = word_rotl 1 x" "S5 x = word_rotl 5 x" "S30 x = word_rotl 30 x"
  using shift_or_rotl [of 1 x] shift_or_rotl [of 5 x] shift_or_rotl [of 30 x]
  by (simp_all add: S1_def S5_def S30_def)

lemma f_eq_fips:
  "t < 20 \<Longrightarrow> fips_f t = f0" "20 \<le> t \<Longrightarrow> t < 40 \<Longrightarrow> fips_f t = f1"
  "40 \<le> t \<Longrightarrow> t < 60 \<Longrightarrow> fips_f t = f2" "60 \<le> t \<Longrightarrow> fips_f t = f3"
  by (auto intro!: ext bit_word_eqI simp: fips_f_def f0_def f1_def f2_def f3_def bit_simps)

lemma W_extend_iterate:
  assumes "length W = 16"
  shows "length ((W_extend ^^ n) W) = 16 + n \<and> (\<forall>t < 16 + n. (W_extend ^^ n) W ! t = fips_W (nth W) t)"
proof (induction n)
  case 0
  then show ?case using assms by (simp add: fips_W.simps)
next
  case (Suc n)
  let ?V = "(W_extend ^^ n) W"
  have len: "length ?V = 16 + n" and IH: "t < 16 + n \<Longrightarrow> ?V ! t = fips_W (nth W) t" for t
    using Suc by auto
  have "W_extend ?V = ?V @ [fips_W (nth W) (16 + n)]"
    using len by (subst fips_W.simps) (simp add: W_extend_def Let_def IH S_eq_rotl)
  then have "(W_extend ^^ Suc n) W ! t = fips_W (nth W) t" if "t < 16 + Suc n" for t
    using that len IH [of t] by (cases "t = 16 + n") (simp_all add: nth_append)
  then show ?case using len \<open>W_extend ?V = _\<close> by simp
qed

lemma W_schedule_nth:
  "length W = 16 \<Longrightarrow> t < 80 \<Longrightarrow> W_schedule W ! t = fips_W (nth W) t"
  using W_extend_iterate [of W 64] by (simp add: W_schedule_def)

lemma fips_W_cong: "(\<And>i. i < 16 \<Longrightarrow> f i = g i) \<Longrightarrow> fips_W f t = fips_W g t"
proof (induction t rule: less_induct)
  case (less t)
  then show ?case by (cases "t < 16") (simp_all add: fips_W.simps [of _ t])
qed

lemma sha1_round_fips:
  assumes "length W = 16" and "t < 80" and "fips_f t = f" and "fips_K t = K"
  shows "sha1_round f K (W_schedule W) t = fips_step (fips_W (nth W)) t"
  using assms by (auto simp: sha1_round_def fips_step_def W_schedule_nth S_eq_rotl algebra_simps)

lemma sha1_process_compress:
  assumes "\<And>i. i < 16 \<Longrightarrow> fips_block_word b i = W ! i" and "length W = 16"
  shows "sha1_process (W_schedule W) H = fips_compress H b"
proof -
  have W: "fips_W (fips_block_word b) = fips_W (nth W)" using assms(1) by (intro ext fips_W_cong)
  have seg: "fold (sha1_round f K (W_schedule W)) [i..<j] S = fold (fips_step (fips_W (nth W))) [i..<j] S"
    if "j \<le> 80" "\<And>t. i \<le> t \<Longrightarrow> t < j \<Longrightarrow> fips_f t = f \<and> fips_K t = K" for f K i j S
    using that assms(2) by (intro fold_cong) (auto intro!: sha1_round_fips)
  have "[0..<80] = [0..<20] @ [20..<40] @ [40..<60] @ [60..<80]"
    using upt_add_eq_append [of 0 60 20] upt_add_eq_append [of 0 40 20] upt_add_eq_append [of 0 20 20] by simp
  then have fold80: "fold s [0..<80] S = fold s [60..<80] (fold s [40..<60] (fold s [20..<40] (fold s [0..<20] S)))"
    for s :: "nat \<Rightarrow> sha1_state \<Rightarrow> sha1_state" and S by simp
  have segs: "fold (sha1_round f0 SHA_K0 (W_schedule W)) [0..<20] S = fold (fips_step (fips_W (nth W))) [0..<20] S"
    "fold (sha1_round f1 SHA_K1 (W_schedule W)) [20..<40] S = fold (fips_step (fips_W (nth W))) [20..<40] S"
    "fold (sha1_round f2 SHA_K2 (W_schedule W)) [40..<60] S = fold (fips_step (fips_W (nth W))) [40..<60] S"
    "fold (sha1_round f3 SHA_K3 (W_schedule W)) [60..<80] S = fold (fips_step (fips_W (nth W))) [60..<80] S" for S
    by (rule seg; simp add: f_eq_fips fips_K_def)+
  obtain h0 h1 h2 h3 h4 where H: "H = (h0, h1, h2, h3, h4)" by (cases H)
  have "(let (a, b, c, d, e) = X in (h0 + a, h1 + b, h2 + c, h3 + d, h4 + e)) =
      (let (a, b, c, d, e) = X in (a + h0, b + h1, c + h2, d + h3, e + h4))" for X
    by (simp add: add.commute split: prod.split)
  then show ?thesis by (simp only: H sha1_process_def fips_compress_def W fold80 segs prod.case)
qed

lemma sha1_core_compress: "sha1_core M H = fips_compress H M"
  unfolding sha1_core_def
  by (rule sha1_process_compress) (simp_all add: fips_block_word_def M_word_def be32_of_def)

subsection \<open>Updates\<close>

lemma fips_blocks_short [simp]: "length m < 64 \<Longrightarrow> fips_blocks H m = H"
  by (simp add: fips_blocks.simps)

lemma fips_blocks_Cons: "length b = 64 \<Longrightarrow> fips_blocks H (b @ m) = fips_blocks (fips_compress H b) m"
  by (simp add: fips_blocks.simps [of H])

lemma fips_blocks_append: "64 dvd length a \<Longrightarrow> fips_blocks H (a @ b) = fips_blocks (fips_blocks H a) b"
proof (induction H a rule: fips_blocks.induct)
  case (1 H m)
  show ?case
  proof (cases "length m < 64")
    case True
    with "1.prems" have "m = []" by (auto dest: dvd_imp_le)
    then show ?thesis by simp
  next
    case False
    then have "64 dvd length (drop 64 m)" using "1.prems" by (simp add: dvd_diff_nat)
    with "1.IH" [OF False] False show ?thesis by (simp add: fips_blocks.simps [of H])
  qed
qed

text \<open>The context holds the message \<open>m\<close>: whole blocks \<open>a\<close> in the state, the rest \<open>b\<close> in the buffer.\<close>

definition sha1_holds :: "sha1_ctx_t \<Rightarrow> octets \<Rightarrow> bool" where
  "sha1_holds ctx m \<longleftrightarrow>
     (\<exists>a b. m = a @ b \<and> 64 dvd length a \<and> length b < 64 \<and> sha1_H ctx = fips_blocks fips_H0 a \<and>
        octets_in_buffer ctx = length b \<and> take (length b) (sha1_M ctx) = b) \<and>
     length (sha1_M ctx) = 64 \<and> num_bits_in_msg ctx = of_nat (8 * length m)"

lemma sha1_holdsI:
  assumes "m = a @ b" "64 dvd length a" "length b < 64" "sha1_H ctx = fips_blocks fips_H0 a"
    "octets_in_buffer ctx = length b" "take (length b) (sha1_M ctx) = b" "length (sha1_M ctx) = 64"
    "num_bits_in_msg ctx = of_nat (8 * length m)"
  shows "sha1_holds ctx m"
  using assms unfolding sha1_holds_def by blast

lemma sha1_init_holds: "length (sha1_M ctx) = 64 \<Longrightarrow> sha1_holds (sha1_init ctx) []"
  by (simp add: sha1_holds_def sha1_init_def fips_H0_def)

lemma sha1_update_loop_holds:
  assumes "64 dvd length a" "length b < 64" "sha1_H ctx = fips_blocks fips_H0 a"
    "octets_in_buffer ctx = length b" "take (length b) (sha1_M ctx) = b" "length (sha1_M ctx) = 64"
    "num_bits_in_msg ctx = of_nat (8 * length (a @ b @ msg))"
  shows "sha1_holds (sha1_update_loop ctx msg) (a @ b @ msg)"
  using assms
proof (induction ctx msg arbitrary: a b rule: sha1_update_loop.induct)
  case (1 ctx msg)
  let ?n = "64 - length b" let ?M = "write_at (length b) (take ?n msg) (sha1_M ctx)"
  consider "msg = []" | "msg \<noteq> []" "64 \<le> length msg + length b" | "msg \<noteq> []" "length msg + length b < 64"
    by linarith
  then show ?case
  proof cases
    case 1
    then show ?thesis using "1.prems" by (auto simp: sha1_update_loop.simps sha1_holds_def)
  next
    case 2
    have M: "?M = b @ take ?n msg" using 2 "1.prems" by (simp add: write_at_def)
    have "sha1_core ?M (sha1_H ctx) = fips_blocks fips_H0 (a @ ?M)"
      using 2 "1.prems" by (simp add: sha1_core_compress M fips_blocks_append fips_blocks_Cons [where m = "[]", simplified])
    moreover have "64 dvd length (a @ ?M)" using 2 "1.prems" by (simp add: M)
    moreover have "(a @ ?M) @ [] @ drop ?n msg = a @ b @ msg" by (simp add: M)
    moreover have "length ?M = 64" using 2 "1.prems" by (simp add: M)
    ultimately show ?thesis
      using "1.IH" [OF 2(1) _ refl refl, of "a @ ?M" "[]"] 2 "1.prems" by (simp add: sha1_update_loop.simps [of ctx] Let_def)
  next
    case 3
    then show ?thesis
      using "1.prems" by (intro sha1_holdsI [of _ a "b @ msg"]) (simp_all add: sha1_update_loop.simps write_at_def)
  qed
qed

lemma sha1_update_holds: "sha1_holds ctx m \<Longrightarrow> sha1_holds (sha1_update ctx msg) (m @ msg)"
  using sha1_update_loop_holds [where ctx = "ctx\<lparr>num_bits_in_msg := num_bits_in_msg ctx + of_nat (length msg * 8)\<rparr>"]
  by (auto simp: sha1_holds_def sha1_update_def algebra_simps)

subsection \<open>The final block\<close>

text \<open>The buffered octets followed by \<open>0x80\<close> and zeros, as an infinite octet string.\<close>

definition padded :: "octets \<Rightarrow> nat \<Rightarrow> u8" where
  "padded b x = (if x < length b then b ! x else if x = length b then 0x80 else 0)"

lemma bits_of_constants:
  "bit (0xffffff00 :: int) n \<longleftrightarrow> 8 \<le> n \<and> n < 32" "bit (0xffff0000 :: int) n \<longleftrightarrow> 16 \<le> n \<and> n < 32"
  "bit (0xff000000 :: int) n \<longleftrightarrow> 24 \<le> n \<and> n < 32" "bit (0x80 :: int) n \<longleftrightarrow> n = 7"
  "bit (0x8000 :: int) n \<longleftrightarrow> n = 15" "bit (0x800000 :: int) n \<longleftrightarrow> n = 23" "bit (0x80000000 :: int) n \<longleftrightarrow> n = 31"
proof -
  have *: "(0xffffff00 :: int) = push_bit 8 (mask 24)" "(0xffff0000 :: int) = push_bit 16 (mask 16)"
      "(0xff000000 :: int) = push_bit 24 (mask 8)" "(0x80 :: int) = push_bit 7 1"
      "(0x8000 :: int) = push_bit 15 1" "(0x800000 :: int) = push_bit 23 1" "(0x80000000 :: int) = push_bit 31 1"
    by (simp_all add: mask_eq_exp_minus_1)
  show "bit (0xffffff00 :: int) n \<longleftrightarrow> 8 \<le> n \<and> n < 32" "bit (0xffff0000 :: int) n \<longleftrightarrow> 16 \<le> n \<and> n < 32"
    "bit (0xff000000 :: int) n \<longleftrightarrow> 24 \<le> n \<and> n < 32" "bit (0x80 :: int) n \<longleftrightarrow> n = 7"
    "bit (0x8000 :: int) n \<longleftrightarrow> n = 15" "bit (0x800000 :: int) n \<longleftrightarrow> n = 23" "bit (0x80000000 :: int) n \<longleftrightarrow> n = 31"
    unfolding * by (auto simp only: bit_push_bit_iff bit_mask_iff bit_1_iff possible_bit_int)
qed

lemma be32_masks:
  "be32_of a b c 0x80 = (be32_of a b c d AND 0xffffff00) OR 0x80"
  "be32_of a b 0x80 0 = (be32_of a b c d AND 0xffff0000) OR 0x8000"
  "be32_of a 0x80 0 0 = (be32_of a b c d AND 0xff000000) OR 0x800000"
  "be32_of 0x80 0 0 0 = 0x80000000"
  "be32_of 0 0 0 0 = 0"
  by (rule bit_word_eqI; auto simp: be32_of_def bit_le32_of bit_and_iff bit_or_iff bits_of_constants)+

definition padded_word :: "octets \<Rightarrow> nat \<Rightarrow> u32" where
  "padded_word b j = be32_of (padded b (4 * j)) (padded b (4 * j + 1)) (padded b (4 * j + 2)) (padded b (4 * j + 3))"

lemma buffer_word:
  assumes "take n M = b" "length b = n"
  shows "4 * j + 4 \<le> n \<Longrightarrow> bswap32 (M_word M j) = padded_word b j"
    and "n = 4 * j + 3 \<Longrightarrow> (bswap32 (M_word M j) AND 0xffffff00) OR 0x80 = padded_word b j"
    and "n = 4 * j + 2 \<Longrightarrow> (bswap32 (M_word M j) AND 0xffff0000) OR 0x8000 = padded_word b j"
    and "n = 4 * j + 1 \<Longrightarrow> (bswap32 (M_word M j) AND 0xff000000) OR 0x800000 = padded_word b j"
    and "n = 4 * j \<Longrightarrow> 0x80000000 = padded_word b j"
    and "n < 4 * j \<Longrightarrow> 0 = padded_word b j"
proof -
  have M: "x < n \<Longrightarrow> M ! x = b ! x" for x using assms by (metis nth_take)
  have be: "bswap32 (M_word M j) = be32_of (M ! (4 * j)) (M ! (4 * j + 1)) (M ! (4 * j + 2)) (M ! (4 * j + 3))"
    by (simp add: M_word_def be32_of_def)
  show "4 * j + 4 \<le> n \<Longrightarrow> bswap32 (M_word M j) = padded_word b j"
    and "n = 4 * j + 3 \<Longrightarrow> (bswap32 (M_word M j) AND 0xffffff00) OR 0x80 = padded_word b j"
    and "n = 4 * j + 2 \<Longrightarrow> (bswap32 (M_word M j) AND 0xffff0000) OR 0x8000 = padded_word b j"
    and "n = 4 * j + 1 \<Longrightarrow> (bswap32 (M_word M j) AND 0xff000000) OR 0x800000 = padded_word b j"
    and "n = 4 * j \<Longrightarrow> 0x80000000 = padded_word b j"
    and "n < 4 * j \<Longrightarrow> 0 = padded_word b j"
    unfolding be using assms(2) by (simp_all add: padded_word_def padded_def M be32_masks flip: be32_masks(1-3))
qed

lemma switch_words:
  assumes "take n M = b" "length b = n" "n = 4 * q + r" "r < 4"
  defines "be \<equiv> \<lambda>j. bswap32 (M_word M j)"
  defines "W \<equiv> map be [0..<(n + 3) div 4]"
  shows "(if r = 3 then W[(n + 3) div 4 - 1 := (be ((n + 3) div 4 - 1) AND 0xffffff00) OR 0x80] @ [0]
      else if r = 2 then W[(n + 3) div 4 - 1 := (be ((n + 3) div 4 - 1) AND 0xffff0000) OR 0x8000] @ [0]
      else if r = 1 then W[(n + 3) div 4 - 1 := (be ((n + 3) div 4 - 1) AND 0xff000000) OR 0x800000] @ [0]
      else W @ [0x80000000]) = map (padded_word b) [0..<if r = 0 then Suc q else Suc (Suc q)]"
proof -
  have be: "bswap32 (M_word M q) = be q" by (simp add: be_def)
  note word = buffer_word [OF assms(1,2)]
  have pre: "map be [0..<q] = map (padded_word b) [0..<q]"
    using assms(3) by (intro map_cong) (auto simp: be_def intro: buffer_word(1) [OF assms(1,2)])
  have upd: "(map be [0..<q] @ [x])[q := y] = map (padded_word b) [0..<q] @ [y]" for x y
    unfolding pre by (simp add: list_update_append)
  have i: "(n + 3) div 4 = (if r = 0 then q else Suc q)" using assms(3,4) by auto
  consider "r = 0" | "r = 1" | "r = 2" | "r = 3" using assms(4) by linarith
  then show ?thesis
    by cases (use assms(3) pre word(2-5) [of q] word(6) [of "Suc q"] in \<open>simp_all add: W_def i upd be\<close>)
qed

lemma final_words_eq:
  assumes "octets_in_buffer ctx = length b" "take (length b) (sha1_M ctx) = b" "length b < 64"
  defines "W \<equiv> map (padded_word b) [0..<16]"
  shows "final_words ctx = (if length b < 56 then W[15 := num_bits_in_msg ctx] else W)"
proof -
  define q r where "q = length b div 4" and "r = length b mod 4"
  have n: "length b = 4 * q + r" "r < 4" "q < 16" using assms(3) by (auto simp: q_def r_def)
  define k where "k = (if r = 0 then Suc q else Suc (Suc q))"
  have zeros: "padded_word b j = 0" if "q < j" for j
    using buffer_word(6) [OF assms(2) refl, of j] n that by simp
  have ext: "map (padded_word b) [0..<k] @ replicate (15 - k) 0 = map (padded_word b) [0..<max k 15]"
    by (rule nth_equalityI) (auto simp: nth_append zeros k_def)
  have "final_words ctx = (let W = map (padded_word b) [0..<max k 15] in
      if length b < 56 then take 15 W @ [num_bits_in_msg ctx]
      else if length b < 60 then take 15 W @ [0] else take 16 W)"
    unfolding final_words_def Let_def assms(1) r_def [symmetric] switch_words [OF assms(2) refl n(1,2)]
    by (simp add: k_def [symmetric] ext)
  moreover have "map (padded_word b) [0..<16] = map (padded_word b) [0..<15] @ [padded_word b 15]"
    using upt_Suc_append [of 0 15] by simp
  moreover have "padded_word b 15 = 0" if "length b < 60" using that zeros n by simp
  moreover have "k \<ge> 16" if "\<not> length b < 60" using that n by (simp add: k_def)
  moreover have "take i (map (padded_word b) [0..<max k 15]) = map (padded_word b) [0..<min i (max k 15)]" for i
    by (rule nth_equalityI) auto
  ultimately show ?thesis
    by (cases "length b < 60") (auto simp: Let_def W_def list_update_append min_def max_def simp del: upt_rec_numeral)
qed

lemma final_compress:
  assumes "octets_in_buffer ctx = length b" "take (length b) (sha1_M ctx) = b" "length b < 64"
  defines "bits \<equiv> be32_bytes (num_bits_in_msg ctx)"
  shows "length b < 56 \<Longrightarrow> sha1_process (W_schedule (final_words ctx)) H =
      fips_compress H (b @ [0x80] @ replicate (55 - length b) 0 @ replicate 4 0 @ bits)"
    and "56 \<le> length b \<Longrightarrow> sha1_process (W_schedule (final_words ctx)) H =
      fips_compress H (b @ [0x80] @ replicate (63 - length b) 0)"
    and "sha1_process (W_schedule (final_extra_words ctx)) H =
      fips_compress H (replicate 56 0 @ replicate 4 0 @ bits)"
proof -
  have pad: "(b @ [0x80] @ replicate k 0 @ c) ! x = padded b x" if "x \<le> length b + k" for x k c
    using that by (auto simp: padded_def nth_append nth_Cons')
  have word: "fips_block_word (b @ [0x80] @ replicate k 0 @ c) j = padded_word b j" if "4 * j + 3 \<le> length b + k" for k c j
    unfolding fips_block_word_def padded_word_def using that by (simp only: pad)
  have bits: "fips_block_word (c @ bits) 15 = num_bits_in_msg ctx" if "length c = 60" for c
    using that by (simp add: fips_block_word_def bits_def be32_bytes_def nth_append be32_of_inverse)
  show "sha1_process (W_schedule (final_words ctx)) H =
      fips_compress H (b @ [0x80] @ replicate (55 - length b) 0 @ replicate 4 0 @ bits)" if "length b < 56"
  proof (rule sha1_process_compress)
    fix i :: nat assume i: "i < 16"
    have "b @ [0x80] @ replicate (55 - length b) 0 @ replicate 4 0 @ bits = (b @ [0x80] @ replicate (59 - length b) 0) @ bits"
      using that by (simp flip: replicate_add)
    moreover have "fips_block_word ((b @ [0x80] @ replicate (59 - length b) 0) @ bits) i = final_words ctx ! i"
      using i that bits [of "b @ [0x80] @ replicate (59 - length b) 0"] word [of i "59 - length b" bits]
      by (cases "i = 15") (simp_all add: final_words_eq [OF assms(1-3)] nth_list_update)
    ultimately show "fips_block_word (b @ [0x80] @ replicate (55 - length b) 0 @ replicate 4 0 @ bits) i = final_words ctx ! i"
      by (simp only:)
  qed (simp add: final_words_eq [OF assms(1-3)])
  show "sha1_process (W_schedule (final_words ctx)) H = fips_compress H (b @ [0x80] @ replicate (63 - length b) 0)"
    if "56 \<le> length b"
    by (rule sha1_process_compress)
      (use that assms(3) word [of _ "63 - length b" "[]"] in \<open>simp_all add: final_words_eq [OF assms(1-3)]\<close>)
  show "sha1_process (W_schedule (final_extra_words ctx)) H = fips_compress H (replicate 56 0 @ replicate 4 0 @ bits)"
  proof (rule sha1_process_compress)
    fix i :: nat assume i: "i < 16"
    have zero: "replicate 56 (0 :: u8) @ replicate 4 0 @ bits = replicate 60 0 @ bits" by (simp flip: replicate_add append_assoc)
    show "fips_block_word (replicate 56 0 @ replicate 4 0 @ bits) i = final_extra_words ctx ! i"
      using i bits [of "replicate 60 0"] unfolding zero
      by (cases "i = 15")
        (simp_all add: final_extra_words_def fips_block_word_def nth_append be32_masks nth_Cons')
  qed (simp add: final_extra_words_def)
qed

lemma be64_small: "n < 2 ^ 32 \<Longrightarrow> be64_bytes (of_nat n) = replicate 4 0 @ be32_bytes (of_nat n)"
proof -
  assume n: "n < 2 ^ 32"
  have "unat (drop_bit 32 (of_nat n :: u64)) = 0"
    using n by (simp add: drop_bit_eq_div unat_div unat_of_nat)
  then have "drop_bit 32 (of_nat n :: u64) = 0" by (simp only: unat_eq_zero)
  moreover have "(ucast (of_nat n :: u64) :: u32) = of_nat n"
    by (rule bit_word_eqI) (simp add: bit_simps)
  ultimately show ?thesis by (simp add: be64_bytes_def be32_bytes_def numeral_eq_Suc)
qed

lemma sha1_output_fips: "sha1_output H = fips_output H"
  by (cases H) (simp add: le32_bytes_bswap32)

lemma length_fips_output [simp]: "length (fips_output H) = 20"
  by (cases H) simp

lemma length_fips_sha1 [simp]: "length (fips_sha1 m) = 20"
  by (simp add: fips_sha1_def)

lemma sha1_final_fips:
  assumes "sha1_holds ctx m" and "8 * length m < 2 ^ 32"
  shows "snd (sha1_final ctx) = fips_sha1 m"
proof -
  obtain a b where m: "m = a @ b" and a: "64 dvd length a" and H: "sha1_H ctx = fips_blocks fips_H0 a"
    and b: "octets_in_buffer ctx = length b" "take (length b) (sha1_M ctx) = b" "length b < 64"
    and bits: "num_bits_in_msg ctx = of_nat (8 * length m)"
    using assms(1) by (auto simp: sha1_holds_def)
  have mod: "length m mod 64 = length b" using m a b(3) by auto
  let ?bits = "be32_bytes (num_bits_in_msg ctx)"
  have pad: "fips_pad m = a @ b @ [0x80] @ replicate ((119 - length b) mod 64) 0 @ replicate 4 0 @ ?bits"
    unfolding fips_pad_def mod be64_small [OF assms(2)] bits by (simp add: m)
  have block: "fips_blocks G B = fips_compress G B" if "length B = 64" for G B
    using fips_blocks_Cons [of B G "[]"] that by simp
  have "fips_blocks fips_H0 (fips_pad m) = sha1_H (fst (sha1_final ctx))"
  proof (cases "length b < 56")
    case True
    then have "(119 - length b) mod 64 = 55 - length b" by (simp add: mod_if)
    then show ?thesis
      using True by (simp add: pad fips_blocks_append [OF a] block sha1_final_def final_compress(1) [OF b] b(1) H Let_def)
  next
    case False
    have two: "b @ [0x80] @ replicate (119 - length b) 0 @ c =
        (b @ [0x80] @ replicate (63 - length b) 0) @ replicate 56 0 @ c" for c :: octets
      using b(3) replicate_add [of "63 - length b" 56 "0 :: u8"] by simp
    have "(119 - length b) mod 64 = 119 - length b" using False by simp
    then show ?thesis
      using False b(3)
      by (simp only: pad fips_blocks_append [OF a] two)
        (subst fips_blocks_Cons, simp_all add: block sha1_final_def final_compress(2,3) [OF b] b(1) H Let_def)
  qed
  then show ?thesis by (simp add: fips_sha1_def sha1_output_fips sha1_final_def Let_def)
qed

lemma sha1_final_wf: "sha1_holds ctx m \<Longrightarrow> length (sha1_M (fst (sha1_final ctx))) = 64"
  by (simp add: sha1_holds_def sha1_final_def Let_def)

interpretation sha1: streaming_hash "\<lambda>ctx. length (sha1_M ctx) = 64" sha1_holds "2 ^ 29"
  sha1_init sha1_update sha1_final fips_sha1
  by unfold_locales
    (simp_all add: sha1_init_holds sha1_update_holds sha1_final_fips sha1_final_wf, simp add: sha1_holds_def)

subsection \<open>Properties\<close>

text \<open>
  C18: streaming SHA-1 is SHA-1. Initialising a context, updating it with any sequence of octet
  strings and finishing it yields the hash that the standard defines for their concatenation, for
  every message below \<open>2 ^ 29\<close> octets (where the 32-bit bit count does not wrap).
\<close>

theorem sha1_streaming:
  assumes "length (sha1_M ctx) = 64" and "length (concat msgs) < 2 ^ 29"
  shows "snd (sha1_final (fold (\<lambda>msg ctx. sha1_update ctx msg) msgs (sha1_init ctx))) = fips_sha1 (concat msgs)"
  using assms by (rule sha1.streamed)

theorem sha1_streaming_witness:
  "snd (sha1_final (fold (\<lambda>msg ctx. sha1_update ctx msg) [[0x61], [], [0x62, 0x63]]
     (sha1_init \<lparr>sha1_H = fips_H0, sha1_M = replicate 64 7, octets_in_buffer = 3, num_bits_in_msg = 1\<rparr>))) =
   fips_sha1 [0x61, 0x62, 0x63]"
  using sha1_streaming [of "\<lparr>sha1_H = fips_H0, sha1_M = replicate 64 7, octets_in_buffer = 3, num_bits_in_msg = 1\<rparr>"
    "[[0x61], [], [0x62, 0x63]]"] by simp

end
