(* ===== verification/Hmac.thy ===== *)
theory Hmac
  imports Sha1
begin

text \<open>
  HMAC-SHA1 as \<^verbatim>\<open>crypto/hash/hmac.c\<close> computes it, with the keyed context saved by \<^verbatim>\<open>hmac_init\<close>
  and copied back by \<^verbatim>\<open>hmac_start\<close>. The contract of an authentication function is the locale
  \<open>authenticator\<close>; HMAC interprets it with the tag that the standard defines. A result \<open>None\<close> is a
  read outside of the key or a negative length.
\<close>

record hmac_ctx_t =
  opad :: octets
  hmac_ctx :: sha1_ctx_t
  init_ctx :: sha1_ctx_t

definition hmac_init :: "hmac_ctx_t \<Rightarrow> octets \<Rightarrow> int \<Rightarrow> (err_status_t \<times> hmac_ctx_t) option" where
  "hmac_init state key key_len =
     (if key_len > 20 then Some (err_status_bad_param, state)
      else if int (length key) < key_len then None
      else
        (let n = nat key_len;
             ipad = map (\<lambda>i. if i < n then key ! i XOR 0x36 else 0x36) [0..<64];
             op = map (\<lambda>i. if i < n then key ! i XOR 0x5c else 0x5c) [0..<64];
             ctx = sha1_update (sha1_init (init_ctx state)) ipad
         in Some (err_status_ok, state\<lparr>opad := op, init_ctx := ctx, hmac_ctx := ctx\<rparr>)))"

definition hmac_start :: "hmac_ctx_t \<Rightarrow> err_status_t \<times> hmac_ctx_t" where
  "hmac_start state = (err_status_ok, state\<lparr>hmac_ctx := init_ctx state\<rparr>)"

definition hmac_update :: "hmac_ctx_t \<Rightarrow> octets \<Rightarrow> err_status_t \<times> hmac_ctx_t" where
  "hmac_update state message = (err_status_ok, state\<lparr>hmac_ctx := sha1_update (hmac_ctx state) message\<rparr>)"

text \<open>The octets of the tag are the third result; nothing is written on an error.\<close>

definition hmac_compute :: "hmac_ctx_t \<Rightarrow> octets \<Rightarrow> int \<Rightarrow> err_status_t \<times> hmac_ctx_t \<times> octets" where
  "hmac_compute state message tag_len =
     (if tag_len > 20 then (err_status_bad_param, state, [])
      else
        (let (_, state) = hmac_update state message;
             (ctx, H) = sha1_final (hmac_ctx state);
             ctx = sha1_init ctx;
             ctx = sha1_update ctx (opad state);
             ctx = sha1_update ctx H;
             (ctx, hash_value) = sha1_final ctx
         in (err_status_ok, state\<lparr>hmac_ctx := ctx\<rparr>, take (nat tag_len) hash_value)))"

subsection \<open>The standard's definition\<close>

definition hmac_pad :: "u8 \<Rightarrow> octets \<Rightarrow> octets" where
  "hmac_pad c key = map (\<lambda>k. k XOR c) (key @ replicate (64 - length key) 0)"

definition hmac_sha1 :: "octets \<Rightarrow> octets \<Rightarrow> octets" where
  "hmac_sha1 key m = fips_sha1 (hmac_pad 0x5c key @ fips_sha1 (hmac_pad 0x36 key @ m))"

lemma length_hmac_sha1 [simp]: "length (hmac_sha1 key m) = 20"
  by (simp add: hmac_sha1_def)

lemma hmac_pad_eq:
  assumes "n \<le> length key" "n \<le> 20"
  shows "map (\<lambda>i. if i < n then key ! i XOR c else c) [0..<64] = hmac_pad c (take n key)"
  using assms by (intro nth_equalityI) (auto simp: hmac_pad_def nth_append)

lemma length_hmac_pad [simp]: "length key \<le> 64 \<Longrightarrow> length (hmac_pad c key) = 64"
  by (simp add: hmac_pad_def)

subsection \<open>The contract of an authentication function\<close>

text \<open>
  \<open>keyed s k\<close>: the state \<open>s\<close> carries the key \<open>k\<close>. \<open>holds s k m\<close>: it has also absorbed \<open>m\<close> since the
  last start. Computing leaves a keyed state, from which another message can be started.
\<close>

locale authenticator =
  fixes keyed :: "'s \<Rightarrow> 'k \<Rightarrow> bool" and holds :: "'s \<Rightarrow> 'k \<Rightarrow> octets \<Rightarrow> bool"
    and limit :: nat and max_tag :: int
    and start :: "'s \<Rightarrow> err_status_t \<times> 's" and update :: "'s \<Rightarrow> octets \<Rightarrow> err_status_t \<times> 's"
    and compute :: "'s \<Rightarrow> octets \<Rightarrow> int \<Rightarrow> err_status_t \<times> 's \<times> octets"
    and mac :: "'k \<Rightarrow> octets \<Rightarrow> octets"
  assumes start_holds: "keyed s k \<Longrightarrow> fst (start s) = err_status_ok \<and> holds (snd (start s)) k []"
    and update_holds: "holds s k m \<Longrightarrow> fst (update s x) = err_status_ok \<and> holds (snd (update s x)) k (m @ x)"
    and holds_keyed: "holds s k m \<Longrightarrow> keyed s k"
    and compute_tag: "holds s k m \<Longrightarrow> length (m @ x) < limit \<Longrightarrow> n \<le> max_tag \<Longrightarrow>
      \<exists>s'. compute s x n = (err_status_ok, s', take (nat n) (mac k (m @ x))) \<and> keyed s' k"
begin

lemma updates_hold:
  "holds s k m \<Longrightarrow> holds (fold (\<lambda>x s. snd (update s x)) xs s) k (m @ concat xs)"
proof (induction xs arbitrary: s m)
  case (Cons x xs)
  then show ?case using Cons.IH [of "snd (update s x)" "m @ x"] update_holds [OF Cons.prems] by simp
qed simp

lemma tag_of_pieces:
  assumes "keyed s k" and "length (concat xs @ x) < limit" and "n \<le> max_tag"
  shows "\<exists>s'. compute (fold (\<lambda>x s. snd (update s x)) xs (snd (start s))) x n =
      (err_status_ok, s', take (nat n) (mac k (concat xs @ x))) \<and> keyed s' k"
  using compute_tag [OF _ assms(2,3)] updates_hold [of _ k "[]" xs] start_holds [OF assms(1)] by simp

lemma start_compute:
  assumes "keyed s k" and "length x < limit" and "n \<le> max_tag"
  shows "\<exists>s'. compute (snd (start s)) x n = (err_status_ok, s', take (nat n) (mac k x)) \<and> keyed s' k"
  using tag_of_pieces [of s k "[]" x n] assms by simp

end

subsection \<open>HMAC meets it\<close>

definition hmac_keyed :: "hmac_ctx_t \<Rightarrow> octets \<Rightarrow> bool" where
  "hmac_keyed state key \<longleftrightarrow>
     length key \<le> 20 \<and> opad state = hmac_pad 0x5c key \<and> sha1_holds (init_ctx state) (hmac_pad 0x36 key)"

definition hmac_holds :: "hmac_ctx_t \<Rightarrow> octets \<Rightarrow> octets \<Rightarrow> bool" where
  "hmac_holds state key m \<longleftrightarrow> hmac_keyed state key \<and> sha1_holds (hmac_ctx state) (hmac_pad 0x36 key @ m)"

lemma hmac_init_ok:
  assumes "length (sha1_M (init_ctx state)) = 64" "0 \<le> key_len" "key_len \<le> 20" "key_len \<le> int (length key)"
  shows "\<exists>state'. hmac_init state key key_len = Some (err_status_ok, state') \<and> hmac_keyed state' (take (nat key_len) key)"
proof -
  have "nat key_len \<le> length key" "nat key_len \<le> 20" using assms by auto
  note pads = hmac_pad_eq [OF this]
  have "sha1_holds (sha1_update (sha1_init (init_ctx state)) x) x" for x
    using assms(1) by (rule sha1.holds_init_update)
  with assms(2-4) show ?thesis
    unfolding hmac_init_def Let_def pads by (simp add: hmac_keyed_def)
qed

lemma hmac_compute_tag:
  assumes "hmac_holds state key m" and "length (m @ x) < 2 ^ 29 - 64" and "n \<le> 20"
  shows "\<exists>state'. hmac_compute state x n = (err_status_ok, state', take (nat n) (hmac_sha1 key (m @ x))) \<and>
    hmac_keyed state' key"
proof -
  let ?c = "sha1_update (hmac_ctx state) x" and ?ip = "hmac_pad 0x36 key" and ?op = "hmac_pad 0x5c key"
  have key: "length key \<le> 20" "opad state = ?op" using assms(1) by (auto simp: hmac_holds_def hmac_keyed_def)
  have c: "sha1_holds ?c (?ip @ m @ x)" using assms(1) sha1.update_holds by (fastforce simp: hmac_holds_def)
  then have H: "snd (sha1_final ?c) = fips_sha1 (?ip @ m @ x)"
    using assms(2) key by (intro sha1.final_hash) simp_all
  let ?d = "sha1_update (sha1_update (sha1_init (fst (sha1_final ?c))) ?op) (fips_sha1 (?ip @ m @ x))"
  have "sha1_holds ?d (?op @ fips_sha1 (?ip @ m @ x))"
    by (intro sha1.update_holds sha1.holds_init_update sha1.final_wf [OF c])
  then have "snd (sha1_final ?d) = hmac_sha1 key (m @ x)"
    unfolding hmac_sha1_def using key by (intro sha1.final_hash) simp_all
  then show ?thesis
    using assms(1,3) key(2) H
    by (auto simp: hmac_compute_def hmac_update_def Let_def hmac_keyed_def hmac_holds_def split: prod.split)
qed

interpretation hmac: authenticator hmac_keyed hmac_holds "2 ^ 29 - 64" 20 hmac_start hmac_update hmac_compute hmac_sha1
proof unfold_locales
  fix s k m x n
  show "hmac_holds s k m \<Longrightarrow> fst (hmac_update s x) = err_status_ok \<and> hmac_holds (snd (hmac_update s x)) k (m @ x)"
    using sha1.update_holds by (fastforce simp: hmac_holds_def hmac_update_def hmac_keyed_def)
  show "hmac_holds s k m \<Longrightarrow> length (m @ x) < 2 ^ 29 - 64 \<Longrightarrow> n \<le> 20 \<Longrightarrow>
      \<exists>s'. hmac_compute s x n = (err_status_ok, s', take (nat n) (hmac_sha1 k (m @ x))) \<and> hmac_keyed s' k"
    by (rule hmac_compute_tag)
qed (simp_all add: hmac_start_def hmac_holds_def hmac_keyed_def)

subsection \<open>Properties\<close>

text \<open>
  C19: HMAC-SHA1 is computed as the standard defines it. With a key of at most 20 octets, a message
  fed in any number of pieces gives the first \<open>n\<close> octets of the tag of their concatenation, and the
  context can be started again for a further message under the same key.
\<close>

theorem hmac_computes_standard_tag:
  assumes "length (sha1_M (init_ctx state)) = 64" and "length key \<le> 20" and "n \<le> 20"
    and "length (concat pieces @ message) < 2 ^ 29 - 64" and "length message' < 2 ^ 29 - 64"
  shows "\<exists>keyed next last. hmac_init state key (int (length key)) = Some (err_status_ok, keyed) \<and>
    hmac_compute (fold (\<lambda>p s. snd (hmac_update s p)) pieces (snd (hmac_start keyed))) message n =
      (err_status_ok, next, take (nat n) (hmac_sha1 key (concat pieces @ message))) \<and>
    hmac_compute (snd (hmac_start next)) message' n = (err_status_ok, last, take (nat n) (hmac_sha1 key message'))"
proof -
  obtain keyed where k: "hmac_init state key (int (length key)) = Some (err_status_ok, keyed)" "hmac_keyed keyed key"
    using hmac_init_ok [OF assms(1), of "int (length key)" key] assms(2) by auto
  then obtain "next" where n: "hmac_keyed next key"
      "hmac_compute (fold (\<lambda>p s. snd (hmac_update s p)) pieces (snd (hmac_start keyed))) message n =
        (err_status_ok, next, take (nat n) (hmac_sha1 key (concat pieces @ message)))"
    using hmac.tag_of_pieces [OF k(2) assms(4,3)] by blast
  with hmac.start_compute [OF n(1) assms(5,3)] k show ?thesis by blast
qed

theorem hmac_computes_standard_tag_witness:
  "\<exists>keyed next. hmac_init \<lparr>opad = [], hmac_ctx = \<lparr>sha1_H = fips_H0, sha1_M = replicate 64 0, octets_in_buffer = 0, num_bits_in_msg = 0\<rparr>,
       init_ctx = \<lparr>sha1_H = fips_H0, sha1_M = replicate 64 0, octets_in_buffer = 0, num_bits_in_msg = 0\<rparr>\<rparr>
     (replicate 20 0x0b) 20 = Some (err_status_ok, keyed) \<and>
   hmac_compute (snd (hmac_update (snd (hmac_start keyed)) [0x48, 0x69])) [0x20, 0x54] 10 =
     (err_status_ok, next, take 10 (hmac_sha1 (replicate 20 0x0b) [0x48, 0x69, 0x20, 0x54]))"
  using hmac_computes_standard_tag [of "\<lparr>opad = [], hmac_ctx = \<lparr>sha1_H = fips_H0, sha1_M = replicate 64 0, octets_in_buffer = 0, num_bits_in_msg = 0\<rparr>,
       init_ctx = \<lparr>sha1_H = fips_H0, sha1_M = replicate 64 0, octets_in_buffer = 0, num_bits_in_msg = 0\<rparr>\<rparr>"
     "replicate 20 0x0b" 10 "[[0x48, 0x69]]" "[0x20, 0x54]" "[]"] by simp blast

end
