(* ===== verification/Gf2_8.thy ===== *)
theory Gf2_8
  imports Datatypes
begin

text \<open>
  The field with 256 elements in the representation of AES, \<^verbatim>\<open>crypto/math/gf2_8.c\<close> and
  \<^verbatim>\<open>crypto/include/gf2_8.h\<close>: multiplication by the generator, multiplication by shift and add, and
  the inverse by search. The lemmas show that multiplication is linear and that it has the products
  that the AES column transforms use.
\<close>

type_synonym gf2_8 = u8

definition gf2_8_shift :: "gf2_8 \<Rightarrow> gf2_8" where
  "gf2_8_shift z = (if z AND 128 \<noteq> 0 then push_bit 1 z XOR 0x1B else push_bit 1 z)"

definition gf2_8_multiply :: "gf2_8 \<Rightarrow> gf2_8 \<Rightarrow> gf2_8" where
  "gf2_8_multiply x y =
     (let z = 0;
          z = (if y AND 1 \<noteq> 0 then z XOR x else z); x = gf2_8_shift x;
          z = (if y AND 2 \<noteq> 0 then z XOR x else z); x = gf2_8_shift x;
          z = (if y AND 4 \<noteq> 0 then z XOR x else z); x = gf2_8_shift x;
          z = (if y AND 8 \<noteq> 0 then z XOR x else z); x = gf2_8_shift x;
          z = (if y AND 16 \<noteq> 0 then z XOR x else z); x = gf2_8_shift x;
          z = (if y AND 32 \<noteq> 0 then z XOR x else z); x = gf2_8_shift x;
          z = (if y AND 64 \<noteq> 0 then z XOR x else z); x = gf2_8_shift x;
          z = (if y AND 128 \<noteq> 0 then z XOR x else z)
      in z)"

text \<open>The search loop; \<open>i\<close> counts up to 256.\<close>

function gf2_8_inverse_from :: "nat \<Rightarrow> gf2_8 \<Rightarrow> gf2_8" where
  "gf2_8_inverse_from i x =
     (if i < 256 then
        (if gf2_8_multiply (of_nat i) x = 1 then of_nat i else gf2_8_inverse_from (i + 1) x)
      else 0)"
  by auto
termination by (relation "measure (\<lambda>(i, x). 256 - i)") auto

declare gf2_8_inverse_from.simps [simp del]

definition gf2_8_compute_inverse :: "gf2_8 \<Rightarrow> gf2_8" where
  "gf2_8_compute_inverse x = (if x = 0 then 0 else gf2_8_inverse_from 0 x)"

subsection \<open>Linearity\<close>

lemma gf2_8_shift_eq: "gf2_8_shift z = push_bit 1 z XOR (if bit z 7 then 0x1B else 0)"
proof -
  have "z AND 128 \<noteq> 0 \<longleftrightarrow> bit z 7"
    using and_exp_eq_0_iff_not_bit [of z 7] by simp
  then show ?thesis by (simp add: gf2_8_shift_def)
qed

lemma gf2_8_shift_xor: "gf2_8_shift (x XOR y) = gf2_8_shift x XOR gf2_8_shift y"
  by (rule bit_word_eqI) (auto simp: gf2_8_shift_eq push_bit_xor bit_xor_iff)

lemma gf2_8_shift_0 [simp]: "gf2_8_shift 0 = 0"
  by (simp add: gf2_8_shift_def)

lemma gf2_8_multiply_xor:
  "gf2_8_multiply (x XOR y) c = gf2_8_multiply x c XOR gf2_8_multiply y c"
proof -
  have add: "(if b then z XOR u else z) = z XOR (if b then u else 0)" for b and z u :: u8 by simp
  have dist: "(if b then u XOR v else 0) = (if b then u else 0) XOR (if b then v else 0)" for b and u v :: u8
    by simp
  show ?thesis
    unfolding gf2_8_multiply_def Let_def gf2_8_shift_xor add dist
    by (simp only: xor.left_neutral xor.assoc xor.left_commute xor.commute)
qed

lemma gf2_8_multiply_0 [simp]: "gf2_8_multiply 0 c = 0"
  by (simp add: gf2_8_multiply_def Let_def)

text \<open>The products of the column transforms, as sums of repeated shifts.\<close>

lemma gf2_8_products:
  "gf2_8_multiply x 2 = gf2_8_shift x"
  "gf2_8_multiply x 3 = x XOR gf2_8_shift x"
  "gf2_8_multiply x 9 = x XOR gf2_8_shift (gf2_8_shift (gf2_8_shift x))"
  "gf2_8_multiply x 11 = x XOR gf2_8_shift x XOR gf2_8_shift (gf2_8_shift (gf2_8_shift x))"
  "gf2_8_multiply x 13 = x XOR gf2_8_shift (gf2_8_shift x) XOR gf2_8_shift (gf2_8_shift (gf2_8_shift x))"
  "gf2_8_multiply x 14 = gf2_8_shift x XOR gf2_8_shift (gf2_8_shift x) XOR gf2_8_shift (gf2_8_shift (gf2_8_shift x))"
  by (simp_all add: gf2_8_multiply_def Let_def xor.assoc)

end
