(* ===== verification/Aes.thy ===== *)
theory Aes
  imports Aes_Tables
begin

text \<open>
  AES-128 as \<^verbatim>\<open>crypto/cipher/aes.c\<close> computes it on a little-endian CISC target: key expansion, the
  table-driven rounds and the equivalent inverse cipher. The reference is the standard's cipher,
  written with its byte substitution, row shift and column mix on the sixteen octets of the state;
  the lemmas show that every round is the standard's and that decryption undoes encryption.
\<close>

type_synonym aes_expanded_key_t = "v128_t list"

abbreviation (input) table_at :: "'a list \<Rightarrow> u8 \<Rightarrow> 'a" where "table_at t b \<equiv> t ! unat b"

definition next_round_key :: "v128_t \<Rightarrow> gf2_8 \<Rightarrow> v128_t" where
  "next_round_key prev rc =
     (let w0 = le32_of (table_at aes_sbox (v8 prev 13) XOR rc) (table_at aes_sbox (v8 prev 14))
                 (table_at aes_sbox (v8 prev 15)) (table_at aes_sbox (v8 prev 12));
          w0 = w0 XOR v32 prev 0;
          w1 = w0 XOR v32 prev 1;
          w2 = w1 XOR v32 prev 2;
          w3 = w2 XOR v32 prev 3
      in V128 w0 w1 w2 w3)"

fun expand_rounds :: "nat \<Rightarrow> v128_t \<Rightarrow> gf2_8 \<Rightarrow> v128_t list" where
  "expand_rounds 0 prev rc = []"
| "expand_rounds (Suc n) prev rc =
     (let k = next_round_key prev rc in k # expand_rounds n k (gf2_8_shift rc))"

definition aes_expand_encryption_key :: "v128_t \<Rightarrow> aes_expanded_key_t" where
  "aes_expand_encryption_key key = key # expand_rounds 10 key 1"

text \<open>One step of the loop that inverts the order of the round keys.\<close>

definition swap_keys :: "nat \<Rightarrow> aes_expanded_key_t \<Rightarrow> aes_expanded_key_t" where
  "swap_keys i ks = ks[10 - i := ks ! i, i := ks ! (10 - i)]"

definition inv_mix_key :: "v128_t \<Rightarrow> v128_t" where
  "inv_mix_key k =
     (let col = (\<lambda>i. table_at U0 (table_at aes_sbox (v8 k i)) XOR table_at U1 (table_at aes_sbox (v8 k (i + 1)))
                  XOR table_at U2 (table_at aes_sbox (v8 k (i + 2))) XOR table_at U3 (table_at aes_sbox (v8 k (i + 3))))
      in V128 (col 0) (col 4) (col 8) (col 12))"

definition aes_expand_decryption_key :: "v128_t \<Rightarrow> aes_expanded_key_t" where
  "aes_expand_decryption_key key =
     (let ks = fold swap_keys [0..<5] (aes_expand_encryption_key key)
      in fold (\<lambda>i ks. ks[i := inv_mix_key (ks ! i)]) [1..<10] ks)"

definition aes_round :: "v128_t \<Rightarrow> v128_t \<Rightarrow> v128_t" where
  "aes_round s k =
     (let column0 = table_at T0 (v8 s 0) XOR table_at T1 (v8 s 5) XOR table_at T2 (v8 s 10) XOR table_at T3 (v8 s 15);
          column1 = table_at T0 (v8 s 4) XOR table_at T1 (v8 s 9) XOR table_at T2 (v8 s 14) XOR table_at T3 (v8 s 3);
          column2 = table_at T0 (v8 s 8) XOR table_at T1 (v8 s 13) XOR table_at T2 (v8 s 2) XOR table_at T3 (v8 s 7);
          column3 = table_at T0 (v8 s 12) XOR table_at T1 (v8 s 1) XOR table_at T2 (v8 s 6) XOR table_at T3 (v8 s 11)
      in V128 (column0 XOR v32 k 0) (column1 XOR v32 k 1) (column2 XOR v32 k 2) (column3 XOR v32 k 3))"

definition aes_inv_round :: "v128_t \<Rightarrow> v128_t \<Rightarrow> v128_t" where
  "aes_inv_round s k =
     (let column0 = table_at U0 (v8 s 0) XOR table_at U1 (v8 s 13) XOR table_at U2 (v8 s 10) XOR table_at U3 (v8 s 7);
          column1 = table_at U0 (v8 s 4) XOR table_at U1 (v8 s 1) XOR table_at U2 (v8 s 14) XOR table_at U3 (v8 s 11);
          column2 = table_at U0 (v8 s 8) XOR table_at U1 (v8 s 5) XOR table_at U2 (v8 s 2) XOR table_at U3 (v8 s 15);
          column3 = table_at U0 (v8 s 12) XOR table_at U1 (v8 s 9) XOR table_at U2 (v8 s 6) XOR table_at U3 (v8 s 3)
      in V128 (column0 XOR v32 k 0) (column1 XOR v32 k 1) (column2 XOR v32 k 2) (column3 XOR v32 k 3))"

text \<open>The assignments to the octets of the state, in the order of the code.\<close>

definition aes_final_round :: "v128_t \<Rightarrow> v128_t \<Rightarrow> v128_t" where
  "aes_final_round s k =
     (let sb = (\<lambda>s i. table_at aes_sbox (v8 s i));
          s = set_v8 s 0 (sb s 0); s = set_v8 s 4 (sb s 4); s = set_v8 s 8 (sb s 8); s = set_v8 s 12 (sb s 12);
          tmp = sb s 1; s = set_v8 s 1 (sb s 5); s = set_v8 s 5 (sb s 9); s = set_v8 s 9 (sb s 13); s = set_v8 s 13 tmp;
          tmp = sb s 10; s = set_v8 s 10 (sb s 2); s = set_v8 s 2 tmp;
          tmp = sb s 14; s = set_v8 s 14 (sb s 6); s = set_v8 s 6 tmp;
          tmp = sb s 15; s = set_v8 s 15 (sb s 11); s = set_v8 s 11 (sb s 7); s = set_v8 s 7 (sb s 3); s = set_v8 s 3 tmp
      in v128_xor s k)"

definition aes_inv_final_round :: "v128_t \<Rightarrow> v128_t \<Rightarrow> v128_t" where
  "aes_inv_final_round s k =
     (let sb = (\<lambda>s i. table_at aes_inv_sbox (v8 s i));
          s = set_v8 s 0 (sb s 0); s = set_v8 s 4 (sb s 4); s = set_v8 s 8 (sb s 8); s = set_v8 s 12 (sb s 12);
          tmp = sb s 13; s = set_v8 s 13 (sb s 9); s = set_v8 s 9 (sb s 5); s = set_v8 s 5 (sb s 1); s = set_v8 s 1 tmp;
          tmp = sb s 2; s = set_v8 s 2 (sb s 10); s = set_v8 s 10 tmp;
          tmp = sb s 6; s = set_v8 s 6 (sb s 14); s = set_v8 s 14 tmp;
          tmp = sb s 3; s = set_v8 s 3 (sb s 7); s = set_v8 s 7 (sb s 11); s = set_v8 s 11 (sb s 15); s = set_v8 s 15 tmp
      in v128_xor s k)"

definition aes_encrypt :: "v128_t \<Rightarrow> aes_expanded_key_t \<Rightarrow> v128_t" where
  "aes_encrypt plaintext exp_key =
     aes_final_round
       (fold (\<lambda>i s. aes_round s (exp_key ! i)) [1..<10] (v128_xor plaintext (exp_key ! 0)))
       (exp_key ! 10)"

definition aes_decrypt :: "v128_t \<Rightarrow> aes_expanded_key_t \<Rightarrow> v128_t" where
  "aes_decrypt plaintext exp_key =
     aes_inv_final_round
       (fold (\<lambda>i s. aes_inv_round s (exp_key ! i)) [1..<10] (v128_xor plaintext (exp_key ! 0)))
       (exp_key ! 10)"

subsection \<open>The standard's transformations\<close>

definition sub_bytes :: "octets \<Rightarrow> octets" where "sub_bytes = map sub_byte"
definition inv_sub_bytes :: "octets \<Rightarrow> octets" where "inv_sub_bytes = map inv_sub_byte"

text \<open>The state is stored by columns: row \<open>r\<close> of column \<open>c\<close> is octet \<open>r + 4 * c\<close>.\<close>

definition shift_rows :: "octets \<Rightarrow> octets" where
  "shift_rows s = map (\<lambda>i. s ! ((i mod 4) + 4 * ((i div 4 + i mod 4) mod 4))) [0..<16]"

definition inv_shift_rows :: "octets \<Rightarrow> octets" where
  "inv_shift_rows s = map (\<lambda>i. s ! ((i mod 4) + 4 * ((i div 4 + 4 - i mod 4) mod 4))) [0..<16]"

definition mix_column :: "u8 \<Rightarrow> u8 \<Rightarrow> u8 \<Rightarrow> u8 \<Rightarrow> octets" where
  "mix_column a b c d = (let m = gf2_8_multiply in
     [m a 2 XOR m b 3 XOR c XOR d, a XOR m b 2 XOR m c 3 XOR d,
      a XOR b XOR m c 2 XOR m d 3, m a 3 XOR b XOR c XOR m d 2])"

definition inv_mix_column :: "u8 \<Rightarrow> u8 \<Rightarrow> u8 \<Rightarrow> u8 \<Rightarrow> octets" where
  "inv_mix_column a b c d = (let m = gf2_8_multiply in
     [m a 14 XOR m b 11 XOR m c 13 XOR m d 9, m a 9 XOR m b 14 XOR m c 11 XOR m d 13,
      m a 13 XOR m b 9 XOR m c 14 XOR m d 11, m a 11 XOR m b 13 XOR m c 9 XOR m d 14])"

definition on_columns :: "(u8 \<Rightarrow> u8 \<Rightarrow> u8 \<Rightarrow> u8 \<Rightarrow> octets) \<Rightarrow> octets \<Rightarrow> octets" where
  "on_columns f s = f (s ! 0) (s ! 1) (s ! 2) (s ! 3) @ f (s ! 4) (s ! 5) (s ! 6) (s ! 7) @
     f (s ! 8) (s ! 9) (s ! 10) (s ! 11) @ f (s ! 12) (s ! 13) (s ! 14) (s ! 15)"

abbreviation mix_columns :: "octets \<Rightarrow> octets" where "mix_columns \<equiv> on_columns mix_column"
abbreviation inv_mix_columns :: "octets \<Rightarrow> octets" where "inv_mix_columns \<equiv> on_columns inv_mix_column"

definition fips_cipher :: "octets list \<Rightarrow> octets \<Rightarrow> octets" where
  "fips_cipher ks p =
     xor_octets (shift_rows (sub_bytes
       (fold (\<lambda>i s. xor_octets (mix_columns (shift_rows (sub_bytes s))) (ks ! i)) [1..<10] (xor_octets p (ks ! 0)))))
       (ks ! 10)"

text \<open>The state as sixteen octets: the form in which the simplifier computes the rounds.\<close>

lemma upt_16: "[0..<16] = [0, 1, 2, 3, 4, 5, 6, 7, 8, 9, 10, 11, 12, 13, 14, 15::nat]"
  by code_simp

lemma shift_rows_list:
  "shift_rows [a0, a1, a2, a3, a4, a5, a6, a7, a8, a9, a10, a11, a12, a13, a14, a15] =
     [a0, a5, a10, a15, a4, a9, a14, a3, a8, a13, a2, a7, a12, a1, a6, a11]"
  "inv_shift_rows [a0, a1, a2, a3, a4, a5, a6, a7, a8, a9, a10, a11, a12, a13, a14, a15] =
     [a0, a13, a10, a7, a4, a1, a14, a11, a8, a5, a2, a15, a12, a9, a6, a3]"
  by (simp_all add: shift_rows_def inv_shift_rows_def upt_16)

lemma v128_octetsE:
  obtains a0 a1 a2 a3 a4 a5 a6 a7 a8 a9 a10 a11 a12 a13 a14 a15
  where "x = V128 (le32_of a0 a1 a2 a3) (le32_of a4 a5 a6 a7) (le32_of a8 a9 a10 a11) (le32_of a12 a13 a14 a15)"
  by (cases x) (metis le32_of_inverse)

lemma v128_octets_list:
  "v128_octets (V128 (le32_of a0 a1 a2 a3) (le32_of a4 a5 a6 a7) (le32_of a8 a9 a10 a11) (le32_of a12 a13 a14 a15)) =
     [a0, a1, a2, a3, a4, a5, a6, a7, a8, a9, a10, a11, a12, a13, a14, a15]"
  by (simp add: v128_octets_def le32_bytes_def)

lemma aes_round_octets:
  "v128_octets (aes_round s k) =
     xor_octets (mix_columns (shift_rows (sub_bytes (v128_octets s)))) (v128_octets k)"
  by (rule v128_octetsE [of s]; rule v128_octetsE [of k])
    (simp add: aes_round_def Let_def v8_def v128_octets_list table_values sub_bytes_def shift_rows_list on_columns_def
      mix_column_def xor_octets_def v32_def flip: le32_of_xor)

lemma aes_inv_round_octets:
  "v128_octets (aes_inv_round s k) =
     xor_octets (inv_mix_columns (inv_shift_rows (inv_sub_bytes (v128_octets s)))) (v128_octets k)"
  by (rule v128_octetsE [of s]; rule v128_octetsE [of k])
    (simp add: aes_inv_round_def Let_def v8_def v128_octets_list table_values inv_sub_bytes_def shift_rows_list on_columns_def
      inv_mix_column_def xor_octets_def v32_def flip: le32_of_xor)

lemma inv_mix_key_octets: "v128_octets (inv_mix_key k) = inv_mix_columns (v128_octets k)"
  by (rule v128_octetsE [of k])
    (simp add: inv_mix_key_def Let_def v8_def v128_octets_list table_values on_columns_def
      inv_mix_column_def flip: le32_of_xor sub_byte_def)

lemma set_v8_octets [simp]: "v128_octets (set_v8 x i b) = (v128_octets x)[i := b]"
  by (simp add: set_v8_def)

lemma aes_final_round_octets:
  "v128_octets (aes_final_round s k) = xor_octets (shift_rows (sub_bytes (v128_octets s))) (v128_octets k)"
  by (rule v128_octetsE [of s])
    (simp add: aes_final_round_def Let_def v8_def v128_octets_xor v128_octets_list sub_bytes_def shift_rows_list sub_byte_def)

lemma aes_inv_final_round_octets:
  "v128_octets (aes_inv_final_round s k) =
     xor_octets (inv_shift_rows (inv_sub_bytes (v128_octets s))) (v128_octets k)"
  by (rule v128_octetsE [of s])
    (simp add: aes_inv_final_round_def Let_def v8_def v128_octets_xor v128_octets_list inv_sub_bytes_def shift_rows_list inv_sub_byte_def)

subsection \<open>The inverse transformations\<close>

lemma inv_mix_column_mix:
  "mix_column a b c d = [e, f, g, h] \<Longrightarrow> inv_mix_column e f g h = [a, b, c, d]"
  unfolding mix_column_def inv_mix_column_def Let_def
  by (elim list.inject [THEN iffD1, THEN conjE])
    (auto simp: gf2_8_multiply_xor gf2_8_products gf2_8_shift_xor xor.assoc xor.left_commute xor.commute)

lemma mix_columnE:
  obtains e f g h where "mix_column a b c d = [e, f, g, h]" "inv_mix_column e f g h = [a, b, c, d]"
  using inv_mix_column_mix by (metis mix_column_def)

lemma inv_mix_columns_mix: "length s = 16 \<Longrightarrow> inv_mix_columns (mix_columns s) = s"
proof (erule length_16E)
  fix a0 a1 a2 a3 a4 a5 a6 a7 a8 a9 a10 a11 a12 a13 a14 a15
  assume s: "s = [a0, a1, a2, a3, a4, a5, a6, a7, a8, a9, a10, a11, a12, a13, a14, a15]"
  show ?thesis unfolding s
    by (rule mix_columnE [of a0 a1 a2 a3]; rule mix_columnE [of a4 a5 a6 a7];
        rule mix_columnE [of a8 a9 a10 a11]; rule mix_columnE [of a12 a13 a14 a15])
      (simp add: on_columns_def)
qed

lemma inv_mix_columns_xor:
  "length s = 16 \<Longrightarrow> length k = 16 \<Longrightarrow> inv_mix_columns (xor_octets s k) = xor_octets (inv_mix_columns s) (inv_mix_columns k)"
  by (erule length_16E, erule length_16E)
    (simp add: on_columns_def xor_octets_def inv_mix_column_def Let_def gf2_8_multiply_xor
      xor.assoc xor.left_commute xor.commute)

lemma inv_shift_sub: "length s = 16 \<Longrightarrow> inv_shift_rows (inv_sub_bytes (shift_rows (sub_bytes s))) = s"
  by (erule length_16E) (simp add: sub_bytes_def inv_sub_bytes_def shift_rows_list)

lemma length_on_columns [simp]:
  "length (mix_columns s) = 16" "length (inv_mix_columns s) = 16"
  "length (shift_rows s) = 16" "length (inv_shift_rows s) = 16"
  by (simp_all add: on_columns_def mix_column_def inv_mix_column_def Let_def shift_rows_def inv_shift_rows_def)

text \<open>One round backwards: the inverse round under the mixed key undoes a round.\<close>

lemma inv_round_step:
  assumes "length s = 16" "length k = 16"
  shows "xor_octets (inv_mix_columns (inv_shift_rows (inv_sub_bytes
      (shift_rows (sub_bytes (xor_octets (mix_columns (shift_rows (sub_bytes s))) k)))))) (inv_mix_columns k) =
    shift_rows (sub_bytes s)"
proof -
  let ?m = "mix_columns (shift_rows (sub_bytes s))"
  have "inv_shift_rows (inv_sub_bytes (shift_rows (sub_bytes (xor_octets ?m k)))) = xor_octets ?m k"
    using assms by (intro inv_shift_sub) simp
  moreover have "inv_mix_columns (xor_octets ?m k) = xor_octets (shift_rows (sub_bytes s)) (inv_mix_columns k)"
    using assms by (simp add: inv_mix_columns_xor inv_mix_columns_mix)
  ultimately show ?thesis by simp
qed

subsection \<open>The key schedules\<close>

lemma length_expand_rounds [simp]: "length (expand_rounds n k rc) = n"
  by (induction n arbitrary: k rc) (simp_all add: Let_def)

lemma length_aes_expand_encryption_key [simp]: "length (aes_expand_encryption_key key) = 11"
  by (simp add: aes_expand_encryption_key_def)

lemma aes_expand_decryption_key_nth:
  assumes "i \<le> 10"
  shows "aes_expand_decryption_key key ! i =
    (let k = aes_expand_encryption_key key ! (10 - i) in if 1 \<le> i \<and> i < 10 then inv_mix_key k else k)"
proof -
  obtain k0 k1 k2 k3 k4 k5 k6 k7 k8 k9 k10
    where k: "aes_expand_encryption_key key = [k0, k1, k2, k3, k4, k5, k6, k7, k8, k9, k10]"
    by (simp add: aes_expand_encryption_key_def numeral_eq_Suc Let_def)
  have u: "[0..<5] = [0, 1, 2, 3, 4::nat]" "[1..<10] = [1, 2, 3, 4, 5, 6, 7, 8, 9::nat]" by code_simp+
  have "aes_expand_decryption_key key = [k10, inv_mix_key k9, inv_mix_key k8, inv_mix_key k7, inv_mix_key k6,
      inv_mix_key k5, inv_mix_key k4, inv_mix_key k3, inv_mix_key k2, inv_mix_key k1, k0]"
    unfolding aes_expand_decryption_key_def k u by (simp add: swap_keys_def Let_def)
  moreover have "i \<in> set [0, 1, 2, 3, 4, 5, 6, 7, 8, 9, 10]" using assms by (simp, presburger)
  ultimately show ?thesis by (auto simp: k Let_def)
qed

subsection \<open>Decryption undoes encryption\<close>

definition enc_state :: "v128_t \<Rightarrow> aes_expanded_key_t \<Rightarrow> nat \<Rightarrow> v128_t" where
  "enc_state p ks n = fold (\<lambda>i s. aes_round s (ks ! i)) [1..<Suc n] (v128_xor p (ks ! 0))"

definition dec_state :: "v128_t \<Rightarrow> aes_expanded_key_t \<Rightarrow> nat \<Rightarrow> v128_t" where
  "dec_state c ks n = fold (\<lambda>i s. aes_inv_round s (ks ! i)) [1..<Suc n] (v128_xor c (ks ! 0))"

lemma enc_state_Suc: "enc_state p ks (Suc n) = aes_round (enc_state p ks n) (ks ! Suc n)"
  and dec_state_Suc: "dec_state c ks (Suc n) = aes_inv_round (dec_state c ks n) (ks ! Suc n)"
  by (simp_all add: enc_state_def dec_state_def)

lemma aes_encrypt_enc_state: "aes_encrypt p ks = aes_final_round (enc_state p ks 9) (ks ! 10)"
  and aes_decrypt_dec_state: "aes_decrypt c ks = aes_inv_final_round (dec_state c ks 9) (ks ! 10)"
  by (simp_all add: aes_encrypt_def enc_state_def aes_decrypt_def dec_state_def)

lemma dec_state_enc_state:
  fixes key p
  assumes "n \<le> 9"
  defines "ek \<equiv> aes_expand_encryption_key key" and "dk \<equiv> aes_expand_decryption_key key"
  shows "v128_octets (dec_state (aes_encrypt p ek) dk n) =
    shift_rows (sub_bytes (v128_octets (enc_state p ek (9 - n))))"
  using assms(1)
proof (induction n)
  case 0
  have "dk ! 0 = ek ! 10" by (simp add: dk_def ek_def aes_expand_decryption_key_nth)
  then show ?case
    by (simp add: dec_state_def aes_encrypt_enc_state v128_octets_xor aes_final_round_octets)
next
  case (Suc n)
  have key: "dk ! Suc n = inv_mix_key (ek ! (9 - n))"
    using Suc.prems by (simp add: dk_def ek_def aes_expand_decryption_key_nth)
  obtain m where m: "9 - n = Suc m" "9 - Suc n = m" using Suc.prems by (metis Suc_diff_Suc Suc_le_lessD)
  from Suc have IH: "v128_octets (dec_state (aes_encrypt p ek) dk n) =
      shift_rows (sub_bytes (v128_octets (enc_state p ek (Suc m))))" by (simp add: m(1))
  show ?case
    unfolding dec_state_Suc aes_inv_round_octets IH key m enc_state_Suc aes_round_octets inv_mix_key_octets
    by (simp add: inv_round_step)
qed

lemma aes_decrypt_encrypt:
  "aes_decrypt (aes_encrypt p (aes_expand_encryption_key key)) (aes_expand_decryption_key key) = p"
proof -
  let ?ek = "aes_expand_encryption_key key" and ?dk = "aes_expand_decryption_key key"
  have "?dk ! 10 = ?ek ! 0" by (simp add: aes_expand_decryption_key_nth)
  then have "v128_octets (aes_decrypt (aes_encrypt p ?ek) ?dk) = v128_octets p"
    unfolding aes_decrypt_dec_state aes_inv_final_round_octets dec_state_enc_state [OF order_refl]
    by (simp add: inv_shift_sub enc_state_def v128_octets_xor)
  then show ?thesis by (simp add: v128_octets_inject)
qed

lemma fold_octets:
  assumes "\<And>i s. i \<in> set is \<Longrightarrow> v128_octets (f i s) = g i (v128_octets s)"
  shows "v128_octets (fold f is s) = fold g is (v128_octets s)"
  using assms by (induction "is" arbitrary: s) simp_all

subsection \<open>Properties\<close>

text \<open>
  C20: AES encryption is the standard's cipher. For every plaintext and every expanded key of eleven
  round keys, the table-driven rounds compute the standard's sequence of byte substitution, row
  shift, column mix and key addition.
\<close>

theorem aes_encrypt_is_standard:
  assumes "length exp_key = 11"
  shows "v128_octets (aes_encrypt p exp_key) = fips_cipher (map v128_octets exp_key) (v128_octets p)"
proof -
  have k: "map v128_octets exp_key ! i = v128_octets (exp_key ! i)" if "i \<le> 10" for i
    using that assms by simp
  have "v128_octets (fold (\<lambda>i s. aes_round s (exp_key ! i)) [1..<10] s) =
      fold (\<lambda>i s. xor_octets (mix_columns (shift_rows (sub_bytes s))) (map v128_octets exp_key ! i)) [1..<10] (v128_octets s)" for s
    by (rule fold_octets) (simp add: aes_round_octets k)
  then show ?thesis by (simp add: aes_encrypt_def fips_cipher_def aes_final_round_octets v128_octets_xor k)
qed

theorem aes_encrypt_is_standard_witness:
  "v128_octets (aes_encrypt (V128 1 2 3 4) (aes_expand_encryption_key (V128 5 6 7 8))) =
   fips_cipher (map v128_octets (aes_expand_encryption_key (V128 5 6 7 8))) (v128_octets (V128 1 2 3 4))"
  by (rule aes_encrypt_is_standard) simp

text \<open>
  C21: AES round trip. Decryption with the expanded decryption key of a key undoes encryption with
  its expanded encryption key, for every key and every block.
\<close>

theorem aes_roundtrip:
  "aes_decrypt (aes_encrypt plaintext (aes_expand_encryption_key key)) (aes_expand_decryption_key key) = plaintext"
  by (rule aes_decrypt_encrypt)

end
