(* ===== verification/Aes_Icm.thy ===== *)
theory Aes_Icm
  imports Aes
begin

text \<open>
  AES integer counter mode, \<^verbatim>\<open>crypto/cipher/aes_icm.c\<close>: the key and salt setup, the initialisation
  vector, the keystream buffer and the in-place encryption of a run of octets. The lemmas identify
  the octets that one call uses with a keystream that is fixed by the counter, so that calls can be
  cut anywhere and encrypting twice from the same position restores the data. \<open>None\<close> is an access
  outside of a buffer.
\<close>

record aes_icm_ctx_t =
  icm_counter :: v128_t
  icm_offset :: v128_t
  keystream_buffer :: v128_t
  icm_expanded_key :: aes_expanded_key_t
  bytes_in_buffer :: nat

text \<open>The salt is the sixteen octets at \<open>key + 16\<close>, although an SRTP key has fourteen there.\<close>

definition aes_icm_context_init :: "aes_icm_ctx_t \<Rightarrow> octets \<Rightarrow> (err_status_t \<times> aes_icm_ctx_t) option" where
  "aes_icm_context_init c key =
     (if length key < 32 then None
      else
        (let salt = v128_copy_octet_string (slice 16 16 key);
             offset = set_v8 (set_v8 salt 15 0) 14 0;
             counter = set_v8 (set_v8 salt 15 0) 14 0;
             tmp_key = v128_copy_octet_string (slice 0 16 key)
         in Some (err_status_ok,
              c\<lparr>icm_counter := counter, icm_offset := offset,
                icm_expanded_key := aes_expand_encryption_key tmp_key, bytes_in_buffer := 0\<rparr>)))"

definition aes_icm_set_octet :: "aes_icm_ctx_t \<Rightarrow> u64 \<Rightarrow> err_status_t \<times> aes_icm_ctx_t" where
  "aes_icm_set_octet c octet_num =
     (let tail_num = unat (octet_num mod 16);
          block_num = octet_num div 16;
          c = c\<lparr>icm_counter := set_v64 (icm_counter c) 0 (v64 (icm_offset c) 0 XOR block_num)\<rparr>
      in if tail_num \<noteq> 0 then
           (err_status_ok, c\<lparr>keystream_buffer := aes_encrypt (icm_counter c) (icm_expanded_key c),
                             bytes_in_buffer := 16 - tail_num\<rparr>)
         else (err_status_ok, c\<lparr>bytes_in_buffer := 0\<rparr>))"

definition aes_icm_set_iv :: "aes_icm_ctx_t \<Rightarrow> v128_t \<Rightarrow> err_status_t \<times> aes_icm_ctx_t" where
  "aes_icm_set_iv c nonce =
     (err_status_ok, c\<lparr>icm_counter := v128_xor (icm_offset c) nonce, bytes_in_buffer := 0\<rparr>)"

text \<open>How the counter is clocked: its last word for ISMACryp, otherwise its last two octets.\<close>

definition icm_clock :: "bool \<Rightarrow> v128_t \<Rightarrow> v128_t" where
  "icm_clock forIsmacryp counter =
     (if forIsmacryp then set_v32 counter 3 (htonl (ntohl (v32 counter 3) + 1))
      else
        (let counter = set_v8 counter 15 (v8 counter 15 + 1)
         in if v8 counter 15 = 0 then set_v8 counter 14 (v8 counter 14 + 1) else counter))"

definition aes_icm_advance_ismacryp :: "aes_icm_ctx_t \<Rightarrow> bool \<Rightarrow> aes_icm_ctx_t" where
  "aes_icm_advance_ismacryp c forIsmacryp =
     c\<lparr>keystream_buffer := aes_encrypt (icm_counter c) (icm_expanded_key c), bytes_in_buffer := 16,
       icm_counter := icm_clock forIsmacryp (icm_counter c)\<rparr>"

text \<open>The loop over whole blocks: the context afterwards and the octets written.\<close>

fun icm_blocks :: "bool \<Rightarrow> nat \<Rightarrow> aes_icm_ctx_t \<Rightarrow> octets \<Rightarrow> aes_icm_ctx_t \<times> octets" where
  "icm_blocks ism 0 c buf = (c, [])"
| "icm_blocks ism (Suc n) c buf =
     (let c = aes_icm_advance_ismacryp c ism;
          out = xor_octets (take 16 buf) (v128_octets (keystream_buffer c));
          (c, rest) = icm_blocks ism n c (drop 16 buf)
      in (c, out @ rest))"

definition icm_tail :: "bool \<Rightarrow> nat \<Rightarrow> aes_icm_ctx_t \<Rightarrow> octets \<Rightarrow> aes_icm_ctx_t \<times> octets" where
  "icm_tail ism r c buf =
     (if r \<noteq> 0 then
        (let c = aes_icm_advance_ismacryp c ism
         in (c\<lparr>bytes_in_buffer := 16 - r\<rparr>,
             xor_octets (take r buf) (take r (v128_octets (keystream_buffer c)))))
      else (c\<lparr>bytes_in_buffer := 0\<rparr>, []))"

definition aes_icm_encrypt_ismacryp ::
  "aes_icm_ctx_t \<Rightarrow> octets \<Rightarrow> u32 \<Rightarrow> bool \<Rightarrow> (err_status_t \<times> aes_icm_ctx_t \<times> octets) option" where
  "aes_icm_encrypt_ismacryp c buf enc_len ism =
     (if \<not> ism \<and> enc_len + ucast (htons (v16 (icm_counter c) 7)) > 0xffff
      then Some (err_status_terminus, c, buf)
      else if length buf < unat enc_len then None
      else
        (let n = unat enc_len; k = bytes_in_buffer c; ks = drop (16 - k) (v128_octets (keystream_buffer c)) in
         if n \<le> k then
           Some (err_status_ok, c\<lparr>bytes_in_buffer := k - n\<rparr>,
                 xor_octets (take n buf) (take n ks) @ drop n buf)
         else
           (let out0 = xor_octets (take k buf) ks;
                n = n - k; buf = drop k buf;
                (c, out1) = icm_blocks ism (n div 16) (c\<lparr>bytes_in_buffer := 0\<rparr>) buf;
                buf = drop (16 * (n div 16)) buf;
                (c, out2) = icm_tail ism (n mod 16) c buf
            in Some (err_status_ok, c, out0 @ out1 @ out2 @ drop (n mod 16) buf))))"

definition aes_icm_encrypt ::
  "aes_icm_ctx_t \<Rightarrow> octets \<Rightarrow> u32 \<Rightarrow> (err_status_t \<times> aes_icm_ctx_t \<times> octets) option" where
  "aes_icm_encrypt c buf enc_len = aes_icm_encrypt_ismacryp c buf enc_len False"

definition aes_icm_output ::
  "aes_icm_ctx_t \<Rightarrow> octets \<Rightarrow> int \<Rightarrow> (err_status_t \<times> aes_icm_ctx_t \<times> octets) option" where
  "aes_icm_output c buffer num_octets_to_output =
     (case octet_string_set_to_zero buffer (nat num_octets_to_output) of
        None \<Rightarrow> None
      | Some buffer \<Rightarrow> aes_icm_encrypt c buffer (word_of_int num_octets_to_output))"

subsection \<open>The keystream\<close>

definition icm_block :: "bool \<Rightarrow> aes_icm_ctx_t \<Rightarrow> nat \<Rightarrow> octets" where
  "icm_block ism c n = v128_octets (aes_encrypt ((icm_clock ism ^^ n) (icm_counter c)) (icm_expanded_key c))"

definition icm_keystream :: "bool \<Rightarrow> aes_icm_ctx_t \<Rightarrow> nat \<Rightarrow> u8" where
  "icm_keystream ism c i =
     (let k = bytes_in_buffer c in
      if i < k then v128_octets (keystream_buffer c) ! (16 - k + i)
      else icm_block ism c ((i - k) div 16) ! ((i - k) mod 16))"

abbreviation icm_wf :: "aes_icm_ctx_t \<Rightarrow> bool" where
  "icm_wf c \<equiv> bytes_in_buffer c \<le> 16"

lemma length_icm_block [simp]: "length (icm_block ism c n) = 16"
  by (simp add: icm_block_def)

lemma icm_block_advance:
  "icm_block ism (aes_icm_advance_ismacryp c ism) n = icm_block ism c (Suc n)"
  by (simp add: icm_block_def aes_icm_advance_ismacryp_def funpow_swap1)

lemma icm_blocks_correct:
  assumes "16 * n \<le> length buf"
  shows "\<exists>ks b. icm_blocks ism n c buf = (c\<lparr>icm_counter := (icm_clock ism ^^ n) (icm_counter c),
      keystream_buffer := ks, bytes_in_buffer := b\<rparr>,
    xor_octets (take (16 * n) buf) (concat (map (icm_block ism c) [0..<n])))"
  using assms
proof (induction n arbitrary: c buf)
  case 0
  then show ?case by (auto simp: xor_octets_def intro!: exI [of _ "keystream_buffer c"] exI [of _ "bytes_in_buffer c"])
next
  case (Suc n)
  let ?c = "aes_icm_advance_ismacryp c ism"
  have map: "concat (map (icm_block ism c) [0..<Suc n]) = icm_block ism c 0 @ concat (map (icm_block ism ?c) [0..<n])"
    by (simp add: map_upt_Suc del: upt_Suc flip: icm_block_advance)
  have take: "take (16 + 16 * n) buf = take 16 buf @ take (16 * n) (drop 16 buf)"
    by (simp add: take_add)
  have ks: "v128_octets (keystream_buffer ?c) = icm_block ism c 0"
    by (simp add: aes_icm_advance_ismacryp_def icm_block_def)
  have "16 * n \<le> length (drop 16 buf)" using Suc.prems by simp
  from Suc.IH [OF this, of ?c] obtain ks b where
    "icm_blocks ism n ?c (drop 16 buf) = (?c\<lparr>icm_counter := (icm_clock ism ^^ n) (icm_counter ?c),
        keystream_buffer := ks, bytes_in_buffer := b\<rparr>,
      xor_octets (take (16 * n) (drop 16 buf)) (concat (map (icm_block ism ?c) [0..<n])))"
    by blast
  with Suc.prems show ?case
    by (simp add: Let_def map take ks xor_octets_append del: upt_Suc)
      (auto simp: aes_icm_advance_ismacryp_def funpow_swap1)
qed

lemma concat_blocks_nth:
  "i < 16 * n \<Longrightarrow> concat (map (icm_block ism c) [0..<n]) ! i = icm_block ism c (i div 16) ! (i mod 16)"
proof (induction n)
  case (Suc n)
  have len: "length (concat (map (icm_block ism c) [0..<n])) = 16 * n"
    by (simp add: length_concat comp_def sum_list_triv)
  show ?case
  proof (cases "i < 16 * n")
    case False
    then have "i div 16 = n" using Suc.prems by auto
    then have "i div 16 = n" "i mod 16 = i - 16 * n" by (simp_all add: modulo_nat_def mult.commute)
    then show ?thesis using False len by (simp add: nth_append)
  qed (use Suc len in \<open>simp add: nth_append\<close>)
qed simp

text \<open>The tail: at most one more block is started, and its rest stays in the buffer.\<close>

lemma icm_tail_correct:
  assumes "r < 16" "r \<le> length buf"
  shows "\<exists>c'. icm_tail ism r c buf = (c', xor_octets (take r buf) (take r (icm_block ism c 0))) \<and>
    icm_offset c' = icm_offset c \<and> icm_expanded_key c' = icm_expanded_key c \<and> icm_wf c' \<and>
    icm_counter c' = (icm_clock ism ^^ (if r = 0 then 0 else 1)) (icm_counter c) \<and>
    (\<forall>i. icm_keystream ism c' i = icm_block ism c ((r + i) div 16) ! ((r + i) mod 16))"
proof (cases "r = 0")
  case True
  then show ?thesis
    by (simp add: icm_tail_def icm_keystream_def icm_block_def xor_octets_def)
next
  case False
  let ?c = "aes_icm_advance_ismacryp c ism"
  let ?d = "?c\<lparr>bytes_in_buffer := 16 - r\<rparr>"
  have ks: "v128_octets (keystream_buffer ?c) = icm_block ism c 0"
    by (simp add: aes_icm_advance_ismacryp_def icm_block_def)
  have blk: "icm_block ism ?d n = icm_block ism c (Suc n)" for n
    using icm_block_advance [of ism c n] by (simp add: icm_block_def)
  have "icm_keystream ism ?d i = icm_block ism c ((r + i) div 16) ! ((r + i) mod 16)" for i
  proof (cases "i < 16 - r")
    case True
    then show ?thesis using assms(1) by (simp add: icm_keystream_def Let_def ks)
  next
    case False
    then obtain q where q: "i - (16 - r) = q" "r + i = q + 16" using assms(1) by simp
    then have "(r + i) div 16 = Suc (q div 16)" "(r + i) mod 16 = q mod 16" by simp_all
    then show ?thesis using False assms(1) q by (simp add: icm_keystream_def Let_def blk)
  qed
  then show ?thesis
    using False ks by (simp add: icm_tail_def Let_def) (simp add: aes_icm_advance_ismacryp_def)
qed

lemma xor_octets_take: "xor_octets (take n a) (take n b) = take n (xor_octets a b)"
  by (simp add: xor_octets_def take_map take_zip)

definition icm_stream :: "bool \<Rightarrow> aes_icm_ctx_t \<Rightarrow> nat \<Rightarrow> octets" where
  "icm_stream ism c n = map (icm_keystream ism c) [0..<n]"

lemma length_icm_stream [simp]: "length (icm_stream ism c n) = n"
  by (simp add: icm_stream_def)

lemma nth_icm_stream [simp]: "i < n \<Longrightarrow> icm_stream ism c n ! i = icm_keystream ism c i"
  by (simp add: icm_stream_def)

lemma icm_stream_short:
  "n \<le> bytes_in_buffer c \<Longrightarrow> icm_wf c \<Longrightarrow>
     icm_stream ism c n = take n (drop (16 - bytes_in_buffer c) (v128_octets (keystream_buffer c)))"
  by (rule nth_equalityI) (auto simp: icm_keystream_def Let_def)

lemma icm_stream_long:
  assumes "bytes_in_buffer c \<le> n" "icm_wf c"
  defines "m \<equiv> n - bytes_in_buffer c"
  shows "icm_stream ism c n = drop (16 - bytes_in_buffer c) (v128_octets (keystream_buffer c)) @
    concat (map (icm_block ism c) [0..<m div 16]) @ take (m mod 16) (icm_block ism c (m div 16))"
proof (rule nth_equalityI)
  have len: "length (concat (map (icm_block ism c) [0..<j])) = 16 * j" for j
    by (simp add: length_concat comp_def sum_list_triv)
  show L: "length (icm_stream ism c n) = length (drop (16 - bytes_in_buffer c) (v128_octets (keystream_buffer c)) @
    concat (map (icm_block ism c) [0..<m div 16]) @ take (m mod 16) (icm_block ism c (m div 16)))"
  proof -
    have "16 * (m div 16) + m mod 16 = m" "min 16 (m mod 16) = m mod 16" by (simp_all add: min_def)
    moreover have "n = bytes_in_buffer c + m" using assms(1) by (simp add: m_def)
    ultimately show ?thesis using assms(2) by (simp add: len)
  qed
  fix i assume "i < length (icm_stream ism c n)"
  then have i: "i < n" by simp
  let ?j = "i - bytes_in_buffer c"
  consider "i < bytes_in_buffer c" | "bytes_in_buffer c \<le> i" "?j < 16 * (m div 16)"
    | "bytes_in_buffer c \<le> i" "16 * (m div 16) \<le> ?j" "?j div 16 = m div 16" "?j - 16 * (m div 16) = ?j mod 16" "?j mod 16 < m mod 16"
  proof -
    have "?j div 16 = m div 16 \<and> ?j - 16 * (m div 16) = ?j mod 16 \<and> ?j mod 16 < m mod 16"
      if "bytes_in_buffer c \<le> i" "16 * (m div 16) \<le> ?j"
    proof -
      have "?j < m" using i that assms by simp
      moreover have "?j div 16 \<le> m div 16" using \<open>?j < m\<close> by (simp add: div_le_mono)
      moreover have "m div 16 \<le> ?j div 16" using that(2) by (metis div_le_mono nonzero_mult_div_cancel_left zero_neq_numeral)
      ultimately show ?thesis
        by (metis le_antisym minus_mult_div_eq_mod diff_less_mono that(2))
    qed
    then show ?thesis using that by (metis not_le)
  qed
  then show "icm_stream ism c n ! i = (drop (16 - bytes_in_buffer c) (v128_octets (keystream_buffer c)) @
    concat (map (icm_block ism c) [0..<m div 16]) @ take (m mod 16) (icm_block ism c (m div 16))) ! i"
    using i assms(2) by cases (simp_all add: nth_append len icm_keystream_def Let_def concat_blocks_nth)
qed

subsection \<open>One call\<close>

text \<open>The result of a call in the three pieces that the code writes: the buffered octets, whole blocks and a rest.\<close>

lemma icm_output_pieces:
  assumes c: "icm_wf c" and len: "bytes_in_buffer c + m \<le> length buf"
  defines "k \<equiv> bytes_in_buffer c" and "buf1 \<equiv> drop (bytes_in_buffer c) buf"
  defines "buf2 \<equiv> drop (16 * (m div 16)) buf1"
  shows "xor_octets (take (k + m) buf) (icm_stream ism c (k + m)) @ drop (k + m) buf =
    xor_octets (take k buf) (drop (16 - k) (v128_octets (keystream_buffer c))) @
    xor_octets (take (16 * (m div 16)) buf1) (concat (map (icm_block ism c) [0..<m div 16])) @
    xor_octets (take (m mod 16) buf2) (take (m mod 16) (icm_block ism c (m div 16))) @ drop (m mod 16) buf2"
proof -
  have mm: "16 * (m div 16) + m mod 16 = m" by simp
  have "take (k + m) buf = take k buf @ take (16 * (m div 16)) buf1 @ take (m mod 16) buf2"
    unfolding buf1_def buf2_def k_def by (metis mm take_add)
  moreover have "drop (k + m) buf = drop (m mod 16) buf2"
    unfolding buf1_def buf2_def k_def by (metis mm drop_drop add.commute)
  moreover have "icm_stream ism c (k + m) = drop (16 - k) (v128_octets (keystream_buffer c)) @
      concat (map (icm_block ism c) [0..<m div 16]) @ take (m mod 16) (icm_block ism c (m div 16))"
    using icm_stream_long [of c "k + m" ism] c by (simp add: k_def)
  moreover have "length (concat (map (icm_block ism c) [0..<m div 16])) = 16 * (m div 16)"
    by (simp add: length_concat comp_def sum_list_triv)
  ultimately show ?thesis
    using c len mm by (simp add: xor_octets_append k_def buf1_def)
qed

lemma div_mod_shift: "(m + i) div 16 = m div 16 + (m mod 16 + i) div 16" "(m + i) mod 16 = (m mod 16 + i) mod (16 :: nat)"
proof -
  have "m + i = 16 * (m div 16) + (m mod 16 + i)" by simp
  then show "(m + i) div 16 = m div 16 + (m mod 16 + i) div 16" "(m + i) mod 16 = (m mod 16 + i) mod 16"
    by (simp_all only: div_mult_self4 mod_mult_self4)
qed

text \<open>A call that is not at the terminus xors the next octets of the keystream and moves past them.\<close>

lemma aes_icm_encrypt_stream:
  assumes "icm_wf c" and "unat enc_len \<le> length buf"
    and "ism \<or> enc_len + ucast (htons (v16 (icm_counter c) 7)) \<le> 0xffff"
  shows "\<exists>c'. aes_icm_encrypt_ismacryp c buf enc_len ism =
      Some (err_status_ok, c', xor_octets (take (unat enc_len) buf) (icm_stream ism c (unat enc_len)) @ drop (unat enc_len) buf) \<and>
    icm_wf c' \<and> icm_offset c' = icm_offset c \<and> icm_expanded_key c' = icm_expanded_key c \<and>
    (\<exists>j \<le> unat enc_len. icm_counter c' = (icm_clock ism ^^ j) (icm_counter c)) \<and>
    (\<forall>i. icm_keystream ism c' i = icm_keystream ism c (unat enc_len + i))"
proof (cases "unat enc_len \<le> bytes_in_buffer c")
  case True
  have "icm_block ism (c\<lparr>bytes_in_buffer := b\<rparr>) n = icm_block ism c n" for b n by (simp add: icm_block_def)
  with True assms show ?thesis
    by (auto intro: exI [of _ 0] simp: aes_icm_encrypt_ismacryp_def Let_def icm_stream_short icm_keystream_def not_less algebra_simps)
next
  case False
  define m where "m = unat enc_len - bytes_in_buffer c"
  let ?k = "bytes_in_buffer c"
  let ?buf1 = "drop ?k buf" let ?buf2 = "drop (16 * (m div 16)) ?buf1"
  have len: "unat enc_len = ?k + m" and mm: "16 * (m div 16) + m mod 16 = m" using False by (simp_all add: m_def)
  obtain ks b where blocks: "icm_blocks ism (m div 16) (c\<lparr>bytes_in_buffer := 0\<rparr>) ?buf1 =
      (c\<lparr>icm_counter := (icm_clock ism ^^ (m div 16)) (icm_counter c), keystream_buffer := ks, bytes_in_buffer := b\<rparr>,
       xor_octets (take (16 * (m div 16)) ?buf1) (concat (map (icm_block ism (c\<lparr>bytes_in_buffer := 0\<rparr>)) [0..<m div 16])))"
  proof -
    have "16 * (m div 16) \<le> length ?buf1" using assms(2) len mm by simp
    from icm_blocks_correct [OF this, of ism "c\<lparr>bytes_in_buffer := 0\<rparr>"] show ?thesis using that by auto
  qed
  let ?d = "c\<lparr>icm_counter := (icm_clock ism ^^ (m div 16)) (icm_counter c), keystream_buffer := ks, bytes_in_buffer := b\<rparr>"
  have blk: "icm_block ism ?d n = icm_block ism c (m div 16 + n)" "icm_block ism (c\<lparr>bytes_in_buffer := 0\<rparr>) n = icm_block ism c n" for n
    by (simp_all add: icm_block_def add.commute [of "m div 16"] funpow_add)
  have "m mod 16 < 16" by simp
  have "m mod 16 \<le> length ?buf2" using assms(2) len mm unfolding length_drop by linarith
  from icm_tail_correct [OF \<open>m mod 16 < 16\<close> this, of ism ?d] obtain c' where
    tail: "icm_tail ism (m mod 16) ?d ?buf2 = (c', xor_octets (take (m mod 16) ?buf2) (take (m mod 16) (icm_block ism c (m div 16))))"
    and c': "icm_offset c' = icm_offset c" "icm_expanded_key c' = icm_expanded_key c" "icm_wf c'"
      "icm_counter c' = (icm_clock ism ^^ (if m mod 16 = 0 then 0 else 1)) ((icm_clock ism ^^ (m div 16)) (icm_counter c))"
    and ks': "icm_keystream ism c' i = icm_block ism c (m div 16 + (m mod 16 + i) div 16) ! ((m mod 16 + i) mod 16)" for i
    by (auto simp: blk)
  have "icm_keystream ism c' i = icm_keystream ism c (unat enc_len + i)" for i
    unfolding ks' by (simp add: icm_keystream_def len Let_def div_mod_shift [of m i])
  moreover have "aes_icm_encrypt_ismacryp c buf enc_len ism =
      Some (err_status_ok, c', xor_octets (take (unat enc_len) buf) (icm_stream ism c (unat enc_len)) @ drop (unat enc_len) buf)"
    using icm_output_pieces [OF assms(1), of m buf ism, folded len] assms(2,3) False blocks tail
    by (simp add: aes_icm_encrypt_ismacryp_def Let_def not_less m_def [symmetric] blk(2) [abs_def])
  moreover have "\<exists>j \<le> unat enc_len. icm_counter c' = (icm_clock ism ^^ j) (icm_counter c)"
  proof (intro exI conjI)
    show "icm_counter c' = (icm_clock ism ^^ ((if m mod 16 = 0 then 0 else 1) + m div 16)) (icm_counter c)"
      unfolding c'(4) by (simp only: funpow_add o_apply)
    show "(if m mod 16 = 0 then 0 else 1) + m div 16 \<le> unat enc_len" using len mm by auto
  qed
  ultimately show ?thesis using c' by blast
qed

subsection \<open>The block counter\<close>

text \<open>The last two octets of the counter, read in network byte order.\<close>

definition block_index :: "v128_t \<Rightarrow> u16" where
  "block_index x = htons (v16 x 7)"

lemma uint_block_index: "uint (block_index x) = 256 * uint (v8 x 14) + uint (v8 x 15)"
proof -
  let ?a = "ucast (v8 x 14) :: u16" and ?b = "ucast (v8 x 15) :: u16"
  have "block_index x = push_bit 8 ?a OR ?b"
    by (rule bit_word_eqI) (auto simp: block_index_def v16_def bit_bswap16 bit_simps dest: bit_imp_le_length)
  also have "push_bit 8 ?a AND ?b = 0"
    by (rule bit_word_eqI) (auto simp: bit_simps dest: bit_imp_le_length)
  then have "push_bit 8 ?a OR ?b = push_bit 8 ?a + ?b" by (simp add: disjunctive_add_eq_or)
  finally have "uint (block_index x) = uint (push_bit 8 ?a + ?b)" by simp
  moreover have "uint (push_bit 8 ?a) = 256 * uint (v8 x 14)" "uint ?b = uint (v8 x 15)"
    using uint_bounded [of "v8 x 14"] by (simp_all add: push_bit_eq_mult uint_word_ariths uint_up_ucast is_up)
  ultimately show ?thesis
    using uint_bounded [of "v8 x 14"] uint_bounded [of "v8 x 15"] by (simp add: uint_word_ariths)
qed

lemma v8_set_v8: "i < 16 \<Longrightarrow> v8 (set_v8 x j b) i = (if i = j then b else v8 x i)"
  by (auto simp: v8_def nth_list_update)

lemma octet_succ:
  fixes b :: u8
  shows "b + 1 = 0 \<longleftrightarrow> uint b = 255" and "uint b \<noteq> 255 \<Longrightarrow> uint (b + 1) = uint b + 1"
proof -
  have u: "uint (b + 1) = (uint b + 1) mod 256" by (simp add: uint_word_ariths)
  have lt: "0 \<le> uint b" "uint b < 256" using uint_bounded [of b] by simp_all
  show *: "uint (b + 1) = uint b + 1" if "uint b \<noteq> 255" using u lt that by simp
  have "b + 1 = 0 \<longleftrightarrow> uint (b + 1) = 0" by (simp only: uint_0_iff)
  then show "b + 1 = 0 \<longleftrightarrow> uint b = 255" using u lt * by (cases "uint b = 255") simp_all
qed

lemma block_index_clock:
  assumes "uint (block_index x) < 0xffff"
  shows "uint (block_index (icm_clock False x)) = uint (block_index x) + 1"
proof (cases "uint (v8 x 15) = 255")
  case True
  then have "uint (v8 x 14) \<noteq> 255" using assms by (simp add: uint_block_index)
  with True octet_succ(2) [of "v8 x 14"] octet_succ(1) [of "v8 x 15"] show ?thesis
    by (simp add: uint_block_index icm_clock_def Let_def v8_set_v8)
next
  case False
  with octet_succ [of "v8 x 15"] show ?thesis
    by (simp add: uint_block_index icm_clock_def Let_def v8_set_v8)
qed

lemma block_index_clocks:
  "uint (block_index x) + int j \<le> 0xffff \<Longrightarrow>
     uint (block_index ((icm_clock False ^^ j) x)) = uint (block_index x) + int j"
  by (induction j) (simp_all add: block_index_clock)

text \<open>The guard of the encryption: the sum is computed in 32 bits, but a packet is far below them.\<close>

lemma icm_guard:
  assumes "unat enc_len + unat (block_index x) \<le> 0xffff"
  shows "enc_len + ucast (htons (v16 x 7)) \<le> (0xffff :: u32)"
proof -
  have "unat (ucast (block_index x) :: u32) = unat (block_index x)"
    by (simp add: uint_up_ucast is_up flip: nat_uint_eq)
  with assms have "unat (enc_len + ucast (block_index x)) \<le> 0xffff"
    by (subst unat_add_lem [THEN iffD1]) simp_all
  then show ?thesis by (simp add: word_le_nat_alt block_index_def)
qed

subsection \<open>The contract of a stream cipher\<close>

text \<open>
  \<open>keyed s k\<close>: the state carries the key \<open>k\<close>. \<open>positioned s k iv pos\<close>: it is also positioned at octet \<open>pos\<close>
  of the keystream that the key and the initialisation vector \<open>iv\<close> determine. \<open>good_iv\<close> are the
  vectors from which \<open>capacity\<close> octets can be produced. Encryption and decryption are one operation.
\<close>

locale stream_cipher =
  fixes keyed :: "'s \<Rightarrow> 'k \<Rightarrow> bool" and positioned :: "'s \<Rightarrow> 'k \<Rightarrow> 'v \<Rightarrow> nat \<Rightarrow> bool"
    and good_iv :: "'v \<Rightarrow> bool" and capacity :: nat and keystream :: "'k \<Rightarrow> 'v \<Rightarrow> nat \<Rightarrow> u8"
    and set_iv :: "'s \<Rightarrow> 'v \<Rightarrow> err_status_t \<times> 's"
    and crypt :: "'s \<Rightarrow> octets \<Rightarrow> u32 \<Rightarrow> (err_status_t \<times> 's \<times> octets) option"
  assumes set_iv_at: "keyed s k \<Longrightarrow> good_iv iv \<Longrightarrow> fst (set_iv s iv) = err_status_ok \<and> positioned (snd (set_iv s iv)) k iv 0"
    and at_keyed: "positioned s k iv pos \<Longrightarrow> keyed s k"
    and crypt_at: "positioned s k iv pos \<Longrightarrow> unat n \<le> length buf \<Longrightarrow> pos + unat n \<le> capacity \<Longrightarrow>
      \<exists>s'. crypt s buf n = Some (err_status_ok, s',
          xor_octets (take (unat n) buf) (map (\<lambda>i. keystream k iv (pos + i)) [0..<unat n]) @ drop (unat n) buf) \<and>
        positioned s' k iv (pos + unat n)"
begin

lemma crypt_fresh:
  assumes "keyed s k" "good_iv iv" "unat n \<le> length buf" "unat n \<le> capacity"
  shows "\<exists>s'. crypt (snd (set_iv s iv)) buf n = Some (err_status_ok, s',
      xor_octets (take (unat n) buf) (map (keystream k iv) [0..<unat n]) @ drop (unat n) buf) \<and> keyed s' k"
  using crypt_at [of "snd (set_iv s iv)" k iv 0 n buf] set_iv_at [OF assms(1,2)] at_keyed assms(3,4) by fastforce

text \<open>Two states with the same key and vector undo each other.\<close>

lemma decrypt_encrypt:
  assumes "keyed s k" "keyed r k" "good_iv iv" "unat n \<le> length buf" "unat n \<le> capacity"
  shows "\<exists>s' r' c. crypt (snd (set_iv s iv)) buf n = Some (err_status_ok, s', c) \<and>
    crypt (snd (set_iv r iv)) c n = Some (err_status_ok, r', buf) \<and> length c = length buf \<and> keyed s' k \<and> keyed r' k"
proof -
  let ?ks = "map (keystream k iv) [0..<unat n]"
  let ?c = "xor_octets (take (unat n) buf) ?ks @ drop (unat n) buf"
  from crypt_fresh [OF assms(1,3-5)] obtain s' where s': "keyed s' k"
      "crypt (snd (set_iv s iv)) buf n = Some (err_status_ok, s', ?c)" by blast
  have len: "length ?c = length buf" using assms(4) by simp
  then have "unat n \<le> length ?c" using assms(4) by simp
  from crypt_fresh [OF assms(2,3) this assms(5)] obtain r' where "keyed r' k"
      "crypt (snd (set_iv r iv)) ?c n = Some (err_status_ok, r', xor_octets (take (unat n) ?c) ?ks @ drop (unat n) ?c)"
    by blast
  moreover have "xor_octets (take (unat n) ?c) ?ks @ drop (unat n) ?c = buf"
    using assms(4) by simp
  ultimately show ?thesis using s' len by metis
qed

text \<open>A run of octets may be encrypted in two calls.\<close>

lemma crypt_split:
  assumes "positioned s k iv pos" "unat m = length a" "unat n = length b" "pos + unat m + unat n \<le> capacity"
  shows "\<exists>s' s'' a' b'. crypt s a m = Some (err_status_ok, s', a') \<and> crypt s' b n = Some (err_status_ok, s'', b') \<and>
    a' @ b' = xor_octets (a @ b) (map (\<lambda>i. keystream k iv (pos + i)) [0..<length a + length b]) \<and>
    positioned s'' k iv (pos + length a + length b)"
proof -
  let ?ks = "\<lambda>p l. map (\<lambda>i. keystream k iv (p + i)) [0..<l]"
  have ks: "?ks pos (length a + length b) = ?ks pos (length a) @ ?ks (pos + length a) (length b)"
    by (rule nth_equalityI) (auto simp: nth_append algebra_simps)
  from crypt_at [OF assms(1), of m a] assms obtain s' where
    "crypt s a m = Some (err_status_ok, s', xor_octets a (?ks pos (length a)))" and s': "positioned s' k iv (pos + length a)"
    by auto
  moreover from crypt_at [OF s', of n b] assms obtain s'' where
    "crypt s' b n = Some (err_status_ok, s'', xor_octets b (?ks (pos + length a) (length b)))" "positioned s'' k iv (pos + length a + length b)"
    by auto
  ultimately show ?thesis using ks by (auto simp: xor_octets_append)
qed

end

subsection \<open>AES counter mode meets it\<close>

text \<open>The key of a context: its expanded key and its offset, whose last two octets are zero.\<close>

definition icm_keyed :: "aes_icm_ctx_t \<Rightarrow> aes_expanded_key_t \<times> v128_t \<Rightarrow> bool" where
  "icm_keyed c k \<longleftrightarrow> icm_expanded_key c = fst k \<and> icm_offset c = snd k \<and> block_index (snd k) = 0 \<and> icm_wf c"

definition icm_ks :: "aes_expanded_key_t \<times> v128_t \<Rightarrow> v128_t \<Rightarrow> nat \<Rightarrow> u8" where
  "icm_ks k iv i = v128_octets (aes_encrypt ((icm_clock False ^^ (i div 16)) (v128_xor (snd k) iv)) (fst k)) ! (i mod 16)"

definition icm_at :: "aes_icm_ctx_t \<Rightarrow> aes_expanded_key_t \<times> v128_t \<Rightarrow> v128_t \<Rightarrow> nat \<Rightarrow> bool" where
  "icm_at c k iv pos \<longleftrightarrow> icm_keyed c k \<and> unat (block_index (icm_counter c)) \<le> pos \<and>
     (\<forall>i. icm_keystream False c i = icm_ks k iv (pos + i))"

lemma v8_xor: "i < 16 \<Longrightarrow> v8 (v128_xor x y) i = v8 x i XOR v8 y i"
  by (simp add: v8_def v128_octets_xor nth_xor_octets)

lemma block_index_xor_0:
  assumes "block_index x = 0" "block_index y = 0"
  shows "block_index (v128_xor x y) = 0"
proof -
  have "v8 z 14 = 0 \<and> v8 z 15 = 0" if "block_index z = 0" for z
    using that uint_block_index [of z] uint_bounded [of "v8 z 14"] uint_bounded [of "v8 z 15"]
    by (simp add: uint_0_iff) (metis add_nonneg_eq_0_iff mult_eq_0_iff uint_0_iff uint_nonnegative zero_le_mult_iff zero_le_numeral zero_neq_numeral)
  with assms have "uint (block_index (v128_xor x y)) = 0" by (simp add: uint_block_index v8_xor)
  then show ?thesis by (simp add: uint_0_iff)
qed

lemma icm_set_iv_at:
  "icm_keyed c k \<Longrightarrow> block_index iv = 0 \<Longrightarrow> icm_at (snd (aes_icm_set_iv c iv)) k iv 0"
  by (simp add: icm_at_def icm_keyed_def aes_icm_set_iv_def block_index_xor_0 icm_keystream_def icm_block_def icm_ks_def Let_def)

lemma icm_crypt_at:
  assumes "icm_at c k iv pos" "unat n \<le> length buf" "pos + unat n \<le> 0xffff"
  shows "\<exists>c'. aes_icm_encrypt c buf n = Some (err_status_ok, c',
      xor_octets (take (unat n) buf) (map (\<lambda>i. icm_ks k iv (pos + i)) [0..<unat n]) @ drop (unat n) buf) \<and>
    icm_at c' k iv (pos + unat n)"
proof -
  have guard: "unat n + unat (block_index (icm_counter c)) \<le> 0xffff" using assms(1,3) by (simp add: icm_at_def)
  from aes_icm_encrypt_stream [OF _ assms(2), of c False] icm_guard [OF guard] assms(1)
  obtain c' j where c': "aes_icm_encrypt c buf n = Some (err_status_ok, c',
        xor_octets (take (unat n) buf) (icm_stream False c (unat n)) @ drop (unat n) buf)" "icm_wf c'"
      "icm_offset c' = icm_offset c" "icm_expanded_key c' = icm_expanded_key c"
    and j: "j \<le> unat n" "icm_counter c' = (icm_clock False ^^ j) (icm_counter c)"
    and ks: "\<And>i. icm_keystream False c' i = icm_keystream False c (unat n + i)"
    by (auto simp: icm_at_def icm_keyed_def aes_icm_encrypt_def)
  let ?b = "block_index (icm_counter c)"
  have u: "unat w = nat (uint w)" "0 \<le> uint w" for w :: u16 by simp_all
  have "uint ?b + int j \<le> 0xffff" using guard j(1) u [of ?b] by linarith
  from block_index_clocks [OF this] have "uint (block_index (icm_counter c')) = uint ?b + int j"
    unfolding j(2) .
  moreover have "unat ?b \<le> pos" using assms(1) by (simp add: icm_at_def)
  ultimately have "unat (block_index (icm_counter c')) \<le> pos + unat n"
    using j(1) u [of ?b] u [of "block_index (icm_counter c')"] by linarith
  moreover have "icm_stream False c (unat n) = map (\<lambda>i. icm_ks k iv (pos + i)) [0..<unat n]"
    using assms(1) by (simp add: icm_stream_def icm_at_def)
  ultimately show ?thesis using c' ks assms(1) by (simp add: icm_at_def icm_keyed_def add.assoc)
qed

interpretation icm: stream_cipher icm_keyed icm_at "\<lambda>iv. block_index iv = 0" "0xffff" icm_ks aes_icm_set_iv aes_icm_encrypt
  by unfold_locales (simp_all add: icm_set_iv_at icm_crypt_at, simp_all add: aes_icm_set_iv_def icm_at_def)

text \<open>The key that \<^verbatim>\<open>aes_icm_context_init\<close> derives from 32 octets of key and salt.\<close>

definition icm_key :: "octets \<Rightarrow> aes_expanded_key_t \<times> v128_t" where
  "icm_key key = (aes_expand_encryption_key (v128_of_octets (slice 0 16 key)),
     set_v8 (set_v8 (v128_of_octets (slice 16 16 key)) 15 0) 14 0)"

lemma aes_icm_context_init_keyed:
  assumes "32 \<le> length key"
  shows "\<exists>c'. aes_icm_context_init c key = Some (err_status_ok, c') \<and> icm_keyed c' (icm_key key)"
proof -
  have "uint (block_index (snd (icm_key key))) = 0" by (simp add: icm_key_def uint_block_index v8_set_v8)
  then have "block_index (snd (icm_key key)) = 0" by (simp only: uint_0_iff)
  with assms show ?thesis
    by (simp add: aes_icm_context_init_def icm_keyed_def icm_key_def v128_copy_octet_string_def Let_def)
qed

lemma v128_of_v8: "(\<And>i. i < 16 \<Longrightarrow> v8 x i = v8 y i) \<Longrightarrow> x = y"
proof -
  assume *: "\<And>i. i < 16 \<Longrightarrow> v8 x i = v8 y i"
  have "v128_of_octets (v128_octets x) = v128_of_octets (v128_octets y)"
    using * by (simp add: v128_of_octets_def v8_def)
  then show ?thesis by simp
qed

lemma v8_of_octets: "i < 16 \<Longrightarrow> length s = 16 \<Longrightarrow> v8 (v128_of_octets s) i = s ! i"
  by (simp add: v8_def)

text \<open>Only 30 of the 32 octets that the context initialisation reads matter.\<close>

lemma icm_key_cong:
  assumes "take 30 key = take 30 key'" "32 \<le> length key" "32 \<le> length key'"
  shows "icm_key key = icm_key key'"
proof -
  have n: "key ! i = key' ! i" if "i < 30" for i using assms(1) that by (metis nth_take)
  have "slice 0 16 key = slice 0 16 key'" using assms n by (intro nth_equalityI) (simp_all add: slice_def)
  moreover have "set_v8 (set_v8 (v128_of_octets (slice 16 16 key)) 15 0) 14 0 =
      set_v8 (set_v8 (v128_of_octets (slice 16 16 key')) 15 0) 14 0"
  proof (rule v128_of_v8)
    fix i :: nat assume "i < 16"
    moreover then have "i = 14 \<or> i = 15 \<or> 16 + i < 30" by linarith
    ultimately show "v8 (set_v8 (set_v8 (v128_of_octets (slice 16 16 key)) 15 0) 14 0) i =
        v8 (set_v8 (set_v8 (v128_of_octets (slice 16 16 key')) 15 0) 14 0) i"
      using assms(2,3) n [of "16 + i"] by (auto simp: v8_set_v8 v8_of_octets length_slice slice_def)
  qed
  ultimately show ?thesis by (simp add: icm_key_def)
qed

subsection \<open>Properties\<close>

text \<open>
  Counter mode round trip. Two contexts initialised from the same key material and set to the
  same vector (last two octets zero) undo each other: what the first encrypts in place the second
  restores, for every run of at most 65535 octets, and octets behind the run are untouched.
\<close>

theorem aes_icm_roundtrip:
  assumes "32 \<le> length key" and "block_index iv = 0" and "unat n \<le> length buf" and "unat n \<le> 0xffff"
  shows "\<exists>s r s' r' out. aes_icm_context_init c1 key = Some (err_status_ok, s) \<and>
    aes_icm_context_init c2 key = Some (err_status_ok, r) \<and>
    aes_icm_encrypt (snd (aes_icm_set_iv s iv)) buf n = Some (err_status_ok, s', out) \<and>
    drop (unat n) out = drop (unat n) buf \<and>
    aes_icm_encrypt (snd (aes_icm_set_iv r iv)) out n = Some (err_status_ok, r', buf)"
proof -
  obtain s r where k: "aes_icm_context_init c1 key = Some (err_status_ok, s)" "icm_keyed s (icm_key key)"
    "aes_icm_context_init c2 key = Some (err_status_ok, r)" "icm_keyed r (icm_key key)"
    using aes_icm_context_init_keyed [OF assms(1)] by metis
  from icm.crypt_fresh [OF k(2) assms(2-4)] icm.decrypt_encrypt [OF k(2,4) assms(2-4)] k
  show ?thesis using assms(3) by fastforce
qed

theorem aes_icm_roundtrip_witness:
  "\<exists>s r s' r' out. aes_icm_context_init \<lparr>icm_counter = V128 0 0 0 0, icm_offset = V128 0 0 0 0, keystream_buffer = V128 0 0 0 0,
       icm_expanded_key = [], bytes_in_buffer = 0\<rparr> (replicate 32 7) = Some (err_status_ok, s) \<and>
    aes_icm_context_init \<lparr>icm_counter = V128 0 0 0 0, icm_offset = V128 0 0 0 0, keystream_buffer = V128 0 0 0 0,
       icm_expanded_key = [], bytes_in_buffer = 3\<rparr> (replicate 32 7) = Some (err_status_ok, r) \<and>
    aes_icm_encrypt (snd (aes_icm_set_iv s (V128 1 2 3 0))) [1, 2, 3, 4] 3 = Some (err_status_ok, s', out) \<and>
    drop 3 out = [4] \<and>
    aes_icm_encrypt (snd (aes_icm_set_iv r (V128 1 2 3 0))) out 3 = Some (err_status_ok, r', [1, 2, 3, 4])"
proof -
  have "uint (block_index (V128 1 2 3 0)) = 0"
    by (simp add: uint_block_index v8_def v128_octets_def le32_bytes_def)
  then have "block_index (V128 1 2 3 0) = 0" by (simp only: uint_0_iff)
  from aes_icm_roundtrip [OF _ this, of "replicate 32 7" 3 "[1, 2, 3, 4]"] show ?thesis by simp
qed

text \<open>
  One keystream per vector. After the vector is set, data may be encrypted in two calls split
  at any point: together they xor the octets of the keystream that key and vector determine.
\<close>

theorem aes_icm_streaming:
  assumes "icm_keyed c k" and "block_index iv = 0" and "unat m = length a" and "unat n = length b"
    and "length a + length b \<le> 0xffff"
  shows "\<exists>c' c'' a' b'. aes_icm_encrypt (snd (aes_icm_set_iv c iv)) a m = Some (err_status_ok, c', a') \<and>
    aes_icm_encrypt c' b n = Some (err_status_ok, c'', b') \<and>
    a' @ b' = xor_octets (a @ b) (map (icm_ks k iv) [0..<length a + length b])"
  using icm.crypt_split [OF conjunct2 [OF icm.set_iv_at [OF assms(1,2)]] assms(3,4)] assms(3-5) by fastforce

theorem aes_icm_streaming_witness:
  "\<exists>c' c'' a' b'. aes_icm_encrypt (snd (aes_icm_set_iv \<lparr>icm_counter = V128 0 0 0 0, icm_offset = V128 0 0 0 0,
       keystream_buffer = V128 0 0 0 0, icm_expanded_key = replicate 11 (V128 0 0 0 0), bytes_in_buffer = 0\<rparr> (V128 0 0 0 0))) [1, 2, 3] 3 =
     Some (err_status_ok, c', a') \<and> aes_icm_encrypt c' [4, 5] 2 = Some (err_status_ok, c'', b') \<and>
   a' @ b' = xor_octets [1, 2, 3, 4, 5] (map (icm_ks (replicate 11 (V128 0 0 0 0), V128 0 0 0 0) (V128 0 0 0 0)) [0..<length [1, 2, 3 :: u8] + length [4, 5 :: u8]])"
proof -
  have "uint (block_index (V128 0 0 0 0)) = 0"
    by (simp add: uint_block_index v8_def v128_octets_def le32_bytes_def)
  then have "block_index (V128 0 0 0 0) = 0" by (simp only: uint_0_iff)
  from aes_icm_streaming [of "\<lparr>icm_counter = V128 0 0 0 0, icm_offset = V128 0 0 0 0,
       keystream_buffer = V128 0 0 0 0, icm_expanded_key = replicate 11 (V128 0 0 0 0), bytes_in_buffer = 0\<rparr>"
      "(replicate 11 (V128 0 0 0 0), V128 0 0 0 0)", OF _ this, of 3 "[1, 2, 3]" 2 "[4, 5]"] this
  show ?thesis by (simp add: icm_keyed_def)
qed

end
