(* ===== verification/Aes_Cbc.thy ===== *)
theory Aes_Cbc
  imports Aes
begin

text \<open>
  AES cipher block chaining, \<^verbatim>\<open>crypto/cipher/aes_cbc.c\<close>, with its padding mode. Lengths are 32-bit
  words; a length of \<open>2 ^ 31\<close> or more is negative in the loop's signed counter. The lemmas show that
  decryption undoes encryption and that the padding is removed again. \<open>None\<close> is an access outside of
  the data.
\<close>

record aes_cbc_ctx_t =
  cbc_state :: v128_t
  cbc_previous :: v128_t
  cbc_expanded_key :: aes_expanded_key_t

datatype cipher_direction_t = direction_encrypt | direction_decrypt | direction_any

definition aes_cbc_context_init ::
  "aes_cbc_ctx_t \<Rightarrow> octets \<Rightarrow> cipher_direction_t \<Rightarrow> (err_status_t \<times> aes_cbc_ctx_t) option" where
  "aes_cbc_context_init c key dir =
     (if length key < 16 then None
      else
        (let tmp_key = v128_copy_octet_string (take 16 key) in
         case dir of
           direction_encrypt \<Rightarrow> Some (err_status_ok, c\<lparr>cbc_expanded_key := aes_expand_encryption_key tmp_key\<rparr>)
         | direction_decrypt \<Rightarrow> Some (err_status_ok, c\<lparr>cbc_expanded_key := aes_expand_decryption_key tmp_key\<rparr>)
         | direction_any \<Rightarrow> Some (err_status_bad_param, c)))"

definition aes_cbc_set_iv :: "aes_cbc_ctx_t \<Rightarrow> v128_t \<Rightarrow> err_status_t \<times> aes_cbc_ctx_t" where
  "aes_cbc_set_iv c iv = (err_status_ok, c\<lparr>cbc_previous := iv, cbc_state := iv\<rparr>)"

text \<open>The number of rounds of the loops: the length is read as a signed integer.\<close>

definition cbc_rounds :: "u32 \<Rightarrow> nat" where
  "cbc_rounds n = nat (sint n) div 16"

fun cbc_encrypt_loop :: "nat \<Rightarrow> v128_t \<Rightarrow> aes_expanded_key_t \<Rightarrow> octets \<Rightarrow> v128_t \<times> octets" where
  "cbc_encrypt_loop 0 state ks data = (state, data)"
| "cbc_encrypt_loop (Suc n) state ks data =
     (let state = aes_encrypt (v128_xor state (v128_of_octets (take 16 data))) ks;
          (state', rest) = cbc_encrypt_loop n state ks (drop 16 data)
      in (state', v128_octets state @ rest))"

definition aes_cbc_encrypt ::
  "aes_cbc_ctx_t \<Rightarrow> octets \<Rightarrow> u32 \<Rightarrow> (err_status_t \<times> aes_cbc_ctx_t \<times> octets) option" where
  "aes_cbc_encrypt c data bytes_in_data =
     (if bytes_in_data AND 0xf \<noteq> 0 then Some (err_status_bad_param, c, data)
      else if length data < 16 * cbc_rounds bytes_in_data then None
      else
        (let (state, out) = cbc_encrypt_loop (cbc_rounds bytes_in_data) (cbc_state c) (cbc_expanded_key c) data
         in Some (err_status_ok, c\<lparr>cbc_state := state\<rparr>, out)))"

fun cbc_decrypt_loop :: "nat \<Rightarrow> v128_t \<Rightarrow> aes_expanded_key_t \<Rightarrow> octets \<Rightarrow> octets" where
  "cbc_decrypt_loop 0 previous ks data = data"
| "cbc_decrypt_loop (Suc n) previous ks data =
     (let block = v128_of_octets (take 16 data);
          state = aes_decrypt block ks
      in v128_octets (v128_xor state previous) @ cbc_decrypt_loop n block ks (drop 16 data))"

definition aes_cbc_decrypt ::
  "aes_cbc_ctx_t \<Rightarrow> octets \<Rightarrow> u32 \<Rightarrow> (err_status_t \<times> aes_cbc_ctx_t \<times> octets) option" where
  "aes_cbc_decrypt c data bytes_in_data =
     (if bytes_in_data AND 0x0f \<noteq> 0 then Some (err_status_bad_param, c, data)
      else if length data < 16 * cbc_rounds bytes_in_data then None
      else Some (err_status_ok, c, cbc_decrypt_loop (cbc_rounds bytes_in_data) (cbc_previous c) (cbc_expanded_key c) data))"

text \<open>
  The padding mode: \<open>0xa0\<close> and zeros up to the block boundary. The loop writes one octet more than
  the padding, so the data needs room for it. The new length is the last result.
\<close>

definition aes_cbc_nist_encrypt ::
  "aes_cbc_ctx_t \<Rightarrow> octets \<Rightarrow> u32 \<Rightarrow> (err_status_t \<times> aes_cbc_ctx_t \<times> octets \<times> u32) option" where
  "aes_cbc_nist_encrypt c data bytes_in_data =
     (let num_pad_bytes = 16 - unat (bytes_in_data AND 0xf) in
      if length data < unat bytes_in_data + 1 + num_pad_bytes then None
      else
        (let data = write_at (unat bytes_in_data) (0xa0 # replicate num_pad_bytes 0) data;
             bytes_in_data = bytes_in_data + of_nat num_pad_bytes
         in case aes_cbc_encrypt c data bytes_in_data of
              None \<Rightarrow> None
            | Some (status, c, data) \<Rightarrow> Some (status, c, data, bytes_in_data)))"

text \<open>The backward search for the padding marker; \<open>None\<close> when it runs off the front of the data.\<close>

fun find_pad :: "octets \<Rightarrow> nat \<Rightarrow> nat \<Rightarrow> nat option" where
  "find_pad data 0 num_pad_bytes = None"
| "find_pad data (Suc i) num_pad_bytes =
     (if length data \<le> i then None
      else if data ! i = 0xa0 then Some num_pad_bytes else find_pad data i (num_pad_bytes + 1))"

definition aes_cbc_nist_decrypt ::
  "aes_cbc_ctx_t \<Rightarrow> octets \<Rightarrow> u32 \<Rightarrow> (err_status_t \<times> aes_cbc_ctx_t \<times> octets \<times> u32) option" where
  "aes_cbc_nist_decrypt c data bytes_in_data =
     (case aes_cbc_decrypt c data bytes_in_data of
        None \<Rightarrow> None
      | Some (status, c, data) \<Rightarrow>
          (if status \<noteq> err_status_ok then Some (status, c, data, bytes_in_data)
           else
             (case find_pad data (unat bytes_in_data) 1 of
                None \<Rightarrow> None
              | Some num_pad_bytes \<Rightarrow> Some (err_status_ok, c, data, bytes_in_data - of_nat num_pad_bytes))))"

subsection \<open>Decryption undoes encryption\<close>

lemma length_cbc_encrypt_loop:
  "16 * n \<le> length data \<Longrightarrow> length (snd (cbc_encrypt_loop n s ks data)) = length data"
proof (induction n arbitrary: s data)
  case (Suc n)
  then have "16 * n \<le> length (drop 16 data)" by simp
  from Suc.IH [OF this] Suc.prems show ?case by (simp add: Let_def case_prod_unfold)
qed simp

lemma cbc_decrypt_encrypt_loop:
  assumes "16 * n \<le> length data"
  shows "cbc_decrypt_loop n iv (aes_expand_decryption_key key)
    (snd (cbc_encrypt_loop n iv (aes_expand_encryption_key key) data)) = data"
  using assms
proof (induction n arbitrary: iv data)
  case (Suc n)
  let ?s = "aes_encrypt (v128_xor iv (v128_of_octets (take 16 data))) (aes_expand_encryption_key key)"
  let ?rest = "snd (cbc_encrypt_loop n ?s (aes_expand_encryption_key key) (drop 16 data))"
  have out: "snd (cbc_encrypt_loop (Suc n) iv (aes_expand_encryption_key key) data) = v128_octets ?s @ ?rest"
    by (simp add: Let_def split: prod.split)
  have "cbc_decrypt_loop n ?s (aes_expand_decryption_key key) ?rest = drop 16 data"
    using Suc.prems by (intro Suc.IH) simp
  moreover have "v128_xor (aes_decrypt ?s (aes_expand_decryption_key key)) iv = v128_of_octets (take 16 data)"
    by (simp add: aes_decrypt_encrypt v128_xor_commute)
  ultimately show ?case using Suc.prems unfolding out by (simp add: Let_def)
qed simp

lemma unat_and_15: "unat (n AND 0xf :: u32) = unat n mod 16"
proof -
  have "(0xf :: u32) = mask 4" by (simp add: mask_eq_exp_minus_1)
  then have "n AND 0xf = take_bit 4 n" by (simp only: take_bit_eq_mask)
  then show ?thesis by (simp only: unsigned_take_bit_eq) (simp add: take_bit_eq_mod)
qed

lemma and_15_eq_0: "(n AND 0xf :: u32) = 0 \<longleftrightarrow> 16 dvd unat n"
  by (metis dvd_eq_mod_eq_0 unat_and_15 unat_eq_zero)

lemma cbc_rounds_dvd:
  assumes "16 dvd unat n" and "unat n < 2 ^ 31"
  shows "16 * cbc_rounds n = unat n"
proof -
  have "int (unat n) < int (2 ^ 31)" using assms(2) by (simp only: of_nat_less_iff)
  then have "uint n < 2 ^ 31" by simp
  moreover have "- (2 ^ 31) \<le> uint n" by (rule order_trans [of _ 0]) simp_all
  ultimately have "sint n = uint n" using signed_take_bit_int_eq_self [of 31 "uint n"] by (simp add: sint_uint)
  with assms(1) show ?thesis by (simp add: cbc_rounds_def)
qed

text \<open>The marker is found behind the message, where only zeros follow it.\<close>

lemma find_pad_zeros:
  assumes "m \<le> i" "i < length data" "data ! m = 0xa0" "\<And>j. m < j \<Longrightarrow> j \<le> i \<Longrightarrow> data ! j = 0"
  shows "find_pad data (Suc i) k = Some (k + (i - m))"
  using assms
proof (induction "i - m" arbitrary: i k)
  case (Suc d)
  then obtain i' where i: "i = Suc i'" "m \<le> i'" by (cases i) auto
  have "find_pad data (Suc i') (k + 1) = Some (k + 1 + (i' - m))"
    using Suc.hyps(2) Suc.prems i by (intro Suc.hyps(1)) auto
  moreover have "data ! i = 0" using Suc.prems i by simp
  ultimately show ?case using Suc.prems i by (simp add: Suc_diff_le)
qed simp

lemma aes_cbc_encrypt_ok:
  assumes "16 dvd unat n" "unat n < 2 ^ 31" "unat n \<le> length data"
  shows "aes_cbc_encrypt c data n = Some (err_status_ok,
    c\<lparr>cbc_state := fst (cbc_encrypt_loop (unat n div 16) (cbc_state c) (cbc_expanded_key c) data)\<rparr>,
    snd (cbc_encrypt_loop (unat n div 16) (cbc_state c) (cbc_expanded_key c) data))"
proof -
  have "cbc_rounds n = unat n div 16" using cbc_rounds_dvd [OF assms(1,2)] by simp
  then show ?thesis using assms by (simp add: aes_cbc_encrypt_def and_15_eq_0 case_prod_unfold Let_def)
qed

lemma aes_cbc_decrypt_ok:
  assumes "16 dvd unat n" "unat n < 2 ^ 31" "unat n \<le> length data"
  shows "aes_cbc_decrypt c data n = Some (err_status_ok, c,
    cbc_decrypt_loop (unat n div 16) (cbc_previous c) (cbc_expanded_key c) data)"
proof -
  have "cbc_rounds n = unat n div 16" using cbc_rounds_dvd [OF assms(1,2)] by simp
  then show ?thesis using assms by (simp add: aes_cbc_decrypt_def and_15_eq_0)
qed

lemma aes_cbc_decrypt_encrypt:
  assumes "16 dvd unat n" "unat n < 2 ^ 31" "unat n \<le> length data"
    and "cbc_expanded_key e = aes_expand_encryption_key key" "cbc_expanded_key d = aes_expand_decryption_key key"
    and "cbc_state e = cbc_previous d"
  shows "\<exists>e' out. aes_cbc_encrypt e data n = Some (err_status_ok, e', out) \<and> length out = length data \<and>
    aes_cbc_decrypt d out n = Some (err_status_ok, d, data)"
  using assms aes_cbc_encrypt_ok [OF assms(1-3), of e] aes_cbc_decrypt_ok [OF assms(1,2)]
    length_cbc_encrypt_loop [of "unat n div 16" data] cbc_decrypt_encrypt_loop [of "unat n div 16" data]
  by simp

text \<open>The padding is added, encrypted, decrypted and removed.\<close>

lemma aes_cbc_nist_inverse:
  assumes "16 \<le> length key" and "unat n < 2 ^ 30" and "unat n + 17 \<le> length data"
  shows "\<exists>e d e' c len data'. aes_cbc_context_init c1 key direction_encrypt = Some (err_status_ok, e) \<and>
    aes_cbc_context_init c2 key direction_decrypt = Some (err_status_ok, d) \<and>
    aes_cbc_nist_encrypt (snd (aes_cbc_set_iv e iv)) data n = Some (err_status_ok, e', c, len) \<and>
    unat len = 16 * (unat n div 16 + 1) \<and>
    aes_cbc_nist_decrypt (snd (aes_cbc_set_iv d iv)) c len =
      Some (err_status_ok, snd (aes_cbc_set_iv d iv), data', n) \<and>
    take (unat n) data' = take (unat n) data \<and> length data' = length data"
proof -
  define p where "p = 16 - unat n mod 16"
  let ?len = "n + of_nat p" and ?data = "write_at (unat n) (0xa0 # replicate p 0) data"
  obtain q r where qr: "unat n div 16 = q" "unat n mod 16 = r" "r < 16" "unat n = 16 * q + r"
    by (metis mod_less_divisor mult_div_mod_eq zero_less_numeral)
  then have p: "0 < p" "p \<le> 16" "unat n + p = 16 * (unat n div 16 + 1)" by (simp_all add: p_def)
  have "unat n + unat (of_nat p :: u32) < 2 ^ 32" using assms(2) p by (simp add: unat_of_nat)
  then have len: "unat ?len = unat n + p"
    using p unat_add_lem [of n "of_nat p"] by (simp add: unat_of_nat)
  have dvd: "16 dvd unat ?len" "unat ?len < 2 ^ 31" "unat ?len \<le> length ?data" "length ?data = length data"
    using p assms(2,3) by (simp_all add: len write_at_def)
  have key: "unat n + 1 + p \<le> length data" "16 - unat (n AND 0xf) = p" using assms(3) p by (simp_all add: unat_and_15 p_def)
  let ?tk = "v128_copy_octet_string (take 16 key)"
  let ?e = "c1\<lparr>cbc_expanded_key := aes_expand_encryption_key ?tk\<rparr>"
  let ?d = "c2\<lparr>cbc_expanded_key := aes_expand_decryption_key ?tk\<rparr>"
  obtain e' c where crypt: "aes_cbc_encrypt (snd (aes_cbc_set_iv ?e iv)) ?data ?len = Some (err_status_ok, e', c)"
      "aes_cbc_decrypt (snd (aes_cbc_set_iv ?d iv)) c ?len = Some (err_status_ok, snd (aes_cbc_set_iv ?d iv), ?data)"
    using aes_cbc_decrypt_encrypt [OF dvd(1-3), of "snd (aes_cbc_set_iv ?e iv)" ?tk "snd (aes_cbc_set_iv ?d iv)"]
    by (auto simp: aes_cbc_set_iv_def)
  have "find_pad ?data (Suc (unat n + (p - 1))) 1 = Some (1 + (unat n + (p - 1) - unat n))"
    using assms(3) p by (intro find_pad_zeros) (auto simp: write_at_def nth_append nth_Cons')
  then have pad: "find_pad ?data (unat n + p) 1 = Some p" using p by simp
  show ?thesis
    using assms(1) crypt key pad p(3) dvd(4) assms(3)
    by (auto simp: aes_cbc_context_init_def aes_cbc_nist_encrypt_def aes_cbc_nist_decrypt_def Let_def len write_at_def)
qed

subsection \<open>Properties\<close>

text \<open>
  CBC round trip with padding. With contexts set up for encryption and decryption from one key
  and one vector, the padding mode encrypts a message of any length below \<open>2 ^ 30\<close>, and decryption
  restores the message and its length; the buffer needs room for the padding and one octet more.
\<close>

theorem aes_cbc_nist_roundtrip:
  assumes "16 \<le> length key" and "unat n < 2 ^ 30" and "unat n + 17 \<le> length data"
  shows "\<exists>e d e' c len data'. aes_cbc_context_init c1 key direction_encrypt = Some (err_status_ok, e) \<and>
    aes_cbc_context_init c2 key direction_decrypt = Some (err_status_ok, d) \<and>
    aes_cbc_nist_encrypt (snd (aes_cbc_set_iv e iv)) data n = Some (err_status_ok, e', c, len) \<and>
    unat len = 16 * (unat n div 16 + 1) \<and>
    aes_cbc_nist_decrypt (snd (aes_cbc_set_iv d iv)) c len =
      Some (err_status_ok, snd (aes_cbc_set_iv d iv), data', n) \<and>
    take (unat n) data' = take (unat n) data"
  using aes_cbc_nist_inverse [OF assms, of c1 c2 iv] by blast

theorem aes_cbc_nist_roundtrip_witness:
  "\<exists>e d e' c len data'. aes_cbc_context_init \<lparr>cbc_state = V128 0 0 0 0, cbc_previous = V128 0 0 0 0, cbc_expanded_key = []\<rparr> (replicate 16 9) direction_encrypt = Some (err_status_ok, e) \<and>
    aes_cbc_context_init \<lparr>cbc_state = V128 0 0 0 0, cbc_previous = V128 0 0 0 0, cbc_expanded_key = []\<rparr> (replicate 16 9) direction_decrypt = Some (err_status_ok, d) \<and>
    aes_cbc_nist_encrypt (snd (aes_cbc_set_iv e (V128 1 2 3 4))) ([1, 2, 3] @ replicate 17 0) 3 = Some (err_status_ok, e', c, len) \<and>
    unat len = 16 \<and>
    aes_cbc_nist_decrypt (snd (aes_cbc_set_iv d (V128 1 2 3 4))) c len =
      Some (err_status_ok, snd (aes_cbc_set_iv d (V128 1 2 3 4)), data', 3) \<and>
    take 3 data' = [1, 2, 3]"
  using aes_cbc_nist_roundtrip [of "replicate 16 9" 3 "[1, 2, 3] @ replicate 17 0"
      "\<lparr>cbc_state = V128 0 0 0 0, cbc_previous = V128 0 0 0 0, cbc_expanded_key = []\<rparr>"
      "\<lparr>cbc_state = V128 0 0 0 0, cbc_previous = V128 0 0 0 0, cbc_expanded_key = []\<rparr>" "V128 1 2 3 4"] by simp

end
