(* ===== verification/Replay.thy ===== *)
theory Replay
  imports Datatypes
begin

text \<open>
  The contract of a replay database, stated once for the SRTCP database of
  \<^verbatim>\<open>crypto/replay/rdb.c\<close> and the extended database of \<^verbatim>\<open>crypto/replay/rdbx.c\<close>, which interpret
  the locale below with their own operations. A receiver checks an index and, when the check
  succeeds and the packet is authentic, adds it; \<open>replay_steps\<close> are the states such a receiver
  goes through.
\<close>

inductive replay_steps ::
  "('s \<Rightarrow> 'i \<Rightarrow> bool) \<Rightarrow> ('s \<Rightarrow> 'i \<Rightarrow> err_status_t) \<Rightarrow> ('s \<Rightarrow> 'i \<Rightarrow> 's option) \<Rightarrow> 's \<Rightarrow> 's \<Rightarrow> bool"
  for valid check add where
  start: "replay_steps valid check add s s"
| accept: "replay_steps valid check add s t \<Longrightarrow> valid t i \<Longrightarrow> check t i = err_status_ok \<Longrightarrow>
     add t i = Some u \<Longrightarrow> replay_steps valid check add s u"

text \<open>
  \<open>invar s A\<close>: the state \<open>s\<close> knows that every index of \<open>A\<close> has been received. \<open>valid s i\<close>: the
  index \<open>i\<close> can be presented in state \<open>s\<close>. \<open>tracks s i\<close>: accepting \<open>i\<close> in \<open>s\<close> records it.
  \<open>judges s i\<close>: the state \<open>s\<close> is one in which the check recognises the index \<open>i\<close>.
\<close>

locale replay_db =
  fixes init :: "'s"
    and invar :: "'s \<Rightarrow> 'i set \<Rightarrow> bool"
    and valid :: "'s \<Rightarrow> 'i \<Rightarrow> bool"
    and tracks :: "'s \<Rightarrow> 'i \<Rightarrow> bool"
    and judges :: "'s \<Rightarrow> 'i \<Rightarrow> bool"
    and check :: "'s \<Rightarrow> 'i \<Rightarrow> err_status_t"
    and add :: "'s \<Rightarrow> 'i \<Rightarrow> 's option"
  assumes init_invar: "invar init {}"
    and add_safe: "invar s A \<Longrightarrow> valid s i \<Longrightarrow> check s i = err_status_ok \<Longrightarrow> \<exists>t. add s i = Some t"
    and add_keeps: "invar s A \<Longrightarrow> valid s i \<Longrightarrow> check s i = err_status_ok \<Longrightarrow> add s i = Some t \<Longrightarrow> invar t A"
    and add_records: "invar s A \<Longrightarrow> valid s i \<Longrightarrow> check s i = err_status_ok \<Longrightarrow> tracks s i \<Longrightarrow>
      add s i = Some t \<Longrightarrow> invar t (insert i A)"
    and received_rejected: "invar s A \<Longrightarrow> i \<in> A \<Longrightarrow> judges s i \<Longrightarrow> check s i \<noteq> err_status_ok"
begin

lemma steps_keep: "replay_steps valid check add s t \<Longrightarrow> invar s A \<Longrightarrow> invar t A"
  by (induction rule: replay_steps.induct) (blast intro: add_keeps)+

lemma reachable_invar: "replay_steps valid check add init s \<Longrightarrow> invar s {}"
  using init_invar steps_keep by blast

lemma later_invar:
  assumes "replay_steps valid check add init s" and "valid s i" and "check s i = err_status_ok"
    and "tracks s i" and "add s i = Some t" and "replay_steps valid check add t u"
  shows "invar u {i}"
proof -
  have "invar t (insert i {})"
    using reachable_invar [OF assms(1)] assms(2-5) by (rule add_records)
  with assms(6) show ?thesis by (rule steps_keep)
qed

lemma never_again:
  assumes "replay_steps valid check add init s" and "valid s i" and "check s i = err_status_ok"
    and "tracks s i" and "add s i = Some t" and "replay_steps valid check add t u" and "judges u i"
  shows "check u i \<noteq> err_status_ok"
  using received_rejected [OF later_invar [OF assms(1-6)] _ assms(7)] by simp

lemma accept_progress:
  "replay_steps valid check add init s \<Longrightarrow> valid s i \<Longrightarrow> check s i = err_status_ok \<Longrightarrow> \<exists>t. add s i = Some t"
  using reachable_invar add_safe by blast

end

end
