(* ===== verification/Rdbx.thy ===== *)
theory Rdbx
  imports Replay
begin

text \<open>
  The replay database with extended range, \<^verbatim>\<open>crypto/replay/rdbx.c\<close>: a 48-bit packet index
  (rollover counter and sequence number, kept in a 64-bit word) and a mask of the 128 indices up
  to it. The build has 64-bit arithmetic (\<^verbatim>\<open>HAVE_UINT64_T\<close>), so the \<^verbatim>\<open>NO_64BIT_MATH\<close> branches
  are compiled out. The lemmas show that the index guess is the closest index with the given
  sequence number, how the difference relates to it, that packets ahead are always accepted, that they
  are refused from then on until the next rollover and accepted again behind it, and what happens to
  late packets.
\<close>

type_synonym sequence_number_t = u16
type_synonym xtd_seq_num_t = u64

record rdbx_t =
  rdbx_index :: xtd_seq_num_t
  rdbx_bitmask :: v128_t

abbreviation (input) seq_num_median :: int where "seq_num_median \<equiv> 32768"
abbreviation (input) seq_num_max :: int where "seq_num_max \<equiv> 65536"
abbreviation (input) rdbx_high_bit_in_bitmask :: int where "rdbx_high_bit_in_bitmask \<equiv> 127"

definition index_init :: xtd_seq_num_t where
  "index_init = 0"

definition index_advance :: "xtd_seq_num_t \<Rightarrow> sequence_number_t \<Rightarrow> xtd_seq_num_t" where
  "index_advance pi s = pi + ucast s"

definition index_guess :: "xtd_seq_num_t \<Rightarrow> sequence_number_t \<Rightarrow> xtd_seq_num_t \<times> int" where
  "index_guess local s =
     (let local_roc = (ucast (drop_bit 16 local) :: u32);
          local_seq = uint (ucast local :: u16);
          (guess_roc, difference) =
            (if local_seq < seq_num_median then
               (if uint s - local_seq > seq_num_median then
                  (local_roc - 1, seq_num_max - uint s + local_seq)
                else (local_roc, uint s - local_seq))
             else
               (if local_seq - seq_num_median > uint s then
                  (local_roc + 1, seq_num_max - local_seq + uint s)
                else (local_roc, uint s - local_seq)))
      in (push_bit 16 (ucast guess_roc) OR ucast s, difference))"

definition rdbx_init :: rdbx_t where
  "rdbx_init = \<lparr>rdbx_index = index_init, rdbx_bitmask = V128 0 0 0 0\<rparr>"

definition rdbx_check :: "rdbx_t \<Rightarrow> int \<Rightarrow> err_status_t" where
  "rdbx_check rdbx delta =
     (if delta > 0 then err_status_ok
      else if rdbx_high_bit_in_bitmask + delta < 0 then err_status_replay_old
      else if v128_get_bit (rdbx_bitmask rdbx) (nat (rdbx_high_bit_in_bitmask + delta)) = 1
      then err_status_replay_fail
      else err_status_ok)"

text \<open>\<open>None\<close>: the bit index leaves the 128-bit mask, a store outside of it.\<close>

definition rdbx_add_index :: "rdbx_t \<Rightarrow> int \<Rightarrow> rdbx_t option" where
  "rdbx_add_index rdbx delta =
     (if delta > 0 then
        Some (rdbx\<lparr>
          rdbx_index := index_advance (rdbx_index rdbx) (word_of_int delta),
          rdbx_bitmask := v128_set_bit (v128_left_shift (rdbx_bitmask rdbx) (nat delta)) 127\<rparr>)
      else if - delta > 127 then None
      else Some (rdbx\<lparr>rdbx_bitmask := v128_set_bit (rdbx_bitmask rdbx) (nat (- delta))\<rparr>))"

definition rdbx_estimate_index :: "rdbx_t \<Rightarrow> sequence_number_t \<Rightarrow> xtd_seq_num_t \<times> int" where
  "rdbx_estimate_index rdbx s =
     (if uint (rdbx_index rdbx) > seq_num_median then index_guess (rdbx_index rdbx) s
      else (ucast s, uint s - uint (ucast (rdbx_index rdbx) :: u16)))"

subsection \<open>The guessed index\<close>

text \<open>An index is \<open>65536\<close> times its rollover counter plus its sequence number.\<close>

lemma uint_roc_seq:
  "uint (push_bit 16 (ucast (roc :: u32)) OR ucast (s :: u16) :: u64) = 65536 * uint roc + uint s"
proof -
  have "push_bit 16 (ucast roc) AND (ucast s :: u64) = 0"
    by (rule bit_word_eqI) (auto simp: bit_simps dest: bit_imp_le_length)
  then have "push_bit 16 (ucast roc) OR (ucast s :: u64) = push_bit 16 (ucast roc) + ucast s"
    by (simp add: disjunctive_add_eq_or)
  moreover have "uint (push_bit 16 (ucast roc) :: u64) = 65536 * uint roc"
    using uint_bounded [of roc] by (simp add: push_bit_eq_mult uint_word_ariths uint_up_ucast is_up)
  moreover have "uint (ucast s :: u64) = uint s" by (simp add: uint_up_ucast is_up)
  ultimately show ?thesis
    using uint_bounded [of roc] uint_bounded [of s] by (simp add: uint_word_ariths)
qed

lemma ucast_roc_seq: "(ucast (push_bit 16 (ucast (roc :: u32)) OR ucast (s :: u16) :: u64) :: u16) = s"
  by (rule bit_word_eqI) (auto simp: bit_simps dest: bit_imp_le_length)

lemma local_parts:
  fixes l :: u64
  assumes "uint l < 2 ^ 48"
  shows "uint (ucast (drop_bit 16 l) :: u32) = uint l div 65536" and "uint (ucast l :: u16) = uint l mod 65536"
proof -
  have "uint l div 65536 < 2 ^ 32" using assms by simp
  moreover have "0 \<le> uint l div 65536" by (simp add: pos_imp_zdiv_nonneg_iff)
  ultimately show "uint (ucast (drop_bit 16 l) :: u32) = uint l div 65536"
    by (simp add: unsigned_ucast_eq unsigned_drop_bit_eq drop_bit_eq_div take_bit_eq_mod uint_div)
  show "uint (ucast l :: u16) = uint l mod 65536"
    by (simp add: unsigned_ucast_eq take_bit_eq_mod)
qed

text \<open>
  The guess and the difference in terms of the local index \<open>l\<close>, when the rollover counter neither
  drops below zero nor overflows.
\<close>

lemma index_guess_cases:
  fixes l :: u64 and s :: u16
  assumes "65536 \<le> uint l" and "uint l < 2 ^ 48 - 65536"
  defines "seq \<equiv> uint l mod 65536"
  defines "G \<equiv> uint (fst (index_guess l s))" and "d \<equiv> snd (index_guess l s)"
  shows "seq < 32768 \<and> uint s - seq > 32768 \<and> G = uint l - seq - 65536 + uint s \<and> d = uint l - G \<or>
    seq < 32768 \<and> uint s - seq \<le> 32768 \<and> G = uint l - seq + uint s \<and> d = G - uint l \<or>
    seq \<ge> 32768 \<and> seq - 32768 > uint s \<and> G = uint l - seq + 65536 + uint s \<and> d = G - uint l \<or>
    seq \<ge> 32768 \<and> seq - 32768 \<le> uint s \<and> G = uint l - seq + uint s \<and> d = G - uint l"
proof -
  let ?roc = "ucast (drop_bit 16 l) :: u32"
  have seq: "uint (ucast l :: u16) = seq" and roc: "65536 * uint ?roc = uint l - seq"
    using local_parts [of l] assms(2) by (simp_all add: seq_def minus_mod_eq_mult_div)
  have b: "1 \<le> uint ?roc" "uint ?roc < 2 ^ 32 - 1"
    using roc assms(1,2) pos_mod_bound [of 65536 "uint l"] pos_mod_sign [of 65536 "uint l"]
    unfolding seq_def by simp_all
  have up: "uint (?roc + 1) = uint ?roc + 1" using b by (simp add: uint_word_ariths)
  have down: "uint (?roc - 1) = uint ?roc - 1" using b by (simp add: uint_word_ariths)
  have G: "uint (push_bit 16 (ucast r) OR ucast s :: u64) = 65536 * uint r + uint s" for r :: u32
    by (rule uint_roc_seq)
  consider "seq < 32768" "uint s - seq > 32768" | "seq < 32768" "uint s - seq \<le> 32768"
    | "seq \<ge> 32768" "seq - 32768 > uint s" | "seq \<ge> 32768" "seq - 32768 \<le> uint s"
    by linarith
  then show ?thesis
    using G up down roc
    by cases (simp_all add: G_def d_def index_guess_def Let_def seq)
qed

lemma guess_arith:
  fixes s m q G d :: int
  assumes "0 \<le> s" "s < 65536" "0 \<le> m" "m < 65536" and l: "l = q * 65536 + m"
    and "m < 32768 \<and> s - m > 32768 \<and> G = l - m - 65536 + s \<and> d = l - G \<or>
      m < 32768 \<and> s - m \<le> 32768 \<and> G = l - m + s \<and> d = G - l \<or>
      m \<ge> 32768 \<and> m - 32768 > s \<and> G = l - m + 65536 + s \<and> d = G - l \<or>
      m \<ge> 32768 \<and> m - 32768 \<le> s \<and> G = l - m + s \<and> d = G - l"
  shows "G mod 65536 = s \<and> \<bar>G - l\<bar> \<le> 32768 \<and> d = (if G div 65536 < q then l - G else G - l)"
proof -
  have div: "(k * 65536 + s) div 65536 = k \<and> (k * 65536 + s) mod 65536 = s" for k
    using assms(1,2) by simp
  consider "G = (q - 1) * 65536 + s" "d = l - G" "m < 32768" "s - m > 32768"
    | "G = q * 65536 + s" "d = G - l" "\<bar>s - m\<bar> \<le> 32768"
    | "G = (q + 1) * 65536 + s" "d = G - l" "m - 32768 > s"
    using assms by (elim disjE conjE) (auto simp: algebra_simps)
  then show ?thesis
    using div [of "q - 1"] div [of q] div [of "q + 1"] assms(1-5) by cases simp_all
qed

text \<open>An index ahead of the current one by less than half the sequence number space is estimated exactly.\<close>

lemma rdbx_estimate_forward:
  assumes "uint (rdbx_index r) < uint i" and "uint i - uint (rdbx_index r) \<le> 32767" and "uint i < 2 ^ 48"
  shows "rdbx_estimate_index r (ucast i) = (i, uint i - uint (rdbx_index r))"
proof -
  let ?l = "rdbx_index r" let ?s = "ucast i :: u16" let ?roc = "ucast (drop_bit 16 ?l) :: u32"
  define q m where qm: "q = uint ?l div 65536" "m = uint ?l mod 65536"
  have l: "uint ?l = 65536 * q + m" "0 \<le> m" "m < 65536" "0 \<le> q" unfolding qm by (simp_all add: pos_imp_zdiv_nonneg_iff)
  have seq: "uint (ucast ?l :: u16) = m" and roc: "uint ?roc = q"
    using local_parts [of ?l] assms by (simp_all add: qm)
  have s: "uint ?s = uint i mod 65536" using local_parts(2) [of i] assms(3) by simp
  show ?thesis
  proof (cases "uint ?l > 32768")
    case False
    then have s': "uint ?s = uint i" "m = uint ?l" using s assms(1,2) uint_nonnegative [of i] by (simp_all add: qm)
    then have "(ucast ?s :: u64) = i" by (intro word_uint_eqI) (simp add: uint_up_ucast is_up)
    then show ?thesis using False seq s' by (simp add: rdbx_estimate_index_def)
  next
    case True
    have eq: "push_bit 16 (ucast g) OR ucast ?s = i" if "65536 * uint g + uint ?s = uint i" for g :: u32
      using that by (intro word_uint_eqI) (simp add: uint_roc_seq)
    show ?thesis
    proof (cases "m + (uint i - uint ?l) < 65536")
      case same: True
      have i: "uint i = 65536 * q + (m + (uint i - uint ?l))" using l by linarith
      have "uint ?s = m + (uint i - uint ?l)" unfolding s by (rule int_mod_pos_eq [OF i]) (use l same assms(1) in linarith)+
      then show ?thesis
        using True same seq assms(1,2) eq [of ?roc] roc l by (auto simp: rdbx_estimate_index_def index_guess_def Let_def)
    next
      case wrap: False
      have i: "uint i = 65536 * (q + 1) + (m + (uint i - uint ?l) - 65536)" using l by (simp add: algebra_simps)
      have s': "uint ?s = m + (uint i - uint ?l) - 65536" unfolding s by (rule int_mod_pos_eq [OF i]) (use l wrap assms in linarith)+
      have "q < 4294967295" using i assms(3) wrap l by simp
      then have "uint (?roc + 1) = q + 1" using roc uint_add_lem [of ?roc 1] by simp
      then show ?thesis
        using True wrap seq assms(1,2) eq [of "?roc + 1"] l s' by (auto simp: rdbx_estimate_index_def index_guess_def Let_def)
    qed
  qed
qed

text \<open>
  An index behind the current one: with the same rollover counter the difference is the distance, negative; from
  before the last rollover it is the distance with the wrong sign.
\<close>

lemma rdbx_estimate_behind:
  assumes "uint i \<le> uint (rdbx_index r)" and "uint (rdbx_index r) - uint i \<le> 32768" and "uint (rdbx_index r) < 2 ^ 48"
    and "uint i div 65536 = uint (rdbx_index r) div 65536"
  shows "rdbx_estimate_index r (ucast i) = (i, uint i - uint (rdbx_index r))"
proof -
  let ?l = "rdbx_index r" let ?s = "ucast i :: u16" let ?roc = "ucast (drop_bit 16 ?l) :: u32"
  define q m n where qm: "q = uint ?l div 65536" "m = uint ?l mod 65536" "n = uint i mod 65536"
  have l: "uint ?l = 65536 * q + m" "0 \<le> m" "m < 65536" "0 \<le> n" "0 \<le> q" unfolding qm by (simp_all add: pos_imp_zdiv_nonneg_iff)
  have i: "uint i = 65536 * q + n" using mult_div_mod_eq [of 65536 "uint i"] unfolding qm assms(4) [symmetric] by simp
  have seq: "uint (ucast ?l :: u16) = m" and roc: "uint ?roc = q" and s: "uint ?s = n"
    using local_parts [OF assms(3)] local_parts(2) [of i] assms(1,3) by (simp_all add: qm)
  have eq: "push_bit 16 (ucast ?roc) OR ucast ?s = i" using i roc s by (intro word_uint_eqI) (simp add: uint_roc_seq)
  show ?thesis
  proof (cases "uint ?l > 32768")
    case True
    then show ?thesis using assms(1,2) l i seq s eq by (auto simp: rdbx_estimate_index_def index_guess_def Let_def)
  next
    case False
    then have "q = 0" using l by linarith
    then have "(ucast ?s :: u64) = i" using i s by (intro word_uint_eqI) (simp add: uint_up_ucast is_up)
    then show ?thesis using False l i seq s \<open>q = 0\<close> by (simp add: rdbx_estimate_index_def)
  qed
qed

lemma rdbx_estimate_rollover:
  assumes "uint i \<le> uint (rdbx_index r)" and "uint (rdbx_index r) - uint i \<le> 32767" and "uint (rdbx_index r) < 2 ^ 48"
    and "uint i div 65536 \<noteq> uint (rdbx_index r) div 65536"
  shows "rdbx_estimate_index r (ucast i) = (i, uint (rdbx_index r) - uint i)"
proof -
  let ?l = "rdbx_index r" let ?s = "ucast i :: u16" let ?roc = "ucast (drop_bit 16 ?l) :: u32"
  define q m n where qm: "q = uint ?l div 65536" "m = uint ?l mod 65536" "n = uint i mod 65536"
  have l: "uint ?l = 65536 * q + m" "0 \<le> m" "m < 65536" "0 \<le> n" "n < 65536" and i: "uint i = 65536 * (uint i div 65536) + n"
    unfolding qm by simp_all
  have "uint i div 65536 \<le> q" unfolding qm using assms(1) by (rule zdiv_mono1) simp
  then have "uint i div 65536 < q" using assms(4) qm(1) by linarith
  moreover have "q < uint i div 65536 + 2" "0 \<le> uint i div 65536" using assms(2) l i by (linarith, simp add: pos_imp_zdiv_nonneg_iff)
  ultimately have p: "uint i div 65536 = q - 1" "1 \<le> q" by linarith+
  then have nm: "n - m \<ge> 32769" using assms(2) l i by linarith
  have seq: "uint (ucast ?l :: u16) = m" and roc: "uint ?roc = q" and s: "uint ?s = n"
    using local_parts [OF assms(3)] local_parts(2) [of i] assms(1,3) by (simp_all add: qm)
  have "uint (?roc - 1) = q - 1" using p(2) roc uint_bounded [of ?roc] by (simp add: uint_word_ariths)
  then have eq: "push_bit 16 (ucast (?roc - 1)) OR ucast ?s = i" using i p(1) s by (intro word_uint_eqI) (simp add: uint_roc_seq)
  have "32768 < uint ?l" using l p(2) by linarith
  then show ?thesis using l i p nm seq s eq by (auto simp: rdbx_estimate_index_def index_guess_def Let_def)
qed

subsection \<open>The window\<close>

text \<open>
  \<open>rdbx_knows r A\<close>: the indices of \<open>A\<close> are at most the current index, and those still in the window
  are marked. Indices are mathematical integers.
\<close>

definition rdbx_knows :: "rdbx_t \<Rightarrow> int set \<Rightarrow> bool" where
  "rdbx_knows r A \<longleftrightarrow>
     (\<forall>i\<in>A. i \<le> uint (rdbx_index r) \<and>
        (uint (rdbx_index r) - i < 128 \<longrightarrow> v128_bit (rdbx_bitmask r) (nat (127 - (uint (rdbx_index r) - i)))))"

text \<open>
  What \<^verbatim>\<open>srtp_unprotect\<close> asks the database about a packet: the packet with the index \<open>i\<close> carries only the
  sequence number, the low 16 bits of \<open>i\<close>; the difference is the one that the database estimates from it, for the
  check and, once the packet is authentic, for the addition.
\<close>

definition rdbx_check_packet :: "rdbx_t \<Rightarrow> xtd_seq_num_t \<Rightarrow> err_status_t" where
  "rdbx_check_packet r i = (let (est, delta) = rdbx_estimate_index r (ucast i) in rdbx_check r delta)"

definition rdbx_add_packet :: "rdbx_t \<Rightarrow> xtd_seq_num_t \<Rightarrow> rdbx_t option" where
  "rdbx_add_packet r i = (let (est, delta) = rdbx_estimate_index r (ucast i) in rdbx_add_index r delta)"

text \<open>The current index is in the 48-bit range; the packet is ahead of it by less than half of the sequence numbers.\<close>

definition rdbx_in_range :: "rdbx_t \<Rightarrow> xtd_seq_num_t \<Rightarrow> bool" where
  "rdbx_in_range r i \<longleftrightarrow> uint (rdbx_index r) < 2 ^ 48"

definition rdbx_ahead :: "rdbx_t \<Rightarrow> xtd_seq_num_t \<Rightarrow> bool" where
  "rdbx_ahead r i \<longleftrightarrow> uint (rdbx_index r) < uint i \<and> uint i - uint (rdbx_index r) \<le> 32767 \<and> uint i < 2 ^ 48"

text \<open>A packet at or behind the current index, with the same rollover counter.\<close>

definition rdbx_same_roc :: "rdbx_t \<Rightarrow> xtd_seq_num_t \<Rightarrow> bool" where
  "rdbx_same_roc r i \<longleftrightarrow> uint (rdbx_index r) - uint i \<le> 32768 \<and> uint i div 65536 = uint (rdbx_index r) div 65536 \<and>
     uint (rdbx_index r) < 2 ^ 48"

lemma rdbx_index_advance:
  assumes "0 < d" and "d < 65536" and "uint (rdbx_index r) + d < 2 ^ 64"
  shows "uint (index_advance (rdbx_index r) (word_of_int d)) = uint (rdbx_index r) + d"
proof -
  have "uint (ucast (word_of_int d :: u16) :: u64) = d"
    using assms(1,2) by (simp add: uint_up_ucast is_up unsigned_of_int take_bit_eq_mod)
  then show ?thesis
    using assms(3) uint_add_lem [of "rdbx_index r" "ucast (word_of_int d :: u16)"] by (simp add: index_advance_def)
qed

lemma rdbx_check_late:
  "delta \<le> 0 \<Longrightarrow> rdbx_check r delta = err_status_ok \<longleftrightarrow> -127 \<le> delta \<and> \<not> v128_bit (rdbx_bitmask r) (nat (127 + delta))"
  by (auto simp: rdbx_check_def v128_get_bit_eq_1_iff)

lemma rdbx_check_ok_range: "rdbx_check r delta = err_status_ok \<Longrightarrow> -127 \<le> delta"
  by (cases "delta \<le> 0") (simp_all add: rdbx_check_late)

lemma rdbx_add_after_check: "rdbx_check r delta = err_status_ok \<Longrightarrow> \<exists>r'. rdbx_add_index r delta = Some r'"
  using rdbx_check_ok_range [of r delta] by (auto simp: rdbx_add_index_def)

lemma rdbx_forward_added:
  assumes "uint (rdbx_index r) < uint i" and "uint i - uint (rdbx_index r) \<le> 32767" and "uint i < 2 ^ 48"
  shows "rdbx_check r (uint i - uint (rdbx_index r)) = err_status_ok \<and>
    (\<exists>r'. rdbx_add_index r (uint i - uint (rdbx_index r)) = Some r' \<and> rdbx_index r' = i)"
proof -
  have "uint (index_advance (rdbx_index r) (word_of_int (uint i - uint (rdbx_index r)))) = uint i"
    using assms by (subst rdbx_index_advance) simp_all
  then show ?thesis using assms(1) by (simp add: rdbx_check_def rdbx_add_index_def word_uint_eq_iff)
qed

text \<open>From before the rollover, the check and the addition take the packet for a new one.\<close>

lemma rdbx_rolled_over:
  assumes "uint i \<le> uint (rdbx_index r)" "uint (rdbx_index r) - uint i \<le> 32767" "uint (rdbx_index r) < 2 ^ 48"
    and "uint i div 65536 \<noteq> uint (rdbx_index r) div 65536"
  shows "rdbx_estimate_index r (ucast i) = (i, uint (rdbx_index r) - uint i) \<and>
    rdbx_check r (uint (rdbx_index r) - uint i) = err_status_ok \<and> (\<exists>r'. rdbx_add_index r (uint (rdbx_index r) - uint i) = Some r')"
proof -
  have "uint i \<noteq> uint (rdbx_index r)" using assms(4) by auto
  then have "rdbx_check r (uint (rdbx_index r) - uint i) = err_status_ok" using assms(1) by (simp add: rdbx_check_def)
  with rdbx_estimate_rollover [OF assms] rdbx_add_after_check show ?thesis by blast
qed

lemma rdbx_current_marked: "0 < d \<Longrightarrow> rdbx_add_index r d = Some r' \<Longrightarrow> v128_bit (rdbx_bitmask r') 127"
  by (auto simp: rdbx_add_index_def v128_bit_set_bit)

lemma rdbx_knows_forward:
  assumes k: "rdbx_knows r A" and d: "0 < d" "d < 65536" "uint (rdbx_index r) + d < 2 ^ 64" and a: "rdbx_add_index r d = Some r'"
  shows "rdbx_knows r' (insert (uint (rdbx_index r) + d) A)"
proof -
  let ?n = "uint (rdbx_index r)" and ?i = "uint (rdbx_index r) + d"
  have r': "rdbx_index r' = index_advance (rdbx_index r) (word_of_int d)"
      "rdbx_bitmask r' = v128_set_bit (v128_left_shift (rdbx_bitmask r) (nat d)) 127"
    using a d(1) by (auto simp: rdbx_add_index_def)
  have n': "uint (rdbx_index r') = ?i" unfolding r' using d by (rule rdbx_index_advance)
  have "v128_bit (rdbx_bitmask r') (nat (127 - (?i - j)))" if "j \<in> A" "?i - j < 128" for j
  proof -
    from k that have j: "j \<le> ?n" "v128_bit (rdbx_bitmask r) (nat (127 - (?n - j)))"
      using d(1) by (auto simp: rdbx_knows_def)
    have "nat (127 - (?i - j)) + nat d = nat (127 - (?n - j))"
      using that j d(1) by (simp flip: nat_add_distrib)
    moreover have "nat (127 - (?n - j)) < 128" "nat (127 - (?i - j)) < 128" using j d(1) by auto
    ultimately show ?thesis using j(2) by (simp add: r' v128_bit_set_bit v128_bit_left_shift)
  qed
  moreover have "v128_bit (rdbx_bitmask r') 127" by (simp add: r' v128_bit_set_bit)
  ultimately show ?thesis
    using k d(1) n' by (fastforce simp: rdbx_knows_def)
qed

lemma rdbx_knows_late:
  assumes "rdbx_knows r A" "d \<le> 0" "rdbx_add_index r d = Some r'"
  shows "rdbx_knows r' A"
  using assms by (auto simp: rdbx_knows_def rdbx_add_index_def v128_bit_set_bit split: if_splits)

lemma rdbx_knows_mono: "rdbx_knows r B \<Longrightarrow> A \<subseteq> B \<Longrightarrow> rdbx_knows r A"
  by (auto simp: rdbx_knows_def)

lemma rdbx_estimate_bounded: "snd (rdbx_estimate_index r s) < 65536"
proof -
  have "uint s < 65536" "uint (ucast (rdbx_index r) :: u16) < 65536" and n: "0 \<le> uint (ucast (rdbx_index r) :: u16)"
    using uint_bounded [of s] uint_bounded [of "ucast (rdbx_index r) :: u16"] by simp_all
  then show ?thesis by (auto simp: rdbx_estimate_index_def index_guess_def Let_def) (use n in linarith)
qed

text \<open>A packet accepted in any way, late, ahead or from before a rollover, loses nothing of what the database knows.\<close>

lemma rdbx_knows_kept:
  assumes "rdbx_knows r A" "rdbx_in_range r i" "rdbx_add_packet r i = Some r'"
  shows "rdbx_knows r' A"
proof -
  obtain est d where e: "rdbx_estimate_index r (ucast i) = (est, d)" by fastforce
  have a: "rdbx_add_index r d = Some r'" using assms(3) e by (simp add: rdbx_add_packet_def)
  show ?thesis
  proof (cases "0 < d")
    case True
    have "d < 65536" using rdbx_estimate_bounded [of r "ucast i"] e by simp
    with rdbx_knows_forward [OF assms(1) True _ _ a] assms(2) show ?thesis by (auto simp: rdbx_in_range_def elim: rdbx_knows_mono)
  qed (use rdbx_knows_late [OF assms(1) _ a] in simp)
qed

text \<open>A known index of the same rollover is in the window and marked, or before the window.\<close>

lemma rdbx_known_status:
  assumes "rdbx_knows r A" "uint i \<in> A" "rdbx_same_roc r i"
  shows "rdbx_check_packet r i = (if uint (rdbx_index r) - uint i < 128 then err_status_replay_fail else err_status_replay_old)"
proof -
  have k: "uint i \<le> uint (rdbx_index r)"
      "uint (rdbx_index r) - uint i < 128 \<Longrightarrow> v128_bit (rdbx_bitmask r) (nat (127 - (uint (rdbx_index r) - uint i)))"
    using assms(1,2) by (auto simp: rdbx_knows_def)
  have "rdbx_estimate_index r (ucast i) = (i, uint i - uint (rdbx_index r))"
    by (rule rdbx_estimate_behind) (use k(1) assms(3) in \<open>simp_all add: rdbx_same_roc_def\<close>)
  then show ?thesis using k by (auto simp: rdbx_check_packet_def rdbx_check_def v128_get_bit_eq_1_iff algebra_simps)
qed

lemma rdbx_ahead_added:
  assumes "rdbx_ahead r i"
  shows "rdbx_check_packet r i = err_status_ok"
    and "\<exists>r'. rdbx_add_packet r i = Some r' \<and> rdbx_index r' = i"
    and "rdbx_knows r A \<Longrightarrow> rdbx_add_packet r i = Some r' \<Longrightarrow> rdbx_knows r' (insert (uint i) A)"
proof -
  have h: "uint (rdbx_index r) < uint i" "uint i - uint (rdbx_index r) \<le> 32767" "uint i < 2 ^ 48"
    using assms by (simp_all add: rdbx_ahead_def)
  note e = rdbx_estimate_forward [OF h]
  show "rdbx_check_packet r i = err_status_ok" "\<exists>r'. rdbx_add_packet r i = Some r' \<and> rdbx_index r' = i"
    using rdbx_forward_added [OF h] by (simp_all add: rdbx_check_packet_def rdbx_add_packet_def e)
  show "rdbx_knows r' (insert (uint i) A)" if "rdbx_knows r A" "rdbx_add_packet r i = Some r'"
    using rdbx_knows_forward [OF that(1), of "uint i - uint (rdbx_index r)" r'] that(2) h by (simp add: rdbx_add_packet_def e)
qed

interpretation rdbx: replay_db rdbx_init "\<lambda>r A. rdbx_knows r (uint ` A)" rdbx_in_range rdbx_ahead rdbx_same_roc
  rdbx_check_packet rdbx_add_packet
proof unfold_locales
  show "rdbx_knows rdbx_init (uint ` {})" by (simp add: rdbx_knows_def)
next
  fix s i assume "rdbx_check_packet s i = err_status_ok"
  then show "\<exists>t. rdbx_add_packet s i = Some t"
    using rdbx_add_after_check by (auto simp: rdbx_check_packet_def rdbx_add_packet_def split: prod.splits)
next
  fix s A i t assume "rdbx_knows s (uint ` A)" "rdbx_in_range s i" "rdbx_add_packet s i = Some t"
  then show "rdbx_knows t (uint ` A)" by (rule rdbx_knows_kept)
next
  fix s i t and A :: "u64 set" assume "rdbx_knows s (uint ` A)" "rdbx_ahead s i" "rdbx_add_packet s i = Some t"
  then show "rdbx_knows t (uint ` insert i A)" using rdbx_ahead_added(3) by simp
next
  fix s A i assume "rdbx_knows s (uint ` A)" "i \<in> A" "rdbx_same_roc s i"
  then show "rdbx_check_packet s i \<noteq> err_status_ok" using rdbx_known_status by simp
qed

subsection \<open>Properties\<close>

text \<open>
  C15: the index guess. Away from the ends of the 48-bit range the guess carries the sequence number
  of the packet and is within half the sequence number space of the local index; the difference is
  the signed distance from the local index, except that it is the negated distance for a packet
  guessed to precede the last rollover.
\<close>

theorem index_guess_closest:
  assumes "65536 \<le> uint (l :: xtd_seq_num_t)" and "uint l < 2 ^ 48 - 65536"
  shows "(let G = uint (fst (index_guess l s)); d = snd (index_guess l s) in
    G mod 65536 = uint s \<and> \<bar>G - uint l\<bar> \<le> 32768 \<and>
    d = (if G div 65536 < uint l div 65536 then uint l - G else G - uint l))"
proof -
  have "0 \<le> uint s" "uint s < 65536" "0 \<le> uint l mod 65536" "uint l mod 65536 < 65536"
      "uint l = uint l div 65536 * 65536 + uint l mod 65536"
    using uint_bounded [of s] by simp_all
  from guess_arith [OF this index_guess_cases [OF assms, of s]] show ?thesis unfolding Let_def .
qed

theorem index_guess_closest_witness:
  "uint (fst (index_guess 0x20002 0xffff)) mod 65536 = 0xffff \<and> snd (index_guess 0x20002 0xffff) = 3"
  using index_guess_closest [of "0x20002" "0xffff"] by (simp add: index_guess_def Let_def)

text \<open>
  C13: packets ahead. Below the end of the index range, a packet up to 32767 indices ahead of the
  current index is estimated exactly from its sequence number, also across a rollover; the check
  accepts it and adding it makes it the current index.
\<close>

theorem rdbx_forward_accepted:
  assumes "uint (rdbx_index r) < uint i" and "uint i - uint (rdbx_index r) \<le> 32767" and "uint i < 2 ^ 48"
  shows "\<exists>r'. rdbx_estimate_index r (ucast i) = (i, uint i - uint (rdbx_index r)) \<and>
    rdbx_check r (uint i - uint (rdbx_index r)) = err_status_ok \<and>
    rdbx_add_index r (uint i - uint (rdbx_index r)) = Some r' \<and> rdbx_index r' = i"
  using rdbx_estimate_forward [OF assms] rdbx_forward_added [OF assms] by blast

theorem rdbx_forward_accepted_witness:
  "\<exists>r'. rdbx_estimate_index (rdbx_init\<lparr>rdbx_index := 0x1ffff\<rparr>) 4 = (0x20004, 5) \<and>
     rdbx_add_index (rdbx_init\<lparr>rdbx_index := 0x1ffff\<rparr>) 5 = Some r' \<and> rdbx_index r' = 0x20004"
proof -
  have z: "(131076 :: u16) = 4" by simp
  show ?thesis using rdbx_forward_accepted [of "rdbx_init\<lparr>rdbx_index := 0x1ffff\<rparr>" "0x20004"] by (auto simp: z)
qed

text \<open>
  C14: replay protection of SRTP, and its limit. From an initialised database, through any sequence of
  packets that the check accepts, a packet ahead of the current index is accepted and becomes the current
  index. In every later state whose index is at most 32767 further, the check of the same packet is
  decided: with the same rollover counter it is refused, as a replay inside the window of 128 indices and
  as too old behind it; after a rollover it is estimated correctly, but with the sign of the difference
  reversed, and is accepted again as if it were new.
\<close>

theorem rdbx_replay_decided:
  assumes "replay_steps rdbx_in_range rdbx_check_packet rdbx_add_packet rdbx_init s"
    and "rdbx_ahead s i"
  shows "rdbx_check_packet s i = err_status_ok \<and> (\<exists>t. rdbx_add_packet s i = Some t \<and> rdbx_index t = i \<and>
    (\<forall>u. replay_steps rdbx_in_range rdbx_check_packet rdbx_add_packet t u \<and>
        uint (rdbx_index u) < 2 ^ 48 \<and> uint (rdbx_index u) - uint i \<le> 32767 \<longrightarrow>
      (if uint i div 65536 = uint (rdbx_index u) div 65536
       then rdbx_check_packet u i = (if uint (rdbx_index u) - uint i < 128 then err_status_replay_fail else err_status_replay_old)
       else rdbx_estimate_index u (ucast i) = (i, uint (rdbx_index u) - uint i) \<and> rdbx_check_packet u i = err_status_ok)))"
proof -
  have c: "rdbx_check_packet s i = err_status_ok" by (rule rdbx_ahead_added(1) [OF assms(2)])
  obtain t where t: "rdbx_add_packet s i = Some t" "rdbx_index t = i" using rdbx_ahead_added(2) [OF assms(2)] by blast
  have v: "rdbx_in_range s i" using assms(2) by (simp add: rdbx_ahead_def rdbx_in_range_def)
  have "if uint i div 65536 = uint (rdbx_index u) div 65536
       then rdbx_check_packet u i = (if uint (rdbx_index u) - uint i < 128 then err_status_replay_fail else err_status_replay_old)
       else rdbx_estimate_index u (ucast i) = (i, uint (rdbx_index u) - uint i) \<and> rdbx_check_packet u i = err_status_ok"
    if u: "replay_steps rdbx_in_range rdbx_check_packet rdbx_add_packet t u" "uint (rdbx_index u) < 2 ^ 48"
      "uint (rdbx_index u) - uint i \<le> 32767" for u
  proof -
    have k: "rdbx_knows u (uint ` {i})" using rdbx.later_invar [OF assms(1) v c assms(2) t(1) u(1)] .
    then have le: "uint i \<le> uint (rdbx_index u)" by (simp add: rdbx_knows_def)
    show ?thesis
    proof (cases "uint i div 65536 = uint (rdbx_index u) div 65536")
      case True
      with rdbx_known_status [OF k, of i] u show ?thesis by (simp add: rdbx_same_roc_def)
    next
      case False
      from rdbx_rolled_over [OF le u(3,2) False] show ?thesis using False by (simp add: rdbx_check_packet_def)
    qed
  qed
  then show ?thesis using c t by blast
qed

theorem rdbx_replay_decided_witness:
  "\<exists>t. rdbx_add_packet rdbx_init 9 = Some t \<and>
    (\<forall>u. replay_steps rdbx_in_range rdbx_check_packet rdbx_add_packet t u \<and> uint (rdbx_index u) \<le> 32776 \<longrightarrow>
       rdbx_check_packet u 9 = (if uint (rdbx_index u) < 137 then err_status_replay_fail else err_status_replay_old))"
proof -
  have "rdbx_ahead rdbx_init 9" by (simp add: rdbx_ahead_def rdbx_init_def index_init_def)
  from rdbx_replay_decided [OF replay_steps.start this] obtain t where t: "rdbx_add_packet rdbx_init 9 = Some t"
    "\<And>u. replay_steps rdbx_in_range rdbx_check_packet rdbx_add_packet t u \<Longrightarrow>
        uint (rdbx_index u) < 2 ^ 48 \<Longrightarrow> uint (rdbx_index u) - uint (9 :: u64) \<le> 32767 \<Longrightarrow>
        uint (9 :: u64) div 65536 = uint (rdbx_index u) div 65536 \<Longrightarrow>
        rdbx_check_packet u 9 = (if uint (rdbx_index u) - uint (9 :: u64) < 128 then err_status_replay_fail else err_status_replay_old)"
    by auto
  have "rdbx_check_packet u 9 = (if uint (rdbx_index u) < 137 then err_status_replay_fail else err_status_replay_old)"
    if "replay_steps rdbx_in_range rdbx_check_packet rdbx_add_packet t u" "uint (rdbx_index u) \<le> 32776" for u
    using t(2) [OF that(1)] that(2) by (simp add: div_pos_pos_trivial)
  then show ?thesis using t(1) by blast
qed

lemma rdbx_late_not_recorded_twice:
  assumes "delta \<le> 0" and "rdbx_check r delta = err_status_ok" and "rdbx_add_index r delta = Some r'"
  shows "rdbx_check r' delta = err_status_ok"
proof -
  have d: "-127 \<le> delta" "\<not> v128_bit (rdbx_bitmask r) (nat (127 + delta))"
    using assms by (simp_all add: rdbx_check_late)
  have "127 + delta \<noteq> - delta" by presburger
  then have "nat (127 + delta) \<noteq> nat (- delta)" using d(1) assms(1) by (simp add: eq_nat_nat_iff)
  with d assms(1,3) show ?thesis
    by (auto simp: rdbx_add_index_def rdbx_check_late v128_bit_set_bit)
qed

text \<open>
  Late packets are not recorded. A packet at or below the current index that the check accepts
  is added without fault, but the bit that is set is not the bit that is checked: the same packet
  is accepted again.
\<close>

theorem rdbx_late_not_recorded:
  assumes "delta \<le> 0" and "rdbx_check r delta = err_status_ok"
  shows "\<exists>r'. rdbx_add_index r delta = Some r' \<and> rdbx_check r' delta = err_status_ok"
  using rdbx_add_after_check [OF assms(2)] rdbx_late_not_recorded_twice [OF assms] by blast

theorem rdbx_late_not_recorded_witness:
  "\<exists>r'. rdbx_add_index (rdbx_init\<lparr>rdbx_index := 10\<rparr>) (-2) = Some r' \<and> rdbx_check r' (-2) = err_status_ok"
  by (rule rdbx_late_not_recorded) (simp_all add: rdbx_check_late rdbx_init_def)

end
