(* ===== verification/Key_Limit.thy ===== *)
theory Key_Limit
  imports Rdbx
begin

text \<open>
  The usage limits of a master key, \<^verbatim>\<open>crypto/kernel/key.c\<close>: a 64-bit count of the packets that the
  key may still process and a three-valued state. The lemmas give the count, the state and the
  reported event after any number of updates, up to the hard limit and at the wrap-around behind it.
\<close>

datatype key_event_t = key_event_normal | key_event_soft_limit | key_event_hard_limit

datatype key_state_t = key_state_normal | key_state_past_soft_limit | key_state_expired

record key_limit_ctx_t =
  num_left :: xtd_seq_num_t
  key_state :: key_state_t

abbreviation (input) soft_limit :: xtd_seq_num_t where "soft_limit \<equiv> 0x10000"

definition key_limit_set :: "key_limit_ctx_t \<Rightarrow> xtd_seq_num_t \<Rightarrow> err_status_t \<times> key_limit_ctx_t" where
  "key_limit_set key s =
     (if s < soft_limit then (err_status_bad_param, key)
      else (err_status_ok, key\<lparr>num_left := s, key_state := key_state_normal\<rparr>))"

text \<open>A clone is the same pointer; \<open>None\<close> is the null pointer.\<close>

definition key_limit_clone :: "'ptr option \<Rightarrow> 'ptr option \<Rightarrow> err_status_t \<times> 'ptr option" where
  "key_limit_clone original new_key =
     (if original = None then (err_status_bad_param, new_key) else (err_status_ok, original))"

definition key_limit_check :: "key_limit_ctx_t \<Rightarrow> err_status_t" where
  "key_limit_check key =
     (if key_state key = key_state_expired then err_status_key_expired else err_status_ok)"

definition key_limit_update :: "key_limit_ctx_t \<Rightarrow> key_event_t \<times> key_limit_ctx_t" where
  "key_limit_update key =
     (let key = key\<lparr>num_left := num_left key - 1\<rparr> in
      if num_left key \<ge> soft_limit then (key_event_normal, key)
      else
        (let key = (if key_state key = key_state_normal
                    then key\<lparr>key_state := key_state_past_soft_limit\<rparr> else key) in
         if num_left key < 1 then (key_event_hard_limit, key\<lparr>key_state := key_state_expired\<rparr>)
         else (key_event_soft_limit, key)))"

text \<open>\<open>n\<close> packets processed under the key.\<close>

fun key_updates :: "nat \<Rightarrow> key_limit_ctx_t \<Rightarrow> key_limit_ctx_t" where
  "key_updates 0 key = key"
| "key_updates (Suc n) key = snd (key_limit_update (key_updates n key))"

text \<open>What the count says the state and the event must be.\<close>

definition state_at :: "nat \<Rightarrow> key_state_t" where
  "state_at left = (if 0x10000 \<le> left then key_state_normal
     else if 0 < left then key_state_past_soft_limit else key_state_expired)"

definition event_at :: "nat \<Rightarrow> key_event_t" where
  "event_at left = (if 0x10000 \<le> left then key_event_normal
     else if 0 < left then key_event_soft_limit else key_event_hard_limit)"

lemma key_limit_update_step:
  assumes "unat (num_left key) = Suc left" and "key_state key = state_at (Suc left)"
  shows "unat (num_left (snd (key_limit_update key))) = left"
    and "key_state (snd (key_limit_update key)) = state_at left"
    and "fst (key_limit_update key) = event_at left"
proof -
  have n: "unat (num_left key - 1) = left"
    using assms(1) unat_minus_one [of "num_left key"] by (cases "num_left key = 0") simp_all
  then have c: "(0x10000 \<le> num_left key - 1) = (0x10000 \<le> left)"
    by (simp add: word_le_nat_alt)
  have z: "(num_left key - 1 < 1) = (left = 0)"
    by (simp only: word_less_nat_alt unat_1 n less_one)
  show "unat (num_left (snd (key_limit_update key))) = left"
    using n by (auto simp: key_limit_update_def Let_def)
  show "key_state (snd (key_limit_update key)) = state_at left"
      "fst (key_limit_update key) = event_at left"
    using c z assms(2) by (auto simp: key_limit_update_def Let_def state_at_def event_at_def)
qed

lemma key_updates_state:
  assumes "unat (num_left key) = s" and "key_state key = state_at s" and "n \<le> s"
  shows "unat (num_left (key_updates n key)) = s - n \<and> key_state (key_updates n key) = state_at (s - n)"
  using assms(3)
proof (induction n)
  case (Suc n)
  then have "unat (num_left (key_updates n key)) = Suc (s - Suc n)"
      "key_state (key_updates n key) = state_at (Suc (s - Suc n))"
    by (simp_all add: Suc_diff_Suc)
  then show ?case using key_limit_update_step by simp
qed (use assms in simp)

lemma key_limit_set_state:
  assumes "soft_limit \<le> s"
  shows "unat (num_left (snd (key_limit_set key s))) = unat s"
    and "key_state (snd (key_limit_set key s)) = state_at (unat s)"
  using assms by (auto simp: key_limit_set_def state_at_def word_le_nat_alt word_less_nat_alt)

text \<open>
  C17: the life of a key. After a limit of \<open>s\<close> packets was set, the count left after \<open>n \<le> s\<close> packets
  is \<open>s - n\<close> and the state is determined by it: normal down to the soft limit, past the soft limit below
  it, and expired exactly with packet \<open>s\<close>, which is also when the check first refuses the key; the events
  reported are normal above the soft limit, soft-limit below it, and hard-limit exactly for packet \<open>s\<close>.
\<close>

theorem key_limit_lifetime:
  assumes "soft_limit \<le> s" and "n \<le> unat s"
  shows "(let key = key_updates n (snd (key_limit_set k s)) in
    unat (num_left key) = unat s - n \<and>
    key_state key = (if 0x10000 \<le> unat s - n then key_state_normal else if n < unat s then key_state_past_soft_limit else key_state_expired) \<and>
    (key_limit_check key = err_status_key_expired \<longleftrightarrow> n = unat s) \<and>
    (n < unat s \<longrightarrow> fst (key_limit_update key) =
      (if Suc n = unat s then key_event_hard_limit
       else if unat s - Suc n < 0x10000 then key_event_soft_limit else key_event_normal)))"
proof -
  let ?key = "key_updates n (snd (key_limit_set k s))"
  have key: "unat (num_left ?key) = unat s - n \<and> key_state ?key = state_at (unat s - n)"
    using key_limit_set_state [OF assms(1)] assms(2) by (intro key_updates_state)
  moreover have "fst (key_limit_update ?key) = event_at (unat s - Suc n)" if "n < unat s"
    using key that by (intro key_limit_update_step) (simp_all add: Suc_diff_Suc)
  ultimately show ?thesis
    using assms(2) by (auto simp: key_limit_check_def state_at_def event_at_def Let_def split: if_splits)
qed

theorem key_limit_lifetime_witness:
  "unat (num_left (key_updates 0 (snd (key_limit_set \<lparr>num_left = 0, key_state = key_state_expired\<rparr> 0x10000)))) = 65536 \<and>
   fst (key_limit_update (snd (key_limit_set \<lparr>num_left = 0, key_state = key_state_expired\<rparr> 0x10000))) = key_event_soft_limit \<and>
   key_state (key_updates 1 (snd (key_limit_set \<lparr>num_left = 0, key_state = key_state_expired\<rparr> 0x10000))) = key_state_past_soft_limit"
  using key_limit_lifetime [of "0x10000" 0 "\<lparr>num_left = 0, key_state = key_state_expired\<rparr>"]
    key_limit_lifetime [of "0x10000" 1 "\<lparr>num_left = 0, key_state = key_state_expired\<rparr>"]
  by (simp add: Let_def)

text \<open>
  Behind the hard limit. A further update of an expired key wraps the count to \<open>2 ^ 64 - 1\<close> and
  reports a normal event, while the state stays expired: only the state, not the event, tells that
  the key must not be used.
\<close>

theorem key_limit_wraps:
  assumes "num_left key = 0" and "key_state key = key_state_expired"
  shows "key_limit_update key = (key_event_normal, key\<lparr>num_left := 0xffffffffffffffff\<rparr>) \<and>
    key_limit_check (snd (key_limit_update key)) = err_status_key_expired"
  using assms by (simp add: key_limit_update_def key_limit_check_def Let_def)

theorem key_limit_wraps_witness:
  "fst (key_limit_update \<lparr>num_left = 0, key_state = key_state_expired\<rparr>) = key_event_normal"
  using key_limit_wraps [of "\<lparr>num_left = 0, key_state = key_state_expired\<rparr>"] by simp

end
