(* ===== verification/Cipher_Auth.thy ===== *)
theory Cipher_Auth
  imports Hmac Aes_Icm Aes_Cbc Key_Limit
begin

text \<open>
  Cipher and authentication objects: the function tables of \<^verbatim>\<open>cipher_type_t\<close> and \<^verbatim>\<open>auth_type_t\<close>, the
  dispatching macros of \<^verbatim>\<open>crypto/include/cipher.h\<close> and \<^verbatim>\<open>auth.h\<close>, the null cipher and the null
  authentication function, and allocation and deallocation on the heap. The lemmas lift the stream
  cipher and authentication contracts to objects, and show what allocation and deallocation do to
  the heap and the reference counts.
\<close>

subsection \<open>Cipher objects\<close>

text \<open>The metaobjects that the library defines, and the state behind a cipher's \<^verbatim>\<open>void *state\<close>.\<close>

datatype cipher_type_t = null_cipher | aes_icm | aes_cbc

datatype cipher_ctx = Null_Cipher_Ctx | Icm_Ctx aes_icm_ctx_t | Cbc_Ctx aes_cbc_ctx_t

record cipher_t =
  cipher_state :: cipher_ctx
  cipher_key_len :: int

fun ctx_type :: "cipher_ctx \<Rightarrow> cipher_type_t" where
  "ctx_type Null_Cipher_Ctx = null_cipher"
| "ctx_type (Icm_Ctx _) = aes_icm"
| "ctx_type (Cbc_Ctx _) = aes_cbc"

definition null_cipher_init :: "octets \<Rightarrow> err_status_t" where
  "null_cipher_init key = err_status_ok"

definition null_cipher_set_iv :: "v128_t \<Rightarrow> err_status_t" where
  "null_cipher_set_iv iv = err_status_ok"

definition null_cipher_encrypt :: "octets \<Rightarrow> u32 \<Rightarrow> err_status_t \<times> octets" where
  "null_cipher_encrypt buf bytes_to_encr = (err_status_ok, buf)"

definition cipher_init :: "cipher_t \<Rightarrow> octets \<Rightarrow> cipher_direction_t \<Rightarrow> (err_status_t \<times> cipher_t) option" where
  "cipher_init c k dir =
     (case cipher_state c of
        Null_Cipher_Ctx \<Rightarrow> Some (null_cipher_init k, c)
      | Icm_Ctx s \<Rightarrow> map_option (map_prod id (\<lambda>s. c\<lparr>cipher_state := Icm_Ctx s\<rparr>)) (aes_icm_context_init s k)
      | Cbc_Ctx s \<Rightarrow> map_option (map_prod id (\<lambda>s. c\<lparr>cipher_state := Cbc_Ctx s\<rparr>)) (aes_cbc_context_init s k dir))"

definition cipher_set_iv :: "cipher_t \<Rightarrow> v128_t \<Rightarrow> err_status_t \<times> cipher_t" where
  "cipher_set_iv c n =
     (case cipher_state c of
        Null_Cipher_Ctx \<Rightarrow> (null_cipher_set_iv n, c)
      | Icm_Ctx s \<Rightarrow> map_prod id (\<lambda>s. c\<lparr>cipher_state := Icm_Ctx s\<rparr>) (aes_icm_set_iv s n)
      | Cbc_Ctx s \<Rightarrow> map_prod id (\<lambda>s. c\<lparr>cipher_state := Cbc_Ctx s\<rparr>) (aes_cbc_set_iv s n))"

text \<open>Encryption and decryption return the status, the object, the buffer and the length.\<close>

definition cipher_encrypt :: "cipher_t \<Rightarrow> octets \<Rightarrow> u32 \<Rightarrow> (err_status_t \<times> cipher_t \<times> octets \<times> u32) option" where
  "cipher_encrypt c buf len =
     (case cipher_state c of
        Null_Cipher_Ctx \<Rightarrow> (let (status, buf) = null_cipher_encrypt buf len in Some (status, c, buf, len))
      | Icm_Ctx s \<Rightarrow> map_option (\<lambda>(status, s, buf). (status, c\<lparr>cipher_state := Icm_Ctx s\<rparr>, buf, len)) (aes_icm_encrypt s buf len)
      | Cbc_Ctx s \<Rightarrow> map_option (\<lambda>(status, s, buf, len). (status, c\<lparr>cipher_state := Cbc_Ctx s\<rparr>, buf, len)) (aes_cbc_nist_encrypt s buf len))"

definition cipher_decrypt :: "cipher_t \<Rightarrow> octets \<Rightarrow> u32 \<Rightarrow> (err_status_t \<times> cipher_t \<times> octets \<times> u32) option" where
  "cipher_decrypt c buf len =
     (case cipher_state c of
        Null_Cipher_Ctx \<Rightarrow> (let (status, buf) = null_cipher_encrypt buf len in Some (status, c, buf, len))
      | Icm_Ctx s \<Rightarrow> map_option (\<lambda>(status, s, buf). (status, c\<lparr>cipher_state := Icm_Ctx s\<rparr>, buf, len)) (aes_icm_encrypt s buf len)
      | Cbc_Ctx s \<Rightarrow> map_option (\<lambda>(status, s, buf, len). (status, c\<lparr>cipher_state := Cbc_Ctx s\<rparr>, buf, len)) (aes_cbc_nist_decrypt s buf len))"

definition cipher_output :: "cipher_t \<Rightarrow> octets \<Rightarrow> int \<Rightarrow> (err_status_t \<times> cipher_t \<times> octets) option" where
  "cipher_output c buffer num_octets_to_output =
     (case octet_string_set_to_zero buffer (nat num_octets_to_output) of
        None \<Rightarrow> None
      | Some buffer \<Rightarrow>
          map_option (\<lambda>(status, c, buf, _). (status, c, buf)) (cipher_encrypt c buffer (word_of_int num_octets_to_output)))"

definition cipher_get_key_length :: "cipher_t \<Rightarrow> int" where
  "cipher_get_key_length c = cipher_key_len c"

subsection \<open>Authentication objects\<close>

datatype auth_type_t = null_auth | hmac

datatype auth_ctx = Null_Auth_Ctx | Hmac_Ctx hmac_ctx_t

record auth_t =
  auth_state :: auth_ctx
  out_len :: int
  auth_key_len :: int
  prefix_len :: int

fun auth_ctx_type :: "auth_ctx \<Rightarrow> auth_type_t" where
  "auth_ctx_type Null_Auth_Ctx = null_auth"
| "auth_ctx_type (Hmac_Ctx _) = hmac"

definition null_auth_init :: "octets \<Rightarrow> int \<Rightarrow> err_status_t" where
  "null_auth_init key key_len = err_status_ok"

definition null_auth_compute :: "octets \<Rightarrow> int \<Rightarrow> err_status_t \<times> octets" where
  "null_auth_compute message tag_len = (err_status_ok, [])"

definition null_auth_update :: "octets \<Rightarrow> err_status_t" where
  "null_auth_update message = err_status_ok"

definition null_auth_start :: err_status_t where
  "null_auth_start = err_status_ok"

definition auth_init :: "auth_t \<Rightarrow> octets \<Rightarrow> (err_status_t \<times> auth_t) option" where
  "auth_init a key =
     (case auth_state a of
        Null_Auth_Ctx \<Rightarrow> Some (null_auth_init key (auth_key_len a), a)
      | Hmac_Ctx s \<Rightarrow> map_option (map_prod id (\<lambda>s. a\<lparr>auth_state := Hmac_Ctx s\<rparr>)) (hmac_init s key (auth_key_len a)))"

definition auth_start :: "auth_t \<Rightarrow> err_status_t \<times> auth_t" where
  "auth_start a =
     (case auth_state a of
        Null_Auth_Ctx \<Rightarrow> (null_auth_start, a)
      | Hmac_Ctx s \<Rightarrow> map_prod id (\<lambda>s. a\<lparr>auth_state := Hmac_Ctx s\<rparr>) (hmac_start s))"

definition auth_update :: "auth_t \<Rightarrow> octets \<Rightarrow> err_status_t \<times> auth_t" where
  "auth_update a buf =
     (case auth_state a of
        Null_Auth_Ctx \<Rightarrow> (null_auth_update buf, a)
      | Hmac_Ctx s \<Rightarrow> map_prod id (\<lambda>s. a\<lparr>auth_state := Hmac_Ctx s\<rparr>) (hmac_update s buf))"

text \<open>The third result are the octets written to the tag; the null function writes none.\<close>

definition auth_compute :: "auth_t \<Rightarrow> octets \<Rightarrow> err_status_t \<times> auth_t \<times> octets" where
  "auth_compute a buf =
     (case auth_state a of
        Null_Auth_Ctx \<Rightarrow> (let (status, tag) = null_auth_compute buf (out_len a) in (status, a, tag))
      | Hmac_Ctx s \<Rightarrow> (let (status, s, tag) = hmac_compute s buf (out_len a) in (status, a\<lparr>auth_state := Hmac_Ctx s\<rparr>, tag)))"

definition auth_get_key_length :: "auth_t \<Rightarrow> int" where
  "auth_get_key_length a = auth_key_len a"

definition auth_get_tag_length :: "auth_t \<Rightarrow> int" where
  "auth_get_tag_length a = out_len a"

definition auth_get_prefix_length :: "auth_t \<Rightarrow> int" where
  "auth_get_prefix_length a = prefix_len a"

subsection \<open>The heap\<close>

text \<open>
  Objects live at addresses; every allocation takes the next one, and an address is never used
  again. \<open>malloc_ok n\<close> says whether the \<open>n\<close>-th allocation succeeds. A null pointer is \<open>None\<close>. The
  contents of fresh memory are given as zeros; no operation reads them before they are set.
\<close>

type_synonym addr = nat

record heap =
  ciphers :: "addr \<Rightarrow> cipher_t option"
  auths :: "addr \<Rightarrow> auth_t option"
  limits :: "addr \<Rightarrow> key_limit_ctx_t option"
  mallocs :: nat
  malloc_ok :: "nat \<Rightarrow> bool"
  cipher_refs :: "cipher_type_t \<Rightarrow> int"
  auth_refs :: "auth_type_t \<Rightarrow> int"

definition crypto_alloc :: "heap \<Rightarrow> addr option \<times> heap" where
  "crypto_alloc h =
     (if malloc_ok h (mallocs h) then Some (mallocs h) else None, h\<lparr>mallocs := mallocs h + 1\<rparr>)"

definition zero_block :: v128_t where "zero_block = V128 0 0 0 0"

definition fresh_sha1_ctx :: sha1_ctx_t where
  "fresh_sha1_ctx = \<lparr>sha1_H = (0, 0, 0, 0, 0), sha1_M = replicate 64 0, octets_in_buffer = 0, num_bits_in_msg = 0\<rparr>"

fun fresh_cipher_ctx :: "cipher_type_t \<Rightarrow> cipher_ctx" where
  "fresh_cipher_ctx null_cipher = Null_Cipher_Ctx"
| "fresh_cipher_ctx aes_icm = Icm_Ctx \<lparr>icm_counter = zero_block, icm_offset = zero_block,
     keystream_buffer = zero_block, icm_expanded_key = replicate 11 zero_block, bytes_in_buffer = 0\<rparr>"
| "fresh_cipher_ctx aes_cbc = Cbc_Ctx \<lparr>cbc_state = zero_block, cbc_previous = zero_block,
     cbc_expanded_key = replicate 11 zero_block\<rparr>"

fun fresh_auth_ctx :: "auth_type_t \<Rightarrow> auth_ctx" where
  "fresh_auth_ctx null_auth = Null_Auth_Ctx"
| "fresh_auth_ctx hmac = Hmac_Ctx \<lparr>opad = replicate 64 0, hmac_ctx = fresh_sha1_ctx, init_ctx = fresh_sha1_ctx\<rparr>"

text \<open>What the three allocation functions have in common: the block, its fields, the count.\<close>

definition put_cipher :: "heap \<Rightarrow> cipher_type_t \<Rightarrow> int \<Rightarrow> err_status_t \<times> addr option \<times> heap" where
  "put_cipher h ct key_len =
     (case crypto_alloc h of
        (None, h) \<Rightarrow> (err_status_alloc_fail, None, h)
      | (Some p, h) \<Rightarrow> (err_status_ok, Some p,
          h\<lparr>ciphers := (ciphers h)(p \<mapsto> \<lparr>cipher_state = fresh_cipher_ctx ct, cipher_key_len = key_len\<rparr>),
            cipher_refs := (cipher_refs h)(ct := cipher_refs h ct + 1)\<rparr>))"

definition null_cipher_alloc :: "heap \<Rightarrow> int \<Rightarrow> err_status_t \<times> addr option \<times> heap" where
  "null_cipher_alloc h key_len = put_cipher h null_cipher key_len"

definition aes_icm_alloc_ismacryp :: "heap \<Rightarrow> int \<Rightarrow> bool \<Rightarrow> err_status_t \<times> addr option \<times> heap" where
  "aes_icm_alloc_ismacryp h key_len forIsmacryp =
     (if \<not> forIsmacryp \<and> key_len \<noteq> 30 then (err_status_bad_param, None, h)
      else put_cipher h aes_icm key_len)"

definition aes_icm_alloc :: "heap \<Rightarrow> int \<Rightarrow> err_status_t \<times> addr option \<times> heap" where
  "aes_icm_alloc h key_len = aes_icm_alloc_ismacryp h key_len False"

definition aes_cbc_alloc :: "heap \<Rightarrow> int \<Rightarrow> err_status_t \<times> addr option \<times> heap" where
  "aes_cbc_alloc h key_len =
     (if key_len \<noteq> 16 then (err_status_bad_param, None, h) else put_cipher h aes_cbc key_len)"

fun cipher_type_alloc :: "cipher_type_t \<Rightarrow> heap \<Rightarrow> int \<Rightarrow> err_status_t \<times> addr option \<times> heap" where
  "cipher_type_alloc null_cipher h key_len = null_cipher_alloc h key_len"
| "cipher_type_alloc aes_icm h key_len = aes_icm_alloc h key_len"
| "cipher_type_alloc aes_cbc h key_len = aes_cbc_alloc h key_len"

text \<open>The three deallocation functions zeroize and free the block and decrement their own count.\<close>

definition drop_cipher :: "heap \<Rightarrow> addr \<Rightarrow> cipher_type_t \<Rightarrow> err_status_t \<times> heap" where
  "drop_cipher h p ct =
     (err_status_ok, h\<lparr>ciphers := (ciphers h)(p := None), cipher_refs := (cipher_refs h)(ct := cipher_refs h ct - 1)\<rparr>)"

definition null_cipher_dealloc :: "heap \<Rightarrow> addr \<Rightarrow> err_status_t \<times> heap" where
  "null_cipher_dealloc h p = drop_cipher h p null_cipher"

definition aes_icm_dealloc :: "heap \<Rightarrow> addr \<Rightarrow> err_status_t \<times> heap" where
  "aes_icm_dealloc h p = drop_cipher h p aes_icm"

definition aes_cbc_dealloc :: "heap \<Rightarrow> addr \<Rightarrow> err_status_t \<times> heap" where
  "aes_cbc_dealloc h p = drop_cipher h p aes_cbc"

definition cipher_dealloc :: "heap \<Rightarrow> addr \<Rightarrow> (err_status_t \<times> heap) option" where
  "cipher_dealloc h p =
     (case ciphers h p of
        None \<Rightarrow> None
      | Some c \<Rightarrow> Some (case ctx_type (cipher_state c) of
          null_cipher \<Rightarrow> null_cipher_dealloc h p
        | aes_icm \<Rightarrow> aes_icm_dealloc h p
        | aes_cbc \<Rightarrow> aes_cbc_dealloc h p))"

definition put_auth :: "heap \<Rightarrow> auth_type_t \<Rightarrow> int \<Rightarrow> int \<Rightarrow> int \<Rightarrow> err_status_t \<times> addr option \<times> heap" where
  "put_auth h at key_len tag_len prefix =
     (case crypto_alloc h of
        (None, h) \<Rightarrow> (err_status_alloc_fail, None, h)
      | (Some p, h) \<Rightarrow> (err_status_ok, Some p,
          h\<lparr>auths := (auths h)(p \<mapsto> \<lparr>auth_state = fresh_auth_ctx at, out_len = tag_len, auth_key_len = key_len, prefix_len = prefix\<rparr>),
            auth_refs := (auth_refs h)(at := auth_refs h at + 1)\<rparr>))"

definition null_auth_alloc :: "heap \<Rightarrow> int \<Rightarrow> int \<Rightarrow> err_status_t \<times> addr option \<times> heap" where
  "null_auth_alloc h key_len tag_len = put_auth h null_auth key_len tag_len tag_len"

definition hmac_alloc :: "heap \<Rightarrow> int \<Rightarrow> int \<Rightarrow> err_status_t \<times> addr option \<times> heap" where
  "hmac_alloc h key_len tag_len =
     (if key_len > 20 then (err_status_bad_param, None, h)
      else if tag_len > 20 then (err_status_bad_param, None, h)
      else put_auth h hmac key_len tag_len 0)"

fun auth_type_alloc :: "auth_type_t \<Rightarrow> heap \<Rightarrow> int \<Rightarrow> int \<Rightarrow> err_status_t \<times> addr option \<times> heap" where
  "auth_type_alloc null_auth h key_len tag_len = null_auth_alloc h key_len tag_len"
| "auth_type_alloc hmac h key_len tag_len = hmac_alloc h key_len tag_len"

definition drop_auth :: "heap \<Rightarrow> addr \<Rightarrow> auth_type_t \<Rightarrow> err_status_t \<times> heap" where
  "drop_auth h p at =
     (err_status_ok, h\<lparr>auths := (auths h)(p := None), auth_refs := (auth_refs h)(at := auth_refs h at - 1)\<rparr>)"

definition null_auth_dealloc :: "heap \<Rightarrow> addr \<Rightarrow> err_status_t \<times> heap" where
  "null_auth_dealloc h p = drop_auth h p null_auth"

definition hmac_dealloc :: "heap \<Rightarrow> addr \<Rightarrow> err_status_t \<times> heap" where
  "hmac_dealloc h p = drop_auth h p hmac"

definition auth_dealloc :: "heap \<Rightarrow> addr \<Rightarrow> (err_status_t \<times> heap) option" where
  "auth_dealloc h p =
     (case auths h p of
        None \<Rightarrow> None
      | Some a \<Rightarrow> Some (case auth_ctx_type (auth_state a) of
          null_auth \<Rightarrow> null_auth_dealloc h p
        | hmac \<Rightarrow> hmac_dealloc h p))"

subsection \<open>The contracts on objects\<close>

text \<open>The key of an object: none, or the counter mode key.\<close>

datatype stream_key = No_Key | Icm_Key "aes_expanded_key_t \<times> v128_t"

definition cipher_keyed :: "cipher_t \<Rightarrow> stream_key \<Rightarrow> bool" where
  "cipher_keyed c k \<longleftrightarrow>
     (case cipher_state c of
        Null_Cipher_Ctx \<Rightarrow> k = No_Key
      | Icm_Ctx s \<Rightarrow> (case k of No_Key \<Rightarrow> False | Icm_Key ik \<Rightarrow> icm_keyed s ik)
      | Cbc_Ctx _ \<Rightarrow> False)"

definition cipher_at :: "cipher_t \<Rightarrow> stream_key \<Rightarrow> v128_t \<Rightarrow> nat \<Rightarrow> bool" where
  "cipher_at c k iv pos \<longleftrightarrow>
     (case cipher_state c of
        Null_Cipher_Ctx \<Rightarrow> k = No_Key
      | Icm_Ctx s \<Rightarrow> (case k of No_Key \<Rightarrow> False | Icm_Key ik \<Rightarrow> icm_at s ik iv pos)
      | Cbc_Ctx _ \<Rightarrow> False)"

fun stream_ks :: "stream_key \<Rightarrow> v128_t \<Rightarrow> nat \<Rightarrow> u8" where
  "stream_ks No_Key iv i = 0"
| "stream_ks (Icm_Key k) iv i = icm_ks k iv i"

definition cipher_crypt :: "cipher_t \<Rightarrow> octets \<Rightarrow> u32 \<Rightarrow> (err_status_t \<times> cipher_t \<times> octets) option" where
  "cipher_crypt c buf len = map_option (\<lambda>(status, c, buf, _). (status, c, buf)) (cipher_encrypt c buf len)"

lemma xor_octets_zeros: "n = length xs \<Longrightarrow> xor_octets xs (map (\<lambda>_. 0) [0..<n]) = xs"
  by (rule nth_equalityI) (simp_all add: nth_xor_octets)

text \<open>On keyed objects, decryption is encryption and the length is not changed.\<close>

lemma cipher_decrypt_eq:
  assumes "cipher_keyed c k"
  shows "cipher_decrypt c buf len = cipher_encrypt c buf len"
    and "cipher_encrypt c buf len = map_option (\<lambda>(status, c, buf). (status, c, buf, len)) (cipher_crypt c buf len)"
  using assms
  by (auto simp: cipher_keyed_def cipher_decrypt_def cipher_encrypt_def cipher_crypt_def option.map_comp comp_def
      case_prod_unfold Let_def split: cipher_ctx.splits)

interpretation cipher: stream_cipher cipher_keyed cipher_at "\<lambda>iv. block_index iv = 0" "0xffff" stream_ks cipher_set_iv cipher_crypt
proof unfold_locales
  fix s k iv
  show "cipher_keyed s k \<Longrightarrow> block_index iv = 0 \<Longrightarrow>
      fst (cipher_set_iv s iv) = err_status_ok \<and> cipher_at (snd (cipher_set_iv s iv)) k iv 0"
    using icm.set_iv_at
    by (auto simp: cipher_keyed_def cipher_at_def cipher_set_iv_def null_cipher_set_iv_def
        split: cipher_ctx.splits stream_key.splits)
next
  fix s k iv pos
  show "cipher_at s k iv pos \<Longrightarrow> cipher_keyed s k"
    using icm.at_keyed by (auto simp: cipher_keyed_def cipher_at_def split: cipher_ctx.splits stream_key.splits)
next
  fix s k iv pos and n :: u32 and buf :: octets
  assume c: "cipher_at s k iv pos" "unat n \<le> length buf" "pos + unat n \<le> 0xffff"
  show "\<exists>s'. cipher_crypt s buf n = Some (err_status_ok, s',
          xor_octets (take (unat n) buf) (map (\<lambda>i. stream_ks k iv (pos + i)) [0..<unat n]) @ drop (unat n) buf) \<and>
        cipher_at s' k iv (pos + unat n)"
  proof (cases "cipher_state s")
    case Null_Cipher_Ctx
    then show ?thesis
      using c xor_octets_zeros [of "unat n" "take (unat n) buf"]
      by (simp add: cipher_at_def cipher_crypt_def cipher_encrypt_def null_cipher_encrypt_def Let_def)
  next
    case (Icm_Ctx i)
    with c(1) obtain ik where k: "k = Icm_Key ik" "icm_at i ik iv pos"
      by (auto simp: cipher_at_def split: stream_key.splits)
    from icm.crypt_at [OF k(2) c(2,3)] k Icm_Ctx show ?thesis
      by (auto simp: cipher_at_def cipher_crypt_def cipher_encrypt_def)
  qed (use c in \<open>simp add: cipher_at_def\<close>)
qed

text \<open>The keystream itself, as \<^verbatim>\<open>cipher_output\<close> writes it.\<close>

lemma cipher_output_fresh:
  assumes "cipher_keyed c k" "block_index iv = 0" "n = length buf" "0 < n" "n \<le> 0xffff"
  shows "\<exists>c'. cipher_output (snd (cipher_set_iv c iv)) buf (int n) =
    Some (err_status_ok, c', map (stream_ks k iv) [0..<n]) \<and> cipher_keyed c' k"
proof -
  have z: "octet_string_set_to_zero buf (nat (int n)) = Some (replicate n 0)"
    using assms(3,4) by (simp add: octet_string_set_to_zero_eq max_def Suc_le_eq)
  let ?ks = "map (stream_ks k iv) [0..<n]"
  have u: "unat (word_of_int (int n) :: u32) = n" using assms(5) by (simp add: unat_of_nat)
  have x: "xor_octets (replicate n 0) ?ks = ?ks"
    using xor_octets_zero [of ?ks] by simp
  from cipher.crypt_fresh [OF assms(1,2), of "word_of_int (int n)" "replicate n 0"] assms(5) x
  obtain c' where "cipher_crypt (snd (cipher_set_iv c iv)) (replicate n 0) (word_of_int (int n)) = Some (err_status_ok, c', ?ks)"
      "cipher_keyed c' k"
    unfolding u by auto
  then show ?thesis unfolding cipher_output_def z option.case cipher_crypt_def by blast
qed

text \<open>The key of an authentication object: none, or an HMAC key.\<close>

definition auth_keyed :: "auth_t \<Rightarrow> octets option \<Rightarrow> bool" where
  "auth_keyed a k \<longleftrightarrow>
     (case auth_state a of
        Null_Auth_Ctx \<Rightarrow> k = None
      | Hmac_Ctx s \<Rightarrow> (case k of None \<Rightarrow> False | Some key \<Rightarrow> hmac_keyed s key))"

definition auth_holds :: "auth_t \<Rightarrow> octets option \<Rightarrow> octets \<Rightarrow> bool" where
  "auth_holds a k m \<longleftrightarrow>
     (case auth_state a of
        Null_Auth_Ctx \<Rightarrow> k = None
      | Hmac_Ctx s \<Rightarrow> (case k of None \<Rightarrow> False | Some key \<Rightarrow> hmac_holds s key m))"

fun auth_mac :: "octets option \<Rightarrow> octets \<Rightarrow> octets" where
  "auth_mac None m = []"
| "auth_mac (Some key) m = hmac_sha1 key m"

lemmas auth_contract = auth_keyed_def auth_holds_def auth_start_def auth_update_def auth_compute_def
  null_auth_start_def null_auth_update_def null_auth_compute_def

interpretation auth: authenticator auth_keyed auth_holds "2 ^ 29 - 64" 20 auth_start auth_update
  "\<lambda>a x n. auth_compute (a\<lparr>out_len := n\<rparr>) x" auth_mac
proof unfold_locales
  fix s k m x and n :: int
  assume h: "auth_holds s k m" "length (m @ x) < 2 ^ 29 - 64" "n \<le> 20"
  show "\<exists>s'. auth_compute (s\<lparr>out_len := n\<rparr>) x = (err_status_ok, s', take (nat n) (auth_mac k (m @ x))) \<and> auth_keyed s' k"
  proof (cases "auth_state s")
    case (Hmac_Ctx c)
    with h(1) obtain key where k: "k = Some key" "hmac_holds c key m"
      by (auto simp: auth_holds_def split: option.splits)
    from hmac.compute_tag [OF k(2) h(2,3)] k Hmac_Ctx show ?thesis
      by (auto simp: auth_compute_def auth_keyed_def)
  qed (use h in \<open>simp add: auth_contract\<close>)
qed (use hmac.start_holds hmac.update_holds hmac.holds_keyed in
  \<open>auto simp: auth_contract split: auth_ctx.splits option.splits\<close>)

text \<open>No operation changes the lengths of an object.\<close>

lemma auth_lengths_kept [simp]:
  "out_len (snd (auth_start a)) = out_len a" "prefix_len (snd (auth_start a)) = prefix_len a"
  "auth_key_len (snd (auth_start a)) = auth_key_len a"
  "out_len (snd (auth_update a x)) = out_len a" "prefix_len (snd (auth_update a x)) = prefix_len a"
  "auth_key_len (snd (auth_update a x)) = auth_key_len a"
  "out_len (fst (snd (auth_compute a x))) = out_len a" "prefix_len (fst (snd (auth_compute a x))) = prefix_len a"
  "auth_key_len (fst (snd (auth_compute a x))) = auth_key_len a"
  by (simp_all add: auth_contract Let_def case_prod_unfold split: auth_ctx.splits)

lemma auth_two_pieces:
  assumes "auth_keyed a k" "length (x @ y) < 2 ^ 29 - 64" "out_len a \<le> 20"
  shows "\<exists>a'. auth_compute (snd (auth_update (snd (auth_start a)) x)) y =
      (err_status_ok, a', take (nat (out_len a)) (auth_mac k (x @ y))) \<and> auth_keyed a' k \<and>
    out_len a' = out_len a \<and> prefix_len a' = prefix_len a"
proof -
  let ?b = "snd (auth_update (snd (auth_start a)) x)"
  have "?b\<lparr>out_len := out_len a\<rparr> = ?b" by simp
  with auth.tag_of_pieces [OF assms(1), of "[x]" y "out_len a"] assms(2,3) obtain a' where
    "auth_compute ?b y = (err_status_ok, a', take (nat (out_len a)) (auth_mac k (x @ y)))" "auth_keyed a' k"
    by auto
  moreover from this have "out_len a' = out_len a" "prefix_len a' = prefix_len a"
    using auth_lengths_kept(7,8) [of ?b y] by simp_all
  ultimately show ?thesis by blast
qed

lemma auth_one_piece:
  assumes "auth_keyed a k" "length x < 2 ^ 29 - 64" "out_len a \<le> 20"
  shows "\<exists>a'. auth_compute (snd (auth_start a)) x =
      (err_status_ok, a', take (nat (out_len a)) (auth_mac k x)) \<and> auth_keyed a' k \<and>
    out_len a' = out_len a \<and> prefix_len a' = prefix_len a"
proof -
  let ?b = "snd (auth_start a)"
  have "?b\<lparr>out_len := out_len a\<rparr> = ?b" by simp
  with auth.start_compute [OF assms] obtain a' where
    "auth_compute ?b x = (err_status_ok, a', take (nat (out_len a)) (auth_mac k x))" "auth_keyed a' k"
    by auto
  moreover from this have "out_len a' = out_len a" "prefix_len a' = prefix_len a"
    using auth_lengths_kept(7,8) [of ?b x] by simp_all
  ultimately show ?thesis by blast
qed

subsection \<open>Properties\<close>

text \<open>
  Allocation and deallocation balance. A successful allocation puts an object of the requested
  type at an address that was not in use, and deallocating it restores the objects and the
  reference counts; a refused allocation (bad key length or no memory) changes none of them.
\<close>

theorem cipher_alloc_dealloc:
  assumes "cipher_type_alloc ct h key_len = (status, p, h')" and "\<forall>q \<ge> mallocs h. ciphers h q = None"
  shows "(status = err_status_ok \<longrightarrow> (\<exists>a h''. p = Some a \<and> ciphers h a = None \<and>
      map_option (ctx_type \<circ> cipher_state) (ciphers h' a) = Some ct \<and>
      cipher_dealloc h' a = Some (err_status_ok, h'') \<and> ciphers h'' = ciphers h \<and> cipher_refs h'' = cipher_refs h)) \<and>
    (status \<noteq> err_status_ok \<longrightarrow> p = None \<and> ciphers h' = ciphers h \<and> cipher_refs h' = cipher_refs h)"
  using assms fun_upd_idem [of "ciphers h" "mallocs h" None]
  by (cases ct)
    (auto intro!: exI [of _ "mallocs h"] simp: null_cipher_alloc_def aes_icm_alloc_def aes_icm_alloc_ismacryp_def aes_cbc_alloc_def put_cipher_def
      crypto_alloc_def cipher_dealloc_def null_cipher_dealloc_def aes_icm_dealloc_def aes_cbc_dealloc_def drop_cipher_def
      split: if_splits option.splits)

theorem cipher_alloc_dealloc_witness:
  "\<exists>a h' h''. cipher_type_alloc aes_icm \<lparr>ciphers = (\<lambda>_. None), auths = (\<lambda>_. None), limits = (\<lambda>_. None), mallocs = 4,
      malloc_ok = (\<lambda>_. True), cipher_refs = (\<lambda>_. 0), auth_refs = (\<lambda>_. 0)\<rparr> 30 = (err_status_ok, Some a, h') \<and>
    cipher_dealloc h' a = Some (err_status_ok, h'') \<and> ciphers h'' = (\<lambda>_. None) \<and> cipher_refs h'' = (\<lambda>_. 0)"
proof -
  let ?h = "\<lparr>ciphers = (\<lambda>_. None), auths = (\<lambda>_. None), limits = (\<lambda>_. None), mallocs = 4,
      malloc_ok = (\<lambda>_. True), cipher_refs = (\<lambda>_. 0), auth_refs = (\<lambda>_. 0)\<rparr> :: heap"
  obtain p h' where "cipher_type_alloc aes_icm ?h 30 = (err_status_ok, p, h')"
    by (simp add: aes_icm_alloc_def aes_icm_alloc_ismacryp_def put_cipher_def crypto_alloc_def)
  with cipher_alloc_dealloc [OF this] show ?thesis by auto
qed

end
