(* ===== verification/Crypto_Kernel.thy ===== *)
theory Crypto_Kernel
  imports Cipher_Auth
begin

text \<open>
  The crypto kernel, \<^verbatim>\<open>crypto/kernel/crypto_kernel.c\<close>: the lists of cipher and authentication types
  by identifier, the list of debug modules, and the rule that nothing is allocated before the
  kernel is in the secure state. Linked lists of kernel nodes are lists, head first.
\<close>

datatype crypto_kernel_state_t = crypto_kernel_state_insecure | crypto_kernel_state_secure

type_synonym cipher_type_id_t = u32
type_synonym auth_type_id_t = u32

abbreviation (input) NULL_CIPHER :: cipher_type_id_t where "NULL_CIPHER \<equiv> 0"
abbreviation (input) AES_128_ICM :: cipher_type_id_t where "AES_128_ICM \<equiv> 1"
abbreviation (input) AES_128_CBC :: cipher_type_id_t where "AES_128_CBC \<equiv> 3"
abbreviation (input) NULL_AUTH :: auth_type_id_t where "NULL_AUTH \<equiv> 0"
abbreviation (input) HMAC_SHA1 :: auth_type_id_t where "HMAC_SHA1 \<equiv> 3"

record debug_module_t =
  debug_on :: int
  debug_name :: string

record crypto_kernel_t =
  kernel_state :: crypto_kernel_state_t
  cipher_type_list :: "(cipher_type_id_t \<times> cipher_type_t) list"
  auth_type_list :: "(auth_type_id_t \<times> auth_type_t) list"
  debug_module_list :: "debug_module_t list"

definition crypto_kernel_get_cipher_type :: "crypto_kernel_t \<Rightarrow> cipher_type_id_t \<Rightarrow> cipher_type_t option" where
  "crypto_kernel_get_cipher_type k tid = map_of (cipher_type_list k) tid"

definition crypto_kernel_alloc_cipher ::
  "crypto_kernel_t \<Rightarrow> heap \<Rightarrow> cipher_type_id_t \<Rightarrow> int \<Rightarrow> err_status_t \<times> addr option \<times> heap" where
  "crypto_kernel_alloc_cipher k h tid key_len =
     (if kernel_state k \<noteq> crypto_kernel_state_secure then (err_status_init_fail, None, h)
      else
        (case crypto_kernel_get_cipher_type k tid of
           None \<Rightarrow> (err_status_fail, None, h)
         | Some ct \<Rightarrow> cipher_type_alloc ct h key_len))"

definition crypto_kernel_get_auth_type :: "crypto_kernel_t \<Rightarrow> auth_type_id_t \<Rightarrow> auth_type_t option" where
  "crypto_kernel_get_auth_type k tid = map_of (auth_type_list k) tid"

definition crypto_kernel_alloc_auth ::
  "crypto_kernel_t \<Rightarrow> heap \<Rightarrow> auth_type_id_t \<Rightarrow> int \<Rightarrow> int \<Rightarrow> err_status_t \<times> addr option \<times> heap" where
  "crypto_kernel_alloc_auth k h tid key_len tag_len =
     (if kernel_state k \<noteq> crypto_kernel_state_secure then (err_status_init_fail, None, h)
      else
        (case crypto_kernel_get_auth_type k tid of
           None \<Rightarrow> (err_status_fail, None, h)
         | Some at \<Rightarrow> auth_type_alloc at h key_len tag_len))"

text \<open>\<^verbatim>\<open>strncmp(a, b, 64) == 0\<close> on null-terminated strings.\<close>

definition same_name :: "string \<Rightarrow> string \<Rightarrow> bool" where
  "same_name a b \<longleftrightarrow> take 64 a = take 64 b"

definition crypto_kernel_load_debug_module ::
  "crypto_kernel_t \<Rightarrow> heap \<Rightarrow> debug_module_t option \<Rightarrow> err_status_t \<times> crypto_kernel_t \<times> heap" where
  "crypto_kernel_load_debug_module k h new_dm =
     (case new_dm of
        None \<Rightarrow> (err_status_bad_param, k, h)
      | Some dm \<Rightarrow>
          (if \<exists>m \<in> set (debug_module_list k). same_name (debug_name dm) (debug_name m)
           then (err_status_bad_param, k, h)
           else
             (case crypto_alloc h of
                (None, h) \<Rightarrow> (err_status_alloc_fail, k, h)
              | (Some p, h) \<Rightarrow> (err_status_ok, k\<lparr>debug_module_list := dm # debug_module_list k\<rparr>, h))))"

fun set_first :: "string \<Rightarrow> int \<Rightarrow> debug_module_t list \<Rightarrow> debug_module_t list option" where
  "set_first name on [] = None"
| "set_first name on (m # ms) =
     (if same_name name (debug_name m) then Some (m\<lparr>debug_on := on\<rparr> # ms)
      else map_option ((#) m) (set_first name on ms))"

definition crypto_kernel_set_debug_module ::
  "crypto_kernel_t \<Rightarrow> string \<Rightarrow> int \<Rightarrow> err_status_t \<times> crypto_kernel_t" where
  "crypto_kernel_set_debug_module k name on =
     (case set_first name on (debug_module_list k) of
        None \<Rightarrow> (err_status_fail, k)
      | Some ms \<Rightarrow> (err_status_ok, k\<lparr>debug_module_list := ms\<rparr>))"

end
