(* ===== verification/Rdb.thy ===== *)
theory Rdb
  imports Replay
begin

text \<open>
  The replay database of SRTCP, \<^verbatim>\<open>crypto/replay/rdb.c\<close>: a window of 128 indices that starts at
  \<^verbatim>\<open>window_start\<close>, one bit per index. A receiver uses \<^verbatim>\<open>rdb_check\<close> and \<^verbatim>\<open>rdb_add_index\<close>, a
  sender \<^verbatim>\<open>rdb_increment\<close> and \<^verbatim>\<open>rdb_get_value\<close>. The lemmas show that the database is an exact
  record of the indices received in its window, and the interpretation of the replay contract that
  no index is accepted twice.
\<close>

record rdb_t =
  window_start :: u32
  rdb_bitmask :: v128_t

abbreviation (input) rdb_bits_in_bitmask :: nat where
  "rdb_bits_in_bitmask \<equiv> 128"

definition rdb_init :: rdb_t where
  "rdb_init = \<lparr>window_start = 0, rdb_bitmask = V128 0 0 0 0\<rparr>"

definition rdb_check :: "rdb_t \<Rightarrow> u32 \<Rightarrow> err_status_t" where
  "rdb_check rdb index =
     (if index \<ge> window_start rdb + of_nat rdb_bits_in_bitmask then err_status_ok
      else if index < window_start rdb then err_status_replay_old
      else if v128_get_bit (rdb_bitmask rdb) (unat (index - window_start rdb)) = 1
      then err_status_replay_fail
      else err_status_ok)"

text \<open>
  The difference is a C \<^verbatim>\<open>int\<close>, compared with the unsigned size of the mask, so the comparison is
  unsigned. A difference that is negative when \<^verbatim>\<open>v128_left_shift\<close> receives it makes that
  function address memory outside the mask: the fault \<open>None\<close>.
\<close>

definition rdb_add_index :: "rdb_t \<Rightarrow> u32 \<Rightarrow> rdb_t option" where
  "rdb_add_index rdb index =
     (let delta = index - window_start rdb in
      if delta < of_nat rdb_bits_in_bitmask then
        Some (rdb\<lparr>rdb_bitmask := v128_set_bit (rdb_bitmask rdb) (unat delta)\<rparr>)
      else
        let delta = delta - of_nat (rdb_bits_in_bitmask - 1) in
        if int_of_u32 delta < 0 then None
        else Some (rdb\<lparr>
          rdb_bitmask := v128_set_bit (v128_left_shift (rdb_bitmask rdb) (unat delta))
            (rdb_bits_in_bitmask - 1),
          window_start := window_start rdb + delta\<rparr>))"

definition rdb_increment :: "rdb_t \<Rightarrow> err_status_t \<times> rdb_t" where
  "rdb_increment rdb =
     (let rdb' = rdb\<lparr>window_start := window_start rdb + 1\<rparr> in
      if window_start rdb > 0x7fffffff then (err_status_key_expired, rdb')
      else (err_status_ok, rdb'))"

definition rdb_get_value :: "rdb_t \<Rightarrow> u32" where
  "rdb_get_value rdb = window_start rdb"

subsection \<open>The window as a set of received indices\<close>

text \<open>
  \<open>rdb_holds r A\<close>: among the indices of the window exactly those of \<open>A\<close> are marked, and no index of
  \<open>A\<close> lies after the window. SRTCP indices have 31 bits (\<^verbatim>\<open>SRTCP_INDEX_MASK\<close>).
\<close>

definition rdb_holds :: "rdb_t \<Rightarrow> u32 set \<Rightarrow> bool" where
  "rdb_holds r A \<longleftrightarrow> uint (window_start r) < 2 ^ 31 \<and>
     (\<forall>i\<in>A. uint i < uint (window_start r) + 128) \<and>
     (\<forall>k<128. v128_bit (rdb_bitmask r) k \<longleftrightarrow> window_start r + of_nat k \<in> A)"

abbreviation srtcp_index :: "u32 \<Rightarrow> bool" where
  "srtcp_index i \<equiv> uint i < 2 ^ 31"

lemma uint_u32_less: "uint (w :: u32) < 2 ^ 32"
  using uint_bounded [of w] by simp

lemma uint_diff_u32: "(a :: u32) \<le> b \<Longrightarrow> uint (b - a) = uint b - uint a"
  by (simp add: uint_sub_lem [THEN iffD1] word_le_def)

lemma rdb_window_end:
  "uint ws < 2 ^ 31 \<Longrightarrow> uint (ws + 128 :: u32) = uint ws + 128"
  by (simp add: uint_word_ariths)

lemma rdb_check_holds:
  assumes "rdb_holds r A" and "srtcp_index i"
  shows "rdb_check r i =
    (if i < window_start r then err_status_replay_old
     else if i \<in> A then err_status_replay_fail else err_status_ok)"
proof -
  let ?ws = "window_start r"
  from assms have ws: "uint ?ws < 2 ^ 31" and after: "\<forall>i\<in>A. uint i < uint ?ws + 128"
    and bits: "\<forall>k<128. v128_bit (rdb_bitmask r) k \<longleftrightarrow> ?ws + of_nat k \<in> A"
    by (auto simp: rdb_holds_def)
  have ge: "i \<ge> ?ws + 128 \<longleftrightarrow> uint i \<ge> uint ?ws + 128"
    using rdb_window_end [OF ws] by (simp add: word_le_def)
  have inside: "v128_bit (rdb_bitmask r) (unat (i - ?ws)) \<longleftrightarrow> i \<in> A"
    if "\<not> i \<ge> ?ws + 128" and "\<not> i < ?ws"
  proof -
    have "uint (i - ?ws) = uint i - uint ?ws" using that by (simp add: uint_diff_u32)
    then have "unat (i - ?ws) < 128" using that ge by (simp add: unat_eq_nat_uint)
    then show ?thesis using bits by simp
  qed
  show ?thesis
    using ge inside after ws
    by (auto simp: rdb_check_def v128_get_bit_eq_1_iff word_less_def)
qed

lemma rdb_init_holds: "rdb_holds rdb_init {}"
  by (simp add: rdb_holds_def rdb_init_def)

lemma unat_add_window: "uint ws < 2 ^ 31 \<Longrightarrow> k < 128 \<Longrightarrow> uint (ws + of_nat k :: u32) = uint ws + int k"
proof -
  assume ws: "uint ws < 2 ^ 31" and k: "k < 128"
  have "uint (of_nat k :: u32) = int k"
    using k by (simp add: unsigned_of_nat take_bit_nat_eq_self)
  moreover have "uint ws + int k < 2 ^ LENGTH(32)" using ws k by simp
  ultimately show ?thesis using uint_add_lem [of ws "of_nat k"] by simp
qed

lemma rdb_holdsD:
  assumes "rdb_holds r A"
  shows "uint (window_start r) < 2 ^ 31" "i \<in> A \<Longrightarrow> uint i < uint (window_start r) + 128"
    "k < 128 \<Longrightarrow> v128_bit (rdb_bitmask r) k \<longleftrightarrow> window_start r + of_nat k \<in> A"
  using assms by (auto simp: rdb_holds_def)

text \<open>Adding an index that is at or after the start of the window records exactly that index: inside of the window\<close>

lemma rdb_add_inside:
  assumes holds: "rdb_holds r A" and n: "n < 128"
  shows "rdb_holds (r\<lparr>rdb_bitmask := v128_set_bit (rdb_bitmask r) n\<rparr>) (insert (window_start r + of_nat n) A)"
proof -
  note h = rdb_holdsD [OF holds]
  have "window_start r + of_nat k = window_start r + of_nat n \<longleftrightarrow> k = n" if "k < 128" for k
    by (metis unat_add_window [OF h(1) that] unat_add_window [OF h(1) n] add_left_cancel of_nat_eq_iff)
  then show ?thesis
    using h n unat_add_window [OF h(1) n] by (auto simp: rdb_holds_def v128_bit_set_bit)
qed

text \<open>and after it, where the window moves so that the index is its last.\<close>

lemma rdb_add_beyond:
  assumes holds: "rdb_holds r A" and e: "uint e + uint (window_start r) + 127 < 2 ^ 31" "0 < uint e"
  defines "ws \<equiv> window_start r" and "i \<equiv> window_start r + e + 127"
  shows "rdb_holds (r\<lparr>rdb_bitmask := v128_set_bit (v128_left_shift (rdb_bitmask r) (unat e)) 127, window_start := ws + e\<rparr>) (insert i A)"
proof -
  note h = rdb_holdsD [OF holds]
  have ws': "uint (ws + e) = uint ws + uint e" using e uint_add_lem [of ws e] by (simp add: ws_def)
  have pos: "uint (ws + e + of_nat k) = uint ws + uint e + int k" if "k < 128" for k
    using unat_add_window [of "ws + e" k] ws' e that by (simp add: ws_def)
  have i: "uint i = uint ws + uint e + 127" using pos [of 127] by (simp add: i_def ws_def)
  have shifted: "ws + e + of_nat k = ws + of_nat (k + unat e)" for k by (simp add: algebra_simps)
  have last: "k = 127 \<longleftrightarrow> ws + e + of_nat k = i" if "k < 128" for k
    unfolding word_uint_eq_iff [of _ i] pos [OF that] i by auto
  have out: "ws + e + of_nat k \<notin> A" if "k < 128" "\<not> k + unat e < 128" for k
  proof
    assume "ws + e + of_nat k \<in> A"
    from h(2) [OF this] have "uint e + int k < 128" using pos [OF that(1)] unfolding ws_def by linarith
    moreover have "int (unat e) = uint e" by simp
    ultimately show False using that(2) by linarith
  qed
  have "v128_bit (v128_set_bit (v128_left_shift (rdb_bitmask r) (unat e)) 127) k \<longleftrightarrow> ws + e + of_nat k \<in> insert i A" if "k < 128" for k
  proof -
    have "v128_bit (v128_set_bit (v128_left_shift (rdb_bitmask r) (unat e)) 127) k \<longleftrightarrow>
        k = 127 \<or> k + unat e < 128 \<and> ws + of_nat (k + unat e) \<in> A"
      using that h(3) [of "k + unat e"] by (auto simp: v128_bit_set_bit v128_bit_left_shift ws_def)
    also have "\<dots> \<longleftrightarrow> ws + e + of_nat k \<in> insert i A"
      unfolding shifted [symmetric] using last [OF that] out [OF that] by blast
    finally show ?thesis .
  qed
  moreover have "uint j < uint (ws + e) + 128" if "j \<in> insert i A" for j
    using that h(2) [of j] ws' i e(2) by (auto simp: ws_def)
  ultimately show ?thesis using ws' e by (simp add: rdb_holds_def ws_def)
qed

lemma rdb_add_index_holds:
  assumes holds: "rdb_holds r A" and i: "srtcp_index i" and ge: "window_start r \<le> i"
  shows "\<exists>r'. rdb_add_index r i = Some r' \<and> rdb_holds r' (insert i A) \<and> window_start r \<le> window_start r'"
proof (cases "i - window_start r < 128")
  case True
  then have n: "unat (i - window_start r) < 128" "window_start r + of_nat (unat (i - window_start r)) = i"
    by (auto simp: word_less_nat_alt)
  with rdb_add_inside [OF holds n(1)] True show ?thesis by (simp add: rdb_add_index_def Let_def)
next
  case False
  let ?ws = "window_start r" let ?e = "i - window_start r - 127"
  have d: "uint (i - ?ws) = uint i - uint ?ws" using ge by (rule uint_diff_u32)
  have e: "uint ?e = uint i - uint ?ws - 127"
    using False d by (subst uint_diff_u32) (auto simp: word_less_def word_le_def)
  have pos: "0 < uint ?e" using e d False by (simp add: word_less_def)
  have "uint ?e < 2 ^ 31" using e i uint_nonnegative [of ?ws] by linarith
  then have nonneg: "\<not> int_of_u32 ?e < 0" by (simp add: int_of_u32_eq)
  have "rdb_holds (r\<lparr>rdb_bitmask := v128_set_bit (v128_left_shift (rdb_bitmask r) (unat ?e)) 127, window_start := ?ws + ?e\<rparr>) (insert i A)"
    using rdb_add_beyond [OF holds, of ?e] e pos i by simp
  moreover have "?ws \<le> ?ws + ?e" using e i uint_add_lem [of ?ws ?e] pos by (simp add: word_le_def)
  ultimately show ?thesis using False nonneg by (simp add: rdb_add_index_def Let_def)
qed

text \<open>
  The contract of a replay database. A state knows the indices of a set when it holds a superset of
  them or has moved its window past them.
\<close>

definition rdb_knows :: "rdb_t \<Rightarrow> u32 set \<Rightarrow> bool" where
  "rdb_knows r A \<longleftrightarrow> (\<exists>B. A \<subseteq> B \<and> rdb_holds r B \<and> (\<forall>i\<in>B. srtcp_index i))"

lemma rdb_knows_rejects: "rdb_knows r A \<Longrightarrow> i \<in> A \<Longrightarrow> rdb_check r i \<noteq> err_status_ok"
proof -
  assume "rdb_knows r A" and "i \<in> A"
  then obtain B where "i \<in> B" "rdb_holds r B" "srtcp_index i"
    unfolding rdb_knows_def by blast
  then show ?thesis using rdb_check_holds [of r B i] by simp
qed

lemma rdb_knows_add:
  assumes "rdb_knows r A" and "srtcp_index i" and "rdb_check r i = err_status_ok"
  shows "\<exists>r'. rdb_add_index r i = Some r' \<and> rdb_knows r' (insert i A)"
proof -
  from assms(1) obtain B where B: "A \<subseteq> B" "rdb_holds r B" "\<forall>i\<in>B. srtcp_index i"
    by (auto simp: rdb_knows_def)
  have "window_start r \<le> i"
    using rdb_check_holds [OF B(2) assms(2)] assms(3) by (auto split: if_splits)
  with B(2) assms(2) obtain r' where "rdb_add_index r i = Some r'" "rdb_holds r' (insert i B)"
    using rdb_add_index_holds by blast
  with B assms(2) show ?thesis by (auto simp: rdb_knows_def intro!: exI [of _ "insert i B"])
qed

lemma rdb_knows_mono: "rdb_knows r A \<Longrightarrow> C \<subseteq> A \<Longrightarrow> rdb_knows r C"
  by (auto simp: rdb_knows_def)

interpretation rdb: replay_db rdb_init rdb_knows "\<lambda>_. srtcp_index" "\<lambda>_ _. True" "\<lambda>_ _. True" rdb_check rdb_add_index
proof unfold_locales
  show "rdb_knows rdb_init {}" using rdb_init_holds by (auto simp: rdb_knows_def)
next
  fix s A i assume "rdb_knows s A" "srtcp_index i" "rdb_check s i = err_status_ok"
  then show "\<exists>t. rdb_add_index s i = Some t" using rdb_knows_add by blast
next
  fix s A i t assume "rdb_knows s A" "srtcp_index i" "rdb_check s i = err_status_ok" "rdb_add_index s i = Some t"
  then show "rdb_knows t A" using rdb_knows_add rdb_knows_mono by (metis option.inject subset_insertI)
next
  fix s A i t assume "rdb_knows s A" "srtcp_index i" "rdb_check s i = err_status_ok" "rdb_add_index s i = Some t"
  then show "rdb_knows t (insert i A)" using rdb_knows_add by (metis option.inject)
next
  fix s A i assume "rdb_knows s A" "i \<in> A"
  then show "rdb_check s i \<noteq> err_status_ok" by (rule rdb_knows_rejects)
qed

subsection \<open>Properties\<close>

text \<open>
  C11: replay protection of SRTCP. From an initialised database, through any sequence of accepted
  indices, an index that was accepted and added is rejected in every later state; and adding an
  accepted index never faults.
\<close>

theorem rdb_no_replay:
  assumes "replay_steps (\<lambda>_. srtcp_index) rdb_check rdb_add_index rdb_init s"
    and "srtcp_index i" and "rdb_check s i = err_status_ok"
  shows "\<exists>t. rdb_add_index s i = Some t \<and>
    (\<forall>u. replay_steps (\<lambda>_. srtcp_index) rdb_check rdb_add_index t u \<longrightarrow> rdb_check u i \<noteq> err_status_ok)"
proof -
  obtain t where t: "rdb_add_index s i = Some t"
    using rdb.accept_progress [OF assms] by blast
  with rdb.never_again [OF assms _ t _ TrueI] show ?thesis by blast
qed

theorem rdb_no_replay_witness:
  "replay_steps (\<lambda>_. srtcp_index) rdb_check rdb_add_index rdb_init rdb_init \<and>
   (\<exists>t. rdb_add_index rdb_init 5 = Some t \<and>
    (\<forall>u. replay_steps (\<lambda>_. srtcp_index) rdb_check rdb_add_index t u \<longrightarrow> rdb_check u 5 \<noteq> err_status_ok))"
proof -
  have s: "replay_steps (\<lambda>_. srtcp_index) rdb_check rdb_add_index rdb_init rdb_init"
    by (rule replay_steps.start)
  have c: "rdb_check rdb_init 5 = err_status_ok"
    by (simp add: rdb_check_def rdb_init_def v128_get_bit_def)
  show ?thesis using s rdb_no_replay [OF s _ c] by simp
qed

text \<open>
  C12: the SRTCP database is exact. A state that holds the received indices \<open>A\<close> answers
  \<^verbatim>\<open>replay_old\<close> exactly before its window, \<^verbatim>\<open>replay_fail\<close> exactly for the received
  indices of the window, and accepts every other index; adding an accepted index makes it hold one
  index more and never moves the window back. The header \<^verbatim>\<open>rdb.h\<close> documents \<^verbatim>\<open>err_status_fail\<close> for an index
  that appears and \<^verbatim>\<open>err_status_ok\<close> for every other; the code has the two replay statuses instead.
\<close>

theorem rdb_refines_set:
  assumes "rdb_holds r A" and "srtcp_index i"
  shows "rdb_check r i =
      (if i < window_start r then err_status_replay_old
       else if i \<in> A then err_status_replay_fail else err_status_ok) \<and>
    (rdb_check r i = err_status_ok \<longrightarrow>
      (\<exists>r'. rdb_add_index r i = Some r' \<and> rdb_holds r' (insert i A) \<and> window_start r \<le> window_start r'))"
  using rdb_check_holds [OF assms] rdb_add_index_holds [OF assms] by (auto split: if_splits)

theorem rdb_refines_set_witness:
  "rdb_check rdb_init 7 = err_status_ok \<and>
   (\<exists>r'. rdb_add_index rdb_init 7 = Some r' \<and> rdb_holds r' {7} \<and> window_start rdb_init \<le> window_start r')"
proof -
  have i: "srtcp_index 7" by simp
  show ?thesis using rdb_refines_set [OF rdb_init_holds i] by (simp add: rdb_init_def)
qed

text \<open>
  C16: the sender's index. While \<^verbatim>\<open>rdb_increment\<close> succeeds it advances the index by one without
  wrap-around; it fails exactly when the index was already past \<open>0x7fffffff\<close>, so the largest index
  a sender can use after success is \<open>0x80000000\<close>, which does not fit the 31-bit index field.
\<close>

theorem rdb_increment_bounds:
  "(fst (rdb_increment r) = err_status_ok \<longleftrightarrow> uint (window_start r) \<le> 0x7fffffff) \<and>
   (fst (rdb_increment r) = err_status_ok \<longrightarrow>
     uint (rdb_get_value (snd (rdb_increment r))) = uint (rdb_get_value r) + 1) \<and>
   fst (rdb_increment (rdb_init\<lparr>window_start := 0x7fffffff\<rparr>)) = err_status_ok \<and>
   rdb_get_value (snd (rdb_increment (rdb_init\<lparr>window_start := 0x7fffffff\<rparr>))) = 0x80000000"
  by (auto simp: rdb_increment_def rdb_get_value_def Let_def word_less_def uint_word_ariths split: if_splits)

theorem rdb_increment_bounds_witness:
  "uint (rdb_get_value (snd (rdb_increment rdb_init))) = 1"
  using rdb_increment_bounds [of rdb_init] by (simp add: rdb_init_def rdb_get_value_def)

end
