(* ===== verification/Srtp_Stream.thy ===== *)
theory Srtp_Stream
  imports Crypto_Kernel Rdb
begin

text \<open>
  Policies, streams, key derivation and sessions of \<^verbatim>\<open>srtp/srtp.c\<close>: stream allocation, cloning and
  initialisation, the key derivation function, and the list of streams of a session with its
  template. A stream is an object at an address; the linked list of a session is the list of the
  addresses of its streams. \<open>None\<close> is an access to memory that is not allocated.
\<close>

subsection \<open>Policies (include/srtp.h)\<close>

text \<open>The security services are the flags of \<^verbatim>\<open>sec_serv_t\<close>.\<close>

type_synonym sec_serv_t = u32

abbreviation (input) sec_serv_none :: sec_serv_t where "sec_serv_none \<equiv> 0"
abbreviation (input) sec_serv_conf :: sec_serv_t where "sec_serv_conf \<equiv> 1"
abbreviation (input) sec_serv_auth :: sec_serv_t where "sec_serv_auth \<equiv> 2"
abbreviation (input) sec_serv_conf_and_auth :: sec_serv_t where "sec_serv_conf_and_auth \<equiv> 3"

record crypto_policy_t =
  p_cipher_type :: cipher_type_id_t
  p_cipher_key_len :: int
  p_auth_type :: auth_type_id_t
  p_auth_key_len :: int
  p_auth_tag_len :: int
  p_sec_serv :: sec_serv_t

datatype ssrc_type_t = ssrc_undefined | ssrc_specific | ssrc_any_inbound | ssrc_any_outbound

text \<open>
  A policy; the list that \<^verbatim>\<open>next\<close> links is a list of policies. The key is the memory from the key
  pointer on, \<open>None\<close> for the null pointer.
\<close>

record srtp_policy_t =
  ssrc_type :: ssrc_type_t
  ssrc_value :: u32
  policy_rtp :: crypto_policy_t
  policy_rtcp :: crypto_policy_t
  policy_key :: "octets option"

definition crypto_policy_set_rtp_default :: crypto_policy_t where
  "crypto_policy_set_rtp_default = \<lparr>p_cipher_type = AES_128_ICM, p_cipher_key_len = 30,
     p_auth_type = HMAC_SHA1, p_auth_key_len = 20, p_auth_tag_len = 10, p_sec_serv = sec_serv_conf_and_auth\<rparr>"

definition crypto_policy_set_rtcp_default :: crypto_policy_t where
  "crypto_policy_set_rtcp_default = \<lparr>p_cipher_type = AES_128_ICM, p_cipher_key_len = 30,
     p_auth_type = HMAC_SHA1, p_auth_key_len = 20, p_auth_tag_len = 10, p_sec_serv = sec_serv_conf_and_auth\<rparr>"

definition crypto_policy_set_aes_cm_128_hmac_sha1_32 :: crypto_policy_t where
  "crypto_policy_set_aes_cm_128_hmac_sha1_32 = \<lparr>p_cipher_type = AES_128_ICM, p_cipher_key_len = 30,
     p_auth_type = HMAC_SHA1, p_auth_key_len = 20, p_auth_tag_len = 4, p_sec_serv = sec_serv_conf_and_auth\<rparr>"

definition crypto_policy_set_aes_cm_128_null_auth :: crypto_policy_t where
  "crypto_policy_set_aes_cm_128_null_auth = \<lparr>p_cipher_type = AES_128_ICM, p_cipher_key_len = 30,
     p_auth_type = NULL_AUTH, p_auth_key_len = 0, p_auth_tag_len = 0, p_sec_serv = sec_serv_conf\<rparr>"

definition crypto_policy_set_null_cipher_hmac_sha1_80 :: crypto_policy_t where
  "crypto_policy_set_null_cipher_hmac_sha1_80 = \<lparr>p_cipher_type = NULL_CIPHER, p_cipher_key_len = 0,
     p_auth_type = HMAC_SHA1, p_auth_key_len = 20, p_auth_tag_len = 10, p_sec_serv = sec_serv_auth\<rparr>"

datatype srtp_profile_t = srtp_profile_reserved | srtp_profile_aes128_cm_sha1_80 | srtp_profile_aes128_cm_sha1_32
  | srtp_profile_aes256_cm_sha1_80 | srtp_profile_aes256_cm_sha1_32 | srtp_profile_null_sha1_80 | srtp_profile_null_sha1_32

text \<open>\<^verbatim>\<open>crypto_policy_set_aes_cm_128_hmac_sha1_80\<close> is a macro for the default RTP policy.\<close>

definition crypto_policy_set_from_profile_for_rtp :: "crypto_policy_t \<Rightarrow> srtp_profile_t \<Rightarrow> err_status_t \<times> crypto_policy_t" where
  "crypto_policy_set_from_profile_for_rtp policy profile =
     (case profile of
        srtp_profile_aes128_cm_sha1_80 \<Rightarrow> (err_status_ok, crypto_policy_set_rtp_default)
      | srtp_profile_aes128_cm_sha1_32 \<Rightarrow> (err_status_ok, crypto_policy_set_aes_cm_128_hmac_sha1_32)
      | srtp_profile_null_sha1_80 \<Rightarrow> (err_status_ok, crypto_policy_set_null_cipher_hmac_sha1_80)
      | _ \<Rightarrow> (err_status_bad_param, policy))"

definition crypto_policy_set_from_profile_for_rtcp :: "crypto_policy_t \<Rightarrow> srtp_profile_t \<Rightarrow> err_status_t \<times> crypto_policy_t" where
  "crypto_policy_set_from_profile_for_rtcp policy profile =
     (case profile of
        srtp_profile_aes128_cm_sha1_80 \<Rightarrow> (err_status_ok, crypto_policy_set_rtp_default)
      | srtp_profile_aes128_cm_sha1_32 \<Rightarrow> (err_status_ok, crypto_policy_set_aes_cm_128_hmac_sha1_32)
      | srtp_profile_null_sha1_80 \<Rightarrow> (err_status_ok, crypto_policy_set_null_cipher_hmac_sha1_80)
      | _ \<Rightarrow> (err_status_bad_param, policy))"

definition append_salt_to_key :: "octets \<Rightarrow> nat \<Rightarrow> octets \<Rightarrow> nat \<Rightarrow> octets option" where
  "append_salt_to_key key bytes_in_key salt bytes_in_salt =
     (if length salt < bytes_in_salt \<or> length key < bytes_in_key + bytes_in_salt then None
      else Some (write_at bytes_in_key (take bytes_in_salt salt) key))"

definition srtp_profile_get_master_key_length :: "srtp_profile_t \<Rightarrow> nat" where
  "srtp_profile_get_master_key_length profile =
     (case profile of
        srtp_profile_aes128_cm_sha1_80 \<Rightarrow> 16
      | srtp_profile_aes128_cm_sha1_32 \<Rightarrow> 16
      | srtp_profile_null_sha1_80 \<Rightarrow> 16
      | _ \<Rightarrow> 0)"

definition srtp_profile_get_master_salt_length :: "srtp_profile_t \<Rightarrow> nat" where
  "srtp_profile_get_master_salt_length profile =
     (case profile of
        srtp_profile_aes128_cm_sha1_80 \<Rightarrow> 14
      | srtp_profile_aes128_cm_sha1_32 \<Rightarrow> 14
      | srtp_profile_null_sha1_80 \<Rightarrow> 14
      | _ \<Rightarrow> 0)"

subsection \<open>Streams, sessions and the global state\<close>

datatype direction_t = dir_unknown | dir_srtp_sender | dir_srtp_receiver

record srtp_stream_ctx_t =
  ssrc :: u32
  rtp_cipher :: addr
  rtp_auth :: addr
  rtp_rdbx :: rdbx_t
  rtp_services :: sec_serv_t
  rtcp_cipher :: addr
  rtcp_auth :: addr
  rtcp_rdb :: rdb_t
  rtcp_services :: sec_serv_t
  limit :: addr
  direction :: direction_t

record srtp_ctx_t =
  stream_list :: "addr list"
  stream_template :: "addr option"

datatype srtp_event_t = event_ssrc_collision | event_key_soft_limit | event_key_hard_limit | event_packet_index_limit

text \<open>
  The global state: the heap, the kernel, the stream objects, whether an event handler is installed
  and the events it was given, oldest first.
\<close>

record world =
  mem :: heap
  kernel :: crypto_kernel_t
  streams :: "addr \<Rightarrow> srtp_stream_ctx_t option"
  event_handler :: bool
  events :: "(addr \<times> srtp_event_t) list"

definition srtp_install_event_handler :: "world \<Rightarrow> bool \<Rightarrow> err_status_t \<times> world" where
  "srtp_install_event_handler w func = (err_status_ok, w\<lparr>event_handler := func\<rparr>)"

definition srtp_handle_event :: "world \<Rightarrow> addr \<Rightarrow> srtp_event_t \<Rightarrow> world" where
  "srtp_handle_event w strm evnt =
     (if event_handler w then w\<lparr>events := events w @ [(strm, evnt)]\<rparr> else w)"

subsection \<open>Stream allocation\<close>

text \<open>Deallocations on an error path, whose status the code ignores.\<close>

definition free_cipher :: "addr \<Rightarrow> heap \<Rightarrow> heap option" where
  "free_cipher p h = map_option snd (cipher_dealloc h p)"

definition free_auth :: "addr \<Rightarrow> heap \<Rightarrow> heap option" where
  "free_auth p h = map_option snd (auth_dealloc h p)"

definition free_limit :: "addr \<Rightarrow> heap \<Rightarrow> heap option" where
  "free_limit p h = (if limits h p = None then None else Some (h\<lparr>limits := (limits h)(p := None)\<rparr>))"

fun free_all :: "(heap \<Rightarrow> heap option) list \<Rightarrow> heap \<Rightarrow> heap option" where
  "free_all [] h = Some h"
| "free_all (f # fs) h = Option.bind (f h) (free_all fs)"

text \<open>
  The two ciphers, the two authentication functions and the key limit of a new stream. The result
  is the status, the five addresses on success, and the heap.
\<close>

definition alloc_parts ::
  "crypto_kernel_t \<Rightarrow> heap \<Rightarrow> srtp_policy_t \<Rightarrow> (err_status_t \<times> (addr \<times> addr \<times> addr \<times> addr \<times> addr) option \<times> heap) option" where
  "alloc_parts k h p =
     (let rtp = policy_rtp p; rtcp = policy_rtcp p;
          fail = (\<lambda>stat fs h. map_option (\<lambda>h. (stat, None, h)) (free_all fs h)) in
      case crypto_kernel_alloc_cipher k h (p_cipher_type rtp) (p_cipher_key_len rtp) of (stat, c1, h) \<Rightarrow>
      if stat \<noteq> err_status_ok then fail stat [] h else
      case crypto_kernel_alloc_auth k h (p_auth_type rtp) (p_auth_key_len rtp) (p_auth_tag_len rtp) of (stat, a1, h) \<Rightarrow>
      if stat \<noteq> err_status_ok then fail stat [free_cipher (the c1)] h else
      case crypto_alloc h of
        (None, h) \<Rightarrow> fail err_status_alloc_fail [free_auth (the a1), free_cipher (the c1)] h
      | (Some l, h) \<Rightarrow>
      (let h = h\<lparr>limits := (limits h)(l \<mapsto> \<lparr>num_left = 0, key_state = key_state_normal\<rparr>)\<rparr> in
      case crypto_kernel_alloc_cipher k h (p_cipher_type rtcp) (p_cipher_key_len rtcp) of (stat, c2, h) \<Rightarrow>
      if stat \<noteq> err_status_ok then fail stat [free_auth (the a1), free_cipher (the c1), free_limit l] h else
      case crypto_kernel_alloc_auth k h (p_auth_type rtcp) (p_auth_key_len rtcp) (p_auth_tag_len rtcp) of (stat, a2, h) \<Rightarrow>
      if stat \<noteq> err_status_ok
      then fail stat [free_cipher (the c2), free_auth (the a1), free_cipher (the c1), free_limit l] h
      else Some (err_status_ok, Some (the c1, the a1, l, the c2, the a2), h)))"

text \<open>The stream object itself; its fields are set by \<^verbatim>\<open>srtp_stream_init\<close>.\<close>

definition srtp_stream_alloc :: "world \<Rightarrow> srtp_policy_t \<Rightarrow> (err_status_t \<times> addr option \<times> world) option" where
  "srtp_stream_alloc w p =
     (case crypto_alloc (mem w) of
        (None, h) \<Rightarrow> Some (err_status_alloc_fail, None, w\<lparr>mem := h\<rparr>)
      | (Some str, h) \<Rightarrow>
          (case alloc_parts (kernel w) h p of
             None \<Rightarrow> None
           | Some (stat, None, h) \<Rightarrow> Some (stat, None, w\<lparr>mem := h\<rparr>)
           | Some (stat, Some (c1, a1, l, c2, a2), h) \<Rightarrow>
               Some (stat, Some str, w\<lparr>mem := h, streams := (streams w)(str \<mapsto>
                 \<lparr>ssrc = 0, rtp_cipher = c1, rtp_auth = a1, rtp_rdbx = rdbx_init, rtp_services = 0,
                  rtcp_cipher = c2, rtcp_auth = a2, rtcp_rdb = rdb_init, rtcp_services = 0, limit = l,
                  direction = dir_unknown\<rparr>)\<rparr>)))"

text \<open>A field that the stream shares with the template is not deallocated with it.\<close>

definition unless_shared ::
  "world \<Rightarrow> srtp_ctx_t \<Rightarrow> (srtp_stream_ctx_t \<Rightarrow> addr) \<Rightarrow> srtp_stream_ctx_t \<Rightarrow> (addr \<Rightarrow> heap \<Rightarrow> heap option) \<Rightarrow> heap \<Rightarrow> heap option" where
  "unless_shared w session field stream dealloc h =
     (case stream_template session of
        None \<Rightarrow> dealloc (field stream) h
      | Some t \<Rightarrow>
          (case streams w t of
             None \<Rightarrow> None
           | Some tmpl \<Rightarrow> if field stream = field tmpl then Some h else dealloc (field stream) h))"

definition srtp_stream_dealloc :: "world \<Rightarrow> srtp_ctx_t \<Rightarrow> addr \<Rightarrow> (err_status_t \<times> world) option" where
  "srtp_stream_dealloc w session str =
     (case streams w str of
        None \<Rightarrow> None
      | Some stream \<Rightarrow>
          map_option (\<lambda>h. (err_status_ok, w\<lparr>mem := h, streams := (streams w)(str := None)\<rparr>))
            (free_all
              [unless_shared w session rtp_cipher stream free_cipher,
               unless_shared w session rtp_auth stream free_auth,
               unless_shared w session limit stream free_limit,
               unless_shared w session rtcp_cipher stream free_cipher,
               unless_shared w session rtcp_auth stream free_auth] (mem w)))"

definition srtp_stream_clone :: "world \<Rightarrow> addr \<Rightarrow> u32 \<Rightarrow> (err_status_t \<times> addr option \<times> world) option" where
  "srtp_stream_clone w tmpl new_ssrc =
     (case streams w tmpl of
        None \<Rightarrow> None
      | Some t \<Rightarrow>
          (case crypto_alloc (mem w) of
             (None, h) \<Rightarrow> Some (err_status_alloc_fail, None, w\<lparr>mem := h\<rparr>)
           | (Some str, h) \<Rightarrow>
               Some (err_status_ok, Some str, w\<lparr>mem := h, streams := (streams w)(str \<mapsto>
                 \<lparr>ssrc = new_ssrc, rtp_cipher = rtp_cipher t, rtp_auth = rtp_auth t, rtp_rdbx = rdbx_init,
                  rtp_services = rtp_services t, rtcp_cipher = rtcp_cipher t, rtcp_auth = rtcp_auth t,
                  rtcp_rdb = rdb_init, rtcp_services = rtcp_services t, limit = the (snd (key_limit_clone (Some (limit t)) None)),
                  direction = direction t\<rparr>)\<rparr>)))"

subsection \<open>Key derivation\<close>

datatype srtp_prf_label = label_rtp_encryption | label_rtp_msg_auth | label_rtp_salt
  | label_rtcp_encryption | label_rtcp_msg_auth | label_rtcp_salt

fun label_code :: "srtp_prf_label \<Rightarrow> u8" where
  "label_code label_rtp_encryption = 0x00"
| "label_code label_rtp_msg_auth = 0x01"
| "label_code label_rtp_salt = 0x02"
| "label_code label_rtcp_encryption = 0x03"
| "label_code label_rtcp_msg_auth = 0x04"
| "label_code label_rtcp_salt = 0x05"

type_synonym srtp_kdf_t = aes_icm_ctx_t

text \<open>An uninitialised local context.\<close>

definition fresh_kdf :: srtp_kdf_t where
  "fresh_kdf = \<lparr>icm_counter = zero_block, icm_offset = zero_block, keystream_buffer = zero_block,
     icm_expanded_key = replicate 11 zero_block, bytes_in_buffer = 0\<rparr>"

definition srtp_kdf_init :: "srtp_kdf_t \<Rightarrow> octets \<Rightarrow> (err_status_t \<times> srtp_kdf_t) option" where
  "srtp_kdf_init kdf key = map_option (\<lambda>(_, kdf). (err_status_ok, kdf)) (aes_icm_context_init kdf key)"

definition kdf_nonce :: "srtp_prf_label \<Rightarrow> v128_t" where
  "kdf_nonce label = set_v8 (v128_set_to_zero zero_block) 7 (label_code label)"

definition srtp_kdf_generate ::
  "srtp_kdf_t \<Rightarrow> srtp_prf_label \<Rightarrow> octets \<Rightarrow> int \<Rightarrow> (err_status_t \<times> srtp_kdf_t \<times> octets) option" where
  "srtp_kdf_generate kdf label key len =
     map_option (\<lambda>(_, kdf, key). (err_status_ok, kdf, key))
       (aes_icm_output (snd (aes_icm_set_iv kdf (kdf_nonce label))) key len)"

definition srtp_kdf_clear :: "srtp_kdf_t \<Rightarrow> err_status_t \<times> srtp_kdf_t" where
  "srtp_kdf_clear kdf = (err_status_ok, fresh_kdf\<lparr>icm_expanded_key := replicate 11 zero_block\<rparr>)"

text \<open>Key and salt of a cipher, derived into the temporary buffer, and the cipher initialised with it.\<close>

definition init_cipher_key ::
  "srtp_kdf_t \<Rightarrow> srtp_prf_label \<Rightarrow> srtp_prf_label \<Rightarrow> octets \<Rightarrow> cipher_t \<Rightarrow>
     (err_status_t \<times> srtp_kdf_t \<times> octets \<times> cipher_t) option" where
  "init_cipher_key kdf enc_label salt_label tmp_key c =
     Option.bind (srtp_kdf_generate kdf enc_label tmp_key (cipher_get_key_length c)) (\<lambda>(_, kdf, tmp_key).
     Option.bind
       (if ctx_type (cipher_state c) = aes_icm then
          (let salt_len = cipher_get_key_length c - 16
           in map_option (\<lambda>(_, kdf, salt). (kdf, take 16 tmp_key @ salt))
                (srtp_kdf_generate kdf salt_label (drop 16 tmp_key) salt_len))
        else Some (kdf, tmp_key)) (\<lambda>(kdf, tmp_key).
     map_option (\<lambda>(stat, c). (stat, kdf, tmp_key, c)) (cipher_init c tmp_key direction_any)))"

definition init_auth_key ::
  "srtp_kdf_t \<Rightarrow> srtp_prf_label \<Rightarrow> octets \<Rightarrow> auth_t \<Rightarrow> (err_status_t \<times> srtp_kdf_t \<times> octets \<times> auth_t) option" where
  "init_auth_key kdf label tmp_key a =
     Option.bind (srtp_kdf_generate kdf label tmp_key (auth_get_key_length a)) (\<lambda>(_, kdf, tmp_key).
     map_option (\<lambda>(stat, a). (stat, kdf, tmp_key, a)) (auth_init a tmp_key))"

abbreviation (input) MAX_SRTP_KEY_LEN :: nat where "MAX_SRTP_KEY_LEN \<equiv> 256"

definition srtp_stream_init_keys :: "heap \<Rightarrow> srtp_stream_ctx_t \<Rightarrow> octets \<Rightarrow> (err_status_t \<times> heap) option" where
  "srtp_stream_init_keys h srtp key =
     Option.bind (srtp_kdf_init fresh_kdf key) (\<lambda>(_, kdf).
     Option.bind (ciphers h (rtp_cipher srtp)) (\<lambda>c.
     Option.bind (init_cipher_key kdf label_rtp_encryption label_rtp_salt (replicate MAX_SRTP_KEY_LEN 0) c) (\<lambda>(stat, kdf, tmp_key, c).
     let h = h\<lparr>ciphers := (ciphers h)(rtp_cipher srtp \<mapsto> c)\<rparr> in
     if stat \<noteq> err_status_ok then Some (err_status_init_fail, h) else
     Option.bind (auths h (rtp_auth srtp)) (\<lambda>a.
     Option.bind (init_auth_key kdf label_rtp_msg_auth tmp_key a) (\<lambda>(stat, kdf, tmp_key, a).
     let h = h\<lparr>auths := (auths h)(rtp_auth srtp \<mapsto> a)\<rparr> in
     if stat \<noteq> err_status_ok then Some (err_status_init_fail, h) else
     Option.bind (ciphers h (rtcp_cipher srtp)) (\<lambda>c.
     Option.bind (init_cipher_key kdf label_rtcp_encryption label_rtcp_salt tmp_key c) (\<lambda>(stat, kdf, tmp_key, c).
     let h = h\<lparr>ciphers := (ciphers h)(rtcp_cipher srtp \<mapsto> c)\<rparr> in
     if stat \<noteq> err_status_ok then Some (err_status_init_fail, h) else
     Option.bind (auths h (rtcp_auth srtp)) (\<lambda>a.
     Option.bind (init_auth_key kdf label_rtcp_msg_auth tmp_key a) (\<lambda>(stat, kdf, tmp_key, a).
     let h = h\<lparr>auths := (auths h)(rtcp_auth srtp \<mapsto> a)\<rparr> in
     if stat \<noteq> err_status_ok then Some (err_status_init_fail, h)
     else Some (err_status_ok, h))))))))))"

definition srtp_stream_init :: "world \<Rightarrow> addr \<Rightarrow> srtp_policy_t \<Rightarrow> octets \<Rightarrow> (err_status_t \<times> world) option" where
  "srtp_stream_init w str p key =
     Option.bind (streams w str) (\<lambda>srtp.
     Option.bind (limits (mem w) (limit srtp)) (\<lambda>l.
     let h = (mem w)\<lparr>limits := (limits (mem w))(limit srtp \<mapsto> snd (key_limit_set l 0xffffffffffff))\<rparr>;
         srtp = srtp\<lparr>rtp_rdbx := rdbx_init, ssrc := htonl (ssrc_value p),
                     rtp_services := p_sec_serv (policy_rtp p), rtcp_services := p_sec_serv (policy_rtcp p),
                     direction := dir_unknown, rtcp_rdb := rdb_init\<rparr> in
     map_option (\<lambda>(err, h). (err, w\<lparr>mem := h, streams := (streams w)(str \<mapsto> srtp)\<rparr>))
       (srtp_stream_init_keys h srtp key)))"

subsection \<open>Sessions\<close>

text \<open>The walk down the stream list; the inner \<open>None\<close> says that the SSRC was not found.\<close>

fun find_stream :: "world \<Rightarrow> addr list \<Rightarrow> u32 \<Rightarrow> addr option option" where
  "find_stream w [] x = Some None"
| "find_stream w (a # as) x =
     (case streams w a of None \<Rightarrow> None | Some s \<Rightarrow> if ssrc s = x then Some (Some a) else find_stream w as x)"

definition srtp_get_stream :: "world \<Rightarrow> srtp_ctx_t \<Rightarrow> u32 \<Rightarrow> addr option option" where
  "srtp_get_stream w srtp x = find_stream w (stream_list srtp) x"

fun dealloc_streams :: "world \<Rightarrow> srtp_ctx_t \<Rightarrow> addr list \<Rightarrow> world option" where
  "dealloc_streams w session [] = Some w"
| "dealloc_streams w session (a # as) =
     Option.bind (srtp_stream_dealloc w session a) (\<lambda>(_, w). dealloc_streams w session as)"

text \<open>The deallocation functions of all types report success, so no status stops the sequence.\<close>

definition srtp_dealloc :: "world \<Rightarrow> srtp_ctx_t \<Rightarrow> (err_status_t \<times> world) option" where
  "srtp_dealloc w session =
     Option.bind (dealloc_streams w session (stream_list session)) (\<lambda>w.
     case stream_template session of
       None \<Rightarrow> Some (err_status_ok, w)
     | Some t \<Rightarrow>
         Option.bind (streams w t) (\<lambda>tmpl.
         map_option (\<lambda>h. (err_status_ok, w\<lparr>mem := h, streams := (streams w)(t := None)\<rparr>))
           (free_all [free_auth (rtcp_auth tmpl), free_cipher (rtcp_cipher tmpl), free_limit (limit tmpl),
              free_cipher (rtp_cipher tmpl), free_auth (rtp_auth tmpl)] (mem w))))"

definition set_direction :: "direction_t \<Rightarrow> addr \<Rightarrow> world \<Rightarrow> world" where
  "set_direction d a w = w\<lparr>streams := (streams w)(a := map_option (direction_update (\<lambda>_. d)) (streams w a))\<rparr>"

text \<open>A null session or policy is \<open>None\<close>.\<close>

definition srtp_add_stream ::
  "world \<Rightarrow> srtp_ctx_t option \<Rightarrow> srtp_policy_t option \<Rightarrow> (err_status_t \<times> srtp_ctx_t option \<times> world) option" where
  "srtp_add_stream w session policy =
     (case (session, policy, Option.bind policy policy_key) of
        (Some s, Some p, Some key) \<Rightarrow>
          (case srtp_stream_alloc w p of
             None \<Rightarrow> None
           | Some (status, None, w) \<Rightarrow> Some (status, session, w)
           | Some (status, Some tmp, w) \<Rightarrow>
               Option.bind (srtp_stream_init w tmp p key) (\<lambda>(status, w).
               if status \<noteq> err_status_ok then Some (status, session, w\<lparr>streams := (streams w)(tmp := None)\<rparr>)
               else
                 (case ssrc_type p of
                    ssrc_any_outbound \<Rightarrow>
                      (if stream_template s \<noteq> None then Some (err_status_bad_param, session, w)
                       else Some (err_status_ok, Some (s\<lparr>stream_template := Some tmp\<rparr>), set_direction dir_srtp_sender tmp w))
                  | ssrc_any_inbound \<Rightarrow>
                      (if stream_template s \<noteq> None then Some (err_status_bad_param, session, w)
                       else Some (err_status_ok, Some (s\<lparr>stream_template := Some tmp\<rparr>), set_direction dir_srtp_receiver tmp w))
                  | ssrc_specific \<Rightarrow> Some (err_status_ok, Some (s\<lparr>stream_list := tmp # stream_list s\<rparr>), w)
                  | ssrc_undefined \<Rightarrow>
                      Some (err_status_bad_param, session, w\<lparr>streams := (streams w)(tmp := None)\<rparr>))))
      | _ \<Rightarrow> Some (err_status_bad_param, session, w))"

fun add_streams :: "world \<Rightarrow> srtp_ctx_t \<Rightarrow> srtp_policy_t list \<Rightarrow> (err_status_t \<times> srtp_ctx_t option \<times> world) option" where
  "add_streams w ctx [] = Some (err_status_ok, Some ctx, w)"
| "add_streams w ctx (p # ps) =
     (case srtp_add_stream w (Some ctx) (Some p) of
        None \<Rightarrow> None
      | Some (stat, None, w) \<Rightarrow> None
      | Some (stat, Some ctx, w) \<Rightarrow>
          (if stat \<noteq> err_status_ok then map_option (\<lambda>(_, w). (stat, None, w)) (srtp_dealloc w ctx)
           else add_streams w ctx ps))"

text \<open>A session that could not be created is \<open>None\<close>.\<close>

definition srtp_create :: "world \<Rightarrow> srtp_policy_t list \<Rightarrow> (err_status_t \<times> srtp_ctx_t option \<times> world) option" where
  "srtp_create w policy =
     (case crypto_alloc (mem w) of
        (None, h) \<Rightarrow> Some (err_status_alloc_fail, None, w\<lparr>mem := h\<rparr>)
      | (Some _, h) \<Rightarrow> add_streams (w\<lparr>mem := h\<rparr>) \<lparr>stream_list = [], stream_template = None\<rparr> policy)"

text \<open>
  The walk with the trailing pointer, and the unlinking through it: when the stream is the head of
  the list, \<^verbatim>\<open>last_stream\<close> is the stream itself and the head pointer keeps pointing to it.
\<close>

definition unlink :: "addr \<Rightarrow> addr list \<Rightarrow> addr list" where
  "unlink a as = (case as of [] \<Rightarrow> [] | h # t \<Rightarrow> if h = a then h # t else h # remove1 a t)"

definition srtp_remove_stream :: "world \<Rightarrow> srtp_ctx_t option \<Rightarrow> u32 \<Rightarrow> (err_status_t \<times> srtp_ctx_t option \<times> world) option" where
  "srtp_remove_stream w session x =
     (case session of
        None \<Rightarrow> Some (err_status_bad_param, session, w)
      | Some s \<Rightarrow>
          (case find_stream w (stream_list s) x of
             None \<Rightarrow> None
           | Some None \<Rightarrow> Some (err_status_no_ctx, session, w)
           | Some (Some a) \<Rightarrow>
               (let s' = s\<lparr>stream_list := unlink a (stream_list s)\<rparr>
                in map_option (\<lambda>(status, w). (status, Some s', w)) (srtp_stream_dealloc w s' a))))"

end
