(* ===== verification/Srtp_Packet.thy ===== *)
theory Srtp_Packet
  imports Srtp_Stream
begin

text \<open>
  Packet processing of \<^verbatim>\<open>srtp/srtp.c\<close>: \<^verbatim>\<open>srtp_protect\<close>, \<^verbatim>\<open>srtp_unprotect\<close> and their RTCP counterparts.
  The functions read and write one packet buffer in place, change the session's stream list, the
  stream, its cipher, its authentication function and its key limit, and return early on errors.
  Each stage of a function is a definition of its own; a stage either continues with a value, ends
  the function with a status, or faults (\<open>None\<close>) on an access outside the buffers.
\<close>

subsection \<open>Stages\<close>

text \<open>
  The packet is the memory from the header pointer on, with the room behind the packet that the
  caller provides; \<open>pkt_octet_len\<close> is the value behind the length pointer.
\<close>

record pstate =
  session :: srtp_ctx_t
  wld :: world
  packet :: octets
  pkt_octet_len :: int

type_synonym 'a stage = "pstate \<Rightarrow> ((err_status_t + 'a) \<times> pstate) option"

definition continue :: "'a \<Rightarrow> 'a stage" where
  "continue x st = Some (Inr x, st)"

definition stop :: "err_status_t \<Rightarrow> 'a stage" where
  "stop status st = Some (Inl status, st)"

definition seq :: "'a stage \<Rightarrow> ('a \<Rightarrow> 'b stage) \<Rightarrow> 'b stage" where
  "seq m f st =
     (case m st of
        None \<Rightarrow> None
      | Some (Inl status, st) \<Rightarrow> Some (Inl status, st)
      | Some (Inr x, st) \<Rightarrow> f x st)"

definition change :: "(pstate \<Rightarrow> pstate) \<Rightarrow> unit stage" where
  "change f st = Some (Inr (), f st)"

definition finish :: "unit stage \<Rightarrow> pstate \<Rightarrow> (err_status_t \<times> pstate) option" where
  "finish m st = map_option (\<lambda>(r, st). (case r of Inl status \<Rightarrow> status | Inr _ \<Rightarrow> err_status_ok, st)) (m st)"

text \<open>\<^verbatim>\<open>if (status) return e;\<close>\<close>

definition require :: "err_status_t \<Rightarrow> err_status_t \<Rightarrow> unit stage" where
  "require e status = (if status = err_status_ok then continue () else stop e)"

text \<open>Reading an object behind a pointer, and operations on a cipher and an authentication object.\<close>

definition the_stream :: "addr \<Rightarrow> srtp_stream_ctx_t stage" where
  "the_stream a st = map_option (\<lambda>s. (Inr s, st)) (streams (wld st) a)"

definition the_cipher :: "addr \<Rightarrow> cipher_t stage" where
  "the_cipher p st = map_option (\<lambda>c. (Inr c, st)) (ciphers (mem (wld st)) p)"

definition the_auth :: "addr \<Rightarrow> auth_t stage" where
  "the_auth p st = map_option (\<lambda>a. (Inr a, st)) (auths (mem (wld st)) p)"

definition put_stream :: "addr \<Rightarrow> srtp_stream_ctx_t \<Rightarrow> pstate \<Rightarrow> pstate" where
  "put_stream a s st = st\<lparr>wld := (wld st)\<lparr>streams := (streams (wld st))(a \<mapsto> s)\<rparr>\<rparr>"

definition store_cipher :: "addr \<Rightarrow> cipher_t \<Rightarrow> pstate \<Rightarrow> pstate" where
  "store_cipher p c st = st\<lparr>wld := (wld st)\<lparr>mem := (mem (wld st))\<lparr>ciphers := (ciphers (mem (wld st)))(p \<mapsto> c)\<rparr>\<rparr>\<rparr>"

definition store_auth :: "addr \<Rightarrow> auth_t \<Rightarrow> pstate \<Rightarrow> pstate" where
  "store_auth p a st = st\<lparr>wld := (wld st)\<lparr>mem := (mem (wld st))\<lparr>auths := (auths (mem (wld st)))(p \<mapsto> a)\<rparr>\<rparr>\<rparr>"

definition store_limit :: "addr \<Rightarrow> key_limit_ctx_t \<Rightarrow> pstate \<Rightarrow> pstate" where
  "store_limit p l st = st\<lparr>wld := (wld st)\<lparr>mem := (mem (wld st))\<lparr>limits := (limits (mem (wld st)))(p \<mapsto> l)\<rparr>\<rparr>\<rparr>"

text \<open>The packet from an offset on, handed to an operation that works in place.\<close>

definition in_place :: "int \<Rightarrow> (octets \<Rightarrow> ('r \<times> octets) option) \<Rightarrow> octets \<Rightarrow> ('r \<times> octets) option" where
  "in_place off f pkt =
     (if off < 0 then None
      else map_option (map_prod id (\<lambda>buf. take (nat off) pkt @ buf)) (f (drop (nat off) pkt)))"

definition run_cipher_set_iv :: "addr \<Rightarrow> v128_t \<Rightarrow> err_status_t stage" where
  "run_cipher_set_iv p iv =
     seq (the_cipher p) (\<lambda>c.
     let (status, c) = cipher_set_iv c iv in
     seq (change (store_cipher p c)) (\<lambda>_. continue status))"

definition run_cipher_output :: "addr \<Rightarrow> int \<Rightarrow> int \<Rightarrow> err_status_t stage" where
  "run_cipher_output p off n =
     seq (the_cipher p) (\<lambda>c st.
     case in_place off (\<lambda>buf. map_option (\<lambda>(status, c, buf). ((status, c), buf)) (cipher_output c buf n)) (packet st) of
       None \<Rightarrow> None
     | Some ((status, c), pkt) \<Rightarrow> continue status (store_cipher p c (st\<lparr>packet := pkt\<rparr>)))"

definition run_cipher_encrypt :: "addr \<Rightarrow> nat \<Rightarrow> u32 \<Rightarrow> err_status_t stage" where
  "run_cipher_encrypt p off len =
     seq (the_cipher p) (\<lambda>c st.
     case in_place (int off) (\<lambda>buf. map_option (\<lambda>(status, c, buf, _). ((status, c), buf)) (cipher_encrypt c buf len)) (packet st) of
       None \<Rightarrow> None
     | Some ((status, c), pkt) \<Rightarrow> continue status (store_cipher p c (st\<lparr>packet := pkt\<rparr>)))"

text \<open>The first \<open>n\<close> octets of the packet.\<close>

definition read_packet :: "int \<Rightarrow> octets stage" where
  "read_packet n st = (if n < 0 \<or> int (length (packet st)) < n then None else Some (Inr (take (nat n) (packet st)), st))"

text \<open>A write into the packet.\<close>

definition write_packet :: "int \<Rightarrow> octets \<Rightarrow> unit stage" where
  "write_packet off bs st =
     (if off < 0 \<or> int (length (packet st)) < off + int (length bs) then None
      else Some (Inr (), st\<lparr>packet := write_at (nat off) bs (packet st)\<rparr>))"

subsection \<open>Headers\<close>

text \<open>
  The bit fields of \<^verbatim>\<open>srtp_hdr_t\<close> on a little-endian target, and the words of the header as they are
  in memory.
\<close>

definition hdr_cc :: "octets \<Rightarrow> nat" where
  "hdr_cc pkt = unat (pkt ! 0 AND 0x0f)"

definition hdr_x :: "octets \<Rightarrow> u8" where
  "hdr_x pkt = drop_bit 4 (pkt ! 0) AND 1"

definition le16_of :: "u8 \<Rightarrow> u8 \<Rightarrow> u16" where
  "le16_of a b = ucast a OR push_bit 8 (ucast b)"

definition hdr_seq :: "octets \<Rightarrow> u16" where
  "hdr_seq pkt = le16_of (pkt ! 2) (pkt ! 3)"

definition hdr_ssrc :: "octets \<Rightarrow> u32" where
  "hdr_ssrc pkt = le32_of (pkt ! 8) (pkt ! 9) (pkt ! 10) (pkt ! 11)"

definition xtn_hdr_length :: "octets \<Rightarrow> nat \<Rightarrow> u16" where
  "xtn_hdr_length pkt off = le16_of (pkt ! (off + 2)) (pkt ! (off + 3))"

text \<open>Octets 4 to 7 of an RTCP header hold its SSRC.\<close>

definition rtcp_hdr_ssrc :: "octets \<Rightarrow> u32" where
  "rtcp_hdr_ssrc pkt = le32_of (pkt ! 4) (pkt ! 5) (pkt ! 6) (pkt ! 7)"

abbreviation (input) octets_in_rtp_header :: int where "octets_in_rtp_header \<equiv> 12"
abbreviation (input) uint32s_in_rtp_header :: nat where "uint32s_in_rtp_header \<equiv> 3"
abbreviation (input) octets_in_rtcp_header :: int where "octets_in_rtcp_header \<equiv> 8"
abbreviation (input) SRTP_MAX_TAG_LEN :: nat where "SRTP_MAX_TAG_LEN \<equiv> 12"
abbreviation (input) SRTCP_E_BIT :: u32 where "SRTCP_E_BIT \<equiv> 0x80000000"
abbreviation (input) SRTCP_E_BYTE_BIT :: u8 where "SRTCP_E_BYTE_BIT \<equiv> 0x80"
abbreviation (input) SRTCP_INDEX_MASK :: u32 where "SRTCP_INDEX_MASK \<equiv> 0x7fffffff"

definition be64_to_cpu :: "u64 \<Rightarrow> u64" where
  "be64_to_cpu v = ucast (bswap32 (ucast (drop_bit 32 v))) OR push_bit 32 (ucast (bswap32 (ucast v)))"

text \<open>The octets of a 64-bit word in memory.\<close>

definition le64_bytes :: "u64 \<Rightarrow> octets" where
  "le64_bytes w = le32_bytes (ucast w) @ le32_bytes (ucast (drop_bit 32 w))"

text \<open>The octet where the encrypted portion starts; reading the extension header may fault.\<close>

definition rtp_enc_start :: "octets \<Rightarrow> nat option" where
  "rtp_enc_start pkt =
     (let enc_start = 4 * (uint32s_in_rtp_header + hdr_cc pkt) in
      if hdr_x pkt = 1 then
        (if length pkt < enc_start + 4 then None
         else Some (enc_start + 4 * (unat (ntohs (xtn_hdr_length pkt enc_start)) + 1)))
      else Some enc_start)"

definition has_service :: "sec_serv_t \<Rightarrow> sec_serv_t \<Rightarrow> bool" where
  "has_service services flag \<longleftrightarrow> services AND flag \<noteq> 0"

subsection \<open>Stages that several functions share\<close>

text \<open>The packet must hold a full header, which is then read.\<close>

definition check_length :: "unit stage" where
  "check_length st =
     (if pkt_octet_len st < octets_in_rtp_header then stop err_status_bad_param st
      else seq (read_packet octets_in_rtp_header) (\<lambda>_. continue ()) st)"

text \<open>A clone of the template, at the head of the stream list.\<close>

definition add_clone :: "u32 \<Rightarrow> addr \<Rightarrow> addr stage" where
  "add_clone x t st =
     (case srtp_stream_clone (wld st) t x of
        None \<Rightarrow> None
      | Some (status, new_stream, w) \<Rightarrow>
          (if status \<noteq> err_status_ok then stop status (st\<lparr>wld := w\<rparr>)
           else continue (the new_stream)
             (st\<lparr>wld := w, session := (session st)\<lparr>stream_list := the new_stream # stream_list (session st)\<rparr>\<rparr>)))"

text \<open>The stream of an SSRC: \<open>Inl\<close> the stream found, \<open>Inr\<close> the template.\<close>

definition lookup_stream :: "u32 \<Rightarrow> (addr + addr) stage" where
  "lookup_stream x st =
     (case srtp_get_stream (wld st) (session st) x of
        None \<Rightarrow> None
      | Some (Some a) \<Rightarrow> continue (Inl a) st
      | Some None \<Rightarrow>
          (case stream_template (session st) of
             Some t \<Rightarrow> continue (Inr t) st
           | None \<Rightarrow> stop err_status_no_ctx st))"

definition verify_direction :: "direction_t \<Rightarrow> addr \<Rightarrow> unit stage" where
  "verify_direction d a =
     seq (the_stream a) (\<lambda>s.
     if direction s \<noteq> d then
       (if direction s = dir_unknown then change (put_stream a (s\<lparr>direction := d\<rparr>))
        else change (\<lambda>st. st\<lparr>wld := srtp_handle_event (wld st) a event_ssrc_collision\<rparr>))
     else continue ())"

definition charge_key :: "addr \<Rightarrow> unit stage" where
  "charge_key a =
     seq (the_stream a) (\<lambda>s st.
     case limits (mem (wld st)) (limit s) of
       None \<Rightarrow> None
     | Some l \<Rightarrow>
         (let (event, l) = key_limit_update l; st = store_limit (limit s) l st in
          case event of
            key_event_normal \<Rightarrow> continue () st
          | key_event_soft_limit \<Rightarrow> continue () (st\<lparr>wld := srtp_handle_event (wld st) a event_key_soft_limit\<rparr>)
          | key_event_hard_limit \<Rightarrow>
              stop err_status_key_expired (st\<lparr>wld := srtp_handle_event (wld st) a event_key_hard_limit\<rparr>)))"

text \<open>The initialisation vector of a packet index, for counter mode and for other ciphers.\<close>

definition rtp_iv :: "bool \<Rightarrow> u32 \<Rightarrow> xtd_seq_num_t \<Rightarrow> v128_t" where
  "rtp_iv icm x est =
     (if icm then set_v64 (set_v32 (set_v32 zero_block 0 0) 1 x) 1 (be64_to_cpu (push_bit 16 est))
      else set_v64 (set_v64 zero_block 0 0) 1 (be64_to_cpu est))"

definition is_icm :: "cipher_t \<Rightarrow> bool" where
  "is_icm c \<longleftrightarrow> ctx_type (cipher_state c) = aes_icm"

definition rtp_set_iv :: "addr \<Rightarrow> xtd_seq_num_t \<Rightarrow> unit stage" where
  "rtp_set_iv p est =
     seq (the_cipher p) (\<lambda>c st.
     seq (run_cipher_set_iv p (rtp_iv (is_icm c) (hdr_ssrc (packet st)) est)) (require err_status_cipher_fail) st)"

text \<open>The start of the encrypted portion, \<open>None\<close> without confidentiality.\<close>

definition rtp_layout :: "srtp_stream_ctx_t \<Rightarrow> nat option stage" where
  "rtp_layout s st =
     (if has_service (rtp_services s) sec_serv_conf then
        (case rtp_enc_start (packet st) of None \<Rightarrow> None | Some off \<Rightarrow> continue (Some off) st)
      else continue None st)"

definition crypt_payload :: "addr \<Rightarrow> nat option \<Rightarrow> u32 \<Rightarrow> unit stage" where
  "crypt_payload p enc_start enc_octet_len =
     (case enc_start of
        None \<Rightarrow> continue ()
      | Some off \<Rightarrow> seq (run_cipher_encrypt p off enc_octet_len) (require err_status_cipher_fail))"

subsection \<open>srtp_protect\<close>

definition protect_stream :: "addr stage" where
  "protect_stream st =
     seq (lookup_stream (hdr_ssrc (packet st))) (\<lambda>r.
     case r of
       Inl a \<Rightarrow> continue a
     | Inr t \<Rightarrow>
         seq (add_clone (hdr_ssrc (packet st)) t) (\<lambda>a.
         seq (the_stream a) (\<lambda>s.
         seq (change (put_stream a (s\<lparr>direction := dir_srtp_sender\<rparr>))) (\<lambda>_. continue a)))) st"

text \<open>The packet index; an index that was used before ends the function.\<close>

definition protect_index :: "addr \<Rightarrow> xtd_seq_num_t stage" where
  "protect_index a =
     seq (the_stream a) (\<lambda>s st.
     let (est, delta) = rdbx_estimate_index (rtp_rdbx s) (ntohs (hdr_seq (packet st)));
         status = rdbx_check (rtp_rdbx s) delta in
     if status \<noteq> err_status_ok then stop status st
     else
       (case rdbx_add_index (rtp_rdbx s) delta of
          None \<Rightarrow> None
        | Some r \<Rightarrow> continue est (put_stream a (s\<lparr>rtp_rdbx := r\<rparr>) st)))"

definition protect_prefix :: "srtp_stream_ctx_t \<Rightarrow> int \<Rightarrow> unit stage" where
  "protect_prefix s auth_tag =
     seq (the_auth (rtp_auth s)) (\<lambda>au.
     if auth_get_prefix_length au \<noteq> 0
     then seq (run_cipher_output (rtp_cipher s) auth_tag (auth_get_prefix_length au)) (require err_status_cipher_fail)
     else continue ())"

text \<open>The tag over the packet and the first four octets of the shifted index.\<close>

definition protect_tag :: "srtp_stream_ctx_t \<Rightarrow> int \<Rightarrow> octets \<Rightarrow> unit stage" where
  "protect_tag s auth_tag roc =
     seq (the_auth (rtp_auth s)) (\<lambda>au.
     let (status, au) = auth_start au in
     seq (change (store_auth (rtp_auth s) au)) (\<lambda>_.
     seq (require status status) (\<lambda>_.
     seq (read_packet auth_tag) (\<lambda>msg.
     let (status, au) = auth_update au msg in
     seq (change (store_auth (rtp_auth s) au)) (\<lambda>_.
     seq (require status status) (\<lambda>_.
     let (status, au, tag) = auth_compute au roc in
     seq (change (store_auth (rtp_auth s) au)) (\<lambda>_.
     seq (write_packet auth_tag tag) (\<lambda>_.
     require err_status_auth_fail status))))))))"

definition srtp_protect :: "pstate \<Rightarrow> (err_status_t \<times> pstate) option" where
  "srtp_protect st =
     (let len = pkt_octet_len st in
      finish
       (seq check_length (\<lambda>_.
        seq protect_stream (\<lambda>a.
        seq (verify_direction dir_srtp_sender a) (\<lambda>_.
        seq (charge_key a) (\<lambda>_.
        seq (the_stream a) (\<lambda>s.
        seq (the_auth (rtp_auth s)) (\<lambda>au.
        let tag_len = auth_get_tag_length au; authentic = has_service (rtp_services s) sec_serv_auth in
        seq (rtp_layout s) (\<lambda>enc_start.
        seq (protect_index a) (\<lambda>est.
        seq (rtp_set_iv (rtp_cipher s) est) (\<lambda>_.
        seq (if authentic then protect_prefix s len else continue ()) (\<lambda>_.
        seq (crypt_payload (rtp_cipher s) enc_start
              (case enc_start of None \<Rightarrow> 0 | Some off \<Rightarrow> word_of_int (len - int off))) (\<lambda>_.
        if authentic then
          seq (protect_tag s len (take 4 (le64_bytes (be64_to_cpu (push_bit 16 est))))) (\<lambda>_.
          change (\<lambda>st. st\<lparr>pkt_octet_len := len + tag_len\<rparr>))
        else continue ())))))))))))) st)"

subsection \<open>srtp_unprotect\<close>

text \<open>
  The stream, the estimated index and the difference. A packet of an unknown SSRC is processed with
  the template as a provisional stream.
\<close>

definition unprotect_index :: "(addr \<times> xtd_seq_num_t \<times> int) stage" where
  "unprotect_index st =
     (let n = ntohs (hdr_seq (packet st)) in
      seq (lookup_stream (hdr_ssrc (packet st))) (\<lambda>r.
      case r of
        Inr t \<Rightarrow> continue (t, ucast n, uint n)
      | Inl a \<Rightarrow>
          seq (the_stream a) (\<lambda>s.
          let (est, delta) = rdbx_estimate_index (rtp_rdbx s) n; status = rdbx_check (rtp_rdbx s) delta in
          seq (require status status) (\<lambda>_. continue (a, est, delta)))) st)"

text \<open>The keystream prefix in the temporary tag, when the authentication function has one.\<close>

definition unprotect_prefix :: "srtp_stream_ctx_t \<Rightarrow> octets \<Rightarrow> octets stage" where
  "unprotect_prefix s tmp_tag =
     seq (the_auth (rtp_auth s)) (\<lambda>au.
     if prefix_len au \<noteq> 0 then
       seq (the_cipher (rtp_cipher s)) (\<lambda>c.
       case cipher_output c tmp_tag (auth_get_prefix_length au) of
         None \<Rightarrow> (\<lambda>_. None)
       | Some (status, c, tmp_tag) \<Rightarrow>
           seq (change (store_cipher (rtp_cipher s) c)) (\<lambda>_.
           seq (require err_status_cipher_fail status) (\<lambda>_. continue tmp_tag)))
     else continue tmp_tag)"

text \<open>The octets an authentication function writes to the temporary tag; past its end is a fault.\<close>

definition write_tmp :: "octets \<Rightarrow> octets \<Rightarrow> octets stage" where
  "write_tmp tag tmp_tag st = (if length tmp_tag < length tag then None else continue (write_at 0 tag tmp_tag) st)"

text \<open>The comparison of the computed tag with the tag in the packet.\<close>

definition compare_tags :: "octets \<Rightarrow> int \<Rightarrow> int \<Rightarrow> unit stage" where
  "compare_tags tmp_tag auth_tag tag_len st =
     (if auth_tag < 0 then None
      else
        (case octet_string_is_eq tmp_tag (drop (nat auth_tag) (packet st)) (nat tag_len) of
           None \<Rightarrow> None
         | Some differ \<Rightarrow> if differ \<noteq> 0 then stop err_status_auth_fail st else continue () st))"

definition unprotect_tag :: "srtp_stream_ctx_t \<Rightarrow> int \<Rightarrow> int \<Rightarrow> octets \<Rightarrow> octets \<Rightarrow> unit stage" where
  "unprotect_tag s auth_tag tag_len roc tmp_tag =
     seq (unprotect_prefix s tmp_tag) (\<lambda>tmp_tag.
     seq (the_auth (rtp_auth s)) (\<lambda>au.
     let (status, au) = auth_start au in
     seq (change (store_auth (rtp_auth s) au)) (\<lambda>_.
     seq (require status status) (\<lambda>_.
     seq (read_packet auth_tag) (\<lambda>msg.
     let (_, au) = auth_update au msg; (status, au, tag) = auth_compute au roc in
     seq (change (store_auth (rtp_auth s) au)) (\<lambda>_.
     seq (write_tmp tag tmp_tag) (\<lambda>tmp_tag.
     seq (require err_status_auth_fail status) (\<lambda>_.
     compare_tags tmp_tag auth_tag tag_len))))))))"

text \<open>A provisional stream becomes a stream of its own once its first packet has passed.\<close>

definition settle_stream :: "addr \<Rightarrow> (octets \<Rightarrow> u32) \<Rightarrow> addr stage" where
  "settle_stream a hdr st =
     (case stream_template (session st) of
        None \<Rightarrow> continue a st
      | Some t \<Rightarrow> if a = t then add_clone (hdr (packet st)) t st else continue a st)"

definition record_index :: "addr \<Rightarrow> int \<Rightarrow> unit stage" where
  "record_index a delta =
     seq (the_stream a) (\<lambda>s st.
     case rdbx_add_index (rtp_rdbx s) delta of
       None \<Rightarrow> None
     | Some r \<Rightarrow> continue () (put_stream a (s\<lparr>rtp_rdbx := r\<rparr>) st))"

text \<open>\<open>stack\<close> are the octets on the stack that the local array \<^verbatim>\<open>tmp_tag\<close> starts with.\<close>

definition srtp_unprotect :: "(nat \<Rightarrow> u8) \<Rightarrow> pstate \<Rightarrow> (err_status_t \<times> pstate) option" where
  "srtp_unprotect stack st =
     (let len = pkt_octet_len st in
      finish
       (seq check_length (\<lambda>_.
        seq unprotect_index (\<lambda>(a, est, delta).
        seq (the_stream a) (\<lambda>s.
        seq (the_auth (rtp_auth s)) (\<lambda>au.
        let tag_len = auth_get_tag_length au in
        seq (rtp_set_iv (rtp_cipher s) est) (\<lambda>_.
        seq (rtp_layout s) (\<lambda>enc_start.
        seq (if has_service (rtp_services s) sec_serv_auth
             then unprotect_tag s (len - tag_len) tag_len (take 4 (le64_bytes (be64_to_cpu (push_bit 16 est))))
               (map stack [0..<SRTP_MAX_TAG_LEN])
             else continue ()) (\<lambda>_.
        seq (charge_key a) (\<lambda>_.
        seq (crypt_payload (rtp_cipher s) enc_start
              (case enc_start of None \<Rightarrow> 0 | Some off \<Rightarrow> word_of_int (len - tag_len - int off))) (\<lambda>_.
        seq (verify_direction dir_srtp_receiver a) (\<lambda>_.
        seq (settle_stream a hdr_ssrc) (\<lambda>a.
        seq (record_index a delta) (\<lambda>_.
        change (\<lambda>st. st\<lparr>pkt_octet_len := len - tag_len\<rparr>)))))))))))))) st)"

subsection \<open>srtp_protect_rtcp\<close>

text \<open>
  There is no check of the packet length. The pointer arithmetic for the trailer is modulo \<open>2 ^ 32\<close>
  on the target, so the trailer follows the packet whatever its length.
\<close>

definition read_rtcp_header :: "unit stage" where
  "read_rtcp_header = seq (read_packet octets_in_rtcp_header) (\<lambda>_. continue ())"

definition rtcp_stream :: "addr stage" where
  "rtcp_stream st =
     seq (lookup_stream (rtcp_hdr_ssrc (packet st))) (\<lambda>r.
     case r of Inl a \<Rightarrow> continue a | Inr t \<Rightarrow> add_clone (rtcp_hdr_ssrc (packet st)) t) st"

definition rtcp_iv :: "bool \<Rightarrow> u32 \<Rightarrow> u32 \<Rightarrow> v128_t" where
  "rtcp_iv icm x seq_num =
     (if icm then V128 0 x (htonl (drop_bit 16 seq_num)) (htonl (push_bit 16 seq_num))
      else V128 0 0 0 (htonl seq_num))"

definition rtcp_set_iv :: "addr \<Rightarrow> u32 \<Rightarrow> unit stage" where
  "rtcp_set_iv p seq_num =
     seq (the_cipher p) (\<lambda>c st.
     seq (run_cipher_set_iv p (rtcp_iv (is_icm c) (rtcp_hdr_ssrc (packet st)) seq_num)) (require err_status_cipher_fail) st)"

text \<open>The next SRTCP index of the stream.\<close>

definition rtcp_next_index :: "addr \<Rightarrow> u32 stage" where
  "rtcp_next_index a =
     seq (the_stream a) (\<lambda>s.
     let (status, rdb) = rdb_increment (rtcp_rdb s) in
     seq (change (put_stream a (s\<lparr>rtcp_rdb := rdb\<rparr>))) (\<lambda>_.
     seq (require status status) (\<lambda>_.
     continue (rdb_get_value rdb))))"

text \<open>The tag over the packet and its trailer.\<close>

definition rtcp_protect_tag :: "srtp_stream_ctx_t \<Rightarrow> int \<Rightarrow> unit stage" where
  "rtcp_protect_tag s auth_tag =
     seq (the_auth (rtcp_auth s)) (\<lambda>au.
     seq (read_packet auth_tag) (\<lambda>msg.
     let (_, au) = auth_start au; (status, au, tag) = auth_compute au msg in
     seq (change (store_auth (rtcp_auth s) au)) (\<lambda>_.
     seq (write_packet auth_tag tag) (\<lambda>_.
     require err_status_auth_fail status))))"

definition srtp_protect_rtcp :: "pstate \<Rightarrow> (err_status_t \<times> pstate) option" where
  "srtp_protect_rtcp st =
     (let len = pkt_octet_len st in
      finish
       (seq read_rtcp_header (\<lambda>_.
        seq rtcp_stream (\<lambda>a.
        seq (verify_direction dir_srtp_sender a) (\<lambda>_.
        seq (the_stream a) (\<lambda>s.
        seq (the_auth (rtcp_auth s)) (\<lambda>au.
        let tag_len = auth_get_tag_length au; conf = has_service (rtcp_services s) sec_serv_conf;
            e = (if conf then htonl SRTCP_E_BIT else 0) in
        seq (write_packet len (le32_bytes e)) (\<lambda>_.
        seq (rtcp_next_index a) (\<lambda>seq_num.
        seq (write_packet len (le32_bytes (e OR htonl seq_num))) (\<lambda>_.
        seq (rtcp_set_iv (rtcp_cipher s) seq_num) (\<lambda>_.
        seq (run_cipher_output (rtcp_cipher s) (len + 4) (auth_get_prefix_length au)) (\<lambda>status.
        seq (require err_status_cipher_fail status) (\<lambda>_.
        seq (crypt_payload (rtcp_cipher s) (if conf then Some 8 else None) (word_of_int (len - octets_in_rtcp_header))) (\<lambda>_.
        seq (rtcp_protect_tag s (len + 4)) (\<lambda>_.
        change (\<lambda>st. st\<lparr>pkt_octet_len := len + (tag_len + 4)\<rparr>))))))))))))))) st)"

subsection \<open>srtp_unprotect_rtcp\<close>

definition rtcp_found_stream :: "addr stage" where
  "rtcp_found_stream st =
     seq (lookup_stream (rtcp_hdr_ssrc (packet st))) (\<lambda>r. case r of Inl a \<Rightarrow> continue a | Inr t \<Rightarrow> continue t) st"

text \<open>The four octets of the trailer in memory order.\<close>

definition read_trailer :: "int \<Rightarrow> u32 stage" where
  "read_trailer off st =
     (if off < 0 \<or> int (length (packet st)) < off + 4 then None
      else (let n = nat off; p = packet st in
            continue (le32_of (p ! n) (p ! (n + 1)) (p ! (n + 2)) (p ! (n + 3))) st))"

definition rtcp_check_index :: "srtp_stream_ctx_t \<Rightarrow> u32 \<Rightarrow> unit stage" where
  "rtcp_check_index s seq_num = (let status = rdb_check (rtcp_rdb s) seq_num in require status status)"

definition rtcp_unprotect_tag :: "srtp_stream_ctx_t \<Rightarrow> int \<Rightarrow> int \<Rightarrow> octets \<Rightarrow> unit stage" where
  "rtcp_unprotect_tag s auth_tag tag_len tmp_tag =
     seq (the_auth (rtcp_auth s)) (\<lambda>au.
     seq (read_packet auth_tag) (\<lambda>msg.
     let (_, au) = auth_start au; (status, au, tag) = auth_compute au msg in
     seq (change (store_auth (rtcp_auth s) au)) (\<lambda>_.
     seq (write_tmp tag tmp_tag) (\<lambda>tmp_tag.
     seq (require err_status_auth_fail status) (\<lambda>_.
     compare_tags tmp_tag auth_tag tag_len)))))"

definition rtcp_unprotect_prefix :: "srtp_stream_ctx_t \<Rightarrow> int \<Rightarrow> unit stage" where
  "rtcp_unprotect_prefix s auth_tag =
     seq (the_auth (rtcp_auth s)) (\<lambda>au.
     if auth_get_prefix_length au \<noteq> 0
     then seq (run_cipher_output (rtcp_cipher s) auth_tag (auth_get_prefix_length au)) (require err_status_cipher_fail)
     else continue ())"

definition rtcp_record_index :: "addr \<Rightarrow> u32 \<Rightarrow> unit stage" where
  "rtcp_record_index a seq_num =
     seq (the_stream a) (\<lambda>s st.
     case rdb_add_index (rtcp_rdb s) seq_num of
       None \<Rightarrow> None
     | Some r \<Rightarrow> continue () (put_stream a (s\<lparr>rtcp_rdb := r\<rparr>) st))"

definition srtp_unprotect_rtcp :: "(nat \<Rightarrow> u8) \<Rightarrow> pstate \<Rightarrow> (err_status_t \<times> pstate) option" where
  "srtp_unprotect_rtcp stack st =
     (let len = pkt_octet_len st in
      finish
       (seq read_rtcp_header (\<lambda>_.
        seq rtcp_found_stream (\<lambda>a.
        seq (the_stream a) (\<lambda>s.
        seq (the_auth (rtcp_auth s)) (\<lambda>au.
        let tag_len = auth_get_tag_length au in
        seq (read_trailer (len - (tag_len + 4))) (\<lambda>trailer.
        let enc = ((ucast trailer :: u8) AND SRTCP_E_BYTE_BIT \<noteq> 0); seq_num = ntohl trailer AND SRTCP_INDEX_MASK in
        seq (rtcp_check_index s seq_num) (\<lambda>_.
        seq (rtcp_set_iv (rtcp_cipher s) seq_num) (\<lambda>_.
        seq (rtcp_unprotect_tag s (len - tag_len) tag_len (map stack [0..<SRTP_MAX_TAG_LEN])) (\<lambda>_.
        seq (rtcp_unprotect_prefix s (len - tag_len)) (\<lambda>_.
        seq (crypt_payload (rtcp_cipher s) (if enc then Some 8 else None)
              (word_of_int (len - (octets_in_rtcp_header + tag_len + 4)))) (\<lambda>_.
        seq (change (\<lambda>st. st\<lparr>pkt_octet_len := len - (tag_len + 4)\<rparr>)) (\<lambda>_.
        seq (verify_direction dir_srtp_receiver a) (\<lambda>_.
        seq (settle_stream a rtcp_hdr_ssrc) (\<lambda>a.
        rtcp_record_index a seq_num)))))))))))))) st)"

end
