(* ===== verification/Srtp_Refine.thy ===== *)
theory Srtp_Refine
  imports Srtp_Packet
begin

text \<open>
  What packet processing promises, and that the stages implement it: the abstract packet format of
  the protocol over a view of a stream (keys, tag length, services, replay database, key limit), and
  the lemmas that run each stage of \<^verbatim>\<open>srtp_protect\<close> and \<^verbatim>\<open>srtp_unprotect\<close> symbolically.
\<close>

subsection \<open>Running stages\<close>

lemma seq_run [simp]: "m st = Some (Inr x, st') \<Longrightarrow> seq m f st = f x st'"
  by (simp add: seq_def)

lemma seq_stopped: "m st = Some (Inl e, st') \<Longrightarrow> seq m f st = Some (Inl e, st')"
  by (simp add: seq_def)

lemma seq_basic [simp]:
  "seq (continue x) f = f x" "seq (stop e) f = stop e" "seq (change g) f st = f () (g st)"
  by (auto simp: seq_def continue_def stop_def change_def)

lemma finish_run: "m st = Some (Inr (), st') \<Longrightarrow> finish m st = Some (err_status_ok, st')"
  by (simp add: finish_def)

lemma finish_stopped: "m st = Some (Inl e, st') \<Longrightarrow> finish m st = Some (e, st')"
  by (simp add: finish_def)

lemma require_ok [simp]: "require e err_status_ok = continue ()"
  by (simp add: require_def)

lemma the_objects [simp]:
  "streams (wld st) a = Some s \<Longrightarrow> seq (the_stream a) g1 st = g1 s st"
  "ciphers (mem (wld st)) p = Some c \<Longrightarrow> seq (the_cipher p) g2 st = g2 c st"
  "auths (mem (wld st)) p = Some au \<Longrightarrow> seq (the_auth p) g3 st = g3 au st"
  by (simp_all add: the_stream_def the_cipher_def the_auth_def)

definition add_events :: "(addr \<times> srtp_event_t) list \<Rightarrow> pstate \<Rightarrow> pstate" where
  "add_events es st = st\<lparr>wld := (wld st)\<lparr>events := events (wld st) @ es\<rparr>\<rparr>"

lemmas store_defs = put_stream_def store_cipher_def store_auth_def store_limit_def add_events_def

lemma store_packet [simp]:
  "packet (put_stream a s st) = packet st" "packet (store_cipher p c st) = packet st"
  "packet (store_auth p au st) = packet st" "packet (store_limit p l st) = packet st"
  "packet (add_events es st) = packet st"
  "pkt_octet_len (put_stream a s st) = pkt_octet_len st" "pkt_octet_len (store_cipher p c st) = pkt_octet_len st"
  "pkt_octet_len (store_auth p au st) = pkt_octet_len st" "pkt_octet_len (store_limit p l st) = pkt_octet_len st"
  "pkt_octet_len (add_events es st) = pkt_octet_len st"
  "session (put_stream a s st) = session st" "session (store_cipher p c st) = session st"
  "session (store_auth p au st) = session st" "session (store_limit p l st) = session st"
  "session (add_events es st) = session st"
  by (simp_all add: store_defs)

lemma store_streams [simp]:
  "streams (wld (put_stream a s st)) = (streams (wld st))(a \<mapsto> s)" "streams (wld (store_cipher p c st)) = streams (wld st)"
  "streams (wld (store_auth p au st)) = streams (wld st)" "streams (wld (store_limit p l st)) = streams (wld st)"
  "streams (wld (add_events es st)) = streams (wld st)"
  by (simp_all add: store_defs)

lemma store_objects [simp]:
  "ciphers (mem (wld (put_stream a s st))) = ciphers (mem (wld st))"
  "ciphers (mem (wld (store_cipher p c st))) = (ciphers (mem (wld st)))(p \<mapsto> c)"
  "ciphers (mem (wld (store_auth p au st))) = ciphers (mem (wld st))"
  "ciphers (mem (wld (store_limit p l st))) = ciphers (mem (wld st))"
  "ciphers (mem (wld (add_events es st))) = ciphers (mem (wld st))"
  "auths (mem (wld (put_stream a s st))) = auths (mem (wld st))"
  "auths (mem (wld (store_cipher p c st))) = auths (mem (wld st))"
  "auths (mem (wld (store_auth p au st))) = (auths (mem (wld st)))(p \<mapsto> au)"
  "auths (mem (wld (store_limit p l st))) = auths (mem (wld st))"
  "auths (mem (wld (add_events es st))) = auths (mem (wld st))"
  "limits (mem (wld (put_stream a s st))) = limits (mem (wld st))"
  "limits (mem (wld (store_cipher p c st))) = limits (mem (wld st))"
  "limits (mem (wld (store_auth p au st))) = limits (mem (wld st))"
  "limits (mem (wld (store_limit p l st))) = (limits (mem (wld st)))(p \<mapsto> l)"
  "limits (mem (wld (add_events es st))) = limits (mem (wld st))"
  by (simp_all add: store_defs)

lemma store_twice [simp]:
  "store_cipher p c (store_cipher p c' st) = store_cipher p c st"
  "store_auth p au (store_auth p au' st) = store_auth p au st"
  "(store_cipher p c st)\<lparr>packet := pkt\<rparr> = store_cipher p c (st\<lparr>packet := pkt\<rparr>)"
  "(store_auth p au st)\<lparr>packet := pkt\<rparr> = store_auth p au (st\<lparr>packet := pkt\<rparr>)"
  by (simp_all add: store_defs)

subsection \<open>The octets of an index\<close>

text \<open>Four octets of the shifted index are the rollover counter; the vector of counter mode ends in zeros.\<close>

lemma low_word_split:
  "(ucast (ucast a OR push_bit 32 (ucast b) :: u64) :: u32) = (a :: u32)"
  "(ucast (drop_bit 32 (ucast a OR push_bit 32 (ucast b) :: u64)) :: u32) = (b :: u32)"
  by (rule bit_word_eqI; auto simp: bit_simps dest: bit_imp_le_length)+

lemma be64_to_cpu_words:
  "(ucast (be64_to_cpu v) :: u32) = bswap32 (ucast (drop_bit 32 v))"
  "(ucast (drop_bit 32 (be64_to_cpu v)) :: u32) = bswap32 (ucast v)"
  unfolding be64_to_cpu_def low_word_split by (rule refl)+

lemma shifted_high: "(ucast (drop_bit 32 (push_bit 16 (est :: u64))) :: u32) = ucast (drop_bit 16 est)"
  by (rule bit_word_eqI) (auto simp: bit_simps)

lemma roc_octets: "take 4 (le64_bytes (be64_to_cpu (push_bit 16 est))) = be32_bytes (ucast (drop_bit 16 est))"
  by (simp add: le64_bytes_def be64_to_cpu_words shifted_high le32_bytes_bswap32)

lemma rtp_iv_icm: "rtp_iv True x est = V128 0 x (bswap32 (ucast (drop_bit 16 est))) (bswap32 (ucast (push_bit 16 est)))"
  by (simp add: rtp_iv_def set_v64_def zero_block_def be64_to_cpu_words shifted_high)

lemma block_index_bswap:
  assumes "\<forall>n < 16. \<not> bit w n"
  shows "block_index (V128 a b c (bswap32 w)) = 0"
proof -
  have "v128_octets (V128 a b c (bswap32 w)) ! 14 = ucast (drop_bit 8 w)"
      "v128_octets (V128 a b c (bswap32 w)) ! 15 = ucast w"
    by (simp_all add: v128_octets_def le32_bytes_bswap32 nth_append) (simp_all add: be32_bytes_def)
  moreover have "(ucast (drop_bit 8 w) :: u8) = 0" "(ucast w :: u8) = 0"
    using assms by (auto intro!: bit_word_eqI simp: bit_simps)
  ultimately have "uint (block_index (V128 a b c (bswap32 w))) = 0"
    unfolding uint_block_index v8_def by simp
  then show ?thesis by (simp add: uint_0_iff)
qed

lemma rtp_iv_block_index: "block_index (rtp_iv True x est) = 0"
  unfolding rtp_iv_icm by (rule block_index_bswap) (simp add: bit_simps)

lemma rtcp_iv_block_index: "block_index (rtcp_iv True x n) = 0"
  unfolding rtcp_iv_def by (simp add: block_index_bswap bit_simps)

subsection \<open>Running the cipher and the authentication function\<close>

text \<open>A keyed cipher object is positioned by any vector that its key accepts.\<close>

definition accepts_iv :: "stream_key \<Rightarrow> v128_t \<Rightarrow> bool" where
  "accepts_iv k iv \<longleftrightarrow> k = No_Key \<or> block_index iv = 0"

lemma cipher_set_iv_at:
  assumes "cipher_keyed c k" "accepts_iv k iv"
  shows "\<exists>c'. cipher_set_iv c iv = (err_status_ok, c') \<and> cipher_at c' k iv 0"
proof (cases "k = No_Key")
  case True
  with assms(1) show ?thesis
    by (auto simp: cipher_keyed_def cipher_at_def cipher_set_iv_def null_cipher_set_iv_def split: cipher_ctx.splits)
next
  case False
  with assms have "block_index iv = 0" by (simp add: accepts_iv_def)
  from cipher.set_iv_at [OF assms(1) this] show ?thesis by (metis prod.collapse)
qed

lemma is_icm_keyed: "cipher_keyed c k \<Longrightarrow> is_icm c \<longleftrightarrow> k \<noteq> No_Key"
  by (auto simp: is_icm_def cipher_keyed_def split: cipher_ctx.splits stream_key.splits)

lemma rtp_iv_accepted: "accepts_iv k (rtp_iv (k \<noteq> No_Key) x est)"
  using rtp_iv_block_index by (cases "k = No_Key") (simp_all add: accepts_iv_def)

lemma rtcp_iv_accepted: "accepts_iv k (rtcp_iv (k \<noteq> No_Key) x n)"
  using rtcp_iv_block_index by (cases "k = No_Key") (simp_all add: accepts_iv_def)

lemma run_set_iv:
  assumes "ciphers (mem (wld st)) p = Some c" "cipher_keyed c k" "accepts_iv k iv"
  shows "\<exists>c'. run_cipher_set_iv p iv st = Some (Inr err_status_ok, store_cipher p c' st) \<and> cipher_at c' k iv 0"
  using cipher_set_iv_at [OF assms(2,3)] assms(1)
  by (auto simp: run_cipher_set_iv_def continue_def)

lemma run_rtp_set_iv:
  assumes "ciphers (mem (wld st)) p = Some c" "cipher_keyed c k"
  shows "\<exists>c'. rtp_set_iv p est st = Some (Inr (), store_cipher p c' st) \<and>
    cipher_at c' k (rtp_iv (k \<noteq> No_Key) (hdr_ssrc (packet st)) est) 0"
  using run_set_iv [OF assms rtp_iv_accepted [of k "hdr_ssrc (packet st)" est]] assms
  by (auto simp: rtp_set_iv_def is_icm_keyed continue_def)

lemma run_rtcp_set_iv:
  assumes "ciphers (mem (wld st)) p = Some c" "cipher_keyed c k"
  shows "\<exists>c'. rtcp_set_iv p n st = Some (Inr (), store_cipher p c' st) \<and>
    cipher_at c' k (rtcp_iv (k \<noteq> No_Key) (rtcp_hdr_ssrc (packet st)) n) 0"
  using run_set_iv [OF assms rtcp_iv_accepted [of k "rtcp_hdr_ssrc (packet st)" n]] assms
  by (auto simp: rtcp_set_iv_def is_icm_keyed continue_def)

text \<open>The keystream octets from position \<open>pos\<close> on.\<close>

definition ks_from :: "stream_key \<Rightarrow> v128_t \<Rightarrow> nat \<Rightarrow> nat \<Rightarrow> octets" where
  "ks_from k iv pos n = map (\<lambda>i. stream_ks k iv (pos + i)) [0..<n]"

lemma length_ks_from [simp]: "length (ks_from k iv pos n) = n"
  by (simp add: ks_from_def)

lemma unat_word_of_nat_u32: "n \<le> 0xffff \<Longrightarrow> unat (word_of_int (int n) :: u32) = n"
  by (simp add: unat_of_nat)

lemma cipher_encrypt_at:
  assumes "cipher_at c k iv pos" "n \<le> length buf" "pos + n \<le> 0xffff"
  shows "\<exists>c'. cipher_encrypt c buf (word_of_int (int n)) =
      Some (err_status_ok, c', xor_octets (take n buf) (ks_from k iv pos n) @ drop n buf, word_of_int (int n)) \<and>
    cipher_at c' k iv (pos + n)"
proof -
  have u: "unat (word_of_int (int n) :: u32) = n" using assms(3) by (intro unat_word_of_nat_u32) simp
  from cipher.crypt_at [OF assms(1), of "word_of_int (int n)" buf] assms(2,3) obtain c' where
    "cipher_crypt c buf (word_of_int (int n)) =
       Some (err_status_ok, c', xor_octets (take n buf) (ks_from k iv pos n) @ drop n buf)" "cipher_at c' k iv (pos + n)"
    unfolding u ks_from_def by blast
  then show ?thesis
    using cipher_decrypt_eq(2) [OF cipher.at_keyed [OF assms(1)], of buf "word_of_int (int n)"] by simp
qed

lemma cipher_output_at:
  assumes "cipher_at c k iv pos" "0 < n" "n \<le> length buf" "pos + n \<le> 0xffff"
  shows "\<exists>c'. cipher_output c buf (int n) = Some (err_status_ok, c', ks_from k iv pos n @ drop n buf) \<and>
    cipher_at c' k iv (pos + n)"
proof -
  have z: "octet_string_set_to_zero buf (nat (int n)) = Some (replicate n 0 @ drop n buf)"
    using assms(2,3) by (simp add: octet_string_set_to_zero_eq max_def Suc_le_eq)
  have "xor_octets (replicate n 0) (ks_from k iv pos n) = ks_from k iv pos n"
    using xor_octets_zero [of "ks_from k iv pos n"] by simp
  with cipher_encrypt_at [OF assms(1) _ assms(4), of "replicate n 0 @ drop n buf"] show ?thesis
    unfolding cipher_output_def z option.case by auto
qed

text \<open>Encryption in place: the octets from \<open>off\<close> to \<open>off + n\<close> are combined with the keystream.\<close>

definition crypt_at :: "stream_key \<Rightarrow> v128_t \<Rightarrow> nat \<Rightarrow> nat \<Rightarrow> nat \<Rightarrow> octets \<Rightarrow> octets" where
  "crypt_at k iv pos off n pkt = write_at off (xor_octets (slice off n pkt) (ks_from k iv pos n)) pkt"

lemma length_crypt_at [simp]: "off + n \<le> length pkt \<Longrightarrow> length (crypt_at k iv pos off n pkt) = length pkt"
  by (simp add: crypt_at_def length_write_at slice_def)

lemma crypt_at_twice:
  assumes "off + n \<le> length pkt"
  shows "crypt_at k iv pos off n (crypt_at k iv pos off n pkt) = pkt"
proof -
  let ?x = "xor_octets (slice off n pkt) (ks_from k iv pos n)"
  have l: "length ?x = n" using assms by (simp add: slice_def)
  have "slice off n (write_at off ?x pkt) = ?x" using slice_write_at [of off ?x pkt] assms l by simp
  moreover have "xor_octets ?x (ks_from k iv pos n) = slice off n pkt"
    using assms by (intro xor_octets_cancel) (simp add: slice_def)
  ultimately show ?thesis
    using assms l by (simp add: crypt_at_def write_at_write_at length_slice write_at_slice)
qed

lemma run_crypt_payload:
  assumes "ciphers (mem (wld st)) p = Some c" "cipher_at c k iv pos" "off + n \<le> length (packet st)" "pos + n \<le> 0xffff"
  shows "\<exists>c'. crypt_payload p (Some off) (word_of_int (int n)) st =
      Some (Inr (), store_cipher p c' (st\<lparr>packet := crypt_at k iv pos off n (packet st)\<rparr>)) \<and> cipher_at c' k iv (pos + n)"
proof -
  have "n \<le> length (drop off (packet st))" using assms(3) by simp
  from cipher_encrypt_at [OF assms(2) this assms(4)] obtain c' where c':
    "cipher_encrypt c (drop off (packet st)) (word_of_int (int n)) = Some (err_status_ok, c',
       xor_octets (take n (drop off (packet st))) (ks_from k iv pos n) @ drop n (drop off (packet st)), word_of_int (int n))"
    "cipher_at c' k iv (pos + n)" by blast
  have "take off (packet st) @ xor_octets (take n (drop off (packet st))) (ks_from k iv pos n) @ drop n (drop off (packet st)) =
      crypt_at k iv pos off n (packet st)"
    using assms(3) by (simp add: crypt_at_def write_at_def slice_def add.commute)
  with c' assms(1) show ?thesis
    by (auto simp: crypt_payload_def run_cipher_encrypt_def in_place_def seq_def the_cipher_def continue_def require_def)
qed

lemma run_output:
  assumes "ciphers (mem (wld st)) p = Some c" "cipher_at c k iv pos" "0 < n" "off + n \<le> length (packet st)" "pos + n \<le> 0xffff"
  shows "\<exists>c'. run_cipher_output p (int off) (int n) st =
      Some (Inr err_status_ok, store_cipher p c' (st\<lparr>packet := write_at off (ks_from k iv pos n) (packet st)\<rparr>)) \<and>
    cipher_at c' k iv (pos + n)"
proof -
  have "n \<le> length (drop off (packet st))" using assms(4) by simp
  from cipher_output_at [OF assms(2,3) this assms(5)] obtain c' where
    "cipher_output c (drop off (packet st)) (int n) = Some (err_status_ok, c', ks_from k iv pos n @ drop n (drop off (packet st)))"
    "cipher_at c' k iv (pos + n)" by blast
  with assms(1) show ?thesis
    by (auto simp: run_cipher_output_def in_place_def seq_def the_cipher_def continue_def write_at_def add.commute)
qed

lemma length_auth_mac [simp]: "length (auth_mac (Some key) m) = 20"
  by (simp add: hmac_sha1_def)

lemma auth_run:
  assumes "auth_keyed au k" "length x + length y < 2 ^ 29 - 64" "out_len au \<le> 20"
  shows "\<exists>a1 a2 au'. auth_start au = (err_status_ok, a1) \<and> auth_update a1 x = (err_status_ok, a2) \<and>
    auth_compute a2 y = (err_status_ok, au', take (nat (out_len au)) (auth_mac k (x @ y))) \<and>
    auth_keyed au' k \<and> out_len au' = out_len au \<and> prefix_len au' = prefix_len au"
proof -
  from auth.start_holds [OF assms(1)] have "fst (auth_start au) = err_status_ok" "auth_holds (snd (auth_start au)) k []"
    by blast+
  moreover from auth.update_holds [OF this(2)] have "fst (auth_update (snd (auth_start au)) x) = err_status_ok" by blast
  moreover have "length (x @ y) < 2 ^ 29 - 64" using assms(2) by simp
  ultimately show ?thesis using auth_two_pieces [OF assms(1) _ assms(3), of x y] by (metis prod.collapse)
qed

text \<open>The tag of a message, written at the end of the message.\<close>

lemma read_packet_ok: "n \<le> length (packet st) \<Longrightarrow> read_packet (int n) st = Some (Inr (take n (packet st)), st)"
  by (simp add: read_packet_def)

lemma write_packet_ok:
  "n + length bs \<le> length (packet st) \<Longrightarrow>
     write_packet (int n) bs st = Some (Inr (), st\<lparr>packet := write_at n bs (packet st)\<rparr>)"
  by (simp add: write_packet_def)

lemma run_protect_tag:
  assumes "auths (mem (wld st)) (rtp_auth s) = Some au" "auth_keyed au k" "out_len au \<le> 20"
    and "n \<le> length (packet st)" and "n + length roc < 2 ^ 29 - 64"
    and tag: "tag = take (nat (out_len au)) (auth_mac k (take n (packet st) @ roc))" "n + length tag \<le> length (packet st)"
  shows "\<exists>au'. protect_tag s (int n) roc st =
      Some (Inr (), store_auth (rtp_auth s) au' (st\<lparr>packet := write_at n tag (packet st)\<rparr>)) \<and>
    auth_keyed au' k \<and> out_len au' = out_len au \<and> prefix_len au' = prefix_len au"
proof -
  have "length (take n (packet st)) + length roc < 2 ^ 29 - 64" using assms(4,5) by simp
  from auth_run [OF assms(2) this assms(3)] obtain a1 a2 au' where
    "auth_start au = (err_status_ok, a1)" "auth_update a1 (take n (packet st)) = (err_status_ok, a2)"
    "auth_compute a2 roc = (err_status_ok, au', tag)"
    "auth_keyed au' k" "out_len au' = out_len au" "prefix_len au' = prefix_len au"
    unfolding tag by blast
  then show ?thesis
    using assms(1,4,7) by (auto simp: protect_tag_def read_packet_ok write_packet_ok continue_def)
qed

subsection \<open>The view of a stream and the packet format\<close>

text \<open>
  What a stream is to its users: its SSRC, the keys of its cipher and its authentication function,
  its tag length, its security services, its replay database and its key limit. A stream with the
  null authentication function uses a keystream prefix of the length of the tag.
\<close>

record stream_view =
  v_ssrc :: u32
  v_ckey :: stream_key
  v_akey :: "octets option"
  v_tag_len :: nat
  v_services :: sec_serv_t
  v_rdbx :: rdbx_t
  v_limit :: key_limit_ctx_t

definition has_view :: "world \<Rightarrow> addr \<Rightarrow> stream_view \<Rightarrow> bool" where
  "has_view w a v \<longleftrightarrow>
     (\<exists>s c au. streams w a = Some s \<and> ssrc s = v_ssrc v \<and> rtp_services s = v_services v \<and> rtp_rdbx s = v_rdbx v \<and>
        ciphers (mem w) (rtp_cipher s) = Some c \<and> cipher_keyed c (v_ckey v) \<and>
        auths (mem w) (rtp_auth s) = Some au \<and> auth_keyed au (v_akey v) \<and> out_len au = int (v_tag_len v) \<and>
        prefix_len au = (if v_akey v = None then int (v_tag_len v) else 0) \<and>
        limits (mem w) (limit s) = Some (v_limit v))"

definition v_conf :: "stream_view \<Rightarrow> bool" where
  "v_conf v \<longleftrightarrow> has_service (v_services v) sec_serv_conf"

definition v_auth :: "stream_view \<Rightarrow> bool" where
  "v_auth v \<longleftrightarrow> has_service (v_services v) sec_serv_auth"

definition v_prefix :: "stream_view \<Rightarrow> nat" where
  "v_prefix v = (if v_auth v \<and> v_akey v = None then v_tag_len v else 0)"

definition v_iv :: "stream_view \<Rightarrow> xtd_seq_num_t \<Rightarrow> v128_t" where
  "v_iv v i = rtp_iv (v_ckey v \<noteq> No_Key) (v_ssrc v) i"

text \<open>
  The format of a protected packet: the header in clear, the rest encrypted under the packet index,
  and the tag of the packet and the rollover counter.
\<close>

definition rtp_body :: "stream_view \<Rightarrow> xtd_seq_num_t \<Rightarrow> nat \<Rightarrow> octets \<Rightarrow> octets" where
  "rtp_body v i start msg =
     (if v_conf v then crypt_at (v_ckey v) (v_iv v i) (v_prefix v) start (length msg - start) msg else msg)"

definition rtp_tag :: "stream_view \<Rightarrow> xtd_seq_num_t \<Rightarrow> octets \<Rightarrow> octets" where
  "rtp_tag v i body =
     (if v_auth v then
        (case v_akey v of
           None \<Rightarrow> ks_from (v_ckey v) (v_iv v i) 0 (v_tag_len v)
         | Some key \<Rightarrow> take (v_tag_len v) (hmac_sha1 key (body @ be32_bytes (ucast (drop_bit 16 i)))))
      else [])"

definition rtp_packet :: "stream_view \<Rightarrow> xtd_seq_num_t \<Rightarrow> nat \<Rightarrow> octets \<Rightarrow> octets" where
  "rtp_packet v i start msg = (let body = rtp_body v i start msg in body @ rtp_tag v i body)"

text \<open>
  A message for a stream: a full header with the stream's SSRC, a payload start inside of the
  message, and a length that the keystream of one packet covers.
\<close>

definition rtp_message :: "stream_view \<Rightarrow> nat \<Rightarrow> octets \<Rightarrow> bool" where
  "rtp_message v start msg \<longleftrightarrow>
     12 \<le> length msg \<and> length msg \<le> 65500 \<and> hdr_ssrc msg = v_ssrc v \<and>
     rtp_enc_start msg = Some start \<and> start \<le> length msg \<and> v_tag_len v \<le> 12"

definition v_overhead :: "stream_view \<Rightarrow> nat" where
  "v_overhead v = (if v_auth v then v_tag_len v else 0)"

lemma length_rtp_body [simp]: "start \<le> length msg \<Longrightarrow> length (rtp_body v i start msg) = length msg"
  by (simp add: rtp_body_def)

lemma length_rtp_tag: "v_tag_len v \<le> 12 \<Longrightarrow> length (rtp_tag v i b) = v_overhead v"
  by (simp add: rtp_tag_def v_overhead_def split: option.splits)

lemma length_rtp_packet:
  "rtp_message v start msg \<Longrightarrow> length (rtp_packet v i start msg) = length msg + v_overhead v"
  by (simp add: rtp_packet_def rtp_message_def Let_def length_rtp_tag)

lemma write_at_end: "write_at (length a) bs (a @ r) = a @ bs @ drop (length bs) r"
  by (simp add: write_at_def)

lemma crypt_at_append:
  "off + n \<le> length a \<Longrightarrow> crypt_at k iv pos off n (a @ r) = crypt_at k iv pos off n a @ r"
  by (simp add: crypt_at_def write_at_def slice_def)

text \<open>The header decides the layout.\<close>

lemma hdr_append:
  "12 \<le> length a \<Longrightarrow> hdr_ssrc (a @ r) = hdr_ssrc a" "12 \<le> length a \<Longrightarrow> hdr_seq (a @ r) = hdr_seq a"
  "12 \<le> length a \<Longrightarrow> hdr_cc (a @ r) = hdr_cc a" "12 \<le> length a \<Longrightarrow> hdr_x (a @ r) = hdr_x a"
  by (auto simp: hdr_ssrc_def hdr_seq_def hdr_cc_def hdr_x_def nth_append)

lemma hdr_cong:
  assumes "take 12 a = take 12 b" "12 \<le> length a" "12 \<le> length b"
  shows "hdr_ssrc a = hdr_ssrc b" "hdr_seq a = hdr_seq b" "hdr_cc a = hdr_cc b" "hdr_x a = hdr_x b"
proof -
  have "a = take 12 b @ drop 12 a" by (metis assms(1) append_take_drop_id)
  moreover have "hdr_ssrc (take 12 b @ r) = hdr_ssrc (take 12 b @ drop 12 b)" "hdr_seq (take 12 b @ r) = hdr_seq (take 12 b @ drop 12 b)"
      "hdr_cc (take 12 b @ r) = hdr_cc (take 12 b @ drop 12 b)" "hdr_x (take 12 b @ r) = hdr_x (take 12 b @ drop 12 b)" for r
    using assms(3) by (simp_all only: hdr_append length_take min.absorb2)
  ultimately show "hdr_ssrc a = hdr_ssrc b" "hdr_seq a = hdr_seq b" "hdr_cc a = hdr_cc b" "hdr_x a = hdr_x b"
    by (metis append_take_drop_id)+
qed

lemma enc_start_cong:
  assumes "rtp_enc_start a = Some n" "take n a = take n b" "n \<le> length a" "n \<le> length b"
  shows "rtp_enc_start b = Some n"
proof -
  let ?e = "4 * (3 + hdr_cc a)"
  have e: "?e \<le> n" "12 \<le> n" using assms(1) by (auto simp: rtp_enc_start_def Let_def split: if_splits)
  then have "take 12 a = take 12 b" using assms(2) by (metis min.absorb1 take_take)
  with e assms(3,4) have h: "hdr_cc b = hdr_cc a" "hdr_x b = hdr_x a" using hdr_cong [of a b] by simp_all
  have "xtn_hdr_length b ?e = xtn_hdr_length a ?e" if "?e + 4 \<le> n"
  proof -
    have "a ! i = b ! i" if "i < n" for i using assms(2) that by (metis nth_take)
    with that show ?thesis by (simp add: xtn_hdr_length_def)
  qed
  with assms h e show ?thesis by (auto simp: rtp_enc_start_def Let_def split: if_splits)
qed

subsection \<open>Running srtp_protect\<close>

lemma store_same:
  "ciphers (mem (wld st)) p = Some c \<Longrightarrow> store_cipher p c st = st"
  "auths (mem (wld st)) p = Some au \<Longrightarrow> store_auth p au st = st"
  "streams (wld st) a = Some s \<Longrightarrow> put_stream a s st = st"
  by (simp_all add: store_defs fun_upd_idem)

lemma write_at_nil [simp]: "write_at n [] buf = buf"
  by (simp add: write_at_def)

lemma add_no_events [simp]: "add_events [] st = st"
  by (simp add: add_events_def)

lemma event_effect: "\<exists>es. st\<lparr>wld := srtp_handle_event (wld st) a e\<rparr> = add_events es st"
  by (auto simp: srtp_handle_event_def add_events_def intro: exI [of _ "[]"])

lemma run_verify_direction:
  assumes s: "streams (wld st) a = Some s"
  shows "\<exists>d' es. verify_direction d a st = Some (Inr (), add_events es (put_stream a (s\<lparr>direction := d'\<rparr>) st))"
proof -
  have same: "put_stream a (s\<lparr>direction := direction s\<rparr>) st = st" using s by (simp add: store_same)
  obtain es where es: "st\<lparr>wld := srtp_handle_event (wld st) a event_ssrc_collision\<rparr> = add_events es st"
    using event_effect by blast
  consider "direction s = d" | "direction s \<noteq> d" "direction s = dir_unknown" | "direction s \<noteq> d" "direction s \<noteq> dir_unknown"
    by blast
  then show ?thesis
  proof cases
    case 1
    then have "verify_direction d a st = Some (Inr (), add_events [] (put_stream a (s\<lparr>direction := direction s\<rparr>) st))"
      using s same by (simp add: verify_direction_def continue_def)
    then show ?thesis by blast
  next
    case 2
    then have "verify_direction d a st = Some (Inr (), add_events [] (put_stream a (s\<lparr>direction := d\<rparr>) st))"
      using s by (simp add: verify_direction_def change_def)
    then show ?thesis by blast
  next
    case 3
    then have "verify_direction d a st = Some (Inr (), add_events es (put_stream a (s\<lparr>direction := direction s\<rparr>) st))"
      using s same es by (simp add: verify_direction_def change_def)
    then show ?thesis by blast
  qed
qed

lemma run_charge_key:
  assumes "streams (wld st) a = Some s" "limits (mem (wld st)) (limit s) = Some l"
    and "fst (key_limit_update l) \<noteq> key_event_hard_limit"
  shows "\<exists>es. charge_key a st = Some (Inr (), add_events es (store_limit (limit s) (snd (key_limit_update l)) st))"
proof -
  let ?st = "store_limit (limit s) (snd (key_limit_update l)) st"
  obtain es where es: "?st\<lparr>wld := srtp_handle_event (wld ?st) a event_key_soft_limit\<rparr> = add_events es ?st"
    using event_effect by blast
  show ?thesis
  proof (cases "fst (key_limit_update l)")
    case key_event_normal
    then have "charge_key a st = Some (Inr (), add_events [] ?st)"
      using assms(1,2) by (simp add: charge_key_def continue_def case_prod_unfold Let_def)
    then show ?thesis by blast
  next
    case key_event_soft_limit
    then have "charge_key a st = Some (Inr (), add_events es ?st)"
      using assms(1,2) es by (simp add: charge_key_def continue_def case_prod_unfold Let_def)
    then show ?thesis by blast
  qed (use assms(3) in simp)
qed

lemma run_check_length:
  "12 \<le> pkt_octet_len st \<Longrightarrow> 12 \<le> length (packet st) \<Longrightarrow> check_length st = Some (Inr (), st)"
  using read_packet_ok [of 12 st] by (simp add: check_length_def continue_def)

lemma run_protect_stream:
  "srtp_get_stream (wld st) (session st) (hdr_ssrc (packet st)) = Some (Some a) \<Longrightarrow> protect_stream st = Some (Inr a, st)"
  by (simp add: protect_stream_def lookup_stream_def seq_def continue_def)

lemma run_layout:
  "rtp_enc_start (packet st) = Some start \<Longrightarrow>
     rtp_layout s st = Some (Inr (if has_service (rtp_services s) sec_serv_conf then Some start else None), st)"
  by (simp add: rtp_layout_def continue_def)

lemma run_protect_index:
  assumes "streams (wld st) a = Some s" "rdbx_estimate_index (rtp_rdbx s) (ntohs (hdr_seq (packet st))) = (i, d)"
    "rdbx_check (rtp_rdbx s) d = err_status_ok" "rdbx_add_index (rtp_rdbx s) d = Some r"
  shows "protect_index a st = Some (Inr i, put_stream a (s\<lparr>rtp_rdbx := r\<rparr>) st)"
  using assms by (simp add: protect_index_def continue_def)

lemma run_protect_prefix:
  assumes "ciphers (mem (wld st)) (rtp_cipher s) = Some c" "cipher_at c k iv 0"
    and "auths (mem (wld st)) (rtp_auth s) = Some au" "prefix_len au = int p" "off + p \<le> length (packet st)" "p \<le> 0xffff"
  shows "\<exists>c'. protect_prefix s (int off) st =
      Some (Inr (), store_cipher (rtp_cipher s) c' (st\<lparr>packet := write_at off (ks_from k iv 0 p) (packet st)\<rparr>)) \<and> cipher_at c' k iv p"
proof (cases "p = 0")
  case True
  then show ?thesis
    using assms by (auto simp: protect_prefix_def auth_get_prefix_length_def continue_def store_same ks_from_def intro!: exI [of _ c])
next
  case False
  then show ?thesis
    using assms run_output [OF assms(1,2), of p off]
    by (auto simp: protect_prefix_def auth_get_prefix_length_def continue_def)
qed

text \<open>The prefix, the payload and the tag, with the services that are off left out.\<close>

lemma run_optional_prefix:
  assumes "ciphers (mem (wld st)) (rtp_cipher s) = Some c" "cipher_at c k iv 0"
    and "auths (mem (wld st)) (rtp_auth s) = Some au" "authentic \<Longrightarrow> prefix_len au = int p" "\<not> authentic \<Longrightarrow> p = 0"
    and "off + p \<le> length (packet st)" "p \<le> 0xffff"
  shows "\<exists>c'. (if authentic then protect_prefix s (int off) else continue ()) st =
      Some (Inr (), store_cipher (rtp_cipher s) c' (st\<lparr>packet := write_at off (ks_from k iv 0 p) (packet st)\<rparr>)) \<and> cipher_at c' k iv p"
proof (cases authentic)
  case True
  then show ?thesis using run_protect_prefix [OF assms(1-3)] assms by simp
next
  case False
  then show ?thesis using assms by (auto simp: continue_def store_same ks_from_def intro!: exI [of _ c])
qed

lemma run_optional_payload:
  assumes "ciphers (mem (wld st)) p = Some c" "cipher_at c k iv pos" "off + n \<le> length (packet st)" "pos + n \<le> 0xffff"
  shows "\<exists>c'. crypt_payload p (if conf then Some off else None) (if conf then word_of_int (int n) else 0) st =
      Some (Inr (), store_cipher p c' (st\<lparr>packet := (if conf then crypt_at k iv pos off n (packet st) else packet st)\<rparr>)) \<and>
    cipher_keyed c' k"
proof (cases conf)
  case True
  then show ?thesis using run_crypt_payload [OF assms] cipher.at_keyed by fastforce
next
  case False
  then show ?thesis
    using assms(1) cipher.at_keyed [OF assms(2)] by (auto simp: crypt_payload_def continue_def store_same intro!: exI [of _ c])
qed

lemma v_tag_parts:
  assumes "v_tag_len v \<le> 12"
  shows "rtp_tag v i b =
    (if v_auth v then take (v_tag_len v) (auth_mac (v_akey v) (b @ be32_bytes (ucast (drop_bit 16 i)))) @
       drop (length (take (v_tag_len v) (auth_mac (v_akey v) (b @ be32_bytes (ucast (drop_bit 16 i))))))
         (ks_from (v_ckey v) (v_iv v i) 0 (v_prefix v)) else [])"
  using assms by (simp add: rtp_tag_def v_prefix_def ks_from_def split: option.splits)

lemma find_stream_cong:
  assumes "\<And>b. map_option ssrc (streams w b) = map_option ssrc (streams w' b)"
  shows "find_stream w as x = find_stream w' as x"
proof (induction as)
  case (Cons b as)
  then show ?case using assms [of b] by (cases "streams w b"; cases "streams w' b") auto
qed simp

lemma find_stream_ssrc: "find_stream w as x = Some (Some a) \<Longrightarrow> \<exists>s. streams w a = Some s \<and> ssrc s = x"
  by (induction as) (auto split: option.splits if_splits)

text \<open>A packet that a stream accepts for sending: its index, the difference and the updated database.\<close>

definition send_index :: "stream_view \<Rightarrow> octets \<Rightarrow> xtd_seq_num_t \<Rightarrow> int \<Rightarrow> rdbx_t \<Rightarrow> bool" where
  "send_index v msg i d r \<longleftrightarrow>
     rdbx_estimate_index (v_rdbx v) (ntohs (hdr_seq msg)) = (i, d) \<and>
     rdbx_check (v_rdbx v) d = err_status_ok \<and> rdbx_add_index (v_rdbx v) d = Some r"

definition key_usable :: "stream_view \<Rightarrow> bool" where
  "key_usable v \<longleftrightarrow> fst (key_limit_update (v_limit v)) \<noteq> key_event_hard_limit"

text \<open>The view after a packet.\<close>

definition after_packet :: "stream_view \<Rightarrow> rdbx_t \<Rightarrow> stream_view" where
  "after_packet v r = v\<lparr>v_rdbx := r, v_limit := snd (key_limit_update (v_limit v))\<rparr>"

text \<open>The effect of a packet on the rest of the state: the session and the SSRCs stay.\<close>

definition same_session :: "pstate \<Rightarrow> pstate \<Rightarrow> bool" where
  "same_session st st' \<longleftrightarrow> session st' = session st \<and>
     (\<forall>b. map_option ssrc (streams (wld st') b) = map_option ssrc (streams (wld st) b))"

lemma same_session_get: "same_session st st' \<Longrightarrow> srtp_get_stream (wld st') (session st') x = srtp_get_stream (wld st) (session st) x"
  unfolding srtp_get_stream_def same_session_def by (metis find_stream_cong)

text \<open>From the vector to the tag, in a state whose packet is a message with room behind it.\<close>

lemma run_protect_crypto:
  assumes c: "ciphers (mem (wld st)) (rtp_cipher s) = Some c" "cipher_keyed c (v_ckey v)"
    and au: "auths (mem (wld st)) (rtp_auth s) = Some au" "auth_keyed au (v_akey v)" "out_len au = int (v_tag_len v)"
      "prefix_len au = (if v_akey v = None then int (v_tag_len v) else 0)"
    and pkt: "packet st = msg @ room" and msg: "rtp_message v start msg" and room: "v_overhead v \<le> length room"
  defines "n \<equiv> length msg"
  shows "\<exists>st1 st2 st3 c' au'. rtp_set_iv (rtp_cipher s) i st = Some (Inr (), st1) \<and>
    (if v_auth v then protect_prefix s (int n) else continue ()) st1 = Some (Inr (), st2) \<and>
    crypt_payload (rtp_cipher s) (if v_conf v then Some start else None) (if v_conf v then word_of_int (int (n - start)) else 0) st2 = Some (Inr (), st3) \<and>
    (if v_auth v then protect_tag s (int n) (be32_bytes (ucast (drop_bit 16 i))) else continue ()) st3 =
      Some (Inr (), store_auth (rtp_auth s) au' (store_cipher (rtp_cipher s) c'
        (st\<lparr>packet := rtp_packet v i start msg @ drop (v_overhead v) room\<rparr>))) \<and>
    cipher_keyed c' (v_ckey v) \<and> auth_keyed au' (v_akey v) \<and> out_len au' = out_len au \<and> prefix_len au' = prefix_len au"
proof -
  note m = msg [unfolded rtp_message_def]
  let ?k = "v_ckey v" let ?iv = "v_iv v i" let ?p = "v_prefix v" let ?pay = "n - start" let ?q = "rtp_cipher s"
  let ?roc = "be32_bytes (ucast (drop_bit 16 i))" let ?b = "rtp_body v i start msg"
  from run_rtp_set_iv [OF c, of i] obtain c1 where
    1: "rtp_set_iv ?q i st = Some (Inr (), store_cipher ?q c1 st)" and c1: "cipher_at c1 ?k ?iv 0"
    using pkt m by (auto simp: hdr_append v_iv_def)
  have p: "v_auth v \<Longrightarrow> prefix_len au = int ?p" "\<not> v_auth v \<Longrightarrow> ?p = 0" "?p \<le> v_overhead v" "?p \<le> 12"
    using m au(4) by (simp_all add: v_prefix_def v_overhead_def)
  have "\<exists>c'. (if v_auth v then protect_prefix s (int n) else continue ()) (store_cipher ?q c1 st) =
      Some (Inr (), store_cipher ?q c' ((store_cipher ?q c1 st)\<lparr>packet := write_at n (ks_from ?k ?iv 0 ?p) (packet (store_cipher ?q c1 st))\<rparr>)) \<and>
    cipher_at c' ?k ?iv ?p"
    using c1 au p pkt room by (intro run_optional_prefix) (auto simp: n_def)
  then obtain c2 where 2: "(if v_auth v then protect_prefix s (int n) else continue ()) (store_cipher ?q c1 st) =
      Some (Inr (), store_cipher ?q c2 (st\<lparr>packet := msg @ ks_from ?k ?iv 0 ?p @ drop ?p room\<rparr>))"
    and c2: "cipher_at c2 ?k ?iv ?p" unfolding n_def by (auto simp: pkt write_at_end)
  define st2 where st2: "st2 = store_cipher ?q c2 (st\<lparr>packet := msg @ ks_from ?k ?iv 0 ?p @ drop ?p room\<rparr>)"
  have "?p + ?pay \<le> 0xffff" using m p unfolding n_def by linarith
  then have "\<exists>c3. crypt_payload ?q (if v_conf v then Some start else None) (if v_conf v then word_of_int (int ?pay) else 0) st2 =
      Some (Inr (), store_cipher ?q c3 (st2\<lparr>packet := (if v_conf v then crypt_at ?k ?iv ?p start ?pay (packet st2) else packet st2)\<rparr>)) \<and>
    cipher_keyed c3 ?k"
    using c2 m by (intro run_optional_payload) (auto simp: st2 n_def)
  moreover have "(if v_conf v then crypt_at ?k ?iv ?p start ?pay (packet st2) else packet st2) = ?b @ ks_from ?k ?iv 0 ?p @ drop ?p room"
    using m by (simp add: st2 n_def rtp_body_def crypt_at_append)
  ultimately obtain c3 where 3: "crypt_payload ?q (if v_conf v then Some start else None) (if v_conf v then word_of_int (int ?pay) else 0) st2 =
      Some (Inr (), store_cipher ?q c3 (st2\<lparr>packet := ?b @ ks_from ?k ?iv 0 ?p @ drop ?p room\<rparr>))"
    and c3: "cipher_keyed c3 ?k" by auto
  define st3 where st3: "st3 = store_cipher ?q c3 (st2\<lparr>packet := ?b @ ks_from ?k ?iv 0 ?p @ drop ?p room\<rparr>)"
  have "\<exists>au'. (if v_auth v then protect_tag s (int n) ?roc else continue ()) st3 =
      Some (Inr (), store_auth (rtp_auth s) au' (st3\<lparr>packet := rtp_packet v i start msg @ drop (v_overhead v) room\<rparr>)) \<and>
    auth_keyed au' (v_akey v) \<and> out_len au' = out_len au \<and> prefix_len au' = prefix_len au"
  proof (cases "v_auth v")
    case True
    let ?tag = "take (v_tag_len v) (auth_mac (v_akey v) (?b @ ?roc))"
    have len: "length ?b = n" "length ?tag \<le> v_tag_len v" "v_overhead v = v_tag_len v" "length (ks_from ?k ?iv 0 ?p @ drop ?p room) = length room"
      using m True p room by (simp_all add: n_def v_overhead_def)
    have "write_at n ?tag (?b @ ks_from ?k ?iv 0 ?p @ drop ?p room) = rtp_packet v i start msg @ drop (v_overhead v) room"
      using len True m by (cases "v_akey v") (auto simp: rtp_packet_def Let_def v_tag_parts write_at_def v_prefix_def)
    moreover have "\<exists>au'. protect_tag s (int n) ?roc st3 =
        Some (Inr (), store_auth (rtp_auth s) au' (st3\<lparr>packet := write_at n ?tag (packet st3)\<rparr>)) \<and>
      auth_keyed au' (v_akey v) \<and> out_len au' = out_len au \<and> prefix_len au' = prefix_len au"
      using au m len room by (intro run_protect_tag) (auto simp: st2 st3 n_def)
    ultimately show ?thesis using True by (auto simp: st3)
  next
    case False
    with p au show ?thesis by (auto simp: st2 st3 continue_def store_same rtp_packet_def Let_def rtp_tag_def v_overhead_def ks_from_def intro!: exI [of _ au])
  qed
  with 1 2 3 c3 show ?thesis unfolding st2 st3 by fastforce
qed

lemma enc_start_append: "rtp_enc_start msg = Some start \<Longrightarrow> start \<le> length msg \<Longrightarrow> rtp_enc_start (msg @ r) = Some start"
  by (erule enc_start_cong) simp_all

text \<open>Up to the index: the direction, the key limit, the layout and the replay database.\<close>

lemma run_protect_head:
  assumes s: "streams (wld st) a = Some s" "rtp_services s = v_services v" "rtp_rdbx s = v_rdbx v" "limits (mem (wld st)) (limit s) = Some (v_limit v)"
    and pkt: "packet st = msg @ room" and msg: "rtp_message v start msg" and idx: "send_index v msg i d r" and key: "key_usable v"
  shows "\<exists>d' es st1 st2 st3. verify_direction dir_srtp_sender a st = Some (Inr (), st1) \<and> charge_key a st1 = Some (Inr (), st2) \<and>
    streams (wld st2) a = Some (s\<lparr>direction := d'\<rparr>) \<and> auths (mem (wld st2)) = auths (mem (wld st)) \<and>
    rtp_layout (s\<lparr>direction := d'\<rparr>) st2 = Some (Inr (if v_conf v then Some start else None), st2) \<and>
    protect_index a st2 = Some (Inr i, st3) \<and>
    st3 = add_events es (put_stream a (s\<lparr>direction := d', rtp_rdbx := r\<rparr>) (store_limit (limit s) (snd (key_limit_update (v_limit v))) st))"
proof -
  obtain d' es where 1: "verify_direction dir_srtp_sender a st = Some (Inr (), add_events es (put_stream a (s\<lparr>direction := d'\<rparr>) st))"
    using run_verify_direction [OF s(1)] by blast
  define s1 st1 where d1: "s1 = s\<lparr>direction := d'\<rparr>" "st1 = add_events es (put_stream a s1 st)"
  obtain es' where 2: "charge_key a st1 = Some (Inr (), add_events es' (store_limit (limit s) (snd (key_limit_update (v_limit v))) st1))"
    using run_charge_key [of st1 a s1 "v_limit v"] s key by (auto simp: d1 key_usable_def)
  define st2 where d2: "st2 = add_events es' (store_limit (limit s) (snd (key_limit_update (v_limit v))) st1)"
  have 3: "protect_index a st2 = Some (Inr i, put_stream a (s1\<lparr>rtp_rdbx := r\<rparr>) st2)"
    using idx s msg pkt by (intro run_protect_index [where d = d]) (auto simp: d1 d2 send_index_def hdr_append rtp_message_def)
  have 4: "rtp_layout s1 st2 = Some (Inr (if v_conf v then Some start else None), st2)"
    using run_layout [of st2 start s1] msg pkt s by (simp add: enc_start_append d1 d2 rtp_message_def v_conf_def)
  have "put_stream a (s1\<lparr>rtp_rdbx := r\<rparr>) st2 =
      add_events (es @ es') (put_stream a (s\<lparr>direction := d', rtp_rdbx := r\<rparr>) (store_limit (limit s) (snd (key_limit_update (v_limit v))) st))"
    by (simp add: d1 d2 store_defs)
  moreover have "streams (wld st2) a = Some s1" "auths (mem (wld st2)) = auths (mem (wld st))" by (simp_all add: d1 d2)
  ultimately show ?thesis using 1 2 3 4 unfolding d1(2) [symmetric] d2 [symmetric] d1(1) [symmetric]
    by (intro exI [of _ d'] exI [of _ "es @ es'"] exI [of _ st1] exI [of _ st2] exI [of _ "put_stream a (s1\<lparr>rtp_rdbx := r\<rparr>) st2"])
      (simp add: d1(1))
qed

lemma srtp_protect_run:
  assumes view: "has_view (wld st) a v" and get: "srtp_get_stream (wld st) (session st) (v_ssrc v) = Some (Some a)"
    and pkt: "packet st = msg @ room" "pkt_octet_len st = int (length msg)" and msg: "rtp_message v start msg"
    and room: "v_overhead v \<le> length room" and idx: "send_index v msg i d r" and key: "key_usable v"
  shows "\<exists>st'. srtp_protect st = Some (err_status_ok, st') \<and>
    packet st' = rtp_packet v i start msg @ drop (v_overhead v) room \<and>
    pkt_octet_len st' = int (length (rtp_packet v i start msg)) \<and>
    has_view (wld st') a (after_packet v r) \<and> same_session st st'"
proof -
  note m = msg [unfolded rtp_message_def]
  obtain s c au where s: "streams (wld st) a = Some s" "ssrc s = v_ssrc v" "rtp_services s = v_services v" "rtp_rdbx s = v_rdbx v"
      and c: "ciphers (mem (wld st)) (rtp_cipher s) = Some c" "cipher_keyed c (v_ckey v)"
      and au: "auths (mem (wld st)) (rtp_auth s) = Some au" "auth_keyed au (v_akey v)" "out_len au = int (v_tag_len v)"
        "prefix_len au = (if v_akey v = None then int (v_tag_len v) else 0)"
      and l: "limits (mem (wld st)) (limit s) = Some (v_limit v)"
    using view by (auto simp: has_view_def)
  define enc el where e: "enc = (if v_conf v then Some start else None)" "el = (if v_conf v then word_of_int (int (length msg - start)) else 0 :: u32)"
  obtain d' es st1 st2 st3 where 1: "verify_direction dir_srtp_sender a st = Some (Inr (), st1)" "charge_key a st1 = Some (Inr (), st2)"
      "streams (wld st2) a = Some (s\<lparr>direction := d'\<rparr>)" "auths (mem (wld st2)) = auths (mem (wld st))"
      "rtp_layout (s\<lparr>direction := d'\<rparr>) st2 = Some (Inr enc, st2)" "protect_index a st2 = Some (Inr i, st3)"
    and d3: "st3 = add_events es (put_stream a (s\<lparr>direction := d', rtp_rdbx := r\<rparr>) (store_limit (limit s) (snd (key_limit_update (v_limit v))) st))"
    unfolding e using run_protect_head [OF s(1,3,4) l pkt(1) msg idx key] by blast
  define s1 where d1: "s1 = s\<lparr>direction := d'\<rparr>"
  have "\<exists>st4 st5 st6 c' au'. rtp_set_iv (rtp_cipher s1) i st3 = Some (Inr (), st4) \<and>
    (if v_auth v then protect_prefix s1 (int (length msg)) else continue ()) st4 = Some (Inr (), st5) \<and>
    crypt_payload (rtp_cipher s1) enc el st5 = Some (Inr (), st6) \<and>
    (if v_auth v then protect_tag s1 (int (length msg)) (be32_bytes (ucast (drop_bit 16 i))) else continue ()) st6 =
      Some (Inr (), store_auth (rtp_auth s1) au' (store_cipher (rtp_cipher s1) c'
        (st3\<lparr>packet := rtp_packet v i start msg @ drop (v_overhead v) room\<rparr>))) \<and>
    cipher_keyed c' (v_ckey v) \<and> auth_keyed au' (v_akey v) \<and> out_len au' = out_len au \<and> prefix_len au' = prefix_len au"
    unfolding e using c au msg room pkt by (intro run_protect_crypto) (simp_all add: d1 d3)
  then obtain st4 st5 st6 st7 c' au' where 2: "rtp_set_iv (rtp_cipher s1) i st3 = Some (Inr (), st4)"
      "(if v_auth v then protect_prefix s1 (int (length msg)) else continue ()) st4 = Some (Inr (), st5)"
      "crypt_payload (rtp_cipher s1) enc el st5 = Some (Inr (), st6)"
      "(if v_auth v then protect_tag s1 (int (length msg)) (be32_bytes (ucast (drop_bit 16 i))) else continue ()) st6 = Some (Inr (), st7)"
    and d7: "st7 = store_auth (rtp_auth s1) au' (store_cipher (rtp_cipher s1) c' (st3\<lparr>packet := rtp_packet v i start msg @ drop (v_overhead v) room\<rparr>))"
    and keyed: "cipher_keyed c' (v_ckey v)" "auth_keyed au' (v_akey v)" "out_len au' = out_len au" "prefix_len au' = prefix_len au"
    by blast
  let ?st' = "st7\<lparr>pkt_octet_len := int (length (rtp_packet v i start msg))\<rparr>"
  have svc: "has_service (rtp_services s1) sec_serv_conf = v_conf v" "has_service (rtp_services s1) sec_serv_auth = v_auth v"
    using s by (simp_all add: d1 v_conf_def v_auth_def)
  have len: "(case enc of None \<Rightarrow> 0 | Some off \<Rightarrow> word_of_int (pkt_octet_len st - int off)) = el"
    using m pkt(2) by (simp add: e of_nat_diff)
  have same: "st7\<lparr>pkt_octet_len := int (length msg)\<rparr> = st7" using pkt by (simp add: d3 d7 store_defs)
  have "check_length st = Some (Inr (), st)" "protect_stream st = Some (Inr a, st)"
    using run_check_length [of st] run_protect_stream [of st a] pkt m get by (simp_all add: hdr_append)
  then have "srtp_protect st = Some (err_status_ok, ?st')"
    using 1 2 svc len same pkt(2) au(1) length_rtp_packet [OF msg, of i] unfolding srtp_protect_def Let_def roc_octets d1 [symmetric]
    by (cases "v_auth v") (simp_all add: d1 finish_def auth_get_tag_length_def au(3) v_overhead_def change_def continue_def)
  moreover have "has_view (wld ?st') a (after_packet v r)"
    using s keyed au by (auto simp: has_view_def after_packet_def d1 d3 d7)
  moreover have "same_session st ?st'" "packet ?st' = rtp_packet v i start msg @ drop (v_overhead v) room"
    using s by (auto simp: same_session_def d1 d3 d7)
  ultimately show ?thesis by auto
qed

subsection \<open>Running srtp_unprotect\<close>

lemma run_unprotect_index:
  assumes "srtp_get_stream (wld st) (session st) (hdr_ssrc (packet st)) = Some (Some a)" "streams (wld st) a = Some s"
    and "rdbx_estimate_index (rtp_rdbx s) (ntohs (hdr_seq (packet st))) = (i, d)" "rdbx_check (rtp_rdbx s) d = err_status_ok"
  shows "unprotect_index st = Some (Inr (a, i, d), st)"
  using assms by (simp add: unprotect_index_def lookup_stream_def seq_def the_stream_def continue_def require_def)

lemma run_unprotect_prefix:
  assumes "ciphers (mem (wld st)) (rtp_cipher s) = Some c" "cipher_at c k iv 0"
    and "auths (mem (wld st)) (rtp_auth s) = Some au" "prefix_len au = int p" "p \<le> length tmp" "p \<le> 0xffff"
  shows "\<exists>c'. unprotect_prefix s tmp st = Some (Inr (ks_from k iv 0 p @ drop p tmp), store_cipher (rtp_cipher s) c' st) \<and>
    cipher_at c' k iv p"
proof (cases "p = 0")
  case True
  then show ?thesis
    using assms by (auto simp: unprotect_prefix_def continue_def store_same ks_from_def intro!: exI [of _ c])
next
  case False
  then have "0 < p" by simp
  with cipher_output_at [OF assms(2) this assms(5)] assms show ?thesis
    by (auto simp: unprotect_prefix_def auth_get_prefix_length_def continue_def)
qed

text \<open>The comparison decides exactly by the octets of the packet at the tag.\<close>

lemma run_compare_tags:
  assumes "m \<le> length tmp" "n + m \<le> length (packet st)"
  shows "compare_tags tmp (int n) (int m) st =
    Some (if take m tmp = slice n m (packet st) then Inr () else Inl err_status_auth_fail, st)"
  using assms octet_string_is_eq_take [of m tmp "drop n (packet st)"]
  by (simp add: compare_tags_def slice_def stop_def continue_def)

lemma run_unprotect_tag:
  assumes c: "ciphers (mem (wld st)) (rtp_cipher s) = Some c" "cipher_at c (v_ckey v) (v_iv v i) 0"
    and au: "auths (mem (wld st)) (rtp_auth s) = Some au" "auth_keyed au (v_akey v)" "out_len au = int (v_tag_len v)"
      "prefix_len au = (if v_akey v = None then int (v_tag_len v) else 0)"
    and v: "v_auth v" "v_tag_len v \<le> 12"
    and n: "n + v_tag_len v \<le> length (packet st)" "n \<le> 65500"
  shows "\<exists>c' au'. unprotect_tag s (int n) (int (v_tag_len v)) (be32_bytes (ucast (drop_bit 16 i))) (map stack [0..<12]) st =
      Some (if slice n (v_tag_len v) (packet st) = rtp_tag v i (take n (packet st)) then Inr () else Inl err_status_auth_fail,
        store_auth (rtp_auth s) au' (store_cipher (rtp_cipher s) c' st)) \<and>
    cipher_at c' (v_ckey v) (v_iv v i) (v_prefix v) \<and>
    auth_keyed au' (v_akey v) \<and> out_len au' = out_len au \<and> prefix_len au' = prefix_len au"
proof -
  let ?p = "v_prefix v" let ?roc = "be32_bytes (ucast (drop_bit 16 i))" let ?x = "take n (packet st)"
  let ?ks = "ks_from (v_ckey v) (v_iv v i) 0 ?p" let ?t = "take (v_tag_len v) (auth_mac (v_akey v) (?x @ ?roc))"
  define tmp where "tmp = map stack [0..<12]"
  have tmp: "length tmp = 12" by (simp add: tmp_def)
  have p: "prefix_len au = int ?p" "?p \<le> length tmp" "?p \<le> 0xffff" "?p \<le> v_tag_len v"
    using v au(4) tmp by (simp_all add: v_prefix_def)
  obtain c' where 1: "unprotect_prefix s tmp st = Some (Inr (?ks @ drop ?p tmp), store_cipher (rtp_cipher s) c' st)"
    and c': "cipher_at c' (v_ckey v) (v_iv v i) ?p"
    using run_unprotect_prefix [OF c au(1) p(1-3)] by blast
  have "length ?x + length ?roc < 2 ^ 29 - 64" "out_len au \<le> 20" using n v au(3) by simp_all
  from auth_run [OF au(2) this] obtain a1 a2 au' where
    2: "auth_start au = (err_status_ok, a1)" "auth_update a1 ?x = (err_status_ok, a2)"
      "auth_compute a2 ?roc = (err_status_ok, au', ?t)"
    and au': "auth_keyed au' (v_akey v)" "out_len au' = out_len au" "prefix_len au' = prefix_len au"
    unfolding au(3) nat_int by blast
  have t: "length ?t \<le> length (?ks @ drop ?p tmp)" using v tmp p by simp
  have full: "take (v_tag_len v) (write_at 0 ?t (?ks @ drop ?p tmp)) = rtp_tag v i ?x" "v_tag_len v \<le> length (write_at 0 ?t (?ks @ drop ?p tmp))"
    using v tmp p by (cases "v_akey v"; simp add: v_tag_parts write_at_def v_prefix_def)+
  let ?st = "store_auth (rtp_auth s) au' (store_cipher (rtp_cipher s) c' st)"
  have "compare_tags (write_at 0 ?t (?ks @ drop ?p tmp)) (int n) (int (v_tag_len v)) ?st =
      Some (if slice n (v_tag_len v) (packet st) = rtp_tag v i ?x then Inr () else Inl err_status_auth_fail, ?st)"
    using run_compare_tags [OF full(2), of n ?st] n(1) full(1) by auto
  moreover have "write_tmp ?t (?ks @ drop ?p tmp) ?st = Some (Inr (write_at 0 ?t (?ks @ drop ?p tmp)), ?st)"
    unfolding write_tmp_def continue_def by (simp only: leD [OF t] if_False)
  ultimately show ?thesis
    using 1 2 c' au' au(1) n unfolding tmp_def [symmetric]
    by (auto simp: unprotect_tag_def read_packet_ok continue_def)
qed

lemma run_unprotect_crypto:
  assumes c: "ciphers (mem (wld st)) (rtp_cipher s) = Some c" "cipher_keyed c (v_ckey v)"
    and au: "auths (mem (wld st)) (rtp_auth s) = Some au" "auth_keyed au (v_akey v)" "out_len au = int (v_tag_len v)"
      "prefix_len au = (if v_akey v = None then int (v_tag_len v) else 0)"
    and v: "v_tag_len v \<le> 12" "hdr_ssrc (packet st) = v_ssrc v"
    and n: "n + v_tag_len v \<le> length (packet st)" "n \<le> 65500"
  shows "\<exists>c1 c' au'. rtp_set_iv (rtp_cipher s) i st = Some (Inr (), store_cipher (rtp_cipher s) c1 st) \<and>
    (if v_auth v then unprotect_tag s (int n) (int (v_tag_len v)) (be32_bytes (ucast (drop_bit 16 i))) (map stack [0..<12])
     else continue ()) (store_cipher (rtp_cipher s) c1 st) =
      Some (if v_auth v \<and> slice n (v_tag_len v) (packet st) \<noteq> rtp_tag v i (take n (packet st))
              then Inl err_status_auth_fail else Inr (),
        store_auth (rtp_auth s) au' (store_cipher (rtp_cipher s) c' st)) \<and>
    cipher_at c' (v_ckey v) (v_iv v i) (v_prefix v) \<and>
    auth_keyed au' (v_akey v) \<and> out_len au' = out_len au \<and> prefix_len au' = prefix_len au"
proof -
  from run_rtp_set_iv [OF c, of i] obtain c1 where
    1: "rtp_set_iv (rtp_cipher s) i st = Some (Inr (), store_cipher (rtp_cipher s) c1 st)" and c1: "cipher_at c1 (v_ckey v) (v_iv v i) 0"
    using v(2) by (auto simp: v_iv_def)
  show ?thesis
  proof (cases "v_auth v")
    case True
    let ?st = "store_cipher (rtp_cipher s) c1 st"
    have "ciphers (mem (wld ?st)) (rtp_cipher s) = Some c1" "auths (mem (wld ?st)) (rtp_auth s) = Some au" "n + v_tag_len v \<le> length (packet ?st)"
      using au n by simp_all
    from run_unprotect_tag [OF this(1) c1 this(2) au(2-4) True v(1) this(3) n(2), of stack]
    obtain c' au' where "unprotect_tag s (int n) (int (v_tag_len v)) (be32_bytes (ucast (drop_bit 16 i))) (map stack [0..<12]) ?st =
      Some (if slice n (v_tag_len v) (packet st) = rtp_tag v i (take n (packet st)) then Inr () else Inl err_status_auth_fail,
        store_auth (rtp_auth s) au' (store_cipher (rtp_cipher s) c' st))"
      "cipher_at c' (v_ckey v) (v_iv v i) (v_prefix v)" "auth_keyed au' (v_akey v)" "out_len au' = out_len au" "prefix_len au' = prefix_len au"
      by auto
    with 1 True show ?thesis by (intro exI [of _ c1] exI [of _ c'] exI [of _ au']) simp
  next
    case False
    then have "(if v_auth v then unprotect_tag s (int n) (int (v_tag_len v)) (be32_bytes (ucast (drop_bit 16 i))) (map stack [0..<12])
     else continue ()) (store_cipher (rtp_cipher s) c1 st) = Some (Inr (), store_auth (rtp_auth s) au (store_cipher (rtp_cipher s) c1 st))"
      "v_prefix v = 0"
      using au(1) by (simp_all add: continue_def store_same v_prefix_def)
    with False 1 c1 au(2) show ?thesis by (intro exI [of _ c1] exI [of _ au]) simp
  qed
qed

lemma take_rtp_body: "start \<le> length msg \<Longrightarrow> take start (rtp_body v i start msg) = take start msg"
  by (simp add: rtp_body_def crypt_at_def take_write_at slice_def)

lemma rtp_body_twice: "start \<le> length msg \<Longrightarrow> rtp_body v i start (rtp_body v i start msg) = msg"
  by (simp add: rtp_body_def crypt_at_twice)

lemma enc_start_ge: "rtp_enc_start a = Some n \<Longrightarrow> 12 \<le> n"
  by (auto simp: rtp_enc_start_def Let_def split: if_splits)

text \<open>A protected packet has the header and the layout of its message.\<close>

lemma rtp_packet_header:
  assumes "rtp_message v start msg"
  shows "hdr_ssrc (rtp_packet v i start msg @ r) = v_ssrc v" "hdr_seq (rtp_packet v i start msg @ r) = hdr_seq msg"
    "rtp_enc_start (rtp_packet v i start msg @ r) = Some start"
proof -
  note m = assms [unfolded rtp_message_def]
  let ?a = "rtp_packet v i start msg @ r"
  have p: "take start ?a = take start msg" "start \<le> length ?a"
    using m take_rtp_body [of start msg v i] by (simp_all add: rtp_packet_def Let_def)
  moreover have "12 \<le> start" using m enc_start_ge by blast
  ultimately have "take 12 ?a = take 12 msg" "12 \<le> length ?a" "12 \<le> length msg" using m
    by (metis min.absorb1 take_take, simp_all)
  then show "hdr_ssrc ?a = v_ssrc v" "hdr_seq ?a = hdr_seq msg" using m hdr_cong [of ?a msg] by simp_all
  show "rtp_enc_start ?a = Some start" using enc_start_cong [of msg start ?a] m p by simp
qed

lemma run_settle_stream: "stream_template (session st) \<noteq> Some a \<Longrightarrow> settle_stream a hdr st = Some (Inr a, st)"
  by (auto simp: settle_stream_def continue_def split: option.splits)

lemma run_record_index:
  "streams (wld st) a = Some s \<Longrightarrow> rdbx_add_index (rtp_rdbx s) d = Some r \<Longrightarrow>
     record_index a d st = Some (Inr (), put_stream a (s\<lparr>rtp_rdbx := r\<rparr>) st)"
  by (simp add: record_index_def continue_def)

lemma has_viewE:
  assumes "has_view (wld st) a v"
  obtains s c au where "streams (wld st) a = Some s" "ssrc s = v_ssrc v" "rtp_services s = v_services v" "rtp_rdbx s = v_rdbx v"
    "ciphers (mem (wld st)) (rtp_cipher s) = Some c" "cipher_keyed c (v_ckey v)"
    "auths (mem (wld st)) (rtp_auth s) = Some au" "auth_keyed au (v_akey v)" "out_len au = int (v_tag_len v)"
    "prefix_len au = (if v_akey v = None then int (v_tag_len v) else 0)" "limits (mem (wld st)) (limit s) = Some (v_limit v)"
    "has_service (rtp_services s) sec_serv_conf = v_conf v" "has_service (rtp_services s) sec_serv_auth = v_auth v"
  using assms by (auto simp: has_view_def v_conf_def v_auth_def)

text \<open>
  A packet whose tag is not the tag of its octets under the estimated index is refused, and the
  stream, the packet and the session are as before.
\<close>

lemma srtp_unprotect_refused:
  assumes view: "has_view (wld st) a v" and get: "srtp_get_stream (wld st) (session st) (v_ssrc v) = Some (Some a)"
    and pkt: "pkt_octet_len st = int (n + v_tag_len v)" "n + v_tag_len v \<le> length (packet st)" "12 \<le> n + v_tag_len v" "n \<le> 65500"
      "hdr_ssrc (packet st) = v_ssrc v" "rtp_enc_start (packet st) = Some start"
    and v: "v_auth v" "v_tag_len v \<le> 12"
    and idx: "rdbx_estimate_index (v_rdbx v) (ntohs (hdr_seq (packet st))) = (i, d)" "rdbx_check (v_rdbx v) d = err_status_ok"
    and forged: "slice n (v_tag_len v) (packet st) \<noteq> rtp_tag v i (take n (packet st))"
  shows "\<exists>st'. srtp_unprotect stack st = Some (err_status_auth_fail, st') \<and>
    packet st' = packet st \<and> pkt_octet_len st' = pkt_octet_len st \<and> has_view (wld st') a v \<and> same_session st st'"
proof -
  obtain s c au where s: "streams (wld st) a = Some s" "ssrc s = v_ssrc v" "rtp_services s = v_services v" "rtp_rdbx s = v_rdbx v"
      and c: "ciphers (mem (wld st)) (rtp_cipher s) = Some c" "cipher_keyed c (v_ckey v)"
      and au: "auths (mem (wld st)) (rtp_auth s) = Some au" "auth_keyed au (v_akey v)" "out_len au = int (v_tag_len v)"
        "prefix_len au = (if v_akey v = None then int (v_tag_len v) else 0)"
      and l: "limits (mem (wld st)) (limit s) = Some (v_limit v)" "has_service (rtp_services s) sec_serv_auth = v_auth v"
    using view by (rule has_viewE)
  obtain c1 c' au' where 1: "rtp_set_iv (rtp_cipher s) i st = Some (Inr (), store_cipher (rtp_cipher s) c1 st)"
    and 2: "unprotect_tag s (int n) (int (v_tag_len v)) (be32_bytes (ucast (drop_bit 16 i))) (map stack [0..<12]) (store_cipher (rtp_cipher s) c1 st) =
      Some (Inl err_status_auth_fail, store_auth (rtp_auth s) au' (store_cipher (rtp_cipher s) c' st))"
    and c': "cipher_at c' (v_ckey v) (v_iv v i) (v_prefix v)" "auth_keyed au' (v_akey v)" "out_len au' = out_len au" "prefix_len au' = prefix_len au"
    using run_unprotect_crypto [OF c au v(2) pkt(5,2,4), of i stack] forged v(1) by auto
  let ?st' = "store_auth (rtp_auth s) au' (store_cipher (rtp_cipher s) c' st)"
  have 3: "check_length st = Some (Inr (), st)" "unprotect_index st = Some (Inr (a, i, d), st)"
    using pkt idx s get by (auto intro!: run_check_length run_unprotect_index)
  have 4: "rtp_layout s (store_cipher (rtp_cipher s) c1 st) = Some (Inr (if has_service (rtp_services s) sec_serv_conf then Some start else None), store_cipher (rtp_cipher s) c1 st)"
    using pkt(6) by (intro run_layout) simp
  have "srtp_unprotect stack st = Some (err_status_auth_fail, ?st')"
    using 1 2 3 4 s(1) au(1) l(2) v(1) pkt(1)
    by (simp add: srtp_unprotect_def Let_def roc_octets auth_get_tag_length_def au(3) seq_stopped finish_stopped)
  moreover have "has_view (wld ?st') a v"
    using s c' au l cipher.at_keyed [OF c'(1)] by (auto simp: has_view_def)
  moreover have "same_session st ?st'" by (simp add: same_session_def)
  ultimately show ?thesis by auto
qed

text \<open>Behind the check of the tag: the key limit, the payload, the direction, and the replay database.\<close>

lemma run_unprotect_tail:
  assumes s: "streams (wld st) a = Some s" "limits (mem (wld st)) (limit s) = Some (v_limit v)" "rtp_rdbx s = v_rdbx v"
    and c: "ciphers (mem (wld st)) (rtp_cipher s) = Some c" "cipher_at c (v_ckey v) (v_iv v i) (v_prefix v)"
    and pkt: "packet st = rtp_body v i start msg @ r" and msg: "rtp_message v start msg"
    and key: "key_usable v" and r: "rdbx_add_index (v_rdbx v) d = Some r'" and tmpl: "stream_template (session st) \<noteq> Some a"
  shows "\<exists>st1 st2 st3 es es' d' c'. charge_key a st = Some (Inr (), st1) \<and>
    crypt_payload (rtp_cipher s) (if v_conf v then Some start else None)
      (if v_conf v then word_of_int (int (length msg - start)) else 0) st1 = Some (Inr (), st2) \<and>
    verify_direction dir_srtp_receiver a st2 = Some (Inr (), st3) \<and> settle_stream a hdr_ssrc st3 = Some (Inr a, st3) \<and>
    record_index a d st3 = Some (Inr (), put_stream a (s\<lparr>direction := d', rtp_rdbx := r'\<rparr>)
      (add_events es' (store_cipher (rtp_cipher s) c' (add_events es (store_limit (limit s) (snd (key_limit_update (v_limit v)))
        (st\<lparr>packet := msg @ r\<rparr>)))))) \<and> cipher_keyed c' (v_ckey v)"
proof -
  note m = msg [unfolded rtp_message_def]
  obtain es where 1: "charge_key a st = Some (Inr (), add_events es (store_limit (limit s) (snd (key_limit_update (v_limit v))) st))"
    using run_charge_key [OF s(1,2)] key unfolding key_usable_def by blast
  define st1 where d1: "st1 = add_events es (store_limit (limit s) (snd (key_limit_update (v_limit v))) st)"
  have n: "length (rtp_body v i start msg) - start = length msg - start" using m by simp
  have "v_prefix v + (length msg - start) \<le> 0xffff" using m by (auto simp: v_prefix_def)
  then have "\<exists>c'. crypt_payload (rtp_cipher s) (if v_conf v then Some start else None) (if v_conf v then word_of_int (int (length msg - start)) else 0) st1 =
      Some (Inr (), store_cipher (rtp_cipher s) c' (st1\<lparr>packet := (if v_conf v then crypt_at (v_ckey v) (v_iv v i) (v_prefix v) start (length msg - start) (packet st1) else packet st1)\<rparr>)) \<and>
    cipher_keyed c' (v_ckey v)"
    using m c pkt by (intro run_optional_payload) (auto simp: d1)
  moreover have "(if v_conf v then crypt_at (v_ckey v) (v_iv v i) (v_prefix v) start (length msg - start) (packet st1) else packet st1) = msg @ r"
    using rtp_body_twice [of start msg v i] m pkt n
    by (auto simp: d1 crypt_at_append rtp_body_def)
  ultimately obtain c' where 2: "crypt_payload (rtp_cipher s) (if v_conf v then Some start else None) (if v_conf v then word_of_int (int (length msg - start)) else 0) st1 =
      Some (Inr (), store_cipher (rtp_cipher s) c' (st1\<lparr>packet := msg @ r\<rparr>))" and c': "cipher_keyed c' (v_ckey v)"
    by auto
  define st2 where d2: "st2 = store_cipher (rtp_cipher s) c' (st1\<lparr>packet := msg @ r\<rparr>)"
  have "streams (wld st2) a = Some s" using s by (simp add: d1 d2)
  from run_verify_direction [OF this] obtain d' es' where
    3: "verify_direction dir_srtp_receiver a st2 = Some (Inr (), add_events es' (put_stream a (s\<lparr>direction := d'\<rparr>) st2))" by blast
  define st3 where d3: "st3 = add_events es' (put_stream a (s\<lparr>direction := d'\<rparr>) st2)"
  have "settle_stream a hdr_ssrc st3 = Some (Inr a, st3)" using tmpl by (intro run_settle_stream) (simp add: d1 d2 d3)
  moreover have "record_index a d st3 = Some (Inr (), put_stream a (s\<lparr>direction := d', rtp_rdbx := r'\<rparr>) st3)"
    using r s(3) by (intro run_record_index) (simp_all add: d3)
  moreover have "put_stream a (s\<lparr>direction := d', rtp_rdbx := r'\<rparr>) st3 = put_stream a (s\<lparr>direction := d', rtp_rdbx := r'\<rparr>)
      (add_events es' (store_cipher (rtp_cipher s) c' (add_events es (store_limit (limit s) (snd (key_limit_update (v_limit v)))
        (st\<lparr>packet := msg @ r\<rparr>)))))"
    by (simp add: d1 d2 d3 store_defs)
  ultimately show ?thesis using 1 2 3 c' unfolding d1 [symmetric] d2 [symmetric] d3 [symmetric] by metis
qed

lemma srtp_unprotect_run:
  assumes view: "has_view (wld st) a v" and get: "srtp_get_stream (wld st) (session st) (v_ssrc v) = Some (Some a)"
    and tmpl: "stream_template (session st) \<noteq> Some a"
    and pkt: "packet st = rtp_packet v i start msg @ room" "pkt_octet_len st = int (length (rtp_packet v i start msg))"
    and msg: "rtp_message v start msg" and idx: "send_index v msg i d r" and key: "key_usable v"
    and tag: "v_auth v \<or> v_tag_len v = 0"
  shows "\<exists>st'. srtp_unprotect stack st = Some (err_status_ok, st') \<and>
    packet st' = msg @ rtp_tag v i (rtp_body v i start msg) @ room \<and> pkt_octet_len st' = int (length msg) \<and>
    has_view (wld st') a (after_packet v r) \<and> same_session st st'"
proof -
  note m = msg [unfolded rtp_message_def]
  let ?b = "rtp_body v i start msg" let ?n = "length msg" let ?t = "rtp_tag v i (rtp_body v i start msg)"
  obtain s c au where s: "streams (wld st) a = Some s" "ssrc s = v_ssrc v" "rtp_services s = v_services v" "rtp_rdbx s = v_rdbx v"
      and c: "ciphers (mem (wld st)) (rtp_cipher s) = Some c" "cipher_keyed c (v_ckey v)"
      and au: "auths (mem (wld st)) (rtp_auth s) = Some au" "auth_keyed au (v_akey v)" "out_len au = int (v_tag_len v)"
        "prefix_len au = (if v_akey v = None then int (v_tag_len v) else 0)"
      and l: "limits (mem (wld st)) (limit s) = Some (v_limit v)"
      and svc: "has_service (rtp_services s) sec_serv_conf = v_conf v" "has_service (rtp_services s) sec_serv_auth = v_auth v"
    using view by (rule has_viewE)
  have t: "length ?t = v_tag_len v" using m tag by (auto simp: length_rtp_tag v_overhead_def)
  have p: "packet st = ?b @ ?t @ room" "pkt_octet_len st = int ?n + int (v_tag_len v)"
    using pkt m t by (simp_all add: rtp_packet_def Let_def)
  note hdr = rtp_packet_header [OF msg, of i room, folded pkt(1)]
  have x: "?n + v_tag_len v \<le> length (packet st)" "?n \<le> 65500" "take ?n (packet st) = ?b" "slice ?n (v_tag_len v) (packet st) = ?t"
    using p m t by (simp_all add: slice_def)
  define enc el where e: "enc = (if v_conf v then Some start else None)" "el = (if v_conf v then word_of_int (int (?n - start)) else 0 :: u32)"
  obtain c1 c' au' where 1: "rtp_set_iv (rtp_cipher s) i st = Some (Inr (), store_cipher (rtp_cipher s) c1 st)"
    and 2: "(if v_auth v then unprotect_tag s (int ?n) (int (v_tag_len v)) (be32_bytes (ucast (drop_bit 16 i))) (map stack [0..<12])
     else continue ()) (store_cipher (rtp_cipher s) c1 st) = Some (Inr (), store_auth (rtp_auth s) au' (store_cipher (rtp_cipher s) c' st))"
    and c': "cipher_at c' (v_ckey v) (v_iv v i) (v_prefix v)" "auth_keyed au' (v_akey v)" "out_len au' = out_len au" "prefix_len au' = prefix_len au"
    using run_unprotect_crypto [OF c au _ hdr(1) x(1,2), of i stack] m x(3,4) by (auto simp del: if_split)
  define st1 where d1: "st1 = store_auth (rtp_auth s) au' (store_cipher (rtp_cipher s) c' st)"
  have st1: "streams (wld st1) a = Some s" "limits (mem (wld st1)) (limit s) = Some (v_limit v)" "ciphers (mem (wld st1)) (rtp_cipher s) = Some c'"
      "packet st1 = ?b @ ?t @ room" "stream_template (session st1) \<noteq> Some a" "pkt_octet_len st1 = pkt_octet_len st"
    using s l p tmpl by (simp_all add: d1)
  from run_unprotect_tail [OF st1(1,2) s(4) st1(3) c'(1) st1(4) msg key _ st1(5), of d r] idx
  obtain st2 st3 st4 st5 where 3: "charge_key a st1 = Some (Inr (), st2)" "crypt_payload (rtp_cipher s) enc el st2 = Some (Inr (), st3)"
      "verify_direction dir_srtp_receiver a st3 = Some (Inr (), st4)" "settle_stream a hdr_ssrc st4 = Some (Inr a, st4)"
      "record_index a d st4 = Some (Inr (), st5)"
    and st5: "has_view (wld st5) a (after_packet v r)" "same_session st st5" "packet st5 = msg @ ?t @ room"
    unfolding e send_index_def using s c' au l
    by (auto simp: d1 has_view_def after_packet_def same_session_def)
  have 4: "check_length st = Some (Inr (), st)" "unprotect_index st = Some (Inr (a, i, d), st)"
    using p m idx s get hdr by (auto intro!: run_check_length run_unprotect_index simp: send_index_def)
  have 5: "rtp_layout s (store_cipher (rtp_cipher s) c1 st) = Some (Inr enc, store_cipher (rtp_cipher s) c1 st)"
    using run_layout [of "store_cipher (rtp_cipher s) c1 st" start s] hdr(3) svc by (simp add: e)
  have 6: "(case enc of None \<Rightarrow> 0 | Some off \<Rightarrow> word_of_int (pkt_octet_len st - auth_get_tag_length au - int off)) = el"
    using m p(2) by (simp add: e of_nat_diff auth_get_tag_length_def au(3))
  have "srtp_unprotect stack st = Some (err_status_ok, st5\<lparr>pkt_octet_len := int ?n\<rparr>)"
    using 1 2 3 4 5 6 s(1) au(1) svc p(2) unfolding srtp_unprotect_def Let_def roc_octets d1 [symmetric]
    by (cases "v_auth v") (simp_all add: auth_get_tag_length_def au(3) finish_def change_def continue_def)
  with st5 show ?thesis by (auto simp: same_session_def)
qed

end
