(* ===== verification/Srtp_Roundtrip.thy ===== *)
theory Srtp_Roundtrip
  imports Srtp_Refine
begin

text \<open>
  The two ends of a stream together: what one packet and a transcript of packets do when the sender
  and the receiver hold the same keys, what a forged, replayed, short or unknown packet does, and
  when the sender uses an index twice.
\<close>

subsection \<open>Two views of one stream\<close>

definition peers :: "stream_view \<Rightarrow> stream_view \<Rightarrow> bool" where
  "peers v v' \<longleftrightarrow> v_ssrc v' = v_ssrc v \<and> v_ckey v' = v_ckey v \<and> v_akey v' = v_akey v \<and>
     v_tag_len v' = v_tag_len v \<and> v_services v' = v_services v"

lemma peers_format:
  assumes "peers v v'"
  shows "rtp_message v' = rtp_message v" "rtp_packet v' = rtp_packet v" "rtp_tag v' = rtp_tag v" "rtp_body v' = rtp_body v"
    "v_auth v' = v_auth v" "v_overhead v' = v_overhead v"
  using assms
  by (auto simp: peers_def fun_eq_iff rtp_message_def rtp_packet_def rtp_tag_def rtp_body_def v_overhead_def v_auth_def
      v_conf_def v_prefix_def v_iv_def split: option.split)

lemma after_packet_simps [simp]:
  "v_rdbx (after_packet v r) = r" "v_limit (after_packet v r) = snd (key_limit_update (v_limit v))"
  "v_ssrc (after_packet v r) = v_ssrc v" "v_tag_len (after_packet v r) = v_tag_len v"
  "v_auth (after_packet v r) = v_auth v" "v_overhead (after_packet v r) = v_overhead v"
  by (simp_all add: after_packet_def v_auth_def v_overhead_def)

lemma peers_after: "peers v v' \<Longrightarrow> peers (after_packet v r) v'" "peers v v' \<Longrightarrow> peers v (after_packet v' r')"
  by (simp_all add: peers_def after_packet_def)

text \<open>An end of a stream: the stream at an address, found by its SSRC, with a view of its own.\<close>

definition endpoint :: "pstate \<Rightarrow> addr \<Rightarrow> stream_view \<Rightarrow> bool" where
  "endpoint st a v \<longleftrightarrow> has_view (wld st) a v \<and> srtp_get_stream (wld st) (session st) (v_ssrc v) = Some (Some a) \<and>
     stream_template (session st) \<noteq> Some a"

definition load_packet :: "octets \<Rightarrow> int \<Rightarrow> pstate \<Rightarrow> pstate" where
  "load_packet pkt n st = st\<lparr>packet := pkt, pkt_octet_len := n\<rparr>"

lemma load_packet_simps [simp]:
  "packet (load_packet pkt n st) = pkt" "pkt_octet_len (load_packet pkt n st) = n"
  "wld (load_packet pkt n st) = wld st" "session (load_packet pkt n st) = session st"
  "endpoint (load_packet pkt n st) a v = endpoint st a v"
  by (simp_all add: load_packet_def endpoint_def)

lemma endpoint_step:
  "endpoint st a v \<Longrightarrow> same_session st st' \<Longrightarrow> has_view (wld st') a v' \<Longrightarrow> v_ssrc v' = v_ssrc v \<Longrightarrow> endpoint st' a v'"
  using same_session_get [of st st'] by (simp add: endpoint_def same_session_def)

text \<open>One packet from end to end.\<close>

lemma one_packet:
  assumes "endpoint tx a v" "endpoint rx b v'" "peers v v'" "rtp_message v start msg" "v_auth v \<or> v_tag_len v = 0"
    and "v_overhead v \<le> length room" and "send_index v msg i d r" "send_index v' msg i d' r'" and "key_usable v" "key_usable v'"
  shows "\<exists>tx' rx'. srtp_protect (load_packet (msg @ room) (int (length msg)) tx) = Some (err_status_ok, tx') \<and>
    srtp_unprotect stack (load_packet (packet tx') (pkt_octet_len tx') rx) = Some (err_status_ok, rx') \<and>
    take (nat (pkt_octet_len rx')) (packet rx') = msg \<and>
    take (nat (pkt_octet_len tx')) (packet tx') = rtp_packet v i start msg \<and>
    pkt_octet_len tx' = int (length msg + v_overhead v) \<and> length (packet tx') = length (msg @ room) \<and>
    packet rx' = msg @ drop (length msg) (packet tx') \<and>
    endpoint tx' a (after_packet v r) \<and> endpoint rx' b (after_packet v' r')"
proof -
  let ?tx = "load_packet (msg @ room) (int (length msg)) tx"
  note f = peers_format [OF assms(3)]
  have e: "endpoint ?tx a v" using assms(1) by simp
  then obtain tx' where s: "srtp_protect ?tx = Some (err_status_ok, tx')"
      "packet tx' = rtp_packet v i start msg @ drop (v_overhead v) room" "pkt_octet_len tx' = int (length (rtp_packet v i start msg))"
      "has_view (wld tx') a (after_packet v r)" "same_session ?tx tx'"
    using srtp_protect_run [of ?tx a v msg room start i d r] assms unfolding endpoint_def by auto
  let ?rx = "load_packet (packet tx') (pkt_octet_len tx') rx"
  have e': "endpoint ?rx b v'" using assms(2) by simp
  then obtain rx' where r: "srtp_unprotect stack ?rx = Some (err_status_ok, rx')"
      "packet rx' = msg @ rtp_tag v i (rtp_body v i start msg) @ drop (v_overhead v) room" "pkt_octet_len rx' = int (length msg)"
      "has_view (wld rx') b (after_packet v' r')" "same_session ?rx rx'"
    using srtp_unprotect_run [of ?rx b v' i start msg "drop (v_overhead v) room" d' r' stack] s assms f
    unfolding endpoint_def peers_def by auto
  have "endpoint tx' a (after_packet v r)" "endpoint rx' b (after_packet v' r')"
    using endpoint_step [OF e s(5,4)] endpoint_step [OF e' r(5,4)] by simp_all
  moreover have "length (rtp_tag v i (rtp_body v i start msg)) = v_overhead v" "start \<le> length msg"
    using assms(4) length_rtp_tag by (auto simp: rtp_message_def)
  ultimately show ?thesis using s r assms(6) by (auto simp: rtp_packet_def Let_def)
qed

subsection \<open>Transcripts\<close>

text \<open>
  The sender protects a list of messages; the channel delivers or loses each packet; the receiver
  unprotects what it gets. \<open>None\<close>: one of the two functions failed.
\<close>

fun transmit :: "(nat \<Rightarrow> u8) \<Rightarrow> pstate \<Rightarrow> pstate \<Rightarrow> (octets \<times> bool) list \<Rightarrow> (octets list \<times> pstate \<times> pstate) option" where
  "transmit stack tx rx [] = Some ([], tx, rx)"
| "transmit stack tx rx ((msg, delivered) # rest) =
     (case srtp_protect (load_packet (msg @ replicate 12 0) (int (length msg)) tx) of
        Some (err_status_ok, tx') \<Rightarrow>
          (if delivered then
             (case srtp_unprotect stack (load_packet (packet tx') (pkt_octet_len tx') rx) of
                Some (err_status_ok, rx') \<Rightarrow>
                  map_option (\<lambda>(out, ends). (take (nat (pkt_octet_len rx')) (packet rx') # out, ends)) (transmit stack tx' rx' rest)
              | _ \<Rightarrow> None)
           else transmit stack tx' rx rest)
      | _ \<Rightarrow> None)"

text \<open>The messages carry the sequence numbers that follow an index.\<close>

fun numbered :: "xtd_seq_num_t \<Rightarrow> octets list \<Rightarrow> bool" where
  "numbered i [] \<longleftrightarrow> True"
| "numbered i (msg # msgs) \<longleftrightarrow> ntohs (hdr_seq msg) = ucast (i + 1) \<and> numbered (i + 1) msgs"

text \<open>Fewer than 32767 packets are lost in a row; \<open>gap\<close> were lost before.\<close>

fun losses_bounded :: "nat \<Rightarrow> bool list \<Rightarrow> bool" where
  "losses_bounded gap [] \<longleftrightarrow> True"
| "losses_bounded gap (delivered # rest) \<longleftrightarrow> gap + 1 \<le> 32767 \<and> losses_bounded (if delivered then 0 else gap + 1) rest"

lemma usable_step:
  assumes "n + 1 < unat (num_left l)"
  shows "fst (key_limit_update l) \<noteq> key_event_hard_limit" "unat (num_left (snd (key_limit_update l))) = unat (num_left l) - 1"
proof -
  have u: "unat (num_left l - 1) = unat (num_left l) - 1"
    using assms unat_minus_one [of "num_left l"] by (cases "num_left l = 0") simp_all
  then have "\<not> num_left l - 1 < 1" using assms by (simp add: word_less_nat_alt)
  then show "fst (key_limit_update l) \<noteq> key_event_hard_limit"
      "unat (num_left (snd (key_limit_update l))) = unat (num_left l) - 1"
    using u by (auto simp: key_limit_update_def Let_def)
qed

lemma forward_index:
  assumes "ntohs (hdr_seq msg) = ucast i" "uint (rdbx_index (v_rdbx v)) < uint i"
    "uint i - uint (rdbx_index (v_rdbx v)) \<le> 32767" "uint i < 2 ^ 48"
  shows "\<exists>d r. send_index v msg i d r \<and> rdbx_index r = i"
  using rdbx_estimate_forward [OF assms(2-4)] rdbx_forward_added [OF assms(2-4)] assms(1) unfolding send_index_def by auto

lemma transmit_delivers:
  assumes "endpoint tx a v" "endpoint rx b v'" "peers v v'" "v_auth v \<or> v_tag_len v = 0"
    and "numbered (rdbx_index (v_rdbx v)) (map fst ps)" "\<forall>p \<in> set ps. \<exists>start. rtp_message v start (fst p)"
    and "uint (rdbx_index (v_rdbx v)) - uint (rdbx_index (v_rdbx v')) = int gap" "losses_bounded gap (map snd ps)"
    and "uint (rdbx_index (v_rdbx v)) + int (length ps) < 2 ^ 48"
    and "length ps < unat (num_left (v_limit v))" "length ps < unat (num_left (v_limit v'))"
  shows "\<exists>tx' rx'. transmit stack tx rx ps = Some (map fst (filter snd ps), tx', rx')"
  using assms
proof (induction ps arbitrary: tx rx v v' gap)
  case (Cons p ps)
  obtain msg delivered where p: "p = (msg, delivered)" by (cases p)
  let ?i = "rdbx_index (v_rdbx v) + 1" let ?l = "rdbx_index (v_rdbx v')"
  obtain start where msg: "rtp_message v start msg" using Cons.prems(6) p by auto
  have n: "unat (num_left (v_limit v)) > length ps + 1" "unat (num_left (v_limit v')) > length ps + 1" using Cons.prems(10,11) by simp_all
  have i: "uint ?i = uint (rdbx_index (v_rdbx v)) + 1" using Cons.prems(9) uint_add_lem [of "rdbx_index (v_rdbx v)" 1] by simp
  have bnd: "uint ?i - uint ?l = int gap + 1" "gap + 1 \<le> 32767" "uint ?i < 2 ^ 48" using i Cons.prems(7-9) p by simp_all
  have hdr: "ntohs (hdr_seq msg) = ucast ?i" "numbered ?i (map fst ps)" using Cons.prems(5) p by simp_all
  obtain d r where r: "send_index v msg ?i d r" "rdbx_index r = ?i" using forward_index [OF hdr(1), of v] i bnd by auto
  have "uint ?l < uint ?i" "uint ?i - uint ?l \<le> 32767" using bnd by linarith+
  then obtain d' r' where r': "send_index v' msg ?i d' r'" "rdbx_index r' = ?i" using forward_index [OF hdr(1), of v'] bnd(3) by auto
  have k: "key_usable v" "key_usable v'" using usable_step(1) [OF n(1)] usable_step(1) [OF n(2)] by (simp_all add: key_usable_def)
  have "v_overhead v \<le> length (replicate 12 (0 :: u8))" using msg by (simp add: rtp_message_def v_overhead_def)
  from one_packet [OF Cons.prems(1-3) msg Cons.prems(4) this r(1) r'(1) k, of stack] obtain tx' rx' where
    tx: "srtp_protect (load_packet (msg @ replicate 12 0) (int (length msg)) tx) = Some (err_status_ok, tx')"
    and rx: "srtp_unprotect stack (load_packet (packet tx') (pkt_octet_len tx') rx) = Some (err_status_ok, rx')"
      "take (nat (pkt_octet_len rx')) (packet rx') = msg"
    and e: "endpoint tx' a (after_packet v r)" "endpoint rx' b (after_packet v' r')" by blast
  have m: "\<forall>p \<in> set ps. \<exists>start. rtp_message (after_packet v r) start (fst p)"
    using Cons.prems(6) by (auto simp: rtp_message_def)
  have c: "v_auth (after_packet v r) \<or> v_tag_len (after_packet v r) = 0" "numbered (rdbx_index (v_rdbx (after_packet v r))) (map fst ps)"
      "uint (rdbx_index (v_rdbx (after_packet v r))) + int (length ps) < 2 ^ 48" "length ps < unat (num_left (v_limit (after_packet v r)))"
    using Cons.prems(4,9) hdr r i usable_step(2) [OF n(1)] n by simp_all
  show ?case
  proof (cases delivered)
    case True
    have "\<exists>tx'' rx''. transmit stack tx' rx' ps = Some (map fst (filter snd ps), tx'', rx'')"
      using Cons.prems(8) p True r' r usable_step(2) [OF n(2)] n peers_after Cons.prems(3)
      by (intro Cons.IH [OF e _ c(1,2) m _ _ c(3,4), where gap = 0]) simp_all
    then show ?thesis using tx rx p True by auto
  next
    case False
    have "uint (rdbx_index (v_rdbx (after_packet v r))) - uint ?l = int (gap + 1)" using r bnd by simp
    then have "\<exists>tx'' rx''. transmit stack tx' rx ps = Some (map fst (filter snd ps), tx'', rx'')"
      using Cons.prems(8) p False n(2) peers_after Cons.prems(3)
      by (intro Cons.IH [OF e(1) Cons.prems(2) _ c(1,2) m _ _ c(3,4), where gap = "gap + 1"]) simp_all
    then show ?thesis using tx p False by auto
  qed
qed simp

subsection \<open>Refusals\<close>

text \<open>A packet that the replay check refuses changes nothing, whatever its tag.\<close>

lemma srtp_unprotect_replay:
  assumes "endpoint st a v" "12 \<le> pkt_octet_len st" "12 \<le> length (packet st)" "hdr_ssrc (packet st) = v_ssrc v"
    and "rdbx_estimate_index (v_rdbx v) (ntohs (hdr_seq (packet st))) = (i, d)" "rdbx_check (v_rdbx v) d = e" "e \<noteq> err_status_ok"
  shows "srtp_unprotect stack st = Some (e, st)"
proof -
  obtain s where s: "streams (wld st) a = Some s" "rtp_rdbx s = v_rdbx v" using assms(1) by (auto simp: endpoint_def has_view_def)
  then have "unprotect_index st = Some (Inl e, st)"
    using assms by (simp add: endpoint_def unprotect_index_def lookup_stream_def seq_def the_stream_def continue_def require_def stop_def)
  with run_check_length [OF assms(2,3)] show ?thesis
    by (simp add: srtp_unprotect_def seq_stopped finish_stopped)
qed

text \<open>The receiver unprotects one buffer after the other; \<open>None\<close>: one of them was refused.\<close>

fun unprotect_all :: "(nat \<Rightarrow> u8) \<Rightarrow> pstate \<Rightarrow> (octets \<times> int) list \<Rightarrow> pstate option" where
  "unprotect_all stack rx [] = Some rx"
| "unprotect_all stack rx ((buf, n) # rest) =
     (case srtp_unprotect stack (load_packet buf n rx) of Some (err_status_ok, rx') \<Rightarrow> unprotect_all stack rx' rest | _ \<Rightarrow> None)"

text \<open>
  A numbered message is its packet index, the start of its payload, the message and the room behind the packet in the
  buffer. In a list of them each is up to 32767 indices ahead of the one before.
\<close>

type_synonym numbered_message = "xtd_seq_num_t \<times> nat \<times> octets \<times> octets"

fun packet_buffer :: "stream_view \<Rightarrow> numbered_message \<Rightarrow> octets \<times> int" where
  "packet_buffer v (i, start, msg, room) = (rtp_packet v i start msg @ room, int (length (rtp_packet v i start msg)))"

fun packets_ahead :: "stream_view \<Rightarrow> xtd_seq_num_t \<Rightarrow> numbered_message list \<Rightarrow> bool" where
  "packets_ahead v i [] \<longleftrightarrow> True"
| "packets_ahead v i ((j, start, msg, room) # ps) \<longleftrightarrow> rtp_message v start msg \<and> ntohs (hdr_seq msg) = ucast j \<and>
     uint i < uint j \<and> uint j - uint i \<le> 32767 \<and> uint j < 2 ^ 48 \<and> packets_ahead v j ps"

abbreviation last_index :: "xtd_seq_num_t \<Rightarrow> numbered_message list \<Rightarrow> xtd_seq_num_t" where
  "last_index i ps \<equiv> last (i # map fst ps)"

lemma unprotect_one:
  assumes "endpoint rx b v'" "peers v v'" "v_auth v \<or> v_tag_len v = 0" "rtp_message v start msg" "send_index v' msg i d r" "key_usable v'"
  shows "\<exists>rx'. srtp_unprotect stack (load_packet (rtp_packet v i start msg @ room) (int (length (rtp_packet v i start msg))) rx) =
      Some (err_status_ok, rx') \<and> pkt_octet_len rx' = int (length msg) \<and> take (length msg) (packet rx') = msg \<and> endpoint rx' b (after_packet v' r)"
proof -
  let ?rx = "load_packet (rtp_packet v i start msg @ room) (int (length (rtp_packet v i start msg))) rx"
  have e: "endpoint ?rx b v'" using assms(1) by simp
  from srtp_unprotect_run [of ?rx b v' i start msg room d r stack] e assms(2-6) peers_format [OF assms(2)]
  obtain rx' where r: "srtp_unprotect stack ?rx = Some (err_status_ok, rx')" "pkt_octet_len rx' = int (length msg)"
      "packet rx' = msg @ rtp_tag v i (rtp_body v i start msg) @ room" "has_view (wld rx') b (after_packet v' r)" "same_session ?rx rx'"
    unfolding endpoint_def peers_def by auto
  with endpoint_step [OF e r(5,4)] show ?thesis by auto
qed

lemma unprotect_ahead:
  assumes "endpoint rx b v'" "peers v v'" "v_auth v \<or> v_tag_len v = 0" "packets_ahead v (rdbx_index (v_rdbx v')) ps"
    and "length ps < unat (num_left (v_limit v'))" "rdbx_knows (v_rdbx v') A"
  shows "\<exists>rx' v''. unprotect_all stack rx (map (packet_buffer v) ps) = Some rx' \<and> endpoint rx' b v'' \<and> peers v v'' \<and>
    rdbx_index (v_rdbx v'') = last_index (rdbx_index (v_rdbx v')) ps \<and> rdbx_knows (v_rdbx v'') A \<and>
    unat (num_left (v_limit v'')) = unat (num_left (v_limit v')) - length ps"
  using assms
proof (induction ps arbitrary: rx v')
  case (Cons p ps)
  obtain j start msg room where p: "p = (j, start, msg, room)" by (cases p)
  let ?l = "uint (rdbx_index (v_rdbx v'))"
  have j: "rtp_message v start msg" "ntohs (hdr_seq msg) = ucast j" "?l < uint j" "uint j - ?l \<le> 32767" "uint j < 2 ^ 48"
      "packets_ahead v j ps" using Cons.prems(4) p by simp_all
  obtain r where r: "send_index v' msg j (uint j - ?l) r" "rdbx_index r = j"
    using rdbx_estimate_forward [OF j(3-5)] rdbx_forward_added [OF j(3-5)] j(2) unfolding send_index_def by auto
  have n: "length ps + 1 < unat (num_left (v_limit v'))" using Cons.prems(5) by simp
  have u: "key_usable v'" using usable_step(1) [OF n] by (simp add: key_usable_def)
  obtain rx1 where 1: "srtp_unprotect stack (load_packet (rtp_packet v j start msg @ room) (int (length (rtp_packet v j start msg))) rx) =
      Some (err_status_ok, rx1)" "endpoint rx1 b (after_packet v' r)"
    using unprotect_one [OF Cons.prems(1-3) j(1) r(1) u, of stack room] by blast
  have "rdbx_knows r (insert (?l + (uint j - ?l)) A)"
    by (rule rdbx_knows_forward [OF Cons.prems(6)]) (use j r(1) in \<open>simp_all add: send_index_def\<close>)
  then have k: "rdbx_knows (v_rdbx (after_packet v' r)) A" by (auto elim: rdbx_knows_mono)
  have "\<exists>rx' v''. unprotect_all stack rx1 (map (packet_buffer v) ps) = Some rx' \<and> endpoint rx' b v'' \<and> peers v v'' \<and>
    rdbx_index (v_rdbx v'') = last_index (rdbx_index (v_rdbx (after_packet v' r))) ps \<and> rdbx_knows (v_rdbx v'') A \<and>
    unat (num_left (v_limit v'')) = unat (num_left (v_limit (after_packet v' r))) - length ps"
    by (rule Cons.IH [OF 1(2) peers_after(2) [OF Cons.prems(2)] Cons.prems(3) _ _ k])
      (use j(6) r(2) n usable_step(2) [OF n] in simp_all)
  then show ?case using 1(1) p r(2) usable_step(2) [OF n] by auto
qed auto

text \<open>Packets of an unknown SSRC.\<close>

lemma srtp_unknown:
  assumes "12 \<le> pkt_octet_len st" "12 \<le> length (packet st)" "srtp_get_stream (wld st) (session st) (hdr_ssrc (packet st)) = Some None"
    and "stream_template (session st) = None"
  shows "srtp_protect st = Some (err_status_no_ctx, st)" "srtp_unprotect stack st = Some (err_status_no_ctx, st)"
proof -
  have l: "lookup_stream (hdr_ssrc (packet st)) st = Some (Inl err_status_no_ctx, st)"
    using assms(3,4) by (simp add: lookup_stream_def stop_def)
  then have "protect_stream st = Some (Inl err_status_no_ctx, st)" "unprotect_index st = Some (Inl err_status_no_ctx, st)"
    by (simp_all add: protect_stream_def unprotect_index_def seq_stopped)
  with run_check_length [OF assms(1,2)] show "srtp_protect st = Some (err_status_no_ctx, st)"
      "srtp_unprotect stack st = Some (err_status_no_ctx, st)"
    by (simp_all add: srtp_protect_def srtp_unprotect_def seq_stopped finish_stopped)
qed

text \<open>A stream whose key reaches its hard limit sends no packet.\<close>

lemma srtp_protect_expired:
  assumes "endpoint st a v" "\<not> key_usable v" "12 \<le> pkt_octet_len st" "12 \<le> length (packet st)" "hdr_ssrc (packet st) = v_ssrc v"
  shows "\<exists>st'. srtp_protect st = Some (err_status_key_expired, st') \<and> packet st' = packet st \<and> pkt_octet_len st' = pkt_octet_len st"
proof -
  obtain s where s: "streams (wld st) a = Some s" "limits (mem (wld st)) (limit s) = Some (v_limit v)"
    using assms(1) by (auto simp: endpoint_def has_view_def)
  obtain d' es where 1: "verify_direction dir_srtp_sender a st = Some (Inr (), add_events es (put_stream a (s\<lparr>direction := d'\<rparr>) st))"
    using run_verify_direction [OF s(1)] by blast
  let ?st1 = "add_events es (put_stream a (s\<lparr>direction := d'\<rparr>) st)"
  let ?st2 = "store_limit (limit s) (snd (key_limit_update (v_limit v))) ?st1"
  have "charge_key a ?st1 = Some (Inl err_status_key_expired, ?st2\<lparr>wld := srtp_handle_event (wld ?st2) a event_key_hard_limit\<rparr>)"
    using s assms(2) by (simp add: charge_key_def key_usable_def case_prod_unfold Let_def stop_def)
  moreover have "protect_stream st = Some (Inr a, st)" using assms by (intro run_protect_stream) (simp add: endpoint_def)
  ultimately show ?thesis
    using 1 run_check_length [OF assms(3,4)] by (simp add: srtp_protect_def seq_stopped finish_stopped)
qed

text \<open>Two messages under one index: the keystream cancels.\<close>

lemma same_index_leaks:
  assumes "v_conf v" "start \<le> n" "n < length msg" "length msg' = length msg" "start \<le> length msg"
  shows "rtp_body v i start msg ! n XOR rtp_body v i start msg' ! n = msg ! n XOR msg' ! n"
proof -
  have "rtp_body v i start m ! n = m ! n XOR stream_ks (v_ckey v) (v_iv v i) (v_prefix v + (n - start))" if "length m = length msg" for m
    using assms(1,2,3,5) that by (simp add: rtp_body_def crypt_at_def nth_write_at slice_def nth_xor_octets ks_from_def)
  from this [of msg] this [of msg'] assms(4) show ?thesis by (simp add: xor.assoc xor.commute xor.left_commute)
qed

end
