(* ===== verification/Srtp_Session.thy ===== *)
theory Srtp_Session
  imports Srtp_Roundtrip
begin

text \<open>
  From a policy to a stream: the key derivation function, the keys that \<^verbatim>\<open>srtp_stream_init_keys\<close>
  installs as functions of the master key and salt, and the session that \<^verbatim>\<open>srtp_create\<close> builds.
\<close>

subsection \<open>Key derivation\<close>

lemma kdf_nonce_block_index: "block_index (kdf_nonce label) = 0"
proof -
  have "v8 (kdf_nonce label) 14 = 0" "v8 (kdf_nonce label) 15 = 0"
    by (simp_all add: kdf_nonce_def v8_set_v8) (simp_all add: v8_def v128_octets_def le32_bytes_def)
  then have "uint (block_index (kdf_nonce label)) = 0" by (simp add: uint_block_index)
  then show ?thesis by (simp only: uint_0_iff)
qed

text \<open>The \<open>n\<close> octets that the function derives for a label.\<close>

definition kdf_octets :: "octets \<Rightarrow> srtp_prf_label \<Rightarrow> nat \<Rightarrow> octets" where
  "kdf_octets key label n = map (icm_ks (icm_key key) (kdf_nonce label)) [0..<n]"

lemma length_kdf_octets [simp]: "length (kdf_octets key label n) = n"
  by (simp add: kdf_octets_def)

lemma kdf_generate_derives:
  assumes "icm_keyed kdf (icm_key key)" "0 < n" "n \<le> length buf" "n \<le> 0xffff"
  shows "\<exists>kdf'. srtp_kdf_generate kdf label buf (int n) = Some (err_status_ok, kdf', kdf_octets key label n @ drop n buf) \<and>
    icm_keyed kdf' (icm_key key)"
proof -
  have z: "octet_string_set_to_zero buf (nat (int n)) = Some (replicate n 0 @ drop n buf)"
    using assms(2,3) by (simp add: octet_string_set_to_zero_eq max_def Suc_le_eq)
  have u: "unat (word_of_int (int n) :: u32) = n" using assms(4) by (rule unat_word_of_nat_u32)
  have x: "xor_octets (replicate n 0) (kdf_octets key label n) = kdf_octets key label n"
    using xor_octets_zero [of "kdf_octets key label n"] by simp
  from icm.crypt_fresh [OF assms(1) kdf_nonce_block_index, of "word_of_int (int n)" "replicate n 0 @ drop n buf" label]
  obtain kdf' where "aes_icm_encrypt (snd (aes_icm_set_iv kdf (kdf_nonce label))) (replicate n 0 @ drop n buf) (word_of_int (int n)) =
      Some (err_status_ok, kdf', kdf_octets key label n @ drop n buf)" "icm_keyed kdf' (icm_key key)"
    unfolding u using assms(4) x by (auto simp: kdf_octets_def)
  then show ?thesis unfolding srtp_kdf_generate_def aes_icm_output_def z option.case by auto
qed

text \<open>The keys of a stream. The buffer behind the 30 octets of a cipher key does not matter.\<close>

definition derived_cipher_key :: "octets \<Rightarrow> srtp_prf_label \<Rightarrow> srtp_prf_label \<Rightarrow> stream_key" where
  "derived_cipher_key key enc_label salt_label =
     Icm_Key (icm_key (kdf_octets key enc_label 16 @ kdf_octets key salt_label 14 @ [0, 0]))"

lemma init_cipher_key_derives:
  assumes "icm_keyed kdf (icm_key key)" "cipher_state c = Icm_Ctx s" "cipher_key_len c = 30" "32 \<le> length tmp"
  shows "\<exists>kdf' c' tmp'. init_cipher_key kdf enc_label salt_label tmp c = Some (err_status_ok, kdf', tmp', c') \<and>
    icm_keyed kdf' (icm_key key) \<and> cipher_keyed c' (derived_cipher_key key enc_label salt_label) \<and> length tmp' = length tmp"
proof -
  let ?k = "kdf_octets key enc_label 30" let ?s = "kdf_octets key salt_label 14"
  obtain kdf1 where 1: "srtp_kdf_generate kdf enc_label tmp 30 = Some (err_status_ok, kdf1, ?k @ drop 30 tmp)" "icm_keyed kdf1 (icm_key key)"
    using kdf_generate_derives [OF assms(1), of 30 tmp enc_label] assms(4) by auto
  obtain kdf2 where 2: "srtp_kdf_generate kdf1 salt_label (drop 16 (?k @ drop 30 tmp)) 14 =
      Some (err_status_ok, kdf2, ?s @ drop 14 (drop 16 (?k @ drop 30 tmp)))" "icm_keyed kdf2 (icm_key key)"
  proof -
    have "14 \<le> length (drop 16 (?k @ drop 30 tmp))" using assms(4) by simp
    from kdf_generate_derives [OF 1(2) _ this, of salt_label] show ?thesis using that by auto
  qed
  let ?key = "take 16 (?k @ drop 30 tmp) @ ?s @ drop 14 (drop 16 (?k @ drop 30 tmp))"
  have t: "take 16 ?k = kdf_octets key enc_label 16" by (simp add: kdf_octets_def take_map)
  have len: "length ?key = length tmp" "32 \<le> length ?key" using assms(4) by simp_all
  from aes_icm_context_init_keyed [OF len(2), of s] obtain s' where
    3: "aes_icm_context_init s ?key = Some (err_status_ok, s')" "icm_keyed s' (icm_key ?key)" by blast
  have "icm_key ?key = icm_key (kdf_octets key enc_label 16 @ ?s @ [0, 0])"
    using assms(4) t by (intro icm_key_cong) simp_all
  then have "cipher_keyed (c\<lparr>cipher_state := Icm_Ctx s'\<rparr>) (derived_cipher_key key enc_label salt_label)"
    using 3(2) by (simp add: cipher_keyed_def derived_cipher_key_def)
  then show ?thesis
    using 1 2 3(1) len assms(2,3)
    by (auto simp: init_cipher_key_def cipher_get_key_length_def cipher_init_def)
qed

lemma init_auth_key_derives:
  assumes "icm_keyed kdf (icm_key key)" "auth_state au = Hmac_Ctx s" "auth_key_len au = 20" "20 \<le> length tmp"
    and "length (sha1_M (init_ctx s)) = 64"
  shows "\<exists>kdf' au' tmp'. init_auth_key kdf label tmp au = Some (err_status_ok, kdf', tmp', au') \<and>
    icm_keyed kdf' (icm_key key) \<and> auth_keyed au' (Some (kdf_octets key label 20)) \<and> out_len au' = out_len au \<and>
    prefix_len au' = prefix_len au \<and> length tmp' = length tmp"
proof -
  obtain kdf1 where 1: "srtp_kdf_generate kdf label tmp 20 = Some (err_status_ok, kdf1, kdf_octets key label 20 @ drop 20 tmp)"
      "icm_keyed kdf1 (icm_key key)"
    using kdf_generate_derives [OF assms(1), of 20 tmp label] assms(4) by auto
  obtain s' where "hmac_init s (kdf_octets key label 20 @ drop 20 tmp) 20 = Some (err_status_ok, s')" "hmac_keyed s' (kdf_octets key label 20)"
    using hmac_init_ok [OF assms(5), of 20 "kdf_octets key label 20 @ drop 20 tmp"] by auto
  with 1 assms show ?thesis
    by (auto simp: init_auth_key_def auth_get_key_length_def auth_init_def auth_keyed_def)
qed

subsection \<open>Creating a session\<close>

text \<open>
  A kernel that is in the secure state and knows counter mode and HMAC-SHA1, and a heap whose
  allocations succeed.
\<close>

definition ready :: "world \<Rightarrow> bool" where
  "ready w \<longleftrightarrow> kernel_state (kernel w) = crypto_kernel_state_secure \<and>
     crypto_kernel_get_cipher_type (kernel w) AES_128_ICM = Some aes_icm \<and>
     crypto_kernel_get_auth_type (kernel w) HMAC_SHA1 = Some hmac \<and>
     (\<forall>n \<ge> mallocs (mem w). malloc_ok (mem w) n)"

text \<open>A policy with counter mode and HMAC-SHA1 for both protocols, for one SSRC.\<close>

definition icm_hmac :: "crypto_policy_t \<Rightarrow> bool" where
  "icm_hmac c \<longleftrightarrow> p_cipher_type c = AES_128_ICM \<and> p_cipher_key_len c = 30 \<and>
     p_auth_type c = HMAC_SHA1 \<and> p_auth_key_len c = 20 \<and> 0 \<le> p_auth_tag_len c \<and> p_auth_tag_len c \<le> 12"

definition standard_policy :: "srtp_policy_t \<Rightarrow> octets \<Rightarrow> bool" where
  "standard_policy p key \<longleftrightarrow> ssrc_type p = ssrc_specific \<and> icm_hmac (policy_rtp p) \<and> icm_hmac (policy_rtcp p) \<and>
     policy_key p = Some key \<and> 32 \<le> length key"

text \<open>The view of the stream that such a policy describes.\<close>

definition policy_view :: "srtp_policy_t \<Rightarrow> octets \<Rightarrow> stream_view" where
  "policy_view p key = \<lparr>v_ssrc = htonl (ssrc_value p),
     v_ckey = derived_cipher_key key label_rtp_encryption label_rtp_salt,
     v_akey = Some (kdf_octets key label_rtp_msg_auth 20), v_tag_len = nat (p_auth_tag_len (policy_rtp p)),
     v_services = p_sec_serv (policy_rtp p), v_rdbx = rdbx_init,
     v_limit = \<lparr>num_left = 0xffffffffffff, key_state = key_state_normal\<rparr>\<rparr>"

lemma address_offsets:
  "(m :: nat) + 2 = Suc (Suc m)" "m + 3 = Suc (Suc (Suc m))" "m + 4 = Suc (Suc (Suc (Suc m)))" "m + 5 = Suc (Suc (Suc (Suc (Suc m))))"
  by simp_all

lemma alloc_parts_ok:
  assumes "ready w" "icm_hmac (policy_rtp p)" "icm_hmac (policy_rtcp p)" "m = mallocs h" "\<forall>n \<ge> m. malloc_ok h n"
  shows "\<exists>h'. alloc_parts (kernel w) h p = Some (err_status_ok, Some (m, m + 1, m + 2, m + 3, m + 4), h') \<and>
    ciphers h' = (ciphers h)(m \<mapsto> \<lparr>cipher_state = fresh_cipher_ctx aes_icm, cipher_key_len = 30\<rparr>,
      m + 3 \<mapsto> \<lparr>cipher_state = fresh_cipher_ctx aes_icm, cipher_key_len = 30\<rparr>) \<and>
    auths h' = (auths h)(
      m + 1 \<mapsto> \<lparr>auth_state = fresh_auth_ctx hmac, out_len = p_auth_tag_len (policy_rtp p), auth_key_len = 20, prefix_len = 0\<rparr>,
      m + 4 \<mapsto> \<lparr>auth_state = fresh_auth_ctx hmac, out_len = p_auth_tag_len (policy_rtcp p), auth_key_len = 20, prefix_len = 0\<rparr>) \<and>
    limits h' = (limits h)(m + 2 \<mapsto> \<lparr>num_left = 0, key_state = key_state_normal\<rparr>) \<and>
    mallocs h' = m + 5 \<and> malloc_ok h' = malloc_ok h \<and>
    cipher_refs h' = (cipher_refs h)(aes_icm := 2 + cipher_refs h aes_icm) \<and> auth_refs h' = (auth_refs h)(hmac := 2 + auth_refs h hmac)"
  using assms
  by (simp add: alloc_parts_def ready_def icm_hmac_def crypto_kernel_alloc_cipher_def crypto_kernel_alloc_auth_def
      aes_icm_alloc_def aes_icm_alloc_ismacryp_def hmac_alloc_def put_cipher_def put_auth_def crypto_alloc_def Let_def address_offsets)

text \<open>The stream and its two ciphers, two authentication functions and key limit are fresh and apart.\<close>

lemma init_keys_ok:
  assumes c: "ciphers h c1 = Some \<lparr>cipher_state = fresh_cipher_ctx aes_icm, cipher_key_len = 30\<rparr>"
      "ciphers h c2 = Some \<lparr>cipher_state = fresh_cipher_ctx aes_icm, cipher_key_len = 30\<rparr>" "c1 \<noteq> c2"
    and a: "auths h a1 = Some \<lparr>auth_state = fresh_auth_ctx hmac, out_len = t1, auth_key_len = 20, prefix_len = 0\<rparr>"
      "auths h a2 = Some \<lparr>auth_state = fresh_auth_ctx hmac, out_len = t2, auth_key_len = 20, prefix_len = 0\<rparr>" "a1 \<noteq> a2"
    and s: "rtp_cipher s = c1" "rtcp_cipher s = c2" "rtp_auth s = a1" "rtcp_auth s = a2" and key: "32 \<le> length key"
  shows "\<exists>x1 x2 y1 y2. srtp_stream_init_keys h s key = Some (err_status_ok,
      h\<lparr>ciphers := (ciphers h)(c1 \<mapsto> x1, c2 \<mapsto> x2), auths := (auths h)(a1 \<mapsto> y1, a2 \<mapsto> y2)\<rparr>) \<and>
    cipher_keyed x1 (derived_cipher_key key label_rtp_encryption label_rtp_salt) \<and>
    cipher_keyed x2 (derived_cipher_key key label_rtcp_encryption label_rtcp_salt) \<and>
    auth_keyed y1 (Some (kdf_octets key label_rtp_msg_auth 20)) \<and> out_len y1 = t1 \<and> prefix_len y1 = 0 \<and>
    auth_keyed y2 (Some (kdf_octets key label_rtcp_msg_auth 20)) \<and> out_len y2 = t2 \<and> prefix_len y2 = 0"
proof -
  obtain kdf where 0: "srtp_kdf_init fresh_kdf key = Some (err_status_ok, kdf)" "icm_keyed kdf (icm_key key)"
    using aes_icm_context_init_keyed [OF key, of fresh_kdf] by (auto simp: srtp_kdf_init_def)
  let ?c = "\<lparr>cipher_state = fresh_cipher_ctx aes_icm, cipher_key_len = 30\<rparr>"
  let ?a = "\<lambda>t. \<lparr>auth_state = fresh_auth_ctx hmac, out_len = t, auth_key_len = 20, prefix_len = 0\<rparr>"
  define tmp0 :: octets where "tmp0 = replicate MAX_SRTP_KEY_LEN 0"
  have l0: "length tmp0 = 256" by (simp add: tmp0_def)
  have f: "length (sha1_M fresh_sha1_ctx) = 64" by (simp add: fresh_sha1_ctx_def)
  obtain kdf1 x1 tmp1 where 1: "init_cipher_key kdf label_rtp_encryption label_rtp_salt tmp0 ?c = Some (err_status_ok, kdf1, tmp1, x1)"
      "icm_keyed kdf1 (icm_key key)" "cipher_keyed x1 (derived_cipher_key key label_rtp_encryption label_rtp_salt)" "length tmp1 = 256"
    using init_cipher_key_derives [OF 0(2), of ?c _ tmp0 label_rtp_encryption label_rtp_salt] l0 by auto
  obtain kdf2 y1 tmp2 where 2: "init_auth_key kdf1 label_rtp_msg_auth tmp1 (?a t1) = Some (err_status_ok, kdf2, tmp2, y1)"
      "icm_keyed kdf2 (icm_key key)" "auth_keyed y1 (Some (kdf_octets key label_rtp_msg_auth 20))" "out_len y1 = t1" "prefix_len y1 = 0" "length tmp2 = 256"
    using init_auth_key_derives [OF 1(2), of "?a t1" _ tmp1 label_rtp_msg_auth] 1(4) f by auto
  obtain kdf3 x2 tmp3 where 3: "init_cipher_key kdf2 label_rtcp_encryption label_rtcp_salt tmp2 ?c = Some (err_status_ok, kdf3, tmp3, x2)"
      "icm_keyed kdf3 (icm_key key)" "cipher_keyed x2 (derived_cipher_key key label_rtcp_encryption label_rtcp_salt)" "length tmp3 = 256"
    using init_cipher_key_derives [OF 2(2), of ?c _ tmp2 label_rtcp_encryption label_rtcp_salt] 2(6) by auto
  obtain kdf4 y2 tmp4 where 4: "init_auth_key kdf3 label_rtcp_msg_auth tmp3 (?a t2) = Some (err_status_ok, kdf4, tmp4, y2)"
      "auth_keyed y2 (Some (kdf_octets key label_rtcp_msg_auth 20))" "out_len y2 = t2" "prefix_len y2 = 0"
    using init_auth_key_derives [OF 3(2), of "?a t2" _ tmp3 label_rtcp_msg_auth] 3(4) f by auto
  show ?thesis
    using 0 1 2 3 4 c a unfolding srtp_stream_init_keys_def s tmp0_def [symmetric]
    by (intro exI [of _ x1] exI [of _ x2] exI [of _ y1] exI [of _ y2]) (simp add: Let_def fun_upd_twist)
qed

text \<open>The objects of a stream are allocated; a later allocation leaves objects below it as they are.\<close>

definition allocated :: "world \<Rightarrow> addr \<Rightarrow> bool" where
  "allocated w a \<longleftrightarrow> a < mallocs (mem w) \<and>
     (\<forall>s. streams w a = Some s \<longrightarrow> rtp_cipher s < mallocs (mem w) \<and> rtp_auth s < mallocs (mem w) \<and> limit s < mallocs (mem w))"

definition extends :: "world \<Rightarrow> world \<Rightarrow> bool" where
  "extends w w' \<longleftrightarrow> mallocs (mem w) \<le> mallocs (mem w') \<and>
     (\<forall>q < mallocs (mem w). streams w' q = streams w q \<and> ciphers (mem w') q = ciphers (mem w) q \<and>
        auths (mem w') q = auths (mem w) q \<and> limits (mem w') q = limits (mem w) q)"

lemma has_view_extends: "has_view w a v \<Longrightarrow> allocated w a \<Longrightarrow> extends w w' \<Longrightarrow> has_view w' a v \<and> allocated w' a"
  by (fastforce simp: has_view_def allocated_def extends_def)

text \<open>
  The stream that a policy describes, at address \<open>a\<close> with its parts behind it, and what the creation
  of a session changes: that stream and its parts are new, and nothing else is different.
\<close>

definition new_stream :: "srtp_policy_t \<Rightarrow> addr \<Rightarrow> srtp_stream_ctx_t" where
  "new_stream p a = \<lparr>ssrc = htonl (ssrc_value p), rtp_cipher = a + 1, rtp_auth = a + 2, rtp_rdbx = rdbx_init,
     rtp_services = p_sec_serv (policy_rtp p), rtcp_cipher = a + 4, rtcp_auth = a + 5, rtcp_rdb = rdb_init,
     rtcp_services = p_sec_serv (policy_rtcp p), limit = a + 3, direction = dir_unknown\<rparr>"

definition blank_stream :: "addr \<Rightarrow> srtp_stream_ctx_t" where
  "blank_stream a = \<lparr>ssrc = 0, rtp_cipher = a + 1, rtp_auth = a + 2, rtp_rdbx = rdbx_init, rtp_services = 0,
     rtcp_cipher = a + 4, rtcp_auth = a + 5, rtcp_rdb = rdb_init, rtcp_services = 0, limit = a + 3, direction = dir_unknown\<rparr>"

definition new_keys :: "srtp_policy_t \<Rightarrow> octets \<Rightarrow> cipher_t \<Rightarrow> cipher_t \<Rightarrow> auth_t \<Rightarrow> auth_t \<Rightarrow> bool" where
  "new_keys p key x1 x2 y1 y2 \<longleftrightarrow>
     cipher_keyed x1 (derived_cipher_key key label_rtp_encryption label_rtp_salt) \<and>
     cipher_keyed x2 (derived_cipher_key key label_rtcp_encryption label_rtcp_salt) \<and>
     auth_keyed y1 (Some (kdf_octets key label_rtp_msg_auth 20)) \<and> out_len y1 = p_auth_tag_len (policy_rtp p) \<and> prefix_len y1 = 0 \<and>
     auth_keyed y2 (Some (kdf_octets key label_rtcp_msg_auth 20)) \<and> out_len y2 = p_auth_tag_len (policy_rtcp p) \<and> prefix_len y2 = 0"

definition new_objects :: "srtp_policy_t \<Rightarrow> octets \<Rightarrow> addr \<Rightarrow> world \<Rightarrow> world \<Rightarrow> bool" where
  "new_objects p key a w w' \<longleftrightarrow> mallocs (mem w) \<le> a \<and> kernel w' = kernel w \<and> streams w' = (streams w)(a \<mapsto> new_stream p a) \<and>
     mallocs (mem w') = a + 6 \<and> malloc_ok (mem w') = malloc_ok (mem w) \<and>
     limits (mem w') = (limits (mem w))(a + 3 \<mapsto> \<lparr>num_left = 0xffffffffffff, key_state = key_state_normal\<rparr>) \<and>
     cipher_refs (mem w') = (cipher_refs (mem w))(aes_icm := 2 + cipher_refs (mem w) aes_icm) \<and>
     auth_refs (mem w') = (auth_refs (mem w))(hmac := 2 + auth_refs (mem w) hmac) \<and>
     (\<exists>x1 x2 y1 y2. ciphers (mem w') = (ciphers (mem w))(a + 1 \<mapsto> x1, a + 4 \<mapsto> x2) \<and>
        auths (mem w') = (auths (mem w))(a + 2 \<mapsto> y1, a + 5 \<mapsto> y2) \<and> new_keys p key x1 x2 y1 y2)"

lemma stream_alloc_ok:
  assumes "ready w" "standard_policy p key" "a = mallocs (mem w)"
  shows "\<exists>h. srtp_stream_alloc w p = Some (err_status_ok, Some a, w\<lparr>mem := h, streams := (streams w)(a \<mapsto> blank_stream a)\<rparr>) \<and>
    ciphers h = (ciphers (mem w))(a + 1 \<mapsto> \<lparr>cipher_state = fresh_cipher_ctx aes_icm, cipher_key_len = 30\<rparr>,
      a + 4 \<mapsto> \<lparr>cipher_state = fresh_cipher_ctx aes_icm, cipher_key_len = 30\<rparr>) \<and>
    auths h = (auths (mem w))(
      a + 2 \<mapsto> \<lparr>auth_state = fresh_auth_ctx hmac, out_len = p_auth_tag_len (policy_rtp p), auth_key_len = 20, prefix_len = 0\<rparr>,
      a + 5 \<mapsto> \<lparr>auth_state = fresh_auth_ctx hmac, out_len = p_auth_tag_len (policy_rtcp p), auth_key_len = 20, prefix_len = 0\<rparr>) \<and>
    limits h = (limits (mem w))(a + 3 \<mapsto> \<lparr>num_left = 0, key_state = key_state_normal\<rparr>) \<and>
    mallocs h = a + 6 \<and> malloc_ok h = malloc_ok (mem w) \<and>
    cipher_refs h = (cipher_refs (mem w))(aes_icm := 2 + cipher_refs (mem w) aes_icm) \<and>
    auth_refs h = (auth_refs (mem w))(hmac := 2 + auth_refs (mem w) hmac)"
proof -
  have ok: "\<forall>n \<ge> a. malloc_ok (mem w) n" and p: "icm_hmac (policy_rtp p)" "icm_hmac (policy_rtcp p)"
    using assms by (auto simp: ready_def standard_policy_def)
  from alloc_parts_ok [OF assms(1) p, of "a + 1" "(mem w)\<lparr>mallocs := a + 1\<rparr>"] ok obtain h where
    "alloc_parts (kernel w) ((mem w)\<lparr>mallocs := a + 1\<rparr>) p = Some (err_status_ok, Some (a + 1, a + 2, a + 3, a + 4, a + 5), h)"
    and h: "ciphers h = (ciphers (mem w))(a + 1 \<mapsto> \<lparr>cipher_state = fresh_cipher_ctx aes_icm, cipher_key_len = 30\<rparr>,
        a + 4 \<mapsto> \<lparr>cipher_state = fresh_cipher_ctx aes_icm, cipher_key_len = 30\<rparr>)"
      "auths h = (auths (mem w))(
        a + 2 \<mapsto> \<lparr>auth_state = fresh_auth_ctx hmac, out_len = p_auth_tag_len (policy_rtp p), auth_key_len = 20, prefix_len = 0\<rparr>,
        a + 5 \<mapsto> \<lparr>auth_state = fresh_auth_ctx hmac, out_len = p_auth_tag_len (policy_rtcp p), auth_key_len = 20, prefix_len = 0\<rparr>)"
      "limits h = (limits (mem w))(a + 3 \<mapsto> \<lparr>num_left = 0, key_state = key_state_normal\<rparr>)" "mallocs h = a + 6" "malloc_ok h = malloc_ok (mem w)"
      "cipher_refs h = (cipher_refs (mem w))(aes_icm := 2 + cipher_refs (mem w) aes_icm)"
      "auth_refs h = (auth_refs (mem w))(hmac := 2 + auth_refs (mem w) hmac)"
    by (auto simp del: fresh_cipher_ctx.simps fresh_auth_ctx.simps simp: numeral_eq_Suc)
  then show ?thesis using ok assms(3) by (intro exI [of _ h]) (simp add: srtp_stream_alloc_def crypto_alloc_def blank_stream_def)
qed

lemma stream_init_ok:
  assumes p: "standard_policy p key"
    and w: "streams w a = Some (blank_stream a)"
      "limits (mem w) (a + 3) = Some \<lparr>num_left = 0, key_state = key_state_normal\<rparr>" "ciphers (mem w) (a + 1) = Some \<lparr>cipher_state = fresh_cipher_ctx aes_icm, cipher_key_len = 30\<rparr>"
      "ciphers (mem w) (a + 4) = Some \<lparr>cipher_state = fresh_cipher_ctx aes_icm, cipher_key_len = 30\<rparr>"
      "auths (mem w) (a + 2) = Some \<lparr>auth_state = fresh_auth_ctx hmac, out_len = p_auth_tag_len (policy_rtp p), auth_key_len = 20, prefix_len = 0\<rparr>"
      "auths (mem w) (a + 5) = Some \<lparr>auth_state = fresh_auth_ctx hmac, out_len = p_auth_tag_len (policy_rtcp p), auth_key_len = 20, prefix_len = 0\<rparr>"
  shows "\<exists>x1 x2 y1 y2. srtp_stream_init w a p key = Some (err_status_ok, w\<lparr>mem := (mem w)\<lparr>
        limits := (limits (mem w))(a + 3 \<mapsto> \<lparr>num_left = 0xffffffffffff, key_state = key_state_normal\<rparr>),
        ciphers := (ciphers (mem w))(a + 1 \<mapsto> x1, a + 4 \<mapsto> x2), auths := (auths (mem w))(a + 2 \<mapsto> y1, a + 5 \<mapsto> y2)\<rparr>,
      streams := (streams w)(a \<mapsto> new_stream p a)\<rparr>) \<and> new_keys p key x1 x2 y1 y2"
proof -
  let ?h = "(mem w)\<lparr>limits := (limits (mem w))(a + 3 \<mapsto> \<lparr>num_left = 0xffffffffffff, key_state = key_state_normal\<rparr>)\<rparr>"
  have "\<exists>x1 x2 y1 y2. srtp_stream_init_keys ?h (new_stream p a) key = Some (err_status_ok,
      ?h\<lparr>ciphers := (ciphers ?h)(a + 1 \<mapsto> x1, a + 4 \<mapsto> x2), auths := (auths ?h)(a + 2 \<mapsto> y1, a + 5 \<mapsto> y2)\<rparr>) \<and>
    cipher_keyed x1 (derived_cipher_key key label_rtp_encryption label_rtp_salt) \<and>
    cipher_keyed x2 (derived_cipher_key key label_rtcp_encryption label_rtcp_salt) \<and>
    auth_keyed y1 (Some (kdf_octets key label_rtp_msg_auth 20)) \<and> out_len y1 = p_auth_tag_len (policy_rtp p) \<and> prefix_len y1 = 0 \<and>
    auth_keyed y2 (Some (kdf_octets key label_rtcp_msg_auth 20)) \<and> out_len y2 = p_auth_tag_len (policy_rtcp p) \<and> prefix_len y2 = 0"
    using p w by (intro init_keys_ok) (simp_all add: new_stream_def standard_policy_def del: fresh_cipher_ctx.simps fresh_auth_ctx.simps)
  then obtain x1 x2 y1 y2 where "srtp_stream_init_keys ?h (new_stream p a) key = Some (err_status_ok,
      ?h\<lparr>ciphers := (ciphers ?h)(a + 1 \<mapsto> x1, a + 4 \<mapsto> x2), auths := (auths ?h)(a + 2 \<mapsto> y1, a + 5 \<mapsto> y2)\<rparr>)" "new_keys p key x1 x2 y1 y2"
    unfolding new_keys_def by blast
  moreover have "(blank_stream a)\<lparr>rtp_rdbx := rdbx_init, ssrc := htonl (ssrc_value p), rtp_services := p_sec_serv (policy_rtp p),
      rtcp_services := p_sec_serv (policy_rtcp p), direction := dir_unknown, rtcp_rdb := rdb_init\<rparr> = new_stream p a"
    "limit (blank_stream a) = a + 3"
    by (simp_all add: new_stream_def blank_stream_def)
  ultimately have "srtp_stream_init w a p key = Some (err_status_ok, w\<lparr>mem :=
      ?h\<lparr>ciphers := (ciphers ?h)(a + 1 \<mapsto> x1, a + 4 \<mapsto> x2), auths := (auths ?h)(a + 2 \<mapsto> y1, a + 5 \<mapsto> y2)\<rparr>,
      streams := (streams w)(a \<mapsto> new_stream p a)\<rparr>)"
    using w(1,2) by (simp add: srtp_stream_init_def key_limit_set_def Let_def)
  with \<open>new_keys p key x1 x2 y1 y2\<close> show ?thesis by auto
qed

lemma srtp_create_objects:
  assumes w: "ready w" and p: "standard_policy p key"
  shows "\<exists>w' a. srtp_create w [p] = Some (err_status_ok, Some \<lparr>stream_list = [a], stream_template = None\<rparr>, w') \<and> new_objects p key a w w'"
proof -
  let ?a = "Suc (mallocs (mem w))"
  define w1 where w1: "w1 = w\<lparr>mem := (mem w)\<lparr>mallocs := ?a\<rparr>\<rparr>"
  have r: "ready w1" "?a = mallocs (mem w1)" "crypto_alloc (mem w) = (Some (mallocs (mem w)), mem w1)"
    using w by (simp_all add: ready_def w1 crypto_alloc_def)
  obtain h where h: "srtp_stream_alloc w1 p = Some (err_status_ok, Some ?a, w1\<lparr>mem := h, streams := (streams w1)(?a \<mapsto> blank_stream ?a)\<rparr>)" (is "_ = Some (_, _, ?w2)")
    and parts: "ciphers h = (ciphers (mem w1))(?a + 1 \<mapsto> \<lparr>cipher_state = fresh_cipher_ctx aes_icm, cipher_key_len = 30\<rparr>,
        ?a + 4 \<mapsto> \<lparr>cipher_state = fresh_cipher_ctx aes_icm, cipher_key_len = 30\<rparr>)"
      "auths h = (auths (mem w1))(
        ?a + 2 \<mapsto> \<lparr>auth_state = fresh_auth_ctx hmac, out_len = p_auth_tag_len (policy_rtp p), auth_key_len = 20, prefix_len = 0\<rparr>,
        ?a + 5 \<mapsto> \<lparr>auth_state = fresh_auth_ctx hmac, out_len = p_auth_tag_len (policy_rtcp p), auth_key_len = 20, prefix_len = 0\<rparr>)"
      "limits h = (limits (mem w1))(?a + 3 \<mapsto> \<lparr>num_left = 0, key_state = key_state_normal\<rparr>)"
      "mallocs h = ?a + 6" "malloc_ok h = malloc_ok (mem w1)"
      "cipher_refs h = (cipher_refs (mem w1))(aes_icm := 2 + cipher_refs (mem w1) aes_icm)"
      "auth_refs h = (auth_refs (mem w1))(hmac := 2 + auth_refs (mem w1) hmac)"
    using stream_alloc_ok [OF r(1) p r(2)] by blast
  have "\<exists>x1 x2 y1 y2. srtp_stream_init ?w2 ?a p key = Some (err_status_ok, ?w2\<lparr>mem := (mem ?w2)\<lparr>
        limits := (limits (mem ?w2))(?a + 3 \<mapsto> \<lparr>num_left = 0xffffffffffff, key_state = key_state_normal\<rparr>),
        ciphers := (ciphers (mem ?w2))(?a + 1 \<mapsto> x1, ?a + 4 \<mapsto> x2), auths := (auths (mem ?w2))(?a + 2 \<mapsto> y1, ?a + 5 \<mapsto> y2)\<rparr>,
      streams := (streams ?w2)(?a \<mapsto> new_stream p ?a)\<rparr>) \<and> new_keys p key x1 x2 y1 y2"
    by (rule stream_init_ok [OF p]) (simp_all add: parts del: fresh_cipher_ctx.simps fresh_auth_ctx.simps)
  then obtain x1 x2 y1 y2 where i: "srtp_stream_init ?w2 ?a p key = Some (err_status_ok, ?w2\<lparr>mem := (mem ?w2)\<lparr>
        limits := (limits (mem ?w2))(?a + 3 \<mapsto> \<lparr>num_left = 0xffffffffffff, key_state = key_state_normal\<rparr>),
        ciphers := (ciphers (mem ?w2))(?a + 1 \<mapsto> x1, ?a + 4 \<mapsto> x2), auths := (auths (mem ?w2))(?a + 2 \<mapsto> y1, ?a + 5 \<mapsto> y2)\<rparr>,
      streams := (streams ?w2)(?a \<mapsto> new_stream p ?a)\<rparr>)" (is "_ = Some (_, ?w3)") and k: "new_keys p key x1 x2 y1 y2" by blast
  have "srtp_create w [p] = Some (err_status_ok, Some \<lparr>stream_list = [?a], stream_template = None\<rparr>, ?w3)"
    using r(3) p h i by (simp add: srtp_create_def srtp_add_stream_def standard_policy_def w1)
  moreover have "new_objects p key ?a w ?w3"
    using k unfolding new_objects_def by (simp add: parts w1 fun_upd_twist [of "Suc (Suc _)"] del: fresh_cipher_ctx.simps fresh_auth_ctx.simps) blast
  ultimately show ?thesis by blast
qed

lemma srtp_create_ok:
  assumes w: "ready w" and p: "standard_policy p key"
  shows "\<exists>w' a. srtp_create w [p] = Some (err_status_ok, Some \<lparr>stream_list = [a], stream_template = None\<rparr>, w') \<and>
    has_view w' a (policy_view p key) \<and> ready w' \<and> extends w w' \<and> allocated w' a"
proof -
  obtain w' a where c: "srtp_create w [p] = Some (err_status_ok, Some \<lparr>stream_list = [a], stream_template = None\<rparr>, w')"
      and n: "new_objects p key a w w'" using srtp_create_objects [OF assms] by blast
  have "has_view w' a (policy_view p key)"
    using n p by (auto simp: new_objects_def new_keys_def has_view_def new_stream_def policy_view_def standard_policy_def icm_hmac_def)
  moreover have "ready w'" using n w by (auto simp: new_objects_def ready_def)
  moreover have "extends w w'" using n by (auto simp: new_objects_def extends_def)
  moreover have "allocated w' a" using n by (simp add: new_objects_def allocated_def new_stream_def)
  ultimately show ?thesis using c by blast
qed

text \<open>The first packet of a stream may carry any sequence number.\<close>

lemma first_index:
  assumes "v_rdbx v = rdbx_init"
  shows "\<exists>d r. send_index v msg (ucast (ntohs (hdr_seq msg))) d r \<and> rdbx_index r = ucast (ntohs (hdr_seq msg))"
proof -
  let ?s = "ntohs (hdr_seq msg)"
  have e: "rdbx_estimate_index rdbx_init ?s = (ucast ?s, uint ?s)"
    by (simp add: rdbx_estimate_index_def rdbx_init_def index_init_def)
  have "\<not> 127 + uint ?s < 0" using uint_nonnegative [of ?s] by linarith
  then have "rdbx_check rdbx_init (uint ?s) = err_status_ok"
    by (auto simp: rdbx_check_def rdbx_init_def v128_get_bit_eq_1_iff)
  moreover from rdbx_add_after_check [OF this] obtain r where r: "rdbx_add_index rdbx_init (uint ?s) = Some r" by blast
  moreover have "rdbx_index r = ucast ?s"
  proof (cases "uint ?s = 0")
    case True
    then have "?s = 0" by (simp add: uint_0_iff)
    then show ?thesis using r by (auto simp: rdbx_add_index_def rdbx_init_def index_init_def)
  next
    case False
    then have "0 < uint ?s" using uint_nonnegative [of ?s] by linarith
    then show ?thesis using r by (auto simp: rdbx_add_index_def rdbx_init_def index_init_def index_advance_def)
  qed
  ultimately show ?thesis using assms e by (auto simp: send_index_def)
qed

text \<open>A session with one stream, in the state before its first packet.\<close>

definition start_state :: "srtp_ctx_t \<Rightarrow> world \<Rightarrow> pstate" where
  "start_state ctx w = \<lparr>session = ctx, wld = w, packet = [], pkt_octet_len = 0\<rparr>"

lemma created_endpoint:
  assumes "ready w" "standard_policy p key"
  shows "\<exists>ctx w' a. srtp_create w [p] = Some (err_status_ok, Some ctx, w') \<and> endpoint (start_state ctx w') a (policy_view p key) \<and>
    stream_template ctx = None \<and> stream_list ctx = [a] \<and> extends w w' \<and> ready w' \<and> allocated w' a"
proof -
  obtain w' a where c: "srtp_create w [p] = Some (err_status_ok, Some \<lparr>stream_list = [a], stream_template = None\<rparr>, w')"
      "has_view w' a (policy_view p key)" "ready w'" "extends w w'" "allocated w' a"
    using srtp_create_ok [OF assms] by blast
  then have "endpoint (start_state \<lparr>stream_list = [a], stream_template = None\<rparr> w') a (policy_view p key)"
    by (auto simp: endpoint_def start_state_def srtp_get_stream_def has_view_def)
  with c show ?thesis by auto
qed

lemma policy_peers:
  assumes "standard_policy p key" "standard_policy p' key'" "take 30 key = take 30 key'"
    and "ssrc_value p' = ssrc_value p" "policy_rtp p' = policy_rtp p"
  shows "peers (policy_view p key) (policy_view p' key')"
proof -
  have "icm_key key = icm_key key'" using assms by (intro icm_key_cong) (auto simp: standard_policy_def)
  then have "kdf_octets key' = kdf_octets key" by (simp add: kdf_octets_def fun_eq_iff)
  then show ?thesis using assms by (simp add: peers_def policy_view_def derived_cipher_key_def)
qed

text \<open>The first packet is delivered; then any losses below the bound.\<close>

lemma transmit_from_start:
  assumes e: "endpoint tx a v" "endpoint rx b v'" "peers v v'" and v: "v_auth v \<or> v_tag_len v = 0"
    and init: "v_rdbx v = rdbx_init" "v_rdbx v' = rdbx_init"
    and n: "num_left (v_limit v) = 0xffffffffffff" "num_left (v_limit v') = 0xffffffffffff"
    and msg: "rtp_message v start msg" "\<forall>p \<in> set ps. \<exists>start. rtp_message v start (fst p)"
    and seq: "numbered (ucast (ntohs (hdr_seq msg))) (map fst ps)" and loss: "losses_bounded 0 (map snd ps)"
    and len: "length ps < 2 ^ 47"
  shows "\<exists>tx' rx'. transmit stack tx rx ((msg, True) # ps) = Some (msg # map fst (filter snd ps), tx', rx')"
proof -
  let ?i = "ucast (ntohs (hdr_seq msg)) :: u64"
  obtain d r where r: "send_index v msg ?i d r" "rdbx_index r = ?i" using first_index [OF init(1)] by blast
  obtain d' r' where r': "send_index v' msg ?i d' r'" "rdbx_index r' = ?i" using first_index [OF init(2)] by blast
  have nl: "1 + length ps + 1 < unat (num_left (v_limit v))" "1 + length ps + 1 < unat (num_left (v_limit v'))" using n len by simp_all
  have k: "key_usable v" "key_usable v'" using usable_step(1) [OF nl(1)] usable_step(1) [OF nl(2)] by (simp_all add: key_usable_def)
  have "v_overhead v \<le> length (replicate 12 (0 :: u8))" using msg(1) by (simp add: rtp_message_def v_overhead_def)
  from one_packet [OF e msg(1) v this r(1) r'(1) k, of stack] obtain tx' rx' where
    tx: "srtp_protect (load_packet (msg @ replicate 12 0) (int (length msg)) tx) = Some (err_status_ok, tx')"
    and rx: "srtp_unprotect stack (load_packet (packet tx') (pkt_octet_len tx') rx) = Some (err_status_ok, rx')"
      "take (nat (pkt_octet_len rx')) (packet rx') = msg"
    and e': "endpoint tx' a (after_packet v r)" "endpoint rx' b (after_packet v' r')" by blast
  have i: "uint ?i < 65536" using uint_bounded [of "ntohs (hdr_seq msg)"] by (simp add: uint_up_ucast is_up)
  have "\<exists>tx'' rx''. transmit stack tx' rx' ps = Some (map fst (filter snd ps), tx'', rx'')"
  proof (rule transmit_delivers [OF e'])
    show "peers (after_packet v r) (after_packet v' r')" using e(3) peers_after by blast
    show "\<forall>p \<in> set ps. \<exists>start. rtp_message (after_packet v r) start (fst p)" using msg(2) by (auto simp: rtp_message_def)
    show "uint (rdbx_index (v_rdbx (after_packet v r))) - uint (rdbx_index (v_rdbx (after_packet v' r'))) = int 0" using r r' by simp
    show "uint (rdbx_index (v_rdbx (after_packet v r))) + int (length ps) < 2 ^ 48" using r(2) i len by simp
    show "length ps < unat (num_left (v_limit (after_packet v r)))" "length ps < unat (num_left (v_limit (after_packet v' r')))"
      using usable_step(2) [OF nl(1)] usable_step(2) [OF nl(2)] nl by simp_all
  qed (use v seq loss r in simp_all)
  with tx rx show ?thesis by auto
qed

subsection \<open>Replays\<close>

lemma peers_refl: "peers v v"
  by (simp add: peers_def)

lemma send_index_seq: "send_index v msg i d r \<Longrightarrow> ntohs (hdr_seq msg) = ucast i"
proof -
  have "(ucast (ucast s :: u64) :: u16) = s" for s by (rule bit_word_eqI) (auto simp: bit_simps dest: bit_imp_le_length)
  then show "send_index v msg i d r \<Longrightarrow> ntohs (hdr_seq msg) = ucast i"
    by (auto simp: send_index_def rdbx_estimate_index_def index_guess_def Let_def ucast_roc_seq split: if_splits)
qed

text \<open>A packet that has become the current index is known.\<close>

lemma newest_known:
  assumes "send_index v msg i d r" "0 < d" "rdbx_index r = i" "uint i < 2 ^ 48"
  shows "rdbx_knows r {uint i}"
  using rdbx_current_marked [of d "v_rdbx v" r] assms by (simp add: send_index_def rdbx_knows_def)

lemma last_index_bound: "packets_ahead v i ps \<Longrightarrow> uint i < 2 ^ 48 \<Longrightarrow> uint (last_index i ps) < 2 ^ 48"
  by (induction v i ps rule: packets_ahead.induct) (auto split: if_splits)

lemma replayed_refused:
  assumes "endpoint rx b w" "peers v w" "rtp_message v start msg" "ntohs (hdr_seq msg) = ucast i"
    and "rdbx_check_packet (v_rdbx w) i = status" "status \<noteq> err_status_ok"
    and "pkt = rtp_packet v i start msg @ room" "n = int (length (rtp_packet v i start msg))"
  shows "srtp_unprotect stack (load_packet pkt n rx) = Some (status, load_packet pkt n rx)"
proof -
  obtain est d where d: "rdbx_estimate_index (v_rdbx w) (ucast i) = (est, d)" "rdbx_check (v_rdbx w) d = status"
    using assms(5) by (auto simp: rdbx_check_packet_def split: prod.splits)
  show ?thesis
    by (rule srtp_unprotect_replay [of _ b w est d])
      (use assms d rtp_packet_header [OF assms(3)] length_rtp_packet [OF assms(3)] in \<open>simp_all add: peers_def rtp_message_def\<close>)
qed

subsection \<open>An example\<close>

text \<open>A kernel with the types that the library loads, an empty heap, and the policy of the application.\<close>

definition example_world :: world where
  "example_world = \<lparr>mem = \<lparr>ciphers = (\<lambda>_. None), auths = (\<lambda>_. None), limits = (\<lambda>_. None), mallocs = 0, malloc_ok = (\<lambda>_. True),
       cipher_refs = (\<lambda>_. 0), auth_refs = (\<lambda>_. 0)\<rparr>,
     kernel = \<lparr>kernel_state = crypto_kernel_state_secure, cipher_type_list = [(3, aes_cbc), (1, aes_icm), (0, null_cipher)],
       auth_type_list = [(3, hmac), (0, null_auth)], debug_module_list = []\<rparr>,
     streams = (\<lambda>_. None), event_handler = True, events = []\<rparr>"

definition example_policy :: "octets \<Rightarrow> srtp_policy_t" where
  "example_policy key = \<lparr>ssrc_type = ssrc_specific, ssrc_value = 0x01020304, policy_rtp = crypto_policy_set_aes_cm_128_hmac_sha1_32,
     policy_rtcp = crypto_policy_set_rtcp_default, policy_key = Some key\<rparr>"

text \<open>A version 2 packet with sequence number \<open>256 * h + l\<close> and four octets of payload.\<close>

definition example_message :: "u8 \<Rightarrow> u8 \<Rightarrow> octets" where
  "example_message h l = [0x80, 0, h, l, 0, 0, 0, 1, 1, 2, 3, 4, 10, 20, 30, 40]"

lemma example_ready [simp]: "ready example_world"
  by (simp add: ready_def example_world_def crypto_kernel_get_cipher_type_def crypto_kernel_get_auth_type_def)

lemma example_standard [simp]: "32 \<le> length key \<Longrightarrow> standard_policy (example_policy key) key"
  by (simp add: standard_policy_def example_policy_def icm_hmac_def crypto_policy_set_aes_cm_128_hmac_sha1_32_def crypto_policy_set_rtcp_default_def)

lemma example_view [simp]:
  "v_auth (policy_view (example_policy key) key)" "v_conf (policy_view (example_policy key) key)"
  "v_tag_len (policy_view (example_policy key) key) = 4" "v_overhead (policy_view (example_policy key) key) = 4"
  "v_rdbx (policy_view (example_policy key) key) = rdbx_init"
  "v_ssrc (policy_view (example_policy key) key) = 0x04030201"
  "v_limit (policy_view (example_policy key) key) = \<lparr>num_left = 0xffffffffffff, key_state = key_state_normal\<rparr>"
  by (simp_all add: policy_view_def example_policy_def v_auth_def v_conf_def v_overhead_def has_service_def
      crypto_policy_set_aes_cm_128_hmac_sha1_32_def bswap32_def be32_of_def le32_of_def)

lemma example_hdr [simp]: "ntohs (hdr_seq (example_message h l)) = push_bit 8 (ucast h) OR ucast l"
  by (rule bit_word_eqI) (auto simp: bit_bswap16 hdr_seq_def example_message_def le16_of_def bit_simps dest: bit_imp_le_length)

lemma length_example [simp]: "length (example_message h l) = 16"
  by (simp add: example_message_def)

lemma example_usable [simp]: "key_usable (policy_view (example_policy key) key)"
  by (simp add: key_usable_def key_limit_update_def Let_def)

lemma example_layout [simp]:
  "rtp_enc_start (example_message h l) = Some 12" "hdr_ssrc (example_message h l) = 0x04030201"
  by (simp_all add: example_message_def hdr_ssrc_def rtp_enc_start_def Let_def hdr_x_def hdr_cc_def le32_of_def)

lemma example_rtp [simp]: "rtp_message (policy_view (example_policy key) key) 12 (example_message h l)"
  by (simp add: rtp_message_def)

lemma example_first_index:
  "\<exists>r. send_index (policy_view (example_policy key) key) (example_message 0xff 0xff) 0xffff 0xffff r \<and> rdbx_index r = 0xffff"
proof -
  have s: "ntohs (hdr_seq (example_message 0xff 0xff)) = 0xffff" by simp
  have "rdbx_estimate_index rdbx_init 0xffff = (0xffff, 0xffff)" by (simp add: rdbx_estimate_index_def rdbx_init_def index_init_def)
  then show ?thesis unfolding send_index_def s
    by (simp add: rdbx_check_def rdbx_add_index_def rdbx_init_def index_init_def index_advance_def)
qed

subsection \<open>Properties\<close>

text \<open>
  C2: two sessions communicate. Two ready processes create sessions from the same counter mode and
  HMAC-SHA1 policy and the same 30 octets of master key and salt. Whatever the sequence number of the
  first packet is, if it is delivered, the following packets are numbered consecutively and fewer than
  32767 are lost in a row, then every packet is protected, and every packet that is delivered is
  unprotected to exactly the message that was sent, for up to \<open>2 ^ 47\<close> packets.
\<close>

theorem srtp_sessions_communicate:
  assumes "ready w" "ready w'" and p: "standard_policy p key" "standard_policy p' key'" "take 30 key = take 30 key'"
      "ssrc_value p' = ssrc_value p" "policy_rtp p' = policy_rtp p"
    and v: "v_auth (policy_view p key) \<or> v_tag_len (policy_view p key) = 0"
    and msg: "rtp_message (policy_view p key) start msg" "\<forall>q \<in> set ps. \<exists>start. rtp_message (policy_view p key) start (fst q)"
    and "numbered (ucast (ntohs (hdr_seq msg))) (map fst ps)" "losses_bounded 0 (map snd ps)" "length ps < 2 ^ 47"
  shows "\<exists>ctx ctx' w1 w1' tx rx. srtp_create w [p] = Some (err_status_ok, Some ctx, w1) \<and>
    srtp_create w' [p'] = Some (err_status_ok, Some ctx', w1') \<and>
    transmit stack (start_state ctx w1) (start_state ctx' w1') ((msg, True) # ps) = Some (msg # map fst (filter snd ps), tx, rx)"
proof -
  obtain ctx w1 a where 1: "srtp_create w [p] = Some (err_status_ok, Some ctx, w1)" "endpoint (start_state ctx w1) a (policy_view p key)"
    using created_endpoint [OF assms(1) p(1)] by blast
  obtain ctx' w1' b where 2: "srtp_create w' [p'] = Some (err_status_ok, Some ctx', w1')" "endpoint (start_state ctx' w1') b (policy_view p' key')"
    using created_endpoint [OF assms(2) p(2)] by blast
  have "\<exists>tx rx. transmit stack (start_state ctx w1) (start_state ctx' w1') ((msg, True) # ps) = Some (msg # map fst (filter snd ps), tx, rx)"
    by (rule transmit_from_start [OF 1(2) 2(2) policy_peers [OF p] v _ _ _ _ msg]) (use assms in \<open>simp_all add: policy_view_def\<close>)
  with 1 2 show ?thesis by blast
qed

theorem srtp_sessions_communicate_witness:
  "\<exists>ctx ctx' w1 w1' tx rx. srtp_create example_world [example_policy (replicate 32 7)] = Some (err_status_ok, Some ctx, w1) \<and>
    srtp_create example_world [example_policy (replicate 30 7 @ [1, 2])] = Some (err_status_ok, Some ctx', w1') \<and>
    transmit (\<lambda>_. 0) (start_state ctx w1) (start_state ctx' w1')
      [(example_message 0xff 0xff, True), (example_message 0 0, False), (example_message 0 1, True)] =
      Some ([example_message 0xff 0xff, example_message 0 1], tx, rx)"
proof -
  let ?ps = "[(example_message 0 0, False), (example_message 0 1, True)]"
  have seq: "numbered (ucast (ntohs (hdr_seq (example_message 0xff 0xff)))) (map fst ?ps)"
  proof -
    have "(0x10000 :: u16) = 0" "(0x10001 :: u16) = 1" by simp_all
    then show ?thesis by simp
  qed
  have "\<exists>ctx ctx' w1 w1' tx rx. srtp_create example_world [example_policy (replicate 32 7)] = Some (err_status_ok, Some ctx, w1) \<and>
    srtp_create example_world [example_policy (replicate 30 7 @ [1, 2])] = Some (err_status_ok, Some ctx', w1') \<and>
    transmit (\<lambda>_. 0) (start_state ctx w1) (start_state ctx' w1') ((example_message 0xff 0xff, True) # ?ps) =
      Some (example_message 0xff 0xff # map fst (filter snd ?ps), tx, rx)"
    by (rule srtp_sessions_communicate [where key = "replicate 32 7" and key' = "replicate 30 7 @ [1, 2]", OF _ _ _ _ _ _ _ _ example_rtp _ seq])
      (auto simp: example_policy_def intro: example_standard [unfolded example_policy_def] example_rtp [unfolded example_policy_def]
        example_view(1) [unfolded example_policy_def])
  then show ?thesis by (simp del: transmit.simps)
qed

text \<open>
  C3: the packet format. For a stream with an unused key and a message whose index the replay database
  accepts, \<^verbatim>\<open>srtp_protect\<close> succeeds and the packet in the buffer is the header in clear, the payload
  combined with the keystream of the packet index, and the truncated tag of both and the rollover
  counter; the room behind is untouched, the length grows by the tag, and the stream has the index
  recorded and the key charged.
\<close>

theorem srtp_protect_refines_format:
  assumes "endpoint st a v" "packet st = msg @ room" "pkt_octet_len st = int (length msg)" "rtp_message v start msg"
    and "v_overhead v \<le> length room" "send_index v msg i d r" "key_usable v"
  shows "\<exists>st'. srtp_protect st = Some (err_status_ok, st') \<and>
    packet st' = rtp_packet v i start msg @ drop (v_overhead v) room \<and> pkt_octet_len st' = int (length msg + v_overhead v) \<and>
    endpoint st' a (after_packet v r)"
proof -
  obtain st' where "srtp_protect st = Some (err_status_ok, st')" "packet st' = rtp_packet v i start msg @ drop (v_overhead v) room"
      "pkt_octet_len st' = int (length (rtp_packet v i start msg))" "has_view (wld st') a (after_packet v r)" "same_session st st'"
    using srtp_protect_run [of st a v msg room start i d r] assms by (auto simp: endpoint_def)
  moreover have "endpoint st' a (after_packet v r)" by (rule endpoint_step [OF assms(1)]) (use calculation in simp_all)
  ultimately show ?thesis using length_rtp_packet [OF assms(4)] by simp
qed

theorem srtp_protect_refines_format_witness:
  "\<exists>ctx w a r st'. srtp_create example_world [example_policy (replicate 32 7)] = Some (err_status_ok, Some ctx, w) \<and>
    srtp_protect (load_packet (example_message 1 2 @ replicate 4 0) 16 (start_state ctx w)) = Some (err_status_ok, st') \<and>
    packet st' = rtp_packet (policy_view (example_policy (replicate 32 7)) (replicate 32 7)) 0x102 12 (example_message 1 2) \<and>
    pkt_octet_len st' = 20 \<and> endpoint st' a (after_packet (policy_view (example_policy (replicate 32 7)) (replicate 32 7)) r)"
proof -
  let ?v = "policy_view (example_policy (replicate 32 7)) (replicate 32 7)"
  obtain ctx w a where c: "srtp_create example_world [example_policy (replicate 32 7)] = Some (err_status_ok, Some ctx, w)"
      "endpoint (start_state ctx w) a ?v"
    using created_endpoint [of example_world "example_policy (replicate 32 7)" "replicate 32 7"] by auto
  obtain d r where "send_index ?v (example_message 1 2) 0x102 d r" using first_index [of ?v "example_message 1 2"] by auto
  from srtp_protect_refines_format [of "load_packet (example_message 1 2 @ replicate 4 0) 16 (start_state ctx w)" a ?v
      "example_message 1 2" "replicate 4 0" 12 "0x102" d r] this c show ?thesis
    by auto
qed

text \<open>
  C4: forgeries. A packet of full length whose index the replay database would accept, but whose last
  octets are not the tag of the octets before them under that index, is refused with an
  authentication failure; the packet, its length, the replay database and the key count are unchanged.
\<close>

theorem srtp_unprotect_forged:
  assumes "endpoint st a v" "v_auth v" "v_tag_len v \<le> 12" "pkt_octet_len st = int (n + v_tag_len v)"
    and "n + v_tag_len v \<le> length (packet st)" "12 \<le> n + v_tag_len v" "n \<le> 65500"
    and "hdr_ssrc (packet st) = v_ssrc v" "rtp_enc_start (packet st) = Some start"
    and "rdbx_estimate_index (v_rdbx v) (ntohs (hdr_seq (packet st))) = (i, d)" "rdbx_check (v_rdbx v) d = err_status_ok"
    and "slice n (v_tag_len v) (packet st) \<noteq> rtp_tag v i (take n (packet st))"
  shows "\<exists>st'. srtp_unprotect stack st = Some (err_status_auth_fail, st') \<and>
    packet st' = packet st \<and> pkt_octet_len st' = pkt_octet_len st \<and> endpoint st' a v"
proof -
  obtain st' where "srtp_unprotect stack st = Some (err_status_auth_fail, st')" "packet st' = packet st"
      "pkt_octet_len st' = pkt_octet_len st" "has_view (wld st') a v" "same_session st st'"
    using srtp_unprotect_refused [of st a v n start i d stack] assms by (auto simp: endpoint_def)
  moreover have "endpoint st' a v" by (rule endpoint_step [OF assms(1)]) (use calculation in simp_all)
  ultimately show ?thesis by blast
qed

lemma example_created:
  "\<exists>ctx w a. srtp_create example_world [example_policy (replicate 32 7)] = Some (err_status_ok, Some ctx, w) \<and>
    endpoint (start_state ctx w) a (policy_view (example_policy (replicate 32 7)) (replicate 32 7)) \<and>
    stream_template ctx = None \<and> stream_list ctx = [a]"
  using created_endpoint [of example_world "example_policy (replicate 32 7)" "replicate 32 7"] by auto

theorem srtp_unprotect_forged_witness:
  "\<exists>ctx w x st'. srtp_create example_world [example_policy (replicate 32 7)] = Some (err_status_ok, Some ctx, w) \<and>
    srtp_unprotect (\<lambda>_. 0) (load_packet (example_message 1 2 @ [x, 0, 0, 0]) 20 (start_state ctx w)) = Some (err_status_auth_fail, st') \<and>
    packet st' = example_message 1 2 @ [x, 0, 0, 0]"
proof -
  let ?v = "policy_view (example_policy (replicate 32 7)) (replicate 32 7)"
  obtain ctx w a where c: "srtp_create example_world [example_policy (replicate 32 7)] = Some (err_status_ok, Some ctx, w)"
      "endpoint (start_state ctx w) a ?v" using example_created by blast
  obtain d r where i: "send_index ?v (example_message 1 2) 0x102 d r" using first_index [of ?v "example_message 1 2"] by auto
  define x :: u8 where "x = hd (rtp_tag ?v 0x102 (example_message 1 2)) + 1"
  have "[x, 0, 0, 0] \<noteq> rtp_tag ?v 0x102 (example_message 1 2)"
  proof
    assume "[x, 0, 0, 0] = rtp_tag ?v 0x102 (example_message 1 2)"
    then have "hd (rtp_tag ?v 0x102 (example_message 1 2)) = x" by (metis list.sel(1))
    then show False by (simp add: x_def)
  qed
  with srtp_unprotect_forged [of "load_packet (example_message 1 2 @ [x, 0, 0, 0]) 20 (start_state ctx w)" a ?v 16 12 "0x102" d "\<lambda>_. 0"] c i
  show ?thesis
    by (auto simp: hdr_append slice_def send_index_def enc_start_append)
qed

text \<open>
  C5: replays. A receiver accepts a packet that moves its index ahead to \<open>i\<close>, and after it any list of
  authentic packets, each up to 32767 indices ahead of the one before. Presented again while the current index
  \<open>c\<close> is at most 32767 past \<open>i\<close>, the packet is refused as long as no rollover lies between, as a replay within
  128 indices and as too old behind them, and the refusal leaves the whole state as it was. Once the sequence
  number has rolled over, the same packet is accepted and its message is handed out a second time.
\<close>

theorem srtp_unprotect_replayed:
  fixes room :: octets
  assumes e: "endpoint rx b v" and v: "v_auth v \<or> v_tag_len v = 0" and msg: "rtp_message v start msg"
    and idx: "send_index v msg i d r" "0 < d" "rdbx_index r = i" "uint i < 2 ^ 48"
    and ps: "packets_ahead v i ps" "length ps + 1 < unat (num_left (v_limit v))"
  defines "c \<equiv> uint (last_index i ps)" and "pkt \<equiv> rtp_packet v i start msg @ room" and "n \<equiv> int (length (rtp_packet v i start msg))"
  assumes near: "c - uint i \<le> 32767"
  shows "\<exists>rx'. unprotect_all stack rx (map (packet_buffer v) ((i, start, msg, room) # ps)) = Some rx' \<and>
    (uint i div 65536 = c div 65536 \<longrightarrow> srtp_unprotect stack' (load_packet pkt n rx') =
       Some (if c - uint i < 128 then err_status_replay_fail else err_status_replay_old, load_packet pkt n rx')) \<and>
    (uint i div 65536 \<noteq> c div 65536 \<and> length ps + 2 < unat (num_left (v_limit v)) \<longrightarrow>
       (\<exists>rx''. srtp_unprotect stack' (load_packet pkt n rx') = Some (err_status_ok, rx'') \<and>
          pkt_octet_len rx'' = int (length msg) \<and> take (length msg) (packet rx'') = msg))"
proof -
  have u: "key_usable v" using usable_step(1) [OF ps(2)] by (simp add: key_usable_def)
  obtain rx1 where 1: "srtp_unprotect stack (load_packet pkt n rx) = Some (err_status_ok, rx1)" "endpoint rx1 b (after_packet v r)"
    using unprotect_one [OF e peers_refl v msg idx(1) u, of stack room] unfolding pkt_def n_def by blast
  have seq: "ntohs (hdr_seq msg) = ucast i" using send_index_seq [OF idx(1)] .
  have k: "rdbx_knows r {uint i}" using newest_known [OF idx] .
  obtain rx' w where 2: "unprotect_all stack rx1 (map (packet_buffer v) ps) = Some rx'" "endpoint rx' b w" "peers v w"
      "rdbx_index (v_rdbx w) = last_index i ps" "rdbx_knows (v_rdbx w) {uint i}"
      "unat (num_left (v_limit w)) = unat (num_left (v_limit v)) - 1 - length ps"
  proof -
    have a: "packets_ahead v (rdbx_index (v_rdbx (after_packet v r))) ps" "rdbx_knows (v_rdbx (after_packet v r)) {uint i}"
      using ps(1) idx(3) k by simp_all
    have "length ps < unat (num_left (v_limit (after_packet v r)))" using usable_step(2) [OF ps(2)] ps(2) by simp
    from unprotect_ahead [OF 1(2) peers_after(2) [OF peers_refl] v a(1) this a(2), of stack] show ?thesis
      using that usable_step(2) [OF ps(2)] idx(3) by auto
  qed
  have c: "c = uint (rdbx_index (v_rdbx w))" "c < 2 ^ 48" "uint i \<le> c"
    using 2(4,5) last_index_bound [OF ps(1) idx(4)] by (simp_all add: c_def rdbx_knows_def)
  have again: "srtp_unprotect stack' (load_packet pkt n rx') =
      Some (if c - uint i < 128 then err_status_replay_fail else err_status_replay_old, load_packet pkt n rx')"
    if same: "uint i div 65536 = c div 65536"
  proof (rule replayed_refused [OF 2(2,3) msg seq])
    show "rdbx_check_packet (v_rdbx w) i = (if c - uint i < 128 then err_status_replay_fail else err_status_replay_old)"
      using rdbx_known_status [OF 2(5), of i] same near c by (simp add: rdbx_same_roc_def)
  qed (simp_all add: pkt_def n_def)
  have twice: "\<exists>rx''. srtp_unprotect stack' (load_packet pkt n rx') = Some (err_status_ok, rx'') \<and>
          pkt_octet_len rx'' = int (length msg) \<and> take (length msg) (packet rx'') = msg"
    if rolled: "uint i div 65536 \<noteq> c div 65536" "length ps + 2 < unat (num_left (v_limit v))"
  proof -
    have "key_usable w" using usable_step(1) [of 0 "v_limit w"] 2(6) rolled(2) by (simp add: key_usable_def)
    moreover have "\<exists>r'. send_index w msg i (c - uint i) r'"
      using rdbx_rolled_over [of i "v_rdbx w"] rolled(1) near c seq by (simp add: send_index_def)
    ultimately show ?thesis using unprotect_one [OF 2(2,3) v msg, of i "c - uint i" _ stack' room] unfolding pkt_def n_def by blast
  qed
  show ?thesis using 1(1) 2(1) again twice by (auto simp: pkt_def n_def)
qed

theorem srtp_unprotect_replayed_witness:
  "\<exists>ctx w rx1 rx2 rx3 pkt. srtp_create example_world [example_policy (replicate 32 7)] = Some (err_status_ok, Some ctx, w) \<and>
    unprotect_all (\<lambda>_. 0) (start_state ctx w) [(pkt, 20)] = Some rx1 \<and>
    srtp_unprotect (\<lambda>_. 1) (load_packet pkt 20 rx1) = Some (err_status_replay_fail, load_packet pkt 20 rx1) \<and>
    (\<exists>later. unprotect_all (\<lambda>_. 0) (start_state ctx w) [(pkt, 20), (later, 20)] = Some rx2 \<and>
      srtp_unprotect (\<lambda>_. 1) (load_packet pkt 20 rx2) = Some (err_status_ok, rx3) \<and> take 16 (packet rx3) = example_message 0xff 0xff)"
proof -
  let ?v = "policy_view (example_policy (replicate 32 7)) (replicate 32 7)" let ?m = "example_message 0xff 0xff"
  obtain ctx w a where c: "srtp_create example_world [example_policy (replicate 32 7)] = Some (err_status_ok, Some ctx, w)"
      "endpoint (start_state ctx w) a ?v" using example_created by blast
  have l: "length (rtp_packet ?v i 12 (example_message h l)) = 20" for i h l using length_rtp_packet [OF example_rtp] by simp
  obtain r where i: "send_index ?v ?m 0xffff 0xffff r" "rdbx_index r = 0xffff" using example_first_index by blast
  have z: "(0x10000 :: u16) = 0" by simp
  let ?pkt = "rtp_packet ?v 0xffff 12 ?m" let ?later = "rtp_packet ?v 0x10000 12 (example_message 0 0)"
  note t = srtp_unprotect_replayed [OF c(2) _ example_rtp i(1) _ i(2), where room = "[]" and stack = "\<lambda>_. 0" and stack' = "\<lambda>_. 1"]
  from t [of "[]"] obtain rx1 where 1: "unprotect_all (\<lambda>_. 0) (start_state ctx w) [(?pkt, 20)] = Some rx1"
      "srtp_unprotect (\<lambda>_. 1) (load_packet ?pkt 20 rx1) = Some (err_status_replay_fail, load_packet ?pkt 20 rx1)"
    by (auto simp: l simp del: unprotect_all.simps)
  from t [of "[(0x10000, 12, example_message 0 0, [])]"] obtain rx2 rx3 where
    2: "unprotect_all (\<lambda>_. 0) (start_state ctx w) [(?pkt, 20), (?later, 20)] = Some rx2"
      "srtp_unprotect (\<lambda>_. 1) (load_packet ?pkt 20 rx2) = Some (err_status_ok, rx3)" "take 16 (packet rx3) = ?m"
    by (auto simp: l z simp del: unprotect_all.simps)
  show ?thesis using c(1) 1 2 by blast
qed

text \<open>
  Exhausted keys. When charging the key would reach its hard limit, \<^verbatim>\<open>srtp_protect\<close> ends with
  \<^verbatim>\<open>err_status_key_expired\<close> before it reads the index, and the packet stays as it is, in clear and
  without a tag.
\<close>

theorem srtp_protect_key_expired:
  assumes "endpoint st a v" "num_left (v_limit v) = 1" "12 \<le> pkt_octet_len st" "12 \<le> length (packet st)" "hdr_ssrc (packet st) = v_ssrc v"
  shows "\<exists>st'. srtp_protect st = Some (err_status_key_expired, st') \<and> packet st' = packet st \<and> pkt_octet_len st' = pkt_octet_len st"
  by (rule srtp_protect_expired [OF assms(1) _ assms(3-5)]) (simp add: key_usable_def key_limit_update_def assms(2) Let_def)

lemma endpoint_set_limit:
  assumes "endpoint st a v"
  shows "\<exists>st'. endpoint st' a (v\<lparr>v_limit := l\<rparr>)"
proof -
  from assms obtain s c au where s: "streams (wld st) a = Some s" "ssrc s = v_ssrc v" "rtp_services s = v_services v" "rtp_rdbx s = v_rdbx v"
      "ciphers (mem (wld st)) (rtp_cipher s) = Some c" "cipher_keyed c (v_ckey v)" "auths (mem (wld st)) (rtp_auth s) = Some au"
      "auth_keyed au (v_akey v)" "out_len au = int (v_tag_len v)" "prefix_len au = (if v_akey v = None then int (v_tag_len v) else 0)"
    unfolding endpoint_def has_view_def by blast
  then have "has_view (wld (store_limit (limit s) l st)) a (v\<lparr>v_limit := l\<rparr>)" by (auto simp: has_view_def)
  then have "endpoint (store_limit (limit s) l st) a (v\<lparr>v_limit := l\<rparr>)"
    using assms same_session_get [of st "store_limit (limit s) l st"] by (simp add: endpoint_def same_session_def)
  then show ?thesis by blast
qed

theorem srtp_protect_key_expired_witness:
  "\<exists>st st'. srtp_protect (load_packet (example_message 0 1) 16 st) = Some (err_status_key_expired, st') \<and> packet st' = example_message 0 1"
proof -
  let ?v = "policy_view (example_policy (replicate 32 7)) (replicate 32 7)"
  obtain st a where "endpoint st a (?v\<lparr>v_limit := \<lparr>num_left = 1, key_state = key_state_past_soft_limit\<rparr>\<rparr>)"
    using endpoint_set_limit example_created by blast
  then have "endpoint (load_packet (example_message 0 1) 16 st) a (?v\<lparr>v_limit := \<lparr>num_left = 1, key_state = key_state_past_soft_limit\<rparr>\<rparr>)"
    by simp
  from srtp_protect_key_expired [OF this] show ?thesis by auto
qed

text \<open>
  C25: late packets reuse keystream. When the sender is asked to protect a packet at or below its
  current index that the replay database accepts, it protects a second packet with the same sequence
  number under the same index: the exclusive or of the two encrypted payloads is the exclusive or
  of the payloads.
\<close>

theorem srtp_protect_late_reuse:
  assumes "endpoint tx a v" "v_conf v" "rtp_message v start msg" "rtp_message v start msg'" "length msg' = length msg"
    and "hdr_seq msg' = hdr_seq msg" "send_index v msg i d r" "d \<le> 0" "2 < unat (num_left (v_limit v))"
  shows "\<exists>tx' tx''. srtp_protect (load_packet (msg @ replicate 12 0) (int (length msg)) tx) = Some (err_status_ok, tx') \<and>
    srtp_protect (load_packet (msg' @ replicate 12 0) (int (length msg)) tx') = Some (err_status_ok, tx'') \<and>
    (\<forall>n. start \<le> n \<and> n < length msg \<longrightarrow> packet tx' ! n XOR packet tx'' ! n = msg ! n XOR msg' ! n)"
proof -
  let ?v = "after_packet v r"
  have r: "rdbx_index r = rdbx_index (v_rdbx v)" "rdbx_check r d = err_status_ok" "\<exists>r'. rdbx_add_index r d = Some r'"
    using assms(7,8) rdbx_late_not_recorded_twice [of d "v_rdbx v" r] rdbx_add_after_check [of r d]
    by (auto simp: send_index_def rdbx_add_index_def split: if_splits)
  moreover have "rdbx_estimate_index r = rdbx_estimate_index (v_rdbx v)" using r(1) by (simp add: rdbx_estimate_index_def fun_eq_iff)
  ultimately obtain r' where i': "send_index ?v msg' i d r'" using assms(6,7) by (auto simp: send_index_def)
  have k: "key_usable v" "key_usable ?v"
    using usable_step [of 1 "v_limit v"] usable_step(1) [of 0 "v_limit ?v"] assms(9) by (simp_all add: key_usable_def)
  have m: "rtp_message ?v start msg'" "v_overhead v \<le> length (replicate 12 (0 :: u8))"
    using assms(3,4) by (simp_all add: rtp_message_def v_overhead_def)
  obtain tx' where tx': "srtp_protect (load_packet (msg @ replicate 12 0) (int (length msg)) tx) = Some (err_status_ok, tx')"
      "packet tx' = rtp_packet v i start msg @ drop (v_overhead v) (replicate 12 0)" "has_view (wld tx') a ?v" "same_session tx tx'"
    using srtp_protect_run [of "load_packet (msg @ replicate 12 0) (int (length msg)) tx" a v msg _ start i d r] assms k m
    by (auto simp: endpoint_def same_session_def load_packet_def)
  have "endpoint tx' a ?v" using endpoint_step [OF assms(1) tx'(4,3)] by simp
  then obtain tx'' where tx'': "srtp_protect (load_packet (msg' @ replicate 12 0) (int (length msg)) tx') = Some (err_status_ok, tx'')"
      "packet tx'' = rtp_packet ?v i start msg' @ drop (v_overhead v) (replicate 12 0)"
    using srtp_protect_run [of "load_packet (msg' @ replicate 12 0) (int (length msg)) tx'" a ?v msg' _ start i d r'] assms(5) i' k m
    by (auto simp: endpoint_def load_packet_def)
  have s: "start \<le> length msg" using assms(3) by (simp add: rtp_message_def)
  have b: "rtp_body ?v = rtp_body v" using peers_format(4) [of v ?v] by (simp add: peers_def after_packet_def)
  have n: "(rtp_packet u i start x @ y) ! n = rtp_body u i start x ! n" if "n < length msg" "length x = length msg" for u x y n
    using that s by (simp add: rtp_packet_def Let_def nth_append)
  have "packet tx' ! n XOR packet tx'' ! n = msg ! n XOR msg' ! n" if "start \<le> n" "n < length msg" for n
    using same_index_leaks [OF assms(2) that assms(5) s, of i] that assms(5) tx'(2) tx''(2) n b by simp
  with tx'(1) tx''(1) show ?thesis by blast
qed

theorem srtp_protect_late_reuse_witness:
  "\<exists>ctx w tx' tx''. srtp_create example_world [example_policy (replicate 32 7)] = Some (err_status_ok, Some ctx, w) \<and>
    srtp_protect (load_packet (example_message 0 0 @ replicate 12 0) 16 (start_state ctx w)) = Some (err_status_ok, tx') \<and>
    srtp_protect (load_packet ((example_message 0 0)[12 := 99] @ replicate 12 0) 16 tx') = Some (err_status_ok, tx'') \<and>
    packet tx' ! 12 XOR packet tx'' ! 12 = 10 XOR 99"
proof -
  let ?v = "policy_view (example_policy (replicate 32 7)) (replicate 32 7)" let ?m = "(example_message 0 0)[12 := 99]"
  obtain ctx w a where c: "srtp_create example_world [example_policy (replicate 32 7)] = Some (err_status_ok, Some ctx, w)"
      "endpoint (start_state ctx w) a ?v" using example_created by blast
  obtain d r where i: "send_index ?v (example_message 0 0) 0 d r" using first_index [of ?v "example_message 0 0"] by auto
  then have d: "d \<le> 0" by (auto simp: send_index_def rdbx_estimate_index_def rdbx_init_def index_init_def)
  have m: "rtp_message ?v 12 ?m" "length ?m = 16" "hdr_seq ?m = hdr_seq (example_message 0 0)"
    by (simp_all add: rtp_message_def) (simp_all add: example_message_def hdr_seq_def hdr_ssrc_def rtp_enc_start_def Let_def hdr_x_def hdr_cc_def le32_of_def)
  have "example_message 0 0 ! 12 = 10" "?m ! 12 = 99" by (simp_all add: example_message_def)
  with srtp_protect_late_reuse [OF c(2) example_view(2) example_rtp [of _ 0 0] m(1) _ m(3) i d] c(1) m(2) show ?thesis
    by fastforce
qed

end
