(* ===== verification/Simple_Rtp.thy ===== *)
theory Simple_Rtp
  imports Srtp_Session
begin

text \<open>
  The RTP headers of the application, \<^verbatim>\<open>simple_rtp.c\<close>: a context with a payload type, a random start
  of sequence number and time stamp and a random SSRC, and the header of the next packet. The lemmas
  show the fields of the headers that a context writes, that they are what the packet functions of
  the SRTP library read, and that consecutive headers carry consecutive numbers across the wrap-around.
\<close>

subsection \<open>The context\<close>

text \<open>The members of the C type \<^verbatim>\<open>int\<close> are words as well: they are only added, modulo \<open>2 ^ 32\<close>.\<close>

record rtp_context_t =
  mSampleCount :: u32
  mCodecMagic :: u32
  mSequence :: u16
  mTimestamp :: u32
  mSsrc :: u32

text \<open>
  \<^verbatim>\<open>read\<close> stores the octets that it delivers, at most as many as were asked for, over the object; what
  is not delivered keeps its old value.
\<close>

definition read_over :: "octets \<Rightarrow> octets \<Rightarrow> octets" where
  "read_over got old = take (length old) got @ drop (length got) old"

definition read_u16 :: "octets \<Rightarrow> u16 \<Rightarrow> u16" where
  "read_u16 got x = (case read_over got [ucast x, ucast (drop_bit 8 x)] of [a, b] \<Rightarrow> le16_of a b | _ \<Rightarrow> x)"

definition read_u32 :: "octets \<Rightarrow> u32 \<Rightarrow> u32" where
  "read_u32 got x = (case read_over got (le32_bytes x) of [a, b, c, d] \<Rightarrow> le32_of a b c d | _ \<Rightarrow> x)"

text \<open>
  \<open>urandom k\<close> is what the \<open>k\<close>-th call of \<^verbatim>\<open>read\<close> on \<^verbatim>\<open>/dev/urandom\<close> delivers, nothing when it fails;
  \<open>old\<close> is what the allocated memory holds. Neither the allocation nor the calls are checked: a
  failed allocation is a fault.
\<close>

definition initRtp ::
  "(nat \<Rightarrow> octets) \<Rightarrow> rtp_context_t \<Rightarrow> u32 \<Rightarrow> u32 \<Rightarrow> heap \<Rightarrow> (err_status_t \<times> rtp_context_t \<times> heap) option" where
  "initRtp urandom old codecType sampleCount h =
     (case crypto_alloc h of
        (None, h) \<Rightarrow> None
      | (Some _, h) \<Rightarrow>
          (let ctx = old\<lparr>mCodecMagic := push_bit 16 (0xA000 OR codecType)\<rparr>;
               ctx = ctx\<lparr>mSampleCount := sampleCount\<rparr>;
               ctx = ctx\<lparr>mSequence := read_u16 (urandom 0) (mSequence ctx)\<rparr>;
               ctx = ctx\<lparr>mTimestamp := read_u32 (urandom 1) (mTimestamp ctx)\<rparr>;
               ctx = ctx\<lparr>mSsrc := read_u32 (urandom 2) (mSsrc ctx)\<rparr>
           in Some (err_status_ok, ctx, h)))"

text \<open>The three words of the header are stored in the memory of a little-endian machine.\<close>

definition getNextPacketHeader :: "rtp_context_t \<Rightarrow> octets \<Rightarrow> (rtp_context_t \<times> octets) option" where
  "getNextPacketHeader ctx out =
     (let ctx = ctx\<lparr>mSequence := mSequence ctx + 1\<rparr>;
          ctx = ctx\<lparr>mTimestamp := mTimestamp ctx + mSampleCount ctx\<rparr>
      in if length out < 12 then None
         else Some (ctx,
           write_at 8 (le32_bytes (htonl (mSsrc ctx)))
             (write_at 4 (le32_bytes (htonl (mTimestamp ctx)))
               (write_at 0 (le32_bytes (htonl (mCodecMagic ctx OR ucast (mSequence ctx)))) out))))"

text \<open>The size of \<^verbatim>\<open>srtp_hdr_t\<close> in words.\<close>

definition getHeaderSize :: nat where
  "getHeaderSize = 12 div 4"

subsection \<open>The fields of a header\<close>

definition header_octets :: "rtp_context_t \<Rightarrow> octets" where
  "header_octets ctx = be32_bytes (mCodecMagic ctx OR ucast (mSequence ctx)) @ be32_bytes (mTimestamp ctx) @ be32_bytes (mSsrc ctx)"

lemma length_header_octets [simp]: "length (header_octets ctx) = 12"
  by (simp add: header_octets_def)

text \<open>The context after \<open>n\<close> headers.\<close>

definition advanced :: "nat \<Rightarrow> rtp_context_t \<Rightarrow> rtp_context_t" where
  "advanced n ctx = ctx\<lparr>mSequence := mSequence ctx + of_nat n, mTimestamp := mTimestamp ctx + of_nat n * mSampleCount ctx\<rparr>"

lemma advanced_simps [simp]:
  "mCodecMagic (advanced n ctx) = mCodecMagic ctx" "mSsrc (advanced n ctx) = mSsrc ctx"
  "mSequence (advanced n ctx) = mSequence ctx + of_nat n" "mTimestamp (advanced n ctx) = mTimestamp ctx + of_nat n * mSampleCount ctx"
  "advanced 0 ctx = ctx" "advanced m (advanced n ctx) = advanced (n + m) ctx"
  by (simp_all add: advanced_def algebra_simps)

lemma getNextPacketHeader_eq:
  "12 \<le> length out \<Longrightarrow> getNextPacketHeader ctx out = Some (advanced 1 ctx, header_octets (advanced 1 ctx) @ drop 12 out)"
  by (simp add: getNextPacketHeader_def header_octets_def advanced_def write_at_def le32_bytes_bswap32 Let_def)

text \<open>What the library reads from a header with a payload type of one octet.\<close>

definition codec_magic :: "u32 \<Rightarrow> u32" where
  "codec_magic codecType = push_bit 16 (0xA000 OR codecType)"

lemma bit_constants: "bit (0xA0 :: u8) n \<longleftrightarrow> n = 5 \<or> n = 7" "bit (0xA000 :: u32) n \<longleftrightarrow> n = 13 \<or> n = 15"
proof -
  have "(0xA0 :: u8) = push_bit 5 1 OR push_bit 7 1" "(0xA000 :: u32) = push_bit 13 1 OR push_bit 15 1" by simp_all
  then show "bit (0xA0 :: u8) n \<longleftrightarrow> n = 5 \<or> n = 7" "bit (0xA000 :: u32) n \<longleftrightarrow> n = 13 \<or> n = 15"
    by (simp_all only: bit_or_iff bit_push_bit_iff bit_1_iff) auto
qed

lemma bit_codec_magic: "bit (codec_magic c) n \<longleftrightarrow> 16 \<le> n \<and> n < 32 \<and> (n = 29 \<or> n = 31 \<or> bit c (n - 16))"
  unfolding codec_magic_def bit_push_bit_iff bit_or_iff bit_constants by auto

lemma magic_octets:
  fixes ct :: u8 and q :: u16
  shows "ucast (drop_bit 24 (codec_magic (ucast ct) OR ucast q)) = (0xA0 :: u8)"
    "ucast (drop_bit 16 (codec_magic (ucast ct) OR ucast q)) = ct"
    "ucast (drop_bit 8 (codec_magic (ucast ct) OR ucast q)) = (ucast (drop_bit 8 q) :: u8)"
    "ucast (codec_magic (ucast ct) OR ucast q) = (ucast q :: u8)"
  by (rule bit_word_eqI; (unfold bit_constants)?;
      auto simp: bit_codec_magic bit_unsigned_iff bit_or_iff bit_drop_bit_eq dest: bit_imp_le_length)+

lemma header_first_octets:
  assumes "mCodecMagic ctx = codec_magic (ucast (ct :: u8))"
  shows "header_octets ctx = [0xA0, ct, ucast (drop_bit 8 (mSequence ctx)), ucast (mSequence ctx)] @ be32_bytes (mTimestamp ctx) @ be32_bytes (mSsrc ctx)"
  unfolding header_octets_def be32_bytes_def assms magic_octets by (rule refl)

lemma le16_swapped: "bswap16 (le16_of (ucast (drop_bit 8 x)) (ucast x)) = x"
  by (rule bit_word_eqI) (auto simp: bit_bswap16 le16_of_def bit_simps dest: bit_imp_le_length)

lemma le32_swapped: "le32_of (ucast (drop_bit 24 x)) (ucast (drop_bit 16 x)) (ucast (drop_bit 8 x)) (ucast x) = bswap32 x"
  by (simp add: bswap32_def be32_of_def)

lemma header_read:
  assumes "mCodecMagic ctx = codec_magic (ucast (ct :: u8))"
  shows "ntohs (hdr_seq (header_octets ctx @ body)) = mSequence ctx" "hdr_ssrc (header_octets ctx @ body) = htonl (mSsrc ctx)"
    "rtp_enc_start (header_octets ctx @ body) = Some 12"
  unfolding header_first_octets [OF assms]
  by (simp_all add: hdr_seq_def hdr_ssrc_def be32_bytes_def le16_swapped le32_swapped rtp_enc_start_def Let_def hdr_x_def hdr_cc_def)

text \<open>A list of packets whose headers one context writes.\<close>

fun write_headers :: "rtp_context_t \<Rightarrow> octets list \<Rightarrow> (octets list \<times> rtp_context_t) option" where
  "write_headers ctx [] = Some ([], ctx)"
| "write_headers ctx (out # outs) =
     (case getNextPacketHeader ctx out of
        None \<Rightarrow> None
      | Some (ctx, out) \<Rightarrow> map_option (\<lambda>(outs, ctx). (out # outs, ctx)) (write_headers ctx outs))"

lemma write_headers_eq:
  "\<forall>out \<in> set outs. 12 \<le> length out \<Longrightarrow>
   write_headers ctx outs =
     Some (map (\<lambda>k. header_octets (advanced (k + 1) ctx) @ drop 12 (outs ! k)) [0..<length outs], advanced (length outs) ctx)"
proof (induction outs arbitrary: ctx)
  case (Cons out outs)
  have "map f [0..<length (out # outs)] = f 0 # map (\<lambda>k. f (k + 1)) [0..<length outs]" for f :: "nat \<Rightarrow> octets"
    by (simp add: upt_conv_Cons map_Suc_upt [symmetric] del: upt_Suc map_Suc_upt)
  with Cons show ?case by (simp add: getNextPacketHeader_eq add.commute del: upt_Suc)
qed simp

lemma ucast_inc: "(ucast (i + 1) :: u16) = ucast (i :: u64) + 1"
  by (simp add: word_uint_eq_iff uint_word_ariths unsigned_ucast_eq take_bit_eq_mod mod_mod_cancel mod_add_left_eq)

lemma ucast_16_64 [simp]: "ucast (ucast (x :: u16) :: u64) = x"
  by (rule bit_word_eqI) (simp add: bit_unsigned_iff)

lemma numbered_headers:
  assumes "mCodecMagic ctx = codec_magic (ucast (ct :: u8))" "mSequence ctx = ucast i"
  shows "numbered i (map (\<lambda>k. header_octets (advanced (k + 1) ctx) @ bodies k) [0..<n])"
  using assms
proof (induction n arbitrary: i ctx bodies)
  case (Suc n)
  have eq: "map f [0..<Suc n] = f 0 # map (\<lambda>k. f (k + 1)) [0..<n]" for f :: "nat \<Rightarrow> octets"
    by (simp add: upt_conv_Cons map_Suc_upt [symmetric] del: upt_Suc map_Suc_upt)
  have "mSequence (advanced 1 ctx) = ucast (i + 1)" using Suc.prems(2) by (simp add: ucast_inc)
  then show ?case unfolding eq using Suc.IH [of "advanced 1 ctx" "i + 1" "\<lambda>k. bodies (k + 1)"] Suc.prems(1)
    by (simp add: header_read [of "advanced (Suc 0) ctx" ct])
qed simp

subsection \<open>Properties\<close>

text \<open>
  C39: the headers of a call. With memory available, \<^verbatim>\<open>initRtp\<close> succeeds; from then on the \<open>k\<close>-th header
  that the context writes is a version 2 header with the padding bit set, no contributing source and
  no extension, the payload type of the codec, a sequence number and a time stamp that are \<open>k\<close> and
  \<open>k\<close> times the sample count above the random start, modulo their sizes, and the random SSRC in network
  order. The rest of the packet stays, and the SRTP functions read the same number and SSRC from it.
\<close>

theorem rtp_header_fields:
  assumes "malloc_ok h (mallocs h)" and "\<forall>out \<in> set outs. 12 \<le> length out"
  shows "\<exists>ctx h' pkts. initRtp urandom old (ucast (ct :: u8)) count h = Some (err_status_ok, ctx, h') \<and>
    write_headers ctx outs = Some (pkts, advanced (length outs) ctx) \<and> length pkts = length outs \<and>
    (\<forall>k < length outs. pkts ! k =
      [0xA0, ct, ucast (drop_bit 8 (mSequence ctx + of_nat (k + 1))), ucast (mSequence ctx + of_nat (k + 1))] @
      be32_bytes (mTimestamp ctx + of_nat (k + 1) * count) @ be32_bytes (mSsrc ctx) @ drop 12 (outs ! k) \<and>
      ntohs (hdr_seq (pkts ! k)) = mSequence ctx + of_nat (k + 1) \<and>
      hdr_ssrc (pkts ! k) = htonl (mSsrc ctx) \<and> rtp_enc_start (pkts ! k) = Some 12)"
proof -
  obtain ctx h' where c: "initRtp urandom old (ucast ct) count h = Some (err_status_ok, ctx, h')"
      "mCodecMagic ctx = codec_magic (ucast ct)" "mSampleCount ctx = count"
    using assms(1) by (simp add: initRtp_def crypto_alloc_def Let_def codec_magic_def)
  have "mCodecMagic (advanced n ctx) = codec_magic (ucast ct)" for n using c(2) by simp
  note f = header_first_octets [OF this] header_read [OF this]
  show ?thesis
  proof (intro exI conjI allI impI)
    show "write_headers ctx outs = Some (map (\<lambda>k. header_octets (advanced (k + 1) ctx) @ drop 12 (outs ! k)) [0..<length outs], advanced (length outs) ctx)"
      (is "_ = Some (?pkts, _)") by (rule write_headers_eq [OF assms(2)])
    fix k assume "k < length outs"
    then have k: "?pkts ! k = header_octets (advanced (k + 1) ctx) @ drop 12 (outs ! k)" by simp
    show "?pkts ! k = [0xA0, ct, ucast (drop_bit 8 (mSequence ctx + of_nat (k + 1))), ucast (mSequence ctx + of_nat (k + 1))] @
        be32_bytes (mTimestamp ctx + of_nat (k + 1) * count) @ be32_bytes (mSsrc ctx) @ drop 12 (outs ! k)"
      unfolding k by (simp only: f(1) advanced_simps c(3) append.assoc)
    show "ntohs (hdr_seq (?pkts ! k)) = mSequence ctx + of_nat (k + 1)" "hdr_ssrc (?pkts ! k) = htonl (mSsrc ctx)"
      "rtp_enc_start (?pkts ! k) = Some 12"
      unfolding k f(2-4) by (simp_all only: advanced_simps)
  qed (use c(1) in simp_all)
qed

theorem rtp_header_fields_witness:
  "\<exists>ctx h' pkts. initRtp (\<lambda>k. [0xff, 0xff, 1, 2]) \<lparr>mSampleCount = 0, mCodecMagic = 0, mSequence = 0, mTimestamp = 0, mSsrc = 0\<rparr>
      (ucast (7 :: u8)) 160 (mem example_world) = Some (err_status_ok, ctx, h') \<and>
    write_headers ctx [replicate 12 0, replicate 12 0] = Some (pkts, advanced 2 ctx) \<and> length pkts = 2 \<and>
    ntohs (hdr_seq (pkts ! 1)) = mSequence ctx + 2"
proof -
  let ?old = "\<lparr>mSampleCount = 0, mCodecMagic = 0, mSequence = 0, mTimestamp = 0, mSsrc = 0\<rparr>" and ?outs = "[replicate 12 0, replicate 12 0] :: octets list"
  have "malloc_ok (mem example_world) (mallocs (mem example_world))" "\<forall>out \<in> set ?outs. 12 \<le> length out" by (simp_all add: example_world_def)
  from rtp_header_fields [OF this, of "\<lambda>k. [0xff, 0xff, 1, 2]" ?old 7 160] obtain ctx h' pkts where
    i: "initRtp (\<lambda>k. [0xff, 0xff, 1, 2]) ?old (ucast (7 :: u8)) 160 (mem example_world) = Some (err_status_ok, ctx, h')"
    and r: "write_headers ctx ?outs = Some (pkts, advanced (length ?outs) ctx)" "length pkts = length ?outs"
      "\<forall>k < length ?outs. ntohs (hdr_seq (pkts ! k)) = mSequence ctx + of_nat (k + 1)"
    by blast
  from r(3) have "ntohs (hdr_seq (pkts ! 1)) = mSequence ctx + of_nat (1 + 1)" by (rule allE [of _ 1]) simp
  moreover have "length ?outs = 2" by simp
  ultimately show ?thesis using i r(1,2) by (intro exI conjI) (assumption | simp only: of_nat_numeral one_add_one)+
qed

end
