(* ===== verification/Known_Answers.thy ===== *)
theory Known_Answers
  imports Cipher_Auth
begin

text \<open>
  The values that the self-tests of the library expect: counter mode and block chaining with AES-128
  and HMAC-SHA1. They are computed inside the logic, with evaluation rules that keep every
  intermediate state in normal form: a table look-up does not rewrite the table, a round key is
  expanded once, and the message schedule of SHA-1 is a window of sixteen words.
\<close>

named_theorems evaluate \<open>evaluation of the ciphers and the hash on constants\<close>

subsection \<open>Blocks and tables\<close>

lemma v8_words [evaluate]:
  "v8 (V128 a b c d) 0 = ucast a" "v8 (V128 a b c d) (Suc 0) = ucast (drop_bit 8 a)"
  "v8 (V128 a b c d) 2 = ucast (drop_bit 16 a)" "v8 (V128 a b c d) 3 = ucast (drop_bit 24 a)"
  "v8 (V128 a b c d) 4 = ucast b" "v8 (V128 a b c d) 5 = ucast (drop_bit 8 b)"
  "v8 (V128 a b c d) 6 = ucast (drop_bit 16 b)" "v8 (V128 a b c d) 7 = ucast (drop_bit 24 b)"
  "v8 (V128 a b c d) 8 = ucast c" "v8 (V128 a b c d) 9 = ucast (drop_bit 8 c)"
  "v8 (V128 a b c d) 10 = ucast (drop_bit 16 c)" "v8 (V128 a b c d) 11 = ucast (drop_bit 24 c)"
  "v8 (V128 a b c d) 12 = ucast d" "v8 (V128 a b c d) 13 = ucast (drop_bit 8 d)"
  "v8 (V128 a b c d) 14 = ucast (drop_bit 16 d)" "v8 (V128 a b c d) 15 = ucast (drop_bit 24 d)"
  by (simp_all add: v8_def v128_octets_def le32_bytes_def)

lemma v32_words [evaluate]:
  "v32 (V128 a b c d) 0 = a" "v32 (V128 a b c d) (Suc 0) = b" "v32 (V128 a b c d) 2 = c" "v32 (V128 a b c d) 3 = d"
  by (simp_all add: v32_def)

text \<open>A look-up unfolds its table; the congruence keeps the entries as they are.\<close>

lemmas table_lookups =
  arg_cong [OF aes_sbox_def, of "\<lambda>xs. xs ! n" for n]
  arg_cong [OF T0_def, of "\<lambda>xs. xs ! n" for n] arg_cong [OF T1_def, of "\<lambda>xs. xs ! n" for n]
  arg_cong [OF T2_def, of "\<lambda>xs. xs ! n" for n] arg_cong [OF T3_def, of "\<lambda>xs. xs ! n" for n]

lemma lookup_cong: "i = j \<Longrightarrow> xs ! i = xs ! j"
  by simp

subsection \<open>AES\<close>

definition expand_from :: "v128_t \<Rightarrow> nat \<Rightarrow> gf2_8 \<Rightarrow> v128_t list" where
  "expand_from k n rc = k # expand_rounds n k rc"

lemma expand_rounds_steps [evaluate]:
  "expand_rounds (numeral n) prev rc = expand_from (next_round_key prev rc) (pred_numeral n) (gf2_8_shift rc)"
  "expand_rounds (Suc 0) prev rc = [next_round_key prev rc]"
  "expand_from (V128 a b c d) m rc = V128 a b c d # expand_rounds m (V128 a b c d) rc"
  by (simp_all add: numeral_eq_Suc expand_from_def Let_def)

lemma aes_encrypt_rounds [evaluate]:
  "aes_encrypt p [k0, k1, k2, k3, k4, k5, k6, k7, k8, k9, k10] =
     aes_final_round (aes_round (aes_round (aes_round (aes_round (aes_round (aes_round (aes_round (aes_round
       (aes_round (v128_xor p k0) k1) k2) k3) k4) k5) k6) k7) k8) k9) k10"
  by (simp add: aes_encrypt_def upt_rec)

lemma aes_final_round_words [evaluate]:
  "aes_final_round (V128 a b c d) k =
     v128_xor (V128
       (le32_of (aes_sbox ! unat (v8 (V128 a b c d) 0)) (aes_sbox ! unat (v8 (V128 a b c d) 5))
         (aes_sbox ! unat (v8 (V128 a b c d) 10)) (aes_sbox ! unat (v8 (V128 a b c d) 15)))
       (le32_of (aes_sbox ! unat (v8 (V128 a b c d) 4)) (aes_sbox ! unat (v8 (V128 a b c d) 9))
         (aes_sbox ! unat (v8 (V128 a b c d) 14)) (aes_sbox ! unat (v8 (V128 a b c d) 3)))
       (le32_of (aes_sbox ! unat (v8 (V128 a b c d) 8)) (aes_sbox ! unat (v8 (V128 a b c d) 13))
         (aes_sbox ! unat (v8 (V128 a b c d) 2)) (aes_sbox ! unat (v8 (V128 a b c d) 7)))
       (le32_of (aes_sbox ! unat (v8 (V128 a b c d) 12)) (aes_sbox ! unat (v8 (V128 a b c d) 1))
         (aes_sbox ! unat (v8 (V128 a b c d) 6)) (aes_sbox ! unat (v8 (V128 a b c d) 11)))) k"
  by (rule iffD1 [OF v128_octets_inject])
    (simp add: aes_final_round_octets v128_octets_xor v128_octets_list sub_bytes_def shift_rows_list sub_byte_def
      v128_octets_def [of "V128 a b c d"] le32_bytes_def v8_words)

declare aes_expand_encryption_key_def [evaluate] next_round_key_def [evaluate] aes_round_def [evaluate]
  le32_of_def [evaluate] gf2_8_shift_def [evaluate]

subsection \<open>SHA-1\<close>

text \<open>
  \<open>n\<close> rounds with one round function and constant, on the next sixteen words of the schedule. \<open>red\<close>
  marks where a sum or shift is reduced to 32 bits again.
\<close>

definition red :: "u32 \<Rightarrow> u32" where "red x = x"

lemma red_numeral [evaluate]: "red (numeral n) = of_nat (numeral n mod 4294967296)" "red 0 = 0" "red 1 = 1"
proof -
  have "(of_nat (k mod 4294967296) :: u32) = of_nat k" for k
    by (simp add: word_unat_eq_iff unat_of_nat)
  from this [of "numeral n"] show "red (numeral n) = of_nat (numeral n mod 4294967296)" by (simp only: red_def of_nat_numeral)
qed (simp_all add: red_def)

fun sha_run ::
  "nat \<Rightarrow> (u32 \<Rightarrow> u32 \<Rightarrow> u32 \<Rightarrow> u32) \<Rightarrow> u32 \<Rightarrow> u32 list \<times> sha1_state \<Rightarrow> u32 list \<times> sha1_state" where
  "sha_run 0 f K r = r"
| "sha_run (Suc n) f K (W, a, b, c, d, e) =
     sha_run n f K (tl W @ [word_rotl 1 (W ! 13 XOR W ! 8 XOR W ! 2 XOR W ! 0)],
       word_rotl 5 a + f b c d + e + K + W ! 0, a, word_rotl 30 b, c, d)"

lemma fips_window:
  "tl (map (fips_W M) [t..<t + 16]) @ [word_rotl 1 (fips_W M (t + 13) XOR fips_W M (t + 8) XOR fips_W M (t + 2) XOR fips_W M t)] =
     map (fips_W M) [t + 1..<t + 1 + 16]"
proof -
  have "[t..<t + 16] = t # [t + 1..<t + 16]" by (simp add: upt_conv_Cons)
  moreover have "[t + 1..<t + 1 + 16] = [t + 1..<t + 16] @ [t + 16]" using upt_Suc_append [of "t + 1" "t + 16"] by simp
  moreover have "fips_W M (t + 16) = word_rotl 1 (fips_W M (t + 13) XOR fips_W M (t + 8) XOR fips_W M (t + 2) XOR fips_W M t)"
    by (subst fips_W.simps) (simp add: numeral_eq_Suc)
  ultimately show ?thesis by simp
qed

lemma fold_fips_step:
  assumes "\<And>i. t \<le> i \<Longrightarrow> i < t + n \<Longrightarrow> fips_f i = f \<and> fips_K i = K"
  shows "sha_run n f K (map (fips_W M) [t..<t + 16], s) =
    (map (fips_W M) [t + n..<t + n + 16], fold (fips_step (fips_W M)) [t..<t + n] s)"
  using assms
proof (induction n arbitrary: t s)
  case (Suc n)
  obtain a b c d e where s: "s = (a, b, c, d, e)" by (cases s)
  have "fips_f t = f" "fips_K t = K" using Suc.prems [of t] by simp_all
  moreover have "[t..<t + Suc n] = t # [t + 1..<t + 1 + n]" by (simp add: upt_conv_Cons del: upt_Suc)
  ultimately show ?case using Suc.IH [of "t + 1" "fips_step (fips_W M) t s"] Suc.prems fips_window [of M t]
    by (simp add: s fips_step_def del: upt_Suc)
qed simp

definition f_choose :: "u32 \<Rightarrow> u32 \<Rightarrow> u32 \<Rightarrow> u32" where "f_choose x y z = (x AND y) XOR (NOT x AND z)"
definition f_parity :: "u32 \<Rightarrow> u32 \<Rightarrow> u32 \<Rightarrow> u32" where "f_parity x y z = x XOR y XOR z"
definition f_majority :: "u32 \<Rightarrow> u32 \<Rightarrow> u32 \<Rightarrow> u32" where "f_majority x y z = (x AND y) XOR (x AND z) XOR (y AND z)"

lemma fips_compress_run [evaluate]:
  "fips_compress (h0, h1, h2, h3, h4) b =
     (case sha_run 20 f_parity 0xca62c1d6 (sha_run 20 f_majority 0x8f1bbcdc (sha_run 20 f_parity 0x6ed9eba1
         (sha_run 20 f_choose 0x5a827999 (map (fips_block_word b) [0..<16], h0, h1, h2, h3, h4)))) of
        (_, a, b, c, d, e) \<Rightarrow> (red (a + h0), red (b + h1), red (c + h2), red (d + h3), red (e + h4)))"
proof -
  let ?W = "fips_W (fips_block_word b)" and ?s = "(h0, h1, h2, h3, h4)"
  have W: "map ?W [0..<16] = map (fips_block_word b) [0..<16]" by (simp add: fips_W.simps)
  have split: "fold (fips_step ?W) [0..<80] s = fold (fips_step ?W) [60..<80] (fold (fips_step ?W) [40..<60]
      (fold (fips_step ?W) [20..<40] (fold (fips_step ?W) [0..<20] s)))" for s
    using upt_add_eq_append [of 0 20 60] upt_add_eq_append [of 20 40 40] upt_add_eq_append [of 40 60 20]
    by (simp del: upt_rec_numeral)
  note f = fips_f_def fips_K_def f_choose_def f_parity_def f_majority_def fun_eq_iff
  show ?thesis
    using fold_fips_step [where t = 0 and n = 20 and f = f_choose and K = "0x5a827999" and M = "fips_block_word b"] fold_fips_step [where t = 20 and n = 20 and f = f_parity and K = "0x6ed9eba1" and M = "fips_block_word b"]
      fold_fips_step [where t = 40 and n = 20 and f = f_majority and K = "0x8f1bbcdc" and M = "fips_block_word b"] fold_fips_step [where t = 60 and n = 20 and f = f_parity and K = "0xca62c1d6" and M = "fips_block_word b"]
    by (simp add: fips_compress_def f split red_def flip: W del: map_eq_conv upt_rec_numeral)
qed

lemma sha_run_steps [evaluate]:
  "sha_run (numeral n) f K ([w0, w1, w2, w3, w4, w5, w6, w7, w8, w9, w10, w11, w12, w13, w14, w15], a, b, c, d, e) =
     sha_run (pred_numeral n) f K
       ([w1, w2, w3, w4, w5, w6, w7, w8, w9, w10, w11, w12, w13, w14, w15, red (word_rotl 1 (w13 XOR w8 XOR w2 XOR w0))],
        red (word_rotl 5 a + f b c d + e + K + w0), a, red (word_rotl 30 b), c, d)"
  "sha_run (Suc 0) f K ([w0, w1, w2, w3, w4, w5, w6, w7, w8, w9, w10, w11, w12, w13, w14, w15], a, b, c, d, e) =
     ([w1, w2, w3, w4, w5, w6, w7, w8, w9, w10, w11, w12, w13, w14, w15, red (word_rotl 1 (w13 XOR w8 XOR w2 XOR w0))],
        red (word_rotl 5 a + f b c d + e + K + w0), a, red (word_rotl 30 b), c, d)"
  by (simp_all add: numeral_eq_Suc [of n] red_def)

lemma word_rotl_shifts [evaluate]:
  fixes x :: u32
  shows "word_rotl 1 x = push_bit 1 x OR drop_bit 31 x" "word_rotl (Suc 0) x = push_bit 1 x OR drop_bit 31 x"
    "word_rotl 5 x = red (push_bit 5 x) OR drop_bit 27 x" "word_rotl 30 x = push_bit 30 x OR drop_bit 2 x"
  using shift_or_rotl [of 1 x] shift_or_rotl [of 5 x] shift_or_rotl [of 30 x] by (simp_all add: red_def)

lemma round_functions [evaluate]:
  "f_choose x y z = (x AND y) OR (red (0xffffffff - x) AND z)"
  "f_parity x y z = x XOR y XOR z"
  "f_majority x y z = (x AND y) XOR (x AND z) XOR (y AND z)"
proof -
  have "NOT x = 0xffffffff - x" using not_eq_complement [of x] by simp
  moreover have "(x AND y) XOR (NOT x AND z) = (x AND y) OR (NOT x AND z)"
    by (rule bit_word_eqI) (auto simp: bit_simps)
  ultimately show "f_choose x y z = (x AND y) OR (red (0xffffffff - x) AND z)" by (simp add: f_choose_def red_def)
qed (simp_all add: f_parity_def f_majority_def)

lemma fips_blocks_steps [evaluate]:
  "fips_blocks H [] = H"
  "64 \<le> length m \<Longrightarrow> fips_blocks H m = fips_blocks (fips_compress H (take 64 m)) (drop 64 m)"
  by (simp_all add: fips_blocks.simps [of H])

lemma block_words [evaluate]: "map (fips_block_word b) [0..<16] =
  [fips_block_word b 0, fips_block_word b 1, fips_block_word b 2, fips_block_word b 3, fips_block_word b 4, fips_block_word b 5,
   fips_block_word b 6, fips_block_word b 7, fips_block_word b 8, fips_block_word b 9, fips_block_word b 10, fips_block_word b 11,
   fips_block_word b 12, fips_block_word b 13, fips_block_word b 14, fips_block_word b 15]"
  by (simp add: upt_16)

subsection \<open>The known answers\<close>

text \<open>HMAC-SHA1 of "Hi There" under twenty octets \<open>0x0b\<close>, block by block.\<close>

lemmas evaluate_block = evaluate fips_H0_def fips_block_word_def be32_of_def nth_append nth_Cons'

lemma inner_block_1:
  "fips_compress fips_H0 (replicate 20 0x3d @ replicate 44 0x36) = (0x064c662a, 0xcc6ed1b0, 0x6cfa9ab0, 0x042f137f, 0xcea570eb)"
  by (simp add: evaluate_block del: sha_run.simps)

lemma inner_block_2:
  "fips_compress (0x064c662a, 0xcc6ed1b0, 0x6cfa9ab0, 0x042f137f, 0xcea570eb)
     ([0x48, 0x69, 0x20, 0x54, 0x68, 0x65, 0x72, 0x65, 0x80] @ replicate 47 0 @ [0, 0, 0, 0, 0, 0, 2, 0x40]) =
   (0x376637c8, 0x923dc595, 0xe41a2797, 0x2e995121, 0x1d40ce98)"
  by (simp add: evaluate_block del: sha_run.simps)

lemma outer_block_1:
  "fips_compress fips_H0 (replicate 20 0x57 @ replicate 44 0x5c) = (0xd62acccc, 0x7e6a98b3, 0xdf015b02, 0xd885c3e0, 0x9bd184cb)"
  by (simp add: evaluate_block del: sha_run.simps)

lemma outer_block_2:
  "fips_compress (0xd62acccc, 0x7e6a98b3, 0xdf015b02, 0xd885c3e0, 0x9bd184cb)
     ([0x37, 0x66, 0x37, 0xc8, 0x92, 0x3d, 0xc5, 0x95, 0xe4, 0x1a, 0x27, 0x97, 0x2e, 0x99, 0x51, 0x21, 0x1d, 0x40, 0xce, 0x98, 0x80] @
      replicate 35 0 @ [0, 0, 0, 0, 0, 0, 2, 0xa0]) =
   (0xb6173186, 0x55057264, 0xe28bc0b6, 0xfb378c8e, 0xf146be00)"
  by (simp add: evaluate_block del: sha_run.simps)

lemma two_blocks:
  assumes "length p = 64" "length m + 1 + k + 8 = 64" "k = (119 - (64 + length m) mod 64) mod 64"
  shows "fips_sha1 (p @ m) = fips_output (fips_compress (fips_compress fips_H0 p) (m @ [0x80] @ replicate k 0 @ be64_bytes (of_nat (8 * (64 + length m)))))"
proof -
  have "length (be64_bytes w) = 8" for w by (simp add: be64_bytes_def be32_bytes_def)
  then have "length (m @ [0x80] @ replicate k 0 @ be64_bytes (of_nat (8 * (64 + length m)))) = 64" using assms(2) by simp
  moreover have "fips_pad (p @ m) = p @ m @ [0x80] @ replicate k 0 @ be64_bytes (of_nat (8 * (64 + length m)))"
    using assms(1,3) by (simp add: fips_pad_def)
  ultimately show ?thesis using assms(1)
    by (simp add: fips_sha1_def fips_blocks_steps(2) [where m = "p @ q" for q] fips_blocks_steps(2) [where m = "m @ q" for q] fips_blocks_steps(1))
qed

lemma hmac_known_answer:
  "hmac_sha1 (replicate 20 0x0b) [0x48, 0x69, 0x20, 0x54, 0x68, 0x65, 0x72, 0x65] =
     [0xb6, 0x17, 0x31, 0x86, 0x55, 0x05, 0x72, 0x64, 0xe2, 0x8b, 0xc0, 0xb6, 0xfb, 0x37, 0x8c, 0x8e, 0xf1, 0x46, 0xbe, 0x00]"
proof -
  let ?d = "[0x48, 0x69, 0x20, 0x54, 0x68, 0x65, 0x72, 0x65] :: octets"
    and ?h = "[0x37, 0x66, 0x37, 0xc8, 0x92, 0x3d, 0xc5, 0x95, 0xe4, 0x1a, 0x27, 0x97, 0x2e, 0x99, 0x51, 0x21, 0x1d, 0x40, 0xce, 0x98] :: octets"
  have pads: "hmac_pad 0x36 (replicate 20 0x0b) = replicate 20 0x3d @ replicate 44 0x36"
      "hmac_pad 0x5c (replicate 20 0x0b) = replicate 20 0x57 @ replicate 44 0x5c"
    by (simp_all add: hmac_pad_def)
  have z: "be64_bytes (of_nat (8 * (64 + 8))) = [0, 0, 0, 0, 0, 0, 2, 0x40]"
      "be64_bytes (of_nat (8 * (64 + 20))) = [0, 0, 0, 0, 0, 0, 2, 0xa0]"
    by (simp_all add: be64_bytes_def be32_bytes_def)
  have d: "length ?d = 8" "length ?h = 20" by simp_all
  have "fips_sha1 ((replicate 20 0x3d @ replicate 44 0x36) @ ?d) = fips_output (fips_compress
      (fips_compress fips_H0 (replicate 20 0x3d @ replicate 44 0x36)) (?d @ [0x80] @ replicate 47 0 @ be64_bytes (of_nat (8 * (64 + length ?d)))))"
    by (rule two_blocks) simp_all
  then have inner: "fips_sha1 ((replicate 20 0x3d @ replicate 44 0x36) @ ?d) = ?h"
    unfolding d z inner_block_1 append.simps inner_block_2 [unfolded append.simps] by (simp add: be32_bytes_def)
  have "fips_sha1 ((replicate 20 0x57 @ replicate 44 0x5c) @ ?h) = fips_output (fips_compress
      (fips_compress fips_H0 (replicate 20 0x57 @ replicate 44 0x5c)) (?h @ [0x80] @ replicate 35 0 @ be64_bytes (of_nat (8 * (64 + length ?h)))))"
    by (rule two_blocks) simp_all
  then have "fips_sha1 ((replicate 20 0x57 @ replicate 44 0x5c) @ ?h) =
      [0xb6, 0x17, 0x31, 0x86, 0x55, 0x05, 0x72, 0x64, 0xe2, 0x8b, 0xc0, 0xb6, 0xfb, 0x37, 0x8c, 0x8e, 0xf1, 0x46, 0xbe, 0x00]"
    unfolding d z outer_block_1 append.simps outer_block_2 [unfolded append.simps] by (simp add: be32_bytes_def)
  then show ?thesis unfolding hmac_sha1_def pads inner .
qed

text \<open>The octets of the counter mode test, and its two counter blocks.\<close>

definition aes_icm_test_case_0_key :: octets where
  "aes_icm_test_case_0_key = [
     0x2b, 0x7e, 0x15, 0x16, 0x28, 0xae, 0xd2, 0xa6, 0xab, 0xf7, 0x15, 0x88, 0x09, 0xcf, 0x4f, 0x3c,
     0xf0, 0xf1, 0xf2, 0xf3, 0xf4, 0xf5, 0xf6, 0xf7, 0xf8, 0xf9, 0xfa, 0xfb, 0xfc, 0xfd]"

definition aes_icm_test_case_0_ciphertext :: octets where
  "aes_icm_test_case_0_ciphertext = [
     0xe0, 0x3e, 0xad, 0x09, 0x35, 0xc9, 0x5e, 0x80, 0xe1, 0x66, 0xb1, 0x6d, 0xd9, 0x2b, 0x4e, 0xb4,
     0xd2, 0x35, 0x13, 0x16, 0x2b, 0x02, 0xd0, 0xf7, 0x2a, 0x43, 0xa2, 0xfe, 0x4a, 0x5f, 0x97, 0xab]"

lemma icm_ks_blocks:
  "map (icm_ks k iv) [0..<32] =
     v128_octets (aes_encrypt (v128_xor (snd k) iv) (fst k)) @
     v128_octets (aes_encrypt (icm_clock False (v128_xor (snd k) iv)) (fst k))"
proof (rule nth_equalityI)
  fix i assume "i < length (map (icm_ks k iv) [0..<32])"
  then have "i < 32" by simp
  moreover have "i div 16 = 1" if "\<not> i < 16" using that \<open>i < 32\<close> by (simp add: div_nat_eqI)
  ultimately show "map (icm_ks k iv) [0..<32] ! i = (v128_octets (aes_encrypt (v128_xor (snd k) iv) (fst k)) @
      v128_octets (aes_encrypt (icm_clock False (v128_xor (snd k) iv)) (fst k))) ! i"
    by (auto simp: icm_ks_def nth_append mod_if)
qed simp

lemma icm_test_block_1:
  "aes_encrypt (V128 0xf3f2f1f0 0xf7f6f5f4 0xfbfaf9f8 0x0000fdfc)
     (aes_expand_encryption_key (V128 0x16157e2b 0xa6d2ae28 0x8815f7ab 0x3c4fcf09)) =
   V128 0x09ad3ee0 0x805ec935 0x6db166e1 0xb44e2bd9"
  by (simp add: evaluate table_lookups cong: lookup_cong)

lemma icm_test_block_2:
  "aes_encrypt (V128 0xf3f2f1f0 0xf7f6f5f4 0xfbfaf9f8 0x0100fdfc)
     (aes_expand_encryption_key (V128 0x16157e2b 0xa6d2ae28 0x8815f7ab 0x3c4fcf09)) =
   V128 0x161335d2 0xf7d0022b 0xfea2432a 0xab975f4a"
  by (simp add: evaluate table_lookups cong: lookup_cong)

lemma icm_known_answer:
  assumes "2 \<le> length behind"
  shows "map (icm_ks (icm_key (aes_icm_test_case_0_key @ behind)) (V128 0 0 0 0)) [0..<32] = aes_icm_test_case_0_ciphertext"
proof -
  have "icm_key (aes_icm_test_case_0_key @ behind) = icm_key (aes_icm_test_case_0_key @ [0, 0])"
    using assms by (intro icm_key_cong) (simp_all add: aes_icm_test_case_0_key_def)
  also have "\<dots> = (aes_expand_encryption_key (V128 0x16157e2b 0xa6d2ae28 0x8815f7ab 0x3c4fcf09),
      V128 0xf3f2f1f0 0xf7f6f5f4 0xfbfaf9f8 0x0000fdfc)"
    by (simp add: icm_key_def aes_icm_test_case_0_key_def slice_def v128_of_octets_def set_v8_def le32_of_def
        v128_octets_def le32_bytes_def)
  finally have k: "icm_key (aes_icm_test_case_0_key @ behind) =
      (aes_expand_encryption_key (V128 0x16157e2b 0xa6d2ae28 0x8815f7ab 0x3c4fcf09), V128 0xf3f2f1f0 0xf7f6f5f4 0xfbfaf9f8 0x0000fdfc)" .
  have c: "icm_clock False (V128 0xf3f2f1f0 0xf7f6f5f4 0xfbfaf9f8 0x0000fdfc) = V128 0xf3f2f1f0 0xf7f6f5f4 0xfbfaf9f8 0x0100fdfc"
    by (simp add: icm_clock_def v8_words set_v8_def v128_octets_def le32_bytes_def v128_of_octets_def le32_of_def)
  show ?thesis unfolding icm_ks_blocks k
    by (simp add: icm_test_block_1 icm_test_block_2 c v128_octets_def le32_bytes_def aes_icm_test_case_0_ciphertext_def)
qed

text \<open>The octets of the block chaining test.\<close>

definition aes_cbc_test_case_0_key :: octets where
  "aes_cbc_test_case_0_key = [
     0x00, 0x01, 0x02, 0x03, 0x04, 0x05, 0x06, 0x07, 0x08, 0x09, 0x0a, 0x0b, 0x0c, 0x0d, 0x0e, 0x0f]"

definition aes_cbc_test_case_0_plaintext :: octets where
  "aes_cbc_test_case_0_plaintext = [
     0x00, 0x11, 0x22, 0x33, 0x44, 0x55, 0x66, 0x77, 0x88, 0x99, 0xaa, 0xbb, 0xcc, 0xdd, 0xee, 0xff] @ replicate 48 0"

definition aes_cbc_test_case_0_ciphertext :: octets where
  "aes_cbc_test_case_0_ciphertext = [
     0x69, 0xc4, 0xe0, 0xd8, 0x6a, 0x7b, 0x04, 0x30, 0xd8, 0xcd, 0xb7, 0x80, 0x70, 0xb4, 0xc5, 0x5a,
     0x03, 0x35, 0xed, 0x27, 0x67, 0xf2, 0x6d, 0xf1, 0x64, 0x83, 0x2e, 0x23, 0x44, 0x38, 0x70, 0x8b] @ replicate 48 0"

lemma cbc_test_block_1:
  "aes_encrypt (V128 0x33221100 0x77665544 0xbbaa9988 0xffeeddcc)
     (aes_expand_encryption_key (V128 0x03020100 0x07060504 0x0b0a0908 0x0f0e0d0c)) =
   V128 0xd8e0c469 0x30047b6a 0x80b7cdd8 0x5ac5b470"
  by (simp add: evaluate table_lookups cong: lookup_cong)

lemma cbc_test_block_2:
  "aes_encrypt (V128 0xd8e0c4c9 0x30047b6a 0x80b7cdd8 0x5ac5b470)
     (aes_expand_encryption_key (V128 0x03020100 0x07060504 0x0b0a0908 0x0f0e0d0c)) =
   V128 0x27ed3503 0xf16df267 0x232e8364 0x8b703844"
  by (simp add: evaluate table_lookups cong: lookup_cong)

lemma cbc_known_answer:
  "snd (cbc_encrypt_loop 2 (V128 0 0 0 0) (aes_expand_encryption_key (v128_of_octets aes_cbc_test_case_0_key))
      (take 16 aes_cbc_test_case_0_plaintext @ 0xa0 # replicate 15 0 @ rest)) =
   take 32 aes_cbc_test_case_0_ciphertext @ rest"
proof -
  have k: "v128_of_octets aes_cbc_test_case_0_key = V128 0x03020100 0x07060504 0x0b0a0908 0x0f0e0d0c"
    by (simp add: v128_of_octets_def aes_cbc_test_case_0_key_def le32_of_def)
  have p: "v128_of_octets (take 16 aes_cbc_test_case_0_plaintext) = V128 0x33221100 0x77665544 0xbbaa9988 0xffeeddcc"
    by (simp add: v128_of_octets_def aes_cbc_test_case_0_plaintext_def le32_of_def)
  have q: "v128_of_octets (0xa0 # replicate 15 0) = V128 0xa0 0 0 0"
    by (simp add: v128_of_octets_def nth_Cons' le32_of_def)
  have l: "length (take 16 aes_cbc_test_case_0_plaintext) = 16" by (simp add: aes_cbc_test_case_0_plaintext_def)
  have t: "take 16 (0xa0 # replicate 15 0 @ rest) = 0xa0 # replicate 15 0" "drop 16 (0xa0 # replicate 15 0 @ rest) = rest" for rest :: octets
    by (simp_all add: take_Cons' drop_Cons')
  show ?thesis using l
    by (simp add: numeral_2_eq_2 k p q t cbc_test_block_1 cbc_test_block_2 Let_def del: replicate.simps)
      (simp add: v128_octets_def le32_bytes_def aes_cbc_test_case_0_ciphertext_def)
qed

end
