(* ===== verification/Stat.thy ===== *)
theory Stat
  imports Datatypes
begin

text \<open>
  The FIPS-140 statistical tests of \<^verbatim>\<open>crypto/math/stat.c\<close> on 20000 bits: the monobit, poker and runs
  tests on a buffer, and the test that draws the octets from a random source and updates all counters
  in one pass. The lemmas bound the counters and show that the one-pass test decides by the three
  separate tests.
\<close>

text \<open>
  A random source: from its state and a number of octets, a status, the octets written and its next
  state; \<open>None\<close> is a fault.
\<close>

type_synonym 's rand_source_func_t = "'s \<Rightarrow> u32 \<Rightarrow> (err_status_t \<times> octets \<times> 's) option"

abbreviation (input) STAT_TEST_DATA_LEN :: nat where "STAT_TEST_DATA_LEN \<equiv> 2500"
abbreviation (input) RAND_SRC_BUF_OCTETS :: u32 where "RAND_SRC_BUF_OCTETS \<equiv> 50"

text \<open>\<^verbatim>\<open>x[i]++\<close>\<close>

definition bump :: "nat \<Rightarrow> nat list \<Rightarrow> nat list" where
  "bump i xs = xs[i := xs ! i + 1]"

subsection \<open>The tests on a buffer\<close>

text \<open>\<open>None\<close>: the buffer is shorter than 2500 octets.\<close>

definition monobit_limits :: "nat \<Rightarrow> bool" where
  "monobit_limits ones_count \<longleftrightarrow> \<not> (ones_count < 9725 \<or> ones_count > 10275)"

definition stat_test_monobit :: "octets \<Rightarrow> err_status_t option" where
  "stat_test_monobit data =
     (if length data < STAT_TEST_DATA_LEN then None
      else
        (let ones_count = foldl (\<lambda>n w. n + octet_get_weight w) 0 (take STAT_TEST_DATA_LEN data)
         in Some (if monobit_limits ones_count then err_status_ok else err_status_algo_fail)))"

text \<open>The frequency counts of the two nibbles of an octet.\<close>

definition count_nibbles :: "nat list \<Rightarrow> u8 \<Rightarrow> nat list" where
  "count_nibbles f w = bump (unat (drop_bit 4 w)) (bump (unat (w AND 0x0f)) f)"

text \<open>
  The statistic is computed in floating point; the sum of the squares is an integer of the parity of
  5000, so it is even, and the two limits lie at 1563175 and 1576928.125: no rounding reaches them and
  exact arithmetic decides the same. \<open>poker5000\<close> is 5000 times the statistic.
\<close>

definition poker_limits :: "nat list \<Rightarrow> bool" where
  "poker_limits f \<longleftrightarrow>
     (let poker5000 = int (foldl (\<lambda>s i. s + f ! i * f ! i) 0 [0..<16]) * 16 - 5000 * 5000
      in \<not> (100 * poker5000 < 216 * 5000 \<or> 100 * poker5000 > 4617 * 5000))"

definition stat_test_poker :: "octets \<Rightarrow> err_status_t option" where
  "stat_test_poker data =
     (if length data < STAT_TEST_DATA_LEN then None
      else
        (let f = foldl count_nibbles (replicate 16 0) (take STAT_TEST_DATA_LEN data)
         in Some (if poker_limits f then err_status_ok else err_status_algo_fail)))"

text \<open>
  The runs counters: the length of the current run (negative for a gap) and the numbers of runs and
  gaps by length. \<open>None\<close>: a run or gap longer than 25, on which the test fails.
\<close>

type_synonym run_counters = "int \<times> nat list \<times> nat list"

fun run_bit :: "run_counters \<Rightarrow> bool \<Rightarrow> run_counters option" where
  "run_bit (state, runs, gaps) True =
     (if state > 0 then
        (let state = state + 1 in if state > 25 then None else Some (state, runs, gaps))
      else if state < 0 then
        (if state < -25 then None
         else (let state = (if state < -6 then -6 else state) in Some (1, runs, bump (nat (- 1 - state)) gaps)))
      else Some (1, runs, gaps))"
| "run_bit (state, runs, gaps) False =
     (if state > 0 then
        (if state > 25 then None
         else (let state = (if state > 6 then 6 else state) in Some (-1, bump (nat (state - 1)) runs, gaps)))
      else if state < 0 then
        (let state = state - 1 in if state < -25 then None else Some (state, runs, gaps))
      else Some (-1, runs, gaps))"

definition octet_bits :: "u8 \<Rightarrow> bool list" where
  "octet_bits w = map (bit w) [0..<8]"

fun run_bits :: "run_counters \<Rightarrow> bool list \<Rightarrow> run_counters option" where
  "run_bits c [] = Some c"
| "run_bits c (b # bs) = Option.bind (run_bit c b) (\<lambda>c. run_bits c bs)"

fun run_octets :: "run_counters \<Rightarrow> octets \<Rightarrow> run_counters option" where
  "run_octets c [] = Some c"
| "run_octets c (w # ws) = Option.bind (run_bits c (octet_bits w)) (\<lambda>c. run_octets c ws)"

definition lo_value :: "nat list" where "lo_value = [2315, 1114, 527, 240, 103, 103]"
definition hi_value :: "nat list" where "hi_value = [2685, 1386, 723, 384, 209, 209]"

definition run_limits :: "run_counters \<Rightarrow> bool" where
  "run_limits c \<longleftrightarrow>
     (case c of (state, runs, gaps) \<Rightarrow>
        \<not> (\<exists>i \<in> {0..<6}. runs ! i < lo_value ! i \<or> runs ! i > hi_value ! i \<or> gaps ! i < lo_value ! i \<or> gaps ! i > hi_value ! i))"

definition no_runs :: run_counters where
  "no_runs = (0, replicate 6 0, replicate 6 0)"

definition stat_test_runs :: "octets \<Rightarrow> err_status_t option" where
  "stat_test_runs data =
     (if length data < STAT_TEST_DATA_LEN then None
      else Some (case run_octets no_runs (take STAT_TEST_DATA_LEN data) of
          None \<Rightarrow> err_status_algo_fail
        | Some c \<Rightarrow> if run_limits c then err_status_ok else err_status_algo_fail))"

subsection \<open>The test of a random source\<close>

text \<open>One octet updates the three counters; a long run or gap ends the test.\<close>

type_synonym stat_counters = "nat \<times> nat list \<times> run_counters"

fun stat_octets :: "stat_counters \<Rightarrow> octets \<Rightarrow> stat_counters option" where
  "stat_octets c [] = Some c"
| "stat_octets (ones_count, f, r) (w # ws) =
     Option.bind (run_bits r (octet_bits w)) (\<lambda>r. stat_octets (ones_count + octet_get_weight w, count_nibbles f w, r) ws)"

text \<open>\<open>n\<close> rounds of the main loop are left. A round that fails gives its status.\<close>

fun stat_rounds ::
  "nat \<Rightarrow> 's rand_source_func_t \<Rightarrow> 's \<Rightarrow> stat_counters \<Rightarrow> ((err_status_t + stat_counters) \<times> 's) option" where
  "stat_rounds 0 get_rand_bytes s c = Some (Inr c, s)"
| "stat_rounds (Suc n) get_rand_bytes s c =
     (case get_rand_bytes s RAND_SRC_BUF_OCTETS of
        None \<Rightarrow> None
      | Some (status, buffer, s) \<Rightarrow>
          if status \<noteq> err_status_ok then Some (Inl status, s)
          else
            (case stat_octets c buffer of
               None \<Rightarrow> Some (Inl err_status_algo_fail, s)
             | Some c \<Rightarrow> stat_rounds n get_rand_bytes s c))"

definition stat_limits :: "err_status_t + stat_counters \<Rightarrow> err_status_t" where
  "stat_limits r =
     (case r of
        Inl status \<Rightarrow> status
      | Inr (ones_count, f, r) \<Rightarrow>
          if \<not> monobit_limits ones_count then err_status_algo_fail
          else if \<not> poker_limits f then err_status_algo_fail
          else if \<not> run_limits r then err_status_algo_fail
          else err_status_ok)"

definition stat_test_rand_source :: "'s rand_source_func_t \<Rightarrow> 's \<Rightarrow> (err_status_t \<times> 's) option" where
  "stat_test_rand_source get_rand_bytes s =
     map_option (map_prod stat_limits id) (stat_rounds 50 get_rand_bytes s (0, replicate 16 0, no_runs))"

fun repeat_test :: "nat \<Rightarrow> err_status_t \<Rightarrow> 's rand_source_func_t \<Rightarrow> 's \<Rightarrow> (err_status_t \<times> 's) option" where
  "repeat_test 0 err source s = Some (err, s)"
| "repeat_test (Suc n) err source s =
     (case stat_test_rand_source source s of
        None \<Rightarrow> None
      | Some (err, s) \<Rightarrow> if err = err_status_ok then Some (err_status_ok, s) else repeat_test n err source s)"

definition stat_test_rand_source_with_repetition ::
  "'s rand_source_func_t \<Rightarrow> nat \<Rightarrow> 's \<Rightarrow> (err_status_t \<times> 's) option" where
  "stat_test_rand_source_with_repetition source num_trials s = repeat_test num_trials err_status_algo_fail source s"

subsection \<open>The counters\<close>

text \<open>The current run stays within 25, the indices stay inside the arrays, and no bit is counted twice.\<close>

definition counters_ok :: "nat \<Rightarrow> run_counters \<Rightarrow> bool" where
  "counters_ok n c \<longleftrightarrow>
     (case c of (state, runs, gaps) \<Rightarrow> \<bar>state\<bar> \<le> 25 \<and> length runs = 6 \<and> length gaps = 6 \<and> sum_list runs + sum_list gaps \<le> n)"

lemma sum_list_bump: "i < length xs \<Longrightarrow> sum_list (bump i xs) = Suc (sum_list xs)"
  by (simp add: bump_def sum_list_update)

lemma length_bump [simp]: "length (bump i xs) = length xs"
  by (simp add: bump_def)

lemma run_bit_counters: "counters_ok n c \<Longrightarrow> run_bit c b = Some c' \<Longrightarrow> counters_ok (Suc n) c'"
  by (cases c; cases b) (auto simp: counters_ok_def sum_list_bump Let_def split: if_splits)

lemma run_bits_counters: "counters_ok n c \<Longrightarrow> run_bits c bs = Some c' \<Longrightarrow> counters_ok (n + length bs) c'"
proof (induction bs arbitrary: n c)
  case (Cons b bs)
  from Cons.prems(2) obtain d where "run_bit c b = Some d" "run_bits d bs = Some c'" by (auto split: Option.bind_splits)
  with Cons.IH [OF run_bit_counters [OF Cons.prems(1)]] show ?case by simp
qed simp

lemma run_octets_counters: "counters_ok n c \<Longrightarrow> run_octets c ws = Some c' \<Longrightarrow> counters_ok (n + 8 * length ws) c'"
proof (induction ws arbitrary: n c)
  case (Cons w ws)
  from Cons.prems(2) obtain d where d: "run_bits c (octet_bits w) = Some d" "run_octets d ws = Some c'"
    by (auto split: Option.bind_splits)
  from run_bits_counters [OF Cons.prems(1) d(1)] have "counters_ok (n + 8) d" by (simp add: octet_bits_def)
  from Cons.IH [OF this d(2)] show ?case by (simp add: algebra_simps)
qed simp

lemma stat_octets_parts:
  "stat_octets (ones, f, r) ws =
     map_option (\<lambda>r. (foldl (\<lambda>n w. n + octet_get_weight w) ones ws, foldl count_nibbles f ws, r)) (run_octets r ws)"
  by (induction ws arbitrary: ones f r) (auto split: Option.bind_splits)

lemma stat_octets_append: "stat_octets c (xs @ ys) = Option.bind (stat_octets c xs) (\<lambda>c. stat_octets c ys)"
  by (induction c xs rule: stat_octets.induct) (auto split: Option.bind_splits)

text \<open>The octets that \<open>n\<close> rounds draw from a source that does not fail.\<close>

fun draw_rounds :: "nat \<Rightarrow> 's rand_source_func_t \<Rightarrow> 's \<Rightarrow> octets option" where
  "draw_rounds 0 source s = Some []"
| "draw_rounds (Suc n) source s =
     (case source s RAND_SRC_BUF_OCTETS of
        None \<Rightarrow> None
      | Some (status, buffer, s) \<Rightarrow>
          if status \<noteq> err_status_ok \<or> length buffer \<noteq> unat RAND_SRC_BUF_OCTETS then None
          else map_option ((@) buffer) (draw_rounds n source s))"

lemma length_draw_rounds: "draw_rounds n source s = Some data \<Longrightarrow> length data = 50 * n"
  by (induction n arbitrary: s data) (auto split: option.splits if_splits)

lemma stat_rounds_draw:
  "draw_rounds n source s = Some data \<Longrightarrow>
     map_option fst (stat_rounds n source s c) =
       Some (case stat_octets c data of None \<Rightarrow> Inl err_status_algo_fail | Some c \<Rightarrow> Inr c)"
proof (induction n arbitrary: s c data)
  case (Suc n)
  then obtain buffer s1 rest where *: "source s RAND_SRC_BUF_OCTETS = Some (err_status_ok, buffer, s1)"
      "draw_rounds n source s1 = Some rest" "data = buffer @ rest"
    by (auto split: option.splits if_splits)
  from * Suc.IH [OF *(2)] show ?case
    by (cases "stat_octets c buffer") (simp_all add: stat_octets_append)
qed simp

subsection \<open>The contract of a random source\<close>

text \<open>
  What the users of a random source rely on: in a state that has \<open>m\<close> octets left, up to \<open>m\<close> octets
  are delivered, all that were asked for, and the state has the rest left.
\<close>

locale octet_source =
  fixes source :: "'s rand_source_func_t" and left :: "'s \<Rightarrow> nat \<Rightarrow> bool"
  assumes delivers: "left s m \<Longrightarrow> 0 < n \<Longrightarrow> unat n \<le> m \<Longrightarrow>
    \<exists>octets s'. source s n = Some (err_status_ok, octets, s') \<and> length octets = unat n \<and> left s' (m - unat n)"
begin

lemma rounds_return:
  "left s m \<Longrightarrow> 50 * n \<le> m \<Longrightarrow>
     \<exists>r s'. stat_rounds n source s c = Some (r, s') \<and> (r = Inl err_status_algo_fail \<or> (\<exists>c. r = Inr c)) \<and>
       (\<exists>k \<ge> m - 50 * n. left s' k)"
proof (induction n arbitrary: s c m)
  case (Suc n)
  obtain octets s1 where s1: "source s RAND_SRC_BUF_OCTETS = Some (err_status_ok, octets, s1)" "left s1 (m - 50)"
    using delivers [OF Suc.prems(1), of RAND_SRC_BUF_OCTETS] Suc.prems(2) by auto
  have "m - 50 * Suc n \<le> m - 50" by simp
  with Suc.IH [OF s1(2)] s1 Suc.prems(2) show ?case
    by (cases "stat_octets c octets") auto
qed auto

lemma test_returns:
  assumes "left s m" "2500 \<le> m"
  shows "\<exists>err s'. stat_test_rand_source source s = Some (err, s') \<and> err \<in> {err_status_ok, err_status_algo_fail} \<and>
    (\<exists>k \<ge> m - 2500. left s' k)"
proof -
  from rounds_return [OF assms(1), of 50 "(0, replicate 16 0, no_runs)"] assms(2) obtain r s' k where
    "stat_rounds 50 source s (0, replicate 16 0, no_runs) = Some (r, s')" "r = Inl err_status_algo_fail \<or> (\<exists>c. r = Inr c)"
    "k \<ge> m - 2500" "left s' k" by auto
  then show ?thesis by (auto simp: stat_test_rand_source_def stat_limits_def split: prod.splits if_splits)
qed

text \<open>A test with repetition ends, passed or failed, without a fault and without any other error.\<close>

lemma repetition_returns:
  assumes "left s m" "2500 * n \<le> m"
  shows "\<exists>err s'. stat_test_rand_source_with_repetition source n s = Some (err, s') \<and>
    err \<in> {err_status_ok, err_status_algo_fail} \<and> (\<exists>k \<ge> m - 2500 * n. left s' k)"
proof -
  have "left s m \<Longrightarrow> 2500 * n \<le> m \<Longrightarrow> err \<in> {err_status_ok, err_status_algo_fail} \<Longrightarrow>
    \<exists>err' s'. repeat_test n err source s = Some (err', s') \<and> err' \<in> {err_status_ok, err_status_algo_fail} \<and>
      (\<exists>k \<ge> m - 2500 * n. left s' k)" for err
  proof (induction n arbitrary: s m err)
    case (Suc n)
    obtain e s1 k where e: "stat_test_rand_source source s = Some (e, s1)" "e \<in> {err_status_ok, err_status_algo_fail}"
        "k \<ge> m - 2500" "left s1 k"
      using test_returns [OF Suc.prems(1)] Suc.prems(2) by auto
    show ?case
    proof (cases "e = err_status_ok")
      case True
      have "m - 2500 * Suc n \<le> k" using e(3) by simp
      with True e show ?thesis by auto
    next
      case False
      have "2500 * n \<le> k" using e(3) Suc.prems(2) by simp
      from Suc.IH [OF e(4) this, of e] e(2) obtain err' s' k' where
        "repeat_test n e source s1 = Some (err', s')" "err' \<in> {err_status_ok, err_status_algo_fail}" "k' \<ge> k - 2500 * n" "left s' k'"
        by auto
      moreover have "k - 2500 * n \<ge> m - 2500 * Suc n" using e(3) by simp
      ultimately show ?thesis using False e(1) by (auto intro: order_trans)
    qed
  qed auto
  with assms show ?thesis by (simp add: stat_test_rand_source_with_repetition_def)
qed

end

subsection \<open>Properties\<close>

text \<open>
  One pass, three tests. For a source that delivers 2500 octets, the test of the source succeeds
  exactly when the monobit, poker and runs tests all succeed on those octets, and otherwise reports
  an algorithm failure; in particular no test is lost when the counters are updated together.
\<close>

theorem stat_test_is_three_tests:
  assumes "draw_rounds 50 source s = Some data"
  shows "map_option fst (stat_test_rand_source source s) =
    Some (if stat_test_monobit data = Some err_status_ok \<and> stat_test_poker data = Some err_status_ok \<and>
        stat_test_runs data = Some err_status_ok then err_status_ok else err_status_algo_fail)"
proof -
  have len: "length data = 2500" using length_draw_rounds [OF assms] by simp
  let ?c = "(0, replicate 16 0, no_runs)"
  obtain s' where "stat_rounds 50 source s ?c = Some
      (case run_octets no_runs data of None \<Rightarrow> Inl err_status_algo_fail
       | Some r \<Rightarrow> Inr (foldl (\<lambda>n w. n + octet_get_weight w) 0 data, foldl count_nibbles (replicate 16 0) data, r), s')"
    using stat_rounds_draw [OF assms, of ?c] by (auto simp: stat_octets_parts split: option.splits)
  then show ?thesis
    using len by (auto simp: stat_test_rand_source_def stat_limits_def stat_test_monobit_def stat_test_poker_def
        stat_test_runs_def Let_def split: option.splits)
qed

text \<open>A source that always delivers zeros, refused by the monobit test.\<close>

theorem stat_test_is_three_tests_witness:
  "map_option fst (stat_test_rand_source (\<lambda>s n. Some (err_status_ok, replicate (unat n) 0, s)) ()) = Some err_status_algo_fail"
proof -
  have d: "draw_rounds n (\<lambda>s n. Some (err_status_ok, replicate (unat n) 0, s)) () = Some (replicate (50 * n) 0)" for n
    by (induction n) (simp_all add: replicate_add)
  have "foldl (\<lambda>n w. n + octet_get_weight w) m (replicate k 0) = m" for m k
    by (induction k) (simp_all add: octet_get_weight_def octet_weight_def)
  then have "stat_test_monobit (replicate 2500 0) \<noteq> Some err_status_ok" by (simp add: stat_test_monobit_def monobit_limits_def)
  with stat_test_is_three_tests [OF d] show ?thesis by simp
qed

text \<open>
  The runs counters. After any octets on which the runs test has not failed, the current run or
  gap is at most 25 bits long, both arrays still have six entries, and all entries together are at
  most the number of bits: 16-bit counters cannot overflow on 20000 bits.
\<close>

theorem stat_runs_bounded:
  assumes "run_octets no_runs data = Some (state, runs, gaps)" and "length data \<le> 2500"
  shows "\<bar>state\<bar> \<le> 25 \<and> length runs = 6 \<and> length gaps = 6 \<and>
    (\<forall>i < 6. runs ! i < 2 ^ 16 \<and> gaps ! i < 2 ^ 16) \<and> sum_list runs + sum_list gaps \<le> 8 * length data"
proof -
  have "counters_ok 0 no_runs" by (simp add: counters_ok_def no_runs_def)
  from run_octets_counters [OF this assms(1)] have c: "\<bar>state\<bar> \<le> 25" "length runs = 6" "length gaps = 6"
      "sum_list runs + sum_list gaps \<le> 8 * length data"
    by (simp_all add: counters_ok_def)
  have "runs ! i \<le> sum_list runs" "gaps ! i \<le> sum_list gaps" if "i < 6" for i
    using that c by (simp_all add: elem_le_sum_list)
  with c assms(2) show ?thesis by (fastforce dest: le_trans)
qed

theorem stat_runs_bounded_witness:
  "\<exists>state runs gaps. run_octets no_runs [0x0f, 0x35] = Some (state, runs, gaps) \<and> sum_list runs + sum_list gaps \<le> 16"
proof -
  obtain state runs gaps where r: "run_octets no_runs [0x0f, 0x35] = Some (state, runs, gaps)"
    by (simp add: no_runs_def octet_bits_def upt_rec bump_def)
  from stat_runs_bounded [OF r] r show ?thesis by auto
qed

end
