(* ===== verification/Rng.thy ===== *)
theory Rng
  imports Stat Aes_Icm
begin

text \<open>
  The random sources: \<^verbatim>\<open>crypto/rng/rand_source.c\<close> as this build configures it, where neither
  \<^verbatim>\<open>DEV_URANDOM\<close> nor \<^verbatim>\<open>PJ_DEV_URANDOM\<close> is defined and the octets come from \<^verbatim>\<open>rand()\<close>, the counter mode
  generator \<^verbatim>\<open>ctr_prng.c\<close> behind \<^verbatim>\<open>crypto_get_random\<close>, and the X9.17 generator \<^verbatim>\<open>prng.c\<close>. The lemmas
  show which octets the generators deliver, that both sources meet the contract the statistical
  tests rely on, and what happens when the counter mode segment is used up.
\<close>

subsection \<open>The source of last resort\<close>

text \<open>\<^verbatim>\<open>rand()\<close> of the C library is the sequence \<open>c_rand\<close>, of which \<open>rand_calls\<close> values have been used.\<close>

record rng =
  dev_random_fdes :: int
  c_rand :: "nat \<Rightarrow> nat"
  rand_calls :: nat

abbreviation (input) RAND_SOURCE_NOT_READY :: int where "RAND_SOURCE_NOT_READY \<equiv> -1"
abbreviation (input) RAND_SOURCE_READY :: int where "RAND_SOURCE_READY \<equiv> 17"

definition rand :: "rng \<Rightarrow> nat \<times> rng" where
  "rand g = (c_rand g (rand_calls g), g\<lparr>rand_calls := rand_calls g + 1\<rparr>)"

definition rand_source_init :: "rng \<Rightarrow> err_status_t \<times> rng" where
  "rand_source_init g =
     (if dev_random_fdes g \<ge> 0 then (err_status_ok, g)
      else (err_status_ok, g\<lparr>dev_random_fdes := RAND_SOURCE_READY\<rparr>))"

fun rand_octets :: "nat \<Rightarrow> rng \<Rightarrow> octets \<times> rng" where
  "rand_octets 0 g = ([], g)"
| "rand_octets (Suc len) g =
     (case rand g of (val, g) \<Rightarrow> case rand_octets len g of (dst, g) \<Rightarrow> ((of_nat val AND 0xff) # dst, g))"

definition rand_source_get_octet_string :: "rng rand_source_func_t" where
  "rand_source_get_octet_string g len = (case rand_octets (unat len) g of (dst, g) \<Rightarrow> Some (err_status_ok, dst, g))"

definition rand_source_deinit :: "rng \<Rightarrow> err_status_t \<times> rng" where
  "rand_source_deinit g = (if dev_random_fdes g < 0 then (err_status_dealloc_fail, g) else (err_status_ok, g))"

subsection \<open>The counter mode generator\<close>

text \<open>The generator over a source with states \<open>'s\<close>; \<open>None\<close> is a fault.\<close>

abbreviation (input) MAX_PRNG_OUT_LEN :: u32 where "MAX_PRNG_OUT_LEN \<equiv> 0xffffffff"

record 's ctr_prng_t =
  octet_count :: u32
  prng_state :: aes_icm_ctx_t
  prng_rand :: "'s rand_source_func_t"

fun ctr_prng_init ::
  "'s rand_source_func_t \<Rightarrow> 's ctr_prng_t \<times> 's \<Rightarrow> (err_status_t \<times> 's ctr_prng_t \<times> 's) option" where
  "ctr_prng_init random_source (p, s) =
     (let p = p\<lparr>octet_count := 0, prng_rand := random_source\<rparr> in
      case random_source s 32 of
        None \<Rightarrow> None
      | Some (status, tmp_key, s) \<Rightarrow>
          if status \<noteq> err_status_ok then Some (status, p, s)
          else
            (case aes_icm_context_init (prng_state p) tmp_key of
               None \<Rightarrow> None
             | Some (status, st) \<Rightarrow> Some (status, p\<lparr>prng_state := st\<rparr>, s)))"

definition ctr_prng_output :: "'s ctr_prng_t \<Rightarrow> u32 \<Rightarrow> (err_status_t \<times> octets \<times> 's ctr_prng_t) option" where
  "ctr_prng_output p len =
     (let p = p\<lparr>octet_count := octet_count p + len\<rparr> in
      case aes_icm_output (prng_state p) (replicate (unat len) 0) (sint len) of
        None \<Rightarrow> None
      | Some (status, st, dest) \<Rightarrow> Some (status, dest, p\<lparr>prng_state := st\<rparr>))"

text \<open>The destination has exactly \<open>len\<close> octets; what it held before is overwritten in any case.\<close>

fun ctr_prng_get_octet_string :: "('s ctr_prng_t \<times> 's) rand_source_func_t" where
  "ctr_prng_get_octet_string (p, s) len =
     (case (if octet_count p > MAX_PRNG_OUT_LEN - len then ctr_prng_init (prng_rand p) (p, s)
            else Some (err_status_ok, p, s)) of
        None \<Rightarrow> None
      | Some (status, p, s) \<Rightarrow>
          if status \<noteq> err_status_ok then Some (status, [], p, s)
          else map_option (\<lambda>(status, dest, p). (status, dest, p, s)) (ctr_prng_output p len))"

definition ctr_prng_deinit :: err_status_t where
  "ctr_prng_deinit = err_status_ok"

subsection \<open>The X9.17 generator\<close>

record 's x917_prng_t =
  x917_state :: v128_t
  x917_key :: aes_expanded_key_t
  x917_octet_count :: u32
  x917_rand :: "'s rand_source_func_t"

text \<open>The sixteen octets of \<^verbatim>\<open>tmp_key\<close> and of the state are read as the source has written them.\<close>

fun x917_prng_init ::
  "'s rand_source_func_t \<Rightarrow> 's x917_prng_t \<times> 's \<Rightarrow> (err_status_t \<times> 's x917_prng_t \<times> 's) option" where
  "x917_prng_init random_source (p, s) =
     (let p = p\<lparr>x917_octet_count := 0, x917_rand := random_source\<rparr> in
      case random_source s 16 of
        None \<Rightarrow> None
      | Some (status, tmp_key, s) \<Rightarrow>
          if status \<noteq> err_status_ok then Some (status, p, s)
          else
            (let p = p\<lparr>x917_key := aes_expand_encryption_key (v128_of_octets tmp_key)\<rparr> in
             case x917_rand p s 16 of
               None \<Rightarrow> None
             | Some (status, st, s) \<Rightarrow>
                 if status \<noteq> err_status_ok then Some (status, p, s)
                 else Some (err_status_ok, p\<lparr>x917_state := v128_of_octets st\<rparr>, s)))"

text \<open>One round at the time \<open>t\<close>: the block of output and the next state.\<close>

definition x917_round :: "aes_expanded_key_t \<Rightarrow> u32 \<Rightarrow> v128_t \<Rightarrow> octets \<times> v128_t" where
  "x917_round key t state =
     (let state = set_v32 state 0 (v32 state 0 XOR t);
          buffer = aes_encrypt state key;
          dest = v128_octets buffer;
          buffer = set_v32 buffer 0 (v32 buffer 0 XOR t)
      in (dest, aes_encrypt buffer key))"

fun x917_rounds :: "nat \<Rightarrow> aes_expanded_key_t \<Rightarrow> u32 \<Rightarrow> v128_t \<Rightarrow> octets \<times> v128_t" where
  "x917_rounds 0 key t state = ([], state)"
| "x917_rounds (Suc n) key t state =
     (case x917_round key t state of (dest, state) \<Rightarrow>
      case x917_rounds n key t state of (rest, state) \<Rightarrow> (dest @ rest, state))"

definition x917_output :: "aes_expanded_key_t \<Rightarrow> u32 \<Rightarrow> u32 \<Rightarrow> v128_t \<Rightarrow> octets \<times> v128_t" where
  "x917_output key t len state =
     (case x917_rounds (unat (len div 16)) key t state of (dest, state) \<Rightarrow>
      let tail_len = unat (len mod 16) in
      if tail_len \<noteq> 0 then (case x917_round key t state of (buffer, state) \<Rightarrow> (dest @ take tail_len buffer, state))
      else (dest, state))"

text \<open>\<open>t\<close> is the time that the call reads.\<close>

fun x917_prng_get_octet_string :: "u32 \<Rightarrow> ('s x917_prng_t \<times> 's) rand_source_func_t" where
  "x917_prng_get_octet_string t (p, s) len =
     (case (if x917_octet_count p > MAX_PRNG_OUT_LEN - len then x917_prng_init (x917_rand p) (p, s)
            else Some (err_status_ok, p, s)) of
        None \<Rightarrow> None
      | Some (status, p, s) \<Rightarrow>
          if status \<noteq> err_status_ok then Some (status, [], p, s)
          else
            (let p = p\<lparr>x917_octet_count := x917_octet_count p + len\<rparr> in
             case x917_output (x917_key p) t len (x917_state p) of
               (dest, st) \<Rightarrow> Some (err_status_ok, dest, p\<lparr>x917_state := st\<rparr>, s)))"

definition x917_prng_deinit :: err_status_t where
  "x917_prng_deinit = err_status_ok"

subsection \<open>The sources meet the contract\<close>

lemma rand_octets_eq:
  "rand_octets n g = (map (\<lambda>i. of_nat (c_rand g (rand_calls g + i))) [0..<n], g\<lparr>rand_calls := rand_calls g + n\<rparr>)"
proof (induction n arbitrary: g)
  case (Suc n)
  have "(0xff :: u8) = - 1" by simp
  then have "w AND 0xff = w" for w :: u8 by (metis and.right_neutral)
  with Suc show ?case by (simp add: rand_def upt_conv_Cons map_Suc_upt [symmetric] del: upt_Suc)
qed simp

interpretation rand_source: octet_source rand_source_get_octet_string "\<lambda>_ _. True"
  by unfold_locales (simp add: rand_source_get_octet_string_def rand_octets_eq)

text \<open>A context after its initialisation stands at the start of the keystream of the zero vector.\<close>

abbreviation (input) zero_iv :: v128_t where "zero_iv \<equiv> V128 0 0 0 0"

lemma aes_icm_context_init_at:
  assumes "32 \<le> length key"
  shows "\<exists>c'. aes_icm_context_init c key = Some (err_status_ok, c') \<and> icm_at c' (icm_key key) zero_iv 0"
proof -
  obtain c' where c': "aes_icm_context_init c key = Some (err_status_ok, c')" "icm_keyed c' (icm_key key)"
    using aes_icm_context_init_keyed [OF assms] by blast
  then have "icm_counter c' = icm_offset c'" "bytes_in_buffer c' = 0"
    using assms by (auto simp: aes_icm_context_init_def Let_def)
  moreover have "v128_xor x zero_iv = x" for x by (cases x) simp
  ultimately have "icm_at c' (icm_key key) zero_iv 0"
    using c'(2) by (simp add: icm_at_def icm_keyed_def icm_keystream_def icm_block_def icm_ks_def)
  with c'(1) show ?thesis by blast
qed

lemma sint_small:
  fixes n :: u32
  assumes "unat n \<le> 0xffff"
  shows "sint n = int (unat n)"
proof -
  have "int (unat n) \<le> 0xffff" using assms by linarith
  then have "uint n < 2 ^ 31" by simp
  then show ?thesis using int_of_u32_eq [of n] by (simp add: int_of_u32_def)
qed

lemma aes_icm_output_at:
  fixes n :: u32
  assumes "icm_at c k iv pos" "0 < n" "pos + unat n \<le> 0xffff"
  shows "\<exists>c'. aes_icm_output c (replicate (unat n) b) (sint n) =
      Some (err_status_ok, c', map (\<lambda>i. icm_ks k iv (pos + i)) [0..<unat n]) \<and> icm_at c' k iv (pos + unat n)"
proof -
  have n: "0 < unat n" "sint n = int (unat n)" using assms(2,3) sint_small [of n] by (simp_all add: unat_gt_0 word_neq_0_conv)
  have x: "xor_octets (replicate (length ks) 0) ks = ks" for ks
    by (rule nth_equalityI) (simp_all add: nth_xor_octets)
  obtain c' where "aes_icm_encrypt c (replicate (unat n) 0) n = Some (err_status_ok, c',
        xor_octets (replicate (unat n) 0) (map (\<lambda>i. icm_ks k iv (pos + i)) [0..<unat n]))" "icm_at c' k iv (pos + unat n)"
    using icm_crypt_at [OF assms(1), of n "replicate (unat n) 0"] assms(3) by auto
  moreover have "octet_string_set_to_zero (replicate (unat n) b) (unat n) = Some (replicate (unat n) 0)"
    using n(1) by (simp add: octet_string_set_to_zero_eq max_def)
  ultimately show ?thesis
    using n(2) x [of "map (\<lambda>i. icm_ks k iv (pos + i)) [0..<unat n]"] by (simp add: aes_icm_output_def)
qed

definition prng_at :: "'s ctr_prng_t \<Rightarrow> aes_expanded_key_t \<times> v128_t \<Rightarrow> nat \<Rightarrow> bool" where
  "prng_at p k pos \<longleftrightarrow> icm_at (prng_state p) k zero_iv pos \<and> unat (octet_count p) = pos"

lemma prng_guard:
  fixes a n :: u32
  shows "a > MAX_PRNG_OUT_LEN - n \<longleftrightarrow> 0xffffffff < unat a + unat n"
proof -
  have "MAX_PRNG_OUT_LEN = - 1" by simp
  then have "n \<le> MAX_PRNG_OUT_LEN" by (metis word_order.extremum)
  then have "unat (MAX_PRNG_OUT_LEN - n) = 0xffffffff - unat n" by (simp add: unat_sub)
  moreover have "unat n \<le> 0xffffffff" using \<open>n \<le> MAX_PRNG_OUT_LEN\<close> by (simp add: word_le_nat_alt)
  ultimately show ?thesis by (auto simp: word_less_nat_alt)
qed

lemma unat_plus_small:
  fixes a n :: u32
  shows "unat a + unat n \<le> 0xffffffff \<Longrightarrow> unat (a + n) = unat a + unat n"
  by (subst unat_add_lem [THEN iffD1]) simp_all

lemma ctr_prng_init_at:
  assumes "source s 32 = Some (err_status_ok, key, s')" "length key = 32"
  shows "\<exists>p'. ctr_prng_init source (p, s) = Some (err_status_ok, p', s') \<and> prng_at p' (icm_key key) 0 \<and> prng_rand p' = source"
proof -
  obtain c where "aes_icm_context_init (prng_state p) key = Some (err_status_ok, c)" "icm_at c (icm_key key) zero_iv 0"
    using aes_icm_context_init_at [of key "prng_state p"] assms(2) by auto
  with assms(1) show ?thesis by (simp add: prng_at_def)
qed

lemma ctr_prng_get_at:
  assumes "prng_at p k pos" "0 < n" "pos + unat n \<le> 0xffff"
  shows "\<exists>p'. ctr_prng_get_octet_string (p, s) n =
      Some (err_status_ok, map (\<lambda>i. icm_ks k zero_iv (pos + i)) [0..<unat n], p', s) \<and> prng_at p' k (pos + unat n)"
proof -
  have p: "icm_at (prng_state p) k zero_iv pos" "unat (octet_count p) = pos" using assms(1) by (simp_all add: prng_at_def)
  obtain c' where c': "aes_icm_output (prng_state p) (replicate (unat n) 0) (sint n) =
      Some (err_status_ok, c', map (\<lambda>i. icm_ks k zero_iv (pos + i)) [0..<unat n])" "icm_at c' k zero_iv (pos + unat n)"
    using aes_icm_output_at [OF p(1) assms(2,3)] by blast
  have "\<not> octet_count p > MAX_PRNG_OUT_LEN - n" unfolding prng_guard using p(2) assms(3) by linarith
  moreover have "unat (octet_count p + n) = pos + unat n" using p(2) assms(3) unat_plus_small [of "octet_count p" n] by simp
  ultimately show ?thesis using c' by (simp add: ctr_prng_output_def prng_at_def)
qed

interpretation ctr_prng: octet_source ctr_prng_get_octet_string "\<lambda>ps m. \<exists>k pos. prng_at (fst ps) k pos \<and> pos + m \<le> 0xffff"
proof unfold_locales
  fix ps :: "'a ctr_prng_t \<times> 'a" and m and n :: u32
  assume *: "\<exists>k pos. prng_at (fst ps) k pos \<and> pos + m \<le> 0xffff" "0 < n" "unat n \<le> m"
  then obtain k pos where k: "prng_at (fst ps) k pos" "pos + m \<le> 0xffff" by blast
  obtain p s where ps: "ps = (p, s)" by (cases ps)
  from ctr_prng_get_at [of p k pos n s] k *(2,3) ps obtain p' where p': "ctr_prng_get_octet_string (p, s) n =
      Some (err_status_ok, map (\<lambda>i. icm_ks k zero_iv (pos + i)) [0..<unat n], p', s)" "prng_at p' k (pos + unat n)" by auto
  moreover have "pos + unat n + (m - unat n) \<le> 0xffff" using k(2) *(3) by simp
  ultimately show "\<exists>octets s'. ctr_prng_get_octet_string ps n = Some (err_status_ok, octets, s') \<and> length octets = unat n \<and>
      (\<exists>k pos. prng_at (fst s') k pos \<and> pos + (m - unat n) \<le> 0xffff)"
    using ps by (auto simp del: ctr_prng_get_octet_string.simps split_paired_Ex)
qed

subsection \<open>Properties\<close>

text \<open>The octets that a sequence of requests delivers, when all of them succeed.\<close>

fun requests :: "'s rand_source_func_t \<Rightarrow> 's \<Rightarrow> u32 list \<Rightarrow> (octets \<times> 's) option" where
  "requests source s [] = Some ([], s)"
| "requests source s (n # ns) =
     (case source s n of
        Some (status, octets, s) \<Rightarrow>
          if status = err_status_ok then map_option (map_prod ((@) octets) id) (requests source s ns) else None
      | None \<Rightarrow> None)"

lemma ctr_prng_requests:
  assumes "prng_at p k pos" "\<forall>n \<in> set ns. 0 < n" "pos + sum_list (map unat ns) \<le> 0xffff"
  shows "\<exists>p'. requests ctr_prng_get_octet_string (p, s) ns =
    Some (map (\<lambda>i. icm_ks k zero_iv (pos + i)) [0..<sum_list (map unat ns)], p', s)"
  using assms
proof (induction ns arbitrary: p pos)
  case (Cons n ns)
  obtain p1 where p1: "ctr_prng_get_octet_string (p, s) n =
      Some (err_status_ok, map (\<lambda>i. icm_ks k zero_iv (pos + i)) [0..<unat n], p1, s)" "prng_at p1 k (pos + unat n)"
    using ctr_prng_get_at [OF Cons.prems(1), of n s] Cons.prems(2,3) by auto
  obtain p2 where "requests ctr_prng_get_octet_string (p1, s) ns =
      Some (map (\<lambda>i. icm_ks k zero_iv (pos + unat n + i)) [0..<sum_list (map unat ns)], p2, s)"
    using Cons.IH [OF p1(2)] Cons.prems(2,3) by auto
  moreover have "map f [0..<a + b] = map f [0..<a] @ map (\<lambda>i. f (a + i)) [0..<b]" for f :: "nat \<Rightarrow> u8" and a b
    by (rule nth_equalityI) (auto simp: nth_append)
  ultimately show ?case using p1(1) by (simp add: add.assoc del: ctr_prng_get_octet_string.simps)
qed simp

text \<open>
  The counter mode generator. Keyed with 32 octets of its source, the generator answers any
  sequence of non-empty requests for at most 65535 octets in all, and the octets it hands out are,
  in order, the AES counter mode keystream of that key: no octet of it is skipped or used twice.
\<close>

theorem ctr_prng_stream:
  assumes "source s 32 = Some (err_status_ok, key, s')" and "length key = 32"
    and "\<forall>n \<in> set ns. 0 < n" and "sum_list (map unat ns) \<le> 0xffff"
  shows "\<exists>p' q. ctr_prng_init source (p, s) = Some (err_status_ok, p', s') \<and>
    requests ctr_prng_get_octet_string (p', s') ns = Some (map (icm_ks (icm_key key) zero_iv) [0..<sum_list (map unat ns)], q)"
proof -
  obtain p' where p': "ctr_prng_init source (p, s) = Some (err_status_ok, p', s')" "prng_at p' (icm_key key) 0"
    using ctr_prng_init_at [of source s key s' p] assms(1,2) by blast
  have "0 + sum_list (map unat ns) \<le> 0xffff" using assms(4) by simp
  from ctr_prng_requests [OF p'(2) assms(3) this, of s'] p'(1) show ?thesis by (auto simp del: ctr_prng_init.simps)
qed

theorem ctr_prng_stream_witness:
  "\<exists>p' q. ctr_prng_init (\<lambda>s n. Some (err_status_ok, replicate (unat n) 5, s))
       (\<lparr>octet_count = 9, prng_state = \<lparr>icm_counter = zero_iv, icm_offset = zero_iv, keystream_buffer = zero_iv,
           icm_expanded_key = [], bytes_in_buffer = 0\<rparr>, prng_rand = (\<lambda>s n. None)\<rparr>, ()) = Some (err_status_ok, p', ()) \<and>
     requests ctr_prng_get_octet_string (p', ()) [3, 20] =
       Some (map (icm_ks (icm_key (replicate 32 5)) zero_iv) [0..<23], q)"
  using ctr_prng_stream [of "\<lambda>s n. Some (err_status_ok, replicate (unat n) 5, s)" "()" "replicate 32 5" "()" "[3, 20]"
      "\<lparr>octet_count = 9, prng_state = \<lparr>icm_counter = zero_iv, icm_offset = zero_iv, keystream_buffer = zero_iv,
         icm_expanded_key = [], bytes_in_buffer = 0\<rparr>, prng_rand = (\<lambda>s n. None)\<rparr>"]
  by (simp del: ctr_prng_init.simps requests.simps)

text \<open>The results of \<open>n\<close> calls with the same length.\<close>

fun repeat_calls :: "nat \<Rightarrow> 's rand_source_func_t \<Rightarrow> 's \<Rightarrow> u32 \<Rightarrow> (err_status_t list \<times> 's) option" where
  "repeat_calls 0 source s len = Some ([], s)"
| "repeat_calls (Suc n) source s len =
     (case source s len of
        None \<Rightarrow> None
      | Some (status, _, s) \<Rightarrow> map_option (map_prod ((#) status) id) (repeat_calls n source s len))"

lemma aes_icm_output_terminus:
  fixes n :: u32
  assumes "0 < n" "unat n \<le> 0xffff" "0xffff < unat n + unat (block_index (icm_counter c))"
  shows "aes_icm_output c (replicate (unat n) b) (sint n) = Some (err_status_terminus, c, replicate (unat n) 0)"
proof -
  let ?b = "ucast (block_index (icm_counter c)) :: u32"
  have n: "0 < unat n" "sint n = int (unat n)" using assms(1,2) sint_small [of n] by (simp_all add: unat_gt_0 word_neq_0_conv)
  have u: "unat ?b = unat (block_index (icm_counter c))" by (simp add: uint_up_ucast is_up flip: nat_uint_eq)
  moreover have "unat (block_index (icm_counter c)) < 2 ^ 16" using unsigned_less [of "block_index (icm_counter c)"] by simp
  ultimately have "unat (n + ?b) = unat n + unat (block_index (icm_counter c))"
    using assms(2) unat_plus_small [of n ?b] by simp
  then have "n + ?b > 0xffff" using assms(3) by (simp add: word_less_nat_alt)
  moreover have "octet_string_set_to_zero (replicate (unat n) b) (unat n) = Some (replicate (unat n) 0)"
    using n(1) by (simp add: octet_string_set_to_zero_eq max_def)
  ultimately show ?thesis
    using n(2) by (simp add: aes_icm_output_def aes_icm_encrypt_def aes_icm_encrypt_ismacryp_def block_index_def)
qed

text \<open>
  A used-up generator. Once the sixteen-bit block counter leaves no room for a request, the
  generator answers it with a terminus error, and so it does for every repetition of the request
  until its octet count passes the 32-bit limit: the limit at which it would take a new key from
  its source lies 4 GiB away, while the keystream segment ends after one MiB.
\<close>

theorem ctr_prng_exhausted:
  assumes "0 < len" and "unat len \<le> 0xffff" and "0xffff < unat len + unat (block_index (icm_counter (prng_state p)))"
    and "unat (octet_count p) + n * unat len \<le> 0xffffffff"
  shows "repeat_calls n ctr_prng_get_octet_string (p, s) len =
    Some (replicate n err_status_terminus, p\<lparr>octet_count := octet_count p + of_nat n * len\<rparr>, s)"
  using assms(3,4)
proof (induction n arbitrary: p)
  case (Suc n)
  let ?p = "p\<lparr>octet_count := octet_count p + len\<rparr>"
  have g: "unat (octet_count p) + unat len \<le> 0xffffffff" using Suc.prems(2) by simp
  then have "\<not> octet_count p > MAX_PRNG_OUT_LEN - len" unfolding prng_guard by simp
  then have step: "ctr_prng_get_octet_string (p, s) len = Some (err_status_terminus, replicate (unat len) 0, ?p, s)"
    using aes_icm_output_terminus [OF assms(1,2) Suc.prems(1)] by (simp add: ctr_prng_output_def)
  have "unat (octet_count ?p) + n * unat len \<le> 0xffffffff" using Suc.prems(2) unat_plus_small [OF g] by simp
  from Suc.IH [OF _ this] Suc.prems(1) step show ?case
    by (simp add: algebra_simps del: ctr_prng_get_octet_string.simps)
qed simp

text \<open>The generator of the phone after 65535 blocks: half a million requests in a row fail.\<close>

theorem ctr_prng_exhausted_witness:
  "repeat_calls 500000 ctr_prng_get_octet_string
     (\<lparr>octet_count = 1048560, prng_state = \<lparr>icm_counter = V128 0 0 0 0xffff0000, icm_offset = zero_iv, keystream_buffer = zero_iv,
         icm_expanded_key = [], bytes_in_buffer = 0\<rparr>, prng_rand = rand_source_get_octet_string\<rparr>, \<lparr>dev_random_fdes = 17, c_rand = (\<lambda>n. n mod 32768), rand_calls = 2532\<rparr>) 4 =
   Some (replicate 500000 err_status_terminus,
     \<lparr>octet_count = 3048560, prng_state = \<lparr>icm_counter = V128 0 0 0 0xffff0000, icm_offset = zero_iv, keystream_buffer = zero_iv,
         icm_expanded_key = [], bytes_in_buffer = 0\<rparr>, prng_rand = rand_source_get_octet_string\<rparr>, \<lparr>dev_random_fdes = 17, c_rand = (\<lambda>n. n mod 32768), rand_calls = 2532\<rparr>)"
proof -
  let ?p = "\<lparr>octet_count = 1048560, prng_state = \<lparr>icm_counter = V128 0 0 0 0xffff0000, icm_offset = zero_iv, keystream_buffer = zero_iv,
         icm_expanded_key = [], bytes_in_buffer = 0\<rparr>, prng_rand = rand_source_get_octet_string\<rparr>"
  have "block_index (icm_counter (prng_state ?p)) = 0xffff" by code_simp
  with ctr_prng_exhausted [of 4 ?p 500000] show ?thesis by simp
qed

text \<open>
  The X9.17 generator delivers as many octets as asked for, and a request that is not a multiple of
  sixteen delivers the first octets of the next longer whole request and leaves the same state:
  the rest of the last block is discarded and never handed out by a later request.
\<close>

theorem x917_output_prefix:
  "length (fst (x917_output key t len st)) = unat len \<and>
   (let n = unat (len div 16) + (if len mod 16 = 0 then 0 else 1) in
    fst (x917_output key t len st) = take (unat len) (fst (x917_rounds n key t st)) \<and>
    snd (x917_output key t len st) = snd (x917_rounds n key t st))"
proof -
  have lr: "length (fst (x917_round key t st)) = 16" for st by (simp add: x917_round_def Let_def)
  have l: "length (fst (x917_rounds n key t st)) = 16 * n" for n st
    by (induction n arbitrary: st) (simp_all add: case_prod_unfold lr)
  have add: "x917_rounds (Suc n) key t st = (case x917_rounds n key t st of (dest, st) \<Rightarrow>
      map_prod ((@) dest) id (x917_round key t st))" for n st
    by (induction n arbitrary: st) (simp_all add: case_prod_unfold map_prod_def)
  have d: "unat (len div 16) = unat len div 16" "unat (len mod 16) = unat len mod 16"
    by (simp_all add: unat_div unat_mod)
  show ?thesis
  proof (cases "unat len mod 16 = 0")
    case True
    then have "len mod 16 = 0" by (metis d(2) unat_eq_zero)
    moreover have "16 * (unat len div 16) = unat len" using True by auto
    ultimately show ?thesis using True l [of "unat len div 16" st]
      by (simp add: x917_output_def case_prod_unfold Let_def d)
  next
    case False
    then have "len mod 16 \<noteq> 0" by (metis d(2) unat_0)
    moreover have "unat len - 16 * (unat len div 16) = unat len mod 16" by (simp add: minus_mult_div_eq_mod)
    ultimately show ?thesis using False l [of "unat len div 16" st] lr [of "snd (x917_rounds (unat len div 16) key t st)"]
      by (simp add: x917_output_def case_prod_unfold Let_def d add map_prod_def del: x917_rounds.simps)
  qed
qed

end
