(* ===== verification/Self_Test.thy ===== *)
theory Self_Test
  imports Known_Answers Rng "HOL-Library.Monad_Syntax"
begin

text \<open>
  The self-tests of the cipher and authentication types, \<^verbatim>\<open>cipher_type_self_test\<close> in
  \<^verbatim>\<open>crypto/cipher/cipher.c\<close> and \<^verbatim>\<open>auth_type_self_test\<close> in \<^verbatim>\<open>crypto/hash/auth.c\<close>, on the test data of the
  types: known answers in both directions and random messages that are encrypted and decrypted.
  Every early return is modelled, with and without the release of the tested object. The lemmas show
  that all types of the library pass, whatever the random numbers are.
\<close>

subsection \<open>Test data\<close>

record cipher_test_case_t =
  key_length_octets :: int
  test_key :: octets
  idx :: v128_t
  plaintext_length_octets :: u32
  plaintext :: octets
  ciphertext_length_octets :: u32
  ciphertext :: octets

definition null_cipher_test_0 :: cipher_test_case_t where
  "null_cipher_test_0 = \<lparr>key_length_octets = 0, test_key = [], idx = V128 0 0 0 0, plaintext_length_octets = 0, plaintext = [],
     ciphertext_length_octets = 0, ciphertext = []\<rparr>"

text \<open>\<open>behind\<close> are the octets that follow the key of 30 octets in memory.\<close>

definition aes_icm_test_case_0 :: "octets \<Rightarrow> cipher_test_case_t" where
  "aes_icm_test_case_0 behind = \<lparr>key_length_octets = 30, test_key = aes_icm_test_case_0_key @ behind, idx = V128 0 0 0 0,
     plaintext_length_octets = 32, plaintext = replicate 32 0,
     ciphertext_length_octets = 32, ciphertext = aes_icm_test_case_0_ciphertext\<rparr>"

definition aes_cbc_test_case_0 :: cipher_test_case_t where
  "aes_cbc_test_case_0 = \<lparr>key_length_octets = 16, test_key = aes_cbc_test_case_0_key, idx = V128 0 0 0 0,
     plaintext_length_octets = 16, plaintext = aes_cbc_test_case_0_plaintext,
     ciphertext_length_octets = 32, ciphertext = aes_cbc_test_case_0_ciphertext\<rparr>"

text \<open>The lists of test cases that the metaobjects point to.\<close>

fun cipher_test_data :: "octets \<Rightarrow> cipher_type_t \<Rightarrow> cipher_test_case_t list" where
  "cipher_test_data behind null_cipher = [null_cipher_test_0]"
| "cipher_test_data behind aes_icm = [aes_icm_test_case_0 behind]"
| "cipher_test_data behind aes_cbc = [aes_cbc_test_case_0]"

record auth_test_case_t =
  auth_key_length_octets :: int
  auth_test_key :: octets
  auth_test_data_octets :: octets
  tag_length_octets :: int
  auth_test_tag :: octets

definition null_auth_test_case_0 :: auth_test_case_t where
  "null_auth_test_case_0 = \<lparr>auth_key_length_octets = 0, auth_test_key = [], auth_test_data_octets = [], tag_length_octets = 0, auth_test_tag = []\<rparr>"

definition hmac_test_case_0 :: auth_test_case_t where
  "hmac_test_case_0 = \<lparr>auth_key_length_octets = 20, auth_test_key = replicate 20 0x0b,
     auth_test_data_octets = [0x48, 0x69, 0x20, 0x54, 0x68, 0x65, 0x72, 0x65], tag_length_octets = 20,
     auth_test_tag = [0xb6, 0x17, 0x31, 0x86, 0x55, 0x05, 0x72, 0x64, 0xe2, 0x8b, 0xc0, 0xb6, 0xfb, 0x37, 0x8c, 0x8e, 0xf1, 0x46, 0xbe, 0x00]\<rparr>"

fun auth_test_data :: "auth_type_t \<Rightarrow> auth_test_case_t list" where
  "auth_test_data null_auth = [null_auth_test_case_0]"
| "auth_test_data hmac = [hmac_test_case_0]"

text \<open>The memory that the tests find: uninitialised buffers and the octets behind the key.\<close>

record stack =
  buffer_mem :: octets
  stack_key :: octets
  behind_mem :: octets
  tag_mem :: octets

definition stack_ok :: "stack \<Rightarrow> bool" where
  "stack_ok m \<longleftrightarrow> length (buffer_mem m) = 128 \<and> length (stack_key m) = 64 \<and> 2 \<le> length (behind_mem m) \<and> length (tag_mem m) = 32"

subsection \<open>The test of a cipher type\<close>

text \<open>How a part of the test ends: go on, release the cipher and return, or return without releasing it.\<close>

datatype verdict = Passed | Failed err_status_t | Left_Allocated err_status_t

abbreviation (input) SELF_TEST_BUF_OCTETS :: u32 where "SELF_TEST_BUF_OCTETS \<equiv> 128"
abbreviation (input) NUM_RAND_TESTS :: nat where "NUM_RAND_TESTS \<equiv> 128"
abbreviation (input) MAX_KEY_LEN :: int where "MAX_KEY_LEN \<equiv> 64"

definition copy_in :: "octets \<Rightarrow> u32 \<Rightarrow> octets \<Rightarrow> octets option" where
  "copy_in src n buffer =
     (if length src < unat n \<or> length buffer < unat n then None else Some (write_at 0 (take (unat n) src) buffer))"

definition compare_octets :: "octets \<Rightarrow> octets \<Rightarrow> u32 \<Rightarrow> verdict option" where
  "compare_octets xs ys n =
     (if length xs < unat n \<or> length ys < unat n then None
      else Some (if take (unat n) xs = take (unat n) ys then Passed else Failed err_status_algo_fail))"

definition known_answer ::
  "(cipher_t \<Rightarrow> octets \<Rightarrow> u32 \<Rightarrow> (err_status_t \<times> cipher_t \<times> octets \<times> u32) option) \<Rightarrow> cipher_direction_t \<Rightarrow> cipher_test_case_t \<Rightarrow>
   octets \<Rightarrow> u32 \<Rightarrow> octets \<Rightarrow> u32 \<Rightarrow> cipher_t \<Rightarrow> octets \<Rightarrow> (verdict \<times> cipher_t \<times> octets) option" where
  "known_answer crypt dir test_case input in_len expected exp_len c buffer =
     do {
       (status, c) \<leftarrow> cipher_init c (test_key test_case) dir;
       if status \<noteq> err_status_ok then Some (Failed status, c, buffer)
       else if ciphertext_length_octets test_case > SELF_TEST_BUF_OCTETS then Some (Failed err_status_bad_param, c, buffer)
       else do {
         buffer \<leftarrow> copy_in input in_len buffer;
         let (status, c) = cipher_set_iv c (idx test_case);
         if status \<noteq> err_status_ok then Some (Failed status, c, buffer)
         else do {
           (status, c, buffer, len) \<leftarrow> crypt c buffer in_len;
           if status \<noteq> err_status_ok then Some (Failed status, c, buffer)
           else if len \<noteq> exp_len then Some (Left_Allocated err_status_algo_fail, c, buffer)
           else do {
             v \<leftarrow> compare_octets buffer expected exp_len;
             Some (v, c, buffer)
           }
         }
       }
     }"

definition test_encryption :: "cipher_test_case_t \<Rightarrow> cipher_t \<Rightarrow> octets \<Rightarrow> (verdict \<times> cipher_t \<times> octets) option" where
  "test_encryption test_case c buffer =
     known_answer cipher_encrypt direction_encrypt test_case (plaintext test_case) (plaintext_length_octets test_case)
       (ciphertext test_case) (ciphertext_length_octets test_case) c buffer"

definition test_decryption :: "cipher_test_case_t \<Rightarrow> cipher_t \<Rightarrow> octets \<Rightarrow> (verdict \<times> cipher_t \<times> octets) option" where
  "test_decryption test_case c buffer =
     known_answer cipher_decrypt direction_decrypt test_case (ciphertext test_case) (ciphertext_length_octets test_case)
       (plaintext test_case) (plaintext_length_octets test_case) c buffer"

text \<open>The cipher \<open>c\<close> at address \<open>a\<close> as the test leaves it.\<close>

definition put_back :: "heap \<Rightarrow> addr \<Rightarrow> cipher_t \<Rightarrow> heap" where
  "put_back h a c = h\<lparr>ciphers := (ciphers h)(a \<mapsto> c)\<rparr>"

text \<open>How the end of a part of the test is carried out; \<open>Inl\<close> is the return of the whole test.\<close>

fun conclude :: "verdict \<Rightarrow> heap \<Rightarrow> addr \<Rightarrow> cipher_t \<Rightarrow> (err_status_t \<times> heap + heap) option" where
  "conclude Passed h a c = Some (Inr (put_back h a c))"
| "conclude (Failed status) h a c = map_option (\<lambda>(_, h). Inl (status, h)) (cipher_dealloc (put_back h a c) a)"
| "conclude (Left_Allocated status) h a c = Some (Inl (status, put_back h a c))"

fun known_answers :: "cipher_type_t \<Rightarrow> cipher_test_case_t list \<Rightarrow> octets \<Rightarrow> heap \<Rightarrow> ((err_status_t \<times> heap + heap) \<times> octets) option" where
  "known_answers ct [] buffer h = Some (Inr h, buffer)"
| "known_answers ct (test_case # cases) buffer h =
     (case cipher_type_alloc ct h (key_length_octets test_case) of
        (status, p, h) \<Rightarrow>
          if status \<noteq> err_status_ok then Some (Inl (status, h), buffer)
          else do {
            a \<leftarrow> p;
            c \<leftarrow> ciphers h a;
            (v, c, buffer) \<leftarrow> test_encryption test_case c buffer;
            r \<leftarrow> conclude v h a c;
            (case r of
               Inl stop \<Rightarrow> Some (Inl stop, buffer)
             | Inr h \<Rightarrow> do {
                 (v, c, buffer) \<leftarrow> test_decryption test_case c buffer;
                 r \<leftarrow> conclude v h a c;
                 (case r of
                    Inl stop \<Rightarrow> Some (Inl stop, buffer)
                  | Inr h \<Rightarrow> do {
                      (status, h) \<leftarrow> cipher_dealloc h a;
                      if status \<noteq> err_status_ok then Some (Inl (status, h), buffer) else known_answers ct cases buffer h
                    })
               })
          })"

text \<open>One random message, from the initialisation of the cipher to the comparison.\<close>

definition invert_test ::
  "cipher_test_case_t \<Rightarrow> octets \<Rightarrow> cipher_t \<Rightarrow> octets \<Rightarrow> u32 \<Rightarrow> (verdict \<times> cipher_t \<times> octets) option" where
  "invert_test test_case key c buffer len =
     do {
       let buffer2 = take (unat len) buffer;
       (status, c) \<leftarrow> cipher_init c key direction_encrypt;
       if status \<noteq> err_status_ok then Some (Failed status, c, buffer)
       else do {
         let (status, c) = cipher_set_iv c (idx test_case);
         if status \<noteq> err_status_ok then Some (Failed status, c, buffer)
         else do {
           let plaintext_len = len;
           (status, c, buffer, len) \<leftarrow> cipher_encrypt c buffer len;
           if status \<noteq> err_status_ok then Some (Failed status, c, buffer)
           else do {
             (status, c) \<leftarrow> cipher_init c key direction_decrypt;
             if status \<noteq> err_status_ok then Some (Failed status, c, buffer)
             else do {
               let (status, c) = cipher_set_iv c (idx test_case);
               if status \<noteq> err_status_ok then Some (Failed status, c, buffer)
               else do {
                 (status, c, buffer, len) \<leftarrow> cipher_decrypt c buffer len;
                 if status \<noteq> err_status_ok then Some (Failed status, c, buffer)
                 else if len \<noteq> plaintext_len then Some (Left_Allocated err_status_algo_fail, c, buffer)
                 else do {
                   v \<leftarrow> compare_octets buffer buffer2 plaintext_len;
                   Some (v, c, buffer)
                 }
               }
             }
           }
         }
       }
     }"

definition random_test ::
  "octets \<Rightarrow> cipher_test_case_t \<Rightarrow> cipher_t \<Rightarrow> octets \<Rightarrow> rng \<Rightarrow> (verdict \<times> cipher_t \<times> octets \<times> rng) option" where
  "random_test key_mem test_case c buffer g =
     do {
       let (val, g) = rand g;
       let len = of_nat (val mod 64);
       (status, dst, g) \<leftarrow> rand_source_get_octet_string g len;
       if status \<noteq> err_status_ok then Some (Left_Allocated status, c, buffer, g)
       else do {
         let buffer = write_at 0 dst buffer;
         if key_length_octets test_case > MAX_KEY_LEN then Some (Left_Allocated err_status_cant_check, c, buffer, g)
         else do {
           (status, k, g) \<leftarrow> rand_source_get_octet_string g (word_of_int (key_length_octets test_case));
           if status \<noteq> err_status_ok then Some (Left_Allocated status, c, buffer, g)
           else do {
             let key = write_at 0 k key_mem;
             (status, iv, g) \<leftarrow> rand_source_get_octet_string g (word_of_int MAX_KEY_LEN);
             if status \<noteq> err_status_ok then Some (Left_Allocated status, c, buffer, g)
             else do {
               (v, c, buffer) \<leftarrow> invert_test test_case key c buffer len;
               Some (v, c, buffer, g)
             }
           }
         }
       }
     }"

fun random_tests ::
  "nat \<Rightarrow> octets \<Rightarrow> cipher_test_case_t \<Rightarrow> cipher_t \<Rightarrow> octets \<Rightarrow> rng \<Rightarrow> (verdict \<times> cipher_t \<times> octets \<times> rng) option" where
  "random_tests 0 key_mem test_case c buffer g = Some (Passed, c, buffer, g)"
| "random_tests (Suc n) key_mem test_case c buffer g =
     do {
       (v, c, buffer, g) \<leftarrow> random_test key_mem test_case c buffer g;
       if v \<noteq> Passed then Some (v, c, buffer, g) else random_tests n key_mem test_case c buffer g
     }"

definition invertibility_tests ::
  "stack \<Rightarrow> cipher_type_t \<Rightarrow> cipher_test_case_t \<Rightarrow> octets \<Rightarrow> heap \<Rightarrow> rng \<Rightarrow> (err_status_t \<times> heap \<times> rng) option" where
  "invertibility_tests m ct test_case buffer h g =
     (case cipher_type_alloc ct h (key_length_octets test_case) of
        (status, p, h) \<Rightarrow>
          if status \<noteq> err_status_ok then Some (status, h, g)
          else do {
            a \<leftarrow> p;
            c \<leftarrow> ciphers h a;
            let (_, g) = rand_source_init g;
            (v, c, buffer, g) \<leftarrow> random_tests NUM_RAND_TESTS (stack_key m) test_case c buffer g;
            r \<leftarrow> conclude v h a c;
            (case r of
               Inl (status, h) \<Rightarrow> Some (status, h, g)
             | Inr h \<Rightarrow> do {
                 (_, h) \<leftarrow> cipher_dealloc h a;
                 Some (err_status_ok, h, g)
               })
          })"

definition cipher_type_self_test :: "stack \<Rightarrow> cipher_type_t \<Rightarrow> heap \<Rightarrow> rng \<Rightarrow> (err_status_t \<times> heap \<times> rng) option" where
  "cipher_type_self_test m ct h g =
     (case cipher_test_data (behind_mem m) ct of
        [] \<Rightarrow> Some (err_status_cant_check, h, g)
      | test_case # _ \<Rightarrow> do {
          (r, buffer) \<leftarrow> known_answers ct (cipher_test_data (behind_mem m) ct) (buffer_mem m) h;
          (case r of
             Inl (status, h) \<Rightarrow> Some (status, h, g)
           | Inr h \<Rightarrow> invertibility_tests m ct test_case buffer h g)
        })"

subsection \<open>The test of an authentication type\<close>

abbreviation (input) SELF_TEST_TAG_BUF_OCTETS :: int where "SELF_TEST_TAG_BUF_OCTETS \<equiv> 32"

text \<open>The part between allocation and release: the status to return, or \<open>err_status_ok\<close> to go on.\<close>

definition auth_answer :: "auth_test_case_t \<Rightarrow> auth_t \<Rightarrow> octets \<Rightarrow> (err_status_t \<times> auth_t \<times> octets) option" where
  "auth_answer test_case a tag =
     do {
       (status, a) \<leftarrow> auth_init a (auth_test_key test_case);
       if status \<noteq> err_status_ok then Some (status, a, tag)
       else do {
         tag \<leftarrow> octet_string_set_to_zero tag (nat (tag_length_octets test_case));
         let (status, a, result) = auth_compute a (auth_test_data_octets test_case);
         let tag = write_at 0 result tag;
         if status \<noteq> err_status_ok then Some (status, a, tag)
         else
           (let n = nat (tag_length_octets test_case) in
            if length tag < n \<or> length (auth_test_tag test_case) < n then None
            else Some (if take n tag = take n (auth_test_tag test_case) then err_status_ok else err_status_algo_fail, a, tag))
       }
     }"

fun auth_cases :: "auth_type_t \<Rightarrow> auth_test_case_t list \<Rightarrow> octets \<Rightarrow> heap \<Rightarrow> (err_status_t \<times> heap) option" where
  "auth_cases ty [] tag h = Some (err_status_ok, h)"
| "auth_cases ty (test_case # cases) tag h =
     (if tag_length_octets test_case > SELF_TEST_TAG_BUF_OCTETS then Some (err_status_bad_param, h)
      else
        (case auth_type_alloc ty h (auth_key_length_octets test_case) (tag_length_octets test_case) of
           (status, p, h) \<Rightarrow>
             if status \<noteq> err_status_ok then Some (status, h)
             else do {
               ad \<leftarrow> p;
               a \<leftarrow> auths h ad;
               (status, a, tag) \<leftarrow> auth_answer test_case a tag;
               let h = h\<lparr>auths := (auths h)(ad \<mapsto> a)\<rparr>;
               (dealloc_status, h) \<leftarrow> auth_dealloc h ad;
               if status \<noteq> err_status_ok then Some (status, h)
               else if dealloc_status \<noteq> err_status_ok then Some (dealloc_status, h)
               else auth_cases ty cases tag h
             }))"

definition auth_type_self_test :: "stack \<Rightarrow> auth_type_t \<Rightarrow> heap \<Rightarrow> (err_status_t \<times> heap) option" where
  "auth_type_self_test m ty h =
     (if auth_test_data ty = [] then Some (err_status_cant_check, h)
      else auth_cases ty (auth_test_data ty) (tag_mem m) h)"

subsection \<open>The contract of a tested cipher\<close>

text \<open>
  What the test asks of a type: objects of the type, the two known answers, and that decryption
  undoes encryption for every key and every message shorter than 64 octets in the buffer.
\<close>

locale tested_cipher =
  fixes ct :: cipher_type_t and test_case :: "octets \<Rightarrow> cipher_test_case_t"
  assumes data: "cipher_test_data behind ct = [test_case behind]"
    and key_length: "0 \<le> key_length_octets (test_case behind)" "key_length_octets (test_case behind) \<le> 64"
    and allocates: "malloc_ok h (mallocs h) \<Longrightarrow> cipher_type_alloc ct h (key_length_octets (test_case behind)) =
      put_cipher h ct (key_length_octets (test_case behind))"
    and encrypts: "ctx_type (cipher_state c) = ct \<Longrightarrow> length buffer = 128 \<Longrightarrow> 2 \<le> length behind \<Longrightarrow>
      \<exists>c' buffer'. test_encryption (test_case behind) c buffer = Some (Passed, c', buffer') \<and>
        ctx_type (cipher_state c') = ct \<and> length buffer' = 128"
    and decrypts: "ctx_type (cipher_state c) = ct \<Longrightarrow> length buffer = 128 \<Longrightarrow> 2 \<le> length behind \<Longrightarrow>
      \<exists>c' buffer'. test_decryption (test_case behind) c buffer = Some (Passed, c', buffer') \<and>
        ctx_type (cipher_state c') = ct \<and> length buffer' = 128"
    and inverts: "ctx_type (cipher_state c) = ct \<Longrightarrow> length buffer = 128 \<Longrightarrow> length key = 64 \<Longrightarrow> unat len < 64 \<Longrightarrow>
      \<exists>c' buffer'. invert_test (test_case behind) key c buffer len = Some (Passed, c', buffer') \<and>
        ctx_type (cipher_state c') = ct \<and> length buffer' = 128"
begin

lemma random_test_passes:
  assumes "ctx_type (cipher_state c) = ct" "length buffer = 128" "length key_mem = 64"
  shows "\<exists>c' buffer' g'. random_test key_mem (test_case behind) c buffer g = Some (Passed, c', buffer', g') \<and>
    ctx_type (cipher_state c') = ct \<and> length buffer' = 128"
proof -
  let ?val = "c_rand g (rand_calls g)"
  define len :: u32 where "len = of_nat (?val mod 64)"
  have len: "unat len < 64" by (simp add: len_def unat_of_nat)
  obtain dst g1 where 1: "rand_source_get_octet_string (snd (rand g)) len = Some (err_status_ok, dst, g1)" "length dst = unat len"
    by (simp add: rand_source_get_octet_string_def rand_octets_eq)
  let ?n = "word_of_int (key_length_octets (test_case behind)) :: u32"
  obtain m where "key_length_octets (test_case behind) = int m" "m \<le> 64"
    using key_length [of behind] by (auto elim!: nonneg_int_cases)
  then have n: "unat ?n \<le> 64" by (simp add: unat_of_nat)
  obtain k g2 where 2: "rand_source_get_octet_string g1 ?n = Some (err_status_ok, k, g2)" "length k = unat ?n"
    by (simp add: rand_source_get_octet_string_def rand_octets_eq)
  obtain iv g3 where 3: "rand_source_get_octet_string g2 64 = Some (err_status_ok, iv, g3)"
    by (simp add: rand_source_get_octet_string_def rand_octets_eq)
  have b: "length (write_at 0 dst buffer) = 128" "length (write_at 0 k key_mem) = 64"
    using assms(2,3) 1(2) 2(2) len n by (simp_all add: write_at_def)
  obtain c' buffer' where "invert_test (test_case behind) (write_at 0 k key_mem) c (write_at 0 dst buffer) len =
      Some (Passed, c', buffer')" "ctx_type (cipher_state c') = ct" "length buffer' = 128"
    using inverts [OF assms(1) b len] by blast
  with 1 2 3 key_length(2) [of behind] show ?thesis
    by (auto simp: random_test_def rand_def Let_def not_less simp flip: len_def)
qed

lemma random_tests_pass:
  "ctx_type (cipher_state c) = ct \<Longrightarrow> length buffer = 128 \<Longrightarrow> length key_mem = 64 \<Longrightarrow>
    \<exists>c' buffer' g'. random_tests n key_mem (test_case behind) c buffer g = Some (Passed, c', buffer', g') \<and>
      ctx_type (cipher_state c') = ct"
proof (induction n arbitrary: c buffer g)
  case (Suc n)
  obtain c1 b1 g1 where 1: "random_test key_mem (test_case behind) c buffer g = Some (Passed, c1, b1, g1)"
      "ctx_type (cipher_state c1) = ct" "length b1 = 128"
    using random_test_passes [OF Suc.prems] by blast
  from Suc.IH [OF 1(2,3) Suc.prems(3), of g1] 1(1) show ?case by auto
qed simp

end

context tested_cipher
begin

text \<open>An object that was allocated, used and released leaves the heap as it was, but for the address.\<close>

lemma release_allocated:
  assumes "malloc_ok h (mallocs h)" "ctx_type (cipher_state c) = ct" "ciphers h (mallocs h) = None"
  shows "cipher_dealloc (put_back (snd (snd (put_cipher h ct key_len))) (mallocs h) c) (mallocs h) = Some (err_status_ok, h\<lparr>mallocs := mallocs h + 1\<rparr>)"
  using assms fun_upd_idem [of "ciphers h" "mallocs h" None]
  by (cases ct) (auto simp: put_cipher_def crypto_alloc_def put_back_def cipher_dealloc_def null_cipher_dealloc_def
      aes_icm_dealloc_def aes_cbc_dealloc_def drop_cipher_def)

lemma put_back_twice [simp]: "put_back (put_back h a c) a c' = put_back h a c'"
  by (simp add: put_back_def)

lemma allocated:
  assumes "malloc_ok h (mallocs h)"
  shows "\<exists>c h'. cipher_type_alloc ct h (key_length_octets (test_case behind)) = (err_status_ok, Some (mallocs h), h') \<and>
    h' = snd (snd (put_cipher h ct (key_length_octets (test_case behind)))) \<and>
    ciphers h' (mallocs h) = Some c \<and> ctx_type (cipher_state c) = ct"
  using allocates [OF assms, of behind] assms
  by (cases ct) (auto simp: put_cipher_def crypto_alloc_def)

lemma self_test_passes:
  assumes "stack_ok m" "malloc_ok h (mallocs h)" "malloc_ok h (mallocs h + 1)"
    and "ciphers h (mallocs h) = None" "ciphers h (mallocs h + 1) = None"
  shows "\<exists>g'. cipher_type_self_test m ct h g = Some (err_status_ok, h\<lparr>mallocs := mallocs h + 2\<rparr>, g')"
proof -
  let ?t = "test_case (behind_mem m)"
  have m: "length (buffer_mem m) = 128" "length (stack_key m) = 64" "2 \<le> length (behind_mem m)"
    using assms(1) by (simp_all add: stack_ok_def)
  obtain c h1 where a: "cipher_type_alloc ct h (key_length_octets ?t) = (err_status_ok, Some (mallocs h), h1)"
      "h1 = snd (snd (put_cipher h ct (key_length_octets ?t)))" "ciphers h1 (mallocs h) = Some c" "ctx_type (cipher_state c) = ct"
    using allocated [OF assms(2)] by blast
  obtain c1 b1 where e: "test_encryption ?t c (buffer_mem m) = Some (Passed, c1, b1)" "ctx_type (cipher_state c1) = ct" "length b1 = 128"
    using encrypts [OF a(4) m(1,3)] by blast
  obtain c2 b2 where d: "test_decryption ?t c1 b1 = Some (Passed, c2, b2)" "ctx_type (cipher_state c2) = ct" "length b2 = 128"
    using decrypts [OF e(2,3) m(3)] by blast
  let ?h = "h\<lparr>mallocs := mallocs h + 1\<rparr>"
  have k: "known_answers ct [?t] (buffer_mem m) h = Some (Inr ?h, b2)"
    using a e d release_allocated [OF assms(2) d(2) assms(4)] by simp
  have h: "malloc_ok ?h (mallocs ?h)" "ciphers ?h (mallocs ?h) = None" using assms(3,5) by simp_all
  obtain c3 h2 where a2: "cipher_type_alloc ct ?h (key_length_octets ?t) = (err_status_ok, Some (mallocs ?h), h2)"
      "h2 = snd (snd (put_cipher ?h ct (key_length_octets ?t)))" "ciphers h2 (mallocs ?h) = Some c3" "ctx_type (cipher_state c3) = ct"
    using allocated [OF h(1)] by blast
  obtain c4 b3 g' where r: "random_tests 128 (stack_key m) ?t c3 b2 (snd (rand_source_init g)) = Some (Passed, c4, b3, g')"
      "ctx_type (cipher_state c4) = ct"
    using random_tests_pass [OF a2(4) d(3) m(2)] by blast
  have "cipher_dealloc (put_back h2 (mallocs ?h) c4) (mallocs ?h) = Some (err_status_ok, ?h\<lparr>mallocs := mallocs ?h + 1\<rparr>)"
    unfolding a2(2) by (rule release_allocated [OF h(1) r(2) h(2)])
  then have "invertibility_tests m ct ?t b2 ?h g = Some (err_status_ok, h\<lparr>mallocs := mallocs h + 2\<rparr>, g')"
    using a2(1,3) r(1) by (simp add: invertibility_tests_def case_prod_unfold)
  with k show ?thesis by (simp add: cipher_type_self_test_def data)
qed

end

subsection \<open>The types of the library pass\<close>

text \<open>Stream ciphers: one operation for both directions, exclusive or with the keystream.\<close>

lemma keyed_crypt:
  assumes "cipher_keyed c k" "block_index iv = 0" "unat n \<le> length buf" "unat n \<le> 0xffff"
  defines "out \<equiv> xor_octets (take (unat n) buf) (map (stream_ks k iv) [0..<unat n]) @ drop (unat n) buf"
  shows "\<exists>c1 c'. cipher_set_iv c iv = (err_status_ok, c1) \<and> cipher_encrypt c1 buf n = Some (err_status_ok, c', out, n) \<and>
    cipher_decrypt c1 buf n = Some (err_status_ok, c', out, n) \<and> cipher_keyed c' k"
proof -
  obtain c1 where c1: "cipher_set_iv c iv = (err_status_ok, c1)" "cipher_at c1 k iv 0"
    using cipher.set_iv_at [OF assms(1,2)] by (cases "cipher_set_iv c iv") auto
  then have k1: "cipher_keyed c1 k" using cipher.at_keyed by blast
  obtain c' where "cipher_crypt c1 buf n = Some (err_status_ok, c', out)" "cipher_keyed c' k"
    using cipher.crypt_fresh [OF assms(1-4)] c1(1) by (auto simp: out_def)
  with c1(1) show ?thesis by (simp add: cipher_decrypt_eq [OF k1])
qed

lemma stream_known_answer:
  assumes init: "cipher_init c (test_key tc) dir = Some (err_status_ok, c0)" "cipher_keyed c0 k"
    and "crypt \<in> {cipher_encrypt, cipher_decrypt}" "block_index (idx tc) = 0" "ciphertext_length_octets tc \<le> 128"
    and n: "unat n \<le> 128" "unat n \<le> length input" "unat n \<le> length expected" "length buffer = 128"
    and out: "xor_octets (take (unat n) input) (map (stream_ks k (idx tc)) [0..<unat n]) = take (unat n) expected"
  shows "\<exists>c' buffer'. known_answer crypt dir tc input n expected n c buffer = Some (Passed, c', buffer') \<and>
    cipher_keyed c' k \<and> length buffer' = 128"
proof -
  let ?b = "write_at 0 (take (unat n) input) buffer"
  have b: "unat n \<le> length ?b" "length ?b = 128" "take (unat n) ?b = take (unat n) input" "length (take (unat n) input) = unat n"
    using n by (simp_all add: write_at_def)
  have "unat n \<le> 0xffff" using n(1) by simp
  with keyed_crypt [OF init(2) assms(4) b(1)] obtain c1 c' where
    "cipher_set_iv c0 (idx tc) = (err_status_ok, c1)"
    "crypt c1 ?b n = Some (err_status_ok, c', take (unat n) expected @ drop (unat n) ?b, n)" "cipher_keyed c' k"
    using assms(3) out b(3) by auto
  moreover have "\<not> ciphertext_length_octets tc > 128" using assms(5) by (simp add: not_less)
  ultimately show ?thesis using init(1) n b(2)
    by (simp add: known_answer_def copy_in_def compare_octets_def)
qed

lemma stream_invert:
  assumes init: "cipher_init c key direction_encrypt = Some (err_status_ok, c0)" "cipher_keyed c0 k"
    and again: "\<And>c. cipher_keyed c k \<Longrightarrow> \<exists>c'. cipher_init c key direction_decrypt = Some (err_status_ok, c') \<and> cipher_keyed c' k"
    and "block_index (idx tc) = 0" "length buffer = 128" "unat n < 64"
  shows "\<exists>c' buffer'. invert_test tc key c buffer n = Some (Passed, c', buffer') \<and> cipher_keyed c' k \<and> length buffer' = 128"
proof -
  let ?ks = "map (stream_ks k (idx tc)) [0..<unat n]"
  let ?out = "xor_octets (take (unat n) buffer) ?ks @ drop (unat n) buffer"
  have n: "unat n \<le> length buffer" "unat n \<le> 0xffff" "unat n \<le> length ?out" "length ?out = 128"
    using assms(5,6) by simp_all
  obtain c1 c2 where 1: "cipher_set_iv c0 (idx tc) = (err_status_ok, c1)"
      "cipher_encrypt c1 buffer n = Some (err_status_ok, c2, ?out, n)" "cipher_keyed c2 k"
    using keyed_crypt [OF init(2) assms(4) n(1,2)] by blast
  obtain c3 where 2: "cipher_init c2 key direction_decrypt = Some (err_status_ok, c3)" "cipher_keyed c3 k"
    using again [OF 1(3)] by blast
  have "xor_octets (take (unat n) ?out) ?ks @ drop (unat n) ?out = buffer"
    using assms(5,6) by (simp add: xor_octets_cancel)
  then obtain c4 c5 where 3: "cipher_set_iv c3 (idx tc) = (err_status_ok, c4)"
      "cipher_decrypt c4 ?out n = Some (err_status_ok, c5, buffer, n)" "cipher_keyed c5 k"
    using keyed_crypt [OF 2(2) assms(4) n(3,2)] by auto
  show ?thesis
    using init(1) 1 2 3 n assms(5) by (simp add: invert_test_def compare_octets_def Let_def)
qed

lemma keyed_types:
  "cipher_keyed c No_Key \<longleftrightarrow> ctx_type (cipher_state c) = null_cipher"
  "cipher_keyed c (Icm_Key k) \<Longrightarrow> ctx_type (cipher_state c) = aes_icm"
  by (auto simp: cipher_keyed_def split: cipher_ctx.splits)

lemma null_cipher_init_keyed:
  "ctx_type (cipher_state c) = null_cipher \<Longrightarrow> \<exists>c'. cipher_init c key dir = Some (err_status_ok, c') \<and> cipher_keyed c' No_Key"
  by (cases "cipher_state c") (auto simp: cipher_init_def null_cipher_init_def cipher_keyed_def)

lemma icm_init_keyed:
  assumes "ctx_type (cipher_state c) = aes_icm" "32 \<le> length key"
  shows "\<exists>c'. cipher_init c key dir = Some (err_status_ok, c') \<and> cipher_keyed c' (Icm_Key (icm_key key))"
proof -
  obtain s where s: "cipher_state c = Icm_Ctx s" using assms(1) by (cases "cipher_state c") auto
  with aes_icm_context_init_keyed [OF assms(2), of s] show ?thesis by (auto simp: cipher_init_def cipher_keyed_def)
qed

lemma block_index_zero [simp]: "block_index (V128 0 0 0 0) = 0"
proof -
  have "uint (block_index (V128 0 0 0 0)) = 0" by (simp add: uint_block_index v8_words)
  then show ?thesis by (simp only: uint_0_iff)
qed

interpretation null_cipher_test: tested_cipher null_cipher "\<lambda>_. null_cipher_test_0"
proof unfold_locales
  fix c :: cipher_t and buffer :: octets
  assume c: "ctx_type (cipher_state c) = null_cipher" "length buffer = 128"
  note [simp] = null_cipher_test_0_def xor_octets_def
  obtain c1 c2 where i: "cipher_init c [] direction_encrypt = Some (err_status_ok, c1)" "cipher_keyed c1 No_Key"
      "cipher_init c [] direction_decrypt = Some (err_status_ok, c2)" "cipher_keyed c2 No_Key"
    using null_cipher_init_keyed [OF c(1)] by meson
  show "\<exists>c' buffer'. test_encryption null_cipher_test_0 c buffer = Some (Passed, c', buffer') \<and>
      ctx_type (cipher_state c') = null_cipher \<and> length buffer' = 128"
    using stream_known_answer [of c null_cipher_test_0 direction_encrypt c1 No_Key cipher_encrypt 0 "[]" "[]" buffer] i c(2)
    by (auto simp: test_encryption_def keyed_types)
  show "\<exists>c' buffer'. test_decryption null_cipher_test_0 c buffer = Some (Passed, c', buffer') \<and>
      ctx_type (cipher_state c') = null_cipher \<and> length buffer' = 128"
    using stream_known_answer [of c null_cipher_test_0 direction_decrypt c2 No_Key cipher_decrypt 0 "[]" "[]" buffer] i c(2)
    by (auto simp: test_decryption_def keyed_types)
  fix key :: octets and len :: u32
  assume "unat len < 64"
  moreover obtain c0 where "cipher_init c key direction_encrypt = Some (err_status_ok, c0)" "cipher_keyed c0 No_Key"
    using null_cipher_init_keyed [OF c(1)] by meson
  ultimately show "\<exists>c' buffer'. invert_test null_cipher_test_0 key c buffer len = Some (Passed, c', buffer') \<and>
      ctx_type (cipher_state c') = null_cipher \<and> length buffer' = 128"
    using stream_invert [of c key c0 No_Key null_cipher_test_0 buffer len] null_cipher_init_keyed c(2)
    by (simp add: keyed_types)
qed (auto simp: null_cipher_alloc_def null_cipher_test_0_def)

interpretation aes_icm_test: tested_cipher aes_icm aes_icm_test_case_0
proof unfold_locales
  fix c :: cipher_t and buffer behind :: octets
  assume c: "ctx_type (cipher_state c) = aes_icm" "length buffer = 128"
  note [simp] = aes_icm_test_case_0_def
  let ?k = "Icm_Key (icm_key (aes_icm_test_case_0_key @ behind))" and ?ct = aes_icm_test_case_0_ciphertext
  have ct: "length ?ct = 32" by (simp add: aes_icm_test_case_0_ciphertext_def)
  { assume b: "2 \<le> length behind"
    have "stream_ks ?k iv = icm_ks (icm_key (aes_icm_test_case_0_key @ behind)) iv" for iv by (simp add: fun_eq_iff)
    then have ks: "map (stream_ks ?k (V128 0 0 0 0)) [0..<32] = ?ct" using icm_known_answer [OF b] by simp
    have l: "32 \<le> length (aes_icm_test_case_0_key @ behind)" using b by (simp add: aes_icm_test_case_0_key_def)
    obtain c1 c2 where i: "cipher_init c (aes_icm_test_case_0_key @ behind) direction_encrypt = Some (err_status_ok, c1)" "cipher_keyed c1 ?k"
        "cipher_init c (aes_icm_test_case_0_key @ behind) direction_decrypt = Some (err_status_ok, c2)" "cipher_keyed c2 ?k"
      using icm_init_keyed [OF c(1) l] by meson
    have x: "xor_octets (replicate 32 0) ?ct = ?ct" "xor_octets ?ct ?ct = replicate 32 0"
      using xor_octets_zero [of ?ct] xor_octets_cancel [of "replicate 32 0" ?ct] ct by simp_all
    show "\<exists>c' buffer'. test_encryption (aes_icm_test_case_0 behind) c buffer = Some (Passed, c', buffer') \<and>
        ctx_type (cipher_state c') = aes_icm \<and> length buffer' = 128"
      using stream_known_answer [of c "aes_icm_test_case_0 behind" direction_encrypt c1 ?k cipher_encrypt 32 "replicate 32 0" ?ct buffer]
        i c(2) ct ks x(1) by (auto simp: test_encryption_def intro: keyed_types(2))
    show "\<exists>c' buffer'. test_decryption (aes_icm_test_case_0 behind) c buffer = Some (Passed, c', buffer') \<and>
        ctx_type (cipher_state c') = aes_icm \<and> length buffer' = 128"
      using stream_known_answer [of c "aes_icm_test_case_0 behind" direction_decrypt c2 ?k cipher_decrypt 32 ?ct "replicate 32 0" buffer]
        i c(2) ct ks x(2) by (auto simp: test_decryption_def intro: keyed_types(2))
  }
  fix key :: octets and len :: u32
  assume key: "length key = 64" "unat len < 64"
  then have l: "32 \<le> length key" by simp
  obtain c0 where "cipher_init c key direction_encrypt = Some (err_status_ok, c0)" "cipher_keyed c0 (Icm_Key (icm_key key))"
    using icm_init_keyed [OF c(1) l] by meson
  then show "\<exists>c' buffer'. invert_test (aes_icm_test_case_0 behind) key c buffer len = Some (Passed, c', buffer') \<and>
      ctx_type (cipher_state c') = aes_icm \<and> length buffer' = 128"
    using stream_invert [of c key c0 "Icm_Key (icm_key key)" "aes_icm_test_case_0 behind" buffer len]
      icm_init_keyed [OF keyed_types(2) l] key(2) c(2) by (auto intro: keyed_types(2))
qed (auto simp: aes_icm_alloc_def aes_icm_alloc_ismacryp_def aes_icm_test_case_0_def)

text \<open>Block chaining: the padding takes one octet behind the second block.\<close>

lemma cbc_init_keyed:
  assumes "ctx_type (cipher_state c) = aes_cbc" "16 \<le> length key"
  shows "\<exists>s. cipher_state c = Cbc_Ctx s \<and>
    cipher_init c key direction_encrypt = Some (err_status_ok,
      c\<lparr>cipher_state := Cbc_Ctx (s\<lparr>cbc_expanded_key := aes_expand_encryption_key (v128_of_octets (take 16 key))\<rparr>)\<rparr>) \<and>
    cipher_init c key direction_decrypt = Some (err_status_ok,
      c\<lparr>cipher_state := Cbc_Ctx (s\<lparr>cbc_expanded_key := aes_expand_decryption_key (v128_of_octets (take 16 key))\<rparr>)\<rparr>)"
  using assms by (cases "cipher_state c") (auto simp: cipher_init_def aes_cbc_context_init_def v128_copy_octet_string_def)

lemma cbc_test_data:
  assumes "length buffer = 128"
  defines "p \<equiv> take 16 aes_cbc_test_case_0_plaintext @ 0xa0 # replicate 15 0"
  shows "length p = 32" "length (take 32 aes_cbc_test_case_0_ciphertext) = 32"
    and "write_at 16 (0xa0 # replicate 16 0) (write_at 0 (take 16 aes_cbc_test_case_0_plaintext) buffer) = p @ 0 # drop 33 buffer"
proof -
  have l: "length (take 16 aes_cbc_test_case_0_plaintext) = 16" by (simp add: aes_cbc_test_case_0_plaintext_def)
  then show "length p = 32" by (simp add: p_def)
  have r: "replicate 16 (0 :: u8) = replicate 15 0 @ [0]" using replicate_add [of 15 1 "0 :: u8"] by simp
  show "write_at 16 (0xa0 # replicate 16 0) (write_at 0 (take 16 aes_cbc_test_case_0_plaintext) buffer) = p @ 0 # drop 33 buffer"
    unfolding r p_def write_at_def using l assms(1) by simp
qed (simp add: aes_cbc_test_case_0_ciphertext_def)

lemma cbc_encryption_answer:
  assumes "ctx_type (cipher_state c) = aes_cbc" "length buffer = 128"
  shows "\<exists>c' buffer'. test_encryption aes_cbc_test_case_0 c buffer = Some (Passed, c', buffer') \<and>
    ctx_type (cipher_state c') = aes_cbc \<and> length buffer' = 128"
proof -
  let ?k = "aes_expand_encryption_key (v128_of_octets aes_cbc_test_case_0_key)"
  let ?b = "write_at 0 (take 16 aes_cbc_test_case_0_plaintext) buffer"
  let ?d = "(take 16 aes_cbc_test_case_0_plaintext @ 0xa0 # replicate 15 0) @ 0 # drop 33 buffer"
  note d = cbc_test_data [OF assms(2)]
  have key: "16 \<le> length aes_cbc_test_case_0_key" "take 16 aes_cbc_test_case_0_key = aes_cbc_test_case_0_key"
    by (simp_all add: aes_cbc_test_case_0_key_def)
  obtain s where s: "cipher_state c = Cbc_Ctx s"
      "cipher_init c aes_cbc_test_case_0_key direction_encrypt = Some (err_status_ok, c\<lparr>cipher_state := Cbc_Ctx (s\<lparr>cbc_expanded_key := ?k\<rparr>)\<rparr>)"
    using cbc_init_keyed [OF assms(1) key(1)] unfolding key(2) by auto
  let ?s = "s\<lparr>cbc_expanded_key := ?k, cbc_previous := V128 0 0 0 0, cbc_state := V128 0 0 0 0\<rparr>"
  have len: "length ?b = 128" "16 \<le> length aes_cbc_test_case_0_plaintext" "length ?d = 128"
    using assms(2) d(1) by (simp_all add: write_at_def aes_cbc_test_case_0_plaintext_def)
  have u: "unat (32 :: u32) = 32" "16 - unat (16 AND 0xf :: u32) = 16" by simp_all
  have "snd (cbc_encrypt_loop (unat (32 :: u32) div 16) (cbc_state ?s) (cbc_expanded_key ?s) ?d) =
      take 32 aes_cbc_test_case_0_ciphertext @ 0 # drop 33 buffer"
    using cbc_known_answer by simp
  with aes_cbc_encrypt_ok [of 32 ?d ?s] len(3) obtain s' where
    "aes_cbc_encrypt ?s ?d 32 = Some (err_status_ok, s', take 32 aes_cbc_test_case_0_ciphertext @ 0 # drop 33 buffer)"
    by (auto simp: u)
  then have "aes_cbc_nist_encrypt ?s ?b 16 = Some (err_status_ok, s', take 32 aes_cbc_test_case_0_ciphertext @ 0 # drop 33 buffer, 32)"
    using len d(3) by (simp add: aes_cbc_nist_encrypt_def u)
  moreover have "32 \<le> length aes_cbc_test_case_0_ciphertext" by (simp add: aes_cbc_test_case_0_ciphertext_def)
  ultimately show ?thesis using s len d(2) assms(2)
    by (simp add: test_encryption_def known_answer_def aes_cbc_test_case_0_def copy_in_def compare_octets_def cipher_set_iv_def
        aes_cbc_set_iv_def cipher_encrypt_def)
qed

lemma cbc_decryption_answer:
  assumes "ctx_type (cipher_state c) = aes_cbc" "length buffer = 128"
  shows "\<exists>c' buffer'. test_decryption aes_cbc_test_case_0 c buffer = Some (Passed, c', buffer') \<and>
    ctx_type (cipher_state c') = aes_cbc \<and> length buffer' = 128"
proof -
  let ?k = "v128_of_octets aes_cbc_test_case_0_key"
  let ?b = "take 32 aes_cbc_test_case_0_ciphertext @ drop 32 buffer"
  let ?p = "take 16 aes_cbc_test_case_0_plaintext @ 0xa0 # replicate 15 0"
  note d = cbc_test_data [OF assms(2)]
  have key: "16 \<le> length aes_cbc_test_case_0_key" "take 16 aes_cbc_test_case_0_key = aes_cbc_test_case_0_key"
    by (simp_all add: aes_cbc_test_case_0_key_def)
  obtain s where s: "cipher_state c = Cbc_Ctx s"
      "cipher_init c aes_cbc_test_case_0_key direction_decrypt =
        Some (err_status_ok, c\<lparr>cipher_state := Cbc_Ctx (s\<lparr>cbc_expanded_key := aes_expand_decryption_key ?k\<rparr>)\<rparr>)"
    using cbc_init_keyed [OF assms(1) key(1)] unfolding key(2) by auto
  let ?s = "s\<lparr>cbc_expanded_key := aes_expand_decryption_key ?k, cbc_previous := V128 0 0 0 0, cbc_state := V128 0 0 0 0\<rparr>"
  have p: "length (take 16 aes_cbc_test_case_0_plaintext) = 16" "16 \<le> length aes_cbc_test_case_0_plaintext"
    by (simp_all add: aes_cbc_test_case_0_plaintext_def)
  have len: "length ?b = 128" using assms(2) d(2) by simp
  have loop: "cbc_decrypt_loop 2 (V128 0 0 0 0) (aes_expand_decryption_key ?k) ?b = ?p @ drop 32 buffer"
    using cbc_decrypt_encrypt_loop [of 2 "?p @ drop 32 buffer" "V128 0 0 0 0" ?k] cbc_known_answer [of "drop 32 buffer"] d(1) by simp
  have u: "unat (32 :: u32) = 32" by simp
  have "find_pad (?p @ drop 32 buffer) (Suc 31) 1 = Some (1 + (31 - 16))"
    using p d(1) assms(2) by (intro find_pad_zeros) (auto simp: nth_append nth_Cons')
  then have "find_pad (?p @ drop 32 buffer) 32 1 = Some 16" by simp
  then have "aes_cbc_nist_decrypt ?s ?b 32 = Some (err_status_ok, ?s, ?p @ drop 32 buffer, 16)"
    using aes_cbc_decrypt_ok [of 32 ?b ?s] loop len by (simp add: aes_cbc_nist_decrypt_def u)
  moreover have "32 \<le> length aes_cbc_test_case_0_ciphertext" by (simp add: aes_cbc_test_case_0_ciphertext_def)
  moreover from this have "write_at 0 (take 32 aes_cbc_test_case_0_ciphertext) buffer = ?b" by (simp add: write_at_def min_def)
  ultimately show ?thesis using s p d(1) assms(2)
    by (simp add: test_decryption_def known_answer_def aes_cbc_test_case_0_def copy_in_def compare_octets_def cipher_set_iv_def
        aes_cbc_set_iv_def cipher_decrypt_def)
qed

lemma cbc_inverts:
  assumes "ctx_type (cipher_state c) = aes_cbc" "length buffer = 128" "length key = 64" "unat n < 64"
  shows "\<exists>c' buffer'. invert_test aes_cbc_test_case_0 key c buffer n = Some (Passed, c', buffer') \<and>
    ctx_type (cipher_state c') = aes_cbc \<and> length buffer' = 128"
proof -
  let ?iv = "V128 0 0 0 0"
  have key: "16 \<le> length key" "unat n < 2 ^ 30" "unat n + 17 \<le> length buffer" using assms by simp_all
  obtain s where s: "cipher_state c = Cbc_Ctx s" using assms(1) by (cases "cipher_state c") auto
  obtain e e' out len where r: "aes_cbc_context_init s key direction_encrypt = Some (err_status_ok, e)"
      "aes_cbc_nist_encrypt (snd (aes_cbc_set_iv e ?iv)) buffer n = Some (err_status_ok, e', out, len)"
    using aes_cbc_nist_inverse [OF key, of s _ ?iv] by blast
  from aes_cbc_nist_inverse [OF key, of s e' ?iv] r obtain d data where
    d: "aes_cbc_context_init e' key direction_decrypt = Some (err_status_ok, d)"
      "aes_cbc_nist_decrypt (snd (aes_cbc_set_iv d ?iv)) out len = Some (err_status_ok, snd (aes_cbc_set_iv d ?iv), data, n)"
      "take (unat n) data = take (unat n) buffer" "length data = 128" using assms(2) by auto
  then show ?thesis using s r d assms(2,4)
    by (simp add: invert_test_def aes_cbc_test_case_0_def cipher_init_def cipher_set_iv_def aes_cbc_set_iv_def
        cipher_encrypt_def cipher_decrypt_def compare_octets_def)
qed

interpretation aes_cbc_test: tested_cipher aes_cbc "\<lambda>_. aes_cbc_test_case_0"
proof unfold_locales
  show "0 \<le> key_length_octets aes_cbc_test_case_0" "key_length_octets aes_cbc_test_case_0 \<le> 64"
    "cipher_type_alloc aes_cbc h (key_length_octets aes_cbc_test_case_0) = put_cipher h aes_cbc (key_length_octets aes_cbc_test_case_0)" for h
    by (simp_all add: aes_cbc_test_case_0_def aes_cbc_alloc_def)
qed (auto intro: cbc_encryption_answer cbc_decryption_answer cbc_inverts)

subsection \<open>Authentication types\<close>

text \<open>An initialised HMAC object is already started.\<close>

lemma hmac_object_ready:
  assumes "auth_state a = Hmac_Ctx s" "length (sha1_M (init_ctx s)) = 64" "auth_key_len a = int (length key)" "length key \<le> 20"
  shows "\<exists>a1. auth_init a key = Some (err_status_ok, a1) \<and> auth_keyed a1 (Some key) \<and> snd (auth_start a1) = a1 \<and>
    out_len a1 = out_len a"
proof -
  obtain s' where s': "hmac_init s key (int (length key)) = Some (err_status_ok, s')" "hmac_keyed s' key"
    using hmac_init_ok [OF assms(2), of "int (length key)" key] assms(4) by auto
  have "hmac_ctx s' = init_ctx s'" using s'(1) by (auto simp: hmac_init_def Let_def split: if_splits)
  with s' assms(1,3) show ?thesis by (simp add: auth_init_def auth_keyed_def auth_start_def hmac_start_def)
qed

lemma auth_answers:
  assumes "auth_state a = fresh_auth_ctx ty" "test_case \<in> set (auth_test_data ty)" "length tag = 32"
    and "auth_key_len a = auth_key_length_octets test_case" "out_len a = tag_length_octets test_case"
  shows "\<exists>a' tag'. auth_answer test_case a tag = Some (err_status_ok, a', tag') \<and>
    (auth_ctx_type (auth_state a') = ty) \<and> length tag' = 32"
proof (cases ty)
  case null_auth
  obtain b bs where "tag = b # bs" using assms(3) by (cases tag) auto
  with null_auth assms show ?thesis
    by (auto simp: auth_answer_def auth_init_def auth_compute_def null_auth_init_def null_auth_compute_def null_auth_test_case_0_def write_at_def)
next
  case hmac
  let ?d = "[0x48, 0x69, 0x20, 0x54, 0x68, 0x65, 0x72, 0x65] :: octets"
  have t: "test_case = hmac_test_case_0" using assms(2) hmac by simp
  obtain s where s: "auth_state a = Hmac_Ctx s" "length (sha1_M (init_ctx s)) = 64"
    using assms(1) hmac by (simp add: fresh_sha1_ctx_def)
  have key: "auth_key_len a = int (length (replicate 20 0x0b :: octets))" "out_len a = 20"
    using assms(4,5) t by (simp_all add: hmac_test_case_0_def)
  obtain a1 where a1: "auth_init a (replicate 20 0x0b) = Some (err_status_ok, a1)" "auth_keyed a1 (Some (replicate 20 0x0b))"
      "snd (auth_start a1) = a1" "out_len a1 = 20"
    using hmac_object_ready [OF s key(1)] key(2) by auto
  obtain a2 where a2: "auth_compute a1 ?d = (err_status_ok, a2, take 20 (hmac_sha1 (replicate 20 0x0b) ?d))" "auth_keyed a2 (Some (replicate 20 0x0b))"
    using auth_one_piece [OF a1(2), of ?d] a1(3,4) by auto
  have "octet_string_set_to_zero tag 20 = Some (replicate 20 0 @ drop 20 tag)"
    using assms(3) by (simp add: octet_string_set_to_zero_eq)
  moreover have "auth_ctx_type (auth_state a2) = hmac"
    using a2(2) by (auto simp: auth_keyed_def split: auth_ctx.splits)
  ultimately show ?thesis
    using a1(1) a2(1) hmac assms(3) unfolding t hmac_known_answer
    by (simp add: auth_answer_def hmac_test_case_0_def write_at_def)
qed

lemma auth_self_test_passes:
  assumes "stack_ok m" "malloc_ok h (mallocs h)" "auths h (mallocs h) = None"
  shows "auth_type_self_test m ty h = Some (err_status_ok, h\<lparr>mallocs := mallocs h + 1\<rparr>)"
proof -
  obtain test_case where t: "auth_test_data ty = [test_case]" by (cases ty) simp_all
  let ?k = "auth_key_length_octets test_case" and ?n = "tag_length_octets test_case"
  obtain prefix where alloc: "auth_type_alloc ty h ?k ?n = put_auth h ty ?k ?n prefix" and n: "\<not> ?n > 32"
    using t by (cases ty) (auto simp: null_auth_test_case_0_def hmac_test_case_0_def null_auth_alloc_def hmac_alloc_def)
  let ?a = "\<lparr>auth_state = fresh_auth_ctx ty, out_len = ?n, auth_key_len = ?k, prefix_len = prefix\<rparr>"
  obtain a' tag' where "auth_answer test_case ?a (tag_mem m) = Some (err_status_ok, a', tag')" "auth_ctx_type (auth_state a') = ty"
    using auth_answers [of ?a ty test_case "tag_mem m"] t assms(1) by (auto simp: stack_ok_def)
  then show ?thesis
    using t alloc n assms(2,3) fun_upd_idem [of "auths h" "mallocs h" None]
    by (cases ty) (simp_all add: auth_type_self_test_def put_auth_def crypto_alloc_def auth_dealloc_def null_auth_dealloc_def
        hmac_dealloc_def drop_auth_def)
qed

lemma cipher_self_test_passes:
  assumes "stack_ok m" "malloc_ok h (mallocs h)" "malloc_ok h (mallocs h + 1)"
    and "ciphers h (mallocs h) = None" "ciphers h (mallocs h + 1) = None"
  shows "\<exists>g'. cipher_type_self_test m ct h g = Some (err_status_ok, h\<lparr>mallocs := mallocs h + 2\<rparr>, g')"
  using null_cipher_test.self_test_passes [OF assms] aes_icm_test.self_test_passes [OF assms] aes_cbc_test.self_test_passes [OF assms]
  by (cases ct) simp_all

subsection \<open>Properties\<close>

text \<open>
  C40: the self-tests pass. When memory can be allocated, the self-test of every cipher type and of
  every authentication type succeeds, whatever \<^verbatim>\<open>rand()\<close> returns and whatever the uninitialised memory
  holds: the known answers are those the algorithms compute, every random message is restored, and
  the heap is left as it was, with two and one more allocations made.
\<close>

theorem self_tests_pass:
  assumes "stack_ok m" and "\<forall>n. malloc_ok h n" and "\<forall>q \<ge> mallocs h. ciphers h q = None \<and> auths h q = None"
  shows "(\<exists>g'. cipher_type_self_test m ct h g = Some (err_status_ok, h\<lparr>mallocs := mallocs h + 2\<rparr>, g')) \<and>
    auth_type_self_test m ty h = Some (err_status_ok, h\<lparr>mallocs := mallocs h + 1\<rparr>)"
  using assms cipher_self_test_passes [of m h ct g] auth_self_test_passes [of m h ty] by simp

theorem self_tests_pass_witness:
  "(\<exists>g'. cipher_type_self_test \<lparr>buffer_mem = replicate 128 7, stack_key = replicate 64 9, behind_mem = [1, 2], tag_mem = replicate 32 0\<rparr> aes_icm
      \<lparr>ciphers = (\<lambda>_. None), auths = (\<lambda>_. None), limits = (\<lambda>_. None), mallocs = 10, malloc_ok = (\<lambda>_. True),
        cipher_refs = (\<lambda>_. 0), auth_refs = (\<lambda>_. 0)\<rparr> \<lparr>dev_random_fdes = -1, c_rand = (\<lambda>n. n), rand_calls = 0\<rparr> =
    Some (err_status_ok, \<lparr>ciphers = (\<lambda>_. None), auths = (\<lambda>_. None), limits = (\<lambda>_. None), mallocs = 12, malloc_ok = (\<lambda>_. True),
        cipher_refs = (\<lambda>_. 0), auth_refs = (\<lambda>_. 0)\<rparr>, g'))"
  using self_tests_pass [of "\<lparr>buffer_mem = replicate 128 7, stack_key = replicate 64 9, behind_mem = [1, 2], tag_mem = replicate 32 0\<rparr>"
      "\<lparr>ciphers = (\<lambda>_. None), auths = (\<lambda>_. None), limits = (\<lambda>_. None), mallocs = 10, malloc_ok = (\<lambda>_. True),
        cipher_refs = (\<lambda>_. 0), auth_refs = (\<lambda>_. 0)\<rparr>" aes_icm "\<lparr>dev_random_fdes = -1, c_rand = (\<lambda>n. n), rand_calls = 0\<rparr>" hmac]
  by (simp add: stack_ok_def)

end
