(* ===== verification/Kernel_Life.thy ===== *)
theory Kernel_Life
  imports Self_Test Crypto_Kernel
begin

text \<open>
  The life of the crypto kernel, \<^verbatim>\<open>crypto/kernel/crypto_kernel.c\<close>, with \<^verbatim>\<open>srtp_init\<close> and \<^verbatim>\<open>srtp_deinit\<close>
  of \<^verbatim>\<open>srtp/srtp.c\<close>: initialisation with the statistical tests and the self-tests of all types,
  registration of types and debug modules, re-testing, random octets and shutdown. The operations
  are the steps of a state machine; its invariant holds in every state that they can reach.
\<close>

subsection \<open>State and debug modules\<close>

record kernel_env =
  kern :: crypto_kernel_t
  kheap :: heap
  krng :: rng
  kprng :: "rng ctr_prng_t"

text \<open>A call returns a status and a state, or it ends the process with \<^verbatim>\<open>exit\<close>; \<open>None\<close> is a fault.\<close>

datatype outcome = Exit err_status_t | Return err_status_t kernel_env

text \<open>\<^verbatim>\<open>status = f(); if (status) return status;\<close> and the rest of the function.\<close>

fun and_then :: "outcome option \<Rightarrow> (kernel_env \<Rightarrow> outcome option) \<Rightarrow> outcome option" where
  "and_then None f = None"
| "and_then (Some (Exit s)) f = Some (Exit s)"
| "and_then (Some (Return status w)) f = (if status \<noteq> err_status_ok then Some (Return status w) else f w)"

definition mod_crypto_kernel :: debug_module_t where "mod_crypto_kernel = \<lparr>debug_on = 0, debug_name = ''crypto kernel''\<rparr>"
definition mod_auth :: debug_module_t where "mod_auth = \<lparr>debug_on = 0, debug_name = ''auth func''\<rparr>"
definition mod_cipher :: debug_module_t where "mod_cipher = \<lparr>debug_on = 0, debug_name = ''cipher''\<rparr>"
definition mod_stat :: debug_module_t where "mod_stat = \<lparr>debug_on = 0, debug_name = ''stat test''\<rparr>"
definition mod_alloc :: debug_module_t where "mod_alloc = \<lparr>debug_on = 0, debug_name = ''alloc''\<rparr>"
definition mod_aes_icm :: debug_module_t where "mod_aes_icm = \<lparr>debug_on = 0, debug_name = ''aes icm''\<rparr>"
definition mod_aes_cbc :: debug_module_t where "mod_aes_cbc = \<lparr>debug_on = 0, debug_name = ''aes cbc''\<rparr>"
definition mod_hmac :: debug_module_t where "mod_hmac = \<lparr>debug_on = 0, debug_name = ''hmac sha-1''\<rparr>"
definition mod_srtp :: debug_module_t where "mod_srtp = \<lparr>debug_on = 0, debug_name = ''srtp''\<rparr>"

lemmas debug_modules = mod_crypto_kernel_def mod_auth_def mod_cipher_def mod_stat_def mod_alloc_def mod_aes_icm_def
  mod_aes_cbc_def mod_hmac_def mod_srtp_def

text \<open>The \<^verbatim>\<open>debug\<close> members of the metaobjects.\<close>

fun cipher_debug :: "cipher_type_t \<Rightarrow> debug_module_t option" where
  "cipher_debug null_cipher = None"
| "cipher_debug aes_icm = Some mod_aes_icm"
| "cipher_debug aes_cbc = Some mod_aes_cbc"

fun auth_debug :: "auth_type_t \<Rightarrow> debug_module_t option" where
  "auth_debug null_auth = None"
| "auth_debug hmac = Some mod_hmac"

subsection \<open>Operations\<close>

definition err_reporting_init :: "string \<Rightarrow> kernel_env \<Rightarrow> outcome option" where
  "err_reporting_init ident w = Some (Return err_status_ok w)"

definition load_debug :: "debug_module_t \<Rightarrow> kernel_env \<Rightarrow> outcome option" where
  "load_debug dm w =
     (case crypto_kernel_load_debug_module (kern w) (kheap w) (Some dm) of
        (status, k, h) \<Rightarrow> Some (Return status (w\<lparr>kern := k, kheap := h\<rparr>)))"

text \<open>The result of loading the debug module of a type is ignored.\<close>

definition load_type_debug :: "debug_module_t option \<Rightarrow> kernel_env \<Rightarrow> kernel_env" where
  "load_type_debug d w =
     (case d of
        None \<Rightarrow> w
      | Some dm \<Rightarrow> (case crypto_kernel_load_debug_module (kern w) (kheap w) (Some dm) of (_, k, h) \<Rightarrow> w\<lparr>kern := k, kheap := h\<rparr>))"

definition crypto_kernel_load_cipher_type ::
  "stack \<Rightarrow> cipher_type_t option \<Rightarrow> cipher_type_id_t \<Rightarrow> kernel_env \<Rightarrow> outcome option" where
  "crypto_kernel_load_cipher_type m new_ct tid w =
     (case new_ct of
        None \<Rightarrow> Some (Return err_status_bad_param w)
      | Some ct \<Rightarrow>
          (case cipher_type_self_test m ct (kheap w) (krng w) of
             None \<Rightarrow> None
           | Some (status, h, g) \<Rightarrow>
               let w = w\<lparr>kheap := h, krng := g\<rparr> in
               if status \<noteq> err_status_ok then Some (Return status w)
               else if \<exists>e \<in> set (cipher_type_list (kern w)). ct = snd e \<or> tid = fst e then Some (Return err_status_bad_param w)
               else
                 (case crypto_alloc (kheap w) of
                    (None, h) \<Rightarrow> Some (Return err_status_alloc_fail (w\<lparr>kheap := h\<rparr>))
                  | (Some p, h) \<Rightarrow>
                      let w = w\<lparr>kheap := h, kern := (kern w)\<lparr>cipher_type_list := (tid, ct) # cipher_type_list (kern w)\<rparr>\<rparr>
                      in Some (Return err_status_ok (load_type_debug (cipher_debug ct) w)))))"

definition crypto_kernel_load_auth_type ::
  "stack \<Rightarrow> auth_type_t option \<Rightarrow> auth_type_id_t \<Rightarrow> kernel_env \<Rightarrow> outcome option" where
  "crypto_kernel_load_auth_type m new_at tid w =
     (case new_at of
        None \<Rightarrow> Some (Return err_status_bad_param w)
      | Some at \<Rightarrow>
          (case auth_type_self_test m at (kheap w) of
             None \<Rightarrow> None
           | Some (status, h) \<Rightarrow>
               let w = w\<lparr>kheap := h\<rparr> in
               if status \<noteq> err_status_ok then Some (Return status w)
               else if \<exists>e \<in> set (auth_type_list (kern w)). at = snd e \<or> tid = fst e then Some (Return err_status_bad_param w)
               else
                 (case crypto_alloc (kheap w) of
                    (None, h) \<Rightarrow> Some (Return err_status_alloc_fail (w\<lparr>kheap := h\<rparr>))
                  | (Some p, h) \<Rightarrow>
                      let w = w\<lparr>kheap := h, kern := (kern w)\<lparr>auth_type_list := (tid, at) # auth_type_list (kern w)\<rparr>\<rparr>
                      in Some (Return err_status_ok (load_type_debug (auth_debug at) w)))))"

abbreviation (input) MAX_RNG_TRIALS :: nat where "MAX_RNG_TRIALS \<equiv> 25"

definition test_rand_source :: "kernel_env \<Rightarrow> outcome option" where
  "test_rand_source w =
     map_option (\<lambda>(status, g). Return status (w\<lparr>krng := g\<rparr>))
       (stat_test_rand_source_with_repetition rand_source_get_octet_string MAX_RNG_TRIALS (krng w))"

definition start_prng :: "kernel_env \<Rightarrow> outcome option" where
  "start_prng w =
     map_option (\<lambda>(status, p, g). Return status (w\<lparr>kprng := p, krng := g\<rparr>))
       (ctr_prng_init rand_source_get_octet_string (kprng w, krng w))"

definition test_prng :: "kernel_env \<Rightarrow> outcome option" where
  "test_prng w =
     map_option (\<lambda>(status, p, g). Return status (w\<lparr>kprng := p, krng := g\<rparr>))
       (stat_test_rand_source_with_repetition ctr_prng_get_octet_string MAX_RNG_TRIALS (kprng w, krng w))"

definition start_rand_source :: "kernel_env \<Rightarrow> outcome option" where
  "start_rand_source w = (case rand_source_init (krng w) of (status, g) \<Rightarrow> Some (Return status (w\<lparr>krng := g\<rparr>)))"

text \<open>The loops of \<^verbatim>\<open>crypto_kernel_status\<close>: a self-test that fails ends the process.\<close>

fun retest_ciphers :: "stack \<Rightarrow> cipher_type_t list \<Rightarrow> kernel_env \<Rightarrow> outcome option" where
  "retest_ciphers m [] w = Some (Return err_status_ok w)"
| "retest_ciphers m (ct # cts) w =
     (case cipher_type_self_test m ct (kheap w) (krng w) of
        None \<Rightarrow> None
      | Some (status, h, g) \<Rightarrow>
          if status \<noteq> err_status_ok then Some (Exit status) else retest_ciphers m cts (w\<lparr>kheap := h, krng := g\<rparr>))"

fun retest_auths :: "stack \<Rightarrow> auth_type_t list \<Rightarrow> kernel_env \<Rightarrow> outcome option" where
  "retest_auths m [] w = Some (Return err_status_ok w)"
| "retest_auths m (at # ats) w =
     (case auth_type_self_test m at (kheap w) of
        None \<Rightarrow> None
      | Some (status, h) \<Rightarrow> if status \<noteq> err_status_ok then Some (Exit status) else retest_auths m ats (w\<lparr>kheap := h\<rparr>))"

definition crypto_kernel_status :: "stack \<Rightarrow> kernel_env \<Rightarrow> outcome option" where
  "crypto_kernel_status m w =
     (let ctypes = map snd (cipher_type_list (kern w)); atypes = map snd (auth_type_list (kern w)) in
      case test_rand_source w of
        Some (Return status w) \<Rightarrow>
          if status \<noteq> err_status_ok then Some (Return status (w\<lparr>kern := (kern w)\<lparr>kernel_state := crypto_kernel_state_insecure\<rparr>\<rparr>))
          else and_then (retest_ciphers m ctypes w) (retest_auths m atypes)
      | r \<Rightarrow> r)"

definition crypto_kernel_list_debug_modules :: "kernel_env \<Rightarrow> outcome option" where
  "crypto_kernel_list_debug_modules w = Some (Return err_status_ok w)"

definition set_secure :: "kernel_env \<Rightarrow> outcome option" where
  "set_secure w = Some (Return err_status_ok (w\<lparr>kern := (kern w)\<lparr>kernel_state := crypto_kernel_state_secure\<rparr>\<rparr>))"

definition crypto_kernel_init :: "stack \<Rightarrow> kernel_env \<Rightarrow> outcome option" where
  "crypto_kernel_init m w =
     (if kernel_state (kern w) = crypto_kernel_state_secure then crypto_kernel_status m w
      else
        and_then (err_reporting_init ''crypto'' w) (\<lambda>w.
        and_then (load_debug mod_crypto_kernel w) (\<lambda>w.
        and_then (load_debug mod_auth w) (\<lambda>w.
        and_then (load_debug mod_cipher w) (\<lambda>w.
        and_then (load_debug mod_stat w) (\<lambda>w.
        and_then (load_debug mod_alloc w) (\<lambda>w.
        and_then (start_rand_source w) (\<lambda>w.
        and_then (test_rand_source w) (\<lambda>w.
        and_then (start_prng w) (\<lambda>w.
        and_then (test_prng w) (\<lambda>w.
        and_then (crypto_kernel_load_cipher_type m (Some null_cipher) NULL_CIPHER w) (\<lambda>w.
        and_then (crypto_kernel_load_cipher_type m (Some aes_icm) AES_128_ICM w) (\<lambda>w.
        and_then (crypto_kernel_load_cipher_type m (Some aes_cbc) AES_128_CBC w) (\<lambda>w.
        and_then (crypto_kernel_load_auth_type m (Some null_auth) NULL_AUTH w) (\<lambda>w.
        and_then (crypto_kernel_load_auth_type m (Some hmac) HMAC_SHA1 w) set_secure)))))))))))))))"

text \<open>The loops that free the three lists, one node after the other.\<close>

function free_cipher_types :: "crypto_kernel_t \<Rightarrow> crypto_kernel_t" where
  "free_cipher_types k =
     (case cipher_type_list k of [] \<Rightarrow> k | ctype # rest \<Rightarrow> free_cipher_types (k\<lparr>cipher_type_list := rest\<rparr>))"
  by auto
termination by (relation "measure (\<lambda>k. length (cipher_type_list k))") auto

function free_auth_types :: "crypto_kernel_t \<Rightarrow> crypto_kernel_t" where
  "free_auth_types k =
     (case auth_type_list k of [] \<Rightarrow> k | atype # rest \<Rightarrow> free_auth_types (k\<lparr>auth_type_list := rest\<rparr>))"
  by auto
termination by (relation "measure (\<lambda>k. length (auth_type_list k))") auto

function free_debug_modules :: "crypto_kernel_t \<Rightarrow> crypto_kernel_t" where
  "free_debug_modules k =
     (case debug_module_list k of [] \<Rightarrow> k | kdm # rest \<Rightarrow> free_debug_modules (k\<lparr>debug_module_list := rest\<rparr>))"
  by auto
termination by (relation "measure (\<lambda>k. length (debug_module_list k))") auto

declare free_cipher_types.simps [simp del] free_auth_types.simps [simp del] free_debug_modules.simps [simp del]

definition crypto_kernel_shutdown :: "kernel_env \<Rightarrow> outcome option" where
  "crypto_kernel_shutdown w =
     (let k = free_debug_modules (free_auth_types (free_cipher_types (kern w)));
          (status, g) = rand_source_deinit (krng w);
          w = w\<lparr>kern := k, krng := g\<rparr>
      in if status \<noteq> err_status_ok then Some (Return status w)
         else Some (Return err_status_ok (w\<lparr>kern := k\<lparr>kernel_state := crypto_kernel_state_insecure\<rparr>\<rparr>)))"

definition crypto_get_random :: "kernel_env \<Rightarrow> u32 \<Rightarrow> (err_status_t \<times> octets \<times> kernel_env) option" where
  "crypto_get_random w len =
     (if kernel_state (kern w) = crypto_kernel_state_secure then
        map_option (\<lambda>(status, buffer, p, g). (status, buffer, w\<lparr>kprng := p, krng := g\<rparr>))
          (ctr_prng_get_octet_string (kprng w, krng w) len)
      else Some (err_status_fail, [], w))"

definition srtp_init :: "stack \<Rightarrow> kernel_env \<Rightarrow> outcome option" where
  "srtp_init m w = and_then (crypto_kernel_init m w) (load_debug mod_srtp)"

definition srtp_deinit :: "kernel_env \<Rightarrow> outcome option" where
  "srtp_deinit w = crypto_kernel_shutdown w"

subsection \<open>Reasoning about sequences of calls\<close>

text \<open>\<open>keeps P r\<close>: if the call returns, its status and state satisfy \<open>P\<close>. \<open>returns P r\<close>: it returns so.\<close>

definition keeps :: "(err_status_t \<Rightarrow> kernel_env \<Rightarrow> bool) \<Rightarrow> outcome option \<Rightarrow> bool" where
  "keeps P r \<longleftrightarrow> (\<forall>status w. r = Some (Return status w) \<longrightarrow> P status w)"

definition returns :: "(err_status_t \<Rightarrow> kernel_env \<Rightarrow> bool) \<Rightarrow> outcome option \<Rightarrow> bool" where
  "returns P r \<longleftrightarrow> (\<exists>status w. r = Some (Return status w) \<and> P status w)"

lemma keeps_and_then:
  assumes "keeps P r" "\<And>w. P err_status_ok w \<Longrightarrow> keeps Q (f w)" "\<And>status w. status \<noteq> err_status_ok \<Longrightarrow> P status w \<Longrightarrow> Q status w"
  shows "keeps Q (and_then r f)"
  using assms by (cases "(r, f)" rule: and_then.cases) (auto simp: keeps_def)

lemma returns_and_then:
  assumes "returns P r" "\<And>w. P err_status_ok w \<Longrightarrow> returns Q (f w)" "\<And>status w. status \<noteq> err_status_ok \<Longrightarrow> P status w \<Longrightarrow> Q status w"
  shows "returns Q (and_then r f)"
  using assms by (auto simp: returns_def)

lemma returns_ok_then:
  "returns (\<lambda>status w. status = err_status_ok \<and> P w) r \<Longrightarrow> (\<And>w. P w \<Longrightarrow> returns Q (f w)) \<Longrightarrow> returns Q (and_then r f)"
  by (erule returns_and_then) auto

lemma returns_test_then:
  "returns (\<lambda>status w. status \<in> {err_status_ok, err_status_algo_fail} \<and> P w) r \<Longrightarrow> (\<And>w. P w \<Longrightarrow> returns Q (f w)) \<Longrightarrow>
     (\<And>w. P w \<Longrightarrow> Q err_status_algo_fail w) \<Longrightarrow> returns Q (and_then r f)"
  by (erule returns_and_then) auto

lemma keeps_weaken: "keeps P r \<Longrightarrow> (\<And>status w. P status w \<Longrightarrow> Q status w) \<Longrightarrow> keeps Q r"
  by (simp add: keeps_def)

lemma returns_weaken: "returns P r \<Longrightarrow> (\<And>status w. P status w \<Longrightarrow> Q status w) \<Longrightarrow> returns Q r"
  by (auto simp: returns_def)

lemma keepsD: "keeps P r \<Longrightarrow> r = Some (Return status w) \<Longrightarrow> P status w"
  by (simp add: keeps_def)

subsection \<open>Shutdown empties the kernel\<close>

lemma free_cipher_types_eq: "free_cipher_types k = k\<lparr>cipher_type_list := []\<rparr>"
  by (induction k rule: free_cipher_types.induct) (subst free_cipher_types.simps, simp split: list.split)

lemma free_auth_types_eq: "free_auth_types k = k\<lparr>auth_type_list := []\<rparr>"
  by (induction k rule: free_auth_types.induct) (subst free_auth_types.simps, simp split: list.split)

lemma free_debug_modules_eq: "free_debug_modules k = k\<lparr>debug_module_list := []\<rparr>"
  by (induction k rule: free_debug_modules.induct) (subst free_debug_modules.simps, simp split: list.split)

lemmas shutdown_simps = crypto_kernel_shutdown_def free_cipher_types_eq free_auth_types_eq free_debug_modules_eq rand_source_deinit_def

subsection \<open>The random source stays ready\<close>

abbreviation source_ready :: "rng \<Rightarrow> bool" where
  "source_ready g \<equiv> 0 \<le> dev_random_fdes g"

text \<open>Level 1: the source is ready. Level 2: the generator also takes its keys from the source.\<close>

definition level :: "nat \<Rightarrow> kernel_env \<Rightarrow> bool" where
  "level n w \<longleftrightarrow> (1 \<le> n \<longrightarrow> source_ready (krng w)) \<and> (2 \<le> n \<longrightarrow> prng_rand (kprng w) = rand_source_get_octet_string)"

lemma rand_source_get_fdes: "rand_source_get_octet_string g n = Some (status, dst, g') \<Longrightarrow> dev_random_fdes g' = dev_random_fdes g"
  by (auto simp: rand_source_get_octet_string_def rand_octets_eq)

lemma random_test_fdes: "random_test k t c b g = Some (v, c', b', g') \<Longrightarrow> dev_random_fdes g' = dev_random_fdes g"
  by (auto simp: random_test_def rand_def Let_def rand_source_get_octet_string_def rand_octets_eq split: if_splits Option.bind_splits)

lemma random_tests_fdes: "random_tests n k t c b g = Some (v, c', b', g') \<Longrightarrow> dev_random_fdes g' = dev_random_fdes g"
proof (induction n arbitrary: c b g)
  case (Suc n)
  then show ?case by (auto dest!: random_test_fdes split: Option.bind_splits if_splits)
qed simp

lemma self_test_ready: "cipher_type_self_test m ct h g = Some (status, h', g') \<Longrightarrow> source_ready g \<Longrightarrow> source_ready g'"
proof -
  have "source_ready g'" if "invertibility_tests m ct t b h g = Some (status, h', g')" "source_ready g" for t b h
    using that
    by (auto simp: invertibility_tests_def rand_source_init_def Let_def dest!: random_tests_fdes
        split: prod.splits if_splits Option.bind_splits sum.splits)
  then show "cipher_type_self_test m ct h g = Some (status, h', g') \<Longrightarrow> source_ready g \<Longrightarrow> source_ready g'"
    by (auto simp: cipher_type_self_test_def split: list.splits Option.bind_splits sum.splits)
qed

lemma stat_test_keeps:
  assumes "\<And>s n status dst s'. P s \<Longrightarrow> source s n = Some (status, dst, s') \<Longrightarrow> P s'"
    and "stat_test_rand_source_with_repetition source k s = Some (status, s')" "P s"
  shows "P s'"
proof -
  have rounds: "P s'" if "stat_rounds n source s c = Some (r, s')" "P s" for n s c r s'
    using that by (induction n arbitrary: s c) (auto dest: assms(1) split: option.splits prod.splits if_splits)
  have "P s'" if "repeat_test n err source s = Some (err', s')" "P s" for n err err' s s'
    using that
  proof (induction n arbitrary: err s)
    case (Suc n)
    obtain r s1 where s1: "stat_rounds 50 source s (0, replicate 16 0, no_runs) = Some (r, s1)"
      using Suc.prems(1) by (auto simp: stat_test_rand_source_def split: option.splits)
    with rounds [OF this] Suc show ?case by (auto simp: stat_test_rand_source_def split: if_splits)
  qed simp
  with assms(2,3) show ?thesis by (auto simp: stat_test_rand_source_with_repetition_def)
qed

lemma prng_init_ready:
  assumes "ctr_prng_init rand_source_get_octet_string (p, g) = Some (status, p', g')" "source_ready g"
  shows "source_ready g' \<and> prng_rand p' = rand_source_get_octet_string"
  using assms by (auto simp: Let_def dest!: rand_source_get_fdes split: option.splits if_splits)

lemma prng_get_ready:
  assumes "ctr_prng_get_octet_string (p, g) n = Some (status, dst, p', g')" "source_ready g" "prng_rand p = rand_source_get_octet_string"
  shows "source_ready g' \<and> prng_rand p' = rand_source_get_octet_string"
  using assms prng_init_ready [of p g]
  by (auto simp: ctr_prng_output_def Let_def simp del: ctr_prng_init.simps split: option.splits if_splits)

subsection \<open>The invariant\<close>

definition lists_ok :: "crypto_kernel_t \<Rightarrow> bool" where
  "lists_ok k \<longleftrightarrow> distinct (map fst (cipher_type_list k)) \<and> distinct (map snd (cipher_type_list k)) \<and>
     distinct (map fst (auth_type_list k)) \<and> distinct (map snd (auth_type_list k)) \<and>
     distinct (map (take 64 \<circ> debug_name) (debug_module_list k))"

abbreviation all_ciphers :: "(cipher_type_id_t \<times> cipher_type_t) set" where
  "all_ciphers \<equiv> {(NULL_CIPHER, null_cipher), (AES_128_ICM, aes_icm), (AES_128_CBC, aes_cbc)}"

abbreviation all_auths :: "(auth_type_id_t \<times> auth_type_t) set" where
  "all_auths \<equiv> {(NULL_AUTH, null_auth), (HMAC_SHA1, hmac)}"

definition has_types :: "crypto_kernel_t \<Rightarrow> (cipher_type_id_t \<times> cipher_type_t) set \<Rightarrow> (auth_type_id_t \<times> auth_type_t) set \<Rightarrow> bool" where
  "has_types k cs as \<longleftrightarrow> cs \<subseteq> set (cipher_type_list k) \<and> as \<subseteq> set (auth_type_list k)"

abbreviation secure :: "kernel_env \<Rightarrow> bool" where
  "secure w \<equiv> kernel_state (kern w) = crypto_kernel_state_secure"

definition kernel_inv :: "kernel_env \<Rightarrow> bool" where
  "kernel_inv w \<longleftrightarrow> lists_ok (kern w) \<and> (secure w \<longrightarrow> has_types (kern w) all_ciphers all_auths \<and> level 2 w)"

text \<open>What a call may do to the kernel: more entries in well-formed lists, the same state.\<close>

definition grows :: "crypto_kernel_t \<Rightarrow> crypto_kernel_t \<Rightarrow> bool" where
  "grows k k' \<longleftrightarrow> (lists_ok k \<longrightarrow> lists_ok k') \<and> kernel_state k' = kernel_state k \<and>
     set (cipher_type_list k) \<subseteq> set (cipher_type_list k') \<and> set (auth_type_list k) \<subseteq> set (auth_type_list k') \<and>
     set (debug_module_list k) \<subseteq> set (debug_module_list k')"

lemma grows_refl [simp]: "grows k k"
  by (simp add: grows_def)

lemma grows_trans: "grows u v \<Longrightarrow> grows v w \<Longrightarrow> grows u w"
  by (auto simp: grows_def)

lemma grows_types: "grows k k' \<Longrightarrow> has_types k cs as \<Longrightarrow> has_types k' cs as"
  by (auto simp: grows_def has_types_def)

lemma grows_inv: "grows (kern w) (kern w') \<Longrightarrow> (level 2 w \<Longrightarrow> level 2 w') \<Longrightarrow> kernel_inv w \<Longrightarrow> kernel_inv w'"
  using grows_types by (auto simp: grows_def kernel_inv_def)

lemma load_debug_grows: "crypto_kernel_load_debug_module k h dm = (status, k', h') \<Longrightarrow> grows k k'"
  by (auto simp: crypto_kernel_load_debug_module_def grows_def lists_ok_def same_name_def split: option.splits if_splits prod.splits)

lemma load_type_debug_grows: "grows (kern w) (kern (load_type_debug d w))"
  using load_debug_grows by (fastforce simp: load_type_debug_def split: option.splits prod.splits)

lemma load_debug_keeps: "keeps (\<lambda>_ w'. grows (kern w) (kern w')) (load_debug dm w)"
  using load_debug_grows by (fastforce simp: load_debug_def keeps_def split: prod.splits)

lemma load_cipher_keeps:
  "keeps (\<lambda>status w'. grows (kern w) (kern w') \<and> (status = err_status_ok \<longrightarrow> has_types (kern w') {(tid, ct)} {}))
     (crypto_kernel_load_cipher_type m (Some ct) tid w)"
proof -
  have add: "grows k (k\<lparr>cipher_type_list := (tid, ct) # cipher_type_list k\<rparr>)"
    if "\<forall>e \<in> set (cipher_type_list k). ct \<noteq> snd e \<and> tid \<noteq> fst e" for k
    using that by (auto simp: grows_def lists_ok_def)
  have "grows (kern w) (kern (load_type_debug (cipher_debug ct) w')) \<and> has_types (kern (load_type_debug (cipher_debug ct) w')) {(tid, ct)} {}"
    if "kern w' = (kern w)\<lparr>cipher_type_list := (tid, ct) # cipher_type_list (kern w)\<rparr>"
      "\<forall>e \<in> set (cipher_type_list (kern w)). ct \<noteq> snd e \<and> tid \<noteq> fst e" for w'
    using add [OF that(2)] load_type_debug_grows [of w' "cipher_debug ct"] that(1)
    by (auto intro: grows_trans grows_types simp: has_types_def grows_def)
  then show ?thesis
    by (auto simp: crypto_kernel_load_cipher_type_def keeps_def Let_def split: option.splits if_splits prod.splits)
qed

lemma load_auth_keeps:
  "keeps (\<lambda>status w'. grows (kern w) (kern w') \<and> (status = err_status_ok \<longrightarrow> has_types (kern w') {} {(tid, ty)}))
     (crypto_kernel_load_auth_type m (Some ty) tid w)"
proof -
  have add: "grows k (k\<lparr>auth_type_list := (tid, ty) # auth_type_list k\<rparr>)"
    if "\<forall>e \<in> set (auth_type_list k). ty \<noteq> snd e \<and> tid \<noteq> fst e" for k
    using that by (auto simp: grows_def lists_ok_def)
  have "grows (kern w) (kern (load_type_debug (auth_debug ty) w')) \<and> has_types (kern (load_type_debug (auth_debug ty) w')) {} {(tid, ty)}"
    if "kern w' = (kern w)\<lparr>auth_type_list := (tid, ty) # auth_type_list (kern w)\<rparr>"
      "\<forall>e \<in> set (auth_type_list (kern w)). ty \<noteq> snd e \<and> tid \<noteq> fst e" for w'
    using add [OF that(2)] load_type_debug_grows [of w' "auth_debug ty"] that(1)
    by (auto intro: grows_trans grows_types simp: has_types_def grows_def)
  then show ?thesis
    by (auto simp: crypto_kernel_load_auth_type_def keeps_def Let_def split: option.splits if_splits prod.splits)
qed

lemma random_keeps:
  "keeps (\<lambda>_ w'. kern w' = kern w) (test_rand_source w)" "keeps (\<lambda>_ w'. kern w' = kern w) (start_prng w)"
  "keeps (\<lambda>_ w'. kern w' = kern w) (test_prng w)" "keeps (\<lambda>_ w'. kern w' = kern w) (start_rand_source w)"
  by (auto simp: keeps_def test_rand_source_def start_prng_def test_prng_def start_rand_source_def split: prod.splits)

lemma retest_keeps:
  "keeps (\<lambda>_ w'. kern w' = kern w) (retest_ciphers m cts w)" "keeps (\<lambda>_ w'. kern w' = kern w) (retest_auths m ats w)"
proof -
  show "keeps (\<lambda>_ w'. kern w' = kern w) (retest_ciphers m cts w)"
  proof (induction cts arbitrary: w)
    case (Cons ct cts)
    from Cons [of "w\<lparr>kheap := h, krng := g\<rparr>" for h g] show ?case
      by (cases "cipher_type_self_test m ct (kheap w) (krng w)") (auto simp: keeps_def split: if_splits)
  qed (simp add: keeps_def)
  show "keeps (\<lambda>_ w'. kern w' = kern w) (retest_auths m ats w)"
  proof (induction ats arbitrary: w)
    case (Cons ty ats)
    from Cons [of "w\<lparr>kheap := h\<rparr>" for h] show ?case
      by (cases "auth_type_self_test m ty (kheap w)") (auto simp: keeps_def split: if_splits)
  qed (simp add: keeps_def)
qed

lemma level_kept:
  assumes "level n w"
  shows "keeps (\<lambda>_. level n) (load_debug dm w)" "keeps (\<lambda>_. level n) (crypto_kernel_load_cipher_type m c tid w)"
    "keeps (\<lambda>_. level n) (crypto_kernel_load_auth_type m a aid w)"
proof -
  have d: "level n (load_type_debug d w')" if "level n w'" for d w'
    using that by (auto simp: load_type_debug_def level_def split: option.splits prod.splits)
  show "keeps (\<lambda>_. level n) (load_debug dm w)"
    using assms by (auto simp: load_debug_def keeps_def level_def split: prod.splits)
  show "keeps (\<lambda>_. level n) (crypto_kernel_load_cipher_type m c tid w)"
    using assms self_test_ready
    by (auto simp: crypto_kernel_load_cipher_type_def keeps_def Let_def intro!: d split: option.splits if_splits prod.splits)
      (auto simp: level_def)
  show "keeps (\<lambda>_. level n) (crypto_kernel_load_auth_type m a aid w)"
    using assms
    by (auto simp: crypto_kernel_load_auth_type_def keeps_def Let_def intro!: d split: option.splits if_splits prod.splits)
      (auto simp: level_def)
qed

lemma source_keeps: "source_ready g \<Longrightarrow> rand_source_get_octet_string g n = Some (status, dst, g') \<Longrightarrow> source_ready g'"
  using rand_source_get_fdes by simp

lemma prng_keeps:
  "(case s of (p, g) \<Rightarrow> source_ready g \<and> prng_rand p = rand_source_get_octet_string) \<Longrightarrow>
     ctr_prng_get_octet_string s n = Some (status, dst, s') \<Longrightarrow>
     (case s' of (p, g) \<Rightarrow> source_ready g \<and> prng_rand p = rand_source_get_octet_string)"
  by (cases s; cases s') (auto dest: prng_get_ready simp del: ctr_prng_get_octet_string.simps)

lemma tests_keep:
  "stat_test_rand_source_with_repetition rand_source_get_octet_string k g = Some (status, g') \<Longrightarrow> source_ready g \<Longrightarrow> source_ready g'"
  "stat_test_rand_source_with_repetition ctr_prng_get_octet_string k (p, g) = Some (status, p', g') \<Longrightarrow>
     source_ready g \<Longrightarrow> prng_rand p = rand_source_get_octet_string \<Longrightarrow> source_ready g' \<and> prng_rand p' = rand_source_get_octet_string"
proof -
  show "stat_test_rand_source_with_repetition rand_source_get_octet_string k g = Some (status, g') \<Longrightarrow> source_ready g \<Longrightarrow> source_ready g'"
    by (rule stat_test_keeps [where P = source_ready]) (rule source_keeps)
  show "stat_test_rand_source_with_repetition ctr_prng_get_octet_string k (p, g) = Some (status, p', g') \<Longrightarrow>
      source_ready g \<Longrightarrow> prng_rand p = rand_source_get_octet_string \<Longrightarrow> source_ready g' \<and> prng_rand p' = rand_source_get_octet_string"
  proof -
    assume a: "stat_test_rand_source_with_repetition ctr_prng_get_octet_string k (p, g) = Some (status, p', g')"
      "source_ready g" "prng_rand p = rand_source_get_octet_string"
    have "case (p', g') of (p, g) \<Rightarrow> source_ready g \<and> prng_rand p = rand_source_get_octet_string"
      by (rule stat_test_keeps [OF prng_keeps a(1)]) (assumption | simp add: a(2,3))+
    then show ?thesis by simp
  qed
qed

lemma level_random:
  "level n w \<Longrightarrow> keeps (\<lambda>_. level n) (test_rand_source w)"
  "keeps (\<lambda>_. level 1) (start_rand_source w)" "level 1 w \<Longrightarrow> keeps (\<lambda>_. level 2) (start_prng w)"
  "level 2 w \<Longrightarrow> keeps (\<lambda>_. level 2) (test_prng w)"
proof -
  show "level n w \<Longrightarrow> keeps (\<lambda>_. level n) (test_rand_source w)"
    by (auto simp: keeps_def test_rand_source_def level_def dest: tests_keep(1))
  show "keeps (\<lambda>_. level 1) (start_rand_source w)"
    by (auto simp: keeps_def start_rand_source_def rand_source_init_def level_def)
  show "level 1 w \<Longrightarrow> keeps (\<lambda>_. level 2) (start_prng w)"
    using prng_init_ready [of "kprng w" "krng w"]
    by (auto simp: keeps_def start_prng_def level_def simp del: ctr_prng_init.simps)
  show "level 2 w \<Longrightarrow> keeps (\<lambda>_. level 2) (test_prng w)"
    by (auto simp: keeps_def test_prng_def level_def dest: tests_keep(2))
qed

lemma retest_ciphers_level: "level n w \<Longrightarrow> keeps (\<lambda>_. level n) (retest_ciphers m cts w)"
proof (induction cts arbitrary: w)
  case (Cons ct cts)
  show ?case
  proof (cases "cipher_type_self_test m ct (kheap w) (krng w)")
    case (Some r)
    obtain status h g where r: "r = (status, h, g)" by (cases r)
    with Some Cons.prems self_test_ready have "level n (w\<lparr>kheap := h, krng := g\<rparr>)" by (auto simp: level_def)
    with Cons.IH Some r show ?thesis by (auto simp: keeps_def)
  qed (simp add: keeps_def)
qed (simp add: keeps_def)

lemma retest_auths_level: "level n w \<Longrightarrow> keeps (\<lambda>_. level n) (retest_auths m ats w)"
proof (induction ats arbitrary: w)
  case (Cons ty ats)
  have "level n (w\<lparr>kheap := h\<rparr>)" for h using Cons.prems by (simp add: level_def)
  from Cons.IH [OF this] show ?case by (cases "auth_type_self_test m ty (kheap w)") (auto simp: keeps_def split: if_splits)
qed (simp add: keeps_def)

lemma retest_kern: "and_then (retest_ciphers m cts w) (retest_auths m ats) = Some (Return status w') \<Longrightarrow> kern w' = kern w"
proof -
  have "keeps (\<lambda>_ w'. kern w' = kern w) (and_then (retest_ciphers m cts w) (retest_auths m ats))"
    by (rule keeps_and_then [OF retest_keeps(1)]) (auto intro: keeps_weaken [OF retest_keeps(2)])
  then show "and_then (retest_ciphers m cts w) (retest_auths m ats) = Some (Return status w') \<Longrightarrow> kern w' = kern w" by (rule keepsD)
qed

lemma status_keeps:
  assumes "level n w"
  shows "keeps (\<lambda>_ w'. level n w' \<and> (kern w' = kern w \<or> kern w' = (kern w)\<lparr>kernel_state := crypto_kernel_state_insecure\<rparr>))
    (crypto_kernel_status m w)"
proof -
  have "keeps (\<lambda>_. level n) (and_then (retest_ciphers m cts w') (retest_auths m ats))" if "level n w'" for cts ats w'
    by (rule keeps_and_then [OF retest_ciphers_level [OF that]]) (auto intro: retest_auths_level)
  note retest_level = keepsD [OF this]
  show ?thesis
  proof (cases "test_rand_source w")
    case (Some r)
    show ?thesis
    proof (cases r)
      case (Return status w')
      with Some keepsD [OF random_keeps(1)] keepsD [OF level_random(1) [OF assms]] have "kern w' = kern w" "level n w'" by blast+
      then show ?thesis using Some Return retest_kern [of m _ w'] retest_level [of w']
        by (auto simp: crypto_kernel_status_def keeps_def Let_def level_def split: if_splits)
    qed (use Some in \<open>simp add: crypto_kernel_status_def keeps_def\<close>)
  qed (simp add: crypto_kernel_status_def keeps_def)
qed

text \<open>A stage of the initialisation, from a kernel \<open>k\<close> to one that also has the given types and level.\<close>

definition stage ::
  "crypto_kernel_t \<Rightarrow> nat \<Rightarrow> (cipher_type_id_t \<times> cipher_type_t) set \<Rightarrow> (auth_type_id_t \<times> auth_type_t) set \<Rightarrow> outcome option \<Rightarrow> bool" where
  "stage k n cs as r \<longleftrightarrow>
     keeps (\<lambda>status w'. grows k (kern w') \<and> (status = err_status_ok \<longrightarrow> has_types (kern w') cs as \<and> level n w')) r"

lemma stage_then:
  assumes "stage k n cs as r" "\<And>w'. grows k (kern w') \<Longrightarrow> has_types (kern w') cs as \<Longrightarrow> level n w' \<Longrightarrow> keeps Q (f w')"
    and "\<And>status w'. status \<noteq> err_status_ok \<Longrightarrow> grows k (kern w') \<Longrightarrow> Q status w'"
  shows "keeps Q (and_then r f)"
  using assms(1) unfolding stage_def by (rule keeps_and_then) (use assms(2,3) in auto)

lemma stages:
  assumes w: "grows k (kern w)" "has_types (kern w) cs as"
  shows "level n w \<Longrightarrow> stage k n cs as (load_debug dm w)" "level n w \<Longrightarrow> stage k n cs as (err_reporting_init s w)"
    "stage k 1 cs as (start_rand_source w)" "level n w \<Longrightarrow> stage k n cs as (test_rand_source w)"
    "level 1 w \<Longrightarrow> stage k 2 cs as (start_prng w)" "level 2 w \<Longrightarrow> stage k 2 cs as (test_prng w)"
    "level n w \<Longrightarrow> stage k n (insert (tid, ct) cs) as (crypto_kernel_load_cipher_type m (Some ct) tid w)"
    "level n w \<Longrightarrow> stage k n cs (insert (aid, ty) as) (crypto_kernel_load_auth_type m (Some ty) aid w)"
proof -
  have same: "stage k l cs as r" if "keeps (\<lambda>_ w'. grows (kern w) (kern w')) r" "keeps (\<lambda>_. level l) r" for l r
    using that w by (auto simp: stage_def keeps_def intro: grows_trans grows_types)
  have eq: "stage k l cs as r" if "keeps (\<lambda>_ w'. kern w' = kern w) r" "keeps (\<lambda>_. level l) r" for l r
    by (rule same [OF keeps_weaken [OF that(1)] that(2)]) simp
  show "level n w \<Longrightarrow> stage k n cs as (load_debug dm w)" by (rule same [OF load_debug_keeps level_kept(1)])
  show "level n w \<Longrightarrow> stage k n cs as (err_reporting_init s w)" by (rule eq) (simp_all add: keeps_def err_reporting_init_def)
  show "stage k 1 cs as (start_rand_source w)" by (rule eq [OF random_keeps(4) level_random(2)])
  show "level n w \<Longrightarrow> stage k n cs as (test_rand_source w)" by (rule eq [OF random_keeps(1) level_random(1)])
  show "level 1 w \<Longrightarrow> stage k 2 cs as (start_prng w)" by (rule eq [OF random_keeps(2) level_random(3)])
  show "level 2 w \<Longrightarrow> stage k 2 cs as (test_prng w)" by (rule eq [OF random_keeps(3) level_random(4)])
  show "level n w \<Longrightarrow> stage k n (insert (tid, ct) cs) as (crypto_kernel_load_cipher_type m (Some ct) tid w)"
    using load_cipher_keeps [of w tid ct m] level_kept(2) [of n w m "Some ct" tid] w
    by (auto simp: stage_def keeps_def has_types_def intro: grows_trans) (auto simp: grows_def)
  show "level n w \<Longrightarrow> stage k n cs (insert (aid, ty) as) (crypto_kernel_load_auth_type m (Some ty) aid w)"
    using load_auth_keeps [of w aid ty m] level_kept(3) [of n w m "Some ty" aid] w
    by (auto simp: stage_def keeps_def has_types_def intro: grows_trans) (auto simp: grows_def)
qed

lemma crypto_kernel_init_inv: "keeps (\<lambda>_ w'. kernel_inv w \<longrightarrow> kernel_inv w') (crypto_kernel_init m w)"
proof (cases "secure w")
  case True
  then have "crypto_kernel_init m w = crypto_kernel_status m w" by (simp add: crypto_kernel_init_def)
  moreover have "level 0 w" by (simp add: level_def)
  ultimately show ?thesis using True status_keeps [of 0 w m] status_keeps [of 2 w m]
    by (auto simp: keeps_def kernel_inv_def lists_ok_def has_types_def)
next
  case False
  let ?Q = "\<lambda>(_ :: err_status_t) w'. kernel_inv w \<longrightarrow> kernel_inv w'"
  have Q: "?Q status w'" if "grows (kern w) (kern w')" for status w' using that False by (auto simp: kernel_inv_def grows_def)
  have "keeps ?Q (set_secure w')" if "grows (kern w) (kern w')" "has_types (kern w') all_ciphers all_auths" "level 2 w'" for w'
    using that Q [OF that(1)] by (auto simp: set_secure_def keeps_def kernel_inv_def lists_ok_def has_types_def grows_def level_def)
  then have secure: "keeps ?Q (set_secure w')"
    if "grows (kern w) (kern w')" "has_types (kern w') (insert (3, aes_cbc) (insert (1, aes_icm) {(0, null_cipher)})) (insert (3, hmac) {(0, null_auth)})" "level 2 w'" for w'
    using that by (simp add: insert_commute)
  have "grows (kern w) (kern w)" "has_types (kern w) {} {}" "level 0 w" by (simp_all add: has_types_def level_def)
  then have "keeps ?Q (and_then (err_reporting_init ''crypto'' w) (\<lambda>w.
        and_then (load_debug mod_crypto_kernel w) (\<lambda>w.
        and_then (load_debug mod_auth w) (\<lambda>w.
        and_then (load_debug mod_cipher w) (\<lambda>w.
        and_then (load_debug mod_stat w) (\<lambda>w.
        and_then (load_debug mod_alloc w) (\<lambda>w.
        and_then (start_rand_source w) (\<lambda>w.
        and_then (test_rand_source w) (\<lambda>w.
        and_then (start_prng w) (\<lambda>w.
        and_then (test_prng w) (\<lambda>w.
        and_then (crypto_kernel_load_cipher_type m (Some null_cipher) NULL_CIPHER w) (\<lambda>w.
        and_then (crypto_kernel_load_cipher_type m (Some aes_icm) AES_128_ICM w) (\<lambda>w.
        and_then (crypto_kernel_load_cipher_type m (Some aes_cbc) AES_128_CBC w) (\<lambda>w.
        and_then (crypto_kernel_load_auth_type m (Some null_auth) NULL_AUTH w) (\<lambda>w.
        and_then (crypto_kernel_load_auth_type m (Some hmac) HMAC_SHA1 w) set_secure)))))))))))))))"
    by - ((rule stage_then, rule stages, (assumption+)?)+, rule secure, assumption+, (erule Q)+)
  with False show ?thesis by (simp add: crypto_kernel_init_def)
qed

subsection \<open>The kernel as a state machine\<close>

text \<open>Every call that returns is a step, whatever memory, random numbers and arguments it meets.\<close>

inductive kernel_step :: "kernel_env \<Rightarrow> kernel_env \<Rightarrow> bool" where
  init: "crypto_kernel_init m w = Some (Return status w') \<Longrightarrow> kernel_step w w'"
| status: "crypto_kernel_status m w = Some (Return status w') \<Longrightarrow> kernel_step w w'"
| shutdown: "crypto_kernel_shutdown w = Some (Return status w') \<Longrightarrow> kernel_step w w'"
| load_cipher: "crypto_kernel_load_cipher_type m c tid w = Some (Return status w') \<Longrightarrow> kernel_step w w'"
| load_auth: "crypto_kernel_load_auth_type m a aid w = Some (Return status w') \<Longrightarrow> kernel_step w w'"
| load_module: "crypto_kernel_load_debug_module (kern w) (kheap w) dm = (status, k, h) \<Longrightarrow> kernel_step w (w\<lparr>kern := k, kheap := h\<rparr>)"
| set_module: "crypto_kernel_set_debug_module (kern w) name on = (status, k) \<Longrightarrow> kernel_step w (w\<lparr>kern := k\<rparr>)"
| get_random: "crypto_get_random w len = Some (status, buffer, w') \<Longrightarrow> kernel_step w w'"
| srtp_init: "srtp_init m w = Some (Return status w') \<Longrightarrow> kernel_step w w'"
| srtp_deinit: "srtp_deinit w = Some (Return status w') \<Longrightarrow> kernel_step w w'"

inductive_cases kernel_stepE: "kernel_step w w'"

text \<open>The kernel as the program starts.\<close>

definition kernel_start :: "kernel_env \<Rightarrow> bool" where
  "kernel_start w \<longleftrightarrow> kern w = \<lparr>kernel_state = crypto_kernel_state_insecure, cipher_type_list = [], auth_type_list = [], debug_module_list = []\<rparr>"

lemma shutdown_inv:
  assumes "crypto_kernel_shutdown w = Some (Return status w')" "kernel_inv w"
  shows "kernel_inv w'"
proof (cases "source_ready (krng w)")
  case False
  then have "\<not> secure w" using assms(2) by (auto simp: kernel_inv_def level_def)
  then show ?thesis using assms by (auto simp: shutdown_simps kernel_inv_def lists_ok_def Let_def split: if_splits)
qed (use assms in \<open>auto simp: shutdown_simps kernel_inv_def lists_ok_def Let_def split: if_splits\<close>)

lemma set_first_names: "set_first name on ms = Some ms' \<Longrightarrow> map debug_name ms' = map debug_name ms"
  by (induction ms arbitrary: ms') (auto split: if_splits)

lemma set_module_inv:
  assumes "crypto_kernel_set_debug_module (kern w) name on = (status, k)" "kernel_inv w"
  shows "kernel_inv (w\<lparr>kern := k\<rparr>)"
proof -
  have "map (take 64 \<circ> debug_name) (debug_module_list k) = map (take 64 \<circ> debug_name) (debug_module_list (kern w))"
    using assms(1) set_first_names [of name on "debug_module_list (kern w)"]
    by (auto simp: crypto_kernel_set_debug_module_def simp flip: map_map split: option.splits)
  moreover have "kernel_state k = kernel_state (kern w)" "cipher_type_list k = cipher_type_list (kern w)" "auth_type_list k = auth_type_list (kern w)"
    using assms(1) by (auto simp: crypto_kernel_set_debug_module_def split: option.splits)
  ultimately show ?thesis using assms(2) by (simp add: kernel_inv_def lists_ok_def has_types_def level_def)
qed

lemma get_random_inv:
  assumes "crypto_get_random w len = Some (status, buffer, w')" "kernel_inv w"
  shows "kernel_inv w'"
  using assms prng_get_ready [of "kprng w" "krng w" len]
  by (auto simp: crypto_get_random_def kernel_inv_def level_def simp del: ctr_prng_get_octet_string.simps split: if_splits)

lemma kept_inv:
  assumes "keeps (\<lambda>_ w'. grows (kern w) (kern w')) r" "\<And>n. level n w \<Longrightarrow> keeps (\<lambda>_. level n) r"
    and "r = Some (Return status w')" "kernel_inv w"
  shows "kernel_inv w'"
  using assms(1) keepsD [OF assms(2) assms(3)] assms(3,4) by (auto simp: keeps_def intro: grows_inv)

lemma kernel_step_inv: "kernel_step w w' \<Longrightarrow> kernel_inv w \<Longrightarrow> kernel_inv w'"
proof (erule kernel_stepE)
  fix m status assume "crypto_kernel_init m w = Some (Return status w')" "kernel_inv w"
  then show "kernel_inv w'" using keepsD [OF crypto_kernel_init_inv] by blast
next
  fix m status assume *: "crypto_kernel_status m w = Some (Return status w')" "kernel_inv w"
  have "level 0 w" by (simp add: level_def)
  from keepsD [OF status_keeps [OF this] *(1)] keepsD [OF status_keeps [of 2 w] *(1)] *(2) show "kernel_inv w'"
    by (auto simp: kernel_inv_def lists_ok_def has_types_def)
next
  fix m c tid status assume *: "crypto_kernel_load_cipher_type m c tid w = Some (Return status w')" "kernel_inv w"
  show "kernel_inv w'"
  proof (cases c)
    case (Some ct)
    have "keeps (\<lambda>_ w'. grows (kern w) (kern w')) (crypto_kernel_load_cipher_type m c tid w)"
      unfolding Some using load_cipher_keeps by (rule keeps_weaken) simp
    from kept_inv [OF this level_kept(2) *] show ?thesis by simp
  qed (use * in \<open>auto simp: crypto_kernel_load_cipher_type_def\<close>)
next
  fix m a aid status assume *: "crypto_kernel_load_auth_type m a aid w = Some (Return status w')" "kernel_inv w"
  show "kernel_inv w'"
  proof (cases a)
    case (Some ty)
    have "keeps (\<lambda>_ w'. grows (kern w) (kern w')) (crypto_kernel_load_auth_type m a aid w)"
      unfolding Some using load_auth_keeps by (rule keeps_weaken) simp
    from kept_inv [OF this level_kept(3) *] show ?thesis by simp
  qed (use * in \<open>auto simp: crypto_kernel_load_auth_type_def\<close>)
next
  fix dm status k h
  assume *: "crypto_kernel_load_debug_module (kern w) (kheap w) dm = (status, k, h)" "w' = w\<lparr>kern := k, kheap := h\<rparr>" "kernel_inv w"
  show "kernel_inv w'"
    by (rule grows_inv [OF _ _ *(3)]) (use load_debug_grows [OF *(1)] *(2) in \<open>simp_all add: level_def\<close>)
next
  fix m status assume *: "srtp_init m w = Some (Return status w')" "kernel_inv w"
  have "keeps (\<lambda>_ w'. kernel_inv w \<longrightarrow> kernel_inv w') (srtp_init m w)"
    unfolding srtp_init_def
  proof (rule keeps_and_then [OF crypto_kernel_init_inv])
    fix w1 assume "kernel_inv w \<longrightarrow> kernel_inv w1"
    then show "keeps (\<lambda>_ w'. kernel_inv w \<longrightarrow> kernel_inv w') (load_debug mod_srtp w1)"
      using kept_inv [OF load_debug_keeps level_kept(1)] by (auto simp: keeps_def)
  qed
  with * show "kernel_inv w'" by (auto simp: keeps_def)
qed (auto simp: srtp_deinit_def intro: shutdown_inv set_module_inv get_random_inv)

lemma kernel_start_inv: "kernel_start w \<Longrightarrow> kernel_inv w"
  by (simp add: kernel_start_def kernel_inv_def lists_ok_def)

lemma kernel_reachable_inv: "kernel_step\<^sup>*\<^sup>* w w' \<Longrightarrow> kernel_inv w \<Longrightarrow> kernel_inv w'"
  by (induction rule: rtranclp_induct) (auto intro: kernel_step_inv)

subsection \<open>Initialisation succeeds or fails the statistical tests\<close>

definition mem_ok :: "heap \<Rightarrow> bool" where
  "mem_ok h \<longleftrightarrow> (\<forall>n. malloc_ok h n) \<and> (\<forall>q \<ge> mallocs h. ciphers h q = None \<and> auths h q = None)"

definition knows ::
  "kernel_env \<Rightarrow> crypto_kernel_state_t \<Rightarrow> debug_module_t list \<Rightarrow> (cipher_type_id_t \<times> cipher_type_t) list \<Rightarrow>
   (auth_type_id_t \<times> auth_type_t) list \<Rightarrow> bool" where
  "knows w st ds cs as \<longleftrightarrow> mem_ok (kheap w) \<and>
     kern w = \<lparr>kernel_state = st, cipher_type_list = cs, auth_type_list = as, debug_module_list = ds\<rparr>"

definition fresh_name :: "debug_module_t \<Rightarrow> debug_module_t list \<Rightarrow> bool" where
  "fresh_name dm ds \<longleftrightarrow> (\<forall>m \<in> set ds. \<not> same_name (debug_name dm) (debug_name m))"

lemma mem_ok_later: "mem_ok h \<Longrightarrow> mallocs h \<le> n \<Longrightarrow> mem_ok (h\<lparr>mallocs := n\<rparr>)"
  by (simp add: mem_ok_def)

lemma mem_ok_alloc: "mem_ok h \<Longrightarrow> crypto_alloc h = (Some (mallocs h), h\<lparr>mallocs := mallocs h + 1\<rparr>)"
  by (simp add: mem_ok_def crypto_alloc_def)

lemma load_module_knows:
  assumes "knows w st ds cs as" "fresh_name dm ds"
  shows "crypto_kernel_load_debug_module (kern w) (kheap w) (Some dm) =
    (err_status_ok, (kern w)\<lparr>debug_module_list := dm # ds\<rparr>, (kheap w)\<lparr>mallocs := mallocs (kheap w) + 1\<rparr>)"
  using assms mem_ok_alloc [of "kheap w"] by (auto simp: crypto_kernel_load_debug_module_def knows_def fresh_name_def)

lemma load_debug_knows:
  assumes "knows w st ds cs as" "fresh_name dm ds"
  shows "returns (\<lambda>status w'. status = err_status_ok \<and> knows w' st (dm # ds) cs as) (load_debug dm w)"
  using load_module_knows [OF assms] assms(1) by (simp add: load_debug_def returns_def knows_def mem_ok_later)

lemma random_knows:
  assumes "knows w st ds cs as"
  shows "returns (\<lambda>status w'. status = err_status_ok \<and> knows w' st ds cs as) (err_reporting_init s w)"
    "returns (\<lambda>status w'. status = err_status_ok \<and> knows w' st ds cs as) (start_rand_source w)"
    "returns (\<lambda>status w'. status \<in> {err_status_ok, err_status_algo_fail} \<and> knows w' st ds cs as) (test_rand_source w)"
    "returns (\<lambda>status w'. status = err_status_ok \<and> knows w' st ds cs as \<and> (\<exists>k. prng_at (kprng w') k 0)) (start_prng w)"
    "\<exists>k. prng_at (kprng w) k 0 \<Longrightarrow>
     returns (\<lambda>status w'. status \<in> {err_status_ok, err_status_algo_fail} \<and> knows w' st ds cs as) (test_prng w)"
proof -
  show "returns (\<lambda>status w'. status = err_status_ok \<and> knows w' st ds cs as) (err_reporting_init s w)"
    using assms by (simp add: err_reporting_init_def returns_def)
  show "returns (\<lambda>status w'. status = err_status_ok \<and> knows w' st ds cs as) (start_rand_source w)"
    using assms by (auto simp: start_rand_source_def rand_source_init_def returns_def knows_def)
  show "returns (\<lambda>status w'. status \<in> {err_status_ok, err_status_algo_fail} \<and> knows w' st ds cs as) (test_rand_source w)"
    using rand_source.repetition_returns [where m = 62500 and n = 25 and s = "krng w"] assms by (auto simp: test_rand_source_def returns_def knows_def)
  obtain key g where "rand_source_get_octet_string (krng w) 32 = Some (err_status_ok, key, g)" "length key = 32"
    by (simp add: rand_source_get_octet_string_def rand_octets_eq)
  from ctr_prng_init_at [of rand_source_get_octet_string "krng w", OF this, of "kprng w"] assms
  show "returns (\<lambda>status w'. status = err_status_ok \<and> knows w' st ds cs as \<and> (\<exists>k. prng_at (kprng w') k 0)) (start_prng w)"
    by (auto simp: start_prng_def returns_def knows_def simp del: ctr_prng_init.simps split_paired_Ex)
  assume "\<exists>k. prng_at (kprng w) k 0"
  then have "\<exists>k pos. prng_at (fst (kprng w, krng w)) k pos \<and> pos + 62500 \<le> 0xffff" by (auto intro: exI [of _ "0 :: nat"])
  from ctr_prng.repetition_returns [OF this, of 25] assms
  show "returns (\<lambda>status w'. status \<in> {err_status_ok, err_status_algo_fail} \<and> knows w' st ds cs as) (test_prng w)"
    by (auto simp: test_prng_def returns_def knows_def)
qed

definition debug_added :: "debug_module_t option \<Rightarrow> debug_module_t list \<Rightarrow> debug_module_t list" where
  "debug_added d ds = (case d of None \<Rightarrow> ds | Some dm \<Rightarrow> dm # ds)"

lemma load_type_debug_knows:
  assumes "knows w st ds cs as" "\<forall>dm. d = Some dm \<longrightarrow> fresh_name dm ds"
  shows "knows (load_type_debug d w) st (debug_added d ds) cs as"
proof (cases d)
  case (Some dm)
  with load_module_knows [OF assms(1), of dm] assms show ?thesis
    by (simp add: load_type_debug_def debug_added_def knows_def mem_ok_later)
qed (use assms in \<open>simp add: load_type_debug_def debug_added_def\<close>)

lemma load_cipher_knows:
  assumes w: "knows w st ds cs as" and m: "stack_ok m" and new: "ct \<notin> snd ` set cs" "tid \<notin> fst ` set cs"
    and d: "\<forall>dm. cipher_debug ct = Some dm \<longrightarrow> fresh_name dm ds"
  shows "returns (\<lambda>status w'. status = err_status_ok \<and> knows w' st (debug_added (cipher_debug ct) ds) ((tid, ct) # cs) as)
    (crypto_kernel_load_cipher_type m (Some ct) tid w)"
proof -
  let ?h = "(kheap w)\<lparr>mallocs := mallocs (kheap w) + 2\<rparr>"
  have h: "mem_ok (kheap w)" using w by (simp add: knows_def)
  obtain g where g: "cipher_type_self_test m ct (kheap w) (krng w) = Some (err_status_ok, ?h, g)"
    using cipher_self_test_passes [of m "kheap w" ct "krng w"] m h by (auto simp: mem_ok_def)
  have a: "crypto_alloc ?h = (Some (mallocs ?h), ?h\<lparr>mallocs := mallocs ?h + 1\<rparr>)" by (rule mem_ok_alloc) (simp add: h mem_ok_later)
  define w1 where "w1 = w\<lparr>krng := g, kheap := ?h\<lparr>mallocs := mallocs ?h + 1\<rparr>, kern := (kern w)\<lparr>cipher_type_list := (tid, ct) # cs\<rparr>\<rparr>"
  have "knows w1 st ds ((tid, ct) # cs) as" using w by (simp add: w1_def knows_def mem_ok_later)
  from load_type_debug_knows [OF this d] have "knows (load_type_debug (cipher_debug ct) w1) st (debug_added (cipher_debug ct) ds) ((tid, ct) # cs) as" .
  moreover have "crypto_kernel_load_cipher_type m (Some ct) tid w = Some (Return err_status_ok (load_type_debug (cipher_debug ct) w1))"
    using g a w new by (auto simp: crypto_kernel_load_cipher_type_def Let_def knows_def w1_def)
  ultimately show ?thesis by (simp add: returns_def)
qed

lemma load_auth_knows:
  assumes w: "knows w st ds cs as" and m: "stack_ok m" and new: "ty \<notin> snd ` set as" "tid \<notin> fst ` set as"
    and d: "\<forall>dm. auth_debug ty = Some dm \<longrightarrow> fresh_name dm ds"
  shows "returns (\<lambda>status w'. status = err_status_ok \<and> knows w' st (debug_added (auth_debug ty) ds) cs ((tid, ty) # as))
    (crypto_kernel_load_auth_type m (Some ty) tid w)"
proof -
  let ?h = "(kheap w)\<lparr>mallocs := mallocs (kheap w) + 1\<rparr>"
  have h: "mem_ok (kheap w)" using w by (simp add: knows_def)
  have g: "auth_type_self_test m ty (kheap w) = Some (err_status_ok, ?h)"
    using auth_self_test_passes [of m "kheap w" ty] m h by (auto simp: mem_ok_def)
  have a: "crypto_alloc ?h = (Some (mallocs ?h), ?h\<lparr>mallocs := mallocs ?h + 1\<rparr>)" by (rule mem_ok_alloc) (simp add: h mem_ok_later)
  define w1 where "w1 = w\<lparr>kheap := ?h\<lparr>mallocs := mallocs ?h + 1\<rparr>, kern := (kern w)\<lparr>auth_type_list := (tid, ty) # as\<rparr>\<rparr>"
  have "knows w1 st ds cs ((tid, ty) # as)" using w by (simp add: w1_def knows_def mem_ok_later)
  from load_type_debug_knows [OF this d] have "knows (load_type_debug (auth_debug ty) w1) st (debug_added (auth_debug ty) ds) cs ((tid, ty) # as)" .
  moreover have "crypto_kernel_load_auth_type m (Some ty) tid w = Some (Return err_status_ok (load_type_debug (auth_debug ty) w1))"
    using g a w new by (auto simp: crypto_kernel_load_auth_type_def Let_def knows_def w1_def)
  ultimately show ?thesis by (simp add: returns_def)
qed

abbreviation test_modules :: "debug_module_t list" where
  "test_modules \<equiv> [mod_alloc, mod_stat, mod_cipher, mod_auth, mod_crypto_kernel]"

abbreviation kernel_modules :: "debug_module_t list" where
  "kernel_modules \<equiv> mod_hmac # mod_aes_cbc # mod_aes_icm # test_modules"

abbreviation cipher_types :: "(cipher_type_id_t \<times> cipher_type_t) list" where
  "cipher_types \<equiv> [(AES_128_CBC, aes_cbc), (AES_128_ICM, aes_icm), (NULL_CIPHER, null_cipher)]"

abbreviation auth_types :: "(auth_type_id_t \<times> auth_type_t) list" where
  "auth_types \<equiv> [(HMAC_SHA1, hmac), (NULL_AUTH, null_auth)]"

definition init_result :: "err_status_t \<Rightarrow> kernel_env \<Rightarrow> bool" where
  "init_result status w \<longleftrightarrow>
     status = err_status_ok \<and> knows w crypto_kernel_state_secure kernel_modules cipher_types auth_types \<or>
     status = err_status_algo_fail \<and> knows w crypto_kernel_state_insecure test_modules [] []"

lemma crypto_kernel_init_returns:
  assumes m: "stack_ok m" and w: "knows w crypto_kernel_state_insecure [] [] []"
  shows "returns init_result (crypto_kernel_init m w)"
proof -
  let ?I = crypto_kernel_state_insecure
  note names = debug_modules fresh_name_def same_name_def debug_added_def
  have tested: "returns init_result (and_then (crypto_kernel_load_cipher_type m (Some null_cipher) NULL_CIPHER w) (\<lambda>w.
        and_then (crypto_kernel_load_cipher_type m (Some aes_icm) AES_128_ICM w) (\<lambda>w.
        and_then (crypto_kernel_load_cipher_type m (Some aes_cbc) AES_128_CBC w) (\<lambda>w.
        and_then (crypto_kernel_load_auth_type m (Some null_auth) NULL_AUTH w) (\<lambda>w.
        and_then (crypto_kernel_load_auth_type m (Some hmac) HMAC_SHA1 w) set_secure)))))"
    if w: "knows w ?I test_modules [] []" for w
    using w
    by - (rule returns_ok_then, erule load_cipher_knows [OF _ m], simp, simp, simp,
        rule returns_ok_then, erule load_cipher_knows [OF _ m], simp, simp, simp add: names,
        rule returns_ok_then, erule load_cipher_knows [OF _ m], simp, simp, simp add: names,
        rule returns_ok_then, erule load_auth_knows [OF _ m], simp, simp, simp,
        rule returns_ok_then, erule load_auth_knows [OF _ m], simp, simp, simp add: names,
        simp add: set_secure_def returns_def knows_def init_result_def debug_added_def)
  have failed: "init_result err_status_algo_fail w" if "knows w ?I test_modules [] []" for w
    using that by (simp add: init_result_def)
  have "returns init_result (and_then (err_reporting_init ''crypto'' w) (\<lambda>w.
        and_then (load_debug mod_crypto_kernel w) (\<lambda>w.
        and_then (load_debug mod_auth w) (\<lambda>w.
        and_then (load_debug mod_cipher w) (\<lambda>w.
        and_then (load_debug mod_stat w) (\<lambda>w.
        and_then (load_debug mod_alloc w) (\<lambda>w.
        and_then (start_rand_source w) (\<lambda>w.
        and_then (test_rand_source w) (\<lambda>w.
        and_then (start_prng w) (\<lambda>w.
        and_then (test_prng w) (\<lambda>w.
        and_then (crypto_kernel_load_cipher_type m (Some null_cipher) NULL_CIPHER w) (\<lambda>w.
        and_then (crypto_kernel_load_cipher_type m (Some aes_icm) AES_128_ICM w) (\<lambda>w.
        and_then (crypto_kernel_load_cipher_type m (Some aes_cbc) AES_128_CBC w) (\<lambda>w.
        and_then (crypto_kernel_load_auth_type m (Some null_auth) NULL_AUTH w) (\<lambda>w.
        and_then (crypto_kernel_load_auth_type m (Some hmac) HMAC_SHA1 w) set_secure)))))))))))))))"
    using w
    by - (rule returns_ok_then, erule random_knows(1),
        (rule returns_ok_then, erule load_debug_knows, simp add: names)+,
        rule returns_ok_then, erule random_knows(2), rule returns_test_then, erule random_knows(3),
        rule returns_ok_then, erule random_knows(4), rule returns_test_then, rule random_knows(5), erule conjunct1, erule conjunct2,
        erule tested, erule failed, erule failed)
  with w show ?thesis by (simp add: crypto_kernel_init_def knows_def)
qed

lemma retest_knows:
  assumes m: "stack_ok m"
  shows "knows w st ds cs as \<Longrightarrow> returns (\<lambda>status w'. status = err_status_ok \<and> knows w' st ds cs as) (retest_ciphers m cts w)"
    and "knows w st ds cs as \<Longrightarrow> returns (\<lambda>status w'. status = err_status_ok \<and> knows w' st ds cs as) (retest_auths m ats w)"
proof -
  show "knows w st ds cs as \<Longrightarrow> returns (\<lambda>status w'. status = err_status_ok \<and> knows w' st ds cs as) (retest_ciphers m cts w)"
  proof (induction cts arbitrary: w)
    case (Cons ct cts)
    let ?h = "(kheap w)\<lparr>mallocs := mallocs (kheap w) + 2\<rparr>"
    obtain g where g: "cipher_type_self_test m ct (kheap w) (krng w) = Some (err_status_ok, ?h, g)"
      using cipher_self_test_passes [of m "kheap w" ct "krng w"] m Cons.prems by (auto simp: mem_ok_def knows_def)
    have "knows (w\<lparr>kheap := ?h, krng := g\<rparr>) st ds cs as" using Cons.prems by (simp add: knows_def mem_ok_later)
    from Cons.IH [OF this] g show ?case by simp
  qed (simp add: returns_def)
  show "knows w st ds cs as \<Longrightarrow> returns (\<lambda>status w'. status = err_status_ok \<and> knows w' st ds cs as) (retest_auths m ats w)"
  proof (induction ats arbitrary: w)
    case (Cons ty ats)
    let ?h = "(kheap w)\<lparr>mallocs := mallocs (kheap w) + 1\<rparr>"
    have g: "auth_type_self_test m ty (kheap w) = Some (err_status_ok, ?h)"
      using auth_self_test_passes [of m "kheap w" ty] m Cons.prems by (auto simp: mem_ok_def knows_def)
    have "knows (w\<lparr>kheap := ?h\<rparr>) st ds cs as" using Cons.prems by (simp add: knows_def mem_ok_later)
    from Cons.IH [OF this] g show ?case by simp
  qed (simp add: returns_def)
qed

text \<open>Re-testing a kernel returns, too, and no self-test ends the process.\<close>

lemma crypto_kernel_status_returns:
  assumes m: "stack_ok m" and w: "knows w st ds cs as"
  shows "returns (\<lambda>status w'. status = err_status_ok \<and> knows w' st ds cs as \<or>
      status = err_status_algo_fail \<and> knows w' crypto_kernel_state_insecure ds cs as) (crypto_kernel_status m w)"
proof -
  obtain status w1 where w1: "test_rand_source w = Some (Return status w1)" "status \<in> {err_status_ok, err_status_algo_fail}" "knows w1 st ds cs as"
    using random_knows(3) [OF w] by (auto simp: returns_def)
  have "returns (\<lambda>status w'. status = err_status_ok \<and> knows w' st ds cs as) (and_then (retest_ciphers m cts w1) (retest_auths m ats))" for cts ats
    by (rule returns_ok_then [OF retest_knows(1) [OF m w1(3)] retest_knows(2) [OF m]])
  from this [of "map snd cs" "map snd as"] w1 w show ?thesis
    by (auto simp: crypto_kernel_status_def returns_def Let_def knows_def)
qed

lemma srtp_init_returns:
  assumes "stack_ok m" and "knows w crypto_kernel_state_insecure [] [] []"
  shows "returns (\<lambda>status w'. status = err_status_ok \<and> knows w' crypto_kernel_state_secure (mod_srtp # kernel_modules) cipher_types auth_types \<or>
      status = err_status_algo_fail \<and> knows w' crypto_kernel_state_insecure test_modules [] []) (srtp_init m w)"
  unfolding srtp_init_def
proof (rule returns_and_then [OF crypto_kernel_init_returns [OF assms]])
  fix w1 assume "init_result err_status_ok w1"
  then have "knows w1 crypto_kernel_state_secure kernel_modules cipher_types auth_types" by (simp add: init_result_def)
  from load_debug_knows [OF this, of mod_srtp]
  show "returns (\<lambda>status w'. status = err_status_ok \<and> knows w' crypto_kernel_state_secure (mod_srtp # kernel_modules) cipher_types auth_types \<or>
      status = err_status_algo_fail \<and> knows w' crypto_kernel_state_insecure test_modules [] []) (load_debug mod_srtp w1)"
    by (auto simp: debug_modules fresh_name_def same_name_def elim: returns_weaken)
qed (auto simp: init_result_def)

text \<open>Initialising the library again never succeeds: its debug module is registered.\<close>

lemma srtp_init_again:
  assumes "stack_ok m" "knows w crypto_kernel_state_secure (mod_srtp # kernel_modules) cipher_types auth_types"
  shows "\<exists>status w'. srtp_init m w = Some (Return status w') \<and> status \<in> {err_status_bad_param, err_status_algo_fail}"
proof -
  have "crypto_kernel_init m w = crypto_kernel_status m w" using assms(2) by (simp add: crypto_kernel_init_def knows_def)
  with crypto_kernel_status_returns [OF assms] obtain status w' where
    "crypto_kernel_init m w = Some (Return status w')" "status \<in> {err_status_ok, err_status_algo_fail}"
    "mod_srtp \<in> set (debug_module_list (kern w'))"
    by (auto simp: returns_def knows_def)
  moreover from this(3) have "load_debug mod_srtp w' = Some (Return err_status_bad_param w')"
    by (auto simp: load_debug_def crypto_kernel_load_debug_module_def same_name_def)
  ultimately show ?thesis by (auto simp: srtp_init_def)
qed

subsection \<open>Failed initialisations\<close>

lemma registered_refused: "dm \<in> set (debug_module_list (kern w)) \<Longrightarrow> load_debug dm w = Some (Return err_status_bad_param w)"
  by (auto simp: load_debug_def crypto_kernel_load_debug_module_def same_name_def)

lemma init_refused:
  "\<not> secure w \<Longrightarrow> mod_crypto_kernel \<in> set (debug_module_list (kern w)) \<Longrightarrow> crypto_kernel_init m w = Some (Return err_status_bad_param w)"
  by (simp add: crypto_kernel_init_def err_reporting_init_def registered_refused)

text \<open>After the first module, a failure of the initialisation leaves the kernel insecure and loses no registration.\<close>

lemma init_tail_keeps:
  assumes "\<not> secure w"
  shows "keeps (\<lambda>status w'. status \<noteq> err_status_ok \<longrightarrow> grows (kern w) (kern w'))
    (and_then (load_debug mod_auth w) (\<lambda>w.
        and_then (load_debug mod_cipher w) (\<lambda>w.
        and_then (load_debug mod_stat w) (\<lambda>w.
        and_then (load_debug mod_alloc w) (\<lambda>w.
        and_then (start_rand_source w) (\<lambda>w.
        and_then (test_rand_source w) (\<lambda>w.
        and_then (start_prng w) (\<lambda>w.
        and_then (test_prng w) (\<lambda>w.
        and_then (crypto_kernel_load_cipher_type m (Some null_cipher) NULL_CIPHER w) (\<lambda>w.
        and_then (crypto_kernel_load_cipher_type m (Some aes_icm) AES_128_ICM w) (\<lambda>w.
        and_then (crypto_kernel_load_cipher_type m (Some aes_cbc) AES_128_CBC w) (\<lambda>w.
        and_then (crypto_kernel_load_auth_type m (Some null_auth) NULL_AUTH w) (\<lambda>w.
        and_then (crypto_kernel_load_auth_type m (Some hmac) HMAC_SHA1 w) set_secure)))))))))))))"
proof -
  let ?Q = "\<lambda>status w'. status \<noteq> err_status_ok \<longrightarrow> grows (kern w) (kern w')"
  have Q: "?Q status w'" if "grows (kern w) (kern w')" for status w' using that by simp
  have secure: "keeps ?Q (set_secure w')" for w' by (simp add: set_secure_def keeps_def)
  have "grows (kern w) (kern w)" "has_types (kern w) {} {}" "level 0 w" by (simp_all add: has_types_def level_def)
  then show ?thesis
    by - ((rule stage_then, rule stages, (assumption+)?)+, rule secure, (erule Q)+)
qed

lemma init_failed:
  assumes "kernel_start w" "crypto_kernel_init m w = Some (Return status w')" "status \<noteq> err_status_ok"
  shows "malloc_ok (kheap w) (mallocs (kheap w)) \<Longrightarrow> \<not> secure w' \<and> mod_crypto_kernel \<in> set (debug_module_list (kern w'))"
    and "\<not> malloc_ok (kheap w) (mallocs (kheap w)) \<Longrightarrow> status = err_status_alloc_fail \<and> kernel_start w'"
proof -
  note start = assms(1) [unfolded kernel_start_def]
  note init = assms(2) [unfolded crypto_kernel_init_def]
  show "status = err_status_alloc_fail \<and> kernel_start w'" if "\<not> malloc_ok (kheap w) (mallocs (kheap w))"
    using init that start by (auto simp: err_reporting_init_def load_debug_def crypto_kernel_load_debug_module_def crypto_alloc_def kernel_start_def)
  assume "malloc_ok (kheap w) (mallocs (kheap w))"
  then obtain w1 where w1: "load_debug mod_crypto_kernel w = Some (Return err_status_ok w1)"
      "kern w1 = (kern w)\<lparr>debug_module_list := [mod_crypto_kernel]\<rparr>"
    using start by (auto simp: load_debug_def crypto_kernel_load_debug_module_def crypto_alloc_def)
  have "\<not> secure w1" using w1(2) start by simp
  have "grows (kern w1) (kern w')" using keepsD [OF init_tail_keeps [OF \<open>\<not> secure w1\<close>, of m], of status w'] init w1(1) start assms(3)
    by (simp add: err_reporting_init_def)
  then show "\<not> secure w' \<and> mod_crypto_kernel \<in> set (debug_module_list (kern w'))" using w1(2) start by (auto simp: grows_def)
qed

lemma keeps_ok_last:
  "(\<And>w. keeps (\<lambda>status w'. status = err_status_ok \<longrightarrow> P w') (f w)) \<Longrightarrow> keeps (\<lambda>status w'. status = err_status_ok \<longrightarrow> P w') (and_then r f)"
  by (rule keeps_and_then [where P = "\<lambda>_ _. True"]) (auto simp: keeps_def)

lemma init_ok_secure: "crypto_kernel_init m w = Some (Return err_status_ok w') \<Longrightarrow> secure w'"
proof -
  assume i: "crypto_kernel_init m w = Some (Return err_status_ok w')"
  have last: "keeps (\<lambda>status w'. status = err_status_ok \<longrightarrow> secure w') (set_secure w)" for w by (simp add: set_secure_def keeps_def)
  show "secure w'"
  proof (cases "secure w")
    case True
    with i have "crypto_kernel_status m w = Some (Return err_status_ok w')" by (simp add: crypto_kernel_init_def)
    then obtain w1 cts ats where "test_rand_source w = Some (Return err_status_ok w1)"
        "and_then (retest_ciphers m cts w1) (retest_auths m ats) = Some (Return err_status_ok w')"
      by (auto simp: crypto_kernel_status_def Let_def split: option.splits outcome.splits if_splits)
    then show ?thesis using True keepsD [OF random_keeps(1)] retest_kern by metis
  next
    case False
    have "keeps (\<lambda>status w'. status = err_status_ok \<longrightarrow> secure w') (crypto_kernel_init m w)"
      unfolding crypto_kernel_init_def using False by (simp del: and_then.simps) (rule keeps_ok_last | rule last)+
    with i show ?thesis by (simp add: keeps_def)
  qed
qed

lemma srtp_init_split:
  assumes "srtp_init m w = Some (Return err_status_ok w')"
  obtains w1 where "crypto_kernel_init m w = Some (Return err_status_ok w1)" "load_debug mod_srtp w1 = Some (Return err_status_ok w')"
  using assms unfolding srtp_init_def by (cases "(crypto_kernel_init m w, load_debug mod_srtp)" rule: and_then.cases) (auto split: if_splits)

lemma srtp_init_registers:
  assumes "srtp_init m w = Some (Return err_status_ok w')"
  shows "secure w' \<and> mod_srtp \<in> set (debug_module_list (kern w'))"
proof -
  obtain w1 where 1: "crypto_kernel_init m w = Some (Return err_status_ok w1)" "load_debug mod_srtp w1 = Some (Return err_status_ok w')"
    using assms by (rule srtp_init_split)
  then show ?thesis using init_ok_secure [OF 1(1)]
    by (auto simp: load_debug_def crypto_kernel_load_debug_module_def split: prod.splits if_splits option.splits)
qed

lemma srtp_init_registered:
  assumes "secure w" "mod_srtp \<in> set (debug_module_list (kern w))"
  shows "srtp_init m w \<noteq> Some (Return err_status_ok w')"
proof
  assume "srtp_init m w = Some (Return err_status_ok w')"
  then obtain w1 where 1: "crypto_kernel_init m w = Some (Return err_status_ok w1)" "load_debug mod_srtp w1 = Some (Return err_status_ok w')"
    by (rule srtp_init_split)
  have "level 0 w" by (simp add: level_def)
  from status_keeps [OF this, of m] 1(1) assms(1) have "mod_srtp \<in> set (debug_module_list (kern w1))"
    using assms(2) by (auto simp: keeps_def crypto_kernel_init_def)
  from registered_refused [OF this] 1(2) show False by simp
qed

subsection \<open>Properties\<close>

text \<open>
  C27: what initialisation does. From the start, with memory available, \<^verbatim>\<open>crypto_kernel_init\<close> always
  returns: either the kernel is secure and every cipher and authentication identifier leads to its
  type, or a statistical test of the random source has failed, the status says so, and the kernel is
  insecure and has no types. No self-test fails and none ends the process.
\<close>

theorem kernel_init_outcome:
  assumes "stack_ok m" and "kernel_start w" and "mem_ok (kheap w)"
  shows "\<exists>status w'. crypto_kernel_init m w = Some (Return status w') \<and>
    (status = err_status_ok \<and> kernel_state (kern w') = crypto_kernel_state_secure \<and>
       crypto_kernel_get_cipher_type (kern w') NULL_CIPHER = Some null_cipher \<and>
       crypto_kernel_get_cipher_type (kern w') AES_128_ICM = Some aes_icm \<and>
       crypto_kernel_get_cipher_type (kern w') AES_128_CBC = Some aes_cbc \<and>
       crypto_kernel_get_auth_type (kern w') NULL_AUTH = Some null_auth \<and>
       crypto_kernel_get_auth_type (kern w') HMAC_SHA1 = Some hmac \<or>
     status = err_status_algo_fail \<and> kernel_state (kern w') = crypto_kernel_state_insecure \<and>
       cipher_type_list (kern w') = [] \<and> auth_type_list (kern w') = [])"
  using crypto_kernel_init_returns [OF assms(1), of w] assms(2,3)
  by (auto simp: knows_def kernel_start_def returns_def init_result_def crypto_kernel_get_cipher_type_def crypto_kernel_get_auth_type_def)

definition example_stack :: stack where
  "example_stack = \<lparr>buffer_mem = replicate 128 0, stack_key = replicate 64 0, behind_mem = [0, 0], tag_mem = replicate 32 0\<rparr>"

definition example_kernel :: kernel_env where
  "example_kernel = \<lparr>kern = \<lparr>kernel_state = crypto_kernel_state_insecure, cipher_type_list = [], auth_type_list = [], debug_module_list = []\<rparr>,
     kheap = \<lparr>ciphers = (\<lambda>_. None), auths = (\<lambda>_. None), limits = (\<lambda>_. None), mallocs = 0, malloc_ok = (\<lambda>_. True),
       cipher_refs = (\<lambda>_. 0), auth_refs = (\<lambda>_. 0)\<rparr>,
     krng = \<lparr>dev_random_fdes = -1, c_rand = (\<lambda>n. n), rand_calls = 0\<rparr>,
     kprng = \<lparr>octet_count = 0, prng_state = \<lparr>icm_counter = zero_block, icm_offset = zero_block, keystream_buffer = zero_block,
         icm_expanded_key = [], bytes_in_buffer = 0\<rparr>, prng_rand = rand_source_get_octet_string\<rparr>\<rparr>"

lemma examples_ok: "stack_ok example_stack" "kernel_start example_kernel" "mem_ok (kheap example_kernel)"
  by (simp_all add: stack_ok_def example_stack_def kernel_start_def mem_ok_def example_kernel_def)

theorem kernel_init_outcome_witness:
  "\<exists>status w'. crypto_kernel_init example_stack example_kernel = Some (Return status w') \<and>
     (status = err_status_ok \<or> status = err_status_algo_fail)"
  using kernel_init_outcome [OF examples_ok] by blast

text \<open>
  C28: the invariant of the kernel. In every state that the calls of the kernel and of the SRTP library
  can reach from the start, whatever fails on the way, no identifier, type or module name is
  registered twice; in a secure state every identifier leads to its type, the random source is ready
  and the generator takes its keys from it; in an insecure state allocation is refused.
\<close>

theorem kernel_invariant:
  assumes "kernel_start w" and "kernel_step\<^sup>*\<^sup>* w w'"
  shows "distinct (map fst (cipher_type_list (kern w'))) \<and> distinct (map snd (cipher_type_list (kern w'))) \<and>
    distinct (map fst (auth_type_list (kern w'))) \<and> distinct (map snd (auth_type_list (kern w'))) \<and>
    distinct (map (take 64 \<circ> debug_name) (debug_module_list (kern w'))) \<and>
    (if kernel_state (kern w') = crypto_kernel_state_secure then
       crypto_kernel_get_cipher_type (kern w') NULL_CIPHER = Some null_cipher \<and>
       crypto_kernel_get_cipher_type (kern w') AES_128_ICM = Some aes_icm \<and>
       crypto_kernel_get_cipher_type (kern w') AES_128_CBC = Some aes_cbc \<and>
       crypto_kernel_get_auth_type (kern w') NULL_AUTH = Some null_auth \<and>
       crypto_kernel_get_auth_type (kern w') HMAC_SHA1 = Some hmac \<and>
       dev_random_fdes (krng w') \<ge> 0 \<and> prng_rand (kprng w') = rand_source_get_octet_string
     else
       (\<forall>tid n. fst (crypto_kernel_alloc_cipher (kern w') (kheap w') tid n) = err_status_init_fail) \<and>
       (\<forall>tid n t. fst (crypto_kernel_alloc_auth (kern w') (kheap w') tid n t) = err_status_init_fail))"
proof -
  have inv: "kernel_inv w'" using kernel_reachable_inv [OF assms(2) kernel_start_inv [OF assms(1)]] .
  then show ?thesis
    by (auto simp: kernel_inv_def lists_ok_def has_types_def level_def crypto_kernel_get_cipher_type_def crypto_kernel_get_auth_type_def
        crypto_kernel_alloc_cipher_def crypto_kernel_alloc_auth_def intro: map_of_is_SomeI)
qed

theorem kernel_invariant_witness:
  "\<exists>status w'. crypto_kernel_init example_stack example_kernel = Some (Return status w') \<and>
     (kernel_state (kern w') \<noteq> crypto_kernel_state_secure \<longrightarrow>
       fst (crypto_kernel_alloc_cipher (kern w') (kheap w') AES_128_ICM 30) = err_status_init_fail)"
proof -
  obtain status w' where r: "crypto_kernel_init example_stack example_kernel = Some (Return status w')"
    using crypto_kernel_init_returns [of example_stack example_kernel] examples_ok by (auto simp: returns_def knows_def kernel_start_def)
  then have "kernel_step\<^sup>*\<^sup>* example_kernel w'" by (auto intro: kernel_step.init)
  from kernel_invariant [OF examples_ok(2) this] r show ?thesis by (auto split: if_splits)
qed



text \<open>
  Shutdown. From every secure state that the calls can reach in a kernel that satisfies the
  invariant, \<^verbatim>\<open>srtp_deinit\<close> returns successfully to the state of the start, from which the kernel can
  be initialised again, and no memory object is touched; random octets are refused from then on.
\<close>

theorem kernel_shutdown_restarts:
  assumes "kernel_inv w" and "kernel_step\<^sup>*\<^sup>* w w'" and "kernel_state (kern w') = crypto_kernel_state_secure"
  shows "\<exists>w''. srtp_deinit w' = Some (Return err_status_ok w'') \<and> kernel_start w'' \<and> kheap w'' = kheap w' \<and>
    (\<forall>n. crypto_get_random w'' n = Some (err_status_fail, [], w''))"
proof -
  have "kernel_inv w'" using kernel_reachable_inv [OF assms(2,1)] .
  then have "source_ready (krng w')" using assms(3) by (simp add: kernel_inv_def level_def)
  then show ?thesis by (auto simp: srtp_deinit_def shutdown_simps kernel_start_def crypto_get_random_def Let_def)
qed

text \<open>The state that a successful initialisation leaves.\<close>

definition example_secure :: kernel_env where
  "example_secure = example_kernel\<lparr>kern := \<lparr>kernel_state = crypto_kernel_state_secure, cipher_type_list = cipher_types,
     auth_type_list = auth_types, debug_module_list = mod_srtp # kernel_modules\<rparr>,
     krng := \<lparr>dev_random_fdes = 17, c_rand = (\<lambda>n. n), rand_calls = 5032\<rparr>\<rparr>"

theorem kernel_shutdown_restarts_witness:
  "\<exists>w''. srtp_deinit example_secure = Some (Return err_status_ok w'') \<and> kernel_start w''"
proof -
  have "kernel_inv example_secure"
    by (simp add: kernel_inv_def lists_ok_def has_types_def level_def example_secure_def example_kernel_def debug_modules)
  moreover have "kernel_step\<^sup>*\<^sup>* example_secure example_secure" by simp
  moreover have "kernel_state (kern example_secure) = crypto_kernel_state_secure" by (simp add: example_secure_def)
  ultimately show ?thesis using kernel_shutdown_restarts by blast
qed

end
