(* ===== verification/Srtp_Jni.thy ===== *)
theory Srtp_Jni
  imports Simple_Rtp Kernel_Life
begin

text \<open>
  The native methods of the phone, \<^verbatim>\<open>srtp_jni.c\<close>: the global contexts, the initialisation of the
  sending and the receiving side, wrapping and unwrapping of packets and the clean-up. They compose
  the RTP headers, the crypto kernel and the SRTP sessions. The lemmas show what initialisation can
  return, that what one phone wraps the other unwraps, and what happens when a second call is
  started in the same process.
\<close>

subsection \<open>State\<close>

text \<open>
  A global pointer to a session handle: null, the handle it points to (\<open>None\<close> when that is not a live
  session), or freed.
\<close>

datatype handle = Null | Handle "srtp_ctx_t option" | Freed

text \<open>The globals, and the state of the library: its world, the random source and the generator.\<close>

record phone =
  rtpContext :: "rtp_context_t option"
  srtpContextSend :: handle
  srtpContextRecv :: handle
  payloadSize :: int
  rtpPacketSize :: int
  srtpPacketSize :: int
  lib :: world
  lib_rng :: rng
  lib_prng :: "rng ctr_prng_t"

text \<open>A call of a native method returns a number, or the process ends.\<close>

datatype jresult = Jexit err_status_t | Jreturn int phone

text \<open>
  The functions of the Java environment that the methods call: \<^verbatim>\<open>GetByteArrayRegion\<close> (array, start,
  length, buffer) gives the buffer after the call, \<^verbatim>\<open>GetPrimitiveArrayCritical\<close> the octets behind the
  returned pointer or null, and \<^verbatim>\<open>ReleasePrimitiveArrayCritical\<close> (array, octets, mode) the array after
  the call.
\<close>

record jnienv =
  GetByteArrayRegion :: "octets \<Rightarrow> nat \<Rightarrow> nat \<Rightarrow> octets \<Rightarrow> octets"
  GetPrimitiveArrayCritical :: "octets \<Rightarrow> octets option"
  ReleasePrimitiveArrayCritical :: "octets \<Rightarrow> octets \<Rightarrow> nat \<Rightarrow> octets"

text \<open>The documented behaviour of these functions, for a region inside the array and mode 0.\<close>

definition jni_contract :: "jnienv \<Rightarrow> bool" where
  "jni_contract env \<longleftrightarrow>
     (\<forall>a start len buf. start + len \<le> length a \<and> len \<le> length buf \<longrightarrow>
        GetByteArrayRegion env a start len buf = slice start len a @ drop len buf) \<and>
     (\<forall>a. GetPrimitiveArrayCritical env a \<in> {None, Some a}) \<and>
     (\<forall>a p. length p = length a \<longrightarrow> ReleasePrimitiveArrayCritical env a p 0 = p)"

definition jni_pins :: "jnienv \<Rightarrow> bool" where
  "jni_pins env \<longleftrightarrow> (\<forall>a. GetPrimitiveArrayCritical env a \<noteq> None)"

lemma jni_rules:
  "jni_contract env \<Longrightarrow> jni_pins env \<Longrightarrow> GetPrimitiveArrayCritical env a = Some a"
  "jni_contract env \<Longrightarrow> length p = length a \<Longrightarrow> ReleasePrimitiveArrayCritical env a p 0 = p"
  unfolding jni_contract_def jni_pins_def by blast+

text \<open>
  What a native call finds: the environment, uninitialised memory (the local variables of the
  self-tests and of the tag check, the key array and what lies behind it, the allocated RTP context) and
  the octets that \<^verbatim>\<open>/dev/urandom\<close> delivers.
\<close>

record native =
  jenv :: jnienv
  test_mem :: stack
  key_mem :: octets
  key_behind :: octets
  tag_stack :: "nat \<Rightarrow> u8"
  rtp_mem :: rtp_context_t
  urandom :: "nat \<Rightarrow> octets"

definition kernel_of :: "phone \<Rightarrow> kernel_env" where
  "kernel_of ph = \<lparr>kern = kernel (lib ph), kheap = mem (lib ph), krng = lib_rng ph, kprng = lib_prng ph\<rparr>"

definition put_kernel :: "kernel_env \<Rightarrow> phone \<Rightarrow> phone" where
  "put_kernel k ph = ph\<lparr>lib := (lib ph)\<lparr>kernel := kern k, mem := kheap k\<rparr>, lib_rng := krng k, lib_prng := kprng k\<rparr>"

subsection \<open>The native methods\<close>

abbreviation (input) SRTP_KEY_SIZE :: nat where "SRTP_KEY_SIZE \<equiv> 30"
abbreviation (input) KEY_SIZE :: nat where "KEY_SIZE \<equiv> 16"
abbreviation (input) SALT_SIZE :: nat where "SALT_SIZE \<equiv> 14"

text \<open>Key and salt copied into the local array.\<close>

definition local_key :: "native \<Rightarrow> octets \<Rightarrow> octets \<Rightarrow> octets" where
  "local_key nv keyByteArray saltByteArray =
     (let key = GetByteArrayRegion (jenv nv) keyByteArray 0 KEY_SIZE (key_mem nv)
      in take KEY_SIZE key @ GetByteArrayRegion (jenv nv) saltByteArray 0 SALT_SIZE (drop KEY_SIZE key))"

text \<open>The policy of a call; \<open>key\<close> is the memory from the key array on.\<close>

definition call_policy :: "u32 \<Rightarrow> octets \<Rightarrow> srtp_policy_t" where
  "call_policy theSsrc key = \<lparr>ssrc_type = ssrc_specific, ssrc_value = theSsrc,
     policy_rtp = crypto_policy_set_aes_cm_128_hmac_sha1_32\<lparr>p_sec_serv := sec_serv_conf_and_auth\<rparr>,
     policy_rtcp = crypto_policy_set_rtcp_default\<lparr>p_sec_serv := sec_serv_none\<rparr>, policy_key = Some key\<rparr>"

text \<open>The common end of both initialisations: a handle is allocated and a session is created in it.\<close>

definition create_session :: "world \<Rightarrow> srtp_policy_t \<Rightarrow> (int \<times> handle \<times> world) option" where
  "create_session w policy =
     (case crypto_alloc (mem w) of
        (None, h) \<Rightarrow> Some (69, Null, w\<lparr>mem := h\<rparr>)
      | (Some _, h) \<Rightarrow> map_option (\<lambda>(status, s, w). (err_code status, Handle s, w)) (srtp_create (w\<lparr>mem := h\<rparr>) [policy]))"

definition initSender ::
  "native \<Rightarrow> octets \<Rightarrow> octets \<Rightarrow> u32 \<Rightarrow> u32 \<Rightarrow> int \<Rightarrow> int \<Rightarrow> int \<Rightarrow> phone \<Rightarrow> jresult option" where
  "initSender nv keyByteArray saltByteArray codecType sampleCount payloadSizeInBytes rtpPacketSizeInBytes srtpPacketSizeInBytes ph =
     (let ph = ph\<lparr>payloadSize := payloadSizeInBytes, rtpPacketSize := rtpPacketSizeInBytes, srtpPacketSize := srtpPacketSizeInBytes\<rparr>;
          key = local_key nv keyByteArray saltByteArray
      in case initRtp (urandom nv) (rtp_mem nv) codecType sampleCount (mem (lib ph)) of
        None \<Rightarrow> None
      | Some (status, ctx, h) \<Rightarrow>
          (let ph = ph\<lparr>rtpContext := Some ctx, lib := (lib ph)\<lparr>mem := h\<rparr>\<rparr>
           in if status \<noteq> err_status_ok then Some (Jreturn (err_code status) ph)
           else case srtp_init (test_mem nv) (kernel_of ph) of
             None \<Rightarrow> None
           | Some (Exit status) \<Rightarrow> Some (Jexit status)
           | Some (Return status k) \<Rightarrow>
               (let ph = put_kernel k ph
                in if status \<noteq> err_status_ok then Some (Jreturn (err_code status) ph)
                else map_option (\<lambda>(code, s, w). Jreturn code (ph\<lparr>srtpContextSend := s, lib := w\<rparr>))
                       (create_session (lib ph) (call_policy (mSsrc ctx) (key @ key_behind nv))))))"

definition getSsrc :: "phone \<Rightarrow> u32 option" where
  "getSsrc ph = map_option mSsrc (rtpContext ph)"

definition initReceiver :: "native \<Rightarrow> u32 \<Rightarrow> octets \<Rightarrow> octets \<Rightarrow> phone \<Rightarrow> jresult option" where
  "initReceiver nv theSsrc keyByteArray saltByteArray ph =
     map_option (\<lambda>(code, s, w). Jreturn code (ph\<lparr>srtpContextRecv := s, lib := w\<rparr>))
       (create_session (lib ph) (call_policy theSsrc (local_key nv keyByteArray saltByteArray @ key_behind nv)))"

text \<open>A session behind a handle is deallocated; the handle keeps the dead pointer.\<close>

fun dealloc_handle :: "handle \<Rightarrow> world \<Rightarrow> (err_status_t \<times> handle \<times> world) option" where
  "dealloc_handle (Handle (Some s)) w = map_option (\<lambda>(status, w). (status, Handle None, w)) (srtp_dealloc w s)"
| "dealloc_handle _ w = None"

definition deinit :: "phone \<Rightarrow> jresult option" where
  "deinit ph =
     (case dealloc_handle (srtpContextSend ph) (lib ph) of
        None \<Rightarrow> None
      | Some (status, s, w) \<Rightarrow>
          (let ph = ph\<lparr>srtpContextSend := s, lib := w\<rparr>
           in if status \<noteq> err_status_ok then Some (Jreturn (err_code status) ph)
           else case dealloc_handle (srtpContextRecv ph) (lib ph) of
             None \<Rightarrow> None
           | Some (status, s, w) \<Rightarrow>
               (let ph = ph\<lparr>srtpContextRecv := s, lib := w\<rparr>
                in if status \<noteq> err_status_ok then Some (Jreturn (err_code status) ph)
                else case srtp_deinit (kernel_of ph) of
                  None \<Rightarrow> None
                | Some (Exit status) \<Rightarrow> Some (Jexit status)
                | Some (Return status k) \<Rightarrow>
                    (let ph = put_kernel k ph
                     in if status \<noteq> err_status_ok then Some (Jreturn (err_code status) ph)
                     else Some (Jreturn (err_code status) (ph\<lparr>srtpContextSend := Freed, srtpContextRecv := Freed\<rparr>))))))"

text \<open>The result is the number, the Java array after the call, and the state.\<close>

definition wrapPayloadNative :: "native \<Rightarrow> octets \<Rightarrow> phone \<Rightarrow> (int \<times> octets \<times> phone) option" where
  "wrapPayloadNative nv pkt ph =
     (case GetPrimitiveArrayCritical (jenv nv) pkt of
        None \<Rightarrow> Some (1, pkt, ph)
      | Some packetNative \<Rightarrow>
          (case (Option.bind (rtpContext ph) (\<lambda>ctx. getNextPacketHeader ctx packetNative), srtpContextSend ph) of
             (Some (ctx, packetNative), Handle (Some s)) \<Rightarrow>
               map_option (\<lambda>(status, st). (err_code status, ReleasePrimitiveArrayCritical (jenv nv) pkt (packet st) 0,
                   ph\<lparr>rtpContext := Some ctx, srtpContextSend := Handle (Some (session st)), lib := wld st\<rparr>))
                 (srtp_protect \<lparr>session = s, wld = lib ph, packet = packetNative, pkt_octet_len = rtpPacketSize ph\<rparr>)
           | _ \<Rightarrow> None))"

definition unwrapPacketNative :: "native \<Rightarrow> octets \<Rightarrow> phone \<Rightarrow> (int \<times> octets \<times> phone) option" where
  "unwrapPacketNative nv pkt ph =
     (case GetPrimitiveArrayCritical (jenv nv) pkt of
        None \<Rightarrow> Some (1, pkt, ph)
      | Some packetNative \<Rightarrow>
          (case srtpContextRecv ph of
             Handle (Some s) \<Rightarrow>
               map_option (\<lambda>(status, st). (err_code status, ReleasePrimitiveArrayCritical (jenv nv) pkt (packet st) 0,
                   ph\<lparr>srtpContextRecv := Handle (Some (session st)), lib := wld st\<rparr>))
                 (srtp_unprotect (tag_stack nv) \<lparr>session = s, wld = lib ph, packet = packetNative, pkt_octet_len = srtpPacketSize ph\<rparr>)
           | _ \<Rightarrow> None))"

subsection \<open>Wrapping and unwrapping one packet\<close>

definition side :: "handle \<Rightarrow> world \<Rightarrow> addr \<Rightarrow> stream_view \<Rightarrow> bool" where
  "side hdl w a v \<longleftrightarrow> (\<exists>s. hdl = Handle (Some s) \<and> endpoint (start_state s w) a v)"

lemma side_of_endpoint: "endpoint st a v \<Longrightarrow> side (Handle (Some (session st))) (wld st) a v"
  by (simp add: side_def endpoint_def start_state_def)

lemma loaded: "\<lparr>session = s, wld = w, packet = pkt, pkt_octet_len = n\<rparr> = load_packet pkt n (start_state s w)"
  by (simp add: load_packet_def start_state_def)

text \<open>The message that the next wrapped array holds.\<close>

definition next_message :: "rtp_context_t \<Rightarrow> nat \<Rightarrow> octets \<Rightarrow> octets" where
  "next_message ctx n arr = header_octets (advanced 1 ctx) @ slice 12 (n - 12) arr"

text \<open>A context of the sender whose headers belong to the stream.\<close>

definition writes_for :: "stream_view \<Rightarrow> rtp_context_t \<Rightarrow> bool" where
  "writes_for v ctx \<longleftrightarrow> v_ssrc v = htonl (mSsrc ctx) \<and> (\<exists>ct :: u8. mCodecMagic ctx = codec_magic (ucast ct)) \<and> v_tag_len v \<le> 12"

lemma next_message_rtp:
  assumes "writes_for v ctx" "12 \<le> n" "n \<le> 65500" "n \<le> length arr"
  shows "rtp_message v 12 (next_message ctx n arr)" "ntohs (hdr_seq (next_message ctx n arr)) = mSequence ctx + 1"
    "length (next_message ctx n arr) = n"
proof -
  obtain ct :: u8 where "mCodecMagic (advanced 1 ctx) = codec_magic (ucast ct)" using assms(1) by (auto simp: writes_for_def)
  note h = header_read [OF this]
  show "length (next_message ctx n arr) = n" using assms by (simp add: next_message_def slice_def)
  then show "rtp_message v 12 (next_message ctx n arr)" "ntohs (hdr_seq (next_message ctx n arr)) = mSequence ctx + 1"
    using assms h by (simp_all add: rtp_message_def writes_for_def next_message_def)
qed

lemma wrap_unwrap:
  assumes env: "jni_contract (jenv na)" "jni_pins (jenv na)" "jni_contract (jenv nb)" "jni_pins (jenv nb)"
    and a: "side (srtpContextSend pa) (lib pa) a v" "rtpContext pa = Some ctx" "rtpPacketSize pa = int n"
    and b: "side (srtpContextRecv pb) (lib pb) b v'" "srtpPacketSize pb = int n + int (v_overhead v)"
    and v: "peers v v'" "v_auth v" "writes_for v ctx" "key_usable v" "key_usable v'"
    and len: "12 \<le> n" "n \<le> 65500" "length arr = n + v_overhead v"
    and i: "send_index v (next_message ctx n arr) i d r" "send_index v' (next_message ctx n arr) i d' r'"
  shows "\<exists>pkt out pa' pb'. wrapPayloadNative na arr pa = Some (0, pkt, pa') \<and> unwrapPacketNative nb pkt pb = Some (0, out, pb') \<and>
    length pkt = length arr \<and> take n out = next_message ctx n arr \<and>
    side (srtpContextSend pa') (lib pa') a (after_packet v r) \<and> side (srtpContextRecv pb') (lib pb') b (after_packet v' r') \<and>
    rtpContext pa' = Some (advanced 1 ctx) \<and> rtpPacketSize pa' = rtpPacketSize pa \<and> srtpPacketSize pb' = srtpPacketSize pb \<and>
    payloadSize pb' = payloadSize pb"
proof -
  let ?msg = "next_message ctx n arr" and ?room = "drop n arr"
  obtain s where s: "srtpContextSend pa = Handle (Some s)" "endpoint (start_state s (lib pa)) a v" using a(1) by (auto simp: side_def)
  obtain s' where s': "srtpContextRecv pb = Handle (Some s')" "endpoint (start_state s' (lib pb)) b v'" using b(1) by (auto simp: side_def)
  note m = next_message_rtp [OF v(3) len(1,2), of arr]
  have arr: "header_octets (advanced 1 ctx) @ drop 12 arr = ?msg @ ?room"
    using len by (simp add: next_message_def slice_def) (metis append_take_drop_id drop_drop le_add_diff_inverse2)
  obtain tx' rx' where tx: "srtp_protect (load_packet (?msg @ ?room) (int (length ?msg)) (start_state s (lib pa))) = Some (err_status_ok, tx')"
      "pkt_octet_len tx' = int (length ?msg + v_overhead v)" "length (packet tx') = length (?msg @ ?room)"
    and rx: "srtp_unprotect (tag_stack nb) (load_packet (packet tx') (pkt_octet_len tx') (start_state s' (lib pb))) = Some (err_status_ok, rx')"
      "packet rx' = ?msg @ drop (length ?msg) (packet tx')"
    and e: "endpoint tx' a (after_packet v r)" "endpoint rx' b (after_packet v' r')"
    using one_packet [OF s(2) s'(2) v(1) m(1) _ _ i v(4,5), of ?room "tag_stack nb"] v(2) len by auto
  have "GetPrimitiveArrayCritical (jenv na) arr = Some arr" "GetPrimitiveArrayCritical (jenv nb) (packet tx') = Some (packet tx')"
    using env by (simp_all add: jni_rules)
  moreover have "ReleasePrimitiveArrayCritical (jenv na) arr (packet tx') 0 = packet tx'"
    "ReleasePrimitiveArrayCritical (jenv nb) (packet tx') (packet rx') 0 = packet rx'"
    using env tx rx len m by (simp_all add: jni_rules)
  ultimately have w: "wrapPayloadNative na arr pa = Some (0, packet tx',
        pa\<lparr>rtpContext := Some (advanced 1 ctx), srtpContextSend := Handle (Some (session tx')), lib := wld tx'\<rparr>)"
    and u: "unwrapPacketNative nb (packet tx') pb = Some (0, packet rx',
        pb\<lparr>srtpContextRecv := Handle (Some (session rx')), lib := wld rx'\<rparr>)"
    using s(1) s'(1) tx rx(1) a(2,3) b(2) len m(3)
    by (simp_all add: wrapPayloadNative_def unwrapPacketNative_def getNextPacketHeader_eq arr loaded del: One_nat_def)
  show ?thesis unfolding w using u tx(3) rx(2) len m(3) e [THEN side_of_endpoint] by simp
qed

subsection \<open>A conversation\<close>

text \<open>
  One direction of a call as the threads \<^verbatim>\<open>SrtpWrapper\<close> and \<^verbatim>\<open>SrtpUnwrapper\<close> run it over a stream that loses
  nothing: every payload is written into the packet array behind the header, wrapped in place, sent,
  unwrapped, and read out again. \<open>None\<close>: a method failed.
\<close>

fun talk :: "native \<Rightarrow> native \<Rightarrow> octets \<Rightarrow> phone \<Rightarrow> phone \<Rightarrow> octets list \<Rightarrow> (octets list \<times> phone \<times> phone) option" where
  "talk na nb arr pa pb [] = Some ([], pa, pb)"
| "talk na nb arr pa pb (p # ps) =
     (case wrapPayloadNative na (write_at 12 p arr) pa of
        Some (code, pkt, pa) \<Rightarrow>
          (if code \<noteq> 0 then None
           else case unwrapPacketNative nb pkt pb of
             Some (code, out, pb) \<Rightarrow>
               (if code \<noteq> 0 then None
                else map_option (\<lambda>(outs, ends). (slice 12 (nat (payloadSize pb)) out # outs, ends)) (talk na nb pkt pa pb ps))
           | None \<Rightarrow> None)
      | None \<Rightarrow> None)"

lemma read_payload:
  assumes "take n out = next_message ctx n (write_at 12 p arr)" "12 + length p \<le> n" "n \<le> length arr"
  shows "slice 12 (length p) out = p"
proof -
  have "slice 12 (length p) out = slice 12 (length p) (take n out)" using assms(2) by (simp add: slice_def drop_take min_def)
  also have "\<dots> = slice 0 (length p) (slice 12 (n - 12) (write_at 12 p arr))" unfolding assms(1) by (simp add: next_message_def slice_def)
  also have "\<dots> = p" using assms(2,3) by (simp add: slice_def write_at_def min_def)
  finally show ?thesis .
qed

lemma talk_step:
  assumes "wrapPayloadNative na (write_at 12 p arr) pa = Some (0, pkt, pa')" "unwrapPacketNative nb pkt pb = Some (0, out, pb')"
    and "take n out = next_message ctx n (write_at 12 p arr)" "12 + length p \<le> n" "n \<le> length arr" "payloadSize pb' = int (length p)"
    and "talk na nb pkt pa' pb' ps = Some (ps, ends)"
  shows "talk na nb arr pa pb (p # ps) = Some (p # ps, ends)"
  using assms read_payload [OF assms(3-5)] by simp

text \<open>The two ends in the middle of a call: same index at both ends, and the next header follows it.\<close>

definition in_call :: "native \<Rightarrow> native \<Rightarrow> nat \<Rightarrow> nat \<Rightarrow> nat \<Rightarrow> addr \<Rightarrow> addr \<Rightarrow> stream_view \<Rightarrow> stream_view \<Rightarrow> phone \<Rightarrow> phone \<Rightarrow> bool" where
  "in_call na nb n len left a b v v' pa pb \<longleftrightarrow>
     jni_contract (jenv na) \<and> jni_pins (jenv na) \<and> jni_contract (jenv nb) \<and> jni_pins (jenv nb) \<and>
     side (srtpContextSend pa) (lib pa) a v \<and> side (srtpContextRecv pb) (lib pb) b v' \<and> peers v v' \<and> v_auth v \<and>
     (\<exists>ctx. rtpContext pa = Some ctx \<and> writes_for v ctx) \<and>
     rtpPacketSize pa = int n \<and> srtpPacketSize pb = int n + int (v_overhead v) \<and> payloadSize pb = int len \<and>
     12 + len \<le> n \<and> n \<le> 65500 \<and>
     left + 1 < unat (num_left (v_limit v)) \<and> left + 1 < unat (num_left (v_limit v'))"

lemma in_call_step:
  assumes "in_call na nb n (length p) (Suc left) a b v v' pa pb" "rtpContext pa = Some ctx" "length arr = n + v_overhead v"
    and "send_index v (next_message ctx n (write_at 12 p arr)) i d r" "send_index v' (next_message ctx n (write_at 12 p arr)) i d' r'"
  shows "\<exists>pkt pa' pb'. in_call na nb n (length p) left a b (after_packet v r) (after_packet v' r') pa' pb' \<and> length pkt = length arr \<and>
    rtpContext pa' = Some (advanced 1 ctx) \<and>
    (\<forall>ps ends. talk na nb pkt pa' pb' ps = Some (ps, ends) \<longrightarrow> talk na nb arr pa pb (p # ps) = Some (p # ps, ends))"
proof -
  let ?arr = "write_at 12 p arr"
  note c = assms(1) [unfolded in_call_def]
  have n: "12 \<le> n" "length ?arr = length arr" using c assms(3) by (simp_all add: length_write_at)
  have u: "Suc left + 1 < unat (num_left (v_limit v))" "Suc left + 1 < unat (num_left (v_limit v'))" using c by auto
  note k = usable_step [OF u(1)] usable_step [OF u(2)]
  have w: "writes_for v ctx" using c assms(2) by auto
  obtain pkt out pa' pb' where r: "wrapPayloadNative na ?arr pa = Some (0, pkt, pa')" "unwrapPacketNative nb pkt pb = Some (0, out, pb')"
      "length pkt = length ?arr" "take n out = next_message ctx n ?arr"
      "side (srtpContextSend pa') (lib pa') a (after_packet v r)" "side (srtpContextRecv pb') (lib pb') b (after_packet v' r')"
      "rtpContext pa' = Some (advanced 1 ctx)" "rtpPacketSize pa' = rtpPacketSize pa" "srtpPacketSize pb' = srtpPacketSize pb"
      "payloadSize pb' = payloadSize pb"
    using wrap_unwrap [of na nb pa a v ctx n pb b v' ?arr i d r d' r'] c w k assms(2-5) n by (auto simp: key_usable_def)
  have "peers (after_packet v r) (after_packet v' r')" using c peers_after by blast
  moreover have "writes_for (after_packet v r) (advanced 1 ctx)" using w by (simp add: writes_for_def)
  ultimately have "in_call na nb n (length p) left a b (after_packet v r) (after_packet v' r') pa' pb'"
    using c r u k by (simp add: in_call_def) linarith
  moreover have "talk na nb arr pa pb (p # ps) = Some (p # ps, ends)" if "talk na nb pkt pa' pb' ps = Some (ps, ends)" for ps ends
    using talk_step [OF r(1,2,4) _ _ _ that] c assms(3) r(10) by simp
  ultimately show ?thesis using r(3,7) n by (intro exI [of _ pkt] exI [of _ pa'] exI [of _ pb']) simp
qed

lemma talk_delivers:
  assumes "in_call na nb n len (length ps) a b v v' pa pb" "length arr = n + v_overhead v" "\<forall>p \<in> set ps. length p = len"
    and "rdbx_index (v_rdbx v') = rdbx_index (v_rdbx v)" "rtpContext pa = Some ctx" "mSequence ctx = ucast (rdbx_index (v_rdbx v))"
    and "uint (rdbx_index (v_rdbx v)) + int (length ps) < 2 ^ 48"
  shows "\<exists>pa' pb'. talk na nb arr pa pb ps = Some (ps, pa', pb')"
  using assms
proof (induction ps arbitrary: pa pb v v' ctx arr)
  case (Cons p ps)
  let ?i = "rdbx_index (v_rdbx v) + 1" and ?msg = "next_message ctx n (write_at 12 p arr)"
  have len: "length p = len" using Cons.prems(3) by simp
  have c: "in_call na nb n (length p) (Suc (length ps)) a b v v' pa pb" using Cons.prems(1) len by simp
  have i: "uint ?i = uint (rdbx_index (v_rdbx v)) + 1" using Cons.prems(7) uint_add_lem [of "rdbx_index (v_rdbx v)" 1] by simp
  have "writes_for v ctx" using c Cons.prems(5) by (auto simp: in_call_def)
  then have "ntohs (hdr_seq ?msg) = ucast ?i"
    using next_message_rtp(2) [of v ctx n "write_at 12 p arr"] c Cons.prems(2,6) by (simp add: in_call_def length_write_at ucast_inc)
  then obtain d r d' r' where r: "send_index v ?msg ?i d r" "rdbx_index r = ?i" "send_index v' ?msg ?i d' r'" "rdbx_index r' = ?i"
    using forward_index [of ?msg ?i v] forward_index [of ?msg ?i v'] i Cons.prems(4,7) by auto
  obtain pkt pa' pb' where s: "in_call na nb n (length p) (length ps) a b (after_packet v r) (after_packet v' r') pa' pb'"
      "length pkt = length arr" "rtpContext pa' = Some (advanced 1 ctx)"
      "\<And>ps ends. talk na nb pkt pa' pb' ps = Some (ps, ends) \<Longrightarrow> talk na nb arr pa pb (p # ps) = Some (p # ps, ends)"
    using in_call_step [OF c Cons.prems(5,2) r(1,3)] by blast
  have "\<exists>pa'' pb''. talk na nb pkt pa' pb' ps = Some (ps, pa'', pb'')"
    using s Cons.prems r i len by (intro Cons.IH [of "after_packet v r" "after_packet v' r'" pa' pb' pkt "advanced 1 ctx"]) (simp_all add: ucast_inc)
  then show ?case using s(4) by blast
qed simp

text \<open>The first packet of a call may carry any number.\<close>

lemma talk_from_start:
  assumes "in_call na nb n len (length ps) a b v v' pa pb" "length arr = n + v_overhead v" "\<forall>p \<in> set ps. length p = len"
    and "v_rdbx v = rdbx_init" "v_rdbx v' = rdbx_init" "length ps < 2 ^ 47"
  shows "\<exists>pa' pb'. talk na nb arr pa pb ps = Some (ps, pa', pb')"
proof (cases ps)
  case (Cons p qs)
  obtain ctx where ctx: "rtpContext pa = Some ctx" "writes_for v ctx" using assms(1) by (auto simp: in_call_def)
  let ?msg = "next_message ctx n (write_at 12 p arr)" let ?i = "ucast (ntohs (hdr_seq ?msg)) :: u64"
  have c: "in_call na nb n (length p) (Suc (length qs)) a b v v' pa pb" using assms(1,3) Cons by simp
  have h: "ntohs (hdr_seq ?msg) = mSequence ctx + 1"
    using next_message_rtp(2) [of v ctx n "write_at 12 p arr"] c assms(2) ctx by (simp add: in_call_def length_write_at)
  obtain d r d' r' where r: "send_index v ?msg ?i d r" "rdbx_index r = ?i" "send_index v' ?msg ?i d' r'" "rdbx_index r' = ?i"
    using first_index [OF assms(4), of ?msg] first_index [OF assms(5), of ?msg] by blast
  obtain pkt pa' pb' where s: "in_call na nb n (length p) (length qs) a b (after_packet v r) (after_packet v' r') pa' pb'"
      "length pkt = length arr" "rtpContext pa' = Some (advanced 1 ctx)"
      "\<And>ps ends. talk na nb pkt pa' pb' ps = Some (ps, ends) \<Longrightarrow> talk na nb arr pa pb (p # ps) = Some (p # ps, ends)"
    using in_call_step [OF c ctx(1) assms(2) r(1,3)] by blast
  have i: "uint ?i < 65536" using uint_bounded [of "ntohs (hdr_seq ?msg)"] by (simp add: uint_up_ucast is_up)
  have "\<exists>pa'' pb''. talk na nb pkt pa' pb' qs = Some (qs, pa'', pb'')"
    using s assms Cons r i h by (intro talk_delivers [of na nb n "length p" qs a b "after_packet v r" "after_packet v' r'" pa' pb' pkt "advanced 1 ctx"]) simp_all
  then show ?thesis using s(4) Cons by blast
qed simp

subsection \<open>Initialisation\<close>

text \<open>The stream list of a session depends on the stream objects only.\<close>

lemma srtp_get_stream_kept: "srtp_get_stream (w\<lparr>kernel := k, mem := h\<rparr>) s x = srtp_get_stream w s x"
  unfolding srtp_get_stream_def by (rule find_stream_cong) simp

text \<open>Well-formed surroundings of a native call, and a process in which nothing was initialised yet.\<close>

definition native_ok :: "native \<Rightarrow> bool" where
  "native_ok nv \<longleftrightarrow> jni_contract (jenv nv) \<and> jni_pins (jenv nv) \<and> stack_ok (test_mem nv) \<and>
     length (key_mem nv) = SRTP_KEY_SIZE \<and> 2 \<le> length (key_behind nv)"

definition phone_start :: "phone \<Rightarrow> bool" where
  "phone_start ph \<longleftrightarrow> kernel_start (kernel_of ph) \<and> mem_ok (mem (lib ph))"

text \<open>The key memory that the library reads.\<close>

definition call_key :: "native \<Rightarrow> octets \<Rightarrow> octets \<Rightarrow> octets" where
  "call_key nv key salt = take KEY_SIZE key @ take SALT_SIZE salt @ key_behind nv"

lemma local_key_eq:
  assumes "native_ok nv" "KEY_SIZE \<le> length key" "SALT_SIZE \<le> length salt"
  shows "local_key nv key salt @ key_behind nv = call_key nv key salt"
  using assms by (simp add: local_key_def native_ok_def jni_contract_def call_key_def slice_def)

definition call_view :: "u32 \<Rightarrow> octets \<Rightarrow> stream_view" where
  "call_view theSsrc key = policy_view (call_policy theSsrc key) key"

lemma call_policy_standard:
  "native_ok nv \<Longrightarrow> KEY_SIZE \<le> length key \<Longrightarrow> SALT_SIZE \<le> length salt \<Longrightarrow>
     standard_policy (call_policy theSsrc (call_key nv key salt)) (call_key nv key salt)"
  by (simp add: standard_policy_def call_policy_def icm_hmac_def crypto_policy_set_aes_cm_128_hmac_sha1_32_def
      crypto_policy_set_rtcp_default_def call_key_def native_ok_def)

lemma call_view_simps [simp]:
  "v_auth (call_view theSsrc key)" "v_tag_len (call_view theSsrc key) = 4" "v_overhead (call_view theSsrc key) = 4"
  "v_rdbx (call_view theSsrc key) = rdbx_init" "v_ssrc (call_view theSsrc key) = htonl theSsrc"
  "v_limit (call_view theSsrc key) = \<lparr>num_left = 0xffffffffffff, key_state = key_state_normal\<rparr>"
  by (simp_all add: call_view_def policy_view_def call_policy_def v_auth_def v_overhead_def has_service_def
      crypto_policy_set_aes_cm_128_hmac_sha1_32_def)

lemma call_peers:
  assumes "native_ok nv" "native_ok nv'" "KEY_SIZE \<le> length key" "SALT_SIZE \<le> length salt"
  shows "peers (call_view theSsrc (call_key nv key salt)) (call_view theSsrc (call_key nv' key salt))"
  unfolding call_view_def
  by (rule policy_peers [OF call_policy_standard [OF assms(1,3,4)] call_policy_standard [OF assms(2,3,4)]])
    (use assms in \<open>simp_all add: call_key_def call_policy_def\<close>)

lemma create_session_ok:
  assumes "ready w" "standard_policy (call_policy theSsrc key) key"
  shows "\<exists>hdl w' a. create_session w (call_policy theSsrc key) = Some (0, hdl, w') \<and> side hdl w' a (call_view theSsrc key) \<and> ready w'"
proof -
  let ?w = "w\<lparr>mem := (mem w)\<lparr>mallocs := Suc (mallocs (mem w))\<rparr>\<rparr>"
  have w: "ready ?w" "crypto_alloc (mem w) = (Some (mallocs (mem w)), mem ?w)" using assms(1) by (simp_all add: ready_def crypto_alloc_def)
  from created_endpoint [OF w(1) assms(2)] obtain ctx w' a where
    "srtp_create ?w [call_policy theSsrc key] = Some (err_status_ok, Some ctx, w')" "endpoint (start_state ctx w') a (call_view theSsrc key)" "ready w'"
    by (auto simp: call_view_def)
  with w(2) show ?thesis by (auto simp: create_session_def side_def)
qed

text \<open>What the sender's initialisation leaves when it returns \<open>code\<close>.\<close>

definition sender_state :: "int \<Rightarrow> u8 \<Rightarrow> octets \<Rightarrow> phone \<Rightarrow> phone \<Rightarrow> bool" where
  "sender_state code ct key ph ph' \<longleftrightarrow>
     (\<exists>ctx. rtpContext ph' = Some ctx \<and> mCodecMagic ctx = codec_magic (ucast ct) \<and>
        (code = err_code err_status_algo_fail \<and> srtpContextSend ph' = srtpContextSend ph \<or>
         code = 0 \<and> ready (lib ph') \<and>
           (\<exists>a. side (srtpContextSend ph') (lib ph') a (call_view (mSsrc ctx) key))))"

lemma knows_ready:
  "knows k crypto_kernel_state_secure ds cipher_types auth_types \<Longrightarrow> ready (lib (put_kernel k ph))"
  by (simp add: knows_def ready_def put_kernel_def mem_ok_def crypto_kernel_get_cipher_type_def crypto_kernel_get_auth_type_def)

lemma initRtp_returns:
  "malloc_ok h (mallocs h) \<Longrightarrow>
   \<exists>ctx. initRtp rd old (ucast (ct :: u8)) count h = Some (err_status_ok, ctx, h\<lparr>mallocs := Suc (mallocs h)\<rparr>) \<and>
     mCodecMagic ctx = codec_magic (ucast ct)"
  by (simp add: initRtp_def crypto_alloc_def Let_def codec_magic_def)

lemma initSender_returns:
  assumes "native_ok nv" "phone_start ph" "KEY_SIZE \<le> length key" "SALT_SIZE \<le> length salt"
  shows "\<exists>code ph'. initSender nv key salt (ucast (ct :: u8)) count psize rsize ssize ph = Some (Jreturn code ph') \<and>
    payloadSize ph' = psize \<and> rtpPacketSize ph' = rsize \<and> srtpPacketSize ph' = ssize \<and>
    sender_state code ct (call_key nv key salt) ph ph'"
proof -
  let ?h = "mem (lib ph)"
  have ok: "malloc_ok ?h (mallocs ?h)" using assms(2) by (simp add: phone_start_def mem_ok_def)
  then obtain ctx where ctx: "initRtp (urandom nv) (rtp_mem nv) (ucast ct) count ?h = Some (err_status_ok, ctx, ?h\<lparr>mallocs := Suc (mallocs ?h)\<rparr>)"
      "mCodecMagic ctx = codec_magic (ucast ct)"
    using initRtp_returns by blast
  define ph1 where "ph1 = ph\<lparr>payloadSize := psize, rtpPacketSize := rsize, srtpPacketSize := ssize, rtpContext := Some ctx,
    lib := (lib ph)\<lparr>mem := ?h\<lparr>mallocs := Suc (mallocs ?h)\<rparr>\<rparr>\<rparr>"
  have "knows (kernel_of ph1) crypto_kernel_state_insecure [] [] []"
    using assms(2) mem_ok_later [of ?h "Suc (mallocs ?h)"] by (simp add: ph1_def knows_def kernel_of_def phone_start_def kernel_start_def)
  from srtp_init_returns [OF _ this, of "test_mem nv"] assms(1) obtain status k where k: "srtp_init (test_mem nv) (kernel_of ph1) = Some (Return status k)"
      "status = err_status_ok \<and> knows k crypto_kernel_state_secure (mod_srtp # kernel_modules) cipher_types auth_types \<or> status = err_status_algo_fail"
    by (auto simp: returns_def native_ok_def)
  note run = initSender_def Let_def ctx(1) local_key_eq [OF assms(1,3,4)] k(1) [unfolded ph1_def]
  show ?thesis
  proof (cases "status = err_status_ok")
    case True
    with k(2) have "ready (lib (put_kernel k ph1))" using knows_ready by auto
    from create_session_ok [OF this call_policy_standard [OF assms(1,3,4)]] obtain hdl w' a where
      "create_session (lib (put_kernel k ph1)) (call_policy (mSsrc ctx) (call_key nv key salt)) = Some (0, hdl, w')"
      "side hdl w' a (call_view (mSsrc ctx) (call_key nv key salt))" "ready w'" by blast
    then show ?thesis using ctx(2) True by (auto simp: run sender_state_def put_kernel_def ph1_def)
  next
    case False
    then have "status = err_status_algo_fail" using k(2) by simp
    then show ?thesis using ctx(2) by (simp add: run sender_state_def put_kernel_def)
  qed
qed

lemma initReceiver_returns:
  assumes "native_ok nv" "ready (lib ph)" "KEY_SIZE \<le> length key" "SALT_SIZE \<le> length salt"
  shows "\<exists>ph' b. initReceiver nv theSsrc key salt ph = Some (Jreturn 0 ph') \<and>
    side (srtpContextRecv ph') (lib ph') b (call_view theSsrc (call_key nv key salt)) \<and>
    payloadSize ph' = payloadSize ph \<and> srtpPacketSize ph' = srtpPacketSize ph"
  using create_session_ok [OF assms(2) call_policy_standard [OF assms(1,3,4)], of theSsrc]
  by (auto simp: initReceiver_def local_key_eq [OF assms(1,3,4)])

subsection \<open>Properties\<close>

text \<open>
  C1: a call. Two phones start from scratch. The caller initialises its sender, the callee its own sender
  and then its receiver with the SSRC, key and salt of the caller, as \<^verbatim>\<open>SrtpProtocol\<close> does. With memory
  available, every initialisation returns, and unless a statistical test of a random source has failed
  it returns zero. Then, whatever \<^verbatim>\<open>/dev/urandom\<close> and uninitialised memory held, every payload that the caller
  wraps is unwrapped by the callee to exactly the same octets, for up to \<open>2 ^ 47\<close> payloads and across all
  wrap-arounds of the sequence number.
\<close>

theorem phone_call_delivers:
  assumes nv: "native_ok na" "native_ok nb" "native_ok nr" "native_ok nw" "native_ok nu"
    and start: "phone_start pa" "phone_start pb"
    and key: "KEY_SIZE \<le> length ka" "SALT_SIZE \<le> length sa" "KEY_SIZE \<le> length kb" "SALT_SIZE \<le> length sb"
    and size: "12 + len \<le> n" "n \<le> 65500" "length arr = n + 4" and ps: "\<forall>p \<in> set ps. length p = len" "length ps < 2 ^ 47"
  shows "\<exists>ca pa1 cb pb1.
    initSender na ka sa (ucast (cta :: u8)) counta (int len) (int n) (int n + 4) pa = Some (Jreturn ca pa1) \<and>
    initSender nb kb sb (ucast (ctb :: u8)) countb (int len) (int n) (int n + 4) pb = Some (Jreturn cb pb1) \<and>
    ca \<in> {0, err_code err_status_algo_fail} \<and> cb \<in> {0, err_code err_status_algo_fail} \<and>
    (ca = 0 \<and> cb = 0 \<longrightarrow>
      (\<exists>theSsrc pb2 pa3 pb3. getSsrc pa1 = Some theSsrc \<and> initReceiver nr theSsrc ka sa pb1 = Some (Jreturn 0 pb2) \<and>
        talk nw nu arr pa1 pb2 ps = Some (ps, pa3, pb3)))"
proof -
  obtain ca pa1 where a: "initSender na ka sa (ucast cta) counta (int len) (int n) (int n + 4) pa = Some (Jreturn ca pa1)"
      "rtpPacketSize pa1 = int n" "sender_state ca cta (call_key na ka sa) pa pa1"
    using initSender_returns [OF nv(1) start(1) key(1,2)] by blast
  obtain cb pb1 where b: "initSender nb kb sb (ucast ctb) countb (int len) (int n) (int n + 4) pb = Some (Jreturn cb pb1)"
      "payloadSize pb1 = int len" "srtpPacketSize pb1 = int n + 4" "sender_state cb ctb (call_key nb kb sb) pb pb1"
    using initSender_returns [OF nv(2) start(2) key(3,4)] by blast
  have "\<exists>theSsrc pb2 pa3 pb3. getSsrc pa1 = Some theSsrc \<and> initReceiver nr theSsrc ka sa pb1 = Some (Jreturn 0 pb2) \<and>
      talk nw nu arr pa1 pb2 ps = Some (ps, pa3, pb3)" if z: "ca = 0" "cb = 0"
  proof -
    obtain ctx i where ctx: "rtpContext pa1 = Some ctx" "mCodecMagic ctx = codec_magic (ucast cta)"
        "side (srtpContextSend pa1) (lib pa1) i (call_view (mSsrc ctx) (call_key na ka sa))"
      using a(3) z(1) by (auto simp: sender_state_def)
    have "ready (lib pb1)" using b(4) z(2) by (auto simp: sender_state_def)
    then obtain pb2 j where r: "initReceiver nr (mSsrc ctx) ka sa pb1 = Some (Jreturn 0 pb2)"
        "side (srtpContextRecv pb2) (lib pb2) j (call_view (mSsrc ctx) (call_key nr ka sa))" "payloadSize pb2 = int len" "srtpPacketSize pb2 = int n + 4"
      using initReceiver_returns [OF nv(3) _ key(1,2)] b(2,3) by metis
    have "writes_for (call_view (mSsrc ctx) (call_key na ka sa)) ctx" using ctx(2) by (auto simp: writes_for_def)
    then have "in_call nw nu n len (length ps) i j (call_view (mSsrc ctx) (call_key na ka sa)) (call_view (mSsrc ctx) (call_key nr ka sa)) pa1 pb2"
      using nv(4,5) ctx(1,3) r a(2) size ps(2) call_peers [OF nv(1,3) key(1,2)] by (simp add: in_call_def native_ok_def)
    from talk_from_start [OF this] have "\<exists>pa3 pb3. talk nw nu arr pa1 pb2 ps = Some (ps, pa3, pb3)" using size(3) ps by simp
    then show ?thesis using ctx(1) r(1) by (auto simp: getSsrc_def)
  qed
  moreover have "ca \<in> {0, err_code err_status_algo_fail}" "cb \<in> {0, err_code err_status_algo_fail}"
    using a(3) b(4) by (auto simp: sender_state_def)
  ultimately show ?thesis using a(1) b(1) by blast
qed

definition example_native :: native where
  "example_native = \<lparr>jenv = \<lparr>GetByteArrayRegion = (\<lambda>a start len buf. slice start len a @ drop len buf),
       GetPrimitiveArrayCritical = Some, ReleasePrimitiveArrayCritical = (\<lambda>a p mode. p)\<rparr>,
     test_mem = example_stack, key_mem = replicate 30 0, key_behind = [0xAA, 0xBB], tag_stack = (\<lambda>_. 0),
     rtp_mem = \<lparr>mSampleCount = 0, mCodecMagic = 0, mSequence = 0, mTimestamp = 0, mSsrc = 0\<rparr>, urandom = (\<lambda>k. [1, 2, 3, 4])\<rparr>"

definition example_phone :: phone where
  "example_phone = \<lparr>rtpContext = None, srtpContextSend = Null, srtpContextRecv = Null, payloadSize = 0, rtpPacketSize = 0, srtpPacketSize = 0,
     lib = \<lparr>mem = kheap example_kernel, kernel = kern example_kernel, streams = (\<lambda>_. None), event_handler = False, events = []\<rparr>,
     lib_rng = krng example_kernel, lib_prng = kprng example_kernel\<rparr>"

lemma examples_well_formed: "native_ok example_native" "phone_start example_phone"
  using examples_ok
  by (auto simp: native_ok_def example_native_def jni_contract_def jni_pins_def phone_start_def kernel_start_def kernel_of_def example_phone_def)

theorem phone_call_delivers_witness:
  "\<exists>ca pa1 cb pb1.
    initSender example_native (replicate 16 1) (replicate 14 2) (ucast (7 :: u8)) 160 (int 7) (int 20) (int 20 + 4) example_phone = Some (Jreturn ca pa1) \<and>
    initSender example_native (replicate 16 3) (replicate 14 4) (ucast (7 :: u8)) 160 (int 7) (int 20) (int 20 + 4) example_phone = Some (Jreturn cb pb1) \<and>
    ca \<in> {0, err_code err_status_algo_fail} \<and> cb \<in> {0, err_code err_status_algo_fail} \<and>
    (ca = 0 \<and> cb = 0 \<longrightarrow>
      (\<exists>theSsrc pb2 pa3 pb3. getSsrc pa1 = Some theSsrc \<and>
        initReceiver example_native theSsrc (replicate 16 1) (replicate 14 2) pb1 = Some (Jreturn 0 pb2) \<and>
        talk example_native example_native (replicate 24 0) pa1 pb2 [replicate 7 9, replicate 7 8] = Some ([replicate 7 9, replicate 7 8], pa3, pb3)))"
  by (rule phone_call_delivers [OF examples_well_formed(1,1,1,1,1,2,2)]) simp_all

text \<open>
  C10: a second call in the same process. When the library is initialised already, \<^verbatim>\<open>initSender\<close> fails, because
  \<^verbatim>\<open>srtp_init\<close> does; but it has replaced the RTP context, while the SRTP session with the old key stays. If
  the new random SSRC is not one of that session, every later packet is refused for want of a context.
\<close>

theorem second_call_fails:
  assumes "native_ok nv" and lib: "knows (kernel_of ph) crypto_kernel_state_secure (mod_srtp # kernel_modules) cipher_types auth_types"
  shows "\<exists>code ph' ctx. initSender nv key salt (ucast (ct :: u8)) count psize rsize ssize ph = Some (Jreturn code ph') \<and>
    code \<in> {err_code err_status_bad_param, err_code err_status_algo_fail} \<and>
    srtpContextSend ph' = srtpContextSend ph \<and> rtpContext ph' = Some ctx \<and>
    (\<forall>s nv' pkt. srtpContextSend ph = Handle (Some s) \<and> stream_template s = None \<and>
        srtp_get_stream (lib ph) s (htonl (mSsrc ctx)) = Some None \<and> native_ok nv' \<and> 12 \<le> rsize \<and> 12 \<le> length pkt \<longrightarrow>
      (\<exists>out ph''. wrapPayloadNative nv' pkt ph' = Some (err_code err_status_no_ctx, out, ph'') \<and> srtpContextSend ph'' = srtpContextSend ph))"
proof -
  let ?h = "mem (lib ph)"
  have ok: "mem_ok ?h" using lib by (simp add: knows_def kernel_of_def)
  obtain ctx where ctx: "initRtp (urandom nv) (rtp_mem nv) (ucast ct) count ?h = Some (err_status_ok, ctx, ?h\<lparr>mallocs := Suc (mallocs ?h)\<rparr>)"
      "mCodecMagic ctx = codec_magic (ucast ct)"
    using initRtp_returns ok by (metis mem_ok_def)
  define ph1 where "ph1 = ph\<lparr>payloadSize := psize, rtpPacketSize := rsize, srtpPacketSize := ssize, rtpContext := Some ctx,
    lib := (lib ph)\<lparr>mem := ?h\<lparr>mallocs := Suc (mallocs ?h)\<rparr>\<rparr>\<rparr>"
  have "knows (kernel_of ph1) crypto_kernel_state_secure (mod_srtp # kernel_modules) cipher_types auth_types"
    using lib mem_ok_later [OF ok, of "Suc (mallocs ?h)"] by (simp add: ph1_def knows_def kernel_of_def)
  then obtain status k where k: "srtp_init (test_mem nv) (kernel_of ph1) = Some (Return status k)"
      "status \<in> {err_status_bad_param, err_status_algo_fail}"
    using srtp_init_again assms(1) unfolding native_ok_def by blast
  let ?ph = "put_kernel k ph1"
  have i: "initSender nv key salt (ucast ct) count psize rsize ssize ph = Some (Jreturn (err_code status) ?ph)"
    using k by (auto simp: initSender_def Let_def ctx(1) ph1_def)
  have w: "\<exists>out ph''. wrapPayloadNative nv' pkt ?ph = Some (err_code err_status_no_ctx, out, ph'') \<and> srtpContextSend ph'' = srtpContextSend ph"
    if z: "srtpContextSend ph = Handle (Some s)" "stream_template s = None" "srtp_get_stream (lib ph) s (htonl (mSsrc ctx)) = Some None"
      "native_ok nv'" "12 \<le> rsize" "12 \<le> length pkt" for s nv' pkt
  proof -
    let ?pkt = "header_octets (advanced 1 ctx) @ drop 12 pkt"
    have "mCodecMagic (advanced 1 ctx) = codec_magic (ucast ct)" using ctx(2) by simp
    then have "hdr_ssrc ?pkt = htonl (mSsrc ctx)" using header_read(2) [of "advanced 1 ctx" ct] by simp
    then have "srtp_protect \<lparr>session = s, wld = lib ?ph, packet = ?pkt, pkt_octet_len = rsize\<rparr> =
        Some (err_status_no_ctx, \<lparr>session = s, wld = lib ?ph, packet = ?pkt, pkt_octet_len = rsize\<rparr>)"
      using z by (intro srtp_unknown) (simp_all add: put_kernel_def ph1_def srtp_get_stream_kept)
    then show ?thesis using z jni_rules(1) [of "jenv nv'" pkt]
      by (simp add: wrapPayloadNative_def getNextPacketHeader_eq native_ok_def put_kernel_def ph1_def del: One_nat_def)
  qed
  have "err_code status \<in> {err_code err_status_bad_param, err_code err_status_algo_fail}" using k(2) by auto
  moreover have "srtpContextSend ?ph = srtpContextSend ph" "rtpContext ?ph = Some ctx" by (simp_all add: put_kernel_def ph1_def)
  ultimately show ?thesis using i w by blast
qed

text \<open>A phone whose library is initialised, with a session for one SSRC.\<close>

definition example_busy :: phone where
  "example_busy = example_phone\<lparr>lib := (lib example_phone)\<lparr>kernel := kern example_secure\<rparr>, lib_rng := krng example_secure,
     srtpContextSend := Handle (Some \<lparr>stream_list = [], stream_template = None\<rparr>)\<rparr>"

theorem second_call_fails_witness:
  "\<exists>code ph' ctx. initSender example_native (replicate 16 1) (replicate 14 2) (ucast (7 :: u8)) 160 7 20 24 example_busy = Some (Jreturn code ph') \<and>
    code \<in> {2, 11} \<and> srtpContextSend ph' = srtpContextSend example_busy \<and> rtpContext ph' = Some ctx \<and>
    (\<exists>out ph''. wrapPayloadNative example_native (replicate 24 0) ph' = Some (13, out, ph''))"
proof -
  have k: "knows (kernel_of example_busy) crypto_kernel_state_secure (mod_srtp # kernel_modules) cipher_types auth_types"
    using examples_ok(3) by (simp add: knows_def kernel_of_def example_busy_def example_phone_def example_secure_def)
  have b: "srtpContextSend example_busy = Handle (Some \<lparr>stream_list = [], stream_template = None\<rparr>)" by (simp add: example_busy_def)
  have g: "srtp_get_stream (lib example_busy) \<lparr>stream_list = [], stream_template = None\<rparr> x = Some None" for x
    by (simp add: srtp_get_stream_def)
  obtain code ph' ctx where s:
    "initSender example_native (replicate 16 1) (replicate 14 2) (ucast (7 :: u8)) 160 7 20 24 example_busy = Some (Jreturn code ph')"
    "code \<in> {err_code err_status_bad_param, err_code err_status_algo_fail}" "srtpContextSend ph' = srtpContextSend example_busy" "rtpContext ph' = Some ctx"
    "\<And>s nv' pkt. srtpContextSend example_busy = Handle (Some s) \<Longrightarrow> stream_template s = None \<Longrightarrow>
        srtp_get_stream (lib example_busy) s (htonl (mSsrc ctx)) = Some None \<Longrightarrow> native_ok nv' \<Longrightarrow> 12 \<le> length pkt \<Longrightarrow>
      \<exists>out ph''. wrapPayloadNative nv' pkt ph' = Some (err_code err_status_no_ctx, out, ph'')"
    using second_call_fails [OF examples_well_formed(1) k, of "replicate 16 1" "replicate 14 2" 7 160 7 20 24] by fastforce
  have "\<exists>out ph''. wrapPayloadNative example_native (replicate 24 0) ph' = Some (err_code err_status_no_ctx, out, ph'')"
    by (rule s(5) [OF b _ g examples_well_formed(1)]) simp_all
  then show ?thesis using s(1-4) by auto
qed

end
