(* ===== verification/Srtcp.thy ===== *)
theory Srtcp
  imports Srtp_Session
begin

text \<open>
  What \<^verbatim>\<open>srtp_protect_rtcp\<close> and \<^verbatim>\<open>srtp_unprotect_rtcp\<close> of \<^verbatim>\<open>srtp/srtp.c\<close> promise: the view of the SRTCP side of a
  stream, the packet format with the trailer and the tag over it, that the two functions implement
  the format, and what a transcript of packets delivers. The streams authenticate with HMAC-SHA1, as
  every policy of the library with a tag does.
\<close>

subsection \<open>The view and the format\<close>

record rtcp_view =
  c_ssrc :: u32
  c_ckey :: stream_key
  c_akey :: octets
  c_tag_len :: nat
  c_conf :: bool
  c_rdb :: rdb_t

definition has_rtcp_view :: "world \<Rightarrow> addr \<Rightarrow> rtcp_view \<Rightarrow> bool" where
  "has_rtcp_view w a v \<longleftrightarrow>
     (\<exists>s c au. streams w a = Some s \<and> ssrc s = c_ssrc v \<and> has_service (rtcp_services s) sec_serv_conf = c_conf v \<and>
        rtcp_rdb s = c_rdb v \<and> ciphers (mem w) (rtcp_cipher s) = Some c \<and> cipher_keyed c (c_ckey v) \<and>
        auths (mem w) (rtcp_auth s) = Some au \<and> auth_keyed au (Some (c_akey v)) \<and> out_len au = int (c_tag_len v) \<and> prefix_len au = 0)"

definition c_iv :: "rtcp_view \<Rightarrow> u32 \<Rightarrow> v128_t" where
  "c_iv v i = rtcp_iv (c_ckey v \<noteq> No_Key) (c_ssrc v) i"

text \<open>Everything behind the header is encrypted; the trailer is the index with the encryption flag.\<close>

definition rtcp_body :: "rtcp_view \<Rightarrow> bool \<Rightarrow> u32 \<Rightarrow> octets \<Rightarrow> octets" where
  "rtcp_body v enc i msg = (if enc then crypt_at (c_ckey v) (c_iv v i) 0 8 (length msg - 8) msg else msg)"

definition rtcp_trailer :: "bool \<Rightarrow> u32 \<Rightarrow> octets" where
  "rtcp_trailer enc i = be32_bytes ((if enc then SRTCP_E_BIT else 0) OR i)"

definition rtcp_tag :: "rtcp_view \<Rightarrow> octets \<Rightarrow> octets" where
  "rtcp_tag v m = take (c_tag_len v) (auth_mac (Some (c_akey v)) m)"

definition rtcp_packet :: "rtcp_view \<Rightarrow> u32 \<Rightarrow> octets \<Rightarrow> octets" where
  "rtcp_packet v i msg = (let m = rtcp_body v (c_conf v) i msg @ rtcp_trailer (c_conf v) i in m @ rtcp_tag v m)"

definition rtcp_message :: "rtcp_view \<Rightarrow> octets \<Rightarrow> bool" where
  "rtcp_message v msg \<longleftrightarrow> 8 \<le> length msg \<and> length msg \<le> 65500 \<and> rtcp_hdr_ssrc msg = c_ssrc v \<and> 0 < c_tag_len v \<and> c_tag_len v \<le> 12"

lemma length_rtcp_body [simp]: "8 \<le> length msg \<Longrightarrow> length (rtcp_body v enc i msg) = length msg"
  by (simp add: rtcp_body_def)

lemma length_rtcp_trailer [simp]: "length (rtcp_trailer enc i) = 4"
  by (simp add: rtcp_trailer_def)

lemma length_rtcp_tag [simp]: "c_tag_len v \<le> 12 \<Longrightarrow> length (rtcp_tag v m) = c_tag_len v"
  by (simp add: rtcp_tag_def)

lemma length_rtcp_packet: "rtcp_message v msg \<Longrightarrow> length (rtcp_packet v i msg) = length msg + 4 + c_tag_len v"
  by (simp add: rtcp_packet_def rtcp_message_def Let_def)

lemma rtcp_body_twice: "8 \<le> length msg \<Longrightarrow> rtcp_body v enc i (rtcp_body v enc i msg) = msg"
  using crypt_at_twice [of 8 "length msg - 8" msg] by (simp add: rtcp_body_def)

lemma rtcp_hdr_cong: "take 8 x = take 8 y \<Longrightarrow> 8 \<le> length x \<Longrightarrow> 8 \<le> length y \<Longrightarrow> rtcp_hdr_ssrc x = rtcp_hdr_ssrc y"
  unfolding rtcp_hdr_ssrc_def by (metis (no_types) nth_take numeral_less_iff semiring_norm(76) semiring_norm(78) semiring_norm(80) semiring_norm(81))

lemma take_rtcp_body: "8 \<le> length msg \<Longrightarrow> take 8 (rtcp_body v enc i msg) = take 8 msg"
  by (simp add: rtcp_body_def crypt_at_def take_write_at slice_def)

lemma rtcp_packet_ssrc:
  assumes "rtcp_message v msg"
  shows "rtcp_hdr_ssrc (rtcp_body v enc i msg @ r) = c_ssrc v" "rtcp_hdr_ssrc (msg @ r) = c_ssrc v"
proof -
  note m = assms [unfolded rtcp_message_def]
  have "take 8 (rtcp_body v enc i msg @ r) = take 8 msg" using m by (simp add: take_rtcp_body)
  then have "rtcp_hdr_ssrc (rtcp_body v enc i msg @ r) = rtcp_hdr_ssrc msg" using m by (intro rtcp_hdr_cong) simp_all
  then show "rtcp_hdr_ssrc (rtcp_body v enc i msg @ r) = c_ssrc v" using m by simp
  have "rtcp_hdr_ssrc (msg @ r) = rtcp_hdr_ssrc msg" using m by (intro rtcp_hdr_cong) simp_all
  then show "rtcp_hdr_ssrc (msg @ r) = c_ssrc v" using m by simp
qed

text \<open>The trailer as a word in memory, and what the receiver reads from it.\<close>

lemma bswap32_or: "bswap32 (a OR b) = bswap32 a OR bswap32 b"
  by (rule bit_word_eqI) (auto simp: bswap32_def be32_of_def bit_le32_of bit_simps)

lemma bswap32_zero [simp]: "bswap32 0 = 0"
  by (simp add: bswap32_def be32_of_def le32_of_def)

lemma trailer_octets: "le32_bytes ((if enc then htonl SRTCP_E_BIT else 0) OR htonl i) = rtcp_trailer enc i"
proof -
  have "(if enc then htonl SRTCP_E_BIT else 0) OR htonl i = htonl ((if enc then SRTCP_E_BIT else 0) OR i)"
    by (cases enc) (simp_all only: if_True if_False bswap32_or bswap32_zero)
  then show ?thesis by (simp only: rtcp_trailer_def le32_bytes_bswap32)
qed

lemma bit_high_u32: "bit (0x80000000 :: u32) n \<longleftrightarrow> n = 31"
proof -
  have "(0x80000000 :: u32) = push_bit 31 1" by simp
  then show ?thesis by (simp only: bit_push_bit_iff bit_1_iff) (auto simp: bit_simps)
qed

lemma bit_low_u32: "bit (0x7fffffff :: u32) n \<longleftrightarrow> n < 31"
proof -
  have "(0x7fffffff :: u32) = mask 31" by (simp add: mask_eq_exp_minus_1)
  then show ?thesis by (simp only: bit_mask_iff) auto
qed

lemma index_no_e_bit: "srtcp_index i \<Longrightarrow> \<not> bit i 31"
proof -
  assume "srtcp_index i"
  then have "uint i div 2 ^ 31 = 0" by (intro div_pos_pos_trivial) simp_all
  then have "\<not> bit (uint i) 31" unfolding bit_iff_odd by (metis even_zero)
  then show ?thesis by (simp add: bit_uint_iff)
qed

lemma and_byte_bit: "x AND SRTCP_E_BYTE_BIT \<noteq> 0 \<longleftrightarrow> bit (x :: u8) 7"
  using and_exp_eq_0_iff_not_bit [of x 7] by simp

lemma bit_e_flag: "bit ((if enc then SRTCP_E_BIT else 0) OR i :: u32) n \<longleftrightarrow> enc \<and> n = 31 \<or> bit i n"
  by (cases enc) (simp_all only: if_True if_False bit_or_iff bit_high_u32 bit_0_eq bot_apply, simp_all)

lemma trailer_read:
  assumes "srtcp_index i"
  shows "(ucast (bswap32 ((if enc then SRTCP_E_BIT else 0) OR i)) :: u8) AND SRTCP_E_BYTE_BIT \<noteq> 0 \<longleftrightarrow> enc"
    "((if enc then SRTCP_E_BIT else 0) OR i) AND SRTCP_INDEX_MASK = i"
proof -
  note b = index_no_e_bit [OF assms]
  have "bit (bswap32 w) 7 \<longleftrightarrow> bit w 31" for w :: u32
    by (simp add: bswap32_def be32_of_def bit_le32_of bit_simps)
  then have "bit (ucast (bswap32 ((if enc then SRTCP_E_BIT else 0) OR i)) :: u8) 7 \<longleftrightarrow> enc"
    using b by (simp add: bit_ucast_iff bit_e_flag del: bit_numeral_word_iff)
  then show "(ucast (bswap32 ((if enc then SRTCP_E_BIT else 0) OR i)) :: u8) AND SRTCP_E_BYTE_BIT \<noteq> 0 \<longleftrightarrow> enc"
    unfolding and_byte_bit .
  show "((if enc then SRTCP_E_BIT else 0) OR i) AND SRTCP_INDEX_MASK = i"
  proof (rule bit_word_eqI)
    fix n assume "n < LENGTH(32)"
    then show "bit (((if enc then SRTCP_E_BIT else 0) OR i) AND SRTCP_INDEX_MASK) n \<longleftrightarrow> bit i n"
      using b unfolding bit_and_iff bit_low_u32 bit_e_flag by (cases "n = 31") auto
  qed
qed

subsection \<open>Running srtp_protect_rtcp\<close>

text \<open>
  Without a prefix the cipher writes no keystream, but clearing its buffer clears one octet, the first
  of the room for the tag.
\<close>

lemma cipher_output_none:
  assumes "cipher_at c k iv pos" "0 < length buf" "pos \<le> 0xffff"
  shows "\<exists>c'. cipher_output c buf 0 = Some (err_status_ok, c', 0 # drop 1 buf) \<and> cipher_at c' k iv pos"
proof -
  have "octet_string_set_to_zero buf (nat 0) = Some (0 # drop 1 buf)"
    using assms(2) by (simp add: octet_string_set_to_zero_eq Suc_le_eq)
  with cipher_encrypt_at [OF assms(1), of 0 "0 # drop 1 buf"] assms(3) show ?thesis
    unfolding cipher_output_def by (auto simp: ks_from_def xor_octets_def)
qed

lemma run_output_none:
  assumes "ciphers (mem (wld st)) p = Some c" "cipher_at c k iv pos" "off < length (packet st)" "pos \<le> 0xffff"
  shows "\<exists>c'. run_cipher_output p (int off) 0 st =
      Some (Inr err_status_ok, store_cipher p c' (st\<lparr>packet := write_at off [0] (packet st)\<rparr>)) \<and> cipher_at c' k iv pos"
proof -
  have "0 < length (drop off (packet st))" using assms(3) by simp
  from cipher_output_none [OF assms(2) this assms(4)] obtain c' where
    "cipher_output c (drop off (packet st)) 0 = Some (err_status_ok, c', 0 # drop 1 (drop off (packet st)))" "cipher_at c' k iv pos" by blast
  with assms(1) show ?thesis
    by (auto simp: run_cipher_output_def in_place_def seq_def the_cipher_def continue_def write_at_def add.commute)
qed

lemma auth_run_once:
  assumes "auth_keyed au k" "length x < 2 ^ 29 - 64" "out_len au \<le> 20"
  shows "\<exists>a1 au'. auth_start au = (err_status_ok, a1) \<and>
    auth_compute a1 x = (err_status_ok, au', take (nat (out_len au)) (auth_mac k x)) \<and>
    auth_keyed au' k \<and> out_len au' = out_len au \<and> prefix_len au' = prefix_len au"
  using auth_one_piece [OF assms] auth.start_holds [OF assms(1)] by (metis prod.collapse)

lemma run_rtcp_protect_tag:
  assumes "auths (mem (wld st)) (rtcp_auth s) = Some au" "auth_keyed au (Some (c_akey v))" "out_len au = int (c_tag_len v)" "c_tag_len v \<le> 12"
    and "n + c_tag_len v \<le> length (packet st)" "n \<le> 65504"
  shows "\<exists>au'. rtcp_protect_tag s (int n) st =
      Some (Inr (), store_auth (rtcp_auth s) au' (st\<lparr>packet := write_at n (rtcp_tag v (take n (packet st))) (packet st)\<rparr>)) \<and>
    auth_keyed au' (Some (c_akey v)) \<and> out_len au' = out_len au \<and> prefix_len au' = prefix_len au"
proof -
  have "length (take n (packet st)) < 2 ^ 29 - 64" "out_len au \<le> 20" using assms(3-6) by simp_all
  from auth_run_once [OF assms(2) this] obtain a1 au' where
    "auth_start au = (err_status_ok, a1)" "auth_compute a1 (take n (packet st)) = (err_status_ok, au', rtcp_tag v (take n (packet st)))"
    "auth_keyed au' (Some (c_akey v))" "out_len au' = out_len au" "prefix_len au' = prefix_len au"
    unfolding rtcp_tag_def assms(3) nat_int by blast
  then show ?thesis
    using assms by (auto simp: rtcp_protect_tag_def read_packet_ok write_packet_ok continue_def)
qed

lemma run_rtcp_next_index:
  assumes "streams (wld st) a = Some s" "rdb_increment (rtcp_rdb s) = (err_status_ok, r)"
  shows "rtcp_next_index a st = Some (Inr (window_start r), put_stream a (s\<lparr>rtcp_rdb := r\<rparr>) st)"
  using assms by (simp add: rtcp_next_index_def rdb_get_value_def continue_def)

text \<open>From the vector to the tag: the packet holds the message, the trailer and room for the tag.\<close>

lemma run_rtcp_crypto:
  assumes c: "ciphers (mem (wld st)) (rtcp_cipher s) = Some c" "cipher_keyed c (c_ckey v)"
    and au: "auths (mem (wld st)) (rtcp_auth s) = Some au" "auth_keyed au (Some (c_akey v))" "out_len au = int (c_tag_len v)"
    and pkt: "packet st = msg @ rtcp_trailer (c_conf v) i @ room" and msg: "rtcp_message v msg" and room: "c_tag_len v \<le> length room"
  defines "n \<equiv> length msg"
  shows "\<exists>st1 st2 st3 c' au'. rtcp_set_iv (rtcp_cipher s) i st = Some (Inr (), st1) \<and>
    run_cipher_output (rtcp_cipher s) (int n + 4) 0 st1 = Some (Inr err_status_ok, st2) \<and>
    crypt_payload (rtcp_cipher s) (if c_conf v then Some 8 else None) (word_of_int (int n - 8)) st2 = Some (Inr (), st3) \<and>
    rtcp_protect_tag s (int n + 4) st3 = Some (Inr (), store_auth (rtcp_auth s) au' (store_cipher (rtcp_cipher s) c'
        (st\<lparr>packet := rtcp_packet v i msg @ drop (c_tag_len v) room\<rparr>))) \<and>
    cipher_keyed c' (c_ckey v) \<and> auth_keyed au' (Some (c_akey v)) \<and> out_len au' = out_len au \<and> prefix_len au' = prefix_len au"
proof -
  note m = msg [unfolded rtcp_message_def]
  let ?q = "rtcp_cipher s" let ?k = "c_ckey v" let ?iv = "c_iv v i" let ?t = "rtcp_trailer (c_conf v) i" let ?b = "rtcp_body v (c_conf v) i msg"
  have n: "n + 4 = length (msg @ ?t)" "n + 4 < length (packet st)" "int n + 4 = int (n + 4)" "int n - 8 = int (n - 8)"
    using pkt room m by (auto simp: n_def)
  from run_rtcp_set_iv [OF c, of i] obtain c1 where
    1: "rtcp_set_iv ?q i st = Some (Inr (), store_cipher ?q c1 st)" and c1: "cipher_at c1 ?k ?iv 0"
    using rtcp_packet_ssrc(2) [OF msg] by (auto simp: pkt c_iv_def)
  have "ciphers (mem (wld (store_cipher ?q c1 st))) ?q = Some c1" "n + 4 < length (packet (store_cipher ?q c1 st))" using n by simp_all
  from run_output_none [OF this(1) c1 this(2)] obtain c2 where
    2: "run_cipher_output ?q (int n + 4) 0 (store_cipher ?q c1 st) = Some (Inr err_status_ok, store_cipher ?q c2 (st\<lparr>packet := msg @ ?t @ 0 # drop 1 room\<rparr>))"
    and c2: "cipher_at c2 ?k ?iv 0"
    using write_at_end [of "msg @ ?t" "[0]" room] unfolding n(3) by (auto simp: pkt n(1))
  define st2 where st2: "st2 = store_cipher ?q c2 (st\<lparr>packet := msg @ ?t @ 0 # drop 1 room\<rparr>)"
  have "\<exists>c3. crypt_payload ?q (if c_conf v then Some 8 else None) (word_of_int (int (n - 8))) st2 =
      Some (Inr (), store_cipher ?q c3 (st2\<lparr>packet := ?b @ ?t @ 0 # drop 1 room\<rparr>)) \<and> cipher_keyed c3 ?k"
  proof (cases "c_conf v")
    case True
    have "ciphers (mem (wld st2)) ?q = Some c2" "8 + (n - 8) \<le> length (packet st2)" "0 + (n - 8) \<le> 0xffff" using m by (auto simp: st2 n_def)
    from run_crypt_payload [OF this(1) c2 this(2,3)] True m cipher.at_keyed show ?thesis
      by (auto simp: st2 n_def rtcp_body_def crypt_at_append)
  next
    case False
    then show ?thesis using cipher.at_keyed [OF c2] by (auto simp: crypt_payload_def continue_def st2 rtcp_body_def)
  qed
  then obtain c3 where 3: "crypt_payload ?q (if c_conf v then Some 8 else None) (word_of_int (int n - 8)) st2 =
      Some (Inr (), store_cipher ?q c3 (st2\<lparr>packet := ?b @ ?t @ 0 # drop 1 room\<rparr>))" and c3: "cipher_keyed c3 ?k"
    unfolding n(4) by blast
  define st3 where st3: "st3 = store_cipher ?q c3 (st2\<lparr>packet := ?b @ ?t @ 0 # drop 1 room\<rparr>)"
  have "n + 4 + c_tag_len v \<le> length (packet st3)" "n + 4 \<le> 65504" "auths (mem (wld st3)) (rtcp_auth s) = Some au"
    using m room au(1) by (simp_all add: st2 st3 n_def)
  from run_rtcp_protect_tag [OF this(3) au(2,3) _ this(1,2)] m obtain au' where
    4: "rtcp_protect_tag s (int (n + 4)) st3 = Some (Inr (), store_auth (rtcp_auth s) au'
        (st3\<lparr>packet := write_at (n + 4) (rtcp_tag v (take (n + 4) (packet st3))) (packet st3)\<rparr>))"
    and au': "auth_keyed au' (Some (c_akey v))" "out_len au' = out_len au" "prefix_len au' = prefix_len au" by blast
  have "take (n + 4) (packet st3) = ?b @ ?t" using m by (simp add: st3 n_def)
  moreover have "write_at (n + 4) (rtcp_tag v (?b @ ?t)) (packet st3) = rtcp_packet v i msg @ drop (c_tag_len v) room"
    using write_at_end [of "?b @ ?t" "rtcp_tag v (?b @ ?t)" "0 # drop 1 room"] m
    by (cases "c_tag_len v") (auto simp: st3 n_def rtcp_packet_def Let_def)
  ultimately show ?thesis using 1 2 3 4 c3 au' unfolding st2 st3 n(3) [symmetric] by fastforce
qed

text \<open>Sending one message: the packet of the next index, and the index recorded.\<close>

definition rtcp_next :: "rtcp_view \<Rightarrow> u32 \<Rightarrow> rdb_t \<Rightarrow> bool" where
  "rtcp_next v i r \<longleftrightarrow> rdb_increment (c_rdb v) = (err_status_ok, r) \<and> window_start r = i"

lemma has_rtcp_viewE:
  assumes "has_rtcp_view (wld st) a v"
  obtains s c au where "streams (wld st) a = Some s" "ssrc s = c_ssrc v" "has_service (rtcp_services s) sec_serv_conf = c_conf v"
    "rtcp_rdb s = c_rdb v" "ciphers (mem (wld st)) (rtcp_cipher s) = Some c" "cipher_keyed c (c_ckey v)"
    "auths (mem (wld st)) (rtcp_auth s) = Some au" "auth_keyed au (Some (c_akey v))" "out_len au = int (c_tag_len v)" "prefix_len au = 0"
  using assms by (auto simp: has_rtcp_view_def)

lemma run_rtcp_stream:
  "srtp_get_stream (wld st) (session st) (rtcp_hdr_ssrc (packet st)) = Some (Some a) \<Longrightarrow> rtcp_stream st = Some (Inr a, st)"
  "srtp_get_stream (wld st) (session st) (rtcp_hdr_ssrc (packet st)) = Some (Some a) \<Longrightarrow> rtcp_found_stream st = Some (Inr a, st)"
  by (simp_all add: rtcp_stream_def rtcp_found_stream_def lookup_stream_def seq_def continue_def)

lemma run_rtcp_header: "8 \<le> length (packet st) \<Longrightarrow> read_rtcp_header st = Some (Inr (), st)"
  using read_packet_ok [of 8 st] by (simp add: read_rtcp_header_def continue_def)

lemma srtp_protect_rtcp_run:
  assumes view: "has_rtcp_view (wld st) a v" and get: "srtp_get_stream (wld st) (session st) (c_ssrc v) = Some (Some a)"
    and pkt: "packet st = msg @ room" "pkt_octet_len st = int (length msg)" and msg: "rtcp_message v msg"
    and room: "4 + c_tag_len v \<le> length room" and idx: "rtcp_next v i r"
  shows "\<exists>st'. srtp_protect_rtcp st = Some (err_status_ok, st') \<and>
    packet st' = rtcp_packet v i msg @ drop (4 + c_tag_len v) room \<and> pkt_octet_len st' = int (length msg + 4 + c_tag_len v) \<and>
    has_rtcp_view (wld st') a (v\<lparr>c_rdb := r\<rparr>) \<and> same_session st st'"
proof -
  note m = msg [unfolded rtcp_message_def]
  obtain s c au where s: "streams (wld st) a = Some s" "ssrc s = c_ssrc v" "has_service (rtcp_services s) sec_serv_conf = c_conf v"
      "rtcp_rdb s = c_rdb v"
    and c: "ciphers (mem (wld st)) (rtcp_cipher s) = Some c" "cipher_keyed c (c_ckey v)"
    and au: "auths (mem (wld st)) (rtcp_auth s) = Some au" "auth_keyed au (Some (c_akey v))" "out_len au = int (c_tag_len v)" "prefix_len au = 0"
    using view by (rule has_rtcp_viewE)
  let ?e = "if c_conf v then htonl SRTCP_E_BIT else 0" let ?n = "length msg" let ?t = "rtcp_trailer (c_conf v) i"
  obtain d' es where 1: "verify_direction dir_srtp_sender a st = Some (Inr (), add_events es (put_stream a (s\<lparr>direction := d'\<rparr>) st))"
    using run_verify_direction [OF s(1)] by blast
  define s1 st1 where d1: "s1 = s\<lparr>direction := d'\<rparr>" "st1 = add_events es (put_stream a s1 st)"
  define st2 where d2: "st2 = st1\<lparr>packet := msg @ le32_bytes ?e @ drop 4 room\<rparr>"
  define st3 where d3: "st3 = put_stream a (s1\<lparr>rtcp_rdb := r\<rparr>) st2"
  define st4 where d4: "st4 = st3\<lparr>packet := msg @ ?t @ drop 4 room\<rparr>"
  have 2: "write_packet (int ?n) (le32_bytes ?e) st1 = Some (Inr (), st2)"
    using write_packet_ok [of ?n "le32_bytes ?e" st1] room pkt by (simp add: d1 d2 write_at_end)
  have 3: "rtcp_next_index a st2 = Some (Inr i, st3)"
    using run_rtcp_next_index [of st2 a s1 r] idx s by (simp add: d1 d2 d3 rtcp_next_def)
  have 4: "write_packet (int ?n) (le32_bytes (?e OR htonl i)) st3 = Some (Inr (), st4)"
    unfolding trailer_octets using write_packet_ok [of ?n ?t st3] room by (simp add: d2 d3 d4 write_at_end)
  have "c_tag_len v \<le> length (drop 4 room)" using room by simp
  then obtain st5 st6 st7 c' au' where 5: "rtcp_set_iv (rtcp_cipher s1) i st4 = Some (Inr (), st5)"
      "run_cipher_output (rtcp_cipher s1) (int ?n + 4) 0 st5 = Some (Inr err_status_ok, st6)"
      "crypt_payload (rtcp_cipher s1) (if c_conf v then Some 8 else None) (word_of_int (int ?n - 8)) st6 = Some (Inr (), st7)"
      "rtcp_protect_tag s1 (int ?n + 4) st7 = Some (Inr (), store_auth (rtcp_auth s1) au' (store_cipher (rtcp_cipher s1) c'
        (st4\<lparr>packet := rtcp_packet v i msg @ drop (c_tag_len v) (drop 4 room)\<rparr>)))"
    and k: "cipher_keyed c' (c_ckey v)" "auth_keyed au' (Some (c_akey v))" "out_len au' = out_len au" "prefix_len au' = prefix_len au"
    using run_rtcp_crypto [of st4 s1 c v au msg i "drop 4 room"] c au msg by (auto simp: d1 d2 d3 d4)
  define st8 where d8: "st8 = store_auth (rtcp_auth s1) au' (store_cipher (rtcp_cipher s1) c'
        (st4\<lparr>packet := rtcp_packet v i msg @ drop (c_tag_len v) (drop 4 room)\<rparr>))"
  have 6: "read_rtcp_header st = Some (Inr (), st)" "rtcp_stream st = Some (Inr a, st)"
    using run_rtcp_header [of st] run_rtcp_stream(1) [of st a] rtcp_packet_ssrc(2) [OF msg, of room] get pkt m by simp_all
  have 7: "streams (wld st1) a = Some s1" "auths (mem (wld st1)) (rtcp_auth s1) = Some au"
      "has_service (rtcp_services s1) sec_serv_conf = c_conf v"
    using au s by (simp_all add: d1)
  have "srtp_protect_rtcp st = Some (err_status_ok, st8\<lparr>pkt_octet_len := int ?n + (int (c_tag_len v) + 4)\<rparr>)"
    using 1 2 3 4 5 6 7 unfolding srtp_protect_rtcp_def Let_def pkt(2) d1(2) [symmetric] d1(1) [symmetric] d8 [symmetric]
    by (simp add: finish_def auth_get_tag_length_def auth_get_prefix_length_def au(3,4) change_def)
  moreover have "has_rtcp_view (wld st8) a (v\<lparr>c_rdb := r\<rparr>)"
    using s k au c by (auto simp: has_rtcp_view_def d1 d2 d3 d4 d8)
  moreover have "same_session st st8" using s by (auto simp: same_session_def d1 d2 d3 d4 d8)
  moreover have "packet st8 = rtcp_packet v i msg @ drop (4 + c_tag_len v) room" by (simp add: d8 add.commute)
  ultimately show ?thesis by (auto simp: same_session_def)
qed

subsection \<open>Running srtp_unprotect_rtcp\<close>

lemma rtcp_index_of_word: "srtcp_index (w AND SRTCP_INDEX_MASK)"
proof -
  have "\<not> bit (uint (w AND SRTCP_INDEX_MASK)) n" if "31 \<le> n" for n
    using that unfolding bit_uint_iff bit_and_iff bit_low_u32 by simp
  then have "take_bit 31 (uint (w AND SRTCP_INDEX_MASK)) = uint (w AND SRTCP_INDEX_MASK)"
    by (intro bit_eqI) (metis bit_take_bit_iff not_less)
  then show ?thesis by (metis take_bit_int_less_exp)
qed

lemma run_read_trailer:
  assumes "packet st = b @ be32_bytes w @ r"
  shows "read_trailer (int (length b)) st = Some (Inr (bswap32 w), st)"
  using assms by (simp add: read_trailer_def continue_def nth_append be32_bytes_def bswap32_def be32_of_def)

lemma run_rtcp_unprotect_tag:
  assumes au: "auths (mem (wld st)) (rtcp_auth s) = Some au" "auth_keyed au (Some (c_akey v))" "out_len au = int (c_tag_len v)"
    and "c_tag_len v \<le> 12" "n + c_tag_len v \<le> length (packet st)" "n \<le> 65504"
  shows "\<exists>au'. rtcp_unprotect_tag s (int n) (int (c_tag_len v)) (map stack [0..<12]) st =
      Some (if slice n (c_tag_len v) (packet st) = rtcp_tag v (take n (packet st)) then Inr () else Inl err_status_auth_fail,
        store_auth (rtcp_auth s) au' st) \<and>
    auth_keyed au' (Some (c_akey v)) \<and> out_len au' = out_len au \<and> prefix_len au' = prefix_len au"
proof -
  define tmp where "tmp = map stack [0..<12]"
  let ?x = "take n (packet st)" let ?t = "rtcp_tag v ?x"
  have "length ?x < 2 ^ 29 - 64" "out_len au \<le> 20" using assms(3-6) by simp_all
  from auth_run_once [OF au(2) this] obtain a1 au' where
    1: "auth_start au = (err_status_ok, a1)" "auth_compute a1 ?x = (err_status_ok, au', ?t)"
    and au': "auth_keyed au' (Some (c_akey v))" "out_len au' = out_len au" "prefix_len au' = prefix_len au"
    unfolding rtcp_tag_def assms(3) nat_int by blast
  have t: "length ?t = c_tag_len v" "length ?t \<le> length tmp" "length tmp = 12" using assms(4) by (simp_all add: tmp_def)
  let ?st = "store_auth (rtcp_auth s) au' st"
  have "write_tmp ?t tmp ?st = Some (Inr (write_at 0 ?t tmp), ?st)"
    unfolding write_tmp_def continue_def using leD [OF t(2)] by simp
  moreover have "compare_tags (write_at 0 ?t tmp) (int n) (int (c_tag_len v)) ?st =
      Some (if slice n (c_tag_len v) (packet st) = ?t then Inr () else Inl err_status_auth_fail, ?st)"
    using run_compare_tags [of "c_tag_len v" "write_at 0 ?t tmp" n ?st] assms(4,5) t by (auto simp: write_at_def)
  ultimately show ?thesis
    using 1 au' au(1) assms(5) unfolding tmp_def [symmetric] by (auto simp: rtcp_unprotect_tag_def read_packet_ok)
qed

text \<open>
  A received packet of a stream: a body with its header, a trailer word and a tag. The word holds the
  index and says whether the body is encrypted.
\<close>

definition rtcp_received :: "rtcp_view \<Rightarrow> octets \<Rightarrow> u32 \<Rightarrow> octets \<Rightarrow> bool" where
  "rtcp_received v b w t \<longleftrightarrow> 8 \<le> length b \<and> length b \<le> 65500 \<and> rtcp_hdr_ssrc b = c_ssrc v \<and> length t = c_tag_len v \<and> c_tag_len v \<le> 12"

definition word_index :: "u32 \<Rightarrow> u32" where
  "word_index w = w AND SRTCP_INDEX_MASK"

definition word_enc :: "u32 \<Rightarrow> bool" where
  "word_enc w \<longleftrightarrow> (ucast (bswap32 w) :: u8) AND SRTCP_E_BYTE_BIT \<noteq> 0"

definition holds_packet :: "pstate \<Rightarrow> octets \<Rightarrow> u32 \<Rightarrow> octets \<Rightarrow> octets \<Rightarrow> bool" where
  "holds_packet st b w t room \<longleftrightarrow> packet st = b @ be32_bytes w @ t @ room \<and> pkt_octet_len st = int (length b + 4 + length t)"

lemma srtcp_word_index [simp]: "srtcp_index (word_index w)"
  unfolding word_index_def by (rule rtcp_index_of_word)

lemma srtp_unprotect_rtcp_old:
  assumes view: "has_rtcp_view (wld st) a v" and get: "srtp_get_stream (wld st) (session st) (c_ssrc v) = Some (Some a)"
    and pkt: "holds_packet st b w t room" and rcv: "rtcp_received v b w t"
    and idx: "rdb_check (c_rdb v) (word_index w) = e" "e \<noteq> err_status_ok"
  shows "srtp_unprotect_rtcp stack st = Some (e, st)"
proof -
  note p = pkt [unfolded holds_packet_def] rcv [unfolded rtcp_received_def]
  obtain s au where s: "streams (wld st) a = Some s" "rtcp_rdb s = c_rdb v" "auths (mem (wld st)) (rtcp_auth s) = Some au" "out_len au = int (c_tag_len v)"
    using view by (auto simp: has_rtcp_view_def)
  have "rtcp_hdr_ssrc (packet st) = c_ssrc v" using p rtcp_hdr_cong [of "packet st" b] by simp
  then have "read_rtcp_header st = Some (Inr (), st)" "rtcp_found_stream st = Some (Inr a, st)"
    using run_rtcp_header [of st] run_rtcp_stream(2) [of st a] get p by simp_all
  moreover have "read_trailer (pkt_octet_len st - (auth_get_tag_length au + 4)) st = Some (Inr (bswap32 w), st)"
    using run_read_trailer [of st b w "t @ room"] p s(4) by (simp add: auth_get_tag_length_def)
  moreover have "rtcp_check_index s (word_index w) st = Some (Inl e, st)"
    using idx s by (simp add: rtcp_check_index_def require_def stop_def)
  ultimately show ?thesis
    using s by (simp add: srtp_unprotect_rtcp_def Let_def seq_stopped finish_stopped word_index_def)
qed

text \<open>Up to the check of the tag, which decides by the tag of the body and the trailer.\<close>

lemma run_rtcp_unprotect_head:
  assumes view: "has_rtcp_view (wld st) a v" and get: "srtp_get_stream (wld st) (session st) (c_ssrc v) = Some (Some a)"
    and pkt: "holds_packet st b w t room" and rcv: "rtcp_received v b w t" and idx: "rdb_check (c_rdb v) (word_index w) = err_status_ok"
    and s: "streams (wld st) a = Some s" and au: "auths (mem (wld st)) (rtcp_auth s) = Some au"
  shows "\<exists>c1 au'. read_rtcp_header st = Some (Inr (), st) \<and> rtcp_found_stream st = Some (Inr a, st) \<and>
    auth_get_tag_length au = int (c_tag_len v) \<and>
    read_trailer (pkt_octet_len st - (int (c_tag_len v) + 4)) st = Some (Inr (bswap32 w), st) \<and>
    rtcp_check_index s (word_index w) st = Some (Inr (), st) \<and>
    rtcp_set_iv (rtcp_cipher s) (word_index w) st = Some (Inr (), store_cipher (rtcp_cipher s) c1 st) \<and>
    rtcp_unprotect_tag s (pkt_octet_len st - int (c_tag_len v)) (int (c_tag_len v)) (map stack [0..<12]) (store_cipher (rtcp_cipher s) c1 st) =
      Some (if t = rtcp_tag v (b @ be32_bytes w) then Inr () else Inl err_status_auth_fail,
        store_auth (rtcp_auth s) au' (store_cipher (rtcp_cipher s) c1 st)) \<and>
    cipher_at c1 (c_ckey v) (c_iv v (word_index w)) 0 \<and>
    auth_keyed au' (Some (c_akey v)) \<and> out_len au' = int (c_tag_len v) \<and> prefix_len au' = 0"
proof -
  note p = pkt [unfolded holds_packet_def] rcv [unfolded rtcp_received_def]
  obtain c where c: "rtcp_rdb s = c_rdb v" "ciphers (mem (wld st)) (rtcp_cipher s) = Some c" "cipher_keyed c (c_ckey v)"
    and k: "auth_keyed au (Some (c_akey v))" "out_len au = int (c_tag_len v)" "prefix_len au = 0"
    using view s au by (auto simp: has_rtcp_view_def)
  have hdr: "rtcp_hdr_ssrc (packet st) = c_ssrc v" using p rtcp_hdr_cong [of "packet st" b] by simp
  obtain c1 where c1: "rtcp_set_iv (rtcp_cipher s) (word_index w) st = Some (Inr (), store_cipher (rtcp_cipher s) c1 st)"
      "cipher_at c1 (c_ckey v) (c_iv v (word_index w)) 0"
    using run_rtcp_set_iv [OF c(2,3), of "word_index w"] hdr by (auto simp: c_iv_def)
  let ?st = "store_cipher (rtcp_cipher s) c1 st" let ?n = "length b + 4"
  have x: "pkt_octet_len st - int (c_tag_len v) = int ?n" "take ?n (packet ?st) = b @ be32_bytes w" "slice ?n (c_tag_len v) (packet ?st) = t"
      "?n + c_tag_len v \<le> length (packet ?st)" "?n \<le> 65504" "auths (mem (wld ?st)) (rtcp_auth s) = Some au"
    using p au by (simp_all add: slice_def)
  obtain au' where "rtcp_unprotect_tag s (int ?n) (int (c_tag_len v)) (map stack [0..<12]) ?st =
      Some (if t = rtcp_tag v (b @ be32_bytes w) then Inr () else Inl err_status_auth_fail, store_auth (rtcp_auth s) au' ?st)"
    and "auth_keyed au' (Some (c_akey v))" "out_len au' = out_len au" "prefix_len au' = prefix_len au"
    using run_rtcp_unprotect_tag [OF x(6) k(1,2) _ x(4,5), of stack] p unfolding x(2,3) by blast
  moreover have "read_rtcp_header st = Some (Inr (), st)" "rtcp_found_stream st = Some (Inr a, st)"
    using run_rtcp_header [of st] run_rtcp_stream(2) [of st a] get p hdr by simp_all
  moreover have "read_trailer (pkt_octet_len st - (int (c_tag_len v) + 4)) st = Some (Inr (bswap32 w), st)"
    using run_read_trailer [of st b w "t @ room"] p by simp
  moreover have "rtcp_check_index s (word_index w) st = Some (Inr (), st)"
    using idx c(1) by (simp add: rtcp_check_index_def continue_def)
  ultimately show ?thesis
    using c1 k x(1) by (intro exI [of _ c1] exI [of _ au'] conjI) (simp_all add: auth_get_tag_length_def)
qed

lemma srtp_unprotect_rtcp_forged_run:
  assumes view: "has_rtcp_view (wld st) a v" and get: "srtp_get_stream (wld st) (session st) (c_ssrc v) = Some (Some a)"
    and pkt: "holds_packet st b w t room" and rcv: "rtcp_received v b w t" and idx: "rdb_check (c_rdb v) (word_index w) = err_status_ok"
    and tag: "t \<noteq> rtcp_tag v (b @ be32_bytes w)"
  shows "\<exists>st'. srtp_unprotect_rtcp stack st = Some (err_status_auth_fail, st') \<and>
    packet st' = packet st \<and> pkt_octet_len st' = pkt_octet_len st \<and> has_rtcp_view (wld st') a v \<and> same_session st st'"
proof -
  obtain s c au where s: "streams (wld st) a = Some s" "ssrc s = c_ssrc v" "has_service (rtcp_services s) sec_serv_conf = c_conf v"
      "rtcp_rdb s = c_rdb v" and au: "auths (mem (wld st)) (rtcp_auth s) = Some au"
    using view by (rule has_rtcp_viewE)
  obtain c1 au' where h: "read_rtcp_header st = Some (Inr (), st)" "rtcp_found_stream st = Some (Inr a, st)"
      "auth_get_tag_length au = int (c_tag_len v)" "read_trailer (pkt_octet_len st - (int (c_tag_len v) + 4)) st = Some (Inr (bswap32 w), st)"
      "rtcp_check_index s (word_index w) st = Some (Inr (), st)"
      "rtcp_set_iv (rtcp_cipher s) (word_index w) st = Some (Inr (), store_cipher (rtcp_cipher s) c1 st)"
      "rtcp_unprotect_tag s (pkt_octet_len st - int (c_tag_len v)) (int (c_tag_len v)) (map stack [0..<12]) (store_cipher (rtcp_cipher s) c1 st) =
        Some (Inl err_status_auth_fail, store_auth (rtcp_auth s) au' (store_cipher (rtcp_cipher s) c1 st))"
    and k: "cipher_at c1 (c_ckey v) (c_iv v (word_index w)) 0" "auth_keyed au' (Some (c_akey v))" "out_len au' = int (c_tag_len v)" "prefix_len au' = 0"
    using run_rtcp_unprotect_head [OF view get pkt rcv idx s(1) au, of stack] tag by auto
  let ?st' = "store_auth (rtcp_auth s) au' (store_cipher (rtcp_cipher s) c1 st)"
  have "srtp_unprotect_rtcp stack st = Some (err_status_auth_fail, ?st')"
    using h s(1) au by (simp add: srtp_unprotect_rtcp_def Let_def word_index_def seq_stopped finish_stopped)
  moreover have "has_rtcp_view (wld ?st') a v"
    using s k cipher.at_keyed [OF k(1)] by (auto simp: has_rtcp_view_def)
  moreover have "same_session st ?st'" by (simp add: same_session_def)
  ultimately show ?thesis by auto
qed

text \<open>Behind the check: the body, the direction, and the replay database.\<close>

lemma run_rtcp_unprotect_tail:
  assumes s: "streams (wld st) a = Some s" "rtcp_rdb s = c_rdb v"
    and c: "ciphers (mem (wld st)) (rtcp_cipher s) = Some c" "cipher_at c (c_ckey v) (c_iv v i) 0"
    and au: "auths (mem (wld st)) (rtcp_auth s) = Some au" "prefix_len au = 0"
    and pkt: "packet st = b @ rest" "8 \<le> length b" "length b \<le> 65500"
    and r: "rdb_add_index (c_rdb v) i = Some r" and tmpl: "stream_template (session st) \<noteq> Some a"
  shows "\<exists>st1 st2 es d' c'. rtcp_unprotect_prefix s off st = Some (Inr (), st) \<and>
    crypt_payload (rtcp_cipher s) (if enc then Some 8 else None) (word_of_int (int (length b) - 8)) st = Some (Inr (), st1) \<and>
    verify_direction dir_srtp_receiver a (st1\<lparr>pkt_octet_len := n\<rparr>) = Some (Inr (), st2) \<and>
    settle_stream a rtcp_hdr_ssrc st2 = Some (Inr a, st2) \<and>
    rtcp_record_index a i st2 = Some (Inr (), put_stream a (s\<lparr>direction := d', rtcp_rdb := r\<rparr>)
      (add_events es (store_cipher (rtcp_cipher s) c' (st\<lparr>packet := rtcp_body v enc i b @ rest, pkt_octet_len := n\<rparr>)))) \<and>
    cipher_keyed c' (c_ckey v)"
proof -
  let ?q = "rtcp_cipher s"
  have 1: "rtcp_unprotect_prefix s off st = Some (Inr (), st)"
    using au by (simp add: rtcp_unprotect_prefix_def auth_get_prefix_length_def continue_def)
  have len: "int (length b) - 8 = int (length b - 8)" "8 + (length b - 8) \<le> length (packet st)" "0 + (length b - 8) \<le> 0xffff"
    using pkt by (auto simp: of_nat_diff)
  have "\<exists>c'. crypt_payload ?q (if enc then Some 8 else None) (word_of_int (int (length b - 8))) st =
      Some (Inr (), store_cipher ?q c' (st\<lparr>packet := rtcp_body v enc i b @ rest\<rparr>)) \<and> cipher_keyed c' (c_ckey v)"
  proof (cases enc)
    case True
    then show ?thesis using run_crypt_payload [OF c len(2,3)] pkt cipher.at_keyed by (auto simp: rtcp_body_def crypt_at_append)
  next
    case False
    have "st\<lparr>packet := b @ rest\<rparr> = st" using pkt by simp
    then show ?thesis using False c cipher.at_keyed [OF c(2)]
      by (auto simp: crypt_payload_def continue_def store_same rtcp_body_def intro!: exI [of _ c])
  qed
  then obtain c' where 2: "crypt_payload ?q (if enc then Some 8 else None) (word_of_int (int (length b) - 8)) st =
      Some (Inr (), store_cipher ?q c' (st\<lparr>packet := rtcp_body v enc i b @ rest\<rparr>))" and c': "cipher_keyed c' (c_ckey v)"
    unfolding len(1) by blast
  define st1 where d1: "st1 = store_cipher ?q c' (st\<lparr>packet := rtcp_body v enc i b @ rest\<rparr>)"
  have "streams (wld (st1\<lparr>pkt_octet_len := n\<rparr>)) a = Some s" using s by (simp add: d1)
  from run_verify_direction [OF this] obtain d' es where
    3: "verify_direction dir_srtp_receiver a (st1\<lparr>pkt_octet_len := n\<rparr>) =
      Some (Inr (), add_events es (put_stream a (s\<lparr>direction := d'\<rparr>) (st1\<lparr>pkt_octet_len := n\<rparr>)))" by blast
  define st2 where d2: "st2 = add_events es (put_stream a (s\<lparr>direction := d'\<rparr>) (st1\<lparr>pkt_octet_len := n\<rparr>))"
  have 4: "settle_stream a rtcp_hdr_ssrc st2 = Some (Inr a, st2)" using tmpl by (intro run_settle_stream) (simp add: d1 d2)
  have "rtcp_record_index a i st2 = Some (Inr (), put_stream a (s\<lparr>direction := d', rtcp_rdb := r\<rparr>) st2)"
    using r s(2) by (simp add: rtcp_record_index_def continue_def d1 d2)
  moreover have "put_stream a (s\<lparr>direction := d', rtcp_rdb := r\<rparr>) st2 = put_stream a (s\<lparr>direction := d', rtcp_rdb := r\<rparr>)
      (add_events es (store_cipher ?q c' (st\<lparr>packet := rtcp_body v enc i b @ rest, pkt_octet_len := n\<rparr>)))"
    by (simp add: d1 d2 store_defs)
  ultimately show ?thesis using 1 2 3 4 c' unfolding d1 [symmetric] d2 [symmetric] by metis
qed

lemma srtp_unprotect_rtcp_run:
  assumes view: "has_rtcp_view (wld st) a v" and get: "srtp_get_stream (wld st) (session st) (c_ssrc v) = Some (Some a)"
    and tmpl: "stream_template (session st) \<noteq> Some a"
    and pkt: "holds_packet st b w t room" and rcv: "rtcp_received v b w t" and idx: "rdb_check (c_rdb v) (word_index w) = err_status_ok"
    and tag: "t = rtcp_tag v (b @ be32_bytes w)" and r: "rdb_add_index (c_rdb v) (word_index w) = Some r"
  shows "\<exists>st'. srtp_unprotect_rtcp stack st = Some (err_status_ok, st') \<and>
    packet st' = rtcp_body v (word_enc w) (word_index w) b @ be32_bytes w @ t @ room \<and> pkt_octet_len st' = int (length b) \<and>
    has_rtcp_view (wld st') a (v\<lparr>c_rdb := r\<rparr>) \<and> same_session st st'"
proof -
  note p = pkt [unfolded holds_packet_def] rcv [unfolded rtcp_received_def]
  obtain s c au where s: "streams (wld st) a = Some s" "ssrc s = c_ssrc v" "has_service (rtcp_services s) sec_serv_conf = c_conf v"
      "rtcp_rdb s = c_rdb v" and au: "auths (mem (wld st)) (rtcp_auth s) = Some au"
    using view by (rule has_rtcp_viewE)
  obtain c1 au' where h: "read_rtcp_header st = Some (Inr (), st)" "rtcp_found_stream st = Some (Inr a, st)"
      "auth_get_tag_length au = int (c_tag_len v)" "read_trailer (pkt_octet_len st - (int (c_tag_len v) + 4)) st = Some (Inr (bswap32 w), st)"
      "rtcp_check_index s (word_index w) st = Some (Inr (), st)"
      "rtcp_set_iv (rtcp_cipher s) (word_index w) st = Some (Inr (), store_cipher (rtcp_cipher s) c1 st)"
      "rtcp_unprotect_tag s (pkt_octet_len st - int (c_tag_len v)) (int (c_tag_len v)) (map stack [0..<12]) (store_cipher (rtcp_cipher s) c1 st) =
        Some (Inr (), store_auth (rtcp_auth s) au' (store_cipher (rtcp_cipher s) c1 st))"
    and k: "cipher_at c1 (c_ckey v) (c_iv v (word_index w)) 0" "auth_keyed au' (Some (c_akey v))" "out_len au' = int (c_tag_len v)" "prefix_len au' = 0"
    using run_rtcp_unprotect_head [OF view get pkt rcv idx s(1) au, of stack] tag by auto
  define st1 where d1: "st1 = store_auth (rtcp_auth s) au' (store_cipher (rtcp_cipher s) c1 st)"
  have st1: "streams (wld st1) a = Some s" "ciphers (mem (wld st1)) (rtcp_cipher s) = Some c1" "auths (mem (wld st1)) (rtcp_auth s) = Some au'"
      "packet st1 = b @ be32_bytes w @ t @ room" "stream_template (session st1) \<noteq> Some a"
    using s p tmpl by (simp_all add: d1)
  have len: "pkt_octet_len st = int (length b) + 4 + int (c_tag_len v)" using p by simp
  from run_rtcp_unprotect_tail [OF st1(1) s(4) st1(2) k(1) st1(3) k(4) st1(4) _ _ r st1(5), of "pkt_octet_len st - int (c_tag_len v)" "word_enc w" "int (length b)"] p
  obtain st2 st3 st4 where t: "rtcp_unprotect_prefix s (pkt_octet_len st - int (c_tag_len v)) st1 = Some (Inr (), st1)"
      "crypt_payload (rtcp_cipher s) (if word_enc w then Some 8 else None) (word_of_int (int (length b) - 8)) st1 = Some (Inr (), st2)"
      "verify_direction dir_srtp_receiver a (st2\<lparr>pkt_octet_len := int (length b)\<rparr>) = Some (Inr (), st3)"
      "settle_stream a rtcp_hdr_ssrc st3 = Some (Inr a, st3)" "rtcp_record_index a (word_index w) st3 = Some (Inr (), st4)"
    and st4: "packet st4 = rtcp_body v (word_enc w) (word_index w) b @ be32_bytes w @ t @ room" "pkt_octet_len st4 = int (length b)"
      "has_rtcp_view (wld st4) a (v\<lparr>c_rdb := r\<rparr>)" "same_session st st4"
    using s k by (auto simp: d1 has_rtcp_view_def same_session_def)
  have "srtp_unprotect_rtcp stack st = Some (err_status_ok, st4)"
    using h t s(1) au unfolding srtp_unprotect_rtcp_def Let_def word_enc_def d1 [symmetric] len
    by (simp add: finish_def word_index_def)
  with st4 show ?thesis by blast
qed

subsection \<open>Two ends and any channel\<close>

definition rtcp_peers :: "rtcp_view \<Rightarrow> rtcp_view \<Rightarrow> bool" where
  "rtcp_peers v v' \<longleftrightarrow> c_ssrc v' = c_ssrc v \<and> c_ckey v' = c_ckey v \<and> c_akey v' = c_akey v \<and> c_tag_len v' = c_tag_len v"

definition rtcp_endpoint :: "pstate \<Rightarrow> addr \<Rightarrow> rtcp_view \<Rightarrow> bool" where
  "rtcp_endpoint st a v \<longleftrightarrow> has_rtcp_view (wld st) a v \<and> srtp_get_stream (wld st) (session st) (c_ssrc v) = Some (Some a) \<and>
     stream_template (session st) \<noteq> Some a"

lemma rtcp_endpoint_load [simp]: "rtcp_endpoint (load_packet pkt n st) a v = rtcp_endpoint st a v"
  by (simp add: rtcp_endpoint_def)

lemma rtcp_endpoint_step:
  "rtcp_endpoint st a v \<Longrightarrow> same_session st st' \<Longrightarrow> has_rtcp_view (wld st') a v' \<Longrightarrow> c_ssrc v' = c_ssrc v \<Longrightarrow> rtcp_endpoint st' a v'"
  using same_session_get [of st st'] by (simp add: rtcp_endpoint_def same_session_def)

lemma rtcp_peers_format:
  assumes "rtcp_peers v v'"
  shows "rtcp_body v' = rtcp_body v" "rtcp_tag v' = rtcp_tag v"
  using assms by (auto simp: rtcp_peers_def fun_eq_iff rtcp_body_def rtcp_tag_def c_iv_def)

text \<open>A packet of the sender, as the receiver takes it apart.\<close>

lemma rtcp_packet_parts:
  assumes "rtcp_message v msg" "rtcp_peers v v'" "srtcp_index i"
  defines "b \<equiv> rtcp_body v (c_conf v) i msg" and "w \<equiv> (if c_conf v then SRTCP_E_BIT else 0) OR i"
  shows "rtcp_packet v i msg = b @ be32_bytes w @ rtcp_tag v' (b @ be32_bytes w)"
    "rtcp_received v' b w (rtcp_tag v' (b @ be32_bytes w))" "length b = length msg" "word_index w = i" "word_enc w = c_conf v"
    "rtcp_body v' (word_enc w) (word_index w) b = msg"
proof -
  note m = assms(1) [unfolded rtcp_message_def] and f = rtcp_peers_format [OF assms(2)] and t = trailer_read [OF assms(3)]
  show "rtcp_packet v i msg = b @ be32_bytes w @ rtcp_tag v' (b @ be32_bytes w)"
    unfolding rtcp_packet_def rtcp_trailer_def Let_def f b_def w_def by simp
  show l: "length b = length msg" using m by (simp add: b_def)
  show "rtcp_received v' b w (rtcp_tag v' (b @ be32_bytes w))"
    using m assms(2) l rtcp_packet_ssrc(1) [OF assms(1), of "c_conf v" i "[]"] by (simp add: rtcp_received_def rtcp_peers_def b_def)
  show i: "word_index w = i" "word_enc w = c_conf v" unfolding word_index_def word_enc_def w_def by (rule t)+
  show "rtcp_body v' (word_enc w) (word_index w) b = msg" unfolding i f b_def using m by (intro rtcp_body_twice) simp
qed

text \<open>The sender protects messages one after the other; the packets are in buffers with room for a trailer and a tag.\<close>

fun send_rtcp :: "pstate \<Rightarrow> octets list \<Rightarrow> ((octets \<times> int) list \<times> pstate) option" where
  "send_rtcp tx [] = Some ([], tx)"
| "send_rtcp tx (msg # msgs) =
     (case srtp_protect_rtcp (load_packet (msg @ replicate 16 0) (int (length msg)) tx) of
        Some (err_status_ok, tx') \<Rightarrow>
          map_option (\<lambda>(out, tx''). ((packet tx', pkt_octet_len tx') # out, tx'')) (send_rtcp tx' msgs)
      | _ \<Rightarrow> None)"

text \<open>The receiver unprotects what it gets; a packet that it refuses gives no message.\<close>

fun receive_rtcp :: "(nat \<Rightarrow> u8) \<Rightarrow> pstate \<Rightarrow> (octets \<times> int) list \<Rightarrow> (octets option list \<times> pstate) option" where
  "receive_rtcp stack rx [] = Some ([], rx)"
| "receive_rtcp stack rx ((pkt, n) # rest) =
     (case srtp_unprotect_rtcp stack (load_packet pkt n rx) of
        None \<Rightarrow> None
      | Some (status, rx') \<Rightarrow>
          map_option (\<lambda>(out, rx''). ((if status = err_status_ok then Some (take (nat (pkt_octet_len rx')) (packet rx')) else None) # out, rx''))
            (receive_rtcp stack rx' rest))"

text \<open>
  What a channel may do to the indices of the packets is any sequence of them. An index is accepted
  when it is not before the window and was not accepted before; the window ends with the largest.
\<close>

fun rtcp_accepts :: "nat \<Rightarrow> nat set \<Rightarrow> nat list \<Rightarrow> bool list" where
  "rtcp_accepts start seen [] = []"
| "rtcp_accepts start seen (i # is) =
     (if start \<le> i \<and> i \<notin> seen then True # rtcp_accepts (max start (i - 127)) (insert i seen) is
      else False # rtcp_accepts start seen is)"

definition rdb_seen :: "rdb_t \<Rightarrow> nat \<Rightarrow> nat set \<Rightarrow> bool" where
  "rdb_seen r start seen \<longleftrightarrow> rdb_holds r (of_nat ` seen) \<and> window_start r = of_nat start \<and> start < 2 ^ 31 \<and> (\<forall>i \<in> seen. i < 2 ^ 31)"

lemma uint_small: "i < 2 ^ 31 \<Longrightarrow> uint (of_nat i :: u32) = int i"
  by (simp add: unsigned_of_nat take_bit_nat_eq_self)

lemma of_nat_small_iff:
  "i < 2 ^ 31 \<Longrightarrow> j < 2 ^ 31 \<Longrightarrow> (of_nat i :: u32) = of_nat j \<longleftrightarrow> i = j"
  "i < 2 ^ 31 \<Longrightarrow> j < 2 ^ 31 \<Longrightarrow> (of_nat i :: u32) < of_nat j \<longleftrightarrow> i < j"
  using uint_small [of i] uint_small [of j] by (metis of_nat_eq_iff, simp add: word_less_def)

lemma rdb_seen_check:
  assumes "rdb_seen r start seen" "i < 2 ^ 31"
  shows "rdb_check r (of_nat i) = err_status_ok \<longleftrightarrow> start \<le> i \<and> i \<notin> seen"
proof -
  have "srtcp_index (of_nat i)" using assms(2) uint_small by simp
  moreover have "(of_nat i :: u32) \<in> of_nat ` seen \<longleftrightarrow> i \<in> seen"
    using assms of_nat_small_iff(1) by (auto simp: rdb_seen_def)
  moreover have "(of_nat i :: u32) < window_start r \<longleftrightarrow> i < start" using assms of_nat_small_iff(2) by (simp add: rdb_seen_def)
  ultimately show ?thesis using rdb_check_holds [of r "of_nat ` seen" "of_nat i"] assms(1) by (auto simp: rdb_seen_def)
qed

lemma rdb_add_window:
  "rdb_add_index r i = Some r' \<Longrightarrow>
     window_start r' = (if i - window_start r < 128 then window_start r else window_start r + (i - window_start r - 127))"
  by (auto simp: rdb_add_index_def Let_def split: if_splits)

lemma rdb_seen_add:
  assumes "rdb_seen r start seen" "i < 2 ^ 31" "start \<le> i"
  shows "\<exists>r'. rdb_add_index r (of_nat i) = Some r' \<and> rdb_seen r' (max start (i - 127)) (insert i seen)"
proof -
  have ws: "window_start r = of_nat start" using assms(1) by (simp add: rdb_seen_def)
  have "srtcp_index (of_nat i)" "window_start r \<le> of_nat i"
    using assms uint_small of_nat_small_iff(2) [of i start] by (simp_all add: rdb_seen_def not_less [symmetric])
  then obtain r' where r': "rdb_add_index r (of_nat i) = Some r'" "rdb_holds r' (of_nat ` insert i seen)"
    using rdb_add_index_holds [of r "of_nat ` seen" "of_nat i"] assms(1) by (auto simp: rdb_seen_def)
  have d: "(of_nat i :: u32) - of_nat start = of_nat (i - start)" using assms(3) by (simp add: of_nat_diff)
  have "(of_nat (i - start) :: u32) < 128 \<longleftrightarrow> i - start < 128"
    using of_nat_small_iff(2) [of "i - start" 128] assms(2) by simp
  moreover have "of_nat start + (of_nat (i - start) - 127) = (of_nat (i - 127) :: u32)" if "\<not> i - start < 128"
    using that assms(3) by (simp add: of_nat_diff)
  ultimately have "window_start r' = (if i - start < 128 then of_nat start else of_nat (i - 127))"
    unfolding rdb_add_window [OF r'(1)] ws d by simp
  moreover have "max start (i - 127) = (if i - start < 128 then start else i - 127)" using assms(3) by auto
  ultimately have "window_start r' = of_nat (max start (i - 127))" by simp
  with r' assms show ?thesis by (auto simp: rdb_seen_def)
qed

definition rtcp_wire :: "rtcp_view \<Rightarrow> u32 \<Rightarrow> octets \<Rightarrow> octets \<times> int" where
  "rtcp_wire v i msg = (rtcp_packet v i msg @ replicate (12 - c_tag_len v) 0, int (length msg + 4 + c_tag_len v))"

lemma rtcp_view_rdb [simp]:
  "rtcp_message (v\<lparr>c_rdb := r\<rparr>) = rtcp_message v" "rtcp_wire (v\<lparr>c_rdb := r\<rparr>) = rtcp_wire v" "rtcp_peers v (v'\<lparr>c_rdb := r\<rparr>) = rtcp_peers v v'"
  by (auto simp: fun_eq_iff rtcp_message_def rtcp_wire_def rtcp_packet_def rtcp_body_def rtcp_tag_def c_iv_def rtcp_peers_def)

lemma send_rtcp_wire:
  assumes "rtcp_endpoint tx a v" "window_start (c_rdb v) = of_nat k" "\<forall>msg \<in> set msgs. rtcp_message v msg" "k + length msgs < 2 ^ 31"
  shows "\<exists>tx'. send_rtcp tx msgs = Some (map2 (\<lambda>j. rtcp_wire v (of_nat j)) [Suc k..<Suc k + length msgs] msgs, tx')"
  using assms
proof (induction msgs arbitrary: tx v k)
  case (Cons msg msgs)
  have msg: "rtcp_message v msg" and k: "Suc k < 2 ^ 31" using Cons.prems by simp_all
  define r where "r = (c_rdb v)\<lparr>window_start := of_nat (Suc k)\<rparr>"
  have "\<not> (0x7fffffff :: u32) < of_nat k" using of_nat_small_iff(2) [of "0x7fffffff" k] k by simp
  then have r: "rtcp_next v (of_nat (Suc k)) r"
    using Cons.prems(2) by (simp add: rtcp_next_def rdb_increment_def Let_def r_def add.commute)
  let ?tx = "load_packet (msg @ replicate 16 0) (int (length msg)) tx"
  have e: "rtcp_endpoint ?tx a v" and room: "4 + c_tag_len v \<le> length (replicate 16 (0 :: u8))"
    using Cons.prems(1) msg by (simp_all add: rtcp_message_def)
  from e room obtain tx' where tx': "srtp_protect_rtcp ?tx = Some (err_status_ok, tx')"
      "packet tx' = rtcp_packet v (of_nat (Suc k)) msg @ drop (4 + c_tag_len v) (replicate 16 0)"
      "pkt_octet_len tx' = int (length msg + 4 + c_tag_len v)" "has_rtcp_view (wld tx') a (v\<lparr>c_rdb := r\<rparr>)" "same_session ?tx tx'"
    using srtp_protect_rtcp_run [of ?tx a v msg "replicate 16 0", OF _ _ _ _ msg _ r] by (auto simp: rtcp_endpoint_def simp del: of_nat_Suc)
  have "rtcp_endpoint tx' a (v\<lparr>c_rdb := r\<rparr>)" using rtcp_endpoint_step [OF e tx'(5,4)] by simp
  then obtain tx'' where "send_rtcp tx' msgs = Some (map2 (\<lambda>j. rtcp_wire v (of_nat j)) [Suc (Suc k)..<Suc (Suc k) + length msgs] msgs, tx'')"
    using Cons.IH [of tx' "v\<lparr>c_rdb := r\<rparr>" "Suc k"] Cons.prems(3,4) by (auto simp: r_def)
  moreover have "(packet tx', pkt_octet_len tx') = rtcp_wire v (of_nat (Suc k)) msg"
    using tx'(2,3) by (simp add: rtcp_wire_def)
  moreover have "[Suc k..<Suc k + length (msg # msgs)] = Suc k # [Suc (Suc k)..<Suc (Suc k) + length msgs]"
    by (subst upt_conv_Cons) simp_all
  ultimately show ?case using tx'(1) by simp
qed simp

text \<open>One packet of the sender at the receiver.\<close>

lemma receive_one:
  assumes e: "rtcp_endpoint rx b v'" and p: "rtcp_peers v v'" and r: "rdb_seen (c_rdb v') start seen"
    and i: "i < 2 ^ 31" and msg: "rtcp_message v msg"
  defines "ok \<equiv> start \<le> i \<and> i \<notin> seen"
  shows "\<exists>status rx' r'. srtp_unprotect_rtcp stack (load_packet (fst (rtcp_wire v (of_nat i) msg)) (snd (rtcp_wire v (of_nat i) msg)) rx) = Some (status, rx') \<and>
    (status = err_status_ok \<longleftrightarrow> ok) \<and> (ok \<longrightarrow> take (nat (pkt_octet_len rx')) (packet rx') = msg) \<and>
    rtcp_endpoint rx' b (v'\<lparr>c_rdb := r'\<rparr>) \<and> rdb_seen r' (if ok then max start (i - 127) else start) (if ok then insert i seen else seen)"
proof -
  let ?i = "of_nat i :: u32" let ?b = "rtcp_body v (c_conf v) ?i msg" let ?w = "(if c_conf v then SRTCP_E_BIT else 0) OR ?i"
  let ?t = "rtcp_tag v' (?b @ be32_bytes ?w)" let ?room = "replicate (12 - c_tag_len v) (0 :: u8)"
  let ?rx = "load_packet (fst (rtcp_wire v ?i msg)) (snd (rtcp_wire v ?i msg)) rx"
  have si: "srtcp_index ?i" using i uint_small by simp
  note parts = rtcp_packet_parts [OF msg p si]
  have e': "rtcp_endpoint ?rx b v'" using e by simp
  have t: "length ?t = c_tag_len v" using parts(2) p by (simp add: rtcp_received_def rtcp_peers_def)
  have h: "holds_packet ?rx ?b ?w ?t ?room"
    using parts(1,3) t by (simp add: holds_packet_def rtcp_wire_def)
  have get: "has_rtcp_view (wld ?rx) b v'" "srtp_get_stream (wld ?rx) (session ?rx) (c_ssrc v') = Some (Some b)"
      "stream_template (session ?rx) \<noteq> Some b" using e' by (simp_all add: rtcp_endpoint_def)
  have c: "rdb_check (c_rdb v') (word_index ?w) = err_status_ok \<longleftrightarrow> ok"
    unfolding parts(4) ok_def by (rule rdb_seen_check [OF r i])
  show ?thesis
  proof (cases ok)
    case True
    then obtain r' where r': "rdb_add_index (c_rdb v') ?i = Some r'" "rdb_seen r' (max start (i - 127)) (insert i seen)"
      using rdb_seen_add [OF r i] by (auto simp: ok_def)
    have "rdb_check (c_rdb v') (word_index ?w) = err_status_ok" "rdb_add_index (c_rdb v') (word_index ?w) = Some r'"
      using c True r'(1) parts(4) by simp_all
    from srtp_unprotect_rtcp_run [OF get h parts(2) this(1) refl this(2), of stack, unfolded parts(6) parts(3)] obtain rx' where
      rx': "srtp_unprotect_rtcp stack ?rx = Some (err_status_ok, rx')" "packet rx' = msg @ be32_bytes ?w @ ?t @ ?room"
        "pkt_octet_len rx' = int (length msg)" "has_rtcp_view (wld rx') b (v'\<lparr>c_rdb := r'\<rparr>)" "same_session ?rx rx'"
      by blast
    with rtcp_endpoint_step [OF e' rx'(5,4)] True r' show ?thesis by (intro exI [of _ err_status_ok] exI [of _ rx'] exI [of _ r']) simp
  next
    case False
    then obtain s where s: "rdb_check (c_rdb v') (word_index ?w) = s" "s \<noteq> err_status_ok" using c by blast
    have "srtp_unprotect_rtcp stack ?rx = Some (s, ?rx)" by (rule srtp_unprotect_rtcp_old [OF get(1,2) h parts(2) s])
    with s False e' r show ?thesis by (intro exI [of _ s] exI [of _ ?rx] exI [of _ "c_rdb v'"]) simp
  qed
qed

lemma receive_rtcp_accepts:
  assumes "rtcp_endpoint rx b v'" "rtcp_peers v v'" "rdb_seen (c_rdb v') start seen"
    and "\<forall>i \<in> set is. i < 2 ^ 31 \<and> rtcp_message v (m i)"
  shows "\<exists>rx'. receive_rtcp stack rx (map (\<lambda>i. rtcp_wire v (of_nat i) (m i)) is) =
    Some (map2 (\<lambda>ok i. if ok then Some (m i) else None) (rtcp_accepts start seen is) is, rx')"
  using assms
proof (induction "is" arbitrary: rx v' start seen)
  case (Cons i "is")
  define ok where "ok \<longleftrightarrow> start \<le> i \<and> i \<notin> seen"
  obtain pkt n where w: "rtcp_wire v (of_nat i) (m i) = (pkt, n)" by fastforce
  from receive_one [OF Cons.prems(1-3), of i "m i" stack] Cons.prems(4) obtain status rx' r' where
    1: "srtp_unprotect_rtcp stack (load_packet pkt n rx) = Some (status, rx')" "status = err_status_ok \<longleftrightarrow> ok"
      "ok \<longrightarrow> take (nat (pkt_octet_len rx')) (packet rx') = m i" "rtcp_endpoint rx' b (v'\<lparr>c_rdb := r'\<rparr>)"
      "rdb_seen r' (if ok then max start (i - 127) else start) (if ok then insert i seen else seen)"
    unfolding ok_def [symmetric] by (auto simp: w)
  from Cons.IH [OF 1(4), of "if ok then max start (i - 127) else start" "if ok then insert i seen else seen"] 1(5) Cons.prems(2,4)
  obtain rx'' where "receive_rtcp stack rx' (map (\<lambda>i. rtcp_wire v (of_nat i) (m i)) is) =
      Some (map2 (\<lambda>ok i. if ok then Some (m i) else None)
        (rtcp_accepts (if ok then max start (i - 127) else start) (if ok then insert i seen else seen) is) is, rx'')" by auto
  with 1 show ?case unfolding rtcp_accepts.simps ok_def [symmetric] by (cases ok) (simp_all add: w)
qed simp

subsection \<open>Sessions\<close>

definition policy_rtcp_view :: "srtp_policy_t \<Rightarrow> octets \<Rightarrow> rtcp_view" where
  "policy_rtcp_view p key = \<lparr>c_ssrc = htonl (ssrc_value p),
     c_ckey = derived_cipher_key key label_rtcp_encryption label_rtcp_salt, c_akey = kdf_octets key label_rtcp_msg_auth 20,
     c_tag_len = nat (p_auth_tag_len (policy_rtcp p)), c_conf = has_service (p_sec_serv (policy_rtcp p)) sec_serv_conf, c_rdb = rdb_init\<rparr>"

lemma created_rtcp_endpoint:
  assumes "ready w" "standard_policy p key"
  shows "\<exists>ctx w' a. srtp_create w [p] = Some (err_status_ok, Some ctx, w') \<and> rtcp_endpoint (start_state ctx w') a (policy_rtcp_view p key)"
proof -
  obtain w' a where c: "srtp_create w [p] = Some (err_status_ok, Some \<lparr>stream_list = [a], stream_template = None\<rparr>, w')"
      and n: "new_objects p key a w w'" using srtp_create_objects [OF assms] by blast
  have "has_rtcp_view w' a (policy_rtcp_view p key)"
    using n assms(2) by (auto simp: new_objects_def new_keys_def has_rtcp_view_def new_stream_def policy_rtcp_view_def standard_policy_def icm_hmac_def)
  then have "rtcp_endpoint (start_state \<lparr>stream_list = [a], stream_template = None\<rparr> w') a (policy_rtcp_view p key)"
    by (auto simp: rtcp_endpoint_def start_state_def srtp_get_stream_def has_rtcp_view_def)
  with c show ?thesis by blast
qed

lemma policy_rtcp_peers:
  assumes "standard_policy p key" "standard_policy p' key'" "take 30 key = take 30 key'"
    and "ssrc_value p' = ssrc_value p" "p_auth_tag_len (policy_rtcp p') = p_auth_tag_len (policy_rtcp p)"
  shows "rtcp_peers (policy_rtcp_view p key) (policy_rtcp_view p' key')"
proof -
  have "icm_key key = icm_key key'" using assms by (intro icm_key_cong) (auto simp: standard_policy_def)
  then have "kdf_octets key' = kdf_octets key" by (simp add: kdf_octets_def fun_eq_iff)
  then show ?thesis using assms by (simp add: rtcp_peers_def policy_rtcp_view_def derived_cipher_key_def)
qed

lemma rdb_seen_init: "rdb_seen rdb_init 0 {}"
  using rdb_init_holds by (simp add: rdb_seen_def rdb_init_def)

subsection \<open>Properties\<close>

text \<open>
  C6: SRTCP from end to end over any channel. Two sessions are created from policies with the same master
  key and salt, SSRC and RTCP tag length. The sender protects any list of RTCP messages; the channel
  then delivers any sequence of the packets, with losses, reordering and repetition. The receiver
  never faults: it hands out exactly the messages whose index is not before its window of 128 and was
  not accepted before, each as it was sent, and refuses the rest.
\<close>

theorem srtcp_sessions_communicate:
  assumes "ready w" "ready w'" and p: "standard_policy p key" "standard_policy p' key'" "take 30 key = take 30 key'"
      "ssrc_value p' = ssrc_value p" "p_auth_tag_len (policy_rtcp p') = p_auth_tag_len (policy_rtcp p)"
    and msg: "\<forall>msg \<in> set msgs. rtcp_message (policy_rtcp_view p key) msg" "length msgs < 2 ^ 31 - 1" "\<forall>j \<in> set channel. j < length msgs"
  shows "\<exists>ctx ctx' w1 w1' pkts tx rx. srtp_create w [p] = Some (err_status_ok, Some ctx, w1) \<and>
    srtp_create w' [p'] = Some (err_status_ok, Some ctx', w1') \<and>
    send_rtcp (start_state ctx w1) msgs = Some (pkts, tx) \<and> length pkts = length msgs \<and>
    receive_rtcp stack (start_state ctx' w1') (map ((!) pkts) channel) =
      Some (map2 (\<lambda>ok j. if ok then Some (msgs ! j) else None) (rtcp_accepts 0 {} (map Suc channel)) channel, rx)"
proof -
  let ?v = "policy_rtcp_view p key" let ?v' = "policy_rtcp_view p' key'"
  obtain ctx w1 a where 1: "srtp_create w [p] = Some (err_status_ok, Some ctx, w1)" "rtcp_endpoint (start_state ctx w1) a ?v"
    using created_rtcp_endpoint [OF assms(1) p(1)] by blast
  obtain ctx' w1' b where 2: "srtp_create w' [p'] = Some (err_status_ok, Some ctx', w1')" "rtcp_endpoint (start_state ctx' w1') b ?v'"
    using created_rtcp_endpoint [OF assms(2) p(2)] by blast
  have r: "c_rdb ?v = rdb_init" "rdb_seen (c_rdb ?v') 0 {}" using rdb_seen_init by (simp_all add: policy_rtcp_view_def)
  define pkts where "pkts = map2 (\<lambda>j. rtcp_wire ?v (of_nat j)) [Suc 0..<Suc 0 + length msgs] msgs"
  have l: "length pkts = length msgs" by (simp add: pkts_def del: upt_Suc)
  obtain tx where tx: "send_rtcp (start_state ctx w1) msgs = Some (pkts, tx)"
    using send_rtcp_wire [OF 1(2), of 0 msgs] r(1) msg(1,2) unfolding pkts_def by (auto simp: rdb_init_def)
  have "map ((!) pkts) channel = map (\<lambda>i. rtcp_wire ?v (of_nat i) (msgs ! (i - 1))) (map Suc channel)"
    using msg(3) by (auto simp: pkts_def simp del: upt_Suc)
  moreover have "\<forall>i \<in> set (map Suc channel). i < 2 ^ 31 \<and> rtcp_message ?v (msgs ! (i - 1))" using msg by fastforce
  ultimately have "\<exists>rx. receive_rtcp stack (start_state ctx' w1') (map ((!) pkts) channel) =
      Some (map2 (\<lambda>ok i. if ok then Some (msgs ! (i - 1)) else None) (rtcp_accepts 0 {} (map Suc channel)) (map Suc channel), rx)"
    using receive_rtcp_accepts [OF 2(2) policy_rtcp_peers [OF p] r(2), of "map Suc channel" "\<lambda>i. msgs ! (i - 1)" stack] by presburger
  moreover have "map2 (\<lambda>ok i. if ok then Some (msgs ! (i - 1)) else None) oks (map Suc channel) =
      map2 (\<lambda>ok j. if ok then Some (msgs ! j) else None) oks channel" for oks
    by (simp add: zip_map2 case_prod_unfold)
  ultimately show ?thesis using 1(1) 2(1) tx l by auto
qed

definition example_report :: "u8 \<Rightarrow> octets" where
  "example_report x = [0x80, 200, 0, 1, 1, 2, 3, 4, x, 5, 6, 7]"

lemma example_report_message [simp]: "rtcp_message (policy_rtcp_view (example_policy key) key) (example_report x)"
  by (simp add: rtcp_message_def policy_rtcp_view_def example_policy_def example_report_def rtcp_hdr_ssrc_def
      crypto_policy_set_rtcp_default_def bswap32_def be32_of_def le32_of_def)

theorem srtcp_sessions_communicate_witness:
  "\<exists>ctx ctx' w1 w1' pkts tx rx. srtp_create example_world [example_policy (replicate 32 7)] = Some (err_status_ok, Some ctx, w1) \<and>
    srtp_create example_world [example_policy (replicate 30 7 @ [1, 2])] = Some (err_status_ok, Some ctx', w1') \<and>
    send_rtcp (start_state ctx w1) [example_report 1, example_report 2, example_report 3] = Some (pkts, tx) \<and> length pkts = 3 \<and>
    receive_rtcp (\<lambda>_. 0) (start_state ctx' w1') [pkts ! 2, pkts ! 0, pkts ! 2] = Some ([Some (example_report 3), Some (example_report 1), None], rx)"
proof -
  let ?k = "replicate 32 7 :: octets" let ?k' = "replicate 30 7 @ [1, 2] :: octets"
  have "\<exists>ctx ctx' w1 w1' pkts tx rx. srtp_create example_world [example_policy ?k] = Some (err_status_ok, Some ctx, w1) \<and>
    srtp_create example_world [example_policy ?k'] = Some (err_status_ok, Some ctx', w1') \<and>
    send_rtcp (start_state ctx w1) [example_report 1, example_report 2, example_report 3] = Some (pkts, tx) \<and>
    length pkts = length [example_report 1, example_report 2, example_report 3] \<and>
    receive_rtcp (\<lambda>_. 0) (start_state ctx' w1') (map ((!) pkts) [2, 0, 2]) =
      Some (map2 (\<lambda>ok j. if ok then Some ([example_report 1, example_report 2, example_report 3] ! j) else None) (rtcp_accepts 0 {} (map Suc [2, 0, 2])) [2, 0, 2], rx)"
    by (rule srtcp_sessions_communicate [where key = ?k and key' = ?k'])
      (auto simp: example_policy_def intro: example_standard [unfolded example_policy_def] example_report_message [unfolded example_policy_def])
  moreover have "map2 (\<lambda>ok j. if ok then Some ([example_report 1, example_report 2, example_report 3] ! j) else None)
      (rtcp_accepts 0 {} (map Suc [2, 0, 2])) [2, 0, 2] = [Some (example_report 3), Some (example_report 1), None]"
    by simp
  moreover have "map ((!) pkts) [2, 0, 2] = [pkts ! 2, pkts ! 0, pkts ! 2]" "length [example_report 1, example_report 2, example_report 3] = 3" for pkts :: "(octets \<times> int) list"
    by simp_all
  ultimately show ?thesis by (simp only:)
qed

text \<open>
  C7: what becomes of one SRTCP packet. For any packet of a stream with a body, a trailer word and octets
  in the place of the tag: an index that the replay database refuses ends the function with that
  status and nothing changed; else octets that are not the tag of the body and the trailer end it with
  an authentication failure, the packet and the stream as before; else the function succeeds, the body
  is decrypted exactly when the trailer says so, and the index is recorded.
\<close>

theorem srtp_unprotect_rtcp_decides:
  assumes e: "rtcp_endpoint st a v" and k: "rdb_knows (c_rdb v) A" and h: "holds_packet st b w t room" and r: "rtcp_received v b w t"
  defines "c \<equiv> rdb_check (c_rdb v) (word_index w)"
  shows "\<exists>status st'. srtp_unprotect_rtcp stack st = Some (status, st') \<and>
    (if c \<noteq> err_status_ok then status = c \<and> st' = st
     else if t \<noteq> rtcp_tag v (b @ be32_bytes w)
     then status = err_status_auth_fail \<and> packet st' = packet st \<and> pkt_octet_len st' = pkt_octet_len st \<and> rtcp_endpoint st' a v
     else status = err_status_ok \<and> pkt_octet_len st' = int (length b) \<and>
       packet st' = rtcp_body v (word_enc w) (word_index w) b @ be32_bytes w @ t @ room \<and>
       (\<exists>r'. rtcp_endpoint st' a (v\<lparr>c_rdb := r'\<rparr>) \<and> rdb_knows r' (insert (word_index w) A)))"
proof -
  have get: "has_rtcp_view (wld st) a v" "srtp_get_stream (wld st) (session st) (c_ssrc v) = Some (Some a)" "stream_template (session st) \<noteq> Some a"
    using e by (simp_all add: rtcp_endpoint_def)
  consider "c \<noteq> err_status_ok" | "c = err_status_ok" "t \<noteq> rtcp_tag v (b @ be32_bytes w)" | "c = err_status_ok" "t = rtcp_tag v (b @ be32_bytes w)"
    by blast
  then show ?thesis
  proof cases
    case 1
    with srtp_unprotect_rtcp_old [OF get(1,2) h r, of c stack] show ?thesis by (auto simp: c_def)
  next
    case 2
    with srtp_unprotect_rtcp_forged_run [OF get(1,2) h r, of stack] rtcp_endpoint_step [OF e] show ?thesis by (auto simp: c_def)
  next
    case 3
    then obtain r' where "rdb_add_index (c_rdb v) (word_index w) = Some r'" "rdb_knows r' (insert (word_index w) A)"
      using rdb_knows_add [OF k srtcp_word_index, of w] unfolding c_def by blast
    with srtp_unprotect_rtcp_run [OF get h r, of r' stack] rtcp_endpoint_step [OF e] 3 show ?thesis
      by (fastforce simp: c_def)
  qed
qed

theorem srtp_unprotect_rtcp_decides_witness:
  "\<exists>ctx w t st'. srtp_create example_world [example_policy (replicate 32 7)] = Some (err_status_ok, Some ctx, w) \<and>
    srtp_unprotect_rtcp (\<lambda>_. 0) (load_packet (example_report 9 @ be32_bytes 5 @ t) 26 (start_state ctx w)) = Some (err_status_ok, st') \<and>
    packet st' = example_report 9 @ be32_bytes 5 @ t \<and> pkt_octet_len st' = 12"
proof -
  let ?v = "policy_rtcp_view (example_policy (replicate 32 7)) (replicate 32 7)" let ?b = "example_report 9"
  obtain ctx w a where c: "srtp_create example_world [example_policy (replicate 32 7)] = Some (err_status_ok, Some ctx, w)"
      "rtcp_endpoint (start_state ctx w) a ?v"
    using created_rtcp_endpoint [of example_world "example_policy (replicate 32 7)" "replicate 32 7"] by auto
  define t where "t = rtcp_tag ?v (?b @ be32_bytes 5)"
  let ?st = "load_packet (?b @ be32_bytes 5 @ t) 26 (start_state ctx w)"
  have v: "c_rdb ?v = rdb_init" "c_tag_len ?v = 10"
    by (simp_all add: policy_rtcp_view_def example_policy_def crypto_policy_set_rtcp_default_def)
  have m: "rtcp_message ?v ?b" by (rule example_report_message)
  have t: "length t = 10" by (simp add: t_def v)
  have i: "word_index 5 = 5" "\<not> word_enc 5"
    using trailer_read [of 5 False] by (simp_all add: word_index_def word_enc_def)
  have k: "rdb_knows (c_rdb ?v) {}" using rdb_init_holds by (auto simp: v rdb_knows_def)
  have h: "holds_packet ?st ?b 5 t []" using t by (simp add: holds_packet_def example_report_def)
  have r: "rtcp_received ?v ?b 5 t" using v t m by (simp add: rtcp_received_def rtcp_message_def)
  have chk: "rdb_check (c_rdb ?v) (word_index 5) = err_status_ok"
    unfolding i v by (simp add: rdb_check_def rdb_init_def v128_get_bit_def)
  have "rtcp_endpoint ?st a ?v" using c by simp
  from srtp_unprotect_rtcp_decides [OF this k h r, of "\<lambda>_. 0"] chk i(2) c(1) show ?thesis
    unfolding t_def [symmetric] by (auto simp: rtcp_body_def example_report_def)
qed

end
