(* ===== verification/Srtp_Traffic.thy ===== *)
theory Srtp_Traffic
  imports Srtcp
begin

text \<open>
  What packet processing does to memory. Whatever a packet holds, the four functions of
  \<^verbatim>\<open>srtp/srtp.c\<close> that process packets neither allocate nor free an object, nor change which objects a
  stream owns or which type they have, as long as the session has no template. A session
  can therefore be deallocated after any traffic, which gives back exactly what creating it took.
\<close>

subsection \<open>The shape of a state\<close>

definition stream_parts :: "srtp_stream_ctx_t \<Rightarrow> u32 \<times> addr \<times> addr \<times> addr \<times> addr \<times> addr" where
  "stream_parts s = (ssrc s, rtp_cipher s, rtp_auth s, limit s, rtcp_cipher s, rtcp_auth s)"

abbreviation cipher_type_of :: "cipher_t \<Rightarrow> cipher_type_t" where
  "cipher_type_of c \<equiv> ctx_type (cipher_state c)"

abbreviation auth_type_of :: "auth_t \<Rightarrow> auth_type_t" where
  "auth_type_of au \<equiv> auth_ctx_type (auth_state au)"

definition same_shape :: "pstate \<Rightarrow> pstate \<Rightarrow> bool" where
  "same_shape st st' \<longleftrightarrow> session st' = session st \<and>
     (\<forall>a. map_option stream_parts (streams (wld st') a) = map_option stream_parts (streams (wld st) a)) \<and>
     (\<forall>p. map_option cipher_type_of (ciphers (mem (wld st')) p) = map_option cipher_type_of (ciphers (mem (wld st)) p)) \<and>
     (\<forall>p. map_option auth_type_of (auths (mem (wld st')) p) = map_option auth_type_of (auths (mem (wld st)) p)) \<and>
     dom (limits (mem (wld st'))) = dom (limits (mem (wld st))) \<and>
     cipher_refs (mem (wld st')) = cipher_refs (mem (wld st)) \<and> auth_refs (mem (wld st')) = auth_refs (mem (wld st)) \<and>
     mallocs (mem (wld st')) = mallocs (mem (wld st)) \<and> kernel (wld st') = kernel (wld st)"

lemma same_shape_refl [simp]: "same_shape st st"
  by (simp add: same_shape_def)

lemma same_shape_trans: "same_shape st st' \<Longrightarrow> same_shape st' st'' \<Longrightarrow> same_shape st st''"
  by (simp add: same_shape_def)

lemma dom_kept: "\<forall>a. map_option f (m' a) = map_option f (m a) \<Longrightarrow> dom m' = dom m"
  by (metis (no_types, lifting) dom_map_option_comp option.map_disc_iff domIff subsetI subset_antisym)

lemma same_shape_doms:
  assumes "same_shape st st'"
  shows "dom (streams (wld st')) = dom (streams (wld st))" "dom (ciphers (mem (wld st'))) = dom (ciphers (mem (wld st)))"
    "dom (auths (mem (wld st'))) = dom (auths (mem (wld st)))" "dom (limits (mem (wld st'))) = dom (limits (mem (wld st)))"
proof -
  note s = assms [unfolded same_shape_def]
  show "dom (streams (wld st')) = dom (streams (wld st))" by (rule dom_kept [of stream_parts]) (use s in blast)
  show "dom (ciphers (mem (wld st'))) = dom (ciphers (mem (wld st)))" by (rule dom_kept [of cipher_type_of]) (use s in blast)
  show "dom (auths (mem (wld st'))) = dom (auths (mem (wld st)))" by (rule dom_kept [of auth_type_of]) (use s in blast)
  show "dom (limits (mem (wld st'))) = dom (limits (mem (wld st)))" using s by blast
qed

lemma same_shape_stores:
  "streams (wld st) a = Some s \<Longrightarrow> stream_parts s' = stream_parts s \<Longrightarrow> same_shape st (put_stream a s' st)"
  "ciphers (mem (wld st)) p = Some c \<Longrightarrow> cipher_type_of c' = cipher_type_of c \<Longrightarrow> same_shape st (store_cipher p c' st)"
  "auths (mem (wld st)) p = Some au \<Longrightarrow> auth_type_of au' = auth_type_of au \<Longrightarrow> same_shape st (store_auth p au' st)"
  "limits (mem (wld st)) p = Some l \<Longrightarrow> same_shape st (store_limit p l' st)"
  by (auto simp: same_shape_def store_defs)

lemma same_shape_rest:
  "same_shape st (st\<lparr>packet := pkt\<rparr>)" "same_shape st (st\<lparr>pkt_octet_len := n\<rparr>)" "same_shape st (load_packet pkt n st)"
  "same_shape st (st\<lparr>wld := srtp_handle_event (wld st) a e\<rparr>)"
  by (simp_all add: same_shape_def load_packet_def srtp_handle_event_def)

text \<open>The operations on objects keep their types.\<close>

lemma cipher_types_kept:
  "cipher_type_of (snd (cipher_set_iv c iv)) = cipher_type_of c"
  "cipher_encrypt c buf len = Some (status, c', buf', len') \<Longrightarrow> cipher_type_of c' = cipher_type_of c"
  "cipher_output c buf n = Some (status, c', buf') \<Longrightarrow> cipher_type_of c' = cipher_type_of c"
proof -
  show e: "cipher_type_of c' = cipher_type_of c" if "cipher_encrypt c buf len = Some (status, c', buf', len')" for buf len status c' buf' len'
    using that by (auto simp: cipher_encrypt_def case_prod_unfold Let_def split: cipher_ctx.splits)
  show "cipher_type_of (snd (cipher_set_iv c iv)) = cipher_type_of c"
    by (simp add: cipher_set_iv_def split: cipher_ctx.split)
  show "cipher_type_of c' = cipher_type_of c" if "cipher_output c buf n = Some (status, c', buf')"
    using that e by (auto simp: cipher_output_def split: option.splits)
qed

lemma auth_types_kept:
  "auth_type_of (snd (auth_start au)) = auth_type_of au"
  "auth_type_of (snd (auth_update au x)) = auth_type_of au"
  "auth_type_of (fst (snd (auth_compute au x))) = auth_type_of au"
  by (simp_all add: auth_start_def auth_update_def auth_compute_def case_prod_unfold Let_def split: auth_ctx.split)

subsection \<open>Stages that keep the shape\<close>

definition keeps :: "'a stage \<Rightarrow> bool" where
  "keeps m \<longleftrightarrow> (\<forall>st r st'. stream_template (session st) = None \<longrightarrow> m st = Some (r, st') \<longrightarrow> same_shape st st')"

named_theorems keeps_intros

lemma keepsI: "(\<And>st r st'. stream_template (session st) = None \<Longrightarrow> m st = Some (r, st') \<Longrightarrow> same_shape st st') \<Longrightarrow> keeps m"
  unfolding keeps_def by blast

lemma keeps_seq [keeps_intros]:
  assumes "keeps m" "\<And>x. keeps (f x)"
  shows "keeps (seq m f)"
proof (rule keepsI)
  fix st r st' assume n: "stream_template (session st) = None" and s: "seq m f st = Some (r, st')"
  obtain r1 st1 where m: "m st = Some (r1, st1)" using s by (auto simp: seq_def split: option.splits)
  then have 1: "same_shape st st1" using assms(1) n by (auto simp: keeps_def)
  show "same_shape st st'"
  proof (cases r1)
    case (Inl e)
    then show ?thesis using s m 1 by (simp add: seq_def)
  next
    case (Inr x)
    have "stream_template (session st1) = None" using 1 n by (simp add: same_shape_def)
    with Inr s m assms(2) [of x] have "same_shape st1 st'" by (auto simp: keeps_def seq_def)
    with 1 show ?thesis by (rule same_shape_trans)
  qed
qed

lemma keeps_if [keeps_intros]: "keeps m1 \<Longrightarrow> keeps m2 \<Longrightarrow> keeps (if b then m1 else m2)"
  by simp

lemma keeps_state: "(\<And>st. keeps (m st)) \<Longrightarrow> keeps (\<lambda>st. m st st)"
  unfolding keeps_def by blast

lemma keeps_reads [keeps_intros]:
  "keeps (continue x)" "keeps (stop e)" "keeps (require e status)" "keeps (the_stream a)" "keeps (the_cipher p)" "keeps (the_auth p)"
  "keeps (read_packet n)" "keeps (lookup_stream y)" "keeps (rtp_layout s)" "keeps (write_tmp tag tmp)" "keeps (compare_tags tmp off len)"
  "keeps (read_trailer off)"
  by (auto intro!: keepsI simp: continue_def stop_def require_def the_stream_def the_cipher_def the_auth_def read_packet_def
      lookup_stream_def rtp_layout_def write_tmp_def compare_tags_def read_trailer_def Let_def split: option.splits if_splits)

lemma keeps_packet [keeps_intros]:
  "keeps (write_packet off bs)" "keeps (change (\<lambda>st. st\<lparr>pkt_octet_len := n\<rparr>))"
  by (auto intro!: keepsI simp: write_packet_def change_def same_shape_rest split: if_splits)

lemma keeps_settle [keeps_intros]: "keeps (settle_stream a hdr)"
  by (rule keepsI) (simp add: settle_stream_def continue_def)

text \<open>Stages that read an object, change it and store it.\<close>

lemma keeps_set_iv [keeps_intros]: "keeps (run_cipher_set_iv p iv)"
proof (rule keepsI)
  fix st :: pstate and r st' assume "run_cipher_set_iv p iv st = Some (r, st')"
  then obtain c where "ciphers (mem (wld st)) p = Some c" "st' = store_cipher p (snd (cipher_set_iv c iv)) st"
    by (auto simp: run_cipher_set_iv_def seq_def the_cipher_def change_def continue_def case_prod_unfold Let_def split: option.splits)
  then show "same_shape st st'" using same_shape_stores(2) cipher_types_kept(1) by blast
qed

lemma keeps_output [keeps_intros]: "keeps (run_cipher_output p off n)"
proof (rule keepsI)
  fix st :: pstate and r st' assume "run_cipher_output p off n st = Some (r, st')"
  then obtain c buf status c' buf' pkt where c: "ciphers (mem (wld st)) p = Some c" "cipher_output c buf n = Some (status, c', buf')"
      "st' = store_cipher p c' (st\<lparr>packet := pkt\<rparr>)"
    by (auto simp: run_cipher_output_def seq_def the_cipher_def continue_def in_place_def split: option.splits if_splits)
  from c(1) have "same_shape (st\<lparr>packet := pkt\<rparr>) st'"
    unfolding c(3) by (intro same_shape_stores(2) [where c = c] cipher_types_kept(3) [OF c(2)]) simp
  then show "same_shape st st'" using same_shape_rest(1) same_shape_trans by blast
qed

lemma keeps_encrypt [keeps_intros]: "keeps (run_cipher_encrypt p off n)"
proof (rule keepsI)
  fix st :: pstate and r st' assume "run_cipher_encrypt p off n st = Some (r, st')"
  then obtain c buf status c' buf' n' pkt where c: "ciphers (mem (wld st)) p = Some c" "cipher_encrypt c buf n = Some (status, c', buf', n')"
      "st' = store_cipher p c' (st\<lparr>packet := pkt\<rparr>)"
    by (auto simp: run_cipher_encrypt_def seq_def the_cipher_def continue_def in_place_def split: option.splits if_splits)
  from c(1) have "same_shape (st\<lparr>packet := pkt\<rparr>) st'"
    unfolding c(3) by (intro same_shape_stores(2) [where c = c] cipher_types_kept(2) [OF c(2)]) simp
  then show "same_shape st st'" using same_shape_rest(1) same_shape_trans by blast
qed

lemma keeps_direction [keeps_intros]: "keeps (verify_direction d a)"
proof (rule keepsI)
  fix st :: pstate and r st' assume "verify_direction d a st = Some (r, st')"
  then obtain s where "streams (wld st) a = Some s"
      "st' = st \<or> st' = put_stream a (s\<lparr>direction := d\<rparr>) st \<or> st' = st\<lparr>wld := srtp_handle_event (wld st) a event_ssrc_collision\<rparr>"
    by (auto simp: verify_direction_def seq_def the_stream_def change_def continue_def split: option.splits if_splits)
  then show "same_shape st st'" using same_shape_rest(4) by (auto intro: same_shape_stores(1) simp: stream_parts_def)
qed

lemma keeps_charge [keeps_intros]: "keeps (charge_key a)"
proof (rule keepsI)
  fix st :: pstate and r st' assume h: "charge_key a st = Some (r, st')"
  then obtain s l where s: "streams (wld st) a = Some s" "limits (mem (wld st)) (limit s) = Some l"
    by (auto simp: charge_key_def seq_def the_stream_def split: option.splits)
  let ?st = "store_limit (limit s) (snd (key_limit_update l)) st"
  have "st' = ?st \<or> (\<exists>e. st' = ?st\<lparr>wld := srtp_handle_event (wld ?st) a e\<rparr>)"
    using h s by (auto simp: charge_key_def continue_def stop_def case_prod_unfold Let_def split: key_event_t.splits)
  moreover have "same_shape st ?st" using s(2) by (rule same_shape_stores(4))
  ultimately show "same_shape st st'" using same_shape_rest(4) same_shape_trans by blast
qed

lemma same_shape_databases:
  "streams (wld st) a = Some s \<Longrightarrow> same_shape st (put_stream a (s\<lparr>rtp_rdbx := r\<rparr>) st)"
  "streams (wld st) a = Some s \<Longrightarrow> same_shape st (put_stream a (s\<lparr>rtcp_rdb := q\<rparr>) st)"
  by (auto intro!: same_shape_stores(1) simp: stream_parts_def)

lemma keeps_indices [keeps_intros]:
  "keeps (protect_index a)" "keeps (record_index a delta)" "keeps (rtcp_record_index a i)" "keeps (rtcp_next_index a)"
  by (auto intro!: keepsI same_shape_databases simp: protect_index_def record_index_def rtcp_record_index_def rtcp_next_index_def
      seq_def the_stream_def change_def require_def continue_def stop_def case_prod_unfold Let_def split: option.splits if_splits)

lemma keeps_unprotect_index [keeps_intros]: "keeps unprotect_index"
proof (rule keepsI)
  fix st :: pstate and r st' assume "unprotect_index st = Some (r, st')"
  then have "st' = st"
    by (auto simp: unprotect_index_def lookup_stream_def seq_def the_stream_def require_def continue_def stop_def case_prod_unfold Let_def
        split: option.splits if_splits sum.splits)
  then show "same_shape st st'" by simp
qed

lemma keeps_streams [keeps_intros]: "keeps protect_stream" "keeps rtcp_stream" "keeps rtcp_found_stream"
  by (auto intro!: keepsI simp: protect_stream_def rtcp_stream_def rtcp_found_stream_def lookup_stream_def seq_def continue_def stop_def
      split: option.splits)

text \<open>
  Stages that store an authentication object more than once: each time one of the type \<open>T\<close> that the
  object at \<open>p\<close> has.
\<close>

definition keeps_typed :: "addr \<Rightarrow> auth_type_t \<Rightarrow> 'a stage \<Rightarrow> bool" where
  "keeps_typed p T m \<longleftrightarrow> (\<forall>st r st'. stream_template (session st) = None \<longrightarrow>
     map_option auth_type_of (auths (mem (wld st)) p) = Some T \<longrightarrow> m st = Some (r, st') \<longrightarrow> same_shape st st')"

named_theorems typed_intros

lemma typed_keeps: "keeps m \<Longrightarrow> keeps_typed p T m"
  by (simp add: keeps_def keeps_typed_def)

lemma typed_seq [typed_intros]:
  assumes "keeps_typed p T m" "\<And>x. keeps_typed p T (f x)"
  shows "keeps_typed p T (seq m f)"
  unfolding keeps_typed_def
proof (intro allI impI)
  fix st r st' assume n: "stream_template (session st) = None" "map_option auth_type_of (auths (mem (wld st)) p) = Some T"
    and s: "seq m f st = Some (r, st')"
  obtain r1 st1 where m: "m st = Some (r1, st1)" using s by (auto simp: seq_def split: option.splits)
  then have 1: "same_shape st st1" using assms(1) n unfolding keeps_typed_def by blast
  show "same_shape st st'"
  proof (cases r1)
    case (Inl e)
    then show ?thesis using s m 1 by (simp add: seq_def)
  next
    case (Inr x)
    have "stream_template (session st1) = None" "map_option auth_type_of (auths (mem (wld st1)) p) = Some T"
      using 1 n by (simp_all add: same_shape_def)
    moreover have "f x st1 = Some (r, st')" using Inr s m by (simp add: seq_def)
    ultimately have "same_shape st1 st'" using assms(2) [of x] unfolding keeps_typed_def by blast
    with 1 show ?thesis by (rule same_shape_trans)
  qed
qed

lemma typed_store [typed_intros]: "auth_type_of au = T \<Longrightarrow> keeps_typed p T (change (store_auth p au))"
  by (auto simp: keeps_typed_def change_def intro!: same_shape_stores(3))

lemma typed_rest [typed_intros]:
  "keeps_typed p T (continue x)" "keeps_typed p T (require e status)" "keeps_typed p T (read_packet n)"
  "keeps_typed p T (write_packet off bs)" "keeps_typed p T (write_tmp tag tmp)" "keeps_typed p T (compare_tags tmp off len)"
  by (intro typed_keeps keeps_intros)+

lemma keeps_the_auth: "(\<And>au. keeps_typed p (auth_type_of au) (f au)) \<Longrightarrow> keeps (seq (the_auth p) f)"
  by (auto simp: keeps_def keeps_typed_def seq_def the_auth_def split: option.splits)

lemma keeps_tags [keeps_intros]:
  "keeps (protect_tag s off roc)" "keeps (rtcp_protect_tag s off)" "keeps (rtcp_unprotect_tag s off len tmp)"
  unfolding protect_tag_def rtcp_protect_tag_def rtcp_unprotect_tag_def Let_def case_prod_unfold
  by (intro keeps_the_auth typed_intros; simp add: auth_types_kept)+

lemma keeps_prefixes [keeps_intros]:
  "keeps (protect_prefix s off)" "keeps (rtcp_unprotect_prefix s off)" "keeps (unprotect_prefix s tmp)"
proof -
  show "keeps (protect_prefix s off)" "keeps (rtcp_unprotect_prefix s off)"
    unfolding protect_prefix_def rtcp_unprotect_prefix_def by (intro keeps_intros)+
  show "keeps (unprotect_prefix s tmp)"
  proof (rule keepsI)
    fix st :: pstate and r st' assume "unprotect_prefix s tmp st = Some (r, st')"
    then show "same_shape st st'"
      by (auto intro!: same_shape_stores(2) cipher_types_kept(3) simp: unprotect_prefix_def seq_def the_auth_def the_cipher_def change_def
          require_def continue_def stop_def split: option.splits if_splits)
  qed
qed

lemma keeps_unprotect_tag [keeps_intros]: "keeps (unprotect_tag s off len roc tmp)"
  unfolding unprotect_tag_def Let_def case_prod_unfold
  by (intro keeps_seq keeps_prefixes keeps_the_auth typed_intros; simp add: auth_types_kept)

lemma keeps_rest [keeps_intros]:
  "keeps check_length" "keeps read_rtcp_header" "keeps (rtcp_check_index s seq_num)" "keeps (rtp_set_iv p i)" "keeps (rtcp_set_iv p n)" "keeps (crypt_payload p enc m)"
proof -
  show "keeps check_length" unfolding check_length_def [abs_def] by (auto intro!: keepsI simp: stop_def seq_def read_packet_def continue_def split: if_splits)
  show "keeps (rtcp_check_index s seq_num)" unfolding rtcp_check_index_def Let_def by (intro keeps_intros)
  show "keeps read_rtcp_header" unfolding read_rtcp_header_def by (intro keeps_intros)
  have "keeps (\<lambda>st. seq (run_cipher_set_iv p (iv st)) (require e) st)" for iv e
    by (rule keeps_state [of "\<lambda>st. seq (run_cipher_set_iv p (iv st)) (require e)"]) (intro keeps_intros)
  then show "keeps (rtp_set_iv p i)" "keeps (rtcp_set_iv p n)"
    unfolding rtp_set_iv_def rtcp_set_iv_def by (simp_all add: keeps_seq keeps_reads)
  show "keeps (crypt_payload p enc m)" unfolding crypt_payload_def by (cases enc) (auto intro!: keeps_intros)
qed

subsection \<open>The four functions and any traffic\<close>

lemma finish_keeps:
  assumes "keeps m" "stream_template (session st) = None" "finish m st = Some (status, st')"
  shows "same_shape st st'"
  using assms by (auto simp: keeps_def finish_def)

lemma keeps_pair [keeps_intros]: "(\<And>x y z. keeps (f x y z)) \<Longrightarrow> keeps (case p of (x, y, z) \<Rightarrow> f x y z)"
  by (cases p) simp

lemma packets_keep_shape:
  assumes "stream_template (session st) = None"
  shows "srtp_protect st = Some (status, st') \<Longrightarrow> same_shape st st'"
    "srtp_unprotect stack st = Some (status, st') \<Longrightarrow> same_shape st st'"
    "srtp_protect_rtcp st = Some (status, st') \<Longrightarrow> same_shape st st'"
    "srtp_unprotect_rtcp stack st = Some (status, st') \<Longrightarrow> same_shape st st'"
  unfolding srtp_protect_def srtp_unprotect_def srtp_protect_rtcp_def srtp_unprotect_rtcp_def Let_def
  by (erule finish_keeps [OF _ assms, rotated], intro keeps_intros)+

text \<open>Any sequence of calls, each with any packet and any length.\<close>

inductive traffic :: "pstate \<Rightarrow> pstate \<Rightarrow> bool" for st where
  no_packet: "traffic st st"
| sent: "traffic st st1 \<Longrightarrow> srtp_protect (load_packet pkt n st1) = Some (status, st2) \<Longrightarrow> traffic st st2"
| received: "traffic st st1 \<Longrightarrow> srtp_unprotect stack (load_packet pkt n st1) = Some (status, st2) \<Longrightarrow> traffic st st2"
| sent_rtcp: "traffic st st1 \<Longrightarrow> srtp_protect_rtcp (load_packet pkt n st1) = Some (status, st2) \<Longrightarrow> traffic st st2"
| received_rtcp: "traffic st st1 \<Longrightarrow> srtp_unprotect_rtcp stack (load_packet pkt n st1) = Some (status, st2) \<Longrightarrow> traffic st st2"

lemma traffic_shape:
  assumes "traffic st st'" "stream_template (session st) = None"
  shows "same_shape st st'"
  using assms
proof (induction rule: traffic.induct)
  case (sent st1 pkt n status st2)
  then have "same_shape (load_packet pkt n st1) st2" by (intro packets_keep_shape(1)) (auto simp: same_shape_def)
  with sent show ?case using same_shape_trans same_shape_rest(3) by blast
next
  case (received st1 stack pkt n status st2)
  then have "same_shape (load_packet pkt n st1) st2" by (intro packets_keep_shape(2)) (auto simp: same_shape_def)
  with received show ?case using same_shape_trans same_shape_rest(3) by blast
next
  case (sent_rtcp st1 pkt n status st2)
  then have "same_shape (load_packet pkt n st1) st2" by (intro packets_keep_shape(3)) (auto simp: same_shape_def)
  with sent_rtcp show ?case using same_shape_trans same_shape_rest(3) by blast
next
  case (received_rtcp st1 stack pkt n status st2)
  then have "same_shape (load_packet pkt n st1) st2" by (intro packets_keep_shape(4)) (auto simp: same_shape_def)
  with received_rtcp show ?case using same_shape_trans same_shape_rest(3) by blast
qed simp

subsection \<open>Releasing a session\<close>

text \<open>Nothing is stored at addresses that were never handed out.\<close>

definition fresh_heap :: "world \<Rightarrow> bool" where
  "fresh_heap w \<longleftrightarrow> (\<forall>q \<ge> mallocs (mem w). streams w q = None \<and> ciphers (mem w) q = None \<and> auths (mem w) q = None \<and> limits (mem w) q = None)"

definition same_memory :: "world \<Rightarrow> world \<Rightarrow> bool" where
  "same_memory w w' \<longleftrightarrow> dom (streams w') = dom (streams w) \<and> dom (ciphers (mem w')) = dom (ciphers (mem w)) \<and>
     dom (auths (mem w')) = dom (auths (mem w)) \<and> dom (limits (mem w')) = dom (limits (mem w)) \<and>
     cipher_refs (mem w') = cipher_refs (mem w) \<and> auth_refs (mem w') = auth_refs (mem w) \<and> kernel w' = kernel w"

text \<open>The five objects of a stream of its own.\<close>

definition owns :: "world \<Rightarrow> srtp_stream_ctx_t \<Rightarrow> bool" where
  "owns w s \<longleftrightarrow> rtp_cipher s \<noteq> rtcp_cipher s \<and> rtp_auth s \<noteq> rtcp_auth s \<and>
     map_option cipher_type_of (ciphers (mem w) (rtp_cipher s)) = Some aes_icm \<and>
     map_option cipher_type_of (ciphers (mem w) (rtcp_cipher s)) = Some aes_icm \<and>
     map_option auth_type_of (auths (mem w) (rtp_auth s)) = Some hmac \<and>
     map_option auth_type_of (auths (mem w) (rtcp_auth s)) = Some hmac \<and> limits (mem w) (limit s) \<noteq> None"

lemma dealloc_owned:
  assumes "streams w a = Some s" "owns w s"
  shows "\<exists>w'. srtp_dealloc w \<lparr>stream_list = [a], stream_template = None\<rparr> = Some (err_status_ok, w') \<and>
    dom (streams w') = dom (streams w) - {a} \<and> dom (ciphers (mem w')) = dom (ciphers (mem w)) - {rtp_cipher s, rtcp_cipher s} \<and>
    dom (auths (mem w')) = dom (auths (mem w)) - {rtp_auth s, rtcp_auth s} \<and> dom (limits (mem w')) = dom (limits (mem w)) - {limit s} \<and>
    cipher_refs (mem w') = (cipher_refs (mem w))(aes_icm := cipher_refs (mem w) aes_icm - 1 - 1) \<and>
    auth_refs (mem w') = (auth_refs (mem w))(hmac := auth_refs (mem w) hmac - 1 - 1) \<and> kernel w' = kernel w"
  using assms
  by (auto simp: owns_def srtp_dealloc_def srtp_stream_dealloc_def unless_shared_def free_cipher_def free_auth_def free_limit_def
      cipher_dealloc_def auth_dealloc_def aes_icm_dealloc_def hmac_dealloc_def drop_cipher_def drop_auth_def)

lemma new_objects_owned:
  assumes n: "new_objects p key a w w1" and h: "same_shape (start_state ctx w1) st"
  shows "\<exists>s. streams (wld st) a = Some s \<and> stream_parts s = stream_parts (new_stream p a) \<and> owns (wld st) s"
proof -
  obtain x1 x2 y1 y2 where k: "ciphers (mem w1) = (ciphers (mem w))(a + 1 \<mapsto> x1, a + 4 \<mapsto> x2)"
      "auths (mem w1) = (auths (mem w))(a + 2 \<mapsto> y1, a + 5 \<mapsto> y2)" "new_keys p key x1 x2 y1 y2"
    using n by (auto simp: new_objects_def)
  have "is_icm x1" "is_icm x2" using k(3) is_icm_keyed by (auto simp: new_keys_def derived_cipher_key_def)
  moreover have "auth_type_of y1 = hmac" "auth_type_of y2 = hmac"
    using k(3) by (auto simp: new_keys_def auth_keyed_def split: auth_ctx.splits)
  moreover have "map_option stream_parts (streams (wld st) a) = Some (stream_parts (new_stream p a))"
    using h n by (simp add: same_shape_def start_state_def new_objects_def)
  then obtain s where "streams (wld st) a = Some s" "stream_parts s = stream_parts (new_stream p a)" by auto
  moreover have "dom (limits (mem (wld st))) = dom (limits (mem w1))" "limits (mem w1) (a + 3) \<noteq> None"
    using h n by (simp_all add: same_shape_def start_state_def new_objects_def)
  ultimately show ?thesis
    using h k(1,2) by (auto simp: owns_def stream_parts_def new_stream_def same_shape_def start_state_def is_icm_def)
qed

lemma new_objects_dom:
  assumes n: "new_objects p key a w w1" and f: "fresh_heap w"
  shows "dom (streams w1) - {a} = dom (streams w)" "dom (ciphers (mem w1)) - {a + 1, a + 4} = dom (ciphers (mem w))"
    "dom (auths (mem w1)) - {a + 2, a + 5} = dom (auths (mem w))" "dom (limits (mem w1)) - {a + 3} = dom (limits (mem w))"
proof -
  have fresh: "streams w q = None" "ciphers (mem w) q = None" "auths (mem w) q = None" "limits (mem w) q = None" if "a \<le> q" for q
    using f n that by (auto simp: fresh_heap_def new_objects_def)
  obtain x1 x2 y1 y2 where k: "ciphers (mem w1) = (ciphers (mem w))(a + 1 \<mapsto> x1, a + 4 \<mapsto> x2)"
      "auths (mem w1) = (auths (mem w))(a + 2 \<mapsto> y1, a + 5 \<mapsto> y2)" "streams w1 = (streams w)(a \<mapsto> new_stream p a)"
      "limits (mem w1) = (limits (mem w))(a + 3 \<mapsto> \<lparr>num_left = 0xffffffffffff, key_state = key_state_normal\<rparr>)"
    using n by (auto simp: new_objects_def)
  show "dom (streams w1) - {a} = dom (streams w)" using fresh(1) [of a] unfolding k by (auto simp: dom_def)
  show "dom (ciphers (mem w1)) - {a + 1, a + 4} = dom (ciphers (mem w))"
    using fresh(2) [of "a + 1"] fresh(2) [of "a + 4"] unfolding k by (auto simp: dom_def)
  show "dom (auths (mem w1)) - {a + 2, a + 5} = dom (auths (mem w))"
    using fresh(3) [of "a + 2"] fresh(3) [of "a + 5"] unfolding k by (auto simp: dom_def)
  show "dom (limits (mem w1)) - {a + 3} = dom (limits (mem w))" using fresh(4) [of "a + 3"] unfolding k by (auto simp: dom_def)
qed

subsection \<open>Properties\<close>

text \<open>
  C9: the objects of a session. Whatever packet and length the four functions that process packets are
  called with in a session without template, and whatever they return, the streams of the session,
  the objects each stream owns and their types, the reference counts, the number of allocations and
  the crypto kernel are as before.
\<close>

theorem packets_keep_objects:
  assumes "stream_template (session st) = None"
    and "srtp_protect st = Some (status, st') \<or> srtp_unprotect stack st = Some (status, st') \<or>
      srtp_protect_rtcp st = Some (status, st') \<or> srtp_unprotect_rtcp stack st = Some (status, st')"
  shows "same_shape st st'"
  using assms(2) packets_keep_shape [OF assms(1)] by blast

theorem packets_keep_objects_witness:
  "\<exists>ctx w status st'. srtp_create example_world [example_policy (replicate 32 7)] = Some (err_status_ok, Some ctx, w) \<and>
    srtp_protect (load_packet (example_message 1 2 @ replicate 4 0) 16 (start_state ctx w)) = Some (status, st') \<and>
    same_shape (load_packet (example_message 1 2 @ replicate 4 0) 16 (start_state ctx w)) st'"
proof -
  let ?v = "policy_view (example_policy (replicate 32 7)) (replicate 32 7)"
  obtain ctx w a where c: "srtp_create example_world [example_policy (replicate 32 7)] = Some (err_status_ok, Some ctx, w)"
      "endpoint (start_state ctx w) a ?v" "stream_template ctx = None"
    using example_created by blast
  let ?st = "load_packet (example_message 1 2 @ replicate 4 0) 16 (start_state ctx w)"
  obtain d r where i: "send_index ?v (example_message 1 2) 0x102 d r" using first_index [of ?v "example_message 1 2"] by auto
  have u: "key_usable ?v" by (simp add: key_usable_def key_limit_update_def Let_def)
  obtain st' where "srtp_protect ?st = Some (err_status_ok, st')"
    using srtp_protect_run [of ?st a ?v "example_message 1 2" "replicate 4 0" 12 "0x102" d r] c i u by (auto simp: endpoint_def)
  moreover have "stream_template (session ?st) = None" using c(3) by (simp add: start_state_def)
  ultimately show ?thesis using packets_keep_objects [of ?st err_status_ok st'] c(1) by blast
qed

text \<open>
  C8: no leak. A session that is created from a standard policy, then processes any traffic whatever, and
  then is deallocated, gives back every stream, cipher, authentication function and key limit and
  every reference to the cipher and authentication types; the deallocation does not fault.
\<close>

theorem session_memory_balanced:
  assumes w: "ready w" "fresh_heap w" and p: "standard_policy p key"
  shows "\<exists>ctx w1. srtp_create w [p] = Some (err_status_ok, Some ctx, w1) \<and>
    (\<forall>st. traffic (start_state ctx w1) st \<longrightarrow>
      (\<exists>w2. srtp_dealloc (wld st) (session st) = Some (err_status_ok, w2) \<and> same_memory w w2))"
proof -
  obtain w1 a where c: "srtp_create w [p] = Some (err_status_ok, Some \<lparr>stream_list = [a], stream_template = None\<rparr>, w1)"
      and n: "new_objects p key a w w1" using srtp_create_objects [OF w(1) p] by blast
  let ?ctx = "\<lparr>stream_list = [a], stream_template = None\<rparr>"
  have "\<exists>w2. srtp_dealloc (wld st) (session st) = Some (err_status_ok, w2) \<and> same_memory w w2" if "traffic (start_state ?ctx w1) st" for st
  proof -
    have h: "same_shape (start_state ?ctx w1) st" using that by (rule traffic_shape) (simp add: start_state_def)
    obtain s where s: "streams (wld st) a = Some s" "stream_parts s = stream_parts (new_stream p a)" "owns (wld st) s"
      using new_objects_owned [OF n h] by blast
    have parts: "rtp_cipher s = a + 1" "rtp_auth s = a + 2" "limit s = a + 3" "rtcp_cipher s = a + 4" "rtcp_auth s = a + 5"
      using s(2) by (simp_all add: stream_parts_def new_stream_def)
    note doms = same_shape_doms [OF h, unfolded start_state_def, simplified]
    have old: "dom (streams w1) - {a} = dom (streams w)" "dom (ciphers (mem w1)) - {a + 1, a + 4} = dom (ciphers (mem w))"
        "dom (auths (mem w1)) - {a + 2, a + 5} = dom (auths (mem w))" "dom (limits (mem w1)) - {a + 3} = dom (limits (mem w))"
      using new_objects_dom [OF n w(2)] by simp_all
    have refs: "cipher_refs (mem w) = (cipher_refs (mem (wld st)))(aes_icm := cipher_refs (mem (wld st)) aes_icm - 1 - 1)"
        "auth_refs (mem w) = (auth_refs (mem (wld st)))(hmac := auth_refs (mem (wld st)) hmac - 1 - 1)"
        "kernel (wld st) = kernel w" "session st = ?ctx"
      using h n by (simp_all add: same_shape_def start_state_def new_objects_def)
    from dealloc_owned [OF s(1,3), unfolded parts doms old] refs show ?thesis unfolding same_memory_def by metis
  qed
  with c show ?thesis by blast
qed

theorem session_memory_balanced_witness:
  "\<exists>ctx w1 w2. srtp_create example_world [example_policy (replicate 32 7)] = Some (err_status_ok, Some ctx, w1) \<and>
    srtp_dealloc w1 ctx = Some (err_status_ok, w2) \<and> same_memory example_world w2"
proof -
  have "fresh_heap example_world" by (simp add: fresh_heap_def example_world_def)
  from session_memory_balanced [OF _ this, of "example_policy (replicate 32 7)" "replicate 32 7"] obtain ctx w1 where
    c: "srtp_create example_world [example_policy (replicate 32 7)] = Some (err_status_ok, Some ctx, w1)"
    and d: "\<forall>st. traffic (start_state ctx w1) st \<longrightarrow> (\<exists>w2. srtp_dealloc (wld st) (session st) = Some (err_status_ok, w2) \<and> same_memory example_world w2)"
    by auto
  from d [rule_format, OF traffic.no_packet] c show ?thesis by (auto simp: start_state_def)
qed

text \<open>
  C26: removing the first stream. \<^verbatim>\<open>srtp_remove_stream\<close> succeeds on the only stream of a session, but the
  session still points to it: every later lookup reads the freed stream, so that protecting any packet
  with a full header and deallocating the session fault.
\<close>

theorem remove_first_stream_dangles:
  assumes w: "ready w" and p: "standard_policy p key"
  shows "\<exists>ctx w1 ctx' w2. srtp_create w [p] = Some (err_status_ok, Some ctx, w1) \<and>
    srtp_remove_stream w1 (Some ctx) (htonl (ssrc_value p)) = Some (err_status_ok, Some ctx', w2) \<and> ctx' = ctx \<and>
    (\<forall>x. srtp_get_stream w2 ctx' x = None) \<and> srtp_dealloc w2 ctx' = None \<and>
    (\<forall>pkt n. 12 \<le> n \<and> 12 \<le> length pkt \<longrightarrow> srtp_protect (load_packet pkt n (start_state ctx' w2)) = None)"
proof -
  obtain w1 a where c: "srtp_create w [p] = Some (err_status_ok, Some \<lparr>stream_list = [a], stream_template = None\<rparr>, w1)"
      and n: "new_objects p key a w w1" using srtp_create_objects [OF w p] by blast
  let ?ctx = "\<lparr>stream_list = [a], stream_template = None\<rparr>"
  obtain s where s: "streams w1 a = Some s" "stream_parts s = stream_parts (new_stream p a)" "owns w1 s"
    using new_objects_owned [OF n, of ?ctx "start_state ?ctx w1"] by (auto simp: start_state_def)
  have x: "ssrc s = htonl (ssrc_value p)" using s(2) by (simp add: stream_parts_def new_stream_def)
  obtain w2 where w2: "srtp_stream_dealloc w1 ?ctx a = Some (err_status_ok, w2)" "streams w2 a = None"
    using s(1,3)
    by (auto simp: owns_def srtp_stream_dealloc_def unless_shared_def free_cipher_def free_auth_def free_limit_def
      cipher_dealloc_def auth_dealloc_def aes_icm_dealloc_def hmac_dealloc_def drop_cipher_def drop_auth_def)
  have r: "srtp_remove_stream w1 (Some ?ctx) (htonl (ssrc_value p)) = Some (err_status_ok, Some ?ctx, w2)"
    using s(1) x w2(1) by (simp add: srtp_remove_stream_def unlink_def Let_def)
  have g: "srtp_get_stream w2 ?ctx y = None" for y using w2(2) by (simp add: srtp_get_stream_def)
  have "srtp_protect (load_packet pkt m (start_state ?ctx w2)) = None" if "12 \<le> m" "12 \<le> length pkt" for pkt m
  proof -
    let ?st = "load_packet pkt m (start_state ?ctx w2)"
    have "check_length ?st = Some (Inr (), ?st)" using that by (intro run_check_length) simp_all
    moreover have "protect_stream ?st = None" using g by (simp add: protect_stream_def lookup_stream_def seq_def start_state_def)
    ultimately show ?thesis by (simp add: srtp_protect_def finish_def seq_def)
  qed
  moreover have "srtp_dealloc w2 ?ctx = None" using w2(2) by (simp add: srtp_dealloc_def srtp_stream_dealloc_def)
  ultimately show ?thesis using c r g by blast
qed

theorem remove_first_stream_dangles_witness:
  "\<exists>ctx w1 w2. srtp_create example_world [example_policy (replicate 32 7)] = Some (err_status_ok, Some ctx, w1) \<and>
    srtp_remove_stream w1 (Some ctx) 0x04030201 = Some (err_status_ok, Some ctx, w2) \<and>
    srtp_protect (load_packet (example_message 0 1) 16 (start_state ctx w2)) = None"
proof -
  have "htonl (ssrc_value (example_policy (replicate 32 7))) = 0x04030201"
    by (simp add: example_policy_def bswap32_def be32_of_def le32_of_def)
  with remove_first_stream_dangles [of example_world "example_policy (replicate 32 7)" "replicate 32 7"] show ?thesis by fastforce
qed

end
