(* ===== verification/Ae_Xfm.thy ===== *)
theory Ae_Xfm
  imports Kernel_Life
begin

text \<open>
  The authenticated encryption transforms of \<^verbatim>\<open>crypto/ae_xfm/xfm.c\<close>: AES in CBC mode with an
  HMAC-SHA1 tag of 12 octets, in two forms, and a null transform. The lemmas run the functions
  symbolically: what \<^verbatim>\<open>enc\<close> writes, that \<^verbatim>\<open>dec\<close> undoes it, and that \<^verbatim>\<open>dec\<close> refuses a wrong tag before it
  touches the data.
\<close>

subsection \<open>Sequences of fallible calls\<close>

text \<open>\<^verbatim>\<open>status = f(...); if (status) return status;\<close> again and again; \<open>None\<close> is an access outside of a buffer.\<close>

type_synonym 's call = "'s \<Rightarrow> (err_status_t \<times> 's) option"

fun run_calls :: "'s call list \<Rightarrow> 's call" where
  "run_calls [] s = Some (err_status_ok, s)"
| "run_calls (f # fs) s =
     (case f s of
        None \<Rightarrow> None
      | Some (status, s) \<Rightarrow> if status \<noteq> err_status_ok then Some (status, s) else run_calls fs s)"

text \<open>
  The locals of the functions and the memory behind their pointers. The locals start with what is on
  the stack; \<open>x_rng\<close> is the state of the source of the vector.
\<close>

record 'g xfm =
  x_aes :: aes_cbc_ctx_t
  x_hmac :: hmac_ctx_t
  x_enc_key :: octets
  x_mac_key :: octets
  x_tmp_tag :: octets
  x_ciphertext_len :: u32
  x_iv :: octets
  x_opaque :: octets
  x_opaque_len :: u32
  x_rng :: 'g

abbreviation (input) KEY_LEN :: nat where "KEY_LEN \<equiv> 16"
abbreviation (input) ENC_KEY_LEN :: nat where "ENC_KEY_LEN \<equiv> 16"
abbreviation (input) MAC_KEY_LEN :: nat where "MAC_KEY_LEN \<equiv> 16"
abbreviation (input) IV_LEN :: nat where "IV_LEN \<equiv> 16"
abbreviation (input) TAG_LEN :: nat where "TAG_LEN \<equiv> 12"
abbreviation (input) NULL_TAG_LEN :: nat where "NULL_TAG_LEN \<equiv> 12"
abbreviation (input) MAX_EXPAND :: nat where "MAX_EXPAND \<equiv> 27"

subsection \<open>The calls\<close>

definition call_hmac_init :: "('g xfm \<Rightarrow> octets) \<Rightarrow> int \<Rightarrow> 'g xfm call" where
  "call_hmac_init key n s = map_option (map_prod id (\<lambda>m. s\<lparr>x_hmac := m\<rparr>)) (hmac_init (x_hmac s) (key s) n)"

definition call_enc_key :: "'g xfm call" where
  "call_enc_key s =
     (case hmac_compute (x_hmac s) [0x45, 0x4e, 0x43] (int ENC_KEY_LEN) of
        (status, m, k) \<Rightarrow> Some (status, s\<lparr>x_hmac := m, x_enc_key := k\<rparr>))"

definition call_mac_key :: "'g xfm call" where
  "call_mac_key s =
     (case hmac_compute (x_hmac s) [0x4d, 0x41, 0x43] (int MAC_KEY_LEN) of
        (status, m, k) \<Rightarrow> Some (status, s\<lparr>x_hmac := m, x_mac_key := k\<rparr>))"

text \<open>Two keys are derived from the input key, but only the key of the tag is used below.\<close>

definition derive_keys :: "octets \<Rightarrow> 'g xfm call list" where
  "derive_keys key =
     [call_hmac_init (\<lambda>_. key) (int KEY_LEN), call_enc_key, call_hmac_init (\<lambda>_. key) (int KEY_LEN), call_mac_key]"

definition call_aes_init :: "octets \<Rightarrow> cipher_direction_t \<Rightarrow> 'g xfm call" where
  "call_aes_init key dir s = map_option (map_prod id (\<lambda>c. s\<lparr>x_aes := c\<rparr>)) (aes_cbc_context_init (x_aes s) key dir)"

definition call_random_iv :: "'g rand_source_func_t \<Rightarrow> 'g xfm call" where
  "call_random_iv random s =
     (case random (x_rng s) (of_nat IV_LEN) of
        None \<Rightarrow> None
      | Some (status, dst, g) \<Rightarrow>
          if length (x_iv s) < length dst then None
          else Some (status, s\<lparr>x_iv := write_at 0 dst (x_iv s), x_rng := g\<rparr>))"

definition call_set_iv :: "'g xfm call" where
  "call_set_iv s =
     (if length (x_iv s) < IV_LEN then None
      else (case aes_cbc_set_iv (x_aes s) (v128_of_octets (take IV_LEN (x_iv s))) of (status, c) \<Rightarrow> Some (status, s\<lparr>x_aes := c\<rparr>)))"

definition call_encrypt :: "'g xfm call" where
  "call_encrypt s =
     map_option (\<lambda>(status, c, data, n). (status, s\<lparr>x_aes := c, x_opaque := data, x_opaque_len := n\<rparr>))
       (aes_cbc_nist_encrypt (x_aes s) (x_opaque s) (x_opaque_len s))"

definition call_decrypt :: "'g xfm call" where
  "call_decrypt s =
     map_option (\<lambda>(status, c, data, n). (status, s\<lparr>x_aes := c, x_opaque := data, x_opaque_len := n\<rparr>))
       (aes_cbc_nist_decrypt (x_aes s) (x_opaque s) (x_opaque_len s))"

definition call_hmac_start :: "'g xfm call" where
  "call_hmac_start s = (case hmac_start (x_hmac s) of (status, m) \<Rightarrow> Some (status, s\<lparr>x_hmac := m\<rparr>))"

definition call_hmac_clear :: "octets \<Rightarrow> u32 \<Rightarrow> 'g xfm call" where
  "call_hmac_clear clear clear_len s =
     (if length clear < unat clear_len then None
      else (case hmac_update (x_hmac s) (take (unat clear_len) clear) of (status, m) \<Rightarrow> Some (status, s\<lparr>x_hmac := m\<rparr>)))"

text \<open>The tag of the first \<open>n\<close> octets of the data behind what was absorbed, and the octets written.\<close>

definition compute_opaque :: "u32 \<Rightarrow> 'g xfm \<Rightarrow> (err_status_t \<times> hmac_ctx_t \<times> octets) option" where
  "compute_opaque n s =
     (if length (x_opaque s) < unat n then None
      else Some (hmac_compute (x_hmac s) (take (unat n) (x_opaque s)) (int TAG_LEN)))"

text \<open>The key, the start and the clear data of the tag.\<close>

definition start_tag :: "octets \<Rightarrow> u32 \<Rightarrow> 'g xfm call list" where
  "start_tag clear clear_len = [call_hmac_init x_mac_key (int MAC_KEY_LEN), call_hmac_start, call_hmac_clear clear clear_len]"

text \<open>\<open>run\<close> when the three pointers are given; nothing when none is; an error otherwise.\<close>

definition with_pointers ::
  "octets option \<Rightarrow> octets option \<Rightarrow> u32 option \<Rightarrow> (octets \<Rightarrow> octets \<Rightarrow> u32 \<Rightarrow> (err_status_t \<times> 'r) option) \<Rightarrow> (err_status_t \<times> 'r option) option" where
  "with_pointers iv opaque opaque_len run =
     (case (iv, opaque, opaque_len) of
        (None, None, None) \<Rightarrow> Some (err_status_ok, None)
      | (Some iv, Some opaque, Some opaque_len) \<Rightarrow> map_option (map_prod id Some) (run iv opaque opaque_len)
      | _ \<Rightarrow> Some (err_status_fail, None))"

definition load_xfm :: "'g xfm \<Rightarrow> octets \<Rightarrow> octets \<Rightarrow> u32 \<Rightarrow> 'g xfm" where
  "load_xfm s iv opaque opaque_len = s\<lparr>x_iv := iv, x_opaque := opaque, x_opaque_len := opaque_len\<rparr>"

subsection \<open>The transform with a tag of its own\<close>

text \<open>The tag behind its pointer is the second part of the result.\<close>

definition call_auth_tag :: "('g xfm \<times> octets) call" where
  "call_auth_tag = (\<lambda>(s, auth_tag).
     case compute_opaque (x_opaque_len s) s of
       None \<Rightarrow> None
     | Some (status, m, tag) \<Rightarrow>
         if length auth_tag < length tag then None else Some (status, s\<lparr>x_hmac := m\<rparr>, write_at 0 tag auth_tag))"

definition on_fst :: "'s call \<Rightarrow> ('s \<times> 't) call" where
  "on_fst f = (\<lambda>(s, t). map_option (\<lambda>(status, s). (status, s, t)) (f s))"

definition aes_128_cbc_hmac_sha1_96_func ::
  "octets \<Rightarrow> octets \<Rightarrow> u32 \<Rightarrow> octets option \<Rightarrow> octets option \<Rightarrow> u32 option \<Rightarrow> octets \<Rightarrow> kernel_env xfm \<Rightarrow>
     (err_status_t \<times> (kernel_env xfm \<times> octets) option) option" where
  "aes_128_cbc_hmac_sha1_96_func key clear clear_len iv opaque opaque_len auth_tag s =
     with_pointers iv opaque opaque_len (\<lambda>iv opaque opaque_len.
       run_calls
         (map on_fst (derive_keys key @
            [call_aes_init key direction_encrypt, call_random_iv crypto_get_random, call_set_iv, call_encrypt] @
            start_tag clear clear_len) @ [call_auth_tag])
         (load_xfm s iv opaque opaque_len, auth_tag))"

text \<open>The loop that compares tags stops at the first difference.\<close>

fun same_octets :: "nat \<Rightarrow> octets \<Rightarrow> octets \<Rightarrow> bool option" where
  "same_octets 0 xs ys = Some True"
| "same_octets (Suc n) (x # xs) (y # ys) = (if x \<noteq> y then Some False else same_octets n xs ys)"
| "same_octets (Suc n) _ _ = None"

text \<open>The inverse writes a new random vector over the one it was given, and authenticates what it decrypted.\<close>

definition call_check_tag :: "octets \<Rightarrow> 'g xfm call" where
  "call_check_tag auth_tag s =
     (case compute_opaque (x_opaque_len s) s of
        None \<Rightarrow> None
      | Some (status, m, tag) \<Rightarrow>
          (let s = s\<lparr>x_hmac := m, x_tmp_tag := tag\<rparr> in
           if status \<noteq> err_status_ok then Some (status, s)
           else map_option (\<lambda>same. (if same then err_status_ok else err_status_auth_fail, s)) (same_octets TAG_LEN tag auth_tag)))"

definition aes_128_cbc_hmac_sha1_96_inv ::
  "octets \<Rightarrow> octets \<Rightarrow> u32 \<Rightarrow> octets option \<Rightarrow> octets option \<Rightarrow> u32 option \<Rightarrow> octets \<Rightarrow> rng xfm \<Rightarrow>
     (err_status_t \<times> rng xfm option) option" where
  "aes_128_cbc_hmac_sha1_96_inv key clear clear_len iv opaque opaque_len auth_tag s =
     with_pointers iv opaque opaque_len (\<lambda>iv opaque opaque_len.
       run_calls
         (derive_keys key @
          [call_aes_init key direction_decrypt, call_random_iv rand_source_get_octet_string, call_set_iv, call_decrypt] @
          start_tag clear clear_len @ [call_check_tag auth_tag])
         (load_xfm s iv opaque opaque_len))"

subsection \<open>The transform with the tag behind the ciphertext\<close>

definition call_append_tag :: "'g xfm call" where
  "call_append_tag s =
     (case compute_opaque (x_opaque_len s) s of
        None \<Rightarrow> None
      | Some (status, m, tag) \<Rightarrow>
          if length (x_opaque s) < unat (x_opaque_len s) + length tag then None
          else Some (status, s\<lparr>x_hmac := m, x_opaque := write_at (unat (x_opaque_len s)) tag (x_opaque s)\<rparr>))"

definition call_add_tag_len :: "'g xfm call" where
  "call_add_tag_len s = Some (err_status_ok, s\<lparr>x_opaque_len := x_opaque_len s + of_nat TAG_LEN\<rparr>)"

definition aes_128_cbc_hmac_sha1_96_enc ::
  "octets \<Rightarrow> octets \<Rightarrow> u32 \<Rightarrow> octets option \<Rightarrow> octets option \<Rightarrow> u32 option \<Rightarrow> rng xfm \<Rightarrow> (err_status_t \<times> rng xfm option) option" where
  "aes_128_cbc_hmac_sha1_96_enc key clear clear_len iv opaque opaque_len s =
     with_pointers iv opaque opaque_len (\<lambda>iv opaque opaque_len.
       run_calls
         (derive_keys key @
          [call_aes_init key direction_encrypt, call_random_iv rand_source_get_octet_string, call_set_iv, call_encrypt] @
          start_tag clear clear_len @ [call_append_tag, call_add_tag_len])
         (load_xfm s iv opaque opaque_len))"

text \<open>The length of the ciphertext is computed modulo \<open>2 ^ 32\<close> before anything is known about the data.\<close>

definition call_ciphertext_len :: "'g xfm call" where
  "call_ciphertext_len s = Some (err_status_ok, s\<lparr>x_ciphertext_len := x_opaque_len s - of_nat TAG_LEN\<rparr>)"

definition call_verify_tag :: "'g xfm call" where
  "call_verify_tag s =
     (case compute_opaque (x_ciphertext_len s) s of
        None \<Rightarrow> None
      | Some (status, m, tag) \<Rightarrow>
          (let s = s\<lparr>x_hmac := m, x_tmp_tag := tag\<rparr> in
           if status \<noteq> err_status_ok then Some (status, s)
           else
             (case same_octets TAG_LEN tag (drop (unat (x_ciphertext_len s)) (x_opaque s)) of
                None \<Rightarrow> None
              | Some False \<Rightarrow> Some (err_status_auth_fail, s)
              | Some True \<Rightarrow> Some (err_status_ok, s\<lparr>x_opaque_len := x_opaque_len s - of_nat TAG_LEN\<rparr>))))"

definition call_decrypt_ciphertext :: "'g xfm call" where
  "call_decrypt_ciphertext s =
     map_option (\<lambda>(status, c, data, n). (status, s\<lparr>x_aes := c, x_opaque := data, x_ciphertext_len := n\<rparr>))
       (aes_cbc_nist_decrypt (x_aes s) (x_opaque s) (x_ciphertext_len s))"

definition call_plaintext_len :: "'g xfm call" where
  "call_plaintext_len s = Some (err_status_ok, s\<lparr>x_opaque_len := x_ciphertext_len s\<rparr>)"

definition aes_128_cbc_hmac_sha1_96_dec ::
  "octets \<Rightarrow> octets \<Rightarrow> u32 \<Rightarrow> octets option \<Rightarrow> octets option \<Rightarrow> u32 option \<Rightarrow> 'g xfm \<Rightarrow> (err_status_t \<times> 'g xfm option) option" where
  "aes_128_cbc_hmac_sha1_96_dec key clear clear_len iv opaque opaque_len s =
     with_pointers iv opaque opaque_len (\<lambda>iv opaque opaque_len.
       run_calls
         (derive_keys key @ [call_ciphertext_len] @ start_tag clear clear_len @
          [call_verify_tag, call_aes_init key direction_decrypt, call_set_iv, call_decrypt_ciphertext, call_plaintext_len])
         (load_xfm s iv opaque opaque_len))"

subsection \<open>The null transform\<close>

definition null_pattern :: "nat \<Rightarrow> octets" where
  "null_pattern n = map (\<lambda>i. of_nat (i + i * 16)) [0..<n]"

definition null_enc :: "octets option \<Rightarrow> octets option \<Rightarrow> u32 option \<Rightarrow> (err_status_t \<times> (octets \<times> octets \<times> u32) option) option" where
  "null_enc iv opaque opaque_len =
     with_pointers iv opaque opaque_len (\<lambda>iv opaque n.
       if length iv < IV_LEN \<or> length opaque < unat n + NULL_TAG_LEN then None
       else Some (err_status_ok, write_at 0 (null_pattern IV_LEN) iv,
         write_at (unat n) (null_pattern NULL_TAG_LEN) opaque, n + of_nat NULL_TAG_LEN))"

definition null_dec :: "octets option \<Rightarrow> octets option \<Rightarrow> u32 option \<Rightarrow> (err_status_t \<times> (octets \<times> octets \<times> u32) option) option" where
  "null_dec iv opaque opaque_len =
     with_pointers iv opaque opaque_len (\<lambda>iv opaque n. Some (err_status_ok, iv, opaque, n - of_nat NULL_TAG_LEN))"

datatype cryptoalg_func_t = Aes_128_Cbc_Hmac_Sha1_96_Enc | Aes_128_Cbc_Hmac_Sha1_96_Dec | Null_Enc | Null_Dec

record cryptoalg_ctx_t =
  enc :: cryptoalg_func_t
  dec :: cryptoalg_func_t
  alg_key_len :: u32
  alg_iv_len :: u32
  alg_auth_tag_len :: u32
  alg_max_expansion :: u32

definition cryptoalg_ctx :: cryptoalg_ctx_t where
  "cryptoalg_ctx = \<lparr>enc = Aes_128_Cbc_Hmac_Sha1_96_Enc, dec = Aes_128_Cbc_Hmac_Sha1_96_Dec, alg_key_len = of_nat KEY_LEN,
     alg_iv_len = of_nat IV_LEN, alg_auth_tag_len = of_nat TAG_LEN, alg_max_expansion = of_nat MAX_EXPAND\<rparr>"

definition null_cryptoalg_ctx :: cryptoalg_ctx_t where
  "null_cryptoalg_ctx = \<lparr>enc = Null_Enc, dec = Null_Dec, alg_key_len = of_nat KEY_LEN,
     alg_iv_len = of_nat IV_LEN, alg_auth_tag_len = of_nat NULL_TAG_LEN, alg_max_expansion = of_nat MAX_EXPAND\<rparr>"

text \<open>The two objects that a \<^verbatim>\<open>cryptoalg_t\<close> of this file can point to.\<close>

datatype cryptoalg_t = cryptoalg | null_cryptoalg

definition cryptoalg_get_id :: "cryptoalg_t option \<Rightarrow> int" where
  "cryptoalg_get_id c = (if c = Some cryptoalg then 1 else 0)"

definition cryptoalg_find_by_id :: "int \<Rightarrow> cryptoalg_t option" where
  "cryptoalg_find_by_id i = (if i = 1 then Some cryptoalg else None)"

subsection \<open>Running the calls\<close>

lemma run_calls_step: "f s = Some (err_status_ok, s') \<Longrightarrow> run_calls (f # fs) s = run_calls fs s'"
  by simp

lemma run_calls_stop: "f s = Some (status, s') \<Longrightarrow> status \<noteq> err_status_ok \<Longrightarrow> run_calls (f # fs) s = Some (status, s')"
  by simp

lemma same_octets_eq: "n \<le> length xs \<Longrightarrow> n \<le> length ys \<Longrightarrow> same_octets n xs ys = Some (take n xs = take n ys)"
proof (induction n xs ys rule: same_octets.induct)
  case (2 n x xs y ys)
  then show ?case by simp
qed auto

definition hmac_wf :: "hmac_ctx_t \<Rightarrow> bool" where
  "hmac_wf m \<longleftrightarrow> length (sha1_M (init_ctx m)) = 64"

lemma hmac_keyed_wf: "hmac_keyed m k \<Longrightarrow> hmac_wf m"
  using sha1.holds_wf by (auto simp: hmac_keyed_def hmac_wf_def)

text \<open>The context may be used right after its initialisation, as the derivation of the keys does.\<close>

lemma hmac_init_holds:
  assumes "hmac_wf m" "0 \<le> n" "n \<le> 20" "n \<le> int (length key)"
  shows "\<exists>m'. hmac_init m key n = Some (err_status_ok, m') \<and> hmac_holds m' (take (nat n) key) []"
proof -
  obtain m' where m': "hmac_init m key n = Some (err_status_ok, m')" "hmac_keyed m' (take (nat n) key)"
    using hmac_init_ok [of m n key] assms by (auto simp: hmac_wf_def)
  moreover from m'(1) have "hmac_ctx m' = init_ctx m'" by (auto simp: hmac_init_def Let_def split: if_splits)
  ultimately show ?thesis by (auto simp: hmac_holds_def hmac_keyed_def)
qed

definition ae_mac_key :: "octets \<Rightarrow> octets" where
  "ae_mac_key key = take 16 (hmac_sha1 (take 16 key) [0x4d, 0x41, 0x43])"

lemma length_ae_mac_key [simp]: "length (ae_mac_key key) = 16"
  by (simp add: ae_mac_key_def)

lemma run_derive_keys:
  assumes "hmac_wf (x_hmac s)" "16 \<le> length key"
  shows "\<exists>m k. hmac_wf m \<and> (\<forall>fs. run_calls (derive_keys key @ fs) s = run_calls fs (s\<lparr>x_enc_key := k, x_hmac := m, x_mac_key := ae_mac_key key\<rparr>))"
proof -
  obtain m1 where 1: "hmac_init (x_hmac s) key 16 = Some (err_status_ok, m1)" "hmac_holds m1 (take 16 key) []"
    using hmac_init_holds [OF assms(1), of 16 key] assms(2) by auto
  obtain m2 where 2: "hmac_compute m1 [0x45, 0x4e, 0x43] 16 = (err_status_ok, m2, take 16 (hmac_sha1 (take 16 key) [0x45, 0x4e, 0x43]))" "hmac_keyed m2 (take 16 key)"
    using hmac.compute_tag [OF 1(2), of "[0x45, 0x4e, 0x43]" 16] by auto
  obtain m3 where 3: "hmac_init m2 key 16 = Some (err_status_ok, m3)" "hmac_holds m3 (take 16 key) []"
    using hmac_init_holds [OF hmac_keyed_wf [OF 2(2)], of 16 key] assms(2) by auto
  obtain m4 where 4: "hmac_compute m3 [0x4d, 0x41, 0x43] 16 = (err_status_ok, m4, ae_mac_key key)" "hmac_keyed m4 (take 16 key)"
    using hmac.compute_tag [OF 3(2), of "[0x4d, 0x41, 0x43]" 16] by (auto simp: ae_mac_key_def)
  show ?thesis
    using 1(1) 2(1) 3(1) 4 hmac_keyed_wf [OF 4(2)]
    by (auto simp: derive_keys_def call_hmac_init_def call_enc_key_def call_mac_key_def)
qed

lemma run_start_tag:
  assumes "hmac_wf (x_hmac s)" "length (x_mac_key s) = 16" "unat clear_len \<le> length clear"
  shows "\<exists>m. hmac_holds m (x_mac_key s) (take (unat clear_len) clear) \<and>
    (\<forall>fs. run_calls (start_tag clear clear_len @ fs) s = run_calls fs (s\<lparr>x_hmac := m\<rparr>))"
proof -
  obtain m1 where 1: "hmac_init (x_hmac s) (x_mac_key s) 16 = Some (err_status_ok, m1)" "hmac_holds m1 (x_mac_key s) []"
    using hmac_init_holds [OF assms(1), of 16 "x_mac_key s"] assms(2) by auto
  have 2: "fst (hmac_start m1) = err_status_ok" "hmac_holds (snd (hmac_start m1)) (x_mac_key s) []"
    using hmac.start_holds [OF hmac.holds_keyed [OF 1(2)]] by simp_all
  have 3: "fst (hmac_update (snd (hmac_start m1)) (take (unat clear_len) clear)) = err_status_ok"
      "hmac_holds (snd (hmac_update (snd (hmac_start m1)) (take (unat clear_len) clear))) (x_mac_key s) (take (unat clear_len) clear)"
    using hmac.update_holds [OF 2(2), of "take (unat clear_len) clear"] by simp_all
  have "run_calls (start_tag clear clear_len @ fs) s =
      run_calls fs (s\<lparr>x_hmac := snd (hmac_update (snd (hmac_start m1)) (take (unat clear_len) clear))\<rparr>)" for fs
    using 1(1) 2(1) 3(1) assms(3)
    by (simp add: start_tag_def call_hmac_init_def call_hmac_start_def call_hmac_clear_def case_prod_unfold)
  with 3(2) show ?thesis by blast
qed

text \<open>The tag of a message: the clear data and the ciphertext, under the derived key.\<close>

definition ae_tag :: "octets \<Rightarrow> octets \<Rightarrow> octets \<Rightarrow> octets" where
  "ae_tag key clear c = take 12 (hmac_sha1 (ae_mac_key key) (clear @ c))"

lemma length_ae_tag [simp]: "length (ae_tag key clear c) = 12"
  by (simp add: ae_tag_def)

lemma compute_opaque_tag:
  assumes "hmac_holds (x_hmac s) (ae_mac_key key) clear" "unat n \<le> length (x_opaque s)" "length clear + unat n < 2 ^ 29 - 64"
  shows "\<exists>m. compute_opaque n s = Some (err_status_ok, m, ae_tag key clear (take (unat n) (x_opaque s))) \<and> hmac_wf m"
proof -
  have "length (clear @ take (unat n) (x_opaque s)) < 2 ^ 29 - 64" using assms(2,3) by simp
  from hmac.compute_tag [OF assms(1) this, of 12] obtain m where
    "hmac_compute (x_hmac s) (take (unat n) (x_opaque s)) 12 = (err_status_ok, m, ae_tag key clear (take (unat n) (x_opaque s)))" "hmac_keyed m (ae_mac_key key)"
    by (auto simp: ae_tag_def)
  with assms(2) hmac_keyed_wf show ?thesis by (auto simp: compute_opaque_def)
qed

subsection \<open>The ciphertext behind a tag\<close>

lemma cbc_decrypt_loop_append:
  "16 * n = length a \<Longrightarrow> cbc_decrypt_loop n iv ks (a @ b) = cbc_decrypt_loop n iv ks a @ b"
proof (induction n arbitrary: iv a)
  case (Suc n)
  then have "16 * n = length (drop 16 a)" by simp
  from Suc.IH [OF this] Suc.prems show ?case by (simp add: Let_def)
qed simp

lemma length_cbc_decrypt_loop: "16 * n \<le> length a \<Longrightarrow> length (cbc_decrypt_loop n iv ks a) = length a"
proof (induction n arbitrary: iv a)
  case (Suc n)
  then have "16 * n \<le> length (drop 16 a)" by simp
  from Suc.IH [OF this] Suc.prems show ?case by (simp add: Let_def)
qed simp

lemma find_pad_append: "i \<le> length a \<Longrightarrow> find_pad (a @ b) i k = find_pad a i k"
  by (induction i arbitrary: k) (auto simp: nth_append)

text \<open>Decryption reads and writes the octets of its length only.\<close>

lemma nist_decrypt_prefix:
  assumes "16 dvd unat n" "unat n < 2 ^ 31" "length a = unat n"
  shows "aes_cbc_nist_decrypt c (a @ b) n = map_option (\<lambda>(status, c, data, n). (status, c, data @ b, n)) (aes_cbc_nist_decrypt c a n)"
proof -
  have "16 * (unat n div 16) = length a" using assms by simp
  note l = cbc_decrypt_loop_append [OF this] length_cbc_decrypt_loop [OF eq_refl [OF this]]
  have d: "aes_cbc_decrypt c x n = Some (err_status_ok, c, cbc_decrypt_loop (unat n div 16) (cbc_previous c) (cbc_expanded_key c) x)" if "unat n \<le> length x" for x
    using aes_cbc_decrypt_ok [OF assms(1,2) that] .
  show ?thesis
    using assms(3) by (simp add: aes_cbc_nist_decrypt_def d l find_pad_append split: option.split)
qed

lemma nist_decrypt_tail:
  assumes "16 dvd unat n" "unat n < 2 ^ 31" "unat n \<le> length c" "aes_cbc_nist_decrypt s c n = Some (status, s', data, m)"
    and "take (unat n) c' = take (unat n) c" "unat n \<le> length c'"
  shows "aes_cbc_nist_decrypt s c' n = Some (status, s', take (unat n) data @ drop (unat n) c', m)" "length data = length c"
proof -
  have l: "length (take (unat n) c) = unat n" using assms(3) by simp
  note p = nist_decrypt_prefix [OF assms(1,2) l, of s]
  from p [of "drop (unat n) c"] assms(4) obtain data1 where
    d: "aes_cbc_nist_decrypt s (take (unat n) c) n = Some (status, s', data1, m)" "data = data1 @ drop (unat n) c"
    by (cases "aes_cbc_nist_decrypt s (take (unat n) c) n") auto
  have "length data1 = unat n"
    using d(1) l assms(1,2) aes_cbc_decrypt_ok [OF assms(1,2), of "take (unat n) c" s]
    by (auto simp: aes_cbc_nist_decrypt_def length_cbc_decrypt_loop split: option.splits)
  with d p [of "drop (unat n) c'"] assms(3,5,6) show "aes_cbc_nist_decrypt s c' n = Some (status, s', take (unat n) data @ drop (unat n) c', m)"
      "length data = length c"
    by (metis (no_types, lifting) append_take_drop_id append_eq_conv_conj option.map(2) case_prod_conv, simp)
qed

subsection \<open>Encryption and decryption\<close>

text \<open>What \<^verbatim>\<open>enc\<close> hands out: a vector of the source, and a ciphertext with its tag in place of the data.\<close>

definition ae_protected :: "octets \<Rightarrow> octets \<Rightarrow> octets \<Rightarrow> octets \<Rightarrow> u32 \<Rightarrow> octets" where
  "ae_protected key clear c r len = take (unat len) c @ ae_tag key clear (take (unat len) c) @ r"

lemma rand_source_vector: "\<exists>dst g'. rand_source_get_octet_string g 16 = Some (err_status_ok, dst, g') \<and> length dst = 16"
  by (auto simp: rand_source_get_octet_string_def rand_octets_eq split: prod.split)

lemma run_random_iv:
  assumes "16 \<le> length (x_iv s)"
  shows "\<exists>iv g. call_random_iv rand_source_get_octet_string s = Some (err_status_ok, s\<lparr>x_iv := iv, x_rng := g\<rparr>) \<and> length iv = length (x_iv s)"
proof -
  obtain dst g where "rand_source_get_octet_string (x_rng s) 16 = Some (err_status_ok, dst, g)" "length dst = 16"
    using rand_source_vector by blast
  with assms show ?thesis by (auto simp: call_random_iv_def length_write_at)
qed

lemma run_append_tag:
  assumes "hmac_holds (x_hmac s) (ae_mac_key key) clear" "unat (x_opaque_len s) + 12 \<le> length (x_opaque s)"
    and "length clear + unat (x_opaque_len s) < 2 ^ 29 - 64"
  shows "\<exists>m. call_append_tag s = Some (err_status_ok, s\<lparr>x_hmac := m,
    x_opaque := ae_protected key clear (x_opaque s) (drop (unat (x_opaque_len s) + 12) (x_opaque s)) (x_opaque_len s)\<rparr>) \<and> hmac_wf m"
proof -
  obtain m where "compute_opaque (x_opaque_len s) s = Some (err_status_ok, m, ae_tag key clear (take (unat (x_opaque_len s)) (x_opaque s)))" "hmac_wf m"
    using compute_opaque_tag [OF assms(1) _ assms(3)] assms(2) by auto
  with assms(2) show ?thesis by (auto simp: call_append_tag_def ae_protected_def write_at_def add.commute)
qed

lemma nist_encrypt_length:
  assumes "aes_cbc_nist_encrypt e data n = Some (status, e', c, len)"
  shows "length c = length data"
proof -
  let ?p = "16 - unat (n AND 0xf)"
  have l: "length (write_at (unat n) (0xa0 # replicate ?p 0) data) = length data"
    using assms by (auto simp: aes_cbc_nist_encrypt_def Let_def write_at_def split: if_splits)
  with assms show ?thesis
    by (auto simp: aes_cbc_nist_encrypt_def aes_cbc_encrypt_def Let_def case_prod_unfold length_cbc_encrypt_loop split: if_splits option.splits)
qed

abbreviation encryption_ctx :: "aes_cbc_ctx_t \<Rightarrow> octets \<Rightarrow> octets \<Rightarrow> aes_cbc_ctx_t" where
  "encryption_ctx c key iv \<equiv>
     snd (aes_cbc_set_iv (c\<lparr>cbc_expanded_key := aes_expand_encryption_key (v128_copy_octet_string (take 16 key))\<rparr>) (v128_of_octets (take 16 iv)))"

abbreviation decryption_ctx :: "aes_cbc_ctx_t \<Rightarrow> octets \<Rightarrow> octets \<Rightarrow> aes_cbc_ctx_t" where
  "decryption_ctx c key iv \<equiv>
     snd (aes_cbc_set_iv (c\<lparr>cbc_expanded_key := aes_expand_decryption_key (v128_copy_octet_string (take 16 key))\<rparr>) (v128_of_octets (take 16 iv)))"

lemma nist_inverse:
  assumes "16 \<le> length key" "unat n < 2 ^ 30" "unat n + 17 \<le> length data"
  shows "\<exists>e c len data'. aes_cbc_nist_encrypt (encryption_ctx c1 key iv) data n = Some (err_status_ok, e, c, len) \<and>
    unat len = 16 * (unat n div 16 + 1) \<and> length c = length data \<and>
    aes_cbc_nist_decrypt (decryption_ctx c2 key iv) c len = Some (err_status_ok, decryption_ctx c2 key iv, data', n) \<and>
    take (unat n) data' = take (unat n) data"
proof -
  from aes_cbc_nist_inverse [OF assms, of c1 c2 "v128_of_octets (take 16 iv)"] obtain e d e' c len data' where
    "aes_cbc_context_init c1 key direction_encrypt = Some (err_status_ok, e)" "aes_cbc_context_init c2 key direction_decrypt = Some (err_status_ok, d)"
    and r: "aes_cbc_nist_encrypt (snd (aes_cbc_set_iv e (v128_of_octets (take 16 iv)))) data n = Some (err_status_ok, e', c, len)"
      "unat len = 16 * (unat n div 16 + 1)"
      "aes_cbc_nist_decrypt (snd (aes_cbc_set_iv d (v128_of_octets (take 16 iv)))) c len = Some (err_status_ok, snd (aes_cbc_set_iv d (v128_of_octets (take 16 iv))), data', n)"
      "take (unat n) data' = take (unat n) data" by blast
  then have "e = c1\<lparr>cbc_expanded_key := aes_expand_encryption_key (v128_copy_octet_string (take 16 key))\<rparr>"
      "d = c2\<lparr>cbc_expanded_key := aes_expand_decryption_key (v128_copy_octet_string (take 16 key))\<rparr>"
    using assms(1) by (simp_all add: aes_cbc_context_init_def Let_def)
  with r nist_encrypt_length [OF r(1)] show ?thesis by blast
qed

lemma run_xfm_aes_init:
  assumes "16 \<le> length key"
  shows "call_aes_init key direction_encrypt s = Some (err_status_ok, s\<lparr>x_aes := (x_aes s)\<lparr>cbc_expanded_key := aes_expand_encryption_key (v128_copy_octet_string (take 16 key))\<rparr>\<rparr>)"
    "call_aes_init key direction_decrypt s = Some (err_status_ok, s\<lparr>x_aes := (x_aes s)\<lparr>cbc_expanded_key := aes_expand_decryption_key (v128_copy_octet_string (take 16 key))\<rparr>\<rparr>)"
  using assms by (simp_all add: call_aes_init_def aes_cbc_context_init_def Let_def)

lemma run_xfm_set_iv:
  "16 \<le> length (x_iv s) \<Longrightarrow> call_set_iv s = Some (err_status_ok, s\<lparr>x_aes := snd (aes_cbc_set_iv (x_aes s) (v128_of_octets (take 16 (x_iv s))))\<rparr>)"
  by (simp add: call_set_iv_def aes_cbc_set_iv_def)

lemma enc_run:
  assumes s: "hmac_wf (x_hmac s)" and key: "16 \<le> length key" and iv: "16 \<le> length iv" and cl: "unat clear_len \<le> length clear"
    and d: "unat n + 28 \<le> length data" "unat n + unat clear_len < 2 ^ 29 - 128"
  shows "\<exists>s' e c len. aes_128_cbc_hmac_sha1_96_enc key clear clear_len (Some iv) (Some data) (Some n) s = Some (err_status_ok, Some s') \<and>
    length (x_iv s') = length iv \<and> aes_cbc_nist_encrypt (encryption_ctx (x_aes s) key (x_iv s')) data n = Some (err_status_ok, e, c, len) \<and>
    x_opaque s' = ae_protected key (take (unat clear_len) clear) c (drop (unat len + 12) c) len \<and> x_opaque_len s' = len + 12"
proof -
  let ?clear = "take (unat clear_len) clear" let ?tag = "start_tag clear clear_len"
  define s0 where "s0 = load_xfm s iv data n"
  obtain m k where m: "hmac_wf m" and 1: "\<And>fs. run_calls (derive_keys key @ fs) s0 =
      run_calls fs (s0\<lparr>x_enc_key := k, x_hmac := m, x_mac_key := ae_mac_key key\<rparr>)"
    using run_derive_keys [of s0 key] s key by (auto simp: s0_def load_xfm_def)
  define s1 where "s1 = s0\<lparr>x_enc_key := k, x_hmac := m, x_mac_key := ae_mac_key key\<rparr>"
  define s2 where "s2 = s1\<lparr>x_aes := (x_aes s1)\<lparr>cbc_expanded_key := aes_expand_encryption_key (v128_copy_octet_string (take 16 key))\<rparr>\<rparr>"
  obtain iv' g where 2: "call_random_iv rand_source_get_octet_string s2 = Some (err_status_ok, s2\<lparr>x_iv := iv', x_rng := g\<rparr>)" "length iv' = length iv"
    using run_random_iv [of s2] iv by (auto simp: s2_def s1_def s0_def load_xfm_def)
  define s3 where "s3 = s2\<lparr>x_iv := iv', x_rng := g\<rparr>"
  have 3: "call_set_iv s3 = Some (err_status_ok, s3\<lparr>x_aes := encryption_ctx (x_aes s) key iv'\<rparr>)"
    using run_xfm_set_iv [of s3] 2(2) iv by (simp add: s3_def s2_def s1_def s0_def load_xfm_def)
  have "unat n < 2 ^ 30" "unat n + 17 \<le> length data" using d by simp_all
  from nist_inverse [OF key this, of "x_aes s" iv'] obtain e c len where
    4: "aes_cbc_nist_encrypt (encryption_ctx (x_aes s) key iv') data n = Some (err_status_ok, e, c, len)"
      "unat len = 16 * (unat n div 16 + 1)" "length c = length data" by blast
  define s4 where "s4 = s3\<lparr>x_aes := e, x_opaque := c, x_opaque_len := len\<rparr>"
  have 5: "call_encrypt (s3\<lparr>x_aes := encryption_ctx (x_aes s) key iv'\<rparr>) = Some (err_status_ok, s4)"
    using 4(1) by (simp add: call_encrypt_def s4_def s3_def s2_def s1_def s0_def load_xfm_def)
  obtain m' where 6: "hmac_holds m' (ae_mac_key key) ?clear" "\<And>fs. run_calls (?tag @ fs) s4 = run_calls fs (s4\<lparr>x_hmac := m'\<rparr>)"
    using run_start_tag [of s4 clear_len clear] m cl by (auto simp: s4_def s3_def s2_def s1_def)
  have len: "unat len \<le> unat n + 16" using 4(2) by (metis (no_types) add_le_mono distrib_left mult.right_neutral order_refl times_div_less_eq_dividend)
  have "unat len + 12 \<le> length c" "length ?clear + unat len < 2 ^ 29 - 64" using len 4(3) d cl by simp_all
  from run_append_tag [of "s4\<lparr>x_hmac := m'\<rparr>" key ?clear] this 6(1) obtain m'' where
    7: "call_append_tag (s4\<lparr>x_hmac := m'\<rparr>) = Some (err_status_ok, s4\<lparr>x_hmac := m'', x_opaque := ae_protected key ?clear c (drop (unat len + 12) c) len\<rparr>)"
    by (auto simp: s4_def)
  let ?s' = "s4\<lparr>x_hmac := m'', x_opaque := ae_protected key ?clear c (drop (unat len + 12) c) len, x_opaque_len := len + 12\<rparr>"
  have "run_calls (derive_keys key @ [call_aes_init key direction_encrypt, call_random_iv rand_source_get_octet_string, call_set_iv, call_encrypt] @
      ?tag @ [call_append_tag, call_add_tag_len]) s0 = Some (err_status_ok, ?s')"
    using run_xfm_aes_init(1) [OF key, of s1] 2(1) 3 5 7 unfolding 1 s1_def [symmetric] s2_def [symmetric] s3_def [symmetric]
    by (simp add: 6(2) s2_def [symmetric] s3_def [symmetric]) (simp add: call_add_tag_len_def s4_def)
  then have "aes_128_cbc_hmac_sha1_96_enc key clear clear_len (Some iv) (Some data) (Some n) s = Some (err_status_ok, Some ?s')"
    unfolding aes_128_cbc_hmac_sha1_96_enc_def with_pointers_def s0_def by simp
  moreover have "x_iv ?s' = iv'" by (simp add: s4_def s3_def)
  ultimately show ?thesis using 2(2) 4(1) by fastforce
qed

text \<open>\<^verbatim>\<open>dec\<close> up to the tag: the keys, the length and the clear data.\<close>

lemma dec_head:
  assumes s: "hmac_wf (x_hmac s)" and key: "16 \<le> length key" and cl: "unat clear_len \<le> length clear"
  shows "\<exists>s1. (\<forall>fs. run_calls (derive_keys key @ [call_ciphertext_len] @ start_tag clear clear_len @ fs) (load_xfm s iv data n) = run_calls fs s1) \<and>
    hmac_holds (x_hmac s1) (ae_mac_key key) (take (unat clear_len) clear) \<and>
    x_aes s1 = x_aes s \<and> x_iv s1 = iv \<and> x_opaque s1 = data \<and> x_opaque_len s1 = n \<and> x_ciphertext_len s1 = n - 12"
proof -
  define s0 where "s0 = load_xfm s iv data n"
  obtain m k where m: "hmac_wf m" and 1: "\<And>fs. run_calls (derive_keys key @ fs) s0 =
      run_calls fs (s0\<lparr>x_enc_key := k, x_hmac := m, x_mac_key := ae_mac_key key\<rparr>)"
    using run_derive_keys [of s0 key] s key by (auto simp: s0_def load_xfm_def)
  define s1 where "s1 = s0\<lparr>x_enc_key := k, x_hmac := m, x_mac_key := ae_mac_key key, x_ciphertext_len := n - 12\<rparr>"
  obtain m' where 2: "hmac_holds m' (ae_mac_key key) (take (unat clear_len) clear)"
      "\<And>fs. run_calls (start_tag clear clear_len @ fs) s1 = run_calls fs (s1\<lparr>x_hmac := m'\<rparr>)"
    using run_start_tag [of s1 clear_len clear] m cl by (auto simp: s1_def)
  have "call_ciphertext_len (s0\<lparr>x_enc_key := k, x_hmac := m, x_mac_key := ae_mac_key key\<rparr>) = Some (err_status_ok, s1)"
    by (simp add: call_ciphertext_len_def s1_def s0_def load_xfm_def)
  then have "run_calls (derive_keys key @ [call_ciphertext_len] @ start_tag clear clear_len @ fs) s0 = run_calls fs (s1\<lparr>x_hmac := m'\<rparr>)" for fs
    unfolding 1 by (simp add: 2(2))
  with 2(1) show ?thesis unfolding s0_def [symmetric]
    by (intro exI [of _ "s1\<lparr>x_hmac := m'\<rparr>"]) (simp add: s1_def s0_def load_xfm_def)
qed

text \<open>The tag decides: the octets behind the ciphertext against the tag of the clear data and the ciphertext.\<close>

lemma run_verify_tag:
  assumes h: "hmac_holds (x_hmac s) (ae_mac_key key) clear" and c: "x_opaque s = c @ t @ r" "length t = 12" "x_ciphertext_len s = len" "unat len = length c"
    and l: "length clear + length c < 2 ^ 29 - 64"
  shows "\<exists>m. call_verify_tag s =
      Some (if t = ae_tag key clear c then (err_status_ok, s\<lparr>x_hmac := m, x_tmp_tag := ae_tag key clear c, x_opaque_len := x_opaque_len s - 12\<rparr>)
        else (err_status_auth_fail, s\<lparr>x_hmac := m, x_tmp_tag := ae_tag key clear c\<rparr>))"
proof -
  obtain m where m: "compute_opaque len s = Some (err_status_ok, m, ae_tag key clear c)"
    using compute_opaque_tag [OF h, of len] c l by auto
  have "same_octets 12 (ae_tag key clear c) (t @ r) = Some (t = ae_tag key clear c)"
    using same_octets_eq [of 12 "ae_tag key clear c" "t @ r"] c(2) by auto
  with m c show ?thesis by (auto simp: call_verify_tag_def Let_def split: bool.split)
qed

lemma dec_run:
  assumes s: "hmac_wf (x_hmac s)" and key: "16 \<le> length key" and iv: "16 \<le> length iv" and cl: "unat clear_len \<le> length clear"
    and c: "length t = 12" "unat n = length c + 12" "unat clear_len + length c < 2 ^ 29 - 64"
  shows "t = ae_tag key (take (unat clear_len) clear) c \<Longrightarrow>
      aes_cbc_nist_decrypt (decryption_ctx (x_aes s) key iv) (c @ t @ r) (n - 12) = Some (err_status_ok, e, data', k) \<Longrightarrow>
      \<exists>s'. aes_128_cbc_hmac_sha1_96_dec key clear clear_len (Some iv) (Some (c @ t @ r)) (Some n) s = Some (err_status_ok, Some s') \<and>
        x_opaque s' = data' \<and> x_opaque_len s' = k \<and> x_iv s' = iv"
    "t \<noteq> ae_tag key (take (unat clear_len) clear) c \<Longrightarrow>
      \<exists>s'. aes_128_cbc_hmac_sha1_96_dec key clear clear_len (Some iv) (Some (c @ t @ r)) (Some n) s = Some (err_status_auth_fail, Some s') \<and>
        x_opaque s' = c @ t @ r \<and> x_opaque_len s' = n \<and> x_iv s' = iv"
proof -
  let ?clear = "take (unat clear_len) clear"
  let ?rest = "[call_verify_tag, call_aes_init key direction_decrypt, call_set_iv, call_decrypt_ciphertext, call_plaintext_len]"
  have dec: "aes_128_cbc_hmac_sha1_96_dec key clear clear_len (Some iv) (Some (c @ t @ r)) (Some n) s = map_option (map_prod id Some)
      (run_calls (derive_keys key @ [call_ciphertext_len] @ start_tag clear clear_len @ ?rest) (load_xfm s iv (c @ t @ r) n))"
    by (simp add: aes_128_cbc_hmac_sha1_96_dec_def with_pointers_def)
  obtain s1 where 1: "\<And>fs. run_calls (derive_keys key @ [call_ciphertext_len] @ start_tag clear clear_len @ fs) (load_xfm s iv (c @ t @ r) n) = run_calls fs s1"
    and s1: "hmac_holds (x_hmac s1) (ae_mac_key key) ?clear" "x_aes s1 = x_aes s" "x_iv s1 = iv" "x_opaque s1 = c @ t @ r" "x_opaque_len s1 = n"
      "x_ciphertext_len s1 = n - 12"
    using dec_head [OF s key cl, of iv "c @ t @ r" n] by blast
  have len: "unat (n - 12) = length c" using c(2) unat_sub [of 12 n] by (simp add: word_le_nat_alt)
  have "length ?clear + length c < 2 ^ 29 - 64" using c(3) cl by simp
  from run_verify_tag [OF s1(1,4) c(1) s1(6) len this] obtain m where
    2: "call_verify_tag s1 = Some (if t = ae_tag key ?clear c then (err_status_ok, s1\<lparr>x_hmac := m, x_tmp_tag := ae_tag key ?clear c, x_opaque_len := n - 12\<rparr>)
        else (err_status_auth_fail, s1\<lparr>x_hmac := m, x_tmp_tag := ae_tag key ?clear c\<rparr>))"
    unfolding s1(5) by blast
  show "\<exists>s'. aes_128_cbc_hmac_sha1_96_dec key clear clear_len (Some iv) (Some (c @ t @ r)) (Some n) s = Some (err_status_ok, Some s') \<and>
      x_opaque s' = data' \<and> x_opaque_len s' = k \<and> x_iv s' = iv"
    if "t = ae_tag key ?clear c" "aes_cbc_nist_decrypt (decryption_ctx (x_aes s) key iv) (c @ t @ r) (n - 12) = Some (err_status_ok, e, data', k)"
    unfolding dec 1 using that 2 iv s1
    by (auto simp: run_xfm_aes_init(2) [OF key] run_xfm_set_iv call_decrypt_ciphertext_def call_plaintext_len_def)
  show "\<exists>s'. aes_128_cbc_hmac_sha1_96_dec key clear clear_len (Some iv) (Some (c @ t @ r)) (Some n) s = Some (err_status_auth_fail, Some s') \<and>
      x_opaque s' = c @ t @ r \<and> x_opaque_len s' = n \<and> x_iv s' = iv" if "t \<noteq> ae_tag key ?clear c"
    unfolding dec 1 using that 2 s1 by simp
qed

text \<open>The null transform adds and removes a fixed pattern; below 12 octets the length wraps around.\<close>

lemma null_roundtrip:
  assumes "16 \<le> length iv" "unat n + 12 \<le> length data" "unat n < 2 ^ 32 - 12"
  shows "\<exists>iv' data'. null_enc (Some iv) (Some data) (Some n) = Some (err_status_ok, Some (iv', data', n + 12)) \<and>
    null_dec (Some iv') (Some data') (Some (n + 12)) = Some (err_status_ok, Some (iv', data', n)) \<and>
    take (unat n) data' = take (unat n) data \<and> unat (n + 12) = unat n + 12"
proof -
  have "unat (n + 12) = unat n + 12" using assms(3) unat_add_lem [of n 12] by simp
  then show ?thesis using assms(1,2) by (simp add: null_enc_def null_dec_def with_pointers_def write_at_def)
qed

lemma null_dec_short: "null_dec (Some iv) (Some data) (Some 11) = Some (err_status_ok, Some (iv, data, 0xffffffff))"
  by (simp add: null_dec_def with_pointers_def)

lemma cryptoalg_ids: "cryptoalg_find_by_id (cryptoalg_get_id (Some c)) = Some c \<longleftrightarrow> c = cryptoalg"
  by (cases c) (simp_all add: cryptoalg_find_by_id_def cryptoalg_get_id_def)

subsection \<open>Properties\<close>

text \<open>
  C22: authenticated encryption from end to end. For a key of 16 octets, clear data, and data of any length
  below the limit of the tag in a buffer with room for the padding and the tag, \<^verbatim>\<open>enc\<close> succeeds and \<^verbatim>\<open>dec\<close>
  restores the data and its length from what \<^verbatim>\<open>enc\<close> wrote, whatever the locals of both start with. The
  data grows to the next multiple of 16 and by the tag, so that data of whole blocks grows by 28 octets,
  which is more than the \<^verbatim>\<open>MAX_EXPAND\<close> of the transform.
\<close>

theorem ae_roundtrip:
  assumes s: "hmac_wf (x_hmac s)" "hmac_wf (x_hmac s2)" and key: "16 \<le> length key" and iv: "16 \<le> length iv"
    and cl: "unat clear_len \<le> length clear" and d: "unat n + 28 \<le> length data" "unat n + unat clear_len < 2 ^ 29 - 128"
  shows "\<exists>e d. aes_128_cbc_hmac_sha1_96_enc key clear clear_len (Some iv) (Some data) (Some n) s = Some (err_status_ok, Some e) \<and>
    unat (x_opaque_len e) = 16 * (unat n div 16 + 1) + 12 \<and>
    (16 dvd unat n \<longrightarrow> unat (x_opaque_len e) - unat n = 28 \<and> unat (alg_max_expansion cryptoalg_ctx) = 27) \<and>
    aes_128_cbc_hmac_sha1_96_dec key clear clear_len (Some (x_iv e)) (Some (x_opaque e)) (Some (x_opaque_len e)) s2 = Some (err_status_ok, Some d) \<and>
    x_opaque_len d = n \<and> take (unat n) (x_opaque d) = take (unat n) data"
proof -
  let ?clear = "take (unat clear_len) clear"
  obtain e ctx c len where e: "aes_128_cbc_hmac_sha1_96_enc key clear clear_len (Some iv) (Some data) (Some n) s = Some (err_status_ok, Some e)"
      "length (x_iv e) = length iv" "aes_cbc_nist_encrypt (encryption_ctx (x_aes s) key (x_iv e)) data n = Some (err_status_ok, ctx, c, len)"
      "x_opaque e = ae_protected key ?clear c (drop (unat len + 12) c) len" "x_opaque_len e = len + 12"
    using enc_run [OF s(1) key iv cl d] by blast
  have "unat n < 2 ^ 30" "unat n + 17 \<le> length data" using d by simp_all
  from nist_inverse [OF key this, of "x_aes s" "x_iv e" "x_aes s2"] e(3) obtain data' where
    c: "unat len = 16 * (unat n div 16 + 1)" "length c = length data"
      "aes_cbc_nist_decrypt (decryption_ctx (x_aes s2) key (x_iv e)) c len = Some (err_status_ok, decryption_ctx (x_aes s2) key (x_iv e), data', n)"
      "take (unat n) data' = take (unat n) data" by auto
  obtain q r where q: "unat n = 16 * q + r" "r < 16" "unat n div 16 = q" by (metis mod_less_divisor mult_div_mod_eq zero_less_numeral)
  have l: "unat len = 16 * q + 16" "unat len \<le> length c" "unat len < 2 ^ 31" "16 dvd unat len" "unat n \<le> unat len"
    using c(1,2) d q by simp_all
  have n: "unat (len + 12) = unat len + 12" using l(3) unat_add_lem [of len 12] by simp
  let ?c = "take (unat len) c" let ?t = "ae_tag key ?clear ?c" let ?r = "drop (unat len + 12) c"
  have "aes_cbc_nist_decrypt (decryption_ctx (x_aes s2) key (x_iv e)) (?c @ ?t @ ?r) len =
      Some (err_status_ok, decryption_ctx (x_aes s2) key (x_iv e), take (unat len) data' @ ?t @ ?r, n)"
    using nist_decrypt_tail(1) [OF l(4,3,2) c(3), of "?c @ ?t @ ?r"] l(2) by simp
  moreover have "unat (len + 12) = length ?c + 12" "unat clear_len + length ?c < 2 ^ 29 - 64" "length ?t = 12"
    using n l d q by simp_all
  moreover have "16 \<le> length (x_iv e)" using e(2) iv by simp
  ultimately obtain d where d: "aes_128_cbc_hmac_sha1_96_dec key clear clear_len (Some (x_iv e)) (Some (?c @ ?t @ ?r)) (Some (len + 12)) s2 = Some (err_status_ok, Some d)"
      "x_opaque d = take (unat len) data' @ ?t @ ?r" "x_opaque_len d = n"
    using dec_run(1) [OF s(2) key _ cl, of "x_iv e" ?t "len + 12" ?c ?r] by auto
  have "take (unat n) (x_opaque d) = take (unat n) data"
    using c(4) l nist_decrypt_tail(2) [OF l(4,3,2) c(3) refl] by (simp add: d(2))
  moreover have "unat (x_opaque_len e) - unat n = 28 \<and> unat (alg_max_expansion cryptoalg_ctx) = 27" if "16 dvd unat n"
  proof -
    have "r = 0" using q that by (metis dvd_add_right_iff dvd_imp_le dvd_triv_left gr0I not_le)
    then show ?thesis unfolding e(5) n l(1) q(1) cryptoalg_ctx_def by simp
  qed
  moreover have "unat (x_opaque_len e) = 16 * (unat n div 16 + 1) + 12" unfolding e(5) n c(1) ..
  moreover have "x_opaque e = ?c @ ?t @ ?r" unfolding e(4) ae_protected_def ..
  ultimately show ?thesis using e(1,5) d(1,3) by (intro exI [of _ e] exI [of _ d] conjI impI) simp_all
qed

text \<open>
  C23: forged messages. When the 12 octets behind the ciphertext are not the tag of the clear data and the
  ciphertext, \<^verbatim>\<open>dec\<close> fails with an authentication failure before it decrypts anything: the data, its
  length and the vector are as before.
\<close>

theorem ae_dec_refuses:
  assumes "hmac_wf (x_hmac s)" "16 \<le> length key" "16 \<le> length iv" "unat clear_len \<le> length clear"
    and "length t = 12" "unat n = length c + 12" "unat clear_len + length c < 2 ^ 29 - 64"
    and "t \<noteq> ae_tag key (take (unat clear_len) clear) c"
  shows "\<exists>s'. aes_128_cbc_hmac_sha1_96_dec key clear clear_len (Some iv) (Some (c @ t @ r)) (Some n) s = Some (err_status_auth_fail, Some s') \<and>
    x_opaque s' = c @ t @ r \<and> x_opaque_len s' = n \<and> x_iv s' = iv"
  using dec_run(2) [OF assms(1-7), of r] assms(8) by blast

definition example_xfm :: "rng xfm" where
  "example_xfm = \<lparr>x_aes = \<lparr>cbc_state = V128 0 0 0 0, cbc_previous = V128 0 0 0 0, cbc_expanded_key = []\<rparr>,
     x_hmac = \<lparr>opad = [], hmac_ctx = \<lparr>sha1_H = fips_H0, sha1_M = replicate 64 0, octets_in_buffer = 0, num_bits_in_msg = 0\<rparr>,
       init_ctx = \<lparr>sha1_H = fips_H0, sha1_M = replicate 64 0, octets_in_buffer = 0, num_bits_in_msg = 0\<rparr>\<rparr>,
     x_enc_key = [], x_mac_key = [], x_tmp_tag = [], x_ciphertext_len = 0, x_iv = [], x_opaque = [], x_opaque_len = 0,
     x_rng = \<lparr>dev_random_fdes = 17, c_rand = (\<lambda>n. n mod 32768), rand_calls = 0\<rparr>\<rparr>"

lemma example_xfm_wf: "hmac_wf (x_hmac example_xfm)"
  by (simp add: hmac_wf_def example_xfm_def)

theorem ae_roundtrip_witness:
  "\<exists>e d. aes_128_cbc_hmac_sha1_96_enc (replicate 16 7) [1, 2] 2 (Some (replicate 16 0)) (Some ([3, 4, 5] @ replicate 28 0)) (Some 3) example_xfm = Some (err_status_ok, Some e) \<and>
    unat (x_opaque_len e) = 28 \<and>
    aes_128_cbc_hmac_sha1_96_dec (replicate 16 7) [1, 2] 2 (Some (x_iv e)) (Some (x_opaque e)) (Some (x_opaque_len e)) example_xfm = Some (err_status_ok, Some d) \<and>
    x_opaque_len d = 3 \<and> take 3 (x_opaque d) = [3, 4, 5]"
  using ae_roundtrip [OF example_xfm_wf example_xfm_wf, of "replicate 16 7" "replicate 16 0" 2 "[1, 2]" 3 "[3, 4, 5] @ replicate 28 0"]
  by auto

theorem ae_dec_refuses_witness:
  "\<exists>x s'. aes_128_cbc_hmac_sha1_96_dec (replicate 16 7) [1, 2] 2 (Some (replicate 16 0)) (Some (replicate 16 9 @ x # replicate 11 0)) (Some 28) example_xfm = Some (err_status_auth_fail, Some s') \<and>
    x_opaque s' = replicate 16 9 @ x # replicate 11 0"
proof -
  let ?t = "ae_tag (replicate 16 7) [1, 2] (replicate 16 9)"
  define x where "x = hd ?t + 1"
  have "x # replicate 11 0 \<noteq> ?t"
  proof
    assume "x # replicate 11 0 = ?t"
    then have "hd ?t = x" by (metis list.sel(1))
    then show False by (simp add: x_def)
  qed
  then have "\<exists>s'. aes_128_cbc_hmac_sha1_96_dec (replicate 16 7) [1, 2] 2 (Some (replicate 16 0)) (Some (replicate 16 9 @ (x # replicate 11 0) @ [])) (Some 28) example_xfm = Some (err_status_auth_fail, Some s') \<and>
      x_opaque s' = replicate 16 9 @ (x # replicate 11 0) @ [] \<and> x_opaque_len s' = 28 \<and> x_iv s' = replicate 16 0"
    by (intro ae_dec_refuses [OF example_xfm_wf]) simp_all
  then show ?thesis by auto
qed

end
