(* ===== verification/Ieee.thy ===== *)
theory Ieee
  imports Complex_Main Prelude "HOL-Library.Log_Nat"
begin

text \<open>
  The types \<^verbatim>\<open>float\<close> and \<^verbatim>\<open>double\<close> of C as the speech codec uses them: IEEE 754 binary32 and binary64, rounding
  to nearest with ties to even, evaluated in the type of the operands. A number is an integer mantissa and a
  power of two. Every operation computes its exact result and rounds it once, so the operations can be run. The
  lemmas bound what rounding does: it is exact up to half a unit in the last place and never passes a number that
  the format can represent.
\<close>

subsection \<open>Formats and numbers\<close>

record fmt =
  prec :: nat
  emin :: int
  emax :: int

definition single :: fmt where "single = \<lparr>prec = 24, emin = - 149, emax = 104\<rparr>"

definition double :: fmt where "double = \<lparr>prec = 53, emin = - 1074, emax = 971\<rparr>"

text \<open>\<open>Inf\<close> and \<open>Zero\<close> carry their sign, true for negative; \<open>Fin m e\<close> is \<open>m * 2 ^ e\<close> with \<open>m \<noteq> 0\<close>.\<close>

datatype fl = NaN | Inf bool | Zero bool | Fin int int

subsection \<open>Rounding\<close>

text \<open>The quotient of \<open>n / d * 2 ^ e\<close> by \<open>2 ^ k\<close>, rounded to the nearest integer.\<close>

definition scaled :: "int \<Rightarrow> int \<Rightarrow> int \<Rightarrow> int \<Rightarrow> int \<times> int" where
  "scaled k n d e = (if k \<le> e then (n * 2 ^ nat (e - k), d) else (n, d * 2 ^ nat (k - e)))"

definition nearest :: "int \<Rightarrow> int \<Rightarrow> int" where
  "nearest a b = (let q = a div b; r = a mod b in if 2 * r < b \<or> 2 * r = b \<and> even q then q else q + 1)"

text \<open>The exponent of the result: \<open>prec\<close> bits remain before the point unless the result is subnormal.\<close>

definition unit_exponent :: "fmt \<Rightarrow> int \<Rightarrow> int \<Rightarrow> int \<Rightarrow> int" where
  "unit_exponent f n d e =
     (let k = e + bitlen n - bitlen d - int (prec f);
          (a, b) = scaled k n d e
      in max (emin f) (if b * 2 ^ prec f \<le> a then k + 1 else k))"

definition round_fl :: "fmt \<Rightarrow> bool \<Rightarrow> int \<Rightarrow> int \<Rightarrow> int \<Rightarrow> fl" where
  "round_fl f neg n d e =
     (let k = unit_exponent f n d e;
          (a, b) = scaled k n d e;
          q = nearest a b
      in if q = 0 then Zero neg
         else if emax f < k \<or> emax f = k \<and> 2 ^ prec f \<le> q then Inf neg
         else Fin (if neg then - q else q) k)"

subsection \<open>Operations\<close>

fun neg_sign :: "fl \<Rightarrow> bool" where
  "neg_sign NaN = False"
| "neg_sign (Inf s) = s"
| "neg_sign (Zero s) = s"
| "neg_sign (Fin m e) = (m < 0)"

definition round_int :: "fmt \<Rightarrow> int \<Rightarrow> int \<Rightarrow> fl" where
  "round_int f m e = (if m = 0 then Zero False else round_fl f (m < 0) \<bar>m\<bar> 1 e)"

text \<open>Conversion to another format.\<close>

fun to_fmt :: "fmt \<Rightarrow> fl \<Rightarrow> fl" where
  "to_fmt f (Fin m e) = round_int f m e"
| "to_fmt f x = x"

fun fl_neg :: "fl \<Rightarrow> fl" where
  "fl_neg NaN = NaN"
| "fl_neg (Inf s) = Inf (\<not> s)"
| "fl_neg (Zero s) = Zero (\<not> s)"
| "fl_neg (Fin m e) = Fin (- m) e"

fun fl_abs :: "fl \<Rightarrow> fl" where
  "fl_abs NaN = NaN"
| "fl_abs (Inf s) = Inf False"
| "fl_abs (Zero s) = Zero False"
| "fl_abs (Fin m e) = Fin \<bar>m\<bar> e"

fun fl_add :: "fmt \<Rightarrow> fl \<Rightarrow> fl \<Rightarrow> fl" where
  "fl_add f NaN y = NaN"
| "fl_add f x NaN = NaN"
| "fl_add f (Inf s) (Inf t) = (if s = t then Inf s else NaN)"
| "fl_add f (Inf s) y = Inf s"
| "fl_add f x (Inf t) = Inf t"
| "fl_add f (Zero s) (Zero t) = Zero (s \<and> t)"
| "fl_add f (Zero s) y = to_fmt f y"
| "fl_add f x (Zero t) = to_fmt f x"
| "fl_add f (Fin m e) (Fin n k) =
     (let l = min e k in round_int f (m * 2 ^ nat (e - l) + n * 2 ^ nat (k - l)) l)"

definition fl_sub :: "fmt \<Rightarrow> fl \<Rightarrow> fl \<Rightarrow> fl" where
  "fl_sub f x y = fl_add f x (fl_neg y)"

fun fl_mul :: "fmt \<Rightarrow> fl \<Rightarrow> fl \<Rightarrow> fl" where
  "fl_mul f NaN y = NaN"
| "fl_mul f x NaN = NaN"
| "fl_mul f (Inf s) (Zero t) = NaN"
| "fl_mul f (Zero s) (Inf t) = NaN"
| "fl_mul f (Inf s) y = Inf (s \<noteq> neg_sign y)"
| "fl_mul f x (Inf t) = Inf (neg_sign x \<noteq> t)"
| "fl_mul f (Zero s) y = Zero (s \<noteq> neg_sign y)"
| "fl_mul f x (Zero t) = Zero (neg_sign x \<noteq> t)"
| "fl_mul f (Fin m e) (Fin n k) = round_int f (m * n) (e + k)"

fun fl_div :: "fmt \<Rightarrow> fl \<Rightarrow> fl \<Rightarrow> fl" where
  "fl_div f NaN y = NaN"
| "fl_div f x NaN = NaN"
| "fl_div f (Inf s) (Inf t) = NaN"
| "fl_div f (Zero s) (Zero t) = NaN"
| "fl_div f (Inf s) y = Inf (s \<noteq> neg_sign y)"
| "fl_div f x (Zero t) = Inf (neg_sign x \<noteq> t)"
| "fl_div f (Zero s) y = Zero (s \<noteq> neg_sign y)"
| "fl_div f x (Inf t) = Zero (neg_sign x \<noteq> t)"
| "fl_div f (Fin m e) (Fin n k) = round_fl f ((m < 0) \<noteq> (n < 0)) \<bar>m\<bar> \<bar>n\<bar> (e - k)"

fun fl_less :: "fl \<Rightarrow> fl \<Rightarrow> bool" where
  "fl_less NaN y = False"
| "fl_less x NaN = False"
| "fl_less (Inf s) (Inf t) = (s \<and> \<not> t)"
| "fl_less (Inf s) y = s"
| "fl_less x (Inf t) = (\<not> t)"
| "fl_less (Zero s) (Zero t) = False"
| "fl_less (Zero s) (Fin n k) = (0 < n)"
| "fl_less (Fin m e) (Zero t) = (m < 0)"
| "fl_less (Fin m e) (Fin n k) = (let l = min e k in m * 2 ^ nat (e - l) < n * 2 ^ nat (k - l))"

fun fl_eq :: "fl \<Rightarrow> fl \<Rightarrow> bool" where
  "fl_eq NaN y = False"
| "fl_eq x NaN = False"
| "fl_eq x y = (\<not> fl_less x y \<and> \<not> fl_less y x)"

definition fl_le :: "fl \<Rightarrow> fl \<Rightarrow> bool" where
  "fl_le x y = (fl_less x y \<or> fl_eq x y)"

text \<open>A decimal constant \<open>n / 10 ^ d\<close>, and an integer, as a number of the format.\<close>

definition decimal :: "fmt \<Rightarrow> int \<Rightarrow> nat \<Rightarrow> fl" where
  "decimal f n d = (if n = 0 then Zero False else round_fl f (n < 0) \<bar>n\<bar> (10 ^ d) 0)"

definition fl_of_int :: "fmt \<Rightarrow> int \<Rightarrow> fl" where
  "fl_of_int f n = round_int f n 0"

text \<open>\<^verbatim>\<open>floor\<close> of the C library; it is exact.\<close>

fun fl_floor :: "fl \<Rightarrow> fl" where
  "fl_floor (Fin m e) = (if 0 \<le> e then Fin m e else (let q = m div 2 ^ nat (- e) in if q = 0 then Zero False else Fin q 0))"
| "fl_floor x = x"

text \<open>
  Conversion to \<^verbatim>\<open>int\<close>, which discards the fraction. It is undefined when the result is not an \<^verbatim>\<open>int\<close>.
\<close>

fun fl_trunc :: "fl \<Rightarrow> int option" where
  "fl_trunc NaN = None"
| "fl_trunc (Inf s) = None"
| "fl_trunc (Zero s) = Some 0"
| "fl_trunc (Fin m e) = Some (if 0 \<le> e then m * 2 ^ nat e else sgn m * (\<bar>m\<bar> div 2 ^ nat (- e)))"

definition fl_to_int :: "fl \<Rightarrow> int option" where
  "fl_to_int x = Option.bind (fl_trunc x) (\<lambda>n. if - (2 ^ 31) \<le> n \<and> n < 2 ^ 31 then Some n else None)"

subsection \<open>The numbers as reals\<close>

fun val :: "fl \<Rightarrow> real" where
  "val (Fin m e) = of_int m * 2 powi e"
| "val x = 0"

fun fl_finite :: "fl \<Rightarrow> bool" where
  "fl_finite (Zero s) = True"
| "fl_finite (Fin m e) = (m \<noteq> 0)"
| "fl_finite x = False"

text \<open>The reals with a mantissa of the precision of a format, the overflow threshold apart.\<close>

definition grid :: "fmt \<Rightarrow> real set" where
  "grid f = {of_int m * 2 powi j |m j. \<bar>m\<bar> \<le> 2 ^ prec f \<and> emin f \<le> j}"

lemma scaled_ratio:
  assumes "0 < d" "scaled k n d e = (a, b)"
  shows "0 < b" "of_int a / of_int b = (of_int n / of_int d * 2 powi (e - k) :: real)"
proof -
  show "0 < b" using assms by (auto simp: scaled_def split: if_splits)
  show "of_int a / of_int b = (of_int n / of_int d * 2 powi (e - k) :: real)"
    using assms by (auto simp: scaled_def power_int_def power_inverse divide_simps split: if_splits)
qed

lemma nearest_close:
  assumes "0 < b"
  shows "\<bar>of_int (nearest a b) - of_int a / of_int b\<bar> \<le> (1 / 2 :: real)"
proof -
  have e: "(of_int a :: real) = of_int (a div b) * of_int b + of_int (a mod b)"
    by (metis div_mult_mod_eq of_int_add of_int_mult)
  then have "(of_int a / of_int b :: real) = of_int (a div b) + of_int (a mod b) / of_int b" using assms by (simp add: field_simps)
  moreover have "2 * (a mod b) \<le> b \<Longrightarrow> (of_int (a mod b) / of_int b :: real) \<le> 1 / 2"
    using assms by (simp add: divide_le_eq)
  moreover have "b \<le> 2 * (a mod b) \<Longrightarrow> 1 / 2 \<le> (of_int (a mod b) / of_int b :: real)"
    using assms by (simp add: le_divide_eq)
  moreover have "0 \<le> (of_int (a mod b) / of_int b :: real)" "(of_int (a mod b) / of_int b :: real) \<le> 1"
    using assms less_imp_le [OF pos_mod_bound [OF assms, of a]] by (simp_all add: divide_le_eq)
  ultimately show ?thesis by (auto simp: nearest_def Let_def)
qed

lemma nearest_le:
  assumes "0 < b" "(of_int a / of_int b :: real) \<le> of_int z"
  shows "nearest a b \<le> z"
proof -
  have "of_int (nearest a b) \<le> (of_int z + 1 / 2 :: real)" using nearest_close [OF assms(1), of a] assms(2) by linarith
  then show ?thesis by linarith
qed

lemma nearest_ge:
  assumes "0 < b" "of_int z \<le> (of_int a / of_int b :: real)"
  shows "z \<le> nearest a b"
proof -
  have "(of_int z - 1 / 2 :: real) \<le> of_int (nearest a b)" using nearest_close [OF assms(1), of a] assms(2) by linarith
  then show ?thesis by linarith
qed

lemma bitlen_real:
  assumes "0 < n"
  shows "2 powi (bitlen n - 1) \<le> (of_int n :: real)" "(of_int n :: real) < 2 powi bitlen n"
proof -
  have b: "2 ^ nat (bitlen n - 1) \<le> n" "n < 2 ^ nat (bitlen n)" using bitlen_bounds [of n] assms by auto
  have "0 < bitlen n" using assms bitlen_nonneg [of n] bitlen_eq_zero_iff [of n] by linarith
  moreover have "of_int (2 ^ nat (bitlen n - 1)) \<le> (of_int n :: real)" "(of_int n :: real) < of_int (2 ^ nat (bitlen n))"
    using b by (simp_all only: of_int_le_iff of_int_less_iff)
  ultimately show "2 powi (bitlen n - 1) \<le> (of_int n :: real)" "(of_int n :: real) < 2 powi bitlen n"
    by (simp_all add: power_int_def)
qed

text \<open>The result has \<open>prec\<close> bits before the point, or the exponent is the least one.\<close>

lemma unit_exponent_bounds:
  fixes v :: real
  assumes "0 < n" "0 < d" "0 < prec f" and v: "v = of_int n / of_int d * 2 powi e"
  defines "k \<equiv> unit_exponent f n d e"
  shows "emin f \<le> k" "v < 2 powi (k + int (prec f))" "emin f < k \<Longrightarrow> 2 powi (k + int (prec f) - 1) \<le> v"
proof -
  define l where "l = e + bitlen n - bitlen d - int (prec f)"
  obtain a b where ab: "scaled l n d e = (a, b)" by fastforce
  have k: "k = max (emin f) (if b * 2 ^ prec f \<le> a then l + 1 else l)" by (simp add: k_def unit_exponent_def Let_def ab flip: l_def)
  note s = scaled_ratio [OF assms(2) ab]
  have pos: "0 < (of_int d :: real)" "0 < v" using assms(1,2) v by simp_all
  have c: "b * 2 ^ prec f \<le> a \<longleftrightarrow> 2 powi (l + int (prec f)) \<le> v"
  proof -
    have "b * 2 ^ prec f \<le> a \<longleftrightarrow> of_int (b * 2 ^ prec f) \<le> (of_int a :: real)" by (simp only: of_int_le_iff)
    also have "\<dots> \<longleftrightarrow> 2 ^ prec f \<le> (of_int a / of_int b :: real)" using s(1) by (simp add: le_divide_eq mult.commute)
    also have "\<dots> \<longleftrightarrow> 2 ^ prec f \<le> v * 2 powi (- l)" by (simp add: s(2) v mult.assoc flip: power_int_add)
    also have "\<dots> \<longleftrightarrow> 2 powi (l + int (prec f)) \<le> v" by (simp add: power_int_add power_int_minus divide_simps mult.commute)
    finally show ?thesis .
  qed
  have hi: "v < 2 powi (l + 1 + int (prec f))"
  proof -
    have "of_int n < (2 powi bitlen n :: real)" "2 powi (bitlen d - 1) \<le> (of_int d :: real)" using bitlen_real assms(1,2) by blast+
    then have "of_int n / of_int d < (2 powi bitlen n / 2 powi (bitlen d - 1) :: real)"
      using assms(1,2) by (intro frac_less) auto
    then have "v < 2 powi bitlen n / 2 powi (bitlen d - 1) * 2 powi e" unfolding v by (intro mult_strict_right_mono) simp_all
    also have "\<dots> = 2 powi (l + 1 + int (prec f))"
      by (simp add: l_def flip: power_int_add power_int_diff) (simp add: algebra_simps)
    finally show ?thesis .
  qed
  have lo: "2 powi (l + int (prec f) - 1) \<le> v"
  proof -
    have "(2 powi (bitlen n - 1) :: real) \<le> of_int n" "(of_int d :: real) \<le> 2 powi bitlen d" using bitlen_real [of n] bitlen_real [of d] assms(1,2) by auto
    then have "(2 powi (bitlen n - 1) / 2 powi bitlen d :: real) \<le> of_int n / of_int d"
      using pos(1) assms(1) by (intro frac_le) auto
    then have "2 powi (bitlen n - 1) / 2 powi bitlen d * 2 powi e \<le> v" unfolding v by (intro mult_right_mono) simp_all
    also have "2 powi (bitlen n - 1) / 2 powi bitlen d * 2 powi e = (2 powi (l + int (prec f) - 1) :: real)"
      by (simp add: l_def flip: power_int_add power_int_diff) (simp add: algebra_simps)
    finally show ?thesis .
  qed
  have m: "i \<le> j \<Longrightarrow> (2 powi i :: real) \<le> 2 powi j" for i j by (simp add: power_int_increasing)
  show "emin f \<le> k" by (simp add: k)
  show "v < 2 powi (k + int (prec f))"
  proof (cases "b * 2 ^ prec f \<le> a")
    case True
    then show ?thesis using hi m [of "l + 1 + int (prec f)" "k + int (prec f)"] k by simp
  next
    case False
    then show ?thesis using c m [of "l + int (prec f)" "k + int (prec f)"] k by simp
  qed
  show "emin f < k \<Longrightarrow> 2 powi (k + int (prec f) - 1) \<le> v" using c lo by (auto simp: k max_def algebra_simps split: if_splits)
qed

text \<open>What a rounded result promises.\<close>

definition rounds :: "fmt \<Rightarrow> real \<Rightarrow> fl \<Rightarrow> bool" where
  "rounds f r x \<longleftrightarrow> fl_finite x \<and> val x \<in> grid f \<and>
     (\<forall>c \<in> grid f. (r \<le> c \<longrightarrow> val x \<le> c) \<and> (c \<le> r \<longrightarrow> c \<le> val x)) \<and>
     (\<forall>j. emin f + int (prec f) \<le> j \<longrightarrow> \<bar>r\<bar> \<le> 2 powi j \<longrightarrow> \<bar>val x - r\<bar> \<le> 2 powi (j - int (prec f) - 1))"

definition fmt_ok :: "fmt \<Rightarrow> bool" where
  "fmt_ok f \<longleftrightarrow> 0 < prec f \<and> emin f \<le> emax f"

lemma fmt_ok_formats [simp]: "fmt_ok single" "fmt_ok double"
  by (simp_all add: fmt_ok_def single_def double_def)

lemma fmt_fields [simp]:
  "prec single = 24" "emin single = - 149" "emax single = 104" "prec double = 53" "emin double = - 1074" "emax double = 971"
  by (simp_all add: single_def double_def)

lemma powi_2_mono: "i \<le> j \<Longrightarrow> (2 powi i :: real) \<le> 2 powi j"
  by (simp add: power_int_increasing)

lemma powi_tiny: "i \<le> - 20 \<Longrightarrow> (2 powi i :: real) \<le> 1 / 1000000"
  using powi_2_mono [of i "- 20"] by (simp add: power_int_def power_divide)

lemma powi_2_le_iff: "(2 powi i :: real) \<le> 2 powi j \<longleftrightarrow> i \<le> j"
  using powi_2_mono [of i j] power_int_strict_increasing [of j i "2 :: real"] by (meson le_less_linear leD one_less_numeral_iff semiring_norm(76))

lemma powi_scale: "x * 2 powi (e - k) \<le> y \<longleftrightarrow> x * 2 powi e \<le> y * 2 powi k" for x y :: real
  by (simp add: power_int_diff field_simps)

lemma powi_scale': "y \<le> x * 2 powi (e - k) \<longleftrightarrow> y * 2 powi k \<le> x * 2 powi e" for x y :: real
  by (simp add: power_int_diff field_simps)

lemma powi_int: "0 \<le> i \<Longrightarrow> (2 powi i :: real) = of_int (2 ^ nat i)"
  by (simp add: power_int_def)

lemma powi_shift: "k \<le> j \<Longrightarrow> (2 powi j :: real) = of_int (2 ^ nat (j - k)) * 2 powi k"
  using powi_int [of "j - k"] power_int_add [of "2 :: real" "j - k" k] by simp

lemma of_int_scale: "x \<le> y \<Longrightarrow> of_int x * 2 powi k \<le> (of_int y * 2 powi k :: real)"
  by (intro mult_right_mono) (simp_all only: of_int_le_iff, simp)

lemma nearest_grid_le:
  fixes v :: real
  assumes "0 < b" and r: "of_int a / of_int b = v / 2 powi k" and lo: "emin f < k \<Longrightarrow> 2 powi (k + int (prec f) - 1) \<le> v"
    and c: "c \<in> grid f" "v \<le> c" and f: "0 < prec f"
  shows "of_int (nearest a b) * 2 powi k \<le> c"
proof -
  obtain m j where m: "c = of_int m * 2 powi j" "\<bar>m\<bar> \<le> 2 ^ prec f" "emin f \<le> j" using c(1) by (auto simp: grid_def)
  show ?thesis
  proof (cases "k \<le> j")
    case True
    then have e: "c = of_int (m * 2 ^ nat (j - k)) * 2 powi k" using m(1) powi_shift [of k j] by simp
    have "of_int a / of_int b \<le> (of_int (m * 2 ^ nat (j - k)) :: real)" unfolding r using c(2) e by (simp add: divide_le_eq)
    then show ?thesis unfolding e by (intro of_int_scale nearest_le [OF assms(1)])
  next
    case False
    have "c \<le> 2 ^ prec f * 2 powi j" using of_int_scale [of m "2 ^ prec f" j] m(1,2) by simp
    also have "\<dots> = 2 powi (j + int (prec f))" by (simp add: power_int_add mult.commute)
    also have "\<dots> \<le> 2 powi (k + int (prec f) - 1)" using False by (intro powi_2_mono) simp
    finally have ck: "c \<le> 2 powi (k + int (prec f) - 1)" .
    moreover have kp: "2 powi (k + int (prec f) - 1) = of_int (2 ^ (prec f - 1)) * (2 powi k :: real)"
      using f by (simp add: of_nat_diff flip: power_int_of_nat power_int_add) (simp add: algebra_simps)
    ultimately have "of_int a / of_int b \<le> (of_int (2 ^ (prec f - 1)) :: real)" unfolding r using c(2) by (simp add: divide_le_eq)
    then have "nearest a b \<le> 2 ^ (prec f - 1)" by (rule nearest_le [OF assms(1)])
    then have "of_int (nearest a b) * 2 powi k \<le> (2 powi (k + int (prec f) - 1) :: real)" unfolding kp by (rule of_int_scale)
    also have "\<dots> \<le> v" using lo False m(3) by simp
    finally show ?thesis using c(2) by simp
  qed
qed

lemma nearest_grid_ge:
  fixes v :: real
  assumes "0 < b" and r: "of_int a / of_int b = v / 2 powi k" and lo: "emin f < k \<Longrightarrow> 2 powi (k + int (prec f) - 1) \<le> v"
    and c: "c \<in> grid f" "c \<le> v" and f: "0 < prec f"
  shows "c \<le> of_int (nearest a b) * 2 powi k"
proof -
  obtain m j where m: "c = of_int m * 2 powi j" "\<bar>m\<bar> \<le> 2 ^ prec f" "emin f \<le> j" using c(1) by (auto simp: grid_def)
  show ?thesis
  proof (cases "k \<le> j")
    case True
    then have e: "c = of_int (m * 2 ^ nat (j - k)) * 2 powi k" using m(1) powi_shift [of k j] by simp
    have "(of_int (m * 2 ^ nat (j - k)) :: real) \<le> of_int a / of_int b" unfolding r using c(2) e by (simp add: le_divide_eq)
    then show ?thesis unfolding e by (intro of_int_scale nearest_ge [OF assms(1)])
  next
    case False
    have "c \<le> 2 ^ prec f * 2 powi j" using of_int_scale [of m "2 ^ prec f" j] m(1,2) by simp
    also have "\<dots> = 2 powi (j + int (prec f))" by (simp add: power_int_add mult.commute)
    also have "\<dots> \<le> 2 powi (k + int (prec f) - 1)" using False by (intro powi_2_mono) simp
    also have kp: "\<dots> = of_int (2 ^ (prec f - 1)) * (2 powi k :: real)"
      using f by (simp add: of_nat_diff flip: power_int_of_nat power_int_add) (simp add: algebra_simps)
    also have "(of_int (2 ^ (prec f - 1)) :: real) \<le> of_int a / of_int b"
      unfolding r using lo False m(3) kp by (simp add: le_divide_eq)
    then have "2 ^ (prec f - 1) \<le> nearest a b" by (rule nearest_ge [OF assms(1)])
    then have "of_int (2 ^ (prec f - 1)) * (2 powi k :: real) \<le> of_int (nearest a b) * 2 powi k" by (rule of_int_scale)
    finally show ?thesis .
  qed
qed

lemma nearest_error:
  fixes v :: real and f :: fmt
  assumes "0 < b" and r: "of_int a / of_int b = v / 2 powi k" and lo: "emin f \<le> k" "emin f < k \<Longrightarrow> 2 powi (k + int (prec f) - 1) \<le> v"
    and j: "emin f + int (prec f) \<le> j" "\<bar>v\<bar> \<le> 2 powi j" and "0 < v" and f: "0 < prec f"
  shows "\<bar>of_int (nearest a b) * 2 powi k - v\<bar> \<le> 2 powi (j - int (prec f) - 1)"
proof -
  have "k + int (prec f) - 1 \<le> j \<or> k = emin f" using lo assms(7) j(2) powi_2_le_iff [of "k + int (prec f) - 1" j] by linarith
  then consider "k \<le> j - int (prec f)" | "k = j - int (prec f) + 1" "emin f < k" using j(1) by linarith
  then show ?thesis
  proof cases
    case 1
    have "of_int (nearest a b) * 2 powi k - v = (of_int (nearest a b) - of_int a / of_int b) * 2 powi k" by (simp add: r left_diff_distrib)
    then have "\<bar>of_int (nearest a b) * 2 powi k - v\<bar> = \<bar>of_int (nearest a b) - of_int a / of_int b\<bar> * 2 powi k" by (simp only: abs_mult) simp
    also have "\<dots> \<le> 1 / 2 * 2 powi k" using nearest_close [OF assms(1), of a] by (intro mult_right_mono) simp_all
    also have "\<dots> = 2 powi (k - 1)" by (simp add: power_int_diff)
    also have "\<dots> \<le> 2 powi (j - int (prec f) - 1)" using 1 by (intro powi_2_mono) simp
    finally show ?thesis .
  next
    case 2
    then have v: "v = 2 powi j" using lo(2) j(2) by simp
    then have "v \<in> grid f" unfolding grid_def using j(1) by (intro CollectI exI [of _ 1] exI [of _ j]) simp
    then have "of_int (nearest a b) * 2 powi k = v"
      using nearest_grid_le [OF assms(1) r lo(2) _ order_refl f] nearest_grid_ge [OF assms(1) r lo(2) _ order_refl f] by (intro order_antisym)
    then show ?thesis by simp
  qed
qed

lemma rounds_uminus: "rounds f r x \<Longrightarrow> rounds f (- r) (fl_neg x)"
proof -
  assume r: "rounds f r x"
  have v: "val (fl_neg x) = - val x" "fl_finite (fl_neg x) = fl_finite x" by (cases x; simp)+
  have g: "- c \<in> grid f" if "c \<in> grid f" for c
  proof -
    from that obtain m j where "c = of_int m * 2 powi j" "\<bar>m\<bar> \<le> 2 ^ prec f" "emin f \<le> j" by (auto simp: grid_def)
    then show ?thesis unfolding grid_def by (intro CollectI exI [of _ "- m"] exI [of _ j]) simp
  qed
  have "(- r \<le> c \<longrightarrow> - val x \<le> c) \<and> (c \<le> - r \<longrightarrow> c \<le> - val x)" if "c \<in> grid f" for c
    using r g [OF that] unfolding rounds_def by (metis minus_le_iff le_minus_iff)
  moreover have "\<bar>- val x - - r\<bar> = \<bar>val x - r\<bar>" by simp
  ultimately show ?thesis using r g unfolding rounds_def v by (simp add: abs_minus_commute)
qed

lemma round_fl_rounds:
  assumes "0 < n" "0 < d" "fmt_ok f" and small: "of_int n / of_int d * 2 powi e \<le> (2 powi (emax f + int (prec f) - 1) :: real)"
  shows "rounds f (if neg then - (of_int n / of_int d * 2 powi e) else of_int n / of_int d * 2 powi e) (round_fl f neg n d e)"
proof -
  define v k where "v = (of_int n / of_int d * 2 powi e :: real)" and "k = unit_exponent f n d e"
  obtain a b where ab: "scaled k n d e = (a, b)" by fastforce
  define q where "q = nearest a b"
  have f: "0 < prec f" "emin f \<le> emax f" using assms(3) by (simp_all add: fmt_ok_def)
  note ub = unit_exponent_bounds [OF assms(1,2) f(1) v_def, folded k_def]
  note s = scaled_ratio [OF assms(2) ab]
  have r: "of_int a / of_int b = v / 2 powi k" by (simp add: s(2) v_def power_int_diff)
  have vp: "0 < v" using assms(1,2) by (simp add: v_def)
  have le: "of_int q * 2 powi k \<le> c" if "c \<in> grid f" "v \<le> c" for c
    unfolding q_def using nearest_grid_le [OF s(1) r ub(3) that f(1)] .
  have ge: "c \<le> of_int q * 2 powi k" if "c \<in> grid f" "c \<le> v" for c
    unfolding q_def using nearest_grid_ge [OF s(1) r ub(3) that f(1)] .
  have q0: "0 \<le> q" unfolding q_def using vp by (intro nearest_ge [OF s(1)]) (simp add: r)
  have qp: "q \<le> 2 ^ prec f"
    unfolding q_def using ub(2) by (intro nearest_le [OF s(1)]) (simp add: r divide_le_eq power_int_add mult.commute)
  have max: "2 powi (emax f + int (prec f) - 1) \<in> grid f" unfolding grid_def using f
    by (intro CollectI exI [of _ 1] exI [of _ "emax f + int (prec f) - 1"]) simp
  have "\<not> (emax f < k \<or> emax f = k \<and> 2 ^ prec f \<le> q)"
  proof
    assume a: "emax f < k \<or> emax f = k \<and> 2 ^ prec f \<le> q"
    have "2 powi (emax f + int (prec f)) \<le> v \<or> 2 powi (emax f + int (prec f)) \<le> (of_int q * 2 powi k :: real)"
      using a ub(3) f(2) qp powi_2_mono [of "emax f + int (prec f)" "k + int (prec f) - 1"]
      by (auto simp: power_int_add mult.commute)
    moreover have "v \<le> 2 powi (emax f + int (prec f) - 1)" "of_int q * 2 powi k \<le> (2 powi (emax f + int (prec f) - 1) :: real)"
      using small le [OF max] by (simp_all add: v_def)
    ultimately show False using powi_2_le_iff [of "emax f + int (prec f)" "emax f + int (prec f) - 1"] by linarith
  qed
  then have eq: "round_fl f neg n d e = (if q = 0 then Zero neg else Fin (if neg then - q else q) k)" for neg
    by (auto simp: round_fl_def Let_def ab simp flip: k_def q_def)
  have vx: "val (round_fl f False n d e) = of_int q * 2 powi k" by (simp add: eq)
  have "\<bar>of_int q * 2 powi k - v\<bar> \<le> 2 powi (j - int (prec f) - 1)" if "emin f + int (prec f) \<le> j" "\<bar>v\<bar> \<le> 2 powi j" for j
    unfolding q_def using nearest_error [OF s(1) r ub(1,3) that vp f(1)] .
  moreover have "of_int q * 2 powi k \<in> grid f" unfolding grid_def using q0 qp ub(1) by (intro CollectI exI [of _ q] exI [of _ k]) simp
  ultimately have p: "rounds f v (round_fl f False n d e)" unfolding rounds_def vx using le ge by (auto simp: eq)
  have "round_fl f True n d e = fl_neg (round_fl f False n d e)" by (simp add: eq)
  then show ?thesis using p rounds_uminus [OF p] by (cases neg) (simp_all add: v_def)
qed

subsection \<open>The operations round the exact results\<close>

abbreviation (input) safe :: "fmt \<Rightarrow> real \<Rightarrow> bool" where
  "safe f r \<equiv> \<bar>r\<bar> \<le> 2 powi (emax f + int (prec f) - 1)"

lemma rounds_zero:
  assumes "fmt_ok f"
  shows "rounds f 0 (Zero s)"
proof -
  have "0 \<in> grid f" unfolding grid_def by (intro CollectI exI [of _ 0] exI [of _ "emin f"]) simp
  then show ?thesis by (simp add: rounds_def)
qed

lemma round_int_rounds:
  assumes "fmt_ok f" "safe f (of_int m * 2 powi e)"
  shows "rounds f (of_int m * 2 powi e) (round_int f m e)"
proof (cases "m = 0")
  case True
  then show ?thesis using rounds_zero [OF assms(1)] by (simp add: round_int_def)
next
  case False
  have "of_int \<bar>m\<bar> / of_int 1 * 2 powi e \<le> (2 powi (emax f + int (prec f) - 1) :: real)" using assms(2) by (simp add: abs_mult)
  from round_fl_rounds [OF _ _ assms(1) this, of "m < 0"] False show ?thesis by (auto simp: round_int_def split: if_splits)
qed

lemma to_fmt_rounds: "fmt_ok f \<Longrightarrow> fl_finite x \<Longrightarrow> safe f (val x) \<Longrightarrow> rounds f (val x) (to_fmt f x)"
  by (cases x) (simp_all add: rounds_zero round_int_rounds)

lemma fl_of_int_rounds: "fmt_ok f \<Longrightarrow> safe f (of_int n) \<Longrightarrow> rounds f (of_int n) (fl_of_int f n)"
  using round_int_rounds [of f n 0] by (simp add: fl_of_int_def)

lemma decimal_rounds:
  assumes "fmt_ok f" "safe f (of_int n / 10 ^ d)"
  shows "rounds f (of_int n / 10 ^ d) (decimal f n d)"
proof (cases "n = 0")
  case True
  then show ?thesis using rounds_zero [OF assms(1)] by (simp add: decimal_def)
next
  case False
  have "of_int \<bar>n\<bar> / of_int (10 ^ d) * 2 powi 0 \<le> (2 powi (emax f + int (prec f) - 1) :: real)" using assms(2) by simp
  from round_fl_rounds [OF _ _ assms(1) this, of "n < 0"] False show ?thesis by (auto simp: decimal_def split: if_splits)
qed

lemma sum_scaled: "of_int m * 2 powi e + of_int n * 2 powi k =
    (of_int (m * 2 ^ nat (e - min e k) + n * 2 ^ nat (k - min e k)) * 2 powi (min e k) :: real)"
  using powi_shift [of "min e k" e] powi_shift [of "min e k" k] by (simp add: distrib_right)

lemma fl_add_rounds:
  assumes "fmt_ok f" "fl_finite x" "fl_finite y" "safe f (val x + val y)"
  shows "rounds f (val x + val y) (fl_add f x y)"
  using assms to_fmt_rounds [of f x] to_fmt_rounds [of f y]
  by (cases x; cases y) (simp_all add: rounds_zero round_int_rounds sum_scaled Let_def del: of_int_add of_int_mult of_int_power)

lemma val_neg [simp]: "val (fl_neg x) = - val x" "fl_finite (fl_neg x) = fl_finite x"
  by (cases x; simp)+

lemma fl_sub_rounds:
  "fmt_ok f \<Longrightarrow> fl_finite x \<Longrightarrow> fl_finite y \<Longrightarrow> safe f (val x - val y) \<Longrightarrow> rounds f (val x - val y) (fl_sub f x y)"
  using fl_add_rounds [of f x "fl_neg y"] by (simp add: fl_sub_def)

lemma fl_mul_rounds:
  assumes "fmt_ok f" "fl_finite x" "fl_finite y" "safe f (val x * val y)"
  shows "rounds f (val x * val y) (fl_mul f x y)"
proof -
  have "of_int m * 2 powi e * (of_int n * 2 powi k) = (of_int (m * n) * 2 powi (e + k) :: real)" for m n e k by (simp add: power_int_add)
  then show ?thesis using assms by (cases x; cases y) (simp_all add: rounds_zero round_int_rounds del: of_int_mult)
qed

lemma fl_div_rounds:
  assumes "fmt_ok f" "fl_finite x" "fl_finite y" "val y \<noteq> 0" "safe f (val x / val y)"
  shows "rounds f (val x / val y) (fl_div f x y)"
proof (cases "\<exists>m e n k. x = Fin m e \<and> y = Fin n k")
  case True
  then obtain m e n k where xy: "x = Fin m e" "y = Fin n k" by blast
  let ?r = "of_int \<bar>m\<bar> / of_int \<bar>n\<bar> * 2 powi (e - k) :: real"
  have "\<bar>val x / val y\<bar> = ?r" by (simp add: xy abs_mult power_int_diff)
  then have "?r \<le> 2 powi (emax f + int (prec f) - 1)" using assms(5) by linarith
  moreover have "val x / val y = (if (m < 0) \<noteq> (n < 0) then - ?r else ?r)"
    by (cases "m < 0"; cases "n < 0") (simp_all add: xy power_int_diff)
  moreover have "0 < \<bar>m\<bar>" "0 < \<bar>n\<bar>" using assms(2,3) xy by simp_all
  ultimately show ?thesis using assms(1)
    by (simp only: xy fl_div.simps) (rule round_fl_rounds)
next
  case False
  then show ?thesis using assms by (cases x; cases y) (auto simp: rounds_zero)
qed

lemma fl_less_iff: "fl_finite x \<Longrightarrow> fl_finite y \<Longrightarrow> fl_less x y \<longleftrightarrow> val x < val y"
proof (cases "\<exists>m e n k. x = Fin m e \<and> y = Fin n k")
  case True
  then obtain m e n k where xy: "x = Fin m e" "y = Fin n k" by blast
  let ?l = "min e k"
  have "val x = of_int (m * 2 ^ nat (e - ?l)) * 2 powi ?l" "val y = of_int (n * 2 ^ nat (k - ?l)) * 2 powi ?l"
    using powi_shift [of ?l e] powi_shift [of ?l k] xy by simp_all
  then have "val x < val y \<longleftrightarrow> (of_int (m * 2 ^ nat (e - ?l)) :: real) < of_int (n * 2 ^ nat (k - ?l))" by simp
  also have "\<dots> \<longleftrightarrow> fl_less x y" by (simp only: of_int_less_iff xy fl_less.simps Let_def)
  finally show ?thesis by simp
next
  case False
  assume "fl_finite x" "fl_finite y"
  moreover have "\<not> (2 powi e :: real) < 0" for e by (simp add: not_less)
  ultimately show ?thesis using False by (cases x; cases y) (auto simp: zero_less_mult_iff mult_less_0_iff)
qed

lemma fl_le_iff: "fl_finite x \<Longrightarrow> fl_finite y \<Longrightarrow> fl_le x y \<longleftrightarrow> val x \<le> val y"
proof -
  assume f: "fl_finite x" "fl_finite y"
  have "fl_eq x y \<longleftrightarrow> \<not> fl_less x y \<and> \<not> fl_less y x" using f by (cases x; cases y) auto
  then show ?thesis using f by (auto simp: fl_le_def fl_less_iff)
qed

lemma grid_scale: "c \<in> grid f \<Longrightarrow> 2 * c \<in> grid f"
proof -
  assume "c \<in> grid f"
  then obtain m j where "c = of_int m * 2 powi j" "\<bar>m\<bar> \<le> 2 ^ prec f" "emin f \<le> j" by (auto simp: grid_def)
  then show ?thesis unfolding grid_def by (intro CollectI exI [of _ m] exI [of _ "j + 1"]) (simp add: power_int_add)
qed

lemma grid_int: "fmt_ok f \<Longrightarrow> emin f \<le> 0 \<Longrightarrow> \<bar>n\<bar> \<le> 2 ^ prec f \<Longrightarrow> of_int n \<in> grid f"
  unfolding grid_def by (intro CollectI exI [of _ n] exI [of _ 0]) simp

lemma rounds_exact: "rounds f r x \<Longrightarrow> r \<in> grid f \<Longrightarrow> val x = r"
  unfolding rounds_def by (meson order_antisym order_refl)

lemma powi_2_big: "\<bar>r\<bar> \<le> 2 powi i \<Longrightarrow> i \<le> emax f + int (prec f) - 1 \<Longrightarrow> safe f r"
  using powi_2_mono [of i "emax f + int (prec f) - 1"] by linarith

text \<open>A number of the format \<open>f\<close>.\<close>

definition number :: "fmt \<Rightarrow> fl \<Rightarrow> bool" where
  "number f x \<longleftrightarrow> fl_finite x \<and> val x \<in> grid f"

lemma rounds_number: "rounds f r x \<Longrightarrow> number f x"
  by (simp add: rounds_def number_def)

lemma rounds_finite: "rounds f r x \<Longrightarrow> fl_finite x"
  by (simp add: rounds_def)

lemma rounds_error:
  "rounds f r x \<Longrightarrow> \<bar>r\<bar> \<le> 2 powi j \<Longrightarrow> emin f + int (prec f) \<le> j \<Longrightarrow> \<bar>val x - r\<bar> \<le> 2 powi (j - int (prec f) - 1)"
  by (simp add: rounds_def)

lemma rounds_le: "rounds f r x \<Longrightarrow> c \<in> grid f \<Longrightarrow> r \<le> c \<Longrightarrow> val x \<le> c"
  by (simp add: rounds_def)

lemma rounds_ge: "rounds f r x \<Longrightarrow> c \<in> grid f \<Longrightarrow> c \<le> r \<Longrightarrow> c \<le> val x"
  by (simp add: rounds_def)

lemma gridI: "\<bar>m\<bar> \<le> 2 ^ prec f \<Longrightarrow> emin f \<le> j \<Longrightarrow> c = of_int m * 2 powi j \<Longrightarrow> c \<in> grid f"
  unfolding grid_def by blast

lemma numberI: "m \<noteq> 0 \<Longrightarrow> \<bar>m\<bar> \<le> 2 ^ prec f \<Longrightarrow> emin f \<le> e \<Longrightarrow> number f (Fin m e)"
  unfolding number_def by (auto intro: gridI)

lemma grid_single_double: "c \<in> grid single \<Longrightarrow> c \<in> grid double"
proof -
  assume "c \<in> grid single"
  then obtain m j where m: "c = of_int m * 2 powi j" "\<bar>m\<bar> \<le> 2 ^ 24" "- 149 \<le> j" by (auto simp: grid_def)
  then have "\<bar>m\<bar> \<le> 2 ^ 53" by simp
  then show ?thesis unfolding grid_def using m by (intro CollectI exI [of _ m] exI [of _ j]) simp
qed

lemma fl_of_int_exact:
  assumes "fmt_ok f" "emin f \<le> 0" "0 < emax f" "\<bar>n\<bar> \<le> 2 ^ prec f"
  shows "number f (fl_of_int f n) \<and> val (fl_of_int f n) = of_int n"
proof -
  have "of_int \<bar>n\<bar> \<le> (of_int (2 ^ prec f) :: real)" using assms(4) by (simp only: of_int_le_iff)
  then have "\<bar>of_int n :: real\<bar> \<le> 2 powi int (prec f)" by simp
  then have "rounds f (of_int n) (fl_of_int f n)" using assms(1,3) by (intro fl_of_int_rounds powi_2_big [of _ "int (prec f)"]) simp_all
  moreover have "of_int n \<in> grid f" using assms by (intro grid_int) simp_all
  ultimately show ?thesis using rounds_exact rounds_number by blast
qed

subsection \<open>Conversion to integers\<close>

lemma floor_scaled: "\<lfloor>of_int m * (2 powi e :: real)\<rfloor> = (if 0 \<le> e then m * 2 ^ nat e else m div 2 ^ nat (- e))"
proof (cases "0 \<le> e")
  case True
  then have "of_int m * (2 powi e :: real) = of_int (m * 2 ^ nat e)" by (simp add: power_int_def)
  then show ?thesis using True by (simp only: floor_of_int if_True)
next
  case False
  then have "(2 powi e :: real) = inverse (2 ^ nat (- e))" by (simp add: power_int_def power_one_over inverse_eq_divide)
  then have "of_int m * (2 powi e :: real) = of_int m / of_int (2 ^ nat (- e))" by (simp only: divide_inverse of_int_power of_int_numeral)
  then show ?thesis using False by (simp only: floor_divide_of_int_eq if_False)
qed

lemma fl_floor_val: "fl_finite x \<Longrightarrow> fl_finite (fl_floor x) \<and> fl_trunc (fl_floor x) = Some \<lfloor>val x\<rfloor>"
  by (cases x) (auto simp: Let_def floor_scaled)

lemma fl_trunc_val: "fl_finite x \<Longrightarrow> 0 \<le> val x \<Longrightarrow> fl_trunc x = Some \<lfloor>val x\<rfloor>"
proof (cases x)
  case (Fin m e)
  assume "fl_finite x" "0 \<le> val x"
  moreover have "0 < (2 powi e :: real)" by simp
  ultimately have "0 < m" using Fin by (simp add: zero_le_mult_iff)
  then show ?thesis by (auto simp: Fin floor_scaled)
qed auto

lemma fl_trunc_le: "fl_finite x \<Longrightarrow> \<exists>n. fl_trunc x = Some n \<and> of_int \<bar>n\<bar> \<le> \<bar>val x\<bar>"
proof (cases x)
  case (Fin m e)
  have f: "of_int \<lfloor>of_int \<bar>m\<bar> * (2 powi e :: real)\<rfloor> \<le> \<bar>val x\<bar>" by (simp add: Fin abs_mult)
  have "fl_trunc x = Some (sgn m * \<lfloor>of_int \<bar>m\<bar> * (2 powi e :: real)\<rfloor>)"
    unfolding floor_scaled by (simp add: Fin sgn_mult_abs flip: mult.assoc)
  moreover have "0 \<le> \<lfloor>of_int \<bar>m\<bar> * (2 powi e :: real)\<rfloor>" by simp
  ultimately show ?thesis using f by (cases "m = 0") (auto simp: abs_mult sgn_if)
qed auto

lemma fl_to_int_floor: "fl_finite x \<Longrightarrow> \<bar>val x\<bar> \<le> 2 ^ 30 \<Longrightarrow> fl_to_int (fl_floor x) = Some \<lfloor>val x\<rfloor>"
  using fl_floor_val [of x] by (auto simp: fl_to_int_def floor_less_iff le_floor_iff)

lemma fl_to_int_val: "fl_finite x \<Longrightarrow> 0 \<le> val x \<Longrightarrow> val x \<le> 2 ^ 30 \<Longrightarrow> fl_to_int x = Some \<lfloor>val x\<rfloor>"
  using fl_trunc_val [of x] by (auto simp: fl_to_int_def floor_less_iff le_floor_iff)

end
