(* ===== verification/Codec2_Lsp.thy ===== *)
theory Codec2_Lsp
  imports Ieee
begin

text \<open>
  Line spectrum pairs, \<^verbatim>\<open>codec2/sources/lsp.c\<close>: the evaluation of a Chebyshev series, the root search of
  \<^verbatim>\<open>lpc_to_lsp\<close>, which may not end for every grid spacing, and the filter of \<^verbatim>\<open>lsp_to_lpc\<close>. The trigonometric
  functions of the C library are parameters. The lemmas show that the root search ends for every polynomial,
  numbers that are not finite included, with the grid spacing of the codec.
\<close>

subsection \<open>Numbers of the source\<close>

abbreviation (input) single_of :: "fl \<Rightarrow> fl" where "single_of \<equiv> to_fmt single"
abbreviation (input) double_of :: "fl \<Rightarrow> fl" where "double_of \<equiv> to_fmt double"

definition f_int :: "int \<Rightarrow> fl" where "f_int n = fl_of_int single n"
definition d_int :: "int \<Rightarrow> fl" where "d_int n = fl_of_int double n"

text \<open>The functions of \<^verbatim>\<open>math.h\<close>, on and to \<^verbatim>\<open>double\<close>.\<close>

record libm =
  acos_m :: "fl \<Rightarrow> fl"
  cos_m :: "fl \<Rightarrow> fl"
  log10_m :: "fl \<Rightarrow> fl"
  pow_m :: "fl \<Rightarrow> fl \<Rightarrow> fl"
  sin_m :: "fl \<Rightarrow> fl"
  sqrt_m :: "fl \<Rightarrow> fl"
  atan2_m :: "fl \<Rightarrow> fl \<Rightarrow> fl"

subsection \<open>Chebyshev series\<close>

abbreviation (input) LSP_MAX_ORDER :: nat where "LSP_MAX_ORDER \<equiv> 20"

text \<open>
  The array \<open>T\<close> holds one number more than half the largest order; it is filled from its first two entries on.
\<close>

definition cheb_series :: "fl \<Rightarrow> nat \<Rightarrow> fl list" where
  "cheb_series x m =
     foldl (\<lambda>T i. T @ [fl_sub single (fl_mul single (fl_mul single (f_int 2) x) (T ! (i - 1))) (T ! (i - 2))])
       [f_int 1, x] [2..<m div 2 + 1]"

definition cheb_poly_eva :: "fl list \<Rightarrow> fl \<Rightarrow> nat \<Rightarrow> fl" where
  "cheb_poly_eva coef x m =
     (let T = cheb_series x m
      in foldl (\<lambda>sum i. fl_add single sum (fl_mul single (coef ! (m div 2 - i)) (T ! i))) (f_int 0) [0..<m div 2 + 1])"

subsection \<open>From prediction coefficients to line spectrum pairs\<close>

text \<open>The coefficients of the two polynomials.\<close>

definition lsp_P :: "fl list \<Rightarrow> nat \<Rightarrow> fl list" where
  "lsp_P a lpcrdr =
     (let m = lpcrdr div 2;
          P = foldl (\<lambda>P i. P @ [fl_sub single (fl_add single (a ! i) (a ! (lpcrdr + 1 - i))) (P ! (i - 1))]) [f_int 1] [1..<m + 1]
      in map (\<lambda>i. if i < m then fl_mul single (f_int 2) (P ! i) else P ! i) [0..<m + 1])"

definition lsp_Q :: "fl list \<Rightarrow> nat \<Rightarrow> fl list" where
  "lsp_Q a lpcrdr =
     (let m = lpcrdr div 2;
          Q = foldl (\<lambda>Q i. Q @ [fl_add single (fl_sub single (a ! i) (a ! (lpcrdr + 1 - i))) (Q ! (i - 1))]) [f_int 1] [1..<m + 1]
      in map (\<lambda>i. if i < m then fl_mul single (f_int 2) (Q ! i) else Q ! i) [0..<m + 1])"

text \<open>The loop over \<open>k\<close> that halves the interval: \<open>psuml\<close>, \<open>xl\<close>, \<open>xr\<close> and \<open>xm\<close>.\<close>

fun bisect :: "fl list \<Rightarrow> nat \<Rightarrow> nat \<Rightarrow> fl \<Rightarrow> fl \<Rightarrow> fl \<Rightarrow> fl \<Rightarrow> fl \<times> fl \<times> fl \<times> fl" where
  "bisect pt lpcrdr 0 psuml xl xr xm = (psuml, xl, xr, xm)"
| "bisect pt lpcrdr (Suc n) psuml xl xr xm =
     (let xm = fl_div single (fl_add single xl xr) (f_int 2);
          psumm = cheb_poly_eva pt xm lpcrdr
      in if fl_less (f_int 0) (fl_mul single psumm psuml) then bisect pt lpcrdr n psumm xm xr xm
         else bisect pt lpcrdr n psuml xl xm xm)"

text \<open>
  The inner \<^verbatim>\<open>while\<close> loop for root \<open>j\<close>. It returns \<open>xl\<close>, \<open>xr\<close>, the frequencies and the number of roots; \<open>None\<close>
  stands for a loop that does not end and for a write outside \<open>freq\<close>.
\<close>

partial_function (option) lsp_search ::
  "fl list \<Rightarrow> nat \<Rightarrow> nat \<Rightarrow> fl \<Rightarrow> nat \<Rightarrow> fl \<Rightarrow> fl \<Rightarrow> fl \<Rightarrow> fl list \<Rightarrow> nat \<Rightarrow> (fl \<times> fl \<times> fl list \<times> nat) option" where
  "lsp_search pt lpcrdr nb delta j psuml xl xr freq roots =
     (if fl_le (f_int (- 1)) xr then
        (let xr = fl_sub single xl delta;
             psumr = cheb_poly_eva pt xr lpcrdr
         in if fl_less (fl_mul single psumr psuml) (f_int 0) then
              (let (psuml, xl, xr, xm) = bisect pt lpcrdr (nb + 1) psuml xl xr (f_int 0)
               in if j < length freq then Some (xm, xr, freq[j := xm], roots + 1) else None)
            else lsp_search pt lpcrdr nb delta j psumr xr xr freq roots)
      else Some (xl, xr, freq, roots))"

fun lsp_roots ::
  "fl list \<Rightarrow> fl list \<Rightarrow> nat \<Rightarrow> nat \<Rightarrow> fl \<Rightarrow> nat list \<Rightarrow> fl \<Rightarrow> fl \<Rightarrow> fl list \<Rightarrow> nat \<Rightarrow> (fl list \<times> nat) option" where
  "lsp_roots P Q lpcrdr nb delta [] xl xr freq roots = Some (freq, roots)"
| "lsp_roots P Q lpcrdr nb delta (j # js) xl xr freq roots =
     (let pt = (if j mod 2 \<noteq> 0 then Q else P);
          psuml = cheb_poly_eva pt xl lpcrdr
      in Option.bind (lsp_search pt lpcrdr nb delta j psuml xl xr freq roots)
           (\<lambda>(xl, xr, freq, roots). lsp_roots P Q lpcrdr nb delta js xl xr freq roots))"

text \<open>\<open>freq\<close> is the caller's array. The entries for which no root is found keep what they held.\<close>

definition lpc_to_lsp :: "libm \<Rightarrow> fl list \<Rightarrow> nat \<Rightarrow> fl list \<Rightarrow> nat \<Rightarrow> fl \<Rightarrow> (nat \<times> fl list) option" where
  "lpc_to_lsp math a lpcrdr freq nb delta =
     map_option (\<lambda>(freq, roots). (roots, map (\<lambda>i. if i < lpcrdr then single_of (acos_m math (double_of (freq ! i))) else freq ! i) [0..<length freq]))
       (lsp_roots (lsp_P a lpcrdr) (lsp_Q a lpcrdr) lpcrdr nb delta [0..<lpcrdr] (f_int 1) (f_int 0) freq 0)"

subsection \<open>From line spectrum pairs to prediction coefficients\<close>

text \<open>The cascade of second order sections for one output, on the memory \<open>Wp\<close>.\<close>

fun lsp_sections :: "fl list \<Rightarrow> nat list \<Rightarrow> fl list \<Rightarrow> fl \<Rightarrow> fl \<Rightarrow> fl list \<times> fl \<times> fl" where
  "lsp_sections freq [] Wp xin1 xin2 = (Wp, xin1, xin2)"
| "lsp_sections freq (i # is) Wp xin1 xin2 =
     (let n1 = 4 * i; n2 = n1 + 1; n3 = n2 + 1; n4 = n3 + 1;
          xout1 = fl_add single (fl_sub single xin1 (fl_mul single (fl_mul single (f_int 2) (freq ! (2 * i))) (Wp ! n1))) (Wp ! n2);
          xout2 = fl_add single (fl_sub single xin2 (fl_mul single (fl_mul single (f_int 2) (freq ! (2 * i + 1))) (Wp ! n3))) (Wp ! n4);
          Wp = Wp[n2 := Wp ! n1];
          Wp = Wp[n4 := Wp ! n3];
          Wp = Wp[n1 := xin1];
          Wp = Wp[n3 := xin2]
      in lsp_sections freq is Wp xout1 xout2)"

fun lsp_outputs :: "fl list \<Rightarrow> nat \<Rightarrow> nat \<Rightarrow> fl list \<Rightarrow> fl \<Rightarrow> fl \<Rightarrow> fl list" where
  "lsp_outputs freq m 0 Wp xin1 xin2 = []"
| "lsp_outputs freq m (Suc n) Wp xin1 xin2 =
     (let (Wp, xin1, xin2) = lsp_sections freq [0..<m] Wp xin1 xin2;
          n4 = 4 * (m - 1) + 3;
          xout1 = fl_add single xin1 (Wp ! (n4 + 1));
          xout2 = fl_sub single xin2 (Wp ! (n4 + 2));
          ak = single_of (fl_mul double (double_of (fl_add single xout1 xout2)) (decimal double 5 1));
          Wp = Wp[n4 + 1 := xin1];
          Wp = Wp[n4 + 2 := xin2]
      in ak # lsp_outputs freq m n Wp (f_int 0) (f_int 0))"

text \<open>The order is at least two; the pointer \<open>n4\<close> is not set otherwise.\<close>

definition lsp_to_lpc :: "libm \<Rightarrow> fl list \<Rightarrow> nat \<Rightarrow> fl list" where
  "lsp_to_lpc math lsp lpcrdr =
     (let m = lpcrdr div 2;
          freq = map (\<lambda>i. single_of (cos_m math (double_of (lsp ! i)))) [0..<lpcrdr];
          Wp = replicate (4 * m + 2) (f_int 0)
      in lsp_outputs freq m (lpcrdr + 1) Wp (f_int 1) (f_int 1))"

subsection \<open>The root search ends\<close>

lemma f_int_small: "\<bar>n\<bar> \<le> 2 ^ 24 \<Longrightarrow> number single (f_int n) \<and> val (f_int n) = of_int n"
  unfolding f_int_def by (rule fl_of_int_exact) simp_all

lemma d_int_small: "\<bar>n\<bar> \<le> 2 ^ 53 \<Longrightarrow> number double (d_int n) \<and> val (d_int n) = of_int n"
  unfolding d_int_def by (rule fl_of_int_exact) simp_all

definition LSP_DELTA1 :: fl where "LSP_DELTA1 = decimal double 1 2"

lemma delta_val: "fl_finite (single_of LSP_DELTA1)" "\<bar>val (single_of LSP_DELTA1) - 1 / 100\<bar> \<le> 1 / 1000"
proof -
  have d: "rounds double (of_int 1 / 10 ^ 2) LSP_DELTA1" unfolding LSP_DELTA1_def
    by (intro decimal_rounds powi_2_big [of _ 0]) simp_all
  have e: "\<bar>val LSP_DELTA1 - 1 / 100\<bar> \<le> 1 / 1000000" using rounds_error [OF d, of 0] powi_tiny [of "- 54"] by simp
  then have "\<bar>val LSP_DELTA1\<bar> \<le> 1" by linarith
  then have b: "\<bar>val LSP_DELTA1\<bar> \<le> 2 powi 0" by simp
  then have r: "rounds single (val LSP_DELTA1) (single_of LSP_DELTA1)" using rounds_finite [OF d]
    by (intro to_fmt_rounds powi_2_big [of _ 0]) simp_all
  show "fl_finite (single_of LSP_DELTA1)" by (rule rounds_finite [OF r])
  have "\<bar>val (single_of LSP_DELTA1) - val LSP_DELTA1\<bar> \<le> 1 / 1000000" using rounds_error [OF r b] powi_tiny [of "- 25"] by simp
  then show "\<bar>val (single_of LSP_DELTA1) - 1 / 100\<bar> \<le> 1 / 1000" using e by linarith
qed

text \<open>The interval of the search: it lies between \<open>- 3 / 2\<close> and \<open>1\<close>.\<close>

definition interval :: "fl \<Rightarrow> fl \<Rightarrow> bool" where
  "interval xr xl \<longleftrightarrow> number single xl \<and> number single xr \<and> - 3 / 2 \<le> val xr \<and> val xr \<le> val xl \<and> val xl \<le> 1"

lemma midpoint:
  assumes "interval xr xl"
  defines "xm \<equiv> fl_div single (fl_add single xl xr) (f_int 2)"
  shows "interval xr xm" "interval xm xl"
proof -
  note i = assms(1) [unfolded interval_def number_def]
  let ?s = "fl_add single xl xr"
  have "\<bar>val xl + val xr\<bar> \<le> 2 powi 2" using i by (simp add: power_int_def abs_le_iff)
  then have s: "rounds single (val xl + val xr) ?s" using i by (intro fl_add_rounds powi_2_big [of _ 2]) simp_all
  have "2 * val xr \<le> val ?s" "val ?s \<le> 2 * val xl"
    using s i grid_scale unfolding rounds_def by auto
  then have h: "val xr \<le> val ?s / 2" "val ?s / 2 \<le> val xl" by simp_all
  have 2: "fl_finite (f_int 2)" "val (f_int 2) = 2" using f_int_small [of 2] by (simp_all add: number_def)
  have "\<bar>val ?s / val (f_int 2)\<bar> \<le> 2 powi 1" using h i by (simp add: 2 abs_le_iff)
  then have "rounds single (val ?s / val (f_int 2)) xm" unfolding xm_def using s 2
    by (intro fl_div_rounds powi_2_big [of _ 1]) (simp_all add: rounds_def)
  then have m: "rounds single (val ?s / 2) xm" by (simp add: 2)
  then have "val xr \<le> val xm" "val xm \<le> val xl" using h i unfolding rounds_def by auto
  then show "interval xr xm" "interval xm xl" using i rounds_number [OF m] by (auto simp: interval_def number_def)
qed

lemma bisect_interval:
  "interval xr xl \<Longrightarrow> bisect pt lpcrdr (Suc n) psuml xl xr xm = (psuml', xl', xr', xm') \<Longrightarrow> interval xr' xm' \<and> val xm' \<le> val xl"
proof (induction n arbitrary: psuml xl xr xm)
  case 0
  then show ?case using midpoint [OF 0(1)] by (auto simp: Let_def interval_def split: if_splits)
next
  case (Suc n)
  let ?m = "fl_div single (fl_add single xl xr) (f_int 2)"
  note m = midpoint [OF Suc.prems(1)]
  have "val ?m \<le> val xl" using m(2) by (simp add: interval_def)
  with Suc.IH [OF m(1)] Suc.IH [OF m(2)] Suc.prems(2) show ?case
    by (subst (asm) bisect.simps) (fastforce simp: Let_def simp del: bisect.simps split: if_splits)
qed

lemma grid_step:
  assumes "interval xr xl" "fl_le (f_int (- 1)) xr"
  defines "x \<equiv> fl_sub single xl (single_of LSP_DELTA1)"
  shows "interval x xl" "val x \<le> val xl - 1 / 200"
proof -
  note i = assms(1) [unfolded interval_def number_def]
  have "- 1 \<le> val xr" using assms(2) i f_int_small [of "- 1"] by (simp add: fl_le_iff number_def)
  then have xl: "- 1 \<le> val xl" using i by linarith
  have "\<bar>val xl - val (single_of LSP_DELTA1)\<bar> \<le> 2" using delta_val(2) xl i by linarith
  then have b: "\<bar>val xl - val (single_of LSP_DELTA1)\<bar> \<le> 2 powi 1" by simp
  then have r: "rounds single (val xl - val (single_of LSP_DELTA1)) x" unfolding x_def using i delta_val(1)
    by (intro fl_sub_rounds powi_2_big [of _ 1]) simp_all
  have e: "\<bar>val x - (val xl - val (single_of LSP_DELTA1))\<bar> \<le> 1 / 1000" using rounds_error [OF r b] powi_tiny [of "- 24"] by simp
  then show "val x \<le> val xl - 1 / 200" using delta_val(2) by linarith
  moreover have "- 3 / 2 \<le> val x" using e delta_val(2) xl by linarith
  ultimately show "interval x xl" using i rounds_number [OF r] by (simp add: interval_def number_def)
qed

lemma lsp_search_ends:
  assumes "interval xr xl" "j < length freq" "val xl < - 1 + real n / 200"
  shows "\<exists>xl' xr' freq' roots'. lsp_search pt lpcrdr nb (single_of LSP_DELTA1) j psuml xl xr freq roots = Some (xl', xr', freq', roots') \<and>
    interval xr' xl' \<and> length freq' = length freq \<and> roots' \<le> roots + 1"
  using assms
proof (induction n arbitrary: psuml xl xr)
  case 0
  then have "\<not> fl_le (f_int (- 1)) xr" using f_int_small [of "- 1"] by (simp add: fl_le_iff interval_def number_def)
  then show ?case using 0 by (simp add: lsp_search.simps)
next
  case (Suc n)
  let ?x = "fl_sub single xl (single_of LSP_DELTA1)"
  show ?case
  proof (cases "fl_le (f_int (- 1)) xr")
    case False
    then show ?thesis using Suc.prems by (simp add: lsp_search.simps)
  next
    case True
    note g = grid_step [OF Suc.prems(1) True]
    obtain a b c d where bs: "bisect pt lpcrdr (Suc nb) psuml xl ?x (f_int 0) = (a, b, c, d)" by (metis prod_cases4)
    have bi: "interval c d" using bisect_interval [OF g(1) bs] by blast
    have "interval ?x ?x" using g(1) by (simp add: interval_def)
    from Suc.IH [OF this Suc.prems(2), of "cheb_poly_eva pt ?x lpcrdr"] Suc.prems(3) g(2)
    show ?thesis using True bs bi Suc.prems(2) by (subst lsp_search.simps) (auto simp: Let_def field_simps simp del: bisect.simps)
  qed
qed

lemma lsp_roots_end:
  assumes "interval xr xl" "\<forall>j \<in> set js. j < length freq"
  shows "\<exists>freq' roots'. lsp_roots P Q lpcrdr nb (single_of LSP_DELTA1) js xl xr freq roots = Some (freq', roots') \<and>
    length freq' = length freq \<and> roots' \<le> roots + length js"
  using assms
proof (induction js arbitrary: xl xr freq roots)
  case (Cons j js)
  let ?pt = "if j mod 2 \<noteq> 0 then Q else P"
  have "val xl < - 1 + real 401 / 200" using Cons.prems(1) by (simp add: interval_def)
  then obtain xl' xr' freq' roots' where s: "lsp_search ?pt lpcrdr nb (single_of LSP_DELTA1) j (cheb_poly_eva ?pt xl lpcrdr) xl xr freq roots =
      Some (xl', xr', freq', roots')" "interval xr' xl'" "length freq' = length freq" "roots' \<le> roots + 1"
    using lsp_search_ends [OF Cons.prems(1)] Cons.prems(2) by (metis list.set_intros(1))
  from Cons.IH [OF s(2), of freq' roots'] Cons.prems(2) s(3) obtain freq'' roots'' where
    "lsp_roots P Q lpcrdr nb (single_of LSP_DELTA1) js xl' xr' freq' roots' = Some (freq'', roots'')" "length freq'' = length freq" "roots'' \<le> roots' + length js"
    by auto
  then show ?case using s(1,4) by (auto simp: Let_def)
qed simp

lemma lpc_to_lsp_ends:
  assumes "lpcrdr \<le> length freq"
  shows "\<exists>roots lsp. lpc_to_lsp math a lpcrdr freq nb (single_of LSP_DELTA1) = Some (roots, lsp) \<and> length lsp = length freq \<and> roots \<le> lpcrdr"
proof -
  have "interval (f_int 0) (f_int 1)" using f_int_small [of 0] f_int_small [of 1] by (simp add: interval_def)
  from lsp_roots_end [OF this, of "[0..<lpcrdr]" freq "lsp_P a lpcrdr" "lsp_Q a lpcrdr" lpcrdr nb 0] assms
  show ?thesis by (auto simp: lpc_to_lsp_def)
qed

text \<open>
  C33: the search for the roots ends. For every order for which the local arrays suffice, every vector of prediction
  coefficients, numbers that are not finite included, and every number of halvings, \<^verbatim>\<open>lpc_to_lsp\<close> returns with the grid spacing that the codec passes, it
  writes only inside the array of frequencies, and it reports at most as many roots as the order.
\<close>

theorem lpc_to_lsp_terminates:
  assumes "lpcrdr \<le> LSP_MAX_ORDER" and "length a = lpcrdr + 1" and freq: "lpcrdr \<le> length freq"
  shows "\<exists>roots lsp. lpc_to_lsp math a lpcrdr freq nb (single_of LSP_DELTA1) = Some (roots, lsp) \<and> length lsp = length freq \<and> roots \<le> lpcrdr"
  using freq by (rule lpc_to_lsp_ends)

theorem lpc_to_lsp_terminates_witness:
  "\<exists>roots lsp. lpc_to_lsp \<lparr>acos_m = (\<lambda>x. x), cos_m = (\<lambda>x. x), log10_m = (\<lambda>x. x), pow_m = (\<lambda>x y. x), sin_m = (\<lambda>x. x), sqrt_m = (\<lambda>x. x), atan2_m = (\<lambda>x y. x)\<rparr> (f_int 1 # replicate 10 NaN) 10
      (replicate 10 (Inf True)) 5 (single_of LSP_DELTA1) = Some (roots, lsp) \<and> length lsp = length (replicate 10 (Inf True)) \<and> roots \<le> 10"
  by (rule lpc_to_lsp_terminates) simp_all

end
