(* ===== verification/Codec2_Lpc.thy ===== *)
theory Codec2_Lpc
  imports Codec2_Lsp
begin

text \<open>
  Linear prediction, \<^verbatim>\<open>codec2/sources/lpc.c\<close>. An operand of type \<^verbatim>\<open>float\<close> in an expression with a \<^verbatim>\<open>double\<close> is
  converted, and a \<^verbatim>\<open>double\<close> is rounded when it is stored in a \<^verbatim>\<open>float\<close>. The lemmas follow a frame of silence, whose
  autocorrelation is zero, through the recursion: its coefficients are not numbers.
\<close>

abbreviation (input) LPC_MAX :: nat where "LPC_MAX \<equiv> 20"
abbreviation (input) LPC_MAX_N :: nat where "LPC_MAX_N \<equiv> 512"

definition PI :: fl where "PI = decimal double 3141592654 9"
definition TWO_PI :: fl where "TWO_PI = decimal double 6283185307 9"

subsection \<open>Windows and autocorrelation\<close>

definition hanning_window :: "libm \<Rightarrow> fl list \<Rightarrow> nat \<Rightarrow> fl list" where
  "hanning_window math Sn Nsam =
     map (\<lambda>i. let arg = fl_div double (fl_mul double (fl_mul double (d_int 2) PI) (double_of (f_int (int i)))) (d_int (int Nsam - 1));
                  win = fl_sub double (decimal double 5 1) (fl_mul double (decimal double 5 1) (cos_m math arg))
              in single_of (fl_mul double (double_of (Sn ! i)) win)) [0..<Nsam]"

definition autocorrelate :: "fl list \<Rightarrow> nat \<Rightarrow> nat \<Rightarrow> fl list" where
  "autocorrelate Sn Nsam order =
     map (\<lambda>j. foldl (\<lambda>R i. fl_add single R (fl_mul single (Sn ! i) (Sn ! (i + j)))) (f_int 0) [0..<Nsam - j]) [0..<order + 1]"

text \<open>
  After the loop the index \<open>j\<close> is \<open>order + 1\<close>, and that entry is divided; \<open>None\<close> when the array does not have it.
\<close>

definition autocorrelate_freq :: "libm \<Rightarrow> fl list \<Rightarrow> fl list \<Rightarrow> fl list \<Rightarrow> nat \<Rightarrow> nat \<Rightarrow> fl list option" where
  "autocorrelate_freq math Pw w R Nsam order =
     (let acc = map (\<lambda>j. foldl (\<lambda>r i. single_of (fl_add double (double_of r)
                    (fl_mul double (double_of (Pw ! i)) (cos_m math (double_of (fl_mul single (f_int (int j)) (w ! i)))))))
                  (f_int 0) [0..<Nsam]) [0..<order + 1];
          R = acc @ drop (order + 1) R;
          j = order + 1
      in if j < length R then Some (R[j := fl_div single (R ! j) (f_int (int Nsam))]) else None)"

subsection \<open>The Levinson-Durbin recursion\<close>

text \<open>Row \<open>i\<close> of the matrix \<open>a\<close> from row \<open>i - 1\<close>, entry \<open>j\<close> at position \<open>j - 1\<close>, and the next energy.\<close>

definition levinson_step :: "fl list \<Rightarrow> nat \<Rightarrow> fl list \<Rightarrow> fl \<Rightarrow> fl list \<times> fl" where
  "levinson_step R i a E =
     (let sum = foldl (\<lambda>sum j. fl_add single sum (fl_mul single (a ! (j - 1)) (R ! (i - j)))) (f_int 0) [1..<i];
          k = single_of (fl_div double (fl_mul double (d_int (- 1)) (double_of (fl_add single (R ! i) sum))) (double_of E));
          k = (if fl_less (d_int 1) (fl_abs (double_of k)) then f_int 0 else k);
          row = map (\<lambda>j. fl_add single (a ! (j - 1)) (fl_mul single k (a ! (i - j - 1)))) [1..<i] @ [k];
          E = fl_mul single (fl_sub single (f_int 1) (fl_mul single k k)) E
      in (row, E))"

definition levinson_durbin :: "fl list \<Rightarrow> nat \<Rightarrow> fl list" where
  "levinson_durbin R order =
     (let (a, E) = foldl (\<lambda>(a, E) i. levinson_step R i a E) ([], R ! 0) [1..<order + 1]
      in f_int 1 # a)"

subsection \<open>Filters\<close>

text \<open>
  The arrays of samples begin \<open>order\<close> entries before the pointer that the functions receive; these entries are the
  memory of the filter.
\<close>

definition inverse_filter :: "fl list \<Rightarrow> fl list \<Rightarrow> nat \<Rightarrow> nat \<Rightarrow> fl list" where
  "inverse_filter Sn a Nsam order =
     map (\<lambda>i. foldl (\<lambda>r j. fl_add single r (fl_mul single (Sn ! (order + i - j)) (a ! j))) (f_int 0) [0..<order + 1]) [0..<Nsam]"

definition synthesis_filter :: "fl list \<Rightarrow> fl list \<Rightarrow> nat \<Rightarrow> nat \<Rightarrow> fl list \<Rightarrow> fl list" where
  "synthesis_filter res a Nsam order Sn' =
     foldl (\<lambda>S i. S[order + i := foldl (\<lambda>x j. fl_sub single x (fl_mul single (S ! (order + i - j)) (a ! j)))
        (fl_mul single (res ! i) (a ! 0)) [1..<order + 1]]) Sn' [0..<Nsam]"

text \<open>A failed assertion is \<open>None\<close>.\<close>

definition residual_energy :: "fl list \<Rightarrow> fl list \<Rightarrow> nat \<Rightarrow> fl" where
  "residual_energy a R order = foldl (\<lambda>E i. fl_add single E (fl_mul single (a ! i) (R ! i))) (f_int 0) [0..<order + 1]"

definition find_aks :: "libm \<Rightarrow> fl list \<Rightarrow> nat \<Rightarrow> nat \<Rightarrow> (fl list \<times> fl) option" where
  "find_aks math Sn Nsam order =
     (if \<not> (order < LPC_MAX \<and> Nsam < LPC_MAX_N) then None
      else
        (let Wn = hanning_window math Sn Nsam;
             R = autocorrelate Wn Nsam order;
             a = levinson_durbin R order;
             E = residual_energy a R order
         in Some (a, if fl_less E (f_int 0) then single_of (decimal double 1 12) else E)))"

definition weight :: "libm \<Rightarrow> fl list \<Rightarrow> fl \<Rightarrow> nat \<Rightarrow> fl list \<Rightarrow> fl list" where
  "weight math ak gamma order akw =
     foldl (\<lambda>akw i. akw[i := single_of (fl_mul double (double_of (ak ! i)) (pow_m math (double_of gamma) (double_of (f_int (int i)))))])
       akw [1..<order + 1]"

subsection \<open>Silence\<close>

fun is_zero :: "fl \<Rightarrow> bool" where
  "is_zero (Zero s) = True"
| "is_zero x = False"

lemma f_int_0 [simp]: "f_int 0 = Zero False"
  by (simp add: f_int_def fl_of_int_def round_int_def)

lemma nan_absorbs [simp]:
  "fl_add f x NaN = NaN" "fl_sub f x NaN = NaN" "fl_mul f x NaN = NaN" "fl_div f x NaN = NaN" "fl_less x NaN = False"
  by (cases x; simp add: fl_sub_def)+

lemma to_fmt_zero: "is_zero x \<Longrightarrow> is_zero (to_fmt f x)"
  by (cases x) simp_all

lemma mul_zero: "is_zero x \<Longrightarrow> fl_finite y \<Longrightarrow> is_zero (fl_mul f x y)" "is_zero x \<Longrightarrow> fl_finite y \<Longrightarrow> is_zero (fl_mul f y x)"
  by (cases x; cases y; simp)+

lemma zero_finite: "is_zero x \<Longrightarrow> fl_finite x"
  by (cases x) simp_all

lemma add_zeros: "is_zero y \<Longrightarrow> fl_add f (Zero False) y = Zero False"
  by (cases y) simp_all

lemma foldl_zeros: "\<forall>i \<in> set is. is_zero (g i) \<Longrightarrow> foldl (\<lambda>r i. fl_add f r (g i)) (Zero False) is = Zero False"
  by (induction "is") (simp_all add: add_zeros)

lemma foldl_nan: "foldl (\<lambda>r i. fl_add f r (g i)) NaN is = NaN"
  by (induction "is") simp_all

lemma foldl_some_nan: "\<exists>i \<in> set is. g i = NaN \<Longrightarrow> foldl (\<lambda>r i. fl_add f r (g i)) z is = NaN"
  by (induction "is" arbitrary: z) (auto simp: foldl_nan)

lemma autocorrelate_silence:
  assumes "\<forall>i < Nsam. is_zero (Sn ! i)"
  shows "autocorrelate Sn Nsam order = replicate (order + 1) (Zero False)"
proof -
  have "foldl (\<lambda>R i. fl_add single R (fl_mul single (Sn ! i) (Sn ! (i + j)))) (Zero False) [0..<Nsam - j] = Zero False" for j
    using assms by (intro foldl_zeros) (auto intro!: mul_zero(1) zero_finite)
  then show ?thesis by (simp add: autocorrelate_def map_replicate_const)
qed

lemma levinson_silence:
  assumes "0 < n" "n \<le> order"
  shows "\<exists>E. foldl (\<lambda>(a, E) i. levinson_step (replicate (order + 1) (Zero False)) i a E) ([], Zero False) [1..<n + 1] = (replicate n NaN, E) \<and>
    (E = NaN \<or> is_zero E)"
  using assms
proof (induction n)
  case (Suc n)
  let ?R = "replicate (order + 1) (Zero False)"
  show ?case
  proof (cases "n = 0")
    case True
    have "is_zero (fl_mul double (d_int (- 1)) (Zero False))" using d_int_small [of "- 1"] by (intro mul_zero(2)) (simp_all add: number_def)
    then have "fl_div double (fl_mul double (d_int (- 1)) (Zero False)) (Zero False) = NaN" by (cases "fl_mul double (d_int (- 1)) (Zero False)") simp_all
    then have "levinson_step ?R 1 [] (Zero False) = ([NaN], NaN)" using Suc.prems by (simp add: levinson_step_def Let_def)
    then show ?thesis using True by simp
  next
    case False
    then obtain E where E: "foldl (\<lambda>(a, E) i. levinson_step ?R i a E) ([], Zero False) [1..<n + 1] = (replicate n NaN, E)"
      using Suc by auto
    have "foldl (\<lambda>sum j. fl_add single sum (fl_mul single (replicate n NaN ! (j - 1)) (?R ! (Suc n - j)))) (Zero False) [1..<Suc n] = NaN"
      using False by (intro foldl_some_nan bexI [of _ 1]) (simp_all del: upt_Suc)
    then have "levinson_step ?R (Suc n) (replicate n NaN) E = (map (\<lambda>j. NaN) [1..<Suc n] @ [NaN], NaN)"
      unfolding levinson_step_def Let_def by (simp del: upt_Suc)
    moreover have "map (\<lambda>j. NaN) [1..<Suc n] @ [NaN] = replicate (Suc n) NaN"
      by (simp add: map_replicate_const replicate_append_same del: upt_Suc)
    ultimately show ?thesis using E by simp
  qed
qed simp

text \<open>The prediction coefficients of silence, and its energy, are not numbers.\<close>

lemma lpc_silence:
  assumes "\<forall>i < Nsam. is_zero (Sn ! i)" "0 < order"
  defines "R \<equiv> autocorrelate Sn Nsam order"
  shows "levinson_durbin R order = f_int 1 # replicate order NaN" "residual_energy (levinson_durbin R order) R order = NaN"
proof -
  have R: "R = replicate (order + 1) (Zero False)" unfolding R_def by (rule autocorrelate_silence [OF assms(1)])
  then show l: "levinson_durbin R order = f_int 1 # replicate order NaN"
    using levinson_silence [of order order] assms(2) by (auto simp: levinson_durbin_def simp del: upt_Suc)
  show "residual_energy (levinson_durbin R order) R order = NaN"
    unfolding residual_energy_def l using assms(2) by (intro foldl_some_nan bexI [of _ 1]) (simp_all add: R del: upt_Suc)
qed

end
