(* ===== verification/Codec2_Pack.thy ===== *)
theory Codec2_Pack
  imports Prelude
begin

text \<open>
  The bit stream of the speech codec: \<^verbatim>\<open>pack\<close> and \<^verbatim>\<open>unpack\<close> of \<^verbatim>\<open>codec2/sources/pack.c\<close> and the frame
  that \<^verbatim>\<open>codec2_encode\<close> writes and \<^verbatim>\<open>codec2_decode\<close> reads with them. The indices that are packed come
  from floating point analysis, which is not modelled. The lemmas describe both loops bit by bit and
  show that every frame is read back as it was written.
\<close>

subsection \<open>The loops\<close>

abbreviation (input) WordSize :: nat where "WordSize \<equiv> 8"

text \<open>
  An access outside the array and a shift by 32 or more are faults. \<open>field\<close> is of type \<^verbatim>\<open>int\<close>, so its
  shifts to the right copy the sign.
\<close>

function pack_slices :: "octets \<Rightarrow> nat \<Rightarrow> u32 \<Rightarrow> nat \<Rightarrow> (octets \<times> nat) option" where
  "pack_slices bitArray bI field fieldWidth =
     (let bitsLeft = WordSize - bI mod 8;
          sliceWidth = (if bitsLeft < fieldWidth then bitsLeft else fieldWidth);
          wordIndex = bI div 8
      in if length bitArray \<le> wordIndex \<or> 32 \<le> fieldWidth - sliceWidth then None
         else
           (let bitArray = bitArray[wordIndex := bitArray ! wordIndex OR
                  ucast (push_bit (bitsLeft - sliceWidth) (signed_drop_bit (fieldWidth - sliceWidth) field))]
            in if fieldWidth - sliceWidth \<noteq> 0 then pack_slices bitArray (bI + sliceWidth) field (fieldWidth - sliceWidth)
               else Some (bitArray, bI + sliceWidth)))"
  by pat_completeness auto
termination
  by (relation "measure (\<lambda>(_, _, _, fieldWidth). fieldWidth)") (auto split: if_splits)

declare pack_slices.simps [simp del]

definition pack :: "octets \<Rightarrow> nat \<Rightarrow> u32 \<Rightarrow> nat \<Rightarrow> (octets \<times> nat) option" where
  "pack bitArray bitIndex field fieldWidth = pack_slices bitArray bitIndex (signed_drop_bit 1 field XOR field) fieldWidth"

function unpack_slices :: "octets \<Rightarrow> nat \<Rightarrow> u32 \<Rightarrow> nat \<Rightarrow> (u32 \<times> nat) option" where
  "unpack_slices bitArray bI field fieldWidth =
     (let bitsLeft = WordSize - bI mod 8;
          sliceWidth = (if bitsLeft < fieldWidth then bitsLeft else fieldWidth)
      in if length bitArray \<le> bI div 8 \<or> 32 \<le> fieldWidth - sliceWidth then None
         else
           (let field = field OR push_bit (fieldWidth - sliceWidth)
                  (drop_bit (bitsLeft - sliceWidth) (ucast (bitArray ! (bI div 8))) AND (push_bit sliceWidth 1 - 1))
            in if fieldWidth - sliceWidth \<noteq> 0 then unpack_slices bitArray (bI + sliceWidth) field (fieldWidth - sliceWidth)
               else Some (field, bI + sliceWidth)))"
  by pat_completeness auto
termination
  by (relation "measure (\<lambda>(_, _, _, fieldWidth). fieldWidth)") (auto split: if_splits)

declare unpack_slices.simps [simp del]

definition gray_to_binary :: "u32 \<Rightarrow> u32" where
  "gray_to_binary field =
     (let t = field XOR drop_bit 8 field;
          t = t XOR drop_bit 4 t;
          t = t XOR drop_bit 2 t;
          t = t XOR drop_bit 1 t
      in t)"

definition unpack :: "octets \<Rightarrow> nat \<Rightarrow> nat \<Rightarrow> (u32 \<times> nat) option" where
  "unpack bitArray bitIndex fieldWidth =
     map_option (\<lambda>(field, bI). (gray_to_binary field, bI)) (unpack_slices bitArray bitIndex 0 fieldWidth)"

subsection \<open>Frames\<close>

abbreviation (input) LPC_ORD :: nat where "LPC_ORD \<equiv> 10"
abbreviation (input) WO_BITS :: nat where "WO_BITS \<equiv> 7"
abbreviation (input) E_BITS :: nat where "E_BITS \<equiv> 5"
abbreviation (input) CODEC2_BITS_PER_FRAME :: nat where "CODEC2_BITS_PER_FRAME \<equiv> 50"

text \<open>The widths in the codebooks \<^verbatim>\<open>lsp_cb\<close>.\<close>

definition lsp_bits :: "nat \<Rightarrow> nat" where
  "lsp_bits i = [4, 4, 4, 4, 4, 4, 4, 3, 3, 2] ! i"

record codes =
  Wo_index :: u32
  lsp_indexes :: "u32 list"
  energy_index :: u32
  voiced1 :: u32
  voiced2 :: u32

fun pack_lsps :: "octets \<Rightarrow> nat \<Rightarrow> (nat \<times> u32) list \<Rightarrow> (octets \<times> nat) option" where
  "pack_lsps bits nbit [] = Some (bits, nbit)"
| "pack_lsps bits nbit ((i, x) # xs) = Option.bind (pack bits nbit x (lsp_bits i)) (\<lambda>(bits, nbit). pack_lsps bits nbit xs)"

text \<open>The frame of \<^verbatim>\<open>codec2_encode\<close>; a failed assertion is a fault.\<close>

definition encode_frame :: "codes \<Rightarrow> octets \<Rightarrow> octets option" where
  "encode_frame c bits =
     (let n = (CODEC2_BITS_PER_FRAME + 7) div 8 in
      if length bits < n then None
      else
        (let bits = replicate n 0 @ drop n bits in
         Option.bind (pack bits 0 (Wo_index c) WO_BITS) (\<lambda>(bits, nbit).
         Option.bind (pack_lsps bits nbit (zip [0..<LPC_ORD] (lsp_indexes c))) (\<lambda>(bits, nbit).
         Option.bind (pack bits nbit (energy_index c) E_BITS) (\<lambda>(bits, nbit).
         Option.bind (pack bits nbit (voiced1 c) 1) (\<lambda>(bits, nbit).
         Option.bind (pack bits nbit (voiced2 c) 1) (\<lambda>(bits, nbit).
         if nbit = CODEC2_BITS_PER_FRAME then Some bits else None)))))))"

fun unpack_lsps :: "octets \<Rightarrow> nat \<Rightarrow> nat list \<Rightarrow> (u32 list \<times> nat) option" where
  "unpack_lsps bits nbit [] = Some ([], nbit)"
| "unpack_lsps bits nbit (i # is) =
     Option.bind (unpack bits nbit (lsp_bits i)) (\<lambda>(x, nbit). map_option (\<lambda>(xs, nbit). (x # xs, nbit)) (unpack_lsps bits nbit is))"

text \<open>The codes that \<^verbatim>\<open>codec2_decode\<close> reads from a frame.\<close>

definition decode_frame :: "octets \<Rightarrow> codes option" where
  "decode_frame bits =
     Option.bind (unpack bits 0 WO_BITS) (\<lambda>(wo, nbit).
     Option.bind (unpack_lsps bits nbit [0..<LPC_ORD]) (\<lambda>(lsps, nbit).
     Option.bind (unpack bits nbit E_BITS) (\<lambda>(energy, nbit).
     Option.bind (unpack bits nbit 1) (\<lambda>(v1, nbit).
     Option.bind (unpack bits nbit 1) (\<lambda>(v2, nbit).
     if nbit = CODEC2_BITS_PER_FRAME
     then Some \<lparr>Wo_index = wo, lsp_indexes = lsps, energy_index = energy, voiced1 = v1, voiced2 = v2\<rparr>
     else None)))))"

subsection \<open>The loops bit by bit\<close>

text \<open>Bit \<open>j\<close> of a bit string, the most significant bit of each octet first.\<close>

definition bit_at :: "octets \<Rightarrow> nat \<Rightarrow> bool" where
  "bit_at bs j = bit (bs ! (j div 8)) (7 - j mod 8)"

lemma bit_signed_drop: "bit (signed_drop_bit n (w :: u32)) k \<longleftrightarrow> k < 32 \<and> bit w (if n + k < 32 then n + k else 31)"
  by (auto simp: bit_signed_drop_bit_iff min_def dest: bit_imp_le_length)

lemma bit_slice_written:
  assumes "s \<le> l" "l \<le> 8" "w \<le> s + 24" "s \<le> w"
  shows "bit (ucast (push_bit (l - s) (signed_drop_bit (w - s) (field :: u32))) :: u8) k \<longleftrightarrow>
    k < 8 \<and> l - s \<le> k \<and> bit field (w - s + (k - (l - s)))"
  using assms by (auto simp: bit_simps bit_signed_drop)

lemma bit_slice_read:
  assumes "s \<le> l" "l \<le> 8" "s \<le> w" "w \<le> 32"
  shows "bit (push_bit (w - s) (drop_bit (l - s) (ucast (x :: u8)) AND (push_bit s 1 - 1)) :: u32) k \<longleftrightarrow>
    w - s \<le> k \<and> k < w \<and> bit x (l - s + (k - (w - s)))"
proof -
  have "push_bit s 1 - 1 = (mask s :: u32)" by (simp add: mask_eq_exp_minus_1 push_bit_eq_mult)
  then show ?thesis using assms by (auto simp: bit_simps dest: bit_imp_le_length)
qed

lemma same_octet: "(j :: nat) div 8 = i div 8 \<longleftrightarrow> i - i mod 8 \<le> j \<and> j < i - i mod 8 + 8"
proof -
  have "i - i mod 8 = 8 * (i div 8)" by (simp add: minus_mod_eq_mult_div)
  then show ?thesis by (auto intro: div_nat_eqI)
qed

lemma in_octet: "(j :: nat) div 8 = i div 8 \<Longrightarrow> j mod 8 + i = j + i mod 8"
  using div_mult_mod_eq [of j 8] div_mult_mod_eq [of i 8] by linarith

text \<open>One slice of a field: it lies in one octet and shows the top bits of what is left of the field.\<close>

lemma slice_position:
  assumes "t + i = j + r" "t < 8" "r < 8" "s \<le> 8 - r" "s \<le> w" "0 < (s :: nat)"
  shows "8 - r - s \<le> 7 - t \<longleftrightarrow> j < i + s" "8 - r - s \<le> 7 - t \<Longrightarrow> w - s + (7 - t - (8 - r - s)) = i + w - 1 - j"
proof -
  obtain a b where ab: "8 = r + s + a" "w = s + b" using assms(3-5) by (metis add.assoc le_add_diff_inverse less_imp_le)
  then have e: "8 - r - s = a" "w - s = b" by simp_all
  show "8 - r - s \<le> 7 - t \<longleftrightarrow> j < i + s" unfolding e using assms ab by linarith
  assume "8 - r - s \<le> 7 - t"
  then have "t + a \<le> 7" unfolding e using assms(2) by linarith
  then obtain c where c: "7 = t + a + c" using le_Suc_ex by blast
  then have "7 - t - a = c" by simp
  then show "w - s + (7 - t - (8 - r - s)) = i + w - 1 - j" unfolding e using assms(1) ab c by linarith
qed

definition slice_width :: "nat \<Rightarrow> nat \<Rightarrow> nat" where
  "slice_width i w = (if WordSize - i mod 8 < w then WordSize - i mod 8 else w)"

lemma slice_width_bounds:
  "0 < w \<Longrightarrow> 0 < slice_width i w" "slice_width i w \<le> w" "slice_width i w \<le> 8 - i mod 8"
  "slice_width i w < w \<Longrightarrow> (i + slice_width i w) mod 8 = 0"
  "j < i + slice_width i w \<Longrightarrow> i \<le> j \<Longrightarrow> j div 8 = i div 8"
proof -
  show "0 < w \<Longrightarrow> 0 < slice_width i w" "slice_width i w \<le> w" "slice_width i w \<le> 8 - i mod 8"
    by (auto simp: slice_width_def)
  show "slice_width i w < w \<Longrightarrow> (i + slice_width i w) mod 8 = 0"
    by (auto simp: slice_width_def split: if_splits) presburger
  show "j < i + slice_width i w \<Longrightarrow> i \<le> j \<Longrightarrow> j div 8 = i div 8"
    by (auto simp: slice_width_def same_octet split: if_splits)
qed

lemma write_slice_bits:
  fixes i :: nat and field :: u32
  assumes w: "0 < w" "w \<le> 16" and j: "j < 8 * length arr"
  defines "s \<equiv> slice_width i w"
  shows "bit_at (arr[i div 8 := arr ! (i div 8) OR ucast (push_bit (8 - i mod 8 - s) (signed_drop_bit (w - s) field))]) j \<longleftrightarrow>
    bit_at arr j \<or> (j div 8 = i div 8 \<and> j < i + s \<and> bit field (i + w - 1 - j))"
proof (cases "j div 8 = i div 8")
  case True
  note b = slice_width_bounds [where i = i and w = w, folded s_def]
  have m: "j mod 8 + i = j + i mod 8" "j mod 8 < 8" "i mod 8 < 8" using in_octet [OF True] by simp_all
  note p = slice_position [OF m b(3,2) b(1) [OF w(1)]]
  have "bit (ucast (push_bit (8 - i mod 8 - s) (signed_drop_bit (w - s) field)) :: u8) (7 - j mod 8) \<longleftrightarrow> j < i + s \<and> bit field (i + w - 1 - j)"
  proof -
    have "7 - j mod 8 < 8" "8 - i mod 8 \<le> 8" "w \<le> s + 24" using w(2) by linarith+
    then show ?thesis using bit_slice_written [OF b(3) _ _ b(2), of field "7 - j mod 8"] p by metis
  qed
  moreover have "i div 8 < length arr" using j True by linarith
  ultimately show ?thesis using True by (simp add: bit_at_def bit_or_iff)
next
  case False
  then show ?thesis by (simp add: bit_at_def)
qed

lemma read_slice_bits:
  fixes i :: nat
  assumes w: "0 < w" "w \<le> 16"
  defines "s \<equiv> slice_width i w"
  shows "bit (push_bit (w - s) (drop_bit (8 - i mod 8 - s) (ucast (arr ! (i div 8))) AND (push_bit s 1 - 1)) :: u32) k \<longleftrightarrow>
    w - s \<le> k \<and> k < w \<and> bit_at arr (i + w - 1 - k)"
proof (cases "w - s \<le> k \<and> k < w")
  case True
  note b = slice_width_bounds [where i = i and w = w, folded s_def]
  have d: "(i + w - 1 - k) div 8 = i div 8" using True b(2) w by (intro b(5)) linarith+
  note p = slice_position [OF in_octet [OF d] _ _ b(3,2) b(1) [OF w(1)]]
  have "8 - i mod 8 - s \<le> 7 - (i + w - 1 - k) mod 8" using p(1) True w b(2) by auto
  moreover from p(2) [OF _ _ this] have "w - s + (7 - (i + w - 1 - k) mod 8 - (8 - i mod 8 - s)) = k" using True by simp
  ultimately have "8 - i mod 8 - s + (k - (w - s)) = 7 - (i + w - 1 - k) mod 8" by (metis add_diff_cancel_left' le_add_diff_inverse)
  moreover have "8 - i mod 8 \<le> 8" "w \<le> 32" using w(2) by linarith+
  ultimately show ?thesis using bit_slice_read [OF b(3) _ b(2), of "arr ! (i div 8)" k] True d unfolding bit_at_def by metis
next
  case False
  note b = slice_width_bounds [where i = i and w = w, folded s_def]
  from False show ?thesis using b(2,3) w(2) by (subst bit_slice_read) auto
qed

lemma slices_unfold:
  "pack_slices arr i field w =
     (let s = slice_width i w in
      if length arr \<le> i div 8 \<or> 32 \<le> w - s then None
      else
        (let arr = arr[i div 8 := arr ! (i div 8) OR ucast (push_bit (8 - i mod 8 - s) (signed_drop_bit (w - s) field))]
         in if w - s \<noteq> 0 then pack_slices arr (i + s) field (w - s) else Some (arr, i + s)))"
  "unpack_slices arr i field w =
     (let s = slice_width i w in
      if length arr \<le> i div 8 \<or> 32 \<le> w - s then None
      else
        (let field = field OR push_bit (w - s) (drop_bit (8 - i mod 8 - s) (ucast (arr ! (i div 8))) AND (push_bit s 1 - 1))
         in if w - s \<noteq> 0 then unpack_slices arr (i + s) field (w - s) else Some (field, i + s)))"
  by (subst pack_slices.simps unpack_slices.simps; simp only: slice_width_def Let_def)+

lemma pack_slices_bits:
  assumes "0 < w" "w \<le> 16" "i + w \<le> 8 * length arr" "\<forall>j. i \<le> j \<and> j < 8 * length arr \<longrightarrow> \<not> bit_at arr j"
    and "i mod 8 = 0 \<or> (\<forall>k \<ge> w. \<not> bit field k)"
  shows "\<exists>arr'. pack_slices arr i field w = Some (arr', i + w) \<and> length arr' = length arr \<and>
    (\<forall>j < 8 * length arr. bit_at arr' j = (if j < i then bit_at arr j else j < i + w \<and> bit field (i + w - 1 - j)))"
  using assms
proof (induction w arbitrary: arr i rule: less_induct)
  case (less w)
  let ?s = "slice_width i w"
  let ?arr = "arr[i div 8 := arr ! (i div 8) OR ucast (push_bit (8 - i mod 8 - ?s) (signed_drop_bit (w - ?s) field))]"
  note b = slice_width_bounds [where i = i and w = w]
  have g: "\<not> length arr \<le> i div 8" "\<not> 32 \<le> w - ?s" using less.prems(1-3) by linarith+
  have step: "bit_at ?arr j = (if j < i then bit_at arr j else j < i + ?s \<and> bit field (i + w - 1 - j))" if "j < 8 * length arr" for j
  proof (cases "j < i")
    case True
    have "\<not> (j div 8 = i div 8 \<and> bit field (i + w - 1 - j))"
    proof
      assume a: "j div 8 = i div 8 \<and> bit field (i + w - 1 - j)"
      then have "i mod 8 \<noteq> 0" using True in_octet [of j i] by linarith
      moreover have "w \<le> i + w - 1 - j" using True by linarith
      ultimately show False using less.prems(5) conjunct2 [OF a] by simp
    qed
    then show ?thesis using True write_slice_bits [OF less.prems(1,2) that, of i field] by auto
  next
    case False
    then show ?thesis using write_slice_bits [OF less.prems(1,2) that, of i field] less.prems(4) that b(5) [of j] by auto
  qed
  have eq: "pack_slices arr i field w = (if w - ?s \<noteq> 0 then pack_slices ?arr (i + ?s) field (w - ?s) else Some (?arr, i + ?s))"
    using g by (subst slices_unfold) (simp only: Let_def simp_thms if_False)
  show ?case
  proof (cases "w - ?s = 0")
    case True
    then have "?s = w" using b(2) by simp
    then show ?thesis using eq step by (intro exI [of _ ?arr]) simp
  next
    case False
    have "\<exists>arr'. pack_slices ?arr (i + ?s) field (w - ?s) = Some (arr', i + ?s + (w - ?s)) \<and> length arr' = length ?arr \<and>
      (\<forall>j < 8 * length ?arr. bit_at arr' j = (if j < i + ?s then bit_at ?arr j else j < i + ?s + (w - ?s) \<and> bit field (i + ?s + (w - ?s) - 1 - j)))"
    proof (rule less.IH)
      show "w - ?s < w" "0 < w - ?s" "w - ?s \<le> 16" using less.prems(1,2) b(1) False by simp_all
      show "i + ?s + (w - ?s) \<le> 8 * length ?arr" using less.prems(3) b(2) by simp
      show "\<forall>j. i + ?s \<le> j \<and> j < 8 * length ?arr \<longrightarrow> \<not> bit_at ?arr j" using step by simp
      show "(i + ?s) mod 8 = 0 \<or> (\<forall>k \<ge> w - ?s. \<not> bit field k)" using b(2,4) False by simp
    qed
    then obtain arr' where r: "pack_slices ?arr (i + ?s) field (w - ?s) = Some (arr', i + w)" "length arr' = length arr"
      "\<And>j. j < 8 * length arr \<Longrightarrow> bit_at arr' j = (if j < i + ?s then bit_at ?arr j else j < i + w \<and> bit field (i + w - 1 - j))"
      using b(2) by auto
    have "bit_at arr' j = (if j < i then bit_at arr j else j < i + w \<and> bit field (i + w - 1 - j))" if "j < 8 * length arr" for j
      using r(3) [OF that] step [OF that] b(2) by (cases "j < i"; cases "j < i + ?s") simp_all
    then show ?thesis using eq False r(1,2) by simp
  qed
qed

lemma unpack_slices_bits:
  assumes "0 < w" "w \<le> 16" "i + w \<le> 8 * length arr"
  shows "\<exists>r. unpack_slices arr i field w = Some (r, i + w) \<and> (\<forall>k. bit r k = (bit field k \<or> (k < w \<and> bit_at arr (i + w - 1 - k))))"
  using assms
proof (induction w arbitrary: field i rule: less_induct)
  case (less w)
  let ?s = "slice_width i w"
  let ?f = "field OR push_bit (w - ?s) (drop_bit (8 - i mod 8 - ?s) (ucast (arr ! (i div 8))) AND (push_bit ?s 1 - 1))"
  note b = slice_width_bounds [where i = i and w = w] and rb = read_slice_bits [OF less.prems(1,2), of i arr]
  have g: "\<not> length arr \<le> i div 8" "\<not> 32 \<le> w - ?s" using less.prems(1-3) by linarith+
  have eq: "unpack_slices arr i field w = (if w - ?s \<noteq> 0 then unpack_slices arr (i + ?s) ?f (w - ?s) else Some (?f, i + ?s))"
    using g by (subst slices_unfold) (simp only: Let_def simp_thms if_False)
  show ?case
  proof (cases "w - ?s = 0")
    case True
    then have "?s = w" using b(2) by simp
    then show ?thesis using eq rb by (intro exI [of _ ?f]) (auto simp: bit_or_iff)
  next
    case False
    have "\<exists>r. unpack_slices arr (i + ?s) ?f (w - ?s) = Some (r, i + ?s + (w - ?s)) \<and>
        (\<forall>k. bit r k = (bit ?f k \<or> (k < w - ?s \<and> bit_at arr (i + ?s + (w - ?s) - 1 - k))))"
      using less.prems b(1,2) False by (intro less.IH) simp_all
    then obtain r where r: "unpack_slices arr (i + ?s) ?f (w - ?s) = Some (r, i + w)"
      "\<And>k. bit r k = (bit ?f k \<or> (k < w - ?s \<and> bit_at arr (i + w - 1 - k)))" using b(2) by auto
    have "bit r k = (bit field k \<or> (k < w \<and> bit_at arr (i + w - 1 - k)))" for k
      using r(2) [of k] rb [of k] b(2) by (cases "k < w - ?s") (auto simp: bit_or_iff)
    then show ?thesis using eq False r(1) by simp
  qed
qed

subsection \<open>Gray code\<close>

definition fold_down :: "nat \<Rightarrow> u32 \<Rightarrow> u32" where
  "fold_down n x = x XOR drop_bit n x"

lemma fold_down_commute: "fold_down m (fold_down n x) = fold_down n (fold_down m x)"
  by (simp add: fold_down_def drop_bit_xor ac_simps)

lemma fold_down_twice: "fold_down n (fold_down n x) = fold_down (n + n) x"
  by (simp add: fold_down_def drop_bit_xor ac_simps)

lemma gray_inverse:
  assumes "\<forall>k \<ge> 16. \<not> bit x k"
  shows "gray_to_binary (signed_drop_bit 1 x XOR x) = x"
proof -
  have "signed_drop_bit 1 x = drop_bit 1 x" by (rule bit_word_eqI) (use assms in \<open>auto simp: bit_signed_drop bit_simps ac_simps\<close>)
  then have "signed_drop_bit 1 x XOR x = fold_down 1 x" by (simp add: fold_down_def xor.commute)
  then have "gray_to_binary (signed_drop_bit 1 x XOR x) = fold_down 1 (fold_down 2 (fold_down 4 (fold_down 8 (fold_down 1 x))))"
    by (simp only: gray_to_binary_def fold_down_def Let_def)
  also have "\<dots> = fold_down 1 (fold_down 1 (fold_down 2 (fold_down 4 (fold_down 8 x))))"
    by (simp only: fold_down_commute [of 8 1] fold_down_commute [of 4 1] fold_down_commute [of 2 1])
  also have "\<dots> = fold_down 16 x" by (simp add: fold_down_twice eval_nat_numeral)
  also have "\<dots> = x" by (rule bit_word_eqI) (use assms in \<open>auto simp: fold_down_def bit_simps\<close>)
  finally show ?thesis .
qed

subsection \<open>Fields\<close>

text \<open>A field that \<^verbatim>\<open>pack\<close> and \<^verbatim>\<open>unpack\<close> handle: one to sixteen bits wide and not larger than its width allows.\<close>

definition field_ok :: "u32 \<Rightarrow> nat \<Rightarrow> bool" where
  "field_ok x w \<longleftrightarrow> 0 < w \<and> w \<le> 16 \<and> (\<forall>k \<ge> w. \<not> bit x k)"

definition gray :: "u32 \<Rightarrow> u32" where
  "gray x = signed_drop_bit 1 x XOR x"

lemma gray_ok: "field_ok x w \<Longrightarrow> field_ok (gray x) w"
  by (auto simp: field_ok_def gray_def bit_xor_iff bit_signed_drop)

lemma pack_bits:
  assumes "field_ok x w" "i + w \<le> 8 * length arr" "\<forall>j. i \<le> j \<and> j < 8 * length arr \<longrightarrow> \<not> bit_at arr j"
  shows "\<exists>arr'. pack arr i x w = Some (arr', i + w) \<and> length arr' = length arr \<and>
    (\<forall>j < 8 * length arr. bit_at arr' j = (if j < i then bit_at arr j else j < i + w \<and> bit (gray x) (i + w - 1 - j)))"
  unfolding pack_def gray_def [symmetric]
  using gray_ok [OF assms(1)] assms(2,3) by (intro pack_slices_bits) (simp_all add: field_ok_def)

lemma unpack_bits:
  assumes "field_ok x w" "i + w \<le> 8 * length arr" "\<forall>j. i \<le> j \<and> j < i + w \<longrightarrow> bit_at arr j = bit (gray x) (i + w - 1 - j)"
  shows "unpack arr i w = Some (x, i + w)"
proof -
  obtain r where r: "unpack_slices arr i 0 w = Some (r, i + w)" "\<And>k. bit r k = (k < w \<and> bit_at arr (i + w - 1 - k))"
    using unpack_slices_bits [of w i arr 0] assms(1,2) by (auto simp: field_ok_def)
  have "bit r k = bit (gray x) k" for k
  proof (cases "k < w")
    case True
    then have "i + w - 1 - (i + w - 1 - k) = k" by linarith
    then show ?thesis using r(2) [of k] assms(3) True by auto
  next
    case False
    then show ?thesis using r(2) [of k] gray_ok [OF assms(1)] by (simp add: field_ok_def)
  qed
  then have "r = gray x" by (intro bit_word_eqI) simp
  moreover have "gray_to_binary (gray x) = x" using assms(1) gray_inverse [of x] by (auto simp: gray_def field_ok_def)
  ultimately show ?thesis using r(1) by (simp add: unpack_def)
qed

text \<open>Fields one after the other.\<close>

fun pack_all :: "octets \<Rightarrow> nat \<Rightarrow> (u32 \<times> nat) list \<Rightarrow> (octets \<times> nat) option" where
  "pack_all bits i [] = Some (bits, i)"
| "pack_all bits i ((x, w) # fs) = Option.bind (pack bits i x w) (\<lambda>(bits, i). pack_all bits i fs)"

fun unpack_all :: "octets \<Rightarrow> nat \<Rightarrow> nat list \<Rightarrow> (u32 list \<times> nat) option" where
  "unpack_all bits i [] = Some ([], i)"
| "unpack_all bits i (w # ws) =
     Option.bind (unpack bits i w) (\<lambda>(x, i). map_option (\<lambda>(xs, i). (x # xs, i)) (unpack_all bits i ws))"

lemma pack_all_unpack_all:
  assumes "\<forall>(x, w) \<in> set fs. field_ok x w" "i + sum_list (map snd fs) \<le> 8 * length arr" "\<forall>j. i \<le> j \<and> j < 8 * length arr \<longrightarrow> \<not> bit_at arr j"
  shows "\<exists>arr'. pack_all arr i fs = Some (arr', i + sum_list (map snd fs)) \<and> length arr' = length arr \<and>
    (\<forall>j < i. j < 8 * length arr \<longrightarrow> bit_at arr' j = bit_at arr j) \<and>
    unpack_all arr' i (map snd fs) = Some (map fst fs, i + sum_list (map snd fs))"
  using assms
proof (induction fs arbitrary: arr i)
  case (Cons f fs)
  obtain x w where f: "f = (x, w)" by (cases f)
  have ok: "field_ok x w" "i + w \<le> 8 * length arr" using Cons.prems(1,2) f by auto
  obtain arr1 where 1: "pack arr i x w = Some (arr1, i + w)" "length arr1 = length arr"
      "\<And>j. j < 8 * length arr \<Longrightarrow> bit_at arr1 j = (if j < i then bit_at arr j else j < i + w \<and> bit (gray x) (i + w - 1 - j))"
    using pack_bits [OF ok Cons.prems(3)] by blast
  obtain arr' where 2: "pack_all arr1 (i + w) fs = Some (arr', i + w + sum_list (map snd fs))" "length arr' = length arr1"
      "\<And>j. j < i + w \<Longrightarrow> j < 8 * length arr1 \<Longrightarrow> bit_at arr' j = bit_at arr1 j"
      "unpack_all arr' (i + w) (map snd fs) = Some (map fst fs, i + w + sum_list (map snd fs))"
    using Cons.IH [of "i + w" arr1] Cons.prems(1,2) f 1 by auto
  have "unpack arr' i w = Some (x, i + w)" using ok 1 2 by (intro unpack_bits) auto
  then show ?case using f 1 2 ok by (simp add: add.assoc)
qed simp

lemma pack_all_append: "pack_all bits i (fs @ gs) = Option.bind (pack_all bits i fs) (\<lambda>(bits, i). pack_all bits i gs)"
  by (induction fs arbitrary: bits i) (auto split: Option.bind_split)

lemma unpack_all_append:
  "unpack_all bits i (ws @ vs) =
     Option.bind (unpack_all bits i ws) (\<lambda>(xs, i). map_option (\<lambda>(ys, i). (xs @ ys, i)) (unpack_all bits i vs))"
  by (induction ws arbitrary: i) (auto simp: option.map_comp comp_def case_prod_unfold option.map_id option.map_ident split: Option.bind_split)

lemma lsps_all:
  "length is = length xs \<Longrightarrow> pack_lsps bits i (zip is xs) = pack_all bits i (zip xs (map lsp_bits is))"
  "unpack_lsps bits i is = unpack_all bits i (map lsp_bits is)"
proof -
  show "length is = length xs \<Longrightarrow> pack_lsps bits i (zip is xs) = pack_all bits i (zip xs (map lsp_bits is))"
    by (induction "is" xs arbitrary: bits i rule: list_induct2) (auto split: Option.bind_split)
  show "unpack_lsps bits i is = unpack_all bits i (map lsp_bits is)"
    by (induction "is" arbitrary: i) (auto split: Option.bind_split)
qed

subsection \<open>Properties\<close>

text \<open>The indices fit the widths of their fields.\<close>

definition codes_ok :: "codes \<Rightarrow> bool" where
  "codes_ok c \<longleftrightarrow> unat (Wo_index c) < 2 ^ WO_BITS \<and> length (lsp_indexes c) = LPC_ORD \<and>
     (\<forall>i < LPC_ORD. unat (lsp_indexes c ! i) < 2 ^ lsp_bits i) \<and> unat (energy_index c) < 2 ^ E_BITS \<and>
     unat (voiced1 c) < 2 \<and> unat (voiced2 c) < 2"

lemma field_okI:
  assumes "0 < w" "w \<le> 16" "unat x < 2 ^ w"
  shows "field_ok x w"
proof -
  have "\<not> bit x k" if "w \<le> k" for k
  proof -
    have "unat x < 2 ^ k" using assms(3) that by (meson less_le_trans one_le_numeral power_increasing)
    then have "\<not> bit (unat x) k" by (simp add: bit_iff_odd)
    then show ?thesis by (auto simp: bit_simps dest: bit_imp_le_length)
  qed
  then show ?thesis using assms by (simp add: field_ok_def)
qed

definition frame_fields :: "codes \<Rightarrow> (u32 \<times> nat) list" where
  "frame_fields c = (Wo_index c, WO_BITS) # zip (lsp_indexes c) (map lsp_bits [0..<LPC_ORD]) @
     [(energy_index c, E_BITS), (voiced1 c, 1), (voiced2 c, 1)]"

lemma all_less_10: "(\<forall>i < 10. P i) \<longleftrightarrow> P 0 \<and> P 1 \<and> P 2 \<and> P 3 \<and> P 4 \<and> P 5 \<and> P 6 \<and> P 7 \<and> P 8 \<and> P (9 :: nat)"
proof -
  have "i < 10 \<longleftrightarrow> i = 0 \<or> i = 1 \<or> i = 2 \<or> i = 3 \<or> i = 4 \<or> i = 5 \<or> i = 6 \<or> i = 7 \<or> i = 8 \<or> i = 9" for i :: nat by presburger
  then show ?thesis by metis
qed

lemma frame_widths:
  assumes "codes_ok c"
  shows "\<forall>(x, w) \<in> set (frame_fields c). field_ok x w"
    "map snd (frame_fields c) = WO_BITS # map lsp_bits [0..<LPC_ORD] @ [E_BITS, 1, 1]"
    "map fst (frame_fields c) = Wo_index c # lsp_indexes c @ [energy_index c, voiced1 c, voiced2 c]"
    "sum_list (map snd (frame_fields c)) = CODEC2_BITS_PER_FRAME"
proof -
  have "\<forall>i < 10. 0 < lsp_bits i \<and> lsp_bits i \<le> 16" unfolding all_less_10 by (simp add: lsp_bits_def)
  then have w: "0 < lsp_bits i \<and> lsp_bits i \<le> 16" if "i < 10" for i using that by blast
  show "\<forall>(x, w) \<in> set (frame_fields c). field_ok x w"
    using assms w by (auto simp: frame_fields_def codes_ok_def set_zip intro!: field_okI)
  show s: "map snd (frame_fields c) = WO_BITS # map lsp_bits [0..<LPC_ORD] @ [E_BITS, 1, 1]"
    using assms by (simp add: frame_fields_def codes_ok_def)
  show "map fst (frame_fields c) = Wo_index c # lsp_indexes c @ [energy_index c, voiced1 c, voiced2 c]"
    using assms by (simp add: frame_fields_def codes_ok_def)
  show "sum_list (map snd (frame_fields c)) = CODEC2_BITS_PER_FRAME"
    unfolding s by (simp add: upt_rec lsp_bits_def)
qed

text \<open>
  A frame is read back as it was written: for all indices that fit their fields the encoder fills the seven octets,
  whatever they held, and the decoder reads the same indices.
\<close>

lemma frame_roundtrip:
  assumes "codes_ok c" and "length bits = 7"
  shows "\<exists>frame. encode_frame c bits = Some frame \<and> length frame = 7 \<and> decode_frame frame = Some c"
proof -
  note w = frame_widths [OF assms(1)]
  have z: "\<not> bit_at (replicate 7 0) j" if "j < 56" for j using that by (simp add: bit_at_def)
  obtain frame where f: "pack_all (replicate 7 0) 0 (frame_fields c) = Some (frame, 50)" "length frame = 7"
      "unpack_all frame 0 (map snd (frame_fields c)) = Some (map fst (frame_fields c), 50)"
    using pack_all_unpack_all [OF w(1), of 0 "replicate 7 0"] w(4) z by auto
  have l: "length (lsp_indexes c) = 10" using assms(1) by (simp add: codes_ok_def)
  have "encode_frame c bits = Some frame"
    using f(1) assms(2) l
    by (auto simp: encode_frame_def Let_def frame_fields_def pack_all_append lsps_all Option.bind_eq_Some_conv)
  moreover have "decode_frame frame = Some c"
    using f(3) l unfolding w(2,3)
    by (auto simp: decode_frame_def unpack_all_append lsps_all Option.bind_eq_Some_conv)
  ultimately show ?thesis using f(2) by blast
qed

end
