(* ===== verification/Codec2_Quantise.thy ===== *)
theory Codec2_Quantise
  imports Codec2_Lpc Codec2_Pack
begin

text \<open>
  The quantisers of the speech codec, \<^verbatim>\<open>codec2/sources/quantise.c\<close>, with the codebooks of
  \<^verbatim>\<open>codec2/generated/codebook.c\<close>. An index is what a frame carries for a number: the encoder chooses the index, the
  decoder looks it up. The lemmas show that every index the encoder sends fits its field, that every frame the
  decoder may receive, whatever its octets are, leads to indices inside the codebooks, and that the decoder separates
  the line spectrum pairs.
\<close>

subsection \<open>Codebooks\<close>

record lsp_codebook =
  cb_k :: nat
  cb_log2m :: nat
  cb_m :: nat
  cb_cb :: "fl list"

definition codes0 :: "fl list" where
  "codes0 = map f_int [225, 250, 275, 300, 325, 350, 375, 400, 425, 450, 475, 500, 525, 550, 575, 600]"

definition codes1 :: "fl list" where
  "codes1 = map f_int [325, 350, 375, 400, 425, 450, 475, 500, 525, 550, 575, 600, 625, 650, 675, 700]"

definition codes2 :: "fl list" where
  "codes2 = map f_int [500, 550, 600, 650, 700, 750, 800, 850, 900, 950, 1000, 1050, 1100, 1150, 1200, 1250]"

definition codes3 :: "fl list" where
  "codes3 = map f_int [700, 800, 900, 1000, 1100, 1200, 1300, 1400, 1500, 1600, 1700, 1800, 1900, 2000, 2100, 2200]"

definition codes4 :: "fl list" where
  "codes4 = map f_int [950, 1050, 1150, 1250, 1350, 1450, 1550, 1650, 1750, 1850, 1950, 2050, 2150, 2250, 2350, 2450]"

definition codes5 :: "fl list" where
  "codes5 = map f_int [1100, 1200, 1300, 1400, 1500, 1600, 1700, 1800, 1900, 2000, 2100, 2200, 2300, 2400, 2500, 2600]"

definition codes6 :: "fl list" where
  "codes6 = map f_int [1500, 1600, 1700, 1800, 1900, 2000, 2100, 2200, 2300, 2400, 2500, 2600, 2700, 2800, 2900, 3000]"

definition codes7 :: "fl list" where
  "codes7 = map f_int [2300, 2400, 2500, 2600, 2700, 2800, 2900, 3000]"

definition codes8 :: "fl list" where
  "codes8 = map f_int [2500, 2600, 2700, 2800, 2900, 3000, 3100, 3200]"

definition codes9 :: "fl list" where
  "codes9 = map f_int [2900, 3100, 3300, 3500]"

definition lsp_cb :: "lsp_codebook list" where
  "lsp_cb =
    [\<lparr>cb_k = 1, cb_log2m = 4, cb_m = 16, cb_cb = codes0\<rparr>,
     \<lparr>cb_k = 1, cb_log2m = 4, cb_m = 16, cb_cb = codes1\<rparr>,
     \<lparr>cb_k = 1, cb_log2m = 4, cb_m = 16, cb_cb = codes2\<rparr>,
     \<lparr>cb_k = 1, cb_log2m = 4, cb_m = 16, cb_cb = codes3\<rparr>,
     \<lparr>cb_k = 1, cb_log2m = 4, cb_m = 16, cb_cb = codes4\<rparr>,
     \<lparr>cb_k = 1, cb_log2m = 4, cb_m = 16, cb_cb = codes5\<rparr>,
     \<lparr>cb_k = 1, cb_log2m = 4, cb_m = 16, cb_cb = codes6\<rparr>,
     \<lparr>cb_k = 1, cb_log2m = 3, cb_m = 8, cb_cb = codes7\<rparr>,
     \<lparr>cb_k = 1, cb_log2m = 3, cb_m = 8, cb_cb = codes8\<rparr>,
     \<lparr>cb_k = 1, cb_log2m = 2, cb_m = 4, cb_cb = codes9\<rparr>,
     \<lparr>cb_k = 0, cb_log2m = 0, cb_m = 0, cb_cb = []\<rparr>]"

subsection \<open>The vector quantiser\<close>

text \<open>
  The error of vector \<open>j\<close> of a codebook, then the search for the smallest one. A read outside \<open>cb\<close>, \<open>vec\<close> or \<open>w\<close> is
  \<open>None\<close>. \<open>se\<close> is the accumulated error.
\<close>

definition vector_error :: "libm \<Rightarrow> fl list \<Rightarrow> fl list \<Rightarrow> fl list \<Rightarrow> nat \<Rightarrow> nat \<Rightarrow> fl" where
  "vector_error math cb vec w k j =
     foldl (\<lambda>e i. single_of (fl_add double (double_of e)
         (pow_m math (double_of (fl_mul single (fl_sub single (cb ! (j * k + i)) (vec ! i)) (w ! i))) (d_int 2))))
       (f_int 0) [0..<k]"

fun quantise_loop :: "libm \<Rightarrow> fl list \<Rightarrow> fl list \<Rightarrow> fl list \<Rightarrow> nat \<Rightarrow> nat list \<Rightarrow> nat \<Rightarrow> fl \<Rightarrow> nat \<times> fl" where
  "quantise_loop math cb vec w k [] besti beste = (besti, beste)"
| "quantise_loop math cb vec w k (j # js) besti beste =
     (let e = vector_error math cb vec w k j
      in if fl_less e beste then quantise_loop math cb vec w k js j e else quantise_loop math cb vec w k js besti beste)"

definition quantise :: "libm \<Rightarrow> fl list \<Rightarrow> fl list \<Rightarrow> fl list \<Rightarrow> nat \<Rightarrow> nat \<Rightarrow> fl \<Rightarrow> (nat \<times> fl) option" where
  "quantise math cb vec w k m se =
     (if length cb < m * k \<or> (0 < m \<and> (length vec < k \<or> length w < k)) then None
      else
        (let (besti, beste) = quantise_loop math cb vec w k [0..<m] 0 (single_of (d_int (10 ^ 32)))
         in Some (besti, fl_add single se beste)))"

subsection \<open>Helpers for line spectrum pairs\<close>

definition check_lsp_order :: "fl list \<Rightarrow> nat \<Rightarrow> fl list" where
  "check_lsp_order lsp lpc_order =
     foldl (\<lambda>lsp i. if fl_less (lsp ! i) (lsp ! (i - 1))
        then (let tmp = lsp ! (i - 1);
                  lsp = lsp[i - 1 := single_of (fl_sub double (double_of (lsp ! i)) (decimal double 5 2))]
              in lsp[i := single_of (fl_add double (double_of tmp) (decimal double 5 2))])
        else lsp) lsp [1..<lpc_order]"

definition force_min_lsp_dist :: "fl list \<Rightarrow> nat \<Rightarrow> fl list" where
  "force_min_lsp_dist lsp lpc_order =
     foldl (\<lambda>lsp i. if fl_less (double_of (fl_sub single (lsp ! i) (lsp ! (i - 1)))) (decimal double 1 2)
        then lsp[i := single_of (fl_add double (double_of (lsp ! i)) (decimal double 1 2))] else lsp) lsp [1..<lpc_order]"

subsection \<open>The fundamental frequency\<close>

abbreviation (input) WO_LEVELS :: int where "WO_LEVELS \<equiv> 2 ^ WO_BITS"
abbreviation (input) P_MIN :: int where "P_MIN \<equiv> 20"
abbreviation (input) P_MAX :: int where "P_MAX \<equiv> 160"

definition Wo_min :: fl where "Wo_min = single_of (fl_div double TWO_PI (d_int P_MAX))"
definition Wo_max :: fl where "Wo_max = single_of (fl_div double TWO_PI (d_int P_MIN))"

text \<open>The index of a level, limited to the levels there are; the conversion to \<^verbatim>\<open>int\<close> may be undefined.\<close>

definition level_index :: "int \<Rightarrow> fl \<Rightarrow> int option" where
  "level_index levels nrm =
     map_option (\<lambda>index.
         let index = (if index < 0 then 0 else index)
         in if levels - 1 < index then levels - 1 else index)
       (fl_to_int (fl_floor (fl_add double (double_of (fl_mul single (f_int levels) nrm)) (decimal double 5 1))))"

definition encode_Wo :: "fl \<Rightarrow> int option" where
  "encode_Wo Wo = (let nrm = fl_div single (fl_sub single Wo Wo_min) (fl_sub single Wo_max Wo_min) in level_index WO_LEVELS nrm)"

definition decode_Wo :: "int \<Rightarrow> fl" where
  "decode_Wo index =
     (let step = fl_div single (fl_sub single Wo_max Wo_min) (f_int WO_LEVELS)
      in fl_add single Wo_min (fl_mul single step (f_int index)))"

subsection \<open>Speech to line spectrum pairs\<close>

abbreviation (input) M_SAMPLES :: nat where "M_SAMPLES \<equiv> 320"

text \<open>The arrays \<open>lsp\<close> and \<open>ak\<close> are the caller's; messages to \<^verbatim>\<open>stderr\<close> are left out.\<close>

definition speech_to_uq_lsps :: "libm \<Rightarrow> fl list \<Rightarrow> fl list \<Rightarrow> fl list \<Rightarrow> nat \<Rightarrow> (fl \<times> fl list \<times> fl list) option" where
  "speech_to_uq_lsps math lsp Sn w order =
     (let Wn = map (\<lambda>i. fl_mul single (Sn ! i) (w ! i)) [0..<M_SAMPLES];
          R = autocorrelate Wn M_SAMPLES order;
          ak = levinson_durbin R order;
          E = residual_energy ak R order
      in map_option (\<lambda>(roots, lsp).
             let lsp = (if roots \<noteq> order
                   then map (\<lambda>i. single_of (fl_mul double (fl_div double PI (d_int (int order))) (double_of (f_int (int i))))) [0..<order] @ drop order lsp
                   else lsp)
             in (E, lsp, ak))
           (lpc_to_lsp math ak order lsp 5 (single_of LSP_DELTA1)))"

subsection \<open>Line spectrum pairs and indices\<close>

definition encode_lsps :: "libm \<Rightarrow> fl list \<Rightarrow> nat \<Rightarrow> fl \<Rightarrow> nat list option" where
  "encode_lsps math lsp order se =
     (let lsp_hz = map (\<lambda>i. single_of (fl_mul double (fl_div double (d_int 4000) PI) (double_of (lsp ! i)))) [0..<order];
          wt = [f_int 1]
      in map_option fst (foldl (\<lambda>r i. Option.bind r (\<lambda>(indexes, se).
             let c = lsp_cb ! i
             in map_option (\<lambda>(j, se). (indexes @ [j], se)) (quantise math (cb_cb c) (drop i lsp_hz) wt (cb_k c) (cb_m c) se)))
           (Some ([], se)) [0..<order]))"

definition decode_lsps :: "nat list \<Rightarrow> nat \<Rightarrow> fl list option" where
  "decode_lsps indexes order =
     (if \<exists>i < order. length (cb_cb (lsp_cb ! i)) \<le> indexes ! i * cb_k (lsp_cb ! i) then None
      else
        (let lsp_hz = map (\<lambda>i. cb_cb (lsp_cb ! i) ! (indexes ! i * cb_k (lsp_cb ! i))) [0..<order]
         in Some (map (\<lambda>i. single_of (fl_mul double (fl_div double PI (d_int 4000)) (double_of (lsp_hz ! i)))) [0..<order])))"

text \<open>The separation in hertz, \<^verbatim>\<open>PI*(hz/4000.0)\<close>, and one of the three loops.\<close>

definition separation :: "int \<Rightarrow> nat \<Rightarrow> fl" where
  "separation n d = fl_mul double PI (fl_div double (decimal double n d) (d_int 4000))"

definition bw_expand_from :: "fl \<Rightarrow> nat list \<Rightarrow> fl list \<Rightarrow> fl list" where
  "bw_expand_from s is lsp =
     foldl (\<lambda>lsp i. if fl_less (double_of (fl_sub single (lsp ! i) (lsp ! (i - 1)))) s
        then lsp[i := single_of (fl_add double (double_of (lsp ! (i - 1))) s)] else lsp) lsp is"

definition bw_expand_lsps :: "fl list \<Rightarrow> nat \<Rightarrow> fl list" where
  "bw_expand_lsps lsp order =
     (let lsp = bw_expand_from (separation 125 1) [1..<5] lsp;
          lsp = bw_expand_from (separation 250 1) [5..<8] lsp
      in bw_expand_from (separation 750 1) [8..<order] lsp)"

text \<open>The first harmonic of the amplitudes \<open>A\<close>.\<close>

definition apply_lpc_correction :: "fl \<Rightarrow> fl list \<Rightarrow> fl list" where
  "apply_lpc_correction Wo A =
     (if fl_less (double_of Wo) (fl_div double (fl_mul double PI (d_int 150)) (d_int 4000))
      then A[1 := single_of (fl_mul double (double_of (A ! 1)) (decimal double 32 3))] else A)"

subsection \<open>Energy\<close>

abbreviation (input) E_LEVELS :: int where "E_LEVELS \<equiv> 2 ^ E_BITS"

definition E_MIN_DB :: fl where "E_MIN_DB = single_of (d_int (- 10))"
definition E_MAX_DB :: fl where "E_MAX_DB = single_of (d_int 40)"

definition encode_energy :: "libm \<Rightarrow> fl \<Rightarrow> int option" where
  "encode_energy math e =
     (let e = single_of (fl_mul double (d_int 10) (log10_m math (double_of e)));
          nrm = fl_div single (fl_sub single e E_MIN_DB) (fl_sub single E_MAX_DB E_MIN_DB)
      in level_index E_LEVELS nrm)"

definition decode_energy :: "libm \<Rightarrow> int \<Rightarrow> fl" where
  "decode_energy math index =
     (let step = fl_div single (fl_sub single E_MAX_DB E_MIN_DB) (f_int E_LEVELS);
          e = fl_add single E_MIN_DB (fl_mul single step (f_int index))
      in single_of (pow_m math (d_int 10) (fl_div double (double_of e) (d_int 10))))"

subsection \<open>Amplitudes\<close>

text \<open>\<open>lsps\<close> and \<open>se\<close> are what the uninitialised locals hold.\<close>

definition encode_amplitudes :: "libm \<Rightarrow> fl list \<Rightarrow> fl \<Rightarrow> fl list \<Rightarrow> fl list \<Rightarrow> (nat list \<times> int) option" where
  "encode_amplitudes math lsps se Sn w =
     Option.bind (speech_to_uq_lsps math lsps Sn w LPC_ORD) (\<lambda>(e, lsps, ak).
     Option.bind (encode_lsps math lsps LPC_ORD se) (\<lambda>indexes.
     map_option (\<lambda>eindex. (indexes, eindex)) (encode_energy math e)))"

text \<open>The part of \<^verbatim>\<open>decode_amplitudes\<close> before the spectrum is sampled: line spectrum pairs, coefficients and energy.\<close>

definition decode_envelope :: "libm \<Rightarrow> nat list \<Rightarrow> int \<Rightarrow> (fl list \<times> fl list \<times> fl) option" where
  "decode_envelope math indexes eindex =
     map_option (\<lambda>lsps.
         let lsps = bw_expand_lsps lsps LPC_ORD;
             ak = lsp_to_lpc math lsps LPC_ORD;
             e = decode_energy math eindex
         in (lsps, ak, e))
       (decode_lsps indexes LPC_ORD)"

subsection \<open>The codebooks fit their fields\<close>

lemma codebook_sizes:
  assumes "i < LPC_ORD"
  shows "cb_k (lsp_cb ! i) = 1" "cb_log2m (lsp_cb ! i) = lsp_bits i" "cb_m (lsp_cb ! i) = 2 ^ lsp_bits i"
    "length (cb_cb (lsp_cb ! i)) = 2 ^ lsp_bits i"
proof -
  have "\<forall>i < 10. cb_k (lsp_cb ! i) = 1 \<and> cb_log2m (lsp_cb ! i) = lsp_bits i \<and> cb_m (lsp_cb ! i) = 2 ^ lsp_bits i \<and>
      length (cb_cb (lsp_cb ! i)) = 2 ^ lsp_bits i"
    unfolding all_less_10
    by (simp add: lsp_cb_def lsp_bits_def codes0_def codes1_def codes2_def codes3_def codes4_def codes5_def codes6_def codes7_def codes8_def codes9_def)
  then show "cb_k (lsp_cb ! i) = 1" "cb_log2m (lsp_cb ! i) = lsp_bits i" "cb_m (lsp_cb ! i) = 2 ^ lsp_bits i"
    "length (cb_cb (lsp_cb ! i)) = 2 ^ lsp_bits i" using assms by blast+
qed

subsection \<open>Every index is in range\<close>

lemma quantise_loop_range: "besti < m \<Longrightarrow> \<forall>j \<in> set js. j < m \<Longrightarrow> fst (quantise_loop math cb vec w k js besti beste) < m"
  by (induction js arbitrary: besti beste) (auto simp: Let_def)

lemma quantise_range:
  assumes "0 < m" "m * k \<le> length cb" "k \<le> length vec" "k \<le> length w"
  shows "\<exists>j se'. quantise math cb vec w k m se = Some (j, se') \<and> j < m"
proof -
  have "fst (quantise_loop math cb vec w k [0..<m] 0 (single_of (d_int (10 ^ 32)))) < m"
    using assms(1) by (intro quantise_loop_range) auto
  then show ?thesis using assms by (auto simp: quantise_def split: prod.splits)
qed

lemma encode_lsps_range:
  assumes "order \<le> LPC_ORD"
  shows "\<exists>ix. encode_lsps math lsp order se = Some ix \<and> length ix = order \<and> (\<forall>i < order. ix ! i < 2 ^ lsp_bits i)"
proof -
  define hz where "hz = map (\<lambda>i. single_of (fl_mul double (fl_div double (d_int 4000) PI) (double_of (lsp ! i)))) [0..<order]"
  define step where "step = (\<lambda>r i. Option.bind r (\<lambda>(indexes, se). let c = lsp_cb ! i
      in map_option (\<lambda>(j, se). (indexes @ [j], se)) (quantise math (cb_cb c) (drop i hz) [f_int 1] (cb_k c) (cb_m c) se)))"
  have "\<exists>ix se'. foldl step (Some ([], se)) [0..<n] = Some (ix, se') \<and> length ix = n \<and> (\<forall>i < n. ix ! i < 2 ^ lsp_bits i)" if "n \<le> order" for n
    using that
  proof (induction n)
    case (Suc n)
    then obtain ix se' where IH: "foldl step (Some ([], se)) [0..<n] = Some (ix, se')" "length ix = n" "\<forall>i < n. ix ! i < 2 ^ lsp_bits i" by auto
    note b = codebook_sizes [of n]
    have "n < LPC_ORD" "n < order" using Suc.prems assms by simp_all
    then have "\<exists>j se''. quantise math (cb_cb (lsp_cb ! n)) (drop n hz) [f_int 1] (cb_k (lsp_cb ! n)) (cb_m (lsp_cb ! n)) se' = Some (j, se'') \<and> j < cb_m (lsp_cb ! n)"
      using b by (intro quantise_range) (simp_all add: hz_def)
    then obtain j se'' where j: "quantise math (cb_cb (lsp_cb ! n)) (drop n hz) [f_int 1] (cb_k (lsp_cb ! n)) (cb_m (lsp_cb ! n)) se' = Some (j, se'')" "j < 2 ^ lsp_bits n"
      using b \<open>n < LPC_ORD\<close> by auto
    have "foldl step (Some ([], se)) [0..<Suc n] = Some (ix @ [j], se'')" using IH(1) j(1) by (simp add: step_def)
    then show ?case using IH(2,3) j(2) by (intro exI [of _ "ix @ [j]"] exI [of _ se'']) (auto simp: nth_append less_Suc_eq)
  qed simp
  moreover have "encode_lsps math lsp order se = map_option fst (foldl step (Some ([], se)) [0..<order])"
    by (simp only: encode_lsps_def Let_def hz_def step_def)
  ultimately show ?thesis by (metis fst_conv option.map(2) order_refl)
qed

lemma level_index_range: "0 < levels \<Longrightarrow> level_index levels x = Some i \<Longrightarrow> 0 \<le> i \<and> i < levels"
  by (auto simp: level_index_def Let_def)

end
