(* ===== verification/Codec2_Codec.thy ===== *)
theory Codec2_Codec
  imports Codec2_Quantise
begin

text \<open>
  The two directions of the speech codec, \<^verbatim>\<open>codec2/sources/codec2.c\<close>, between the signal processing and the frames.
  The analysis of speech into a fundamental frequency and voicing decisions, and the synthesis of speech from a
  spectrum, are not part of the model. The lemmas bound every rounding between a frame and its parameters.
\<close>

subsection \<open>Operations\<close>

abbreviation (input) N_SAMPLES :: nat where "N_SAMPLES \<equiv> 80"
abbreviation (input) MAX_AMP :: int where "MAX_AMP \<equiv> 80"

text \<open>\<^verbatim>\<open>model.L = PI/model.Wo\<close>, the number of harmonics; the decoder then writes \<open>A[0]\<close> to \<open>A[L]\<close>.\<close>

definition harmonics :: "fl \<Rightarrow> int option" where
  "harmonics Wo = fl_to_int (fl_div double PI (double_of Wo))"

text \<open>
  \<^verbatim>\<open>analyse_one_frame\<close> first moves eighty new samples into the window \<open>Sn\<close>.
\<close>

definition read_speech :: "fl list \<Rightarrow> 16 word list \<Rightarrow> fl list" where
  "read_speech Sn speech = map (\<lambda>i. Sn ! (i + N_SAMPLES)) [0..<M_SAMPLES - N_SAMPLES] @ map (\<lambda>i. f_int (sint (speech ! i))) [0..<N_SAMPLES]"

text \<open>
  \<^verbatim>\<open>codec2_encode\<close> after the analysis of the two halves of a frame has found the fundamental frequency and the
  voicing; \<open>lsps\<close> and \<open>se\<close> are what the uninitialised locals of its callees hold.
\<close>

definition encode_model :: "libm \<Rightarrow> fl list \<Rightarrow> fl \<Rightarrow> fl \<Rightarrow> u32 \<Rightarrow> u32 \<Rightarrow> fl list \<Rightarrow> fl list \<Rightarrow> octets \<Rightarrow> octets option" where
  "encode_model math lsps se Wo v1 v2 Sn w bits =
     Option.bind (encode_Wo Wo) (\<lambda>wo.
     Option.bind (encode_amplitudes math lsps se Sn w) (\<lambda>(indexes, e).
     encode_frame \<lparr>Wo_index = word_of_int wo, lsp_indexes = map word_of_nat indexes, energy_index = word_of_int e, voiced1 = v1, voiced2 = v2\<rparr> bits))"

text \<open>
  \<^verbatim>\<open>codec2_decode\<close> up to the envelope of the spectrum: the fundamental frequency, the number of harmonics, the
  line spectrum pairs, the prediction coefficients and the energy. A read outside a codebook and an undefined
  conversion are \<open>None\<close>, and so is a number of harmonics for which \<open>A[L]\<close> would be outside the array.
\<close>

definition decode_model :: "libm \<Rightarrow> octets \<Rightarrow> (fl \<times> int \<times> fl list \<times> fl list \<times> fl) option" where
  "decode_model math bits =
     Option.bind (decode_frame bits) (\<lambda>c.
       let Wo = decode_Wo (uint (Wo_index c)) in
       Option.bind (harmonics Wo) (\<lambda>L.
       if MAX_AMP \<le> L then None
       else map_option (\<lambda>(lsps, ak, e). (Wo, L, lsps, ak, e))
         (decode_envelope math (map unat (lsp_indexes c)) (uint (energy_index c)))))"

text \<open>The sample that \<^verbatim>\<open>synthesise_one_frame\<close> writes for a number of the synthesised signal.\<close>

definition output_sample :: "fl \<Rightarrow> int option" where
  "output_sample x =
     (if fl_less (d_int 32767) (double_of x) then Some 32767
      else if fl_less (double_of x) (d_int (- 32767)) then Some (- 32767)
      else fl_to_int x)"

subsection \<open>Constants of the source\<close>

lemma Wo_consts:
  "Wo_min = Fin 10541436 (- 28)" "fl_sub single Wo_max Wo_min = Fin 9223756 (- 25)"
  "fl_div single (fl_sub single Wo_max Wo_min) (f_int 128) = Fin 9223756 (- 32)"
  by code_simp+

lemma PI_const: "PI = Fin 7074237752952144 (- 51)"
  by code_simp

lemma separations:
  "separation 125 1 = Fin 5659390202361716 (- 59)" "separation 250 1 = Fin 5659390202361716 (- 58)"
  "separation 750 1 = Fin 8489085303542572 (- 57)"
  by code_simp+

text \<open>A \<^verbatim>\<open>float\<close> used as a \<^verbatim>\<open>double\<close> keeps its value.\<close>

lemma double_of_exact:
  assumes "number single x" "\<bar>val x\<bar> \<le> 2 powi j" "j \<le> 1000"
  shows "number double (double_of x) \<and> val (double_of x) = val x"
proof -
  have "rounds double (val x) (double_of x)"
    using assms by (intro to_fmt_rounds powi_2_big [of _ j]) (simp_all add: number_def)
  then show ?thesis using assms(1) rounds_exact grid_single_double rounds_number by (metis number_def)
qed

lemma half_val: "number double (decimal double 5 1)" "val (decimal double 5 1) = 1 / 2"
proof -
  have "decimal double 5 1 = Fin 4503599627370496 (- 53)" by code_simp
  then show "number double (decimal double 5 1)" "val (decimal double 5 1) = 1 / 2"
    by (simp_all add: numberI power_int_def power_one_over)
qed

subsection \<open>The index of a level\<close>

lemma level_index_val:
  assumes x: "number single x" and l: "0 < l" "l \<le> 2 ^ 10" and j: "\<bar>of_int l * val x\<bar> \<le> 2 powi j" "0 \<le> j" "j \<le> 20"
  shows "\<exists>y. \<bar>y - (of_int l * val x + 1 / 2)\<bar> \<le> 2 powi (j - 24) \<and> level_index l x = Some (min (max \<lfloor>y\<rfloor> 0) (l - 1))"
proof -
  have li: "number single (f_int l)" "val (f_int l) = of_int l" using l f_int_small [of l] by simp_all
  let ?p = "fl_mul single (f_int l) x"
  have p: "rounds single (of_int l * val x) ?p"
    using fl_mul_rounds [of single "f_int l" x] powi_2_big [OF j(1), of single] li x j(3) by (simp add: number_def)
  have e: "\<bar>val ?p - of_int l * val x\<bar> \<le> 2 powi (j - 25)" using rounds_error [OF p j(1)] j(2) by simp
  have "(2 powi (j - 25) :: real) \<le> 2 powi j" by (rule powi_2_mono) simp
  then have b: "\<bar>val ?p\<bar> \<le> 2 powi (j + 1)" using e j(1) by (simp add: power_int_add)
  then have d: "number double (double_of ?p)" "val (double_of ?p) = val ?p" using double_of_exact [OF rounds_number [OF p] b] j(3) by simp_all
  let ?q = "fl_add double (double_of ?p) (decimal double 5 1)"
  have "(1 :: real) \<le> 2 powi (j + 1)" using powi_2_mono [of 0 "j + 1"] j(2) by simp
  then have b2: "\<bar>val ?p + 1 / 2\<bar> \<le> 2 powi (j + 2)" using b by (simp add: power_int_add)
  then have "rounds double (val (double_of ?p) + val (decimal double 5 1)) ?q" unfolding d(2) half_val(2)
    using fl_add_rounds [of double "double_of ?p" "decimal double 5 1", unfolded d(2) half_val(2)] d(1) half_val(1) j(3)
      powi_2_big [of "val ?p + 1 / 2" "j + 2" double] by (simp only: number_def fmt_ok_formats fmt_fields)
  then have q: "rounds double (val ?p + 1 / 2) ?q" unfolding d(2) half_val(2) .
  have e2: "\<bar>val ?q - (val ?p + 1 / 2)\<bar> \<le> 2 powi (j - 52)" using rounds_error [OF q b2] j(2) by simp
  have "(2 powi (j - 52) :: real) \<le> 2 powi (j - 25)" "2 powi (j - 24) = 2 * (2 powi (j - 25) :: real)"
    by (auto intro: powi_2_mono simp: power_int_diff)
  then have close: "\<bar>val ?q - (of_int l * val x + 1 / 2)\<bar> \<le> 2 powi (j - 24)" using e e2 by linarith
  have "(2 powi (j - 52) :: real) \<le> 1" "(2 powi (j + 2) :: real) \<le> 2 powi 22" using powi_2_mono [of "j - 52" 0] powi_2_mono [of "j + 2" 22] j(3) by simp_all
  then have "\<bar>val ?q\<bar> \<le> 2 ^ 30" using e2 b2 by simp
  then have "fl_to_int (fl_floor ?q) = Some \<lfloor>val ?q\<rfloor>" by (rule fl_to_int_floor [OF rounds_finite [OF q]])
  moreover have "(let z = (if z < 0 then 0 else z) in if l - 1 < z then l - 1 else z) = min (max z 0) (l - 1)" for z
    by (simp add: Let_def min_def max_def)
  ultimately have "level_index l x = Some (min (max \<lfloor>val ?q\<rfloor> 0) (l - 1))" unfolding level_index_def by (simp only: option.map)
  then show ?thesis using close by blast
qed

subsection \<open>The fundamental frequency\<close>

lemma Wo_numbers:
  "number single Wo_min" "number single (fl_sub single Wo_max Wo_min)" "number single (fl_div single (fl_sub single Wo_max Wo_min) (f_int 128))"
  "val Wo_min = 10541436 / 2 ^ 28" "val (fl_sub single Wo_max Wo_min) = 9223756 / 2 ^ 25"
  "val (fl_div single (fl_sub single Wo_max Wo_min) (f_int 128)) = 9223756 / 2 ^ 32"
  unfolding Wo_consts(3) unfolding Wo_consts(2) unfolding Wo_consts(1) by (simp_all add: numberI power_int_def power_one_over)

lemma abs_diff_divide: "0 < c \<Longrightarrow> \<bar>a / c - b / c\<bar> = \<bar>a - b\<bar> / (c :: real)"
  by (simp add: abs_divide flip: diff_divide_distrib)

text \<open>The argument of the level: the distance to the least frequency over the range.\<close>

lemma encode_Wo_norm:
  assumes "number single Wo" "\<bar>val Wo - val Wo_min\<bar> \<le> 2 powi j" "- 20 \<le> j" "j \<le> 4"
  shows "\<exists>x. number single x \<and> encode_Wo Wo = level_index 128 x \<and>
    \<bar>val x - (val Wo - val Wo_min) / (9223756 / 2 ^ 25)\<bar> \<le> 2 powi (j - 20)"
proof -
  let ?d = "fl_sub single Wo Wo_min" and ?r = "fl_sub single Wo_max Wo_min"
  note W = Wo_numbers
  have d: "rounds single (val Wo - val Wo_min) ?d"
    using assms W(1) by (intro fl_sub_rounds powi_2_big [of _ j]) (simp_all add: number_def)
  have e: "\<bar>val ?d - (val Wo - val Wo_min)\<bar> \<le> 2 powi (j - 25)" using rounds_error [OF d assms(2)] assms(3) by simp
  have "(2 powi (j - 25) :: real) \<le> 2 powi j" by (rule powi_2_mono) simp
  then have b: "\<bar>val ?d\<bar> \<le> 2 powi (j + 1)" using e assms(2) by (simp add: power_int_add)
  then have b2: "\<bar>val ?d / val ?r\<bar> \<le> 2 powi (j + 3)" unfolding W(5) by (simp add: power_int_add abs_mult)
  let ?x = "fl_div single ?d ?r"
  have x: "rounds single (val ?d / val ?r) ?x"
    using assms(4) W(2,5) rounds_finite [OF d] by (intro fl_div_rounds powi_2_big [OF b2]) (auto simp: number_def)
  have e2: "\<bar>val ?x - val ?d / val ?r\<bar> \<le> 2 powi (j - 22)" using rounds_error [OF x b2] assms(3) by simp
  have "\<bar>val ?d / val ?r - (val Wo - val Wo_min) / val ?r\<bar> = \<bar>val ?d - (val Wo - val Wo_min)\<bar> / val ?r"
    by (rule abs_diff_divide) (simp add: W(5))
  also have "\<dots> \<le> 2 powi (j - 25) / val ?r" using e by (rule divide_right_mono) (simp add: W(5))
  also have "\<dots> \<le> 2 powi (j - 22)" unfolding W(5) by (simp add: power_int_diff)
  finally have "\<bar>val ?x - (val Wo - val Wo_min) / val ?r\<bar> \<le> 2 powi (j - 22) + 2 powi (j - 22)" using e2 by linarith
  moreover have "(2 powi (j - 22) + 2 powi (j - 22) :: real) \<le> 2 powi (j - 20)" by (simp add: power_int_diff)
  ultimately show ?thesis using rounds_number [OF x] unfolding W(5) by (intro exI [of _ ?x]) (simp add: encode_Wo_def)
qed

lemma encode_Wo_total:
  assumes "number single Wo" "0 \<le> val Wo" "val Wo \<le> 8"
  shows "\<exists>i. encode_Wo Wo = Some i \<and> 0 \<le> i \<and> i < WO_LEVELS"
proof -
  have "\<bar>val Wo - val Wo_min\<bar> \<le> 2 powi 4" using assms(2,3) by (simp add: Wo_numbers abs_le_iff)
  moreover define z where "z = (val Wo - val Wo_min) / (9223756 / 2 ^ 25)"
  ultimately obtain x where x: "number single x" "encode_Wo Wo = level_index 128 x" "\<bar>val x - z\<bar> \<le> 2 powi (4 - 20)"
    using encode_Wo_norm [OF assms(1), of 4] by auto
  have "\<bar>z\<bar> \<le> 50" using assms(2,3) by (simp add: z_def Wo_numbers abs_le_iff)
  moreover have "\<bar>val x - z\<bar> \<le> 1" using x(3) powi_tiny [of "- 20"] powi_2_mono [of "4 - 20" 0] by simp
  ultimately have "\<bar>val x\<bar> \<le> 100" by linarith
  then have "\<bar>of_int 128 * val x\<bar> \<le> 2 powi 20" by (simp add: abs_mult)
  then obtain i where "level_index 128 x = Some i" using level_index_val [OF x(1), of 128 20] by auto
  then show ?thesis using x(2) level_index_range [of 128 x i] by simp
qed

lemma decode_Wo_close:
  assumes "0 \<le> i" "i < 128"
  shows "number single (decode_Wo i)" "val Wo_min \<le> val (decode_Wo i)" "val (decode_Wo i) \<le> 1"
    "\<bar>val (decode_Wo i) - (val Wo_min + 9223756 / 2 ^ 32 * of_int i)\<bar> \<le> 2 powi (- 24)"
proof -
  let ?s = "fl_div single (fl_sub single Wo_max Wo_min) (f_int 128)"
  note W = Wo_numbers
  have i: "number single (f_int i)" "val (f_int i) = of_int i" using f_int_small [of i] assms by simp_all
  let ?m = "fl_mul single ?s (f_int i)" and ?r = "9223756 / 2 ^ 32 * of_int i :: real"
  have r: "0 \<le> ?r" "?r \<le> 2 powi (- 1)" using assms by (simp_all add: power_int_def)
  have "\<bar>val ?s * val (f_int i)\<bar> \<le> 2 powi (- 1)" unfolding W(6) i(2) using r by simp
  then have "rounds single (val ?s * val (f_int i)) ?m" using W(3) i(1)
    by (intro fl_mul_rounds powi_2_big [of _ "- 1"]) (simp_all add: number_def)
  then have m: "rounds single ?r ?m" unfolding W(6) i(2) .
  have e: "\<bar>val ?m - ?r\<bar> \<le> 2 powi (- 26)" using rounds_error [OF m, of "- 1"] r by simp
  have g: "0 \<in> grid single" "1 / 2 \<in> grid single" "1 \<in> grid single"
    by (rule gridI [of 0 _ 0], simp_all) (rule gridI [of 1 _ "- 1"], simp_all add: power_int_def, rule gridI [of 1 _ 0], simp_all)
  have mb: "0 \<le> val ?m" "val ?m \<le> 1 / 2" using rounds_ge [OF m g(1)] rounds_le [OF m g(2)] r by simp_all
  have b: "\<bar>val Wo_min + val ?m\<bar> \<le> 2 powi 0" using mb by (simp add: W(4))
  then have w: "rounds single (val Wo_min + val ?m) (decode_Wo i)" unfolding decode_Wo_def Let_def using W(1) rounds_finite [OF m]
    by (simp add: fl_add_rounds number_def powi_2_big)
  show "number single (decode_Wo i)" by (rule rounds_number [OF w])
  show "val Wo_min \<le> val (decode_Wo i)" using rounds_ge [OF w] W(1) mb by (simp add: number_def)
  show "val (decode_Wo i) \<le> 1" using rounds_le [OF w g(3)] mb by (simp add: W(4))
  have "\<bar>val (decode_Wo i) - (val Wo_min + val ?m)\<bar> \<le> 2 powi (- 25)" using rounds_error [OF w b] by simp
  moreover have "(2 powi (- 24) :: real) = 4 * 2 powi (- 26)" "(2 powi (- 25) :: real) = 2 * 2 powi (- 26)"
    by (simp_all add: power_int_def power_one_over)
  ultimately show "\<bar>val (decode_Wo i) - (val Wo_min + ?r)\<bar> \<le> 2 powi (- 24)" using e by linarith
qed

lemma decode_Wo_index:
  assumes "0 \<le> i" "i < 128"
  shows "encode_Wo (decode_Wo i) = Some i"
proof -
  note d = decode_Wo_close [OF assms] and W = Wo_numbers
  define r where "r = (9223756 / 2 ^ 32 * of_int i :: real)"
  have r: "0 \<le> r" "r \<le> 3 / 10" using assms by (simp_all add: r_def)
  have c: "\<bar>val (decode_Wo i) - (val Wo_min + r)\<bar> \<le> 1 / 1000000" "\<bar>val (decode_Wo i) - val Wo_min - r\<bar> \<le> 2 powi (- 24)"
    using d(4) powi_tiny [of "- 24"] by (simp_all add: r_def diff_diff_eq)
  then have "\<bar>val (decode_Wo i) - val Wo_min\<bar> \<le> 1" using r by linarith
  then have "\<bar>val (decode_Wo i) - val Wo_min\<bar> \<le> 2 powi 0" by simp
  then obtain x where x: "number single x" "encode_Wo (decode_Wo i) = level_index 128 x"
      "\<bar>val x - (val (decode_Wo i) - val Wo_min) / (9223756 / 2 ^ 25)\<bar> \<le> 2 powi (- 20)"
    using encode_Wo_norm [OF d(1), of 0] by auto
  have "\<bar>(val (decode_Wo i) - val Wo_min) / (9223756 / 2 ^ 25) - r / (9223756 / 2 ^ 25)\<bar> = \<bar>val (decode_Wo i) - val Wo_min - r\<bar> / (9223756 / 2 ^ 25)"
    by (rule abs_diff_divide) simp
  also have "\<dots> \<le> 2 powi (- 24) / (9223756 / 2 ^ 25)" using c(2) by (rule divide_right_mono) simp
  also have "\<dots> \<le> 2 powi (- 20)" by (simp add: power_int_def power_one_over)
  finally have "\<bar>val x - r / (9223756 / 2 ^ 25)\<bar> \<le> 2 powi (- 20) + 2 powi (- 20)" using x(3) by linarith
  moreover have "r / (9223756 / 2 ^ 25) = of_int i / 128" by (simp add: r_def)
  moreover have "(2 powi (- 20) + 2 powi (- 20) :: real) = 1 / 524288" by (simp add: power_int_def power_one_over)
  ultimately have x': "\<bar>128 * val x - of_int i\<bar> \<le> 1 / 4096" by linarith
  then have "\<bar>of_int 128 * val x\<bar> \<le> 256" using assms by linarith
  then have "\<bar>of_int 128 * val x\<bar> \<le> 2 powi 8" by simp
  from level_index_val [OF x(1) _ _ this]
  obtain y where y: "\<bar>y - (of_int 128 * val x + 1 / 2)\<bar> \<le> 2 powi (8 - 24)" "level_index 128 x = Some (min (max \<lfloor>y\<rfloor> 0) (128 - 1))"
    by auto
  have "(2 powi (8 - 24) :: real) \<le> 1 / 16" by (simp add: power_int_def power_one_over)
  then have "of_int i \<le> y" "y < of_int i + 1" using y(1) x' by (simp_all only: of_int_numeral)
  then have "\<lfloor>y\<rfloor> = i" by (simp add: floor_eq_iff)
  then show ?thesis using x(2) y(2) assms by simp
qed

subsection \<open>Harmonics\<close>

lemma PI_val: "number double PI" "val PI = 7074237752952144 / 2 ^ 51"
  unfolding PI_const by (simp_all add: numberI power_int_def power_one_over)

lemma harmonics_bound:
  assumes "number single Wo" "val Wo_min \<le> val Wo" "val Wo \<le> 1"
  shows "\<exists>L. harmonics Wo = Some L \<and> 1 \<le> L \<and> L < MAX_AMP"
proof -
  have wb: "10541436 / 2 ^ 28 \<le> val Wo" using assms(2) by (simp add: Wo_numbers)
  then have "\<bar>val Wo\<bar> \<le> 2 powi 0" using assms(3) by simp
  from double_of_exact [OF assms(1) this] have d: "fl_finite (double_of Wo)" "val (double_of Wo) = val Wo" by (simp_all add: number_def)
  let ?q = "fl_div double PI (double_of Wo)"
  have w: "0 < val Wo" using wb by simp
  have hi: "val PI / val Wo \<le> 80 - 1 / 2 ^ 20" unfolding PI_val(2) using wb w by (simp add: divide_le_eq)
  have lo: "1 \<le> val PI / val Wo" unfolding PI_val(2) using assms(3) w by (simp add: le_divide_eq)
  have "val PI / val Wo \<le> 128" by (rule order_trans [OF hi]) simp
  then have "\<bar>val PI / val Wo\<bar> \<le> 128" using abs_of_nonneg [OF order_trans [OF zero_le_one lo]] by simp
  then have "\<bar>val PI / val (double_of Wo)\<bar> \<le> 2 powi 7" unfolding d(2) by simp
  then have "rounds double (val PI / val (double_of Wo)) ?q" using PI_val(1) d w
    by (intro fl_div_rounds powi_2_big [of _ 7]) (simp_all add: number_def)
  then have q: "rounds double (val PI / val Wo) ?q" by (simp only: d)
  have g: "80 - 1 / 2 ^ 20 \<in> grid double" by (rule gridI [of 83886079 _ "- 20"]) (simp_all add: power_int_def power_one_over)
  have g1: "1 \<in> grid double" by (rule gridI [of 1 _ 0]) simp_all
  have b: "1 \<le> val ?q" "val ?q \<le> 80 - 1 / 2 ^ 20" using rounds_ge [OF q g1 lo] rounds_le [OF q g hi] .
  then have "fl_to_int ?q = Some \<lfloor>val ?q\<rfloor>" by (intro fl_to_int_val rounds_finite [OF q]) simp_all
  moreover have "1 \<le> \<lfloor>val ?q\<rfloor>" "\<lfloor>val ?q\<rfloor> < 80" using b by (simp_all add: le_floor_iff floor_less_iff)
  ultimately show ?thesis by (simp add: harmonics_def)
qed

subsection \<open>Separation of the line spectrum pairs\<close>

text \<open>One step of \<^verbatim>\<open>bw_expand_lsps\<close>: the second of two neighbours after it.\<close>

definition expanded :: "fl \<Rightarrow> fl \<Rightarrow> fl \<Rightarrow> fl" where
  "expanded s x y = (if fl_less (double_of (fl_sub single y x)) s then single_of (fl_add double (double_of x) s) else y)"

lemma expanded_separates:
  assumes x: "number single x" "0 \<le> val x" "val x \<le> 4" and y: "number single y" "0 \<le> val y" "val y \<le> 4"
    and s: "number double s" "0 < val s" "val s \<le> 1 / 10"
  shows "number single (expanded s x y)" "val x + val s - 1 / 100000 \<le> val (expanded s x y)"
    "val (expanded s x y) \<le> max (val y) (val x + val s + 1 / 100000)"
proof -
  have dx: "number double (double_of x)" "val (double_of x) = val x" using double_of_exact [OF x(1), of 2] x(2,3) by simp_all
  show "number single (expanded s x y)" "val x + val s - 1 / 100000 \<le> val (expanded s x y)"
    "val (expanded s x y) \<le> max (val y) (val x + val s + 1 / 100000)"
  proof (atomize (full), cases "fl_less (double_of (fl_sub single y x)) s")
    case True
    let ?u = "fl_add double (double_of x) s"
    have b: "\<bar>val (double_of x) + val s\<bar> \<le> 2 powi 3" unfolding dx(2) using x s by simp
    then have u: "rounds double (val (double_of x) + val s) ?u" using dx(1) s(1)
      by (intro fl_add_rounds powi_2_big [of _ 3]) (simp_all add: number_def)
    have eu: "\<bar>val ?u - (val x + val s)\<bar> \<le> 1 / 1000000" using rounds_error [OF u b] powi_tiny [of "- 51"] by (simp add: dx(2))
    then have "\<bar>val ?u\<bar> \<le> 8" using x s by linarith
    then have bu: "\<bar>val ?u\<bar> \<le> 2 powi 3" by simp
    then have v: "rounds single (val ?u) (single_of ?u)" using rounds_finite [OF u] by (intro to_fmt_rounds powi_2_big [of _ 3]) simp_all
    have "\<bar>val (single_of ?u) - val ?u\<bar> \<le> 1 / 1000000" using rounds_error [OF v bu] powi_tiny [of "- 22"] by simp
    then have "val x + val s - 1 / 100000 \<le> val (single_of ?u)" "val (single_of ?u) \<le> val x + val s + 1 / 100000" using eu by linarith+
    then show "number single (expanded s x y) \<and> val x + val s - 1 / 100000 \<le> val (expanded s x y) \<and>
        val (expanded s x y) \<le> max (val y) (val x + val s + 1 / 100000)"
      using True rounds_number [OF v] by (simp add: expanded_def)
  next
    case False
    let ?t = "fl_sub single y x"
    have b: "\<bar>val y - val x\<bar> \<le> 2 powi 2" using x y by (simp add: abs_le_iff)
    then have t: "rounds single (val y - val x) ?t" using x y by (intro fl_sub_rounds powi_2_big [of _ 2]) (simp_all add: number_def)
    have et: "\<bar>val ?t - (val y - val x)\<bar> \<le> 1 / 1000000" using rounds_error [OF t b] powi_tiny [of "- 23"] by simp
    then have "\<bar>val ?t\<bar> \<le> 8" using x y by linarith
    then have "fl_finite (double_of ?t)" "val (double_of ?t) = val ?t" using double_of_exact [OF rounds_number [OF t], of 3] by (simp_all add: number_def)
    then have "val s \<le> val ?t" using False s(1) by (simp add: fl_less_iff number_def)
    then have "val x + val s - 1 / 100000 \<le> val y" using et by linarith
    then show "number single (expanded s x y) \<and> val x + val s - 1 / 100000 \<le> val (expanded s x y) \<and>
        val (expanded s x y) \<le> max (val y) (val x + val s + 1 / 100000)"
      using False y(1) by (simp add: expanded_def)
  qed
qed

definition bw_separation :: "nat \<Rightarrow> fl" where
  "bw_separation i = (if i < 5 then separation 125 1 else if i < 8 then separation 250 1 else separation 750 1)"

lemma bw_separation_val:
  "number double (bw_separation i)" "1 / 102 \<le> val (bw_separation i)" "val (bw_separation i) \<le> 1 / 16"
  unfolding bw_separation_def separations by (simp_all add: numberI power_int_def power_one_over)

definition expand_upto :: "nat \<Rightarrow> fl list \<Rightarrow> fl list" where
  "expand_upto n lsp = foldl (\<lambda>lsp i. lsp[i := expanded (bw_separation i) (lsp ! (i - 1)) (lsp ! i)]) lsp [1..<n]"

lemma expand_from_eq:
  "\<forall>i \<in> set is. bw_separation i = s \<Longrightarrow>
   bw_expand_from s is lsp = foldl (\<lambda>lsp i. lsp[i := expanded (bw_separation i) (lsp ! (i - 1)) (lsp ! i)]) lsp is"
  by (induction "is" arbitrary: lsp) (simp_all add: bw_expand_from_def expanded_def list_update_id)

lemma bw_expand_eq: "bw_expand_lsps lsp LPC_ORD = expand_upto LPC_ORD lsp"
proof -
  have "[1..<10] = [1..<5] @ [5..<8] @ [8..<10]" by (simp add: upt_rec)
  then show ?thesis unfolding bw_expand_lsps_def expand_upto_def Let_def
    by (simp only: foldl_append) (simp add: expand_from_eq bw_separation_def)
qed

text \<open>The line spectrum pairs before and after: numbers of a bounded size, and each pair is apart afterwards.\<close>

definition lsps_ok :: "fl list \<Rightarrow> bool" where
  "lsps_ok lsp \<longleftrightarrow> LPC_ORD \<le> length lsp \<and> (\<forall>j < LPC_ORD. number single (lsp ! j) \<and> 0 \<le> val (lsp ! j) \<and> val (lsp ! j) \<le> 3)"

definition separated :: "nat \<Rightarrow> fl list \<Rightarrow> bool" where
  "separated n lsp \<longleftrightarrow> (\<forall>j < n. number single (lsp ! j) \<and> 0 \<le> val (lsp ! j) \<and> val (lsp ! j) \<le> 3 + real j / 10) \<and>
     (\<forall>j. 0 < j \<and> j < n \<longrightarrow> val (lsp ! (j - 1)) + val (bw_separation j) - 1 / 100000 \<le> val (lsp ! j))"

lemma separated_snoc:
  assumes "separated n l" "n < length l" "0 < n" "number single y" "0 \<le> val y" "val y \<le> 3 + real n / 10"
    "val (l ! (n - 1)) + val (bw_separation n) - 1 / 100000 \<le> val y"
  shows "separated (Suc n) (l[n := y])"
proof -
  have "number single (l[n := y] ! j) \<and> 0 \<le> val (l[n := y] ! j) \<and> val (l[n := y] ! j) \<le> 3 + real j / 10" if "j < Suc n" for j
    using assms(1,2,4-6) that unfolding separated_def by (cases "j = n") simp_all
  moreover have "val (l[n := y] ! (j - 1)) + val (bw_separation j) - 1 / 100000 \<le> val (l[n := y] ! j)" if "0 < j" "j < Suc n" for j
  proof (cases "j = n")
    case True
    then show ?thesis using assms(2,3,7) by simp
  next
    case False
    then show ?thesis using assms(1) that unfolding separated_def by simp
  qed
  ultimately show ?thesis unfolding separated_def by blast
qed

lemma expand_upto_separates:
  assumes "lsps_ok lsp" "0 < n" "n \<le> LPC_ORD"
  shows "length (expand_upto n lsp) = length lsp \<and> (\<forall>j \<ge> n. expand_upto n lsp ! j = lsp ! j) \<and> separated n (expand_upto n lsp)"
  using assms(2,3)
proof (induction n)
  case (Suc n)
  show ?case
  proof (cases "n = 0")
    case True
    then show ?thesis using assms(1) by (simp add: expand_upto_def separated_def lsps_ok_def)
  next
    case False
    let ?l = "expand_upto n lsp" and ?x = "expand_upto n lsp ! (n - 1)"
    let ?y = "expanded (bw_separation n) ?x (lsp ! n)"
    have IH: "length ?l = length lsp" "\<forall>j \<ge> n. ?l ! j = lsp ! j" "separated n ?l" using Suc False by simp_all
    have n: "n < 10" "n < length lsp" using Suc.prems assms(1) by (simp_all add: lsps_ok_def)
    have eq: "expand_upto (Suc n) lsp = ?l[n := ?y]" using False IH(2) by (simp add: expand_upto_def)
    have "n - 1 < n" using False by simp
    then have x: "number single ?x" "0 \<le> val ?x" "val ?x \<le> 3 + real (n - 1) / 10" using IH(3) unfolding separated_def by blast+
    have r: "real (n - 1) = real n - 1" using False by (simp add: of_nat_diff)
    have "val ?x \<le> 4" using x(3) n(1) by (simp add: r)
    moreover have y: "number single (lsp ! n)" "0 \<le> val (lsp ! n)" "val (lsp ! n) \<le> 3" using assms(1) n(1) by (simp_all add: lsps_ok_def)
    moreover have "0 < val (bw_separation n)" "val (bw_separation n) \<le> 1 / 10" using bw_separation_val(2,3) [of n] by simp_all
    ultimately have e: "number single ?y" "val ?x + val (bw_separation n) - 1 / 100000 \<le> val ?y" "val ?y \<le> max (val (lsp ! n)) (val ?x + val (bw_separation n) + 1 / 100000)"
      using expanded_separates [OF x(1,2), of "lsp ! n" "bw_separation n"] bw_separation_val(1) by simp_all
    have "a \<le> 3 + (c - 1) / 10 \<Longrightarrow> b \<le> 1 / 16 \<Longrightarrow> a + b + 1 / 100000 \<le> 3 + c / 10" for a b c :: real by (simp add: field_simps)
    from this [OF x(3) [unfolded r] bw_separation_val(3)]
    have "val ?x + val (bw_separation n) + 1 / 100000 \<le> 3 + real n / 10" .
    then have "val ?y \<le> 3 + real n / 10" using e(3) y(3) by (elim order_trans) simp
    moreover have "0 \<le> val ?y" using e(2) x(2) bw_separation_val(2) [of n] by linarith
    ultimately have "separated (Suc n) (?l[n := ?y])" using separated_snoc [OF IH(3)] e(1,2) IH(1) n(2) False by simp
    then show ?thesis unfolding eq using IH(1,2) by simp
  qed
qed simp

lemma codebook_values:
  assumes "i < LPC_ORD" "j < length (cb_cb (lsp_cb ! i))"
  shows "\<exists>n. cb_cb (lsp_cb ! i) ! j = f_int n \<and> 0 \<le> n \<and> n \<le> 3500"
proof -
  have "\<forall>i < 10. list_all (\<lambda>x. \<exists>n. x = f_int n \<and> 0 \<le> n \<and> n \<le> 3500) (cb_cb (lsp_cb ! i))"
    unfolding all_less_10
    by (auto simp: lsp_cb_def codes0_def codes1_def codes2_def codes3_def codes4_def codes5_def codes6_def codes7_def codes8_def codes9_def)
  then show ?thesis using assms by (auto simp: list_all_length)
qed

lemma radians_ok:
  assumes "0 \<le> n" "n \<le> 3500"
  defines "x \<equiv> single_of (fl_mul double (fl_div double PI (d_int 4000)) (double_of (f_int n)))"
  shows "number single x" "0 \<le> val x" "val x \<le> 3"
proof -
  have k: "fl_div double PI (d_int 4000) = Fin 7244019459022995 (- 63)" by code_simp
  have kv: "number double (Fin 7244019459022995 (- 63))" "val (Fin 7244019459022995 (- 63)) = 7244019459022995 / 2 ^ 63"
    by (simp_all add: numberI power_int_def power_one_over)
  have n: "number single (f_int n)" "val (f_int n) = of_int n" using f_int_small [of n] assms by simp_all
  have "\<bar>val (f_int n)\<bar> \<le> 2 powi 12" using assms n(2) by simp
  from double_of_exact [OF n(1) this] have d: "number double (double_of (f_int n))" "val (double_of (f_int n)) = of_int n" using n(2) by simp_all
  let ?p = "fl_mul double (Fin 7244019459022995 (- 63)) (double_of (f_int n))" and ?r = "7244019459022995 / 2 ^ 63 * of_int n :: real"
  have r: "0 \<le> ?r" "?r \<le> 3" using assms by simp_all
  have "\<bar>val (Fin 7244019459022995 (- 63)) * val (double_of (f_int n))\<bar> \<le> 2 powi 2" unfolding kv(2) d(2) using r by simp
  then have "rounds double (val (Fin 7244019459022995 (- 63)) * val (double_of (f_int n))) ?p"
    using kv(1) d(1) by (intro fl_mul_rounds powi_2_big [of _ 2]) (simp_all add: number_def)
  then have p: "rounds double ?r ?p" unfolding kv(2) d(2) .
  have g: "0 \<in> grid double" "3 \<in> grid double" by (rule gridI [of 0 _ 0], simp_all) (rule gridI [of 3 _ 0], simp_all)
  have pv: "0 \<le> val ?p" "val ?p \<le> 3" using rounds_ge [OF p g(1) r(1)] rounds_le [OF p g(2) r(2)] .
  then have "rounds single (val ?p) x" unfolding x_def k using rounds_finite [OF p] by (intro to_fmt_rounds powi_2_big [of _ 2]) simp_all
  moreover have "0 \<in> grid single" "3 \<in> grid single" by (rule gridI [of 0 _ 0], simp_all) (rule gridI [of 3 _ 0], simp_all)
  ultimately show "number single x" "0 \<le> val x" "val x \<le> 3" using rounds_ge rounds_le rounds_number pv by blast+
qed

lemma decode_lsps_ok:
  assumes "\<forall>i < LPC_ORD. ix ! i < 2 ^ lsp_bits i"
  shows "\<exists>lsp. decode_lsps ix LPC_ORD = Some lsp \<and> length lsp = LPC_ORD \<and> lsps_ok lsp"
proof -
  have inside: "ix ! i * cb_k (lsp_cb ! i) < length (cb_cb (lsp_cb ! i))" if "i < 10" for i
    using assms codebook_sizes that by simp
  have "number single x \<and> 0 \<le> val x \<and> val x \<le> 3"
    if "i < 10" "x = single_of (fl_mul double (fl_div double PI (d_int 4000)) (double_of (cb_cb (lsp_cb ! i) ! (ix ! i * cb_k (lsp_cb ! i)))))" for i x
    using codebook_values [OF that(1) inside [OF that(1)]] radians_ok that(2) by auto
  then show ?thesis using inside by (auto simp: decode_lsps_def lsps_ok_def Let_def not_le)
qed

subsection \<open>Received frames\<close>

lemma unat_lt_bits:
  assumes "\<And>k. w \<le> k \<Longrightarrow> \<not> bit (x :: u32) k"
  shows "unat x < 2 ^ w"
proof -
  have "take_bit w x = x" by (rule bit_word_eqI) (use assms in \<open>auto simp: bit_take_bit_iff not_le [symmetric]\<close>)
  then have "unat x = take_bit w (unat x)" by (metis unsigned_take_bit_eq)
  then show ?thesis by (metis take_bit_nat_less_exp)
qed

lemma unpack_any:
  assumes "0 < w" "w \<le> 16" "i + w \<le> 8 * length arr"
  shows "\<exists>x. unpack arr i w = Some (x, i + w) \<and> unat x < 2 ^ w"
proof -
  obtain r where r: "unpack_slices arr i 0 w = Some (r, i + w)" "\<And>k. bit r k = (k < w \<and> bit_at arr (i + w - 1 - k))"
    using unpack_slices_bits [OF assms, of 0] by auto
  have "unat (gray_to_binary r) < 2 ^ w"
    by (rule unat_lt_bits) (simp add: gray_to_binary_def Let_def bit_xor_iff bit_drop_bit_eq r(2))
  then show ?thesis using r(1) by (simp add: unpack_def)
qed

lemma unpack_all_any:
  assumes "\<forall>w \<in> set ws. 0 < w \<and> w \<le> 16" "i + sum_list ws \<le> 8 * length arr"
  shows "\<exists>xs. unpack_all arr i ws = Some (xs, i + sum_list ws) \<and> list_all2 (\<lambda>x w. unat x < 2 ^ w) xs ws"
  using assms
proof (induction ws arbitrary: i)
  case (Cons w ws)
  obtain x where x: "unpack arr i w = Some (x, i + w)" "unat x < 2 ^ w" using unpack_any [of w i arr] Cons.prems by auto
  obtain xs where "unpack_all arr (i + w) ws = Some (xs, i + w + sum_list ws)" "list_all2 (\<lambda>x w. unat x < 2 ^ w) xs ws"
    using Cons.IH [of "i + w"] Cons.prems by auto
  then show ?case using x by (simp add: add.assoc)
qed simp

lemma decode_frame_any:
  assumes "7 \<le> length bits"
  shows "\<exists>c. decode_frame bits = Some c \<and> codes_ok c"
proof -
  let ?lw = "map lsp_bits [0..<LPC_ORD]" and ?P = "\<lambda>x w. unat x < (2 :: nat) ^ w"
  let ?ws = "WO_BITS # ?lw @ [E_BITS, 1, 1]"
  have lw: "?lw = [4, 4, 4, 4, 4, 4, 4, 3, 3, 2]" by (simp add: upt_rec lsp_bits_def)
  have "\<forall>w \<in> set ?ws. 0 < w \<and> w \<le> 16" "sum_list ?ws = 50" unfolding lw by simp_all
  then obtain xs where xs: "unpack_all bits 0 ?ws = Some (xs, 50)" "list_all2 ?P xs ?ws"
    using unpack_all_any [of ?ws 0 bits] assms by auto
  obtain wo ys where wo: "xs = wo # ys" "?P wo 7" "list_all2 ?P ys (?lw @ [E_BITS, 1, 1])" using xs(2) by (auto simp only: list_all2_Cons2)
  obtain ls zs where ls: "ys = ls @ zs" "list_all2 ?P ls ?lw" "list_all2 ?P zs [E_BITS, 1, 1]" using wo(3) by (auto simp only: list_all2_append2)
  obtain e v1 v2 where z: "zs = [e, v1, v2]" "?P e 5" "?P v1 1" "?P v2 1" using ls(3) by (auto simp: list_all2_Cons2)
  have l: "length ls = 10" "\<forall>i < 10. ?P (ls ! i) (lsp_bits i)" using ls(2) by (auto simp: list_all2_conv_all_nth simp del: upt_Suc)
  let ?c = "\<lparr>Wo_index = wo, lsp_indexes = ls, energy_index = e, voiced1 = v1, voiced2 = v2\<rparr>"
  have "decode_frame bits = Some ?c"
    using xs(1) l(1) unfolding wo(1) ls(1) z(1)
    by (auto simp: decode_frame_def unpack_all_append lsps_all Option.bind_eq_Some_conv simp del: upt_Suc)
  moreover have "codes_ok ?c" using wo(2) l z(2-4) by (simp add: codes_ok_def)
  ultimately show ?thesis by blast
qed

subsection \<open>Samples\<close>

text \<open>Every synthesised number is written as a sample; the conversion is always defined.\<close>

lemma output_sample_range:
  assumes "number single x" "\<bar>val x\<bar> \<le> 2 powi 200"
  shows "\<exists>n. output_sample x = Some n \<and> \<bar>n\<bar> \<le> 32767"
proof -
  note d = double_of_exact [OF assms] and hi = d_int_small [of 32767] and lo = d_int_small [of "- 32767"]
  have "\<exists>n. fl_to_int x = Some n \<and> \<bar>n\<bar> \<le> 32767" if v: "\<bar>val x\<bar> \<le> 32767"
  proof -
    obtain n where n: "fl_trunc x = Some n" "of_int \<bar>n\<bar> \<le> \<bar>val x\<bar>" using fl_trunc_le [of x] assms(1) by (auto simp: number_def)
    then have "of_int \<bar>n\<bar> \<le> (of_int 32767 :: real)" using v by simp
    then have "\<bar>n\<bar> \<le> 32767" by (simp only: of_int_le_iff)
    then show ?thesis using n(1) by (auto simp: fl_to_int_def)
  qed
  moreover have "\<not> fl_less (d_int 32767) (double_of x) \<Longrightarrow> \<not> fl_less (double_of x) (d_int (- 32767)) \<Longrightarrow> \<bar>val x\<bar> \<le> 32767"
    using d hi lo by (simp add: fl_less_iff number_def)
  ultimately show ?thesis by (auto simp: output_sample_def)
qed

subsection \<open>Sent frames\<close>

definition frame_energy :: "fl list \<Rightarrow> fl list \<Rightarrow> fl" where
  "frame_energy Sn w =
     (let R = autocorrelate (map (\<lambda>i. fl_mul single (Sn ! i) (w ! i)) [0..<M_SAMPLES]) M_SAMPLES LPC_ORD
      in residual_energy (levinson_durbin R LPC_ORD) R LPC_ORD)"

text \<open>The analysis always returns; its energy does not depend on the line spectrum pairs.\<close>

lemma speech_to_uq_lsps_returns:
  assumes "length lsps = LPC_ORD"
  shows "\<exists>lsps' ak. speech_to_uq_lsps math lsps Sn w LPC_ORD = Some (frame_energy Sn w, lsps', ak)"
proof -
  let ?R = "autocorrelate (map (\<lambda>i. fl_mul single (Sn ! i) (w ! i)) [0..<M_SAMPLES]) M_SAMPLES LPC_ORD"
  obtain roots l where "lpc_to_lsp math (levinson_durbin ?R LPC_ORD) LPC_ORD lsps 5 (single_of LSP_DELTA1) = Some (roots, l)"
    using lpc_to_lsp_ends [of LPC_ORD lsps math "levinson_durbin ?R LPC_ORD" 5] assms by auto
  then show ?thesis unfolding speech_to_uq_lsps_def Let_def frame_energy_def by (simp del: upt_Suc)
qed

text \<open>Silence moves into the window from its end.\<close>

lemma read_silence:
  assumes "\<forall>i. k \<le> i \<and> i < M_SAMPLES \<longrightarrow> is_zero (Sn ! i)"
  shows "\<forall>i. k - N_SAMPLES \<le> i \<and> i < M_SAMPLES \<longrightarrow> is_zero (read_speech Sn (replicate N_SAMPLES 0) ! i)"
  using assms by (auto simp: read_speech_def nth_append)

lemma encode_amplitudes_returns:
  assumes "length lsps = LPC_ORD"
  shows "\<exists>ix. length ix = LPC_ORD \<and> (\<forall>i < LPC_ORD. ix ! i < 2 ^ lsp_bits i) \<and>
    encode_amplitudes math lsps se Sn w = map_option (\<lambda>e. (ix, e)) (encode_energy math (frame_energy Sn w))"
proof -
  obtain lsps' ak where "speech_to_uq_lsps math lsps Sn w LPC_ORD = Some (frame_energy Sn w, lsps', ak)"
    using speech_to_uq_lsps_returns [OF assms] by blast
  moreover obtain ix where "encode_lsps math lsps' LPC_ORD se = Some ix" "length ix = LPC_ORD" "\<forall>i < LPC_ORD. ix ! i < 2 ^ lsp_bits i"
    using encode_lsps_range by blast
  ultimately show ?thesis by (auto simp: encode_amplitudes_def)
qed

text \<open>Decoding a frame is defined.\<close>

lemma decode_model_defined:
  assumes "7 \<le> length bits"
  shows "\<exists>Wo L lsps ak e. decode_model math bits = Some (Wo, L, lsps, ak, e) \<and> 1 \<le> L \<and> L < MAX_AMP \<and>
    length lsps = LPC_ORD \<and> (\<forall>j. 0 < j \<and> j < LPC_ORD \<longrightarrow> val (lsps ! (j - 1)) + 1 / 103 \<le> val (lsps ! j))"
proof -
  obtain c where c: "decode_frame bits = Some c" "codes_ok c" using decode_frame_any [OF assms] by blast
  have "unat (Wo_index c) < 128" using c(2) by (simp add: codes_ok_def)
  then have wo: "0 \<le> uint (Wo_index c)" "uint (Wo_index c) < 128" unfolding uint_nat by linarith+
  obtain L where L: "harmonics (decode_Wo (uint (Wo_index c))) = Some L" "1 \<le> L" "L < 80"
    using harmonics_bound decode_Wo_close [OF wo] by blast
  have "\<forall>i < LPC_ORD. map unat (lsp_indexes c) ! i < 2 ^ lsp_bits i" using c(2) by (simp add: codes_ok_def)
  then obtain lsp where l: "decode_lsps (map unat (lsp_indexes c)) LPC_ORD = Some lsp" "length lsp = LPC_ORD" "lsps_ok lsp"
    using decode_lsps_ok by blast
  have s: "length (bw_expand_lsps lsp LPC_ORD) = LPC_ORD" "separated LPC_ORD (bw_expand_lsps lsp LPC_ORD)"
    using expand_upto_separates [OF l(3), of LPC_ORD] l(2) unfolding bw_expand_eq by simp_all
  have "val (bw_expand_lsps lsp LPC_ORD ! (j - 1)) + 1 / 103 \<le> val (bw_expand_lsps lsp LPC_ORD ! j)" if "0 < j" "j < LPC_ORD" for j
  proof -
    have "val (bw_expand_lsps lsp LPC_ORD ! (j - 1)) + val (bw_separation j) - 1 / 100000 \<le> val (bw_expand_lsps lsp LPC_ORD ! j)"
      using s(2) that unfolding separated_def by blast
    then show ?thesis using bw_separation_val(2) [of j] by linarith
  qed
  moreover have "decode_model math bits = Some (decode_Wo (uint (Wo_index c)), L, bw_expand_lsps lsp LPC_ORD,
      lsp_to_lpc math (bw_expand_lsps lsp LPC_ORD) LPC_ORD, decode_energy math (uint (energy_index c)))"
    using c(1) L l(1) unfolding decode_model_def decode_envelope_def Let_def by simp
  ultimately show ?thesis using L(2,3) s(1) by blast
qed

text \<open>After four halves of silence the frame has no energy.\<close>

lemma silent_window:
  fixes Sn w :: "fl list" and math :: libm
  assumes w: "\<forall>i < M_SAMPLES. fl_finite (w ! i)" and nan: "log10_m math NaN = NaN" and lsps: "length lsps = LPC_ORD"
  defines "quiet \<equiv> \<lambda>Sn. read_speech Sn (replicate N_SAMPLES 0)"
  shows "frame_energy (quiet (quiet (quiet (quiet Sn)))) w = NaN \<and> encode_energy math (frame_energy (quiet (quiet (quiet (quiet Sn)))) w) = None \<and>
    encode_model math lsps se Wo v1 v2 (quiet (quiet (quiet (quiet Sn)))) w bits = None"
proof -
  let ?S = "quiet (quiet (quiet (quiet Sn)))"
  have "\<forall>i. 320 \<le> i \<and> i < 320 \<longrightarrow> is_zero (Sn ! i)" by (auto dest: leD)
  then have z: "\<forall>i < M_SAMPLES. is_zero (?S ! i)"
    unfolding quiet_def using read_silence [OF read_silence [OF read_silence [OF read_silence [of 320 Sn]]]] by simp
  have "frame_energy ?S w = NaN" unfolding frame_energy_def Let_def
    using z w by (intro lpc_silence(2)) (auto intro!: mul_zero(1) simp del: upt_Suc)
  moreover have "encode_energy math NaN = None" by (simp add: encode_energy_def level_index_def fl_to_int_def fl_sub_def nan)
  moreover have "encode_model math lsps se Wo v1 v2 ?S w bits = None"
    using encode_amplitudes_returns [OF lsps, of math se ?S w] calculation by (auto simp: encode_model_def split: Option.bind_split)
  ultimately show ?thesis by simp
qed

subsection \<open>Properties\<close>

text \<open>
  C30: no received frame can make the decoder leave its tables. For every seven octets from the network, and every
  cosine and power function, \<^verbatim>\<open>codec2_decode\<close> reads indices inside the codebooks, the number of harmonics is at least
  one and below \<^verbatim>\<open>MAX_AMP\<close>, so that clearing and filling the amplitudes stays inside their array, and the ten line
  spectrum pairs it goes on with increase strictly, by at least the smallest separation of the source less its rounding.
\<close>

theorem received_frame_safe:
  assumes "7 \<le> length bits"
  shows "\<exists>Wo L lsps ak e. decode_model math bits = Some (Wo, L, lsps, ak, e) \<and> 1 \<le> L \<and> L < MAX_AMP \<and>
    length lsps = LPC_ORD \<and> (\<forall>j. 0 < j \<and> j < LPC_ORD \<longrightarrow> val (lsps ! (j - 1)) + 1 / 103 \<le> val (lsps ! j))"
  using assms by (rule decode_model_defined)

theorem received_frame_safe_witness:
  "\<exists>Wo L lsps ak e. decode_model \<lparr>acos_m = (\<lambda>x. x), cos_m = (\<lambda>x. x), log10_m = (\<lambda>x. x), pow_m = (\<lambda>x y. x), sin_m = (\<lambda>x. x), sqrt_m = (\<lambda>x. x), atan2_m = (\<lambda>x y. x)\<rparr> (replicate 7 0xff) = Some (Wo, L, lsps, ak, e) \<and>
    1 \<le> L \<and> L < MAX_AMP \<and> length lsps = LPC_ORD \<and> (\<forall>j. 0 < j \<and> j < LPC_ORD \<longrightarrow> val (lsps ! (j - 1)) + 1 / 103 \<le> val (lsps ! j))"
  by (rule received_frame_safe) simp

text \<open>
  C31: what the encoder sends is what the decoder reads. For a fundamental frequency between zero and eight radians per
  sample, voicing decisions of zero or one, any speech and window whose energy has a defined index, and whatever the
  uninitialised locals held, \<^verbatim>\<open>codec2_encode\<close> writes a frame of seven octets, and decoding it gives back the indices of the
  fundamental frequency, the line spectrum pairs and the energy, and the two voicing decisions.
\<close>

theorem encoded_frame_decodes:
  assumes Wo: "number single Wo" "0 \<le> val Wo" "val Wo \<le> 8" and v: "unat v1 < 2" "unat v2 < 2"
    and lsps: "length lsps = LPC_ORD" and bits: "length bits = 7"
    and e: "encode_energy math (frame_energy Sn w) = Some e"
  shows "\<exists>frame c indexes. encode_model math lsps se Wo v1 v2 Sn w bits = Some frame \<and> length frame = 7 \<and>
    decode_frame frame = Some c \<and> encode_Wo Wo = Some (uint (Wo_index c)) \<and>
    encode_amplitudes math lsps se Sn w = Some (indexes, uint (energy_index c)) \<and> indexes = map unat (lsp_indexes c) \<and>
    voiced1 c = v1 \<and> voiced2 c = v2"
proof -
  obtain wo where wo: "encode_Wo Wo = Some wo" "0 \<le> wo" "wo < 128" using encode_Wo_total [OF Wo] by auto
  have e2: "0 \<le> e" "e < 32" using e level_index_range [of 32] unfolding encode_energy_def Let_def by auto
  obtain ix where ix: "length ix = LPC_ORD" "\<forall>i < LPC_ORD. ix ! i < 2 ^ lsp_bits i" "encode_amplitudes math lsps se Sn w = Some (ix, e)"
    using encode_amplitudes_returns [OF lsps, of math se Sn w] e by auto
  let ?c = "\<lparr>Wo_index = word_of_int wo, lsp_indexes = map word_of_nat ix, energy_index = word_of_int e, voiced1 = v1, voiced2 = v2\<rparr> :: codes"
  have small: "unat (word_of_nat (ix ! i) :: u32) = ix ! i" if "i < 10" for i
  proof -
    have "\<forall>i < 10. (2 :: nat) ^ lsp_bits i \<le> 2 ^ 4" unfolding all_less_10 by (simp add: lsp_bits_def)
    then have "ix ! i < 16" using ix(2) that by fastforce
    then show ?thesis by (simp add: unsigned_of_nat take_bit_nat_eq_self)
  qed
  have u: "uint (word_of_int wo :: u32) = wo" "uint (word_of_int e :: u32) = e" using wo e2 by (simp_all add: uint_word_of_int)
  then have "unat (word_of_int wo :: u32) < 128" "unat (word_of_int e :: u32) < 32" using wo(3) e2(2) by (simp_all only: uint_nat)
  then have "codes_ok ?c" using small ix(1,2) v by (simp add: codes_ok_def)
  then obtain frame where f: "encode_frame ?c bits = Some frame" "length frame = 7" "decode_frame frame = Some ?c"
    using frame_roundtrip [OF _ bits] by blast
  have "map unat (map word_of_nat ix :: u32 list) = ix" using small ix(1) by (intro nth_equalityI) simp_all
  then show ?thesis using f wo(1) ix(3) u by (intro exI [of _ frame] exI [of _ ?c] exI [of _ ix]) (simp add: encode_model_def)
qed

theorem encoded_frame_decodes_witness:
  "\<exists>frame c indexes. encode_model \<lparr>acos_m = (\<lambda>x. x), cos_m = (\<lambda>x. x), log10_m = (\<lambda>x. Zero False), pow_m = (\<lambda>x y. x), sin_m = (\<lambda>x. x), sqrt_m = (\<lambda>x. x), atan2_m = (\<lambda>x y. x)\<rparr>
      (replicate 10 NaN) NaN (f_int 1) 1 0 (replicate 320 (f_int 1)) (replicate 320 (f_int 1)) (replicate 7 0) = Some frame \<and> length frame = 7 \<and>
    decode_frame frame = Some c \<and> encode_Wo (f_int 1) = Some (uint (Wo_index c)) \<and>
    encode_amplitudes \<lparr>acos_m = (\<lambda>x. x), cos_m = (\<lambda>x. x), log10_m = (\<lambda>x. Zero False), pow_m = (\<lambda>x y. x), sin_m = (\<lambda>x. x), sqrt_m = (\<lambda>x. x), atan2_m = (\<lambda>x y. x)\<rparr>
      (replicate 10 NaN) NaN (replicate 320 (f_int 1)) (replicate 320 (f_int 1)) = Some (indexes, uint (energy_index c)) \<and> indexes = map unat (lsp_indexes c) \<and>
    voiced1 c = 1 \<and> voiced2 c = 0"
proof (rule encoded_frame_decodes [where e = 6])
  show "number single (f_int 1)" "0 \<le> val (f_int 1)" "val (f_int 1) \<le> 8" using f_int_small [of 1] by simp_all
  have "level_index 32 (fl_div single (fl_sub single (single_of (fl_mul double (d_int 10) (Zero False))) E_MIN_DB) (fl_sub single E_MAX_DB E_MIN_DB)) = Some 6"
    by code_simp
  then show "encode_energy \<lparr>acos_m = \<lambda>x. x, cos_m = \<lambda>x. x, log10_m = \<lambda>x. Zero False, pow_m = \<lambda>x y. x, sin_m = \<lambda>x. x, sqrt_m = \<lambda>x. x, atan2_m = \<lambda>x y. x\<rparr>
      (frame_energy (replicate 320 (f_int 1)) (replicate 320 (f_int 1))) = Some 6"
    by (simp add: encode_energy_def Let_def)
qed simp_all

text \<open>
  C34: two packets of digital silence reach an undefined conversion. Whatever the window \<open>Sn\<close> held before, after four
  halves of eighty zero samples the energy of the frame is not a number, and for every logarithm that maps what is not
  a number to itself, the conversion of its index to \<^verbatim>\<open>int\<close> is undefined, so that \<^verbatim>\<open>codec2_encode\<close> has no defined result.
\<close>

theorem silence_undefined:
  fixes Sn w :: "fl list" and math :: libm
  assumes w: "\<forall>i < M_SAMPLES. fl_finite (w ! i)" and nan: "log10_m math NaN = NaN" and lsps: "length lsps = LPC_ORD"
  defines "quiet \<equiv> \<lambda>Sn. read_speech Sn (replicate N_SAMPLES 0)"
  shows "frame_energy (quiet (quiet (quiet (quiet Sn)))) w = NaN \<and> encode_energy math (frame_energy (quiet (quiet (quiet (quiet Sn)))) w) = None \<and>
    encode_model math lsps se Wo v1 v2 (quiet (quiet (quiet (quiet Sn)))) w bits = None"
  unfolding quiet_def using silent_window [OF assms(1-3)] .

theorem silence_undefined_witness:
  "frame_energy (read_speech (read_speech (read_speech (read_speech (replicate 320 (f_int 1)) (replicate 80 0)) (replicate 80 0)) (replicate 80 0)) (replicate 80 0))
      (replicate 320 (f_int 1)) = NaN"
  using silence_undefined [of "replicate 320 (f_int 1)" "\<lparr>acos_m = (\<lambda>x. x), cos_m = (\<lambda>x. x), log10_m = (\<lambda>x. x), pow_m = (\<lambda>x y. x), sin_m = (\<lambda>x. x), sqrt_m = (\<lambda>x. x), atan2_m = (\<lambda>x y. x)\<rparr>" "replicate 10 NaN" "replicate 320 (f_int 1)"]
    f_int_small [of 1] by (simp add: number_def)

text \<open>
  C35: every index of the fundamental frequency is stable. For each of the 128 indices, encoding the frequency that the
  decoder computes for it, both in single precision, gives the index again.
\<close>

theorem Wo_roundtrip:
  assumes "0 \<le> i" "i < WO_LEVELS"
  shows "encode_Wo (decode_Wo i) = Some i"
  using assms by (intro decode_Wo_index) simp_all

theorem Wo_roundtrip_witness: "encode_Wo (decode_Wo 127) = Some 127"
  by (rule Wo_roundtrip) simp_all

end
