(* ===== verification/Codec2_Jni.thy ===== *)
theory Codec2_Jni
  imports Codec2_Codec
begin

text \<open>
  The native methods of the speech codec, \<^verbatim>\<open>codec2_jni.c\<close>, over \<^verbatim>\<open>codec2_create\<close>, \<^verbatim>\<open>codec2_destroy\<close>, \<^verbatim>\<open>codec2_encode\<close> and
  \<^verbatim>\<open>codec2_decode\<close>, the creation of the pitch predictor, and the allocations that the first call of \<^verbatim>\<open>fft\<close> makes for good. The
  model follows the memory (which blocks are live, which pointers are null, what a failing allocation does), the speech
  window, and the quantised frame of \<open>Codec2_Codec\<close>. Each encoding takes what the sinusoidal analysis found for it, and
  each decoding the samples that the synthesis made, as inputs of the call, which may be any, also undefined; the lemmas
  hold for all of them and treat every sequence of calls the application can make.
\<close>

subsection \<open>Memory\<close>

text \<open>
  The part of \<^verbatim>\<open>CODEC2\<close> that encoding reads: the speech window, the analysis window and the pitch predictor. Blocks are
  such a state, a pitch predictor, and the arrays and configurations of the Fourier transform. Addresses are handed out
  in increasing order; \<open>room\<close> says how many more allocations succeed.
\<close>

record CODEC2 =
  c2_Sn :: "fl list"
  c2_w :: "fl list"
  c2_nlp :: "nat option"

datatype block = Codec CODEC2 | Nlp | Fft_Array | Fft_Config

record memory =
  fresh :: nat
  room :: nat
  blocks :: "nat \<rightharpoonup> block"

definition malloc :: "block \<Rightarrow> memory \<Rightarrow> nat option \<times> memory" where
  "malloc b m =
     (if room m = 0 then (None, m)
      else (Some (fresh m), m\<lparr>fresh := fresh m + 1, room := room m - 1, blocks := (blocks m)(fresh m \<mapsto> b)\<rparr>))"

definition free_block :: "nat \<Rightarrow> memory \<Rightarrow> memory option" where
  "free_block p m = (if blocks m p = None then None else Some (m\<lparr>room := room m + 1, blocks := (blocks m)(p := None)\<rparr>))"

text \<open>
  What can end a call: a failed assertion, an access to memory that is not the program's, and a computation of the codec
  that the language leaves undefined.
\<close>

datatype 'a codec_outcome = Aborted | Fault | Undefined | Done 'a

fun on_done :: "'a codec_outcome \<Rightarrow> ('a \<Rightarrow> 'b codec_outcome) \<Rightarrow> 'b codec_outcome" where
  "on_done (Done x) f = f x"
| "on_done Aborted f = Aborted"
| "on_done Fault f = Fault"
| "on_done Undefined f = Undefined"

text \<open>The global pointers of \<^verbatim>\<open>codec2_jni.c\<close> and \<^verbatim>\<open>fft.c\<close>, and the memory.\<close>

record process =
  codec2 :: "nat option"
  g_fin :: "nat option"
  g_fout :: "nat option"
  g_cfg_forward :: "nat option"
  g_cfg_reverse :: "nat option"
  mem :: memory

subsection \<open>The Fourier transform\<close>

text \<open>An allocation followed by \<^verbatim>\<open>assert(p != NULL)\<close>.\<close>

definition malloc_assert :: "block \<Rightarrow> memory \<Rightarrow> (nat \<times> memory) codec_outcome" where
  "malloc_assert b m = (case malloc b m of (None, _) \<Rightarrow> Aborted | (Some p, m) \<Rightarrow> Done (p, m))"

definition allocate_fft :: "process \<Rightarrow> process codec_outcome" where
  "allocate_fft s =
     on_done (malloc_assert Fft_Array (mem s)) (\<lambda>(p1, m).
     on_done (malloc_assert Fft_Array m) (\<lambda>(p2, m).
     on_done (malloc_assert Fft_Config m) (\<lambda>(p3, m).
     on_done (malloc_assert Fft_Config m) (\<lambda>(p4, m).
     Done (s\<lparr>g_fin := Some p1, g_fout := Some p2, g_cfg_forward := Some p3, g_cfg_reverse := Some p4, mem := m\<rparr>)))))"

definition is_block :: "process \<Rightarrow> nat option \<Rightarrow> block \<Rightarrow> bool" where
  "is_block s p b = (case p of None \<Rightarrow> False | Some a \<Rightarrow> blocks (mem s) a = Some b)"

text \<open>A call of \<^verbatim>\<open>fft\<close>, all with 512 points: the first one allocates, and every one uses the arrays and a configuration.\<close>

definition fft_live :: "process \<Rightarrow> bool" where
  "fft_live s \<longleftrightarrow> is_block s (g_fin s) Fft_Array \<and> is_block s (g_fout s) Fft_Array \<and> is_block s (g_cfg_forward s) Fft_Config \<and>
     is_block s (g_cfg_reverse s) Fft_Config"

definition call_fft :: "process \<Rightarrow> process codec_outcome" where
  "call_fft s =
     on_done (if g_cfg_forward s = None then allocate_fft s else Done s) (\<lambda>s. if fft_live s then Done s else Fault)"

subsection \<open>Creation and destruction\<close>

definition nlp_create :: "memory \<Rightarrow> nat option \<times> memory" where
  "nlp_create m = malloc Nlp m"

definition nlp_destroy :: "nat option \<Rightarrow> memory \<Rightarrow> memory codec_outcome" where
  "nlp_destroy nlp_state m =
     (case nlp_state of None \<Rightarrow> Aborted | Some n \<Rightarrow> (case free_block n m of None \<Rightarrow> Fault | Some m \<Rightarrow> Done m))"

abbreviation (input) NW :: nat where "NW \<equiv> 279"
abbreviation (input) FFT_ENC :: int where "FFT_ENC \<equiv> 512"

text \<open>The time domain window of \<^verbatim>\<open>make_analysis_window\<close>; it goes on to transform it with \<^verbatim>\<open>fft\<close>.\<close>

definition analysis_window :: "libm \<Rightarrow> fl list" where
  "analysis_window math =
     (let lo = M_SAMPLES div 2 - NW div 2;
          hi = M_SAMPLES div 2 + NW div 2;
          half = decimal double 5 1;
          w = map (\<lambda>i. if lo \<le> i \<and> i < hi
                then single_of (fl_sub double half (fl_mul double half
                       (cos_m math (fl_div double (fl_mul double TWO_PI (d_int (int (i - lo)))) (d_int (int NW - 1))))))
                else single_of (d_int 0)) [0..<M_SAMPLES];
          m = foldl (\<lambda>m i. fl_add single m (fl_mul single (w ! i) (w ! i))) (single_of (d_int 0)) [lo..<hi];
          m = single_of (fl_div double (d_int 1) (sqrt_m math (double_of (fl_mul single m (f_int FFT_ENC)))))
      in map (\<lambda>x. fl_mul single x m) w)"

definition codec2_create :: "libm \<Rightarrow> process \<Rightarrow> (nat option \<times> process) codec_outcome" where
  "codec2_create math s =
     (let c = \<lparr>c2_Sn = replicate M_SAMPLES (f_int 1), c2_w = analysis_window math, c2_nlp = None\<rparr>
      in case malloc (Codec c) (mem s) of
        (None, m) \<Rightarrow> Done (None, s\<lparr>mem := m\<rparr>)
      | (Some c2, m) \<Rightarrow>
          on_done (call_fft (s\<lparr>mem := m\<rparr>)) (\<lambda>s.
          case nlp_create (mem s) of
            (None, m) \<Rightarrow> (case free_block c2 m of None \<Rightarrow> Fault | Some m \<Rightarrow> Done (None, s\<lparr>mem := m\<rparr>))
          | (Some n, m) \<Rightarrow> Done (Some c2, s\<lparr>mem := m\<lparr>blocks := (blocks m)(c2 \<mapsto> Codec (c\<lparr>c2_nlp := Some n\<rparr>))\<rparr>\<rparr>)))"

definition codec2_destroy :: "nat option \<Rightarrow> memory \<Rightarrow> memory codec_outcome" where
  "codec2_destroy codec2_state m =
     (case codec2_state of
        None \<Rightarrow> Aborted
      | Some p \<Rightarrow>
          (case blocks m p of
             Some (Codec c) \<Rightarrow>
               on_done (nlp_destroy (c2_nlp c) m) (\<lambda>m. case free_block p m of None \<Rightarrow> Fault | Some m \<Rightarrow> Done m)
           | _ \<Rightarrow> Fault))"

subsection \<open>Encoding and decoding\<close>

text \<open>
  What the analysis of the two halves of a frame found: the fundamental frequency of the second and the voicing of both;
  and what the uninitialised locals held.
\<close>

record analysis =
  found_Wo :: fl
  found_voiced1 :: u32
  found_voiced2 :: u32
  junk_lsps :: "fl list"
  junk_se :: fl

text \<open>
  \<^verbatim>\<open>analyse_one_frame\<close> moves each half into the window, calls \<^verbatim>\<open>fft\<close> and the pitch predictor; then the parameters are
  quantised and packed into \<open>bits\<close>. The analysis \<open>None\<close> and an undefined conversion of the quantisers are undefined.
\<close>

definition codec2_encode :: "libm \<Rightarrow> analysis option \<Rightarrow> nat \<Rightarrow> octets \<Rightarrow> u16 list \<Rightarrow> process \<Rightarrow> (octets \<times> process) codec_outcome" where
  "codec2_encode math found c2 bits speech s =
     (case blocks (mem s) c2 of
        Some (Codec c) \<Rightarrow>
          on_done (call_fft s) (\<lambda>s.
          if \<not> is_block s (c2_nlp c) Nlp then Fault
          else
            (case found of
               None \<Rightarrow> Undefined
             | Some a \<Rightarrow>
                 (let Sn = read_speech (read_speech (c2_Sn c) (take N_SAMPLES speech)) (drop N_SAMPLES speech)
                  in case encode_model math (junk_lsps a) (junk_se a) (found_Wo a) (found_voiced1 a) (found_voiced2 a) Sn (c2_w c) bits of
                       None \<Rightarrow> Undefined
                     | Some bits \<Rightarrow> Done (bits, s\<lparr>mem := (mem s)\<lparr>blocks := (blocks (mem s))(c2 \<mapsto> Codec (c\<lparr>c2_Sn := Sn\<rparr>))\<rparr>\<rparr>))))
      | _ \<Rightarrow> Fault)"

text \<open>The model of the frame is decoded; the synthesis calls \<^verbatim>\<open>fft\<close> and makes the samples, or is undefined.\<close>

definition codec2_decode :: "libm \<Rightarrow> u16 list option \<Rightarrow> nat \<Rightarrow> octets \<Rightarrow> process \<Rightarrow> (u16 list \<times> process) codec_outcome" where
  "codec2_decode math synthesised c2 bits s =
     (case blocks (mem s) c2 of
        Some (Codec c) \<Rightarrow>
          (case decode_model math bits of
             None \<Rightarrow> Undefined
           | Some _ \<Rightarrow>
               on_done (call_fft s) (\<lambda>s. case synthesised of None \<Rightarrow> Undefined | Some speech \<Rightarrow> Done (speech, s)))
      | _ \<Rightarrow> Fault)"

subsection \<open>The native methods\<close>

abbreviation (input) CODEC2_SAMPLES_PER_FRAME :: nat where "CODEC2_SAMPLES_PER_FRAME \<equiv> 160"
abbreviation (input) BYTES_SIZE :: nat where "BYTES_SIZE \<equiv> (50 + 7) div 8"

definition codec2Init :: "libm \<Rightarrow> process \<Rightarrow> (nat \<times> process) codec_outcome" where
  "codec2Init math s =
     on_done (codec2_create math s) (\<lambda>(p, s).
     let s = s\<lparr>codec2 := p\<rparr> in case codec2 s of None \<Rightarrow> Done (1, s) | Some _ \<Rightarrow> Done (0, s))"

text \<open>
  \<open>got\<close> is what \<^verbatim>\<open>GetShortArrayElements\<close> or \<^verbatim>\<open>GetByteArrayElements\<close> returns: null, or the elements of the array.
  \<open>output_bytes\<close> is what the array on the stack held. \<^verbatim>\<open>SetByteArrayRegion\<close> and \<^verbatim>\<open>SetShortArrayRegion\<close> leave a shorter array
  as it is and raise an exception in Java.
\<close>

definition codec2Encode ::
  "libm \<Rightarrow> analysis option \<Rightarrow> octets \<Rightarrow> u16 list option \<Rightarrow> octets \<Rightarrow> process \<Rightarrow> (nat \<times> octets \<times> process) codec_outcome" where
  "codec2Encode math found output_bytes got output s =
     (case codec2 s of
        None \<Rightarrow> Done (1, output, s)
      | Some p \<Rightarrow>
          (case got of
             None \<Rightarrow> Fault
           | Some buffer \<Rightarrow>
               if length buffer < CODEC2_SAMPLES_PER_FRAME then Fault
               else
                 on_done (codec2_encode math found p output_bytes (take CODEC2_SAMPLES_PER_FRAME buffer) s) (\<lambda>(bytes, s).
                 Done (0, if length output < BYTES_SIZE then output else take BYTES_SIZE bytes @ drop BYTES_SIZE output, s))))"

definition codec2Decode ::
  "libm \<Rightarrow> u16 list option \<Rightarrow> octets option \<Rightarrow> u16 list \<Rightarrow> process \<Rightarrow> (nat \<times> u16 list \<times> process) codec_outcome" where
  "codec2Decode math synthesised got output s =
     (case codec2 s of
        None \<Rightarrow> Done (1, output, s)
      | Some p \<Rightarrow>
          (case got of
             None \<Rightarrow> Fault
           | Some buffer \<Rightarrow>
               if length buffer < BYTES_SIZE then Fault
               else
                 on_done (codec2_decode math synthesised p (take BYTES_SIZE buffer) s) (\<lambda>(speech, s).
                 Done (0, if length output < CODEC2_SAMPLES_PER_FRAME then output
                   else take CODEC2_SAMPLES_PER_FRAME speech @ drop CODEC2_SAMPLES_PER_FRAME output, s))))"

definition codec2Release :: "process \<Rightarrow> process codec_outcome" where
  "codec2Release s = on_done (codec2_destroy (codec2 s) (mem s)) (\<lambda>m. Done (s\<lparr>mem := m\<rparr>))"

subsection \<open>Sequences of calls\<close>

datatype codec_call =
    Init
  | Encode "analysis option" octets "u16 list option" octets
  | Decode "u16 list option" "octets option" "u16 list"
  | Release

fun call_step :: "libm \<Rightarrow> codec_call \<Rightarrow> process \<Rightarrow> process codec_outcome" where
  "call_step math Init s = on_done (codec2Init math s) (\<lambda>(_, s). Done s)"
| "call_step math (Encode found bytes got out) s = on_done (codec2Encode math found bytes got out s) (\<lambda>(_, _, s). Done s)"
| "call_step math (Decode synthesised got out) s = on_done (codec2Decode math synthesised got out s) (\<lambda>(_, _, s). Done s)"
| "call_step math Release s = codec2Release s"

fun calls :: "libm \<Rightarrow> codec_call list \<Rightarrow> process \<Rightarrow> process codec_outcome" where
  "calls math [] s = Done s"
| "calls math (c # cs) s = on_done (call_step math c s) (calls math cs)"

lemma calls_append: "calls math (cs @ ds) s = on_done (calls math cs s) (calls math ds)"
proof (induction cs arbitrary: s)
  case (Cons c cs)
  show ?case by (cases "call_step math c s") (simp_all add: Cons.IH)
qed simp

text \<open>Calls on arrays that are there and long enough.\<close>

fun work_call :: "codec_call \<Rightarrow> bool" where
  "work_call (Encode found bytes (Some b) out) = (CODEC2_SAMPLES_PER_FRAME \<le> length b \<and> length bytes = BYTES_SIZE)"
| "work_call (Decode synthesised (Some b) out) = (BYTES_SIZE \<le> length b)"
| "work_call c = False"

text \<open>Decodings whose synthesis is defined.\<close>

fun listen_call :: "codec_call \<Rightarrow> bool" where
  "listen_call (Decode (Some speech) (Some b) out) = (BYTES_SIZE \<le> length b)"
| "listen_call c = False"

text \<open>A session opens the codec, works with it and closes it.\<close>

definition session_calls :: "codec_call list \<Rightarrow> codec_call list" where
  "session_calls cs = Init # cs @ [Release]"

text \<open>Blocks are below the next address; the Fourier transform is not initialised, or its blocks are live.\<close>

definition memory_ok :: "memory \<Rightarrow> bool" where
  "memory_ok m \<longleftrightarrow> (\<forall>p. fresh m \<le> p \<longrightarrow> blocks m p = None)"

definition fft_state :: "process \<Rightarrow> bool" where
  "fft_state s \<longleftrightarrow> g_cfg_forward s = None \<or> fft_live s"

text \<open>The blocks of the transform, and how many of them a process still has to allocate.\<close>

definition fft_map :: "process \<Rightarrow> nat \<rightharpoonup> block" where
  "fft_map s = [the (g_fin s) \<mapsto> Fft_Array, the (g_fout s) \<mapsto> Fft_Array, the (g_cfg_forward s) \<mapsto> Fft_Config, the (g_cfg_reverse s) \<mapsto> Fft_Config]"

definition fft_need :: "process \<Rightarrow> nat" where
  "fft_need s = (if g_cfg_forward s = None then 4 else 0)"

lemma fft_fields [simp]:
  "fft_map (s\<lparr>mem := m\<rparr>) = fft_map s" "fft_map (s\<lparr>codec2 := p\<rparr>) = fft_map s" "fft_live (s\<lparr>codec2 := p\<rparr>) = fft_live s"
  "fft_need (s\<lparr>mem := m\<rparr>) = fft_need s" "fft_need (s\<lparr>codec2 := p\<rparr>) = fft_need s"
  by (simp_all add: fft_map_def fft_live_def fft_need_def is_block_def split: option.splits)

lemma fft_live_initialised: "fft_live s \<Longrightarrow> fft_need s = 0"
  by (simp add: fft_live_def is_block_def fft_need_def split: option.splits)

lemma fft_live_kept:
  assumes "fft_live s" "g_fin s' = g_fin s" "g_fout s' = g_fout s" "g_cfg_forward s' = g_cfg_forward s" "g_cfg_reverse s' = g_cfg_reverse s"
    and "\<And>a b. blocks (mem s) a = Some b \<Longrightarrow> b = Fft_Array \<or> b = Fft_Config \<Longrightarrow> blocks (mem s') a = Some b"
  shows "fft_live s'"
  using assms by (auto simp: fft_live_def is_block_def split: option.splits)

lemma fft_live_map: "fft_live s \<Longrightarrow> blocks (mem s) ++ fft_map s = blocks (mem s)"
  by (auto simp: fft_live_def is_block_def fft_map_def fun_eq_iff map_add_def split: option.splits)

lemma call_fft_live: "fft_live s \<Longrightarrow> call_fft s = Done s"
  using fft_live_initialised [of s] by (auto simp: call_fft_def fft_need_def split: if_splits)

text \<open>The first call of \<^verbatim>\<open>fft\<close> takes four blocks, or ends the process; a later one takes nothing.\<close>

lemma call_fft_first:
  assumes "memory_ok (mem s)" "fft_state s" "fft_need s \<le> room (mem s)"
  shows "\<exists>s'. call_fft s = Done s' \<and> fft_live s' \<and> memory_ok (mem s') \<and> codec2 s' = codec2 s \<and>
    blocks (mem s') = blocks (mem s) ++ fft_map s' \<and> room (mem s') + fft_need s = room (mem s) \<and>
    dom (fft_map s') \<inter> dom (blocks (mem s)) = (if fft_need s = 0 then dom (fft_map s') else {}) \<and>
    (fft_need s = 0 \<longrightarrow> s' = s)"
proof (cases "g_cfg_forward s = None")
  case False
  with assms(2) have "fft_live s" by (simp add: fft_state_def)
  moreover have "dom (fft_map s) \<subseteq> dom (blocks (mem s))" using fft_live_map [OF calculation] by (metis dom_map_add Un_upper1)
  ultimately show ?thesis using assms call_fft_live fft_live_map [of s] fft_live_initialised [of s] by auto
next
  case True
  let ?p = "fresh (mem s)"
  have r: "4 \<le> room (mem s)" using assms(3) True by (simp add: fft_need_def)
  have f: "blocks (mem s) (?p + k) = None" for k using assms(1) by (simp add: memory_ok_def)
  let ?s = "s\<lparr>g_fin := Some ?p, g_fout := Some (?p + 1), g_cfg_forward := Some (?p + 2), g_cfg_reverse := Some (?p + 3),
      mem := (mem s)\<lparr>fresh := ?p + 4, room := room (mem s) - 4,
        blocks := (blocks (mem s))(?p \<mapsto> Fft_Array, ?p + 1 \<mapsto> Fft_Array, ?p + 2 \<mapsto> Fft_Config, ?p + 3 \<mapsto> Fft_Config)\<rparr>\<rparr>"
  have a: "allocate_fft s = Done ?s" using r by (simp add: allocate_fft_def malloc_assert_def malloc_def numeral_eq_Suc)
  have l: "fft_live ?s" by (simp add: fft_live_def is_block_def)
  have "blocks (mem ?s) = blocks (mem s) ++ fft_map ?s" by (auto simp: fft_map_def fun_eq_iff map_add_def)
  moreover have "dom (fft_map ?s) \<inter> dom (blocks (mem s)) = {}" using f [of 0] f [of 1] f [of 2] f [of 3] by (auto simp: fft_map_def)
  moreover have "memory_ok (mem ?s)" using assms(1) by (auto simp: memory_ok_def)
  ultimately show ?thesis using a l r True by (intro exI [of _ ?s]) (simp add: call_fft_def fft_need_def)
qed

lemma call_fft_short: "fft_need s = 4 \<Longrightarrow> room (mem s) < 4 \<Longrightarrow> call_fft s = Aborted"
proof -
  assume a: "fft_need s = 4" "room (mem s) < 4"
  then consider "room (mem s) = 0" | "room (mem s) = 1" | "room (mem s) = 2" | "room (mem s) = 3" by linarith
  then show "call_fft s = Aborted" using a(1)
    by cases (simp_all add: call_fft_def allocate_fft_def malloc_assert_def malloc_def fft_need_def split: if_splits)
qed

subsection \<open>An open codec\<close>

text \<open>
  The codec is open over the blocks \<open>B\<close> and the blocks of the transform: its state and its pitch predictor are live, are
  all that was added, and the state has the analysis window.
\<close>

definition opened :: "libm \<Rightarrow> (nat \<rightharpoonup> block) \<Rightarrow> nat \<Rightarrow> process \<Rightarrow> bool" where
  "opened math B r s \<longleftrightarrow> (\<exists>p n c. codec2 s = Some p \<and> c2_nlp c = Some n \<and> c2_w c = analysis_window math \<and> p \<noteq> n \<and>
     (B ++ fft_map s) p = None \<and> (B ++ fft_map s) n = None \<and> blocks (mem s) = (B ++ fft_map s)(p \<mapsto> Codec c, n \<mapsto> Nlp) \<and>
     room (mem s) + 2 = r \<and> memory_ok (mem s) \<and> fft_live s)"

text \<open>The first block of \<^verbatim>\<open>codec2_create\<close> is allocated.\<close>

lemma create_first:
  fixes math :: libm and s :: process
  assumes "memory_ok (mem s)" "fft_state s" "fft_need s < room (mem s)"
  defines "p \<equiv> fresh (mem s)" and "c \<equiv> Codec \<lparr>c2_Sn = replicate M_SAMPLES (f_int 1), c2_w = analysis_window math, c2_nlp = None\<rparr>"
  shows "\<exists>m s1. malloc c (mem s) = (Some p, m) \<and> call_fft (s\<lparr>mem := m\<rparr>) = Done s1 \<and> fft_live s1 \<and> memory_ok (mem s1) \<and>
    blocks (mem s1) = (blocks (mem s) ++ fft_map s1)(p \<mapsto> c) \<and> (blocks (mem s) ++ fft_map s1) p = None \<and>
    room (mem s1) + fft_need s + 1 = room (mem s) \<and> (fft_need s = 0 \<longrightarrow> fft_map s1 = fft_map s)"
proof -
  define m where "m = (mem s)\<lparr>fresh := p + 1, room := room (mem s) - 1, blocks := (blocks (mem s))(p \<mapsto> c)\<rparr>"
  have a: "malloc c (mem s) = (Some p, m)" using assms(3) by (simp add: malloc_def m_def p_def)
  have new: "blocks (mem s) p = None" using assms(1) by (simp add: memory_ok_def p_def)
  have ok: "memory_ok (mem (s\<lparr>mem := m\<rparr>))" using assms(1) by (auto simp: memory_ok_def m_def p_def)
  have "fft_live (s\<lparr>mem := m\<rparr>)" if "fft_live s" by (rule fft_live_kept [OF that]) (use new in \<open>auto simp: m_def\<close>)
  then have st: "fft_state (s\<lparr>mem := m\<rparr>)" using assms(2) by (auto simp: fft_state_def)
  obtain s1 where s1: "call_fft (s\<lparr>mem := m\<rparr>) = Done s1" "fft_live s1" "memory_ok (mem s1)" "blocks (mem s1) = (blocks (mem s))(p \<mapsto> c) ++ fft_map s1"
      "room (mem s1) + fft_need s = room (mem s) - 1" "fft_need s = 0 \<longrightarrow> s1 = s\<lparr>mem := m\<rparr>"
      "dom (fft_map s1) \<inter> dom (blocks m) = (if fft_need s = 0 then dom (fft_map s1) else {})"
  proof -
    have "fft_need (s\<lparr>mem := m\<rparr>) \<le> room (mem (s\<lparr>mem := m\<rparr>))" using assms(3) by (simp add: m_def)
    from call_fft_first [OF ok st this] show ?thesis using that by (auto simp: m_def)
  qed
  have q: "p \<notin> dom (fft_map s1)"
  proof (cases "fft_need s = 0")
    case True
    then have "fft_live s" using assms(2) by (simp add: fft_state_def fft_need_def split: if_splits)
    then have "fft_map s p = None" using fft_live_map [of s] new by (metis map_add_None)
    then show ?thesis using True s1(6) by auto
  next
    case False
    then show ?thesis using s1(7) by (auto simp: m_def)
  qed
  then have "blocks (mem s1) = (blocks (mem s) ++ fft_map s1)(p \<mapsto> c)" "(blocks (mem s) ++ fft_map s1) p = None"
    using new by (simp_all add: s1(4) map_add_upd_left domIff)
  then show ?thesis using a s1 assms(3) by (intro exI [of _ m] exI [of _ s1]) auto
qed

lemma create_opens:
  assumes "memory_ok (mem s)" "fft_state s" "fft_need s + 2 \<le> room (mem s)"
  shows "\<exists>s'. call_step math Init s = Done s' \<and> opened math (blocks (mem s)) (room (mem s) - fft_need s) s' \<and>
    (fft_need s = 0 \<longrightarrow> fft_map s' = fft_map s)"
proof -
  let ?p = "fresh (mem s)" let ?c = "\<lparr>c2_Sn = replicate M_SAMPLES (f_int 1), c2_w = analysis_window math, c2_nlp = None\<rparr>"
  obtain m s1 where 1: "malloc (Codec ?c) (mem s) = (Some ?p, m)" "call_fft (s\<lparr>mem := m\<rparr>) = Done s1" "fft_live s1" "memory_ok (mem s1)"
      "blocks (mem s1) = (blocks (mem s) ++ fft_map s1)(?p \<mapsto> Codec ?c)" "(blocks (mem s) ++ fft_map s1) ?p = None"
      "room (mem s1) + fft_need s + 1 = room (mem s)" "fft_need s = 0 \<longrightarrow> fft_map s1 = fft_map s"
    using create_first [OF assms(1,2), of math] assms(3) by auto
  let ?n = "fresh (mem s1)"
  have n: "blocks (mem s1) ?n = None" using 1(4) by (simp add: memory_ok_def)
  then have ne: "?n \<noteq> ?p" "(blocks (mem s) ++ fft_map s1) ?n = None" using 1(5) by (auto split: if_splits)
  let ?s = "s1\<lparr>codec2 := Some ?p, mem := (mem s1)\<lparr>fresh := ?n + 1, room := room (mem s1) - 1,
      blocks := (blocks (mem s1))(?n \<mapsto> Nlp, ?p \<mapsto> Codec (?c\<lparr>c2_nlp := Some ?n\<rparr>))\<rparr>\<rparr>"
  have "call_step math Init s = Done ?s"
    using 1(1,2,7) assms(3) by (simp add: codec2Init_def codec2_create_def nlp_create_def malloc_def Let_def)
  moreover have "opened math (blocks (mem s)) (room (mem s) - fft_need s) ?s"
  proof -
    have "fft_live ?s" by (rule fft_live_kept [OF 1(3)]) (use n in \<open>auto simp: 1(5) split: if_splits\<close>)
    moreover have "?p < ?n" using 1(4,5) unfolding memory_ok_def by (metis fun_upd_same not_le option.distinct(1))
    then have "memory_ok (mem ?s)" using 1(4) by (auto simp: memory_ok_def)
    ultimately show ?thesis using 1(5-7) ne assms(3)
      by (auto simp: opened_def fun_upd_twist intro!: exI [of _ ?p] exI [of _ ?n] exI [of _ "?c\<lparr>c2_nlp := Some ?n\<rparr>"])
  qed
  ultimately show ?thesis using 1(8) by auto
qed

text \<open>Memory too short to open the codec.\<close>

lemma create_null: "room (mem s) = 0 \<Longrightarrow> codec2Init math s = Done (1, s\<lparr>codec2 := None\<rparr>)"
  by (simp add: codec2Init_def codec2_create_def malloc_def Let_def)

lemma create_aborts:
  assumes "fft_need s = 4" "0 < room (mem s)" "room (mem s) \<le> 4"
  shows "codec2Init math s = Aborted"
proof -
  let ?c = "Codec \<lparr>c2_Sn = replicate M_SAMPLES (f_int 1), c2_w = analysis_window math, c2_nlp = None\<rparr>"
  have "call_fft (s\<lparr>mem := (mem s)\<lparr>fresh := fresh (mem s) + 1, room := room (mem s) - 1, blocks := (blocks (mem s))(fresh (mem s) \<mapsto> ?c)\<rparr>\<rparr>) = Aborted"
    by (rule call_fft_short) (use assms in simp_all)
  then show ?thesis using assms(2) by (simp add: codec2Init_def codec2_create_def malloc_def Let_def)
qed

lemma create_leaks:
  assumes "memory_ok (mem s)" "fft_state s" "room (mem s) = fft_need s + 1"
  shows "\<exists>s'. codec2Init math s = Done (1, s') \<and> codec2 s' = None \<and> blocks (mem s') = blocks (mem s) ++ fft_map s' \<and> room (mem s') = 1"
proof -
  let ?p = "fresh (mem s)" let ?c = "\<lparr>c2_Sn = replicate M_SAMPLES (f_int 1), c2_w = analysis_window math, c2_nlp = None\<rparr>"
  obtain m s1 where 1: "malloc (Codec ?c) (mem s) = (Some ?p, m)" "call_fft (s\<lparr>mem := m\<rparr>) = Done s1"
      "blocks (mem s1) = (blocks (mem s) ++ fft_map s1)(?p \<mapsto> Codec ?c)" "(blocks (mem s) ++ fft_map s1) ?p = None"
      "room (mem s1) + fft_need s + 1 = room (mem s)"
    using create_first [OF assms(1,2), of math] assms(3) by auto
  let ?s = "s1\<lparr>codec2 := None, mem := (mem s1)\<lparr>room := 1, blocks := (blocks (mem s1))(?p := None)\<rparr>\<rparr>"
  have "codec2Init math s = Done (1, ?s)"
    using 1 assms(3) by (simp add: codec2Init_def codec2_create_def nlp_create_def malloc_def [of Nlp] free_block_def Let_def)
  moreover have "blocks (mem ?s) = blocks (mem s) ++ fft_map s1" using 1(3,4) by (simp add: fun_upd_idem)
  ultimately show ?thesis by auto
qed

text \<open>Work with an open codec: it stays open, or the computation is undefined, which a decoding that is defined is not.\<close>

lemma opened_update:
  assumes "codec2 s = Some p" "c2_nlp c = Some n" "c2_w c = analysis_window math" "p \<noteq> n" "(B ++ fft_map s) p = None" "(B ++ fft_map s) n = None"
    and "blocks (mem s) = (B ++ fft_map s)(p \<mapsto> Codec d, n \<mapsto> Nlp)" "room (mem s) + 2 = r" "memory_ok (mem s)" "fft_live s"
  shows "opened math B r (s\<lparr>mem := (mem s)\<lparr>blocks := (blocks (mem s))(p \<mapsto> Codec c)\<rparr>\<rparr>)"
proof -
  let ?s = "s\<lparr>mem := (mem s)\<lparr>blocks := (blocks (mem s))(p \<mapsto> Codec c)\<rparr>\<rparr>"
  have d: "blocks (mem s) p = Some (Codec d)" using assms(4,7) by simp
  have "fft_live ?s" by (rule fft_live_kept [OF assms(10)]) (use d in auto)
  moreover have "memory_ok (mem ?s)" using assms(9) d by (auto simp: memory_ok_def)
  ultimately show ?thesis using assms(1-8)
    by (auto simp: opened_def fun_upd_twist intro!: exI [of _ p] exI [of _ n] exI [of _ c])
qed

lemma work_keeps_open:
  assumes "opened math B r s" "work_call c"
  shows "call_step math c s = Undefined \<and> \<not> listen_call c \<or> (\<exists>s'. call_step math c s = Done s' \<and> opened math B r s' \<and> fft_map s' = fft_map s)"
proof -
  obtain p n d where s: "codec2 s = Some p" "c2_nlp d = Some n" "c2_w d = analysis_window math" "p \<noteq> n" "(B ++ fft_map s) p = None"
      "(B ++ fft_map s) n = None" "blocks (mem s) = (B ++ fft_map s)(p \<mapsto> Codec d, n \<mapsto> Nlp)" "room (mem s) + 2 = r" "memory_ok (mem s)" "fft_live s"
    using assms(1) unfolding opened_def by blast
  have b: "blocks (mem s) p = Some (Codec d)" "is_block s (Some n) Nlp" using s(4,7) by (simp_all add: is_block_def)
  note f = call_fft_live [OF s(10)]
  have up: "opened math B r (s\<lparr>mem := (mem s)\<lparr>blocks := (blocks (mem s))(p \<mapsto> Codec (d\<lparr>c2_Sn := x\<rparr>))\<rparr>\<rparr>)" for x
    by (rule opened_update [OF s(1) _ _ s(4-10)]) (simp_all add: s(2,3))
  from assms(2) show ?thesis
  proof (cases c rule: work_call.cases)
    case (1 found bytes got out)
    then show ?thesis using assms(2) s(1,2) b f up
      by (auto simp: codec2Encode_def codec2_encode_def Let_def split: option.splits)
  next
    case (2 synthesised got out)
    have "7 \<le> length (take 7 got)" using assms(2) 2 by simp
    then obtain x where "decode_model math (take 7 got) = Some x" using decode_model_defined [of "take 7 got" math] by blast
    then show ?thesis using 2 assms s(1) b f
      by (cases synthesised) (auto simp: codec2Decode_def codec2_decode_def)
  qed (use assms(2) in simp_all)
qed

lemma works_keep_open:
  "opened math B r s \<Longrightarrow> \<forall>c \<in> set cs. work_call c \<Longrightarrow>
     calls math cs s = Undefined \<and> (\<exists>c \<in> set cs. \<not> listen_call c) \<or>
     (\<exists>s'. calls math cs s = Done s' \<and> opened math B r s' \<and> fft_map s' = fft_map s)"
proof (induction cs arbitrary: s)
  case (Cons c cs)
  have w: "work_call c" "\<forall>c \<in> set cs. work_call c" using Cons.prems(2) by simp_all
  show ?case using work_keeps_open [OF Cons.prems(1) w(1)]
  proof (elim disjE conjE exE)
    fix s1 assume 1: "call_step math c s = Done s1" "opened math B r s1" "fft_map s1 = fft_map s"
    show ?case using Cons.IH [OF 1(2) w(2)] 1 by auto
  qed simp
qed simp

text \<open>What a session leaves: the blocks of the transform, and a pointer that names nothing.\<close>

definition after_session :: "process \<Rightarrow> process \<Rightarrow> bool" where
  "after_session s s' \<longleftrightarrow> memory_ok (mem s') \<and> fft_live s' \<and> blocks (mem s') = blocks (mem s) ++ fft_map s' \<and>
     room (mem s') + fft_need s = room (mem s) \<and> (fft_need s = 0 \<longrightarrow> fft_map s' = fft_map s) \<and>
     (\<exists>p. codec2 s' = Some p \<and> blocks (mem s') p = None)"

lemma release_dangles:
  assumes "opened math B r s"
  shows "\<exists>s'. call_step math Release s = Done s' \<and> memory_ok (mem s') \<and> fft_live s' \<and> blocks (mem s') = B ++ fft_map s' \<and>
    room (mem s') = r \<and> fft_map s' = fft_map s \<and> (\<exists>p. codec2 s' = Some p \<and> blocks (mem s') p = None)"
proof -
  obtain p n d where s: "codec2 s = Some p" "c2_nlp d = Some n" "p \<noteq> n" "(B ++ fft_map s) p = None"
      "(B ++ fft_map s) n = None" "blocks (mem s) = (B ++ fft_map s)(p \<mapsto> Codec d, n \<mapsto> Nlp)" "room (mem s) + 2 = r" "memory_ok (mem s)" "fft_live s"
    using assms unfolding opened_def by blast
  let ?s = "s\<lparr>mem := (mem s)\<lparr>room := r, blocks := B ++ fft_map s\<rparr>\<rparr>"
  have u: "((B ++ fft_map s)(p \<mapsto> Codec d, n \<mapsto> Nlp))(n := None, p := None) = B ++ fft_map s"
    using s(3-5) by (intro ext) (simp del: map_add_None)
  have "call_step math Release s = Done ?s"
    using s(1-3,7) u by (auto simp: codec2Release_def codec2_destroy_def nlp_destroy_def free_block_def s(6))
  moreover have "fft_live ?s" by (rule fft_live_kept [OF s(9)]) (auto simp: s(6) split: if_splits)
  moreover have "memory_ok (mem ?s)" using s(8) unfolding memory_ok_def s(6) by (auto split: if_splits)
  moreover have "blocks (mem ?s) p = None" using s(4) by simp
  ultimately show ?thesis using s(1) by auto
qed

lemma session_runs:
  assumes "memory_ok (mem s)" "fft_state s" "fft_need s + 2 \<le> room (mem s)" "\<forall>c \<in> set cs. work_call c"
  shows "calls math (session_calls cs) s = Undefined \<and> calls math (Init # cs) s = Undefined \<and> (\<exists>c \<in> set cs. \<not> listen_call c) \<or>
    (\<exists>s'. calls math (session_calls cs) s = Done s' \<and> after_session s s')"
proof -
  obtain s1 where 1: "call_step math Init s = Done s1" "opened math (blocks (mem s)) (room (mem s) - fft_need s) s1"
      "fft_need s = 0 \<longrightarrow> fft_map s1 = fft_map s"
    using create_opens [OF assms(1-3)] by blast
  show ?thesis using works_keep_open [OF 1(2) assms(4)]
  proof (elim disjE conjE exE)
    assume "calls math cs s1 = Undefined" "\<exists>c \<in> set cs. \<not> listen_call c"
    then show ?thesis using 1(1) by (simp add: session_calls_def calls_append del: call_step.simps)
  next
    fix s2 assume 2: "calls math cs s1 = Done s2" "opened math (blocks (mem s)) (room (mem s) - fft_need s) s2" "fft_map s2 = fft_map s1"
    obtain s3 where 3: "call_step math Release s2 = Done s3" "memory_ok (mem s3)" "fft_live s3" "blocks (mem s3) = blocks (mem s) ++ fft_map s3"
        "room (mem s3) = room (mem s) - fft_need s" "fft_map s3 = fft_map s2" "\<exists>p. codec2 s3 = Some p \<and> blocks (mem s3) p = None"
      using release_dangles [OF 2(2)] by blast
    then have "after_session s s3" using 1(3) 2(3) assms(3) by (auto simp: after_session_def)
    moreover have "calls math (session_calls cs) s = Done s3"
      using 1(1) 2(1) 3(1) by (simp add: session_calls_def calls_append del: call_step.simps)
    ultimately show ?thesis by blast
  qed
qed

lemma after_session_trans:
  assumes "after_session s t" "after_session t u"
  shows "after_session s u"
proof -
  have z: "fft_need t = 0" using assms(1) fft_live_initialised by (simp add: after_session_def)
  have "(m ++ F) ++ F = m ++ F" for m F :: "nat \<rightharpoonup> block" by (auto simp: map_add_def fun_eq_iff split: option.splits)
  then have "blocks (mem u) = blocks (mem s) ++ fft_map u" using assms z by (simp add: after_session_def)
  then show ?thesis using assms z unfolding after_session_def by (elim conjE) (intro conjI; (assumption | simp))
qed

lemma sessions_run:
  assumes "memory_ok (mem s)" "fft_state s" "fft_need s + 2 \<le> room (mem s)" "css \<noteq> []" "\<forall>cs \<in> set css. \<forall>c \<in> set cs. work_call c"
  shows "calls math (concat (map session_calls css)) s = Undefined \<and> (\<exists>cs \<in> set css. \<exists>c \<in> set cs. \<not> listen_call c) \<or>
    (\<exists>s'. calls math (concat (map session_calls css)) s = Done s' \<and> after_session s s')"
  using assms
proof (induction css arbitrary: s)
  case (Cons cs css)
  have w: "\<forall>c \<in> set cs. work_call c" "\<forall>cs \<in> set css. \<forall>c \<in> set cs. work_call c" using Cons.prems(5) by simp_all
  show ?case using session_runs [OF Cons.prems(1-3) w(1), of math]
  proof (elim disjE conjE exE)
    fix s1 assume 1: "calls math (session_calls cs) s = Done s1" "after_session s s1"
    then have t: "memory_ok (mem s1)" "fft_state s1" "fft_need s1 + 2 \<le> room (mem s1)"
      using Cons.prems(3) fft_live_initialised [of s1] by (auto simp: after_session_def fft_state_def)
    show ?case
    proof (cases "css = []")
      case False
      show ?thesis using Cons.IH [OF t False w(2)] 1 after_session_trans by (auto simp: calls_append)
    qed (use 1 in \<open>auto simp: calls_append\<close>)
  qed (auto simp: calls_append)
qed simp

text \<open>An encoding with an open codec, in terms of the window.\<close>

lemma encode_opened:
  assumes "codec2 s = Some p" "blocks (mem s) p = Some (Codec d)" "c2_nlp d = Some n" "blocks (mem s) n = Some Nlp" "fft_live s"
  defines "Sn \<equiv> read_speech (read_speech (c2_Sn d) (replicate N_SAMPLES 0)) (replicate N_SAMPLES 0)"
  shows "call_step math (Encode (Some a) bytes (Some (replicate 160 0)) out) s =
    (case encode_model math (junk_lsps a) (junk_se a) (found_Wo a) (found_voiced1 a) (found_voiced2 a) Sn (c2_w d) bytes of
       None \<Rightarrow> Undefined
     | Some _ \<Rightarrow> Done (s\<lparr>mem := (mem s)\<lparr>blocks := (blocks (mem s))(p \<mapsto> Codec (d\<lparr>c2_Sn := Sn\<rparr>))\<rparr>\<rparr>))"
  using assms(1-4) call_fft_live [OF assms(5)]
  by (simp add: codec2Encode_def codec2_encode_def is_block_def Let_def Sn_def split: option.split)

lemma silence_opened:
  assumes o: "opened math B r s" and w: "\<forall>i < M_SAMPLES. fl_finite (analysis_window math ! i)" and nan: "log10_m math NaN = NaN"
    and junk: "length (junk_lsps a2) = LPC_ORD"
  shows "calls math [Encode (Some a1) bytes1 (Some (replicate 160 0)) out1, Encode (Some a2) bytes2 (Some (replicate 160 0)) out2] s = Undefined"
proof -
  obtain p n d where s: "codec2 s = Some p" "c2_nlp d = Some n" "c2_w d = analysis_window math" "p \<noteq> n"
      "blocks (mem s) = (B ++ fft_map s)(p \<mapsto> Codec d, n \<mapsto> Nlp)" "fft_live s"
    using o unfolding opened_def by blast
  have b: "blocks (mem s) p = Some (Codec d)" "blocks (mem s) n = Some Nlp" using s(4,5) by simp_all
  let ?q = "\<lambda>Sn. read_speech Sn (replicate N_SAMPLES 0)"
  let ?s = "s\<lparr>mem := (mem s)\<lparr>blocks := (blocks (mem s))(p \<mapsto> Codec (d\<lparr>c2_Sn := ?q (?q (c2_Sn d))\<rparr>))\<rparr>\<rparr>"
  have 1: "call_step math (Encode (Some a1) bytes1 (Some (replicate 160 0)) out1) s \<in> {Undefined, Done ?s}"
    unfolding encode_opened [OF s(1) b(1) s(2) b(2) s(6)] by (simp split: option.split)
  have l: "fft_live ?s" by (rule fft_live_kept [OF s(6)]) (use b in auto)
  have "encode_model math (junk_lsps a2) (junk_se a2) (found_Wo a2) (found_voiced1 a2) (found_voiced2 a2)
      (?q (?q (?q (?q (c2_Sn d))))) (analysis_window math) bytes2 = None"
    using silent_window [OF w nan junk, of "c2_Sn d"] by blast
  then have "call_step math (Encode (Some a2) bytes2 (Some (replicate 160 0)) out2) ?s = Undefined"
    using encode_opened [of ?s p "d\<lparr>c2_Sn := ?q (?q (c2_Sn d))\<rparr>" n] s b l by (simp del: call_step.simps)
  then show ?thesis using 1 by (auto simp del: call_step.simps)
qed

subsection \<open>Properties\<close>

text \<open>
  C36: the memory of the codec. With room for the two blocks of the codec and, in a process that has not used the Fourier
  transform yet, its four, any number of sessions one after the other, each opening the codec, encoding and decoding on
  arrays that are long enough, and closing it, never faults and never aborts: the calls run to their end, unless a
  computation is undefined, which no decoding of a received frame with a defined synthesis is; and afterwards exactly the
  four blocks of the transform, allocated by the first opening and never freed, are live beyond what was live before. When
  memory is short, opening reports failure if the first or the last block is missing, keeps the blocks of the transform
  in the latter case, a later encoding or decoding only reports failure, and closing aborts; if a block of the transform is
  missing, opening aborts.
\<close>

theorem codec_sessions_memory:
  assumes "memory_ok (mem s)" and "fft_state s"
  shows "(fft_need s + 2 \<le> room (mem s) \<longrightarrow> (\<forall>css. css \<noteq> [] \<and> (\<forall>cs \<in> set css. \<forall>c \<in> set cs. work_call c) \<longrightarrow>
      calls math (concat (map session_calls css)) s = Undefined \<and> (\<exists>cs \<in> set css. \<exists>c \<in> set cs. \<not> listen_call c) \<or>
      (\<exists>s'. calls math (concat (map session_calls css)) s = Done s' \<and>
        blocks (mem s') = blocks (mem s) ++ fft_map s' \<and> room (mem s') + fft_need s = room (mem s)))) \<and>
    (room (mem s) < fft_need s + 2 \<longrightarrow>
      (if room (mem s) = 0 \<or> room (mem s) = fft_need s + 1
       then \<exists>s'. codec2Init math s = Done (1, s') \<and>
         blocks (mem s') = (if room (mem s) = 0 then blocks (mem s) else blocks (mem s) ++ fft_map s') \<and>
         (\<forall>found bytes got out. codec2Encode math found bytes got out s' = Done (1, out, s')) \<and>
         (\<forall>synthesised got out. codec2Decode math synthesised got out s' = Done (1, out, s')) \<and> codec2Release s' = Aborted
       else codec2Init math s = Aborted))"
proof (intro conjI impI allI)
  fix css assume r: "fft_need s + 2 \<le> room (mem s)" and w: "css \<noteq> [] \<and> (\<forall>cs \<in> set css. \<forall>c \<in> set cs. work_call c)"
  show "calls math (concat (map session_calls css)) s = Undefined \<and> (\<exists>cs \<in> set css. \<exists>c \<in> set cs. \<not> listen_call c) \<or>
      (\<exists>s'. calls math (concat (map session_calls css)) s = Done s' \<and>
        blocks (mem s') = blocks (mem s) ++ fft_map s' \<and> room (mem s') + fft_need s = room (mem s))"
    using sessions_run [OF assms r, of css math] w unfolding after_session_def by blast
next
  assume short: "room (mem s) < fft_need s + 2"
  have closed: "(\<forall>found bytes got out. codec2Encode math found bytes got out s' = Done (1, out, s')) \<and>
      (\<forall>synthesised got out. codec2Decode math synthesised got out s' = Done (1, out, s')) \<and> codec2Release s' = Aborted"
    if "codec2 s' = None" for s'
    using that by (simp add: codec2Encode_def codec2Decode_def codec2Release_def codec2_destroy_def)
  consider "room (mem s) = 0" | "room (mem s) = fft_need s + 1" | "0 < room (mem s)" "room (mem s) \<le> 4" "fft_need s = 4"
  proof -
    have "room (mem s) = 0 \<or> room (mem s) = fft_need s + 1 \<or> 0 < room (mem s) \<and> room (mem s) \<le> 4 \<and> fft_need s = 4"
      using short by (cases "g_cfg_forward s = None") (simp_all add: fft_need_def, linarith+)
    then show ?thesis using that by blast
  qed
  then show "if room (mem s) = 0 \<or> room (mem s) = fft_need s + 1
       then \<exists>s'. codec2Init math s = Done (1, s') \<and>
         blocks (mem s') = (if room (mem s) = 0 then blocks (mem s) else blocks (mem s) ++ fft_map s') \<and>
         (\<forall>found bytes got out. codec2Encode math found bytes got out s' = Done (1, out, s')) \<and>
         (\<forall>synthesised got out. codec2Decode math synthesised got out s' = Done (1, out, s')) \<and> codec2Release s' = Aborted
       else codec2Init math s = Aborted"
  proof cases
    case 1
    then show ?thesis using create_null [OF 1, of math] closed [of "s\<lparr>codec2 := None\<rparr>"] by simp
  next
    case 2
    then show ?thesis using create_leaks [OF assms 2, of math] closed by auto
  next
    case 3
    then show ?thesis using create_aborts [OF 3(3,1,2), of math] by simp
  qed
qed

text \<open>A process at its start, with room for \<open>n\<close> blocks, and a mathematics library.\<close>

definition example_process :: "nat \<Rightarrow> process" where
  "example_process n = \<lparr>codec2 = None, g_fin = None, g_fout = None, g_cfg_forward = None, g_cfg_reverse = None,
     mem = \<lparr>fresh = 0, room = n, blocks = Map.empty\<rparr>\<rparr>"

definition example_libm :: libm where
  "example_libm = \<lparr>acos_m = (\<lambda>x. x), cos_m = (\<lambda>x. Zero False), log10_m = (\<lambda>x. x), pow_m = (\<lambda>x y. x), sin_m = (\<lambda>x. x),
     sqrt_m = (\<lambda>x. d_int 1), atan2_m = (\<lambda>x y. x)\<rparr>"

lemma example_process_ok: "memory_ok (mem (example_process n))" "fft_state (example_process n)" "fft_need (example_process n) = 4"
    "room (mem (example_process n)) = n" "blocks (mem (example_process n)) = Map.empty"
  by (simp_all add: example_process_def memory_ok_def fft_state_def fft_need_def)

theorem codec_sessions_memory_witness:
  "\<exists>s'. calls example_libm (concat (map session_calls [[Decode (Some (replicate 160 0)) (Some (replicate 7 0xff)) []], []])) (example_process 6) = Done s' \<and>
      blocks (mem s') = fft_map s' \<and> room (mem s') = 2 \<and> codec2Init example_libm (example_process 3) = Aborted"
  using conjunct1 [OF codec_sessions_memory [OF example_process_ok(1,2) [of 6], of example_libm], THEN mp, THEN spec,
      of "[[Decode (Some (replicate 160 0)) (Some (replicate 7 0xff)) []], []]"]
    conjunct2 [OF codec_sessions_memory [OF example_process_ok(1,2) [of 3], of example_libm]]
  by (simp add: example_process_ok)

text \<open>
  C37: the native methods keep a pointer to the released state. After any session that has run to its end, \<^verbatim>\<open>codec2Release\<close>
  has not cleared the global pointer: another encoding or decoding, whatever its arguments, passes the check for null and
  uses freed memory, and so does a second release.
\<close>

theorem codec_released_dangles:
  assumes "memory_ok (mem s)" and "fft_state s" and "fft_need s + 2 \<le> room (mem s)" and "\<forall>c \<in> set cs. work_call c"
    and "calls math (Init # cs) s \<noteq> Undefined"
  shows "calls math (session_calls cs @ [Release]) s = Fault \<and>
    (\<forall>found bytes got out. calls math (session_calls cs @ [Encode found bytes got out]) s = Fault) \<and>
    (\<forall>synthesised got out. calls math (session_calls cs @ [Decode synthesised got out]) s = Fault)"
proof -
  obtain s' p where d: "calls math (session_calls cs) s = Done s'" "codec2 s' = Some p" "blocks (mem s') p = None"
    using session_runs [OF assms(1-4), of math] assms(5) unfolding after_session_def by blast
  have e: "calls math (session_calls cs @ [c]) s = on_done (call_step math c s') Done" for c
    by (simp add: calls_append d(1)) (cases "call_step math c s'"; simp)
  show ?thesis unfolding e using d(2,3)
    by (auto simp: codec2Release_def codec2_destroy_def codec2Encode_def codec2_encode_def codec2Decode_def codec2_decode_def split: option.splits)
qed

theorem codec_released_dangles_witness: "calls example_libm [Init, Release, Release] (example_process 6) = Fault"
proof -
  have "calls example_libm [Init] (example_process 6) \<noteq> Undefined"
    using create_opens [OF example_process_ok(1,2) [of 6], of example_libm] by (auto simp: example_process_ok)
  from codec_released_dangles [OF example_process_ok(1,2) [of 6] _ _ this] show ?thesis by (simp add: example_process_ok session_calls_def del: calls.simps)
qed

text \<open>
  C24: digital silence in a call. Once the codec is open, after any calls, two encodings of 160 zero samples each, whatever
  the analysis found for them and whatever the uninitialised memory held, never complete: by the second one at the latest the
  energy of the frame is not a number and its conversion to an index is undefined. The cosine and square root are only assumed
  to give a finite analysis window, and the logarithm to map what is not a number to itself.
\<close>

theorem silent_call_undefined:
  assumes "memory_ok (mem s)" and "fft_state s" and "fft_need s + 2 \<le> room (mem s)" and "\<forall>c \<in> set cs. work_call c"
    and "\<forall>i < M_SAMPLES. fl_finite (analysis_window math ! i)" and "log10_m math NaN = NaN"
    and "length (junk_lsps a2) = LPC_ORD"
  shows "calls math (Init # cs @ [Encode (Some a1) bytes1 (Some (replicate 160 0)) out1, Encode (Some a2) bytes2 (Some (replicate 160 0)) out2]) s = Undefined"
proof -
  obtain s1 where 1: "call_step math Init s = Done s1" "opened math (blocks (mem s)) (room (mem s) - fft_need s) s1"
    using create_opens [OF assms(1-3)] by blast
  show ?thesis using works_keep_open [OF 1(2) assms(4)]
  proof (elim disjE conjE exE)
    fix s2 assume 2: "calls math cs s1 = Done s2" "opened math (blocks (mem s)) (room (mem s) - fft_need s) s2"
    show ?thesis using silence_opened [OF 2(2) assms(5-7)] 1(1) 2(1) by (simp add: calls_append del: call_step.simps)
  qed (use 1(1) in \<open>simp add: calls_append del: call_step.simps\<close>)
qed

lemma analysis_window_nth:
  assumes "i < M_SAMPLES" "\<And>x. cos_m math x = c" "\<And>x. sqrt_m math x = d"
  shows "analysis_window math ! i = fl_mul single (if M_SAMPLES div 2 - NW div 2 \<le> i \<and> i < M_SAMPLES div 2 + NW div 2
      then single_of (fl_sub double (decimal double 5 1) (fl_mul double (decimal double 5 1) c)) else single_of (d_int 0))
    (single_of (fl_div double (d_int 1) d))"
proof -
  have l: "i < length (map f [0..<M_SAMPLES])" "i < length [0..<M_SAMPLES]" for f :: "nat \<Rightarrow> fl" using assms(1) by simp_all
  have u: "[0..<M_SAMPLES] ! i = i" using assms(1) by simp
  show ?thesis unfolding analysis_window_def Let_def assms(2,3) by (simp only: nth_map [OF l(1)] nth_map [OF l(2)] u)
qed

theorem silent_call_undefined_witness:
  "calls example_libm [Init, Encode (Some \<lparr>found_Wo = f_int 1, found_voiced1 = 0, found_voiced2 = 1, junk_lsps = replicate 10 NaN, junk_se = NaN\<rparr>)
      (replicate 7 1) (Some (replicate 160 0)) [],
    Encode (Some \<lparr>found_Wo = f_int 1, found_voiced1 = 0, found_voiced2 = 0, junk_lsps = replicate 10 NaN, junk_se = NaN\<rparr>)
      (replicate 7 2) (Some (replicate 160 0)) []] (example_process 6) = Undefined"
proof -
  have c: "fl_finite (fl_mul single (single_of (fl_sub double (decimal double 5 1) (fl_mul double (decimal double 5 1) (Zero False))))
      (single_of (fl_div double (d_int 1) (d_int 1))))" "fl_finite (fl_mul single (single_of (d_int 0)) (single_of (fl_div double (d_int 1) (d_int 1))))"
    by code_simp+
  have "cos_m example_libm x = Zero False" "sqrt_m example_libm x = d_int 1" for x by (simp_all add: example_libm_def)
  note n = analysis_window_nth [OF _ this]
  have w: "\<forall>i < M_SAMPLES. fl_finite (analysis_window example_libm ! i)" using c by (simp add: n del: upt_Suc)
  have "calls example_libm (Init # [] @ [Encode (Some \<lparr>found_Wo = f_int 1, found_voiced1 = 0, found_voiced2 = 1, junk_lsps = replicate 10 NaN, junk_se = NaN\<rparr>)
      (replicate 7 1) (Some (replicate 160 0)) [],
    Encode (Some \<lparr>found_Wo = f_int 1, found_voiced1 = 0, found_voiced2 = 0, junk_lsps = replicate 10 NaN, junk_se = NaN\<rparr>)
      (replicate 7 2) (Some (replicate 160 0)) []]) (example_process 6) = Undefined"
    by (rule silent_call_undefined [OF example_process_ok(1,2) _ _ w]) (simp_all add: example_process_ok example_libm_def)
  then show ?thesis by (simp del: calls.simps)
qed

end
