(* ===== verification/Kiss_Fft.thy ===== *)
theory Kiss_Fft
  imports Complex_Main Prelude
begin

text \<open>
  The fast Fourier transform of the speech codec, \<^verbatim>\<open>codec2/sources/kiss_fft.c\<close>, and its bridge \<^verbatim>\<open>fft.c\<close>. The source is
  written for any type of scalars (\<^verbatim>\<open>kiss_fft_scalar\<close>), and so is the model: the operations on scalars are a parameter.
  The lemmas take exact arithmetic for it and show that the algorithm computes the discrete Fourier transform, for every
  size: the factorisation, the recursion over decimated inputs and each butterfly.
\<close>

subsection \<open>Scalars and complex numbers\<close>

type_synonym 'a kiss_fft_cpx = "'a \<times> 'a"

text \<open>
  \<^verbatim>\<open>sub_half a b\<close> is \<^verbatim>\<open>a - HALF_OF(b)\<close>; \<^verbatim>\<open>cexp inverse i nfft\<close> is \<^verbatim>\<open>kf_cexp\<close> at the phase of twiddle factor \<open>i\<close>.
\<close>

record 'a kiss_fft_scalar =
  plus_s :: "'a \<Rightarrow> 'a \<Rightarrow> 'a"
  minus_s :: "'a \<Rightarrow> 'a \<Rightarrow> 'a"
  S_MUL :: "'a \<Rightarrow> 'a \<Rightarrow> 'a"
  neg_s :: "'a \<Rightarrow> 'a"
  sub_half :: "'a \<Rightarrow> 'a \<Rightarrow> 'a"
  cexp :: "bool \<Rightarrow> nat \<Rightarrow> nat \<Rightarrow> 'a kiss_fft_cpx"

definition C_MUL :: "'a kiss_fft_scalar \<Rightarrow> 'a kiss_fft_cpx \<Rightarrow> 'a kiss_fft_cpx \<Rightarrow> 'a kiss_fft_cpx" where
  "C_MUL A a b =
     (minus_s A (S_MUL A (fst a) (fst b)) (S_MUL A (snd a) (snd b)), plus_s A (S_MUL A (fst a) (snd b)) (S_MUL A (snd a) (fst b)))"

definition C_ADD :: "'a kiss_fft_scalar \<Rightarrow> 'a kiss_fft_cpx \<Rightarrow> 'a kiss_fft_cpx \<Rightarrow> 'a kiss_fft_cpx" where
  "C_ADD A a b = (plus_s A (fst a) (fst b), plus_s A (snd a) (snd b))"

definition C_SUB :: "'a kiss_fft_scalar \<Rightarrow> 'a kiss_fft_cpx \<Rightarrow> 'a kiss_fft_cpx \<Rightarrow> 'a kiss_fft_cpx" where
  "C_SUB A a b = (minus_s A (fst a) (fst b), minus_s A (snd a) (snd b))"

definition C_MULBYSCALAR :: "'a kiss_fft_scalar \<Rightarrow> 'a kiss_fft_cpx \<Rightarrow> 'a \<Rightarrow> 'a kiss_fft_cpx" where
  "C_MULBYSCALAR A c s = (S_MUL A (fst c) s, S_MUL A (snd c) s)"

record 'a kiss_fft_state =
  nfft :: nat
  inverse :: bool
  factors :: "nat list"
  twiddles :: "'a kiss_fft_cpx list"

subsection \<open>Butterflies\<close>

text \<open>
  A butterfly of radix \<open>p\<close> makes \<open>m\<close> passes over the array; pass \<open>k\<close> reads the entries \<open>k\<close>, \<open>k + m\<close>, and so on, and
  writes them back.
\<close>

definition column :: "nat \<Rightarrow> nat \<Rightarrow> 'b list \<Rightarrow> nat \<Rightarrow> 'b list" where
  "column p m F k = map (\<lambda>q. F ! (k + q * m)) [0..<p]"

definition put_column :: "nat \<Rightarrow> 'b list \<Rightarrow> nat \<Rightarrow> 'b list \<Rightarrow> 'b list" where
  "put_column m F k ys = foldl (\<lambda>F q. F[k + q * m := ys ! q]) F [0..<length ys]"

definition passes :: "nat \<Rightarrow> nat \<Rightarrow> (nat \<Rightarrow> 'b list \<Rightarrow> 'b list) \<Rightarrow> 'b list \<Rightarrow> 'b list" where
  "passes p m step F = foldl (\<lambda>F k. put_column m F k (step k (column p m F k))) F [0..<m]"

definition kf_bfly2 :: "'a kiss_fft_scalar \<Rightarrow> 'a kiss_fft_cpx list \<Rightarrow> nat \<Rightarrow> 'a kiss_fft_state \<Rightarrow> nat \<Rightarrow> 'a kiss_fft_cpx list" where
  "kf_bfly2 A Fout fstride st m =
     passes 2 m (\<lambda>k F.
       let t = C_MUL A (F ! 1) (twiddles st ! (k * fstride))
       in [C_ADD A (F ! 0) t, C_SUB A (F ! 0) t]) Fout"

definition kf_bfly4 :: "'a kiss_fft_scalar \<Rightarrow> 'a kiss_fft_cpx list \<Rightarrow> nat \<Rightarrow> 'a kiss_fft_state \<Rightarrow> nat \<Rightarrow> 'a kiss_fft_cpx list" where
  "kf_bfly4 A Fout fstride st m =
     passes 4 m (\<lambda>k F.
       let s0 = C_MUL A (F ! 1) (twiddles st ! (k * fstride));
           s1 = C_MUL A (F ! 2) (twiddles st ! (k * (fstride * 2)));
           s2 = C_MUL A (F ! 3) (twiddles st ! (k * (fstride * 3)));
           s5 = C_SUB A (F ! 0) s1;
           F0 = C_ADD A (F ! 0) s1;
           s3 = C_ADD A s0 s2;
           s4 = C_SUB A s0 s2;
           F2 = C_SUB A F0 s3;
           F0 = C_ADD A F0 s3
       in if inverse st
          then [F0, (minus_s A (fst s5) (snd s4), plus_s A (snd s5) (fst s4)), F2, (plus_s A (fst s5) (snd s4), minus_s A (snd s5) (fst s4))]
          else [F0, (plus_s A (fst s5) (snd s4), minus_s A (snd s5) (fst s4)), F2, (minus_s A (fst s5) (snd s4), plus_s A (snd s5) (fst s4))]) Fout"

definition kf_bfly3 :: "'a kiss_fft_scalar \<Rightarrow> 'a kiss_fft_cpx list \<Rightarrow> nat \<Rightarrow> 'a kiss_fft_state \<Rightarrow> nat \<Rightarrow> 'a kiss_fft_cpx list" where
  "kf_bfly3 A Fout fstride st m =
     (let epi3 = twiddles st ! (fstride * m)
      in passes 3 m (\<lambda>k F.
        let s1 = C_MUL A (F ! 1) (twiddles st ! (k * fstride));
            s2 = C_MUL A (F ! 2) (twiddles st ! (k * (fstride * 2)));
            s3 = C_ADD A s1 s2;
            s0 = C_SUB A s1 s2;
            F1 = (sub_half A (fst (F ! 0)) (fst s3), sub_half A (snd (F ! 0)) (snd s3));
            s0 = C_MULBYSCALAR A s0 (snd epi3);
            F0 = C_ADD A (F ! 0) s3;
            F2 = (plus_s A (fst F1) (snd s0), minus_s A (snd F1) (fst s0));
            F1 = (minus_s A (fst F1) (snd s0), plus_s A (snd F1) (fst s0))
        in [F0, F1, F2]) Fout)"

definition kf_bfly5 :: "'a kiss_fft_scalar \<Rightarrow> 'a kiss_fft_cpx list \<Rightarrow> nat \<Rightarrow> 'a kiss_fft_state \<Rightarrow> nat \<Rightarrow> 'a kiss_fft_cpx list" where
  "kf_bfly5 A Fout fstride st m =
     (let ya = twiddles st ! (fstride * m);
          yb = twiddles st ! (fstride * 2 * m)
      in passes 5 m (\<lambda>u F.
        let s0 = F ! 0;
            s1 = C_MUL A (F ! 1) (twiddles st ! (u * fstride));
            s2 = C_MUL A (F ! 2) (twiddles st ! (2 * u * fstride));
            s3 = C_MUL A (F ! 3) (twiddles st ! (3 * u * fstride));
            s4 = C_MUL A (F ! 4) (twiddles st ! (4 * u * fstride));
            s7 = C_ADD A s1 s4;
            s10 = C_SUB A s1 s4;
            s8 = C_ADD A s2 s3;
            s9 = C_SUB A s2 s3;
            F0 = (plus_s A (fst s0) (plus_s A (fst s7) (fst s8)), plus_s A (snd s0) (plus_s A (snd s7) (snd s8)));
            s5 = (plus_s A (plus_s A (fst s0) (S_MUL A (fst s7) (fst ya))) (S_MUL A (fst s8) (fst yb)),
                  plus_s A (plus_s A (snd s0) (S_MUL A (snd s7) (fst ya))) (S_MUL A (snd s8) (fst yb)));
            s6 = (plus_s A (S_MUL A (snd s10) (snd ya)) (S_MUL A (snd s9) (snd yb)),
                  minus_s A (neg_s A (S_MUL A (fst s10) (snd ya))) (S_MUL A (fst s9) (snd yb)));
            F1 = C_SUB A s5 s6;
            F4 = C_ADD A s5 s6;
            s11 = (plus_s A (plus_s A (fst s0) (S_MUL A (fst s7) (fst yb))) (S_MUL A (fst s8) (fst ya)),
                   plus_s A (plus_s A (snd s0) (S_MUL A (snd s7) (fst yb))) (S_MUL A (snd s8) (fst ya)));
            s12 = (plus_s A (neg_s A (S_MUL A (snd s10) (snd yb))) (S_MUL A (snd s9) (snd ya)),
                   minus_s A (S_MUL A (fst s10) (snd yb)) (S_MUL A (fst s9) (snd ya)));
            F2 = C_ADD A s11 s12;
            F3 = C_SUB A s11 s12
        in [F0, F1, F2, F3, F4]) Fout)"

text \<open>The inner loop over \<open>q\<close> of the general butterfly, with the running index of the twiddle factor.\<close>

definition generic_entry :: "'a kiss_fft_scalar \<Rightarrow> 'a kiss_fft_cpx list \<Rightarrow> nat \<Rightarrow> 'a kiss_fft_state \<Rightarrow> nat \<Rightarrow> nat \<Rightarrow> 'a kiss_fft_cpx" where
  "generic_entry A scratch fstride st p k =
     snd (foldl (\<lambda>(twidx, F) q.
         let twidx = twidx + fstride * k;
             twidx = (if nfft st \<le> twidx then twidx - nfft st else twidx);
             t = C_MUL A (scratch ! q) (twiddles st ! twidx)
         in (twidx, C_ADD A F t)) (0, scratch ! 0) [1..<p])"

definition kf_bfly_generic :: "'a kiss_fft_scalar \<Rightarrow> 'a kiss_fft_cpx list \<Rightarrow> nat \<Rightarrow> 'a kiss_fft_state \<Rightarrow> nat \<Rightarrow> nat \<Rightarrow> 'a kiss_fft_cpx list" where
  "kf_bfly_generic A Fout fstride st m p =
     passes p m (\<lambda>u scratch. map (\<lambda>q1. generic_entry A scratch fstride st p (u + q1 * m)) [0..<p]) Fout"

text \<open>The choice by radix at the end of \<^verbatim>\<open>kf_work\<close>.\<close>

definition kf_bfly :: "'a kiss_fft_scalar \<Rightarrow> nat \<Rightarrow> 'a kiss_fft_cpx list \<Rightarrow> nat \<Rightarrow> 'a kiss_fft_state \<Rightarrow> nat \<Rightarrow> 'a kiss_fft_cpx list" where
  "kf_bfly A p Fout fstride st m =
     (if p = 2 then kf_bfly2 A Fout fstride st m
      else if p = 3 then kf_bfly3 A Fout fstride st m
      else if p = 4 then kf_bfly4 A Fout fstride st m
      else if p = 5 then kf_bfly5 A Fout fstride st m
      else kf_bfly_generic A Fout fstride st m p)"

subsection \<open>The recursion\<close>

text \<open>
  The array that \<^verbatim>\<open>kf_work\<close> fills from the input \<open>f\<close>. The list of factors holds the radix and the length of the parts for
  each level; past its end the array \<open>factors\<close> is not initialised.
\<close>

fun kf_work :: "'a kiss_fft_scalar \<Rightarrow> 'a kiss_fft_cpx list \<Rightarrow> nat \<Rightarrow> nat \<Rightarrow> nat list \<Rightarrow> 'a kiss_fft_state \<Rightarrow> 'a kiss_fft_cpx list" where
  "kf_work A f fstride in_stride (p # m # fs) st =
     (let Fout = (if m = 1 then map (\<lambda>i. f ! (i * (fstride * in_stride))) [0..<p]
            else concat (map (\<lambda>i. kf_work A (drop (i * (fstride * in_stride)) f) (fstride * p) in_stride fs st) [0..<p]))
      in kf_bfly A p Fout fstride st m)"
| "kf_work A f fstride in_stride _ st = []"

text \<open>\<^verbatim>\<open>floor(sqrt((double)n))\<close>, which is exact for an \<^verbatim>\<open>int\<close>.\<close>

definition floor_sqrt :: "nat \<Rightarrow> nat" where
  "floor_sqrt n = length (filter (\<lambda>k. k * k \<le> n) [1..<n + 1])"

text \<open>The inner loop: the next factor of \<open>n\<close> from \<open>p\<close> on.\<close>

function next_factor :: "nat \<Rightarrow> nat \<Rightarrow> nat \<Rightarrow> nat" where
  "next_factor rt n p =
     (if n mod p \<noteq> 0 then
        (let p = (if p = 4 then 2 else if p = 2 then 3 else p + 2);
             p = (if rt < p then n else p)
         in next_factor rt n p)
      else p)"
  by auto
termination
  by (relation "measure (\<lambda>(rt, n, p). if n mod p = 0 then 0
        else if p = 0 then rt + 6 else if p = 4 then rt + 5 else if p = 2 then rt + 4 else Suc (rt + 2 - p))")
    (auto simp: Let_def)

declare next_factor.simps [simp del]

partial_function (option) factor_loop :: "nat \<Rightarrow> nat \<Rightarrow> nat \<Rightarrow> nat list option" where
  "factor_loop rt n p =
     (let p = next_factor rt n p;
          n = n div p
      in if 1 < n then Option.bind (factor_loop rt n p) (\<lambda>fs. Some (p # n # fs)) else Some [p, n])"

definition kf_factor :: "nat \<Rightarrow> nat list option" where
  "kf_factor n = factor_loop (floor_sqrt n) n 4"


text \<open>
  \<open>got\<close> says whether \<^verbatim>\<open>malloc\<close> succeeds; \<open>mem\<close> whether the caller passes memory, and \<open>lenmem\<close> the length it passes. The
  second result is what is written back to \<open>lenmem\<close>.
\<close>

definition kiss_fft_alloc ::
  "'a kiss_fft_scalar \<Rightarrow> bool \<Rightarrow> nat \<Rightarrow> bool \<Rightarrow> bool \<Rightarrow> nat option \<Rightarrow> ('a kiss_fft_state option \<times> nat option) option" where
  "kiss_fft_alloc A got n inverse_fft mem lenmem =
     (let memneeded = 272 + 8 * (n - 1);
          st = (case lenmem of None \<Rightarrow> got | Some len \<Rightarrow> mem \<and> memneeded \<le> len);
          lenmem = map_option (\<lambda>_. memneeded) lenmem
      in if st then
           map_option (\<lambda>fs. (Some \<lparr>nfft = n, inverse = inverse_fft, factors = fs, twiddles = map (\<lambda>i. cexp A inverse_fft i n) [0..<n]\<rparr>, lenmem))
             (kf_factor n)
         else Some (None, lenmem))"

text \<open>The transform between different arrays; \<^verbatim>\<open>fft\<close> never asks for one in place.\<close>

definition kiss_fft_stride :: "'a kiss_fft_scalar \<Rightarrow> 'a kiss_fft_state \<Rightarrow> 'a kiss_fft_cpx list \<Rightarrow> nat \<Rightarrow> 'a kiss_fft_cpx list" where
  "kiss_fft_stride A st fin in_stride = kf_work A fin 1 in_stride (factors st) st"

definition kiss_fft :: "'a kiss_fft_scalar \<Rightarrow> 'a kiss_fft_state \<Rightarrow> 'a kiss_fft_cpx list \<Rightarrow> 'a kiss_fft_cpx list" where
  "kiss_fft A cfg fin = kiss_fft_stride A cfg fin 1"

subsection \<open>The bridge\<close>

text \<open>
  The globals of \<^verbatim>\<open>fft.c\<close>. The first call allocates them for its size; \<open>got\<close> says which of the four allocations succeed,
  a failed assertion is \<open>None\<close>, and \<open>fill\<close> is what new memory holds. Sizes are natural numbers: the products with 2 and with
  the size of a number stay in range for every array that fits into the address space.
\<close>

record 'a fft_globals =
  fin :: "'a kiss_fft_cpx list"
  fout :: "'a kiss_fft_cpx list"
  cfg_forward :: "'a kiss_fft_state option"
  cfg_reverse :: "'a kiss_fft_state option"

definition initialize_fft :: "'a kiss_fft_scalar \<Rightarrow> (nat \<Rightarrow> bool) \<Rightarrow> 'a kiss_fft_cpx \<Rightarrow> nat \<Rightarrow> 'a fft_globals option" where
  "initialize_fft A got fill n =
     (if \<not> got 0 \<or> \<not> got 1 then None
      else Option.bind (kiss_fft_alloc A (got 2) n False False None) (\<lambda>(forward, _).
           if forward = None then None
           else Option.bind (kiss_fft_alloc A (got 3) n True False None) (\<lambda>(reverse, _).
             if reverse = None then None
             else Some \<lparr>fin = replicate n fill, fout = replicate n fill, cfg_forward = forward, cfg_reverse = reverse\<rparr>)))"

text \<open>\<open>None\<close> is also an access outside \<open>x\<close>, \<open>fin\<close> or \<open>fout\<close>.\<close>

definition fft :: "'a kiss_fft_scalar \<Rightarrow> (nat \<Rightarrow> bool) \<Rightarrow> 'a kiss_fft_cpx \<Rightarrow> 'a fft_globals \<Rightarrow> 'a list \<Rightarrow> nat \<Rightarrow> int \<Rightarrow> ('a list \<times> 'a fft_globals) option" where
  "fft A got fill g x n isign =
     Option.bind (if cfg_forward g = None then initialize_fft A got fill n else Some g) (\<lambda>g.
     if length x < 2 * n \<or> length (fin g) < n then None
     else
       (let g = g\<lparr>fin := map (\<lambda>c. (x ! (2 * c), neg_s A (x ! (2 * c + 1)))) [0..<n] @ drop n (fin g)\<rparr>;
            cfg = the (if isign = - 1 then cfg_reverse g else cfg_forward g);
            g = g\<lparr>fout := kiss_fft A cfg (fin g) @ drop (nfft cfg) (fout g)\<rparr>
        in if length (fout g) < n then None
           else Some (concat (map (\<lambda>c. [fst (fout g ! c), neg_s A (snd (fout g ! c))]) [0..<n]) @ drop (2 * n) x, g)))"

subsection \<open>The passes of a butterfly\<close>

lemma column_nth [simp]: "q < p \<Longrightarrow> column p m F k ! q = F ! (k + q * m)"
  by (simp add: column_def)

lemma length_put_column [simp]: "length (put_column m F k ys) = length F"
proof -
  have "length (foldl (\<lambda>F q. F[k + q * m := ys ! q]) F qs) = length F" for qs by (induction qs arbitrary: F) simp_all
  then show ?thesis by (simp add: put_column_def)
qed

lemma put_column_nth:
  assumes "k < m" "i < length F"
  shows "put_column m F k ys ! i = (if i mod m = k \<and> i div m < length ys then ys ! (i div m) else F ! i)"
proof -
  have "foldl (\<lambda>F q. F[k + q * m := ys ! q]) F [0..<n] ! i = (if i mod m = k \<and> i div m < n then ys ! (i div m) else F ! i)" for n
  proof (induction n)
    case (Suc n)
    let ?G = "foldl (\<lambda>F q. F[k + q * m := ys ! q]) F [0..<n]"
    have l: "length (foldl (\<lambda>F q. F[k + q * m := ys ! q]) F qs) = length F" for qs by (induction qs arbitrary: F) simp_all
    have "i = k + n * m \<longleftrightarrow> i mod m = k \<and> i div m = n" using assms(1) by (auto simp: algebra_simps)
    then show ?case using Suc l assms(2) by (auto simp: nth_list_update less_Suc_eq)
  qed simp
  then show ?thesis by (simp add: put_column_def)
qed

lemma index_parts: "k < m \<Longrightarrow> (k + q * m) mod m = k \<and> (k + q * m) div m = q" for k :: nat
  by simp

lemma index_bound: "k < m \<Longrightarrow> q < p \<Longrightarrow> k + q * m < p * m" for k :: nat
proof -
  assume a: "k < m" "q < p"
  then have "Suc q * m \<le> p * m" by (intro mult_le_mono1) simp
  with a(1) show "k + q * m < p * m" by simp
qed

lemma passes_nth:
  assumes F: "length F = p * m" and s: "\<And>k x. length (step k x) = p" and i: "k < m" "q < p"
  shows "passes p m step F ! (k + q * m) = step k (column p m F k) ! q"
proof -
  let ?pass = "\<lambda>F k. put_column m F k (step k (column p m F k))"
  have l: "length (foldl ?pass F ks) = p * m" for ks using F by (induction ks arbitrary: F) simp_all
  have "\<forall>k < m. \<forall>q < p. foldl ?pass F [0..<n] ! (k + q * m) = (if k < n then step k (column p m F k) ! q else F ! (k + q * m))" if "n \<le> m" for n
    using that
  proof (induction n)
    case (Suc n)
    let ?G = "foldl ?pass F [0..<n]"
    have IH: "?G ! (k + q * m) = (if k < n then step k (column p m F k) ! q else F ! (k + q * m))" if "k < m" "q < p" for k q
      using Suc that by simp
    have c: "column p m ?G n = column p m F n" unfolding column_def [of p m _ n] using IH Suc.prems by simp
    show ?case
    proof (intro allI impI)
      fix k q assume kq: "k < m" "q < p"
      then have "k + q * m < length ?G" using index_bound l by simp
      then have "foldl ?pass F [0..<Suc n] ! (k + q * m) = (if k = n then step n (column p m F n) ! q else ?G ! (k + q * m))"
        using Suc.prems kq s by (simp add: put_column_nth index_parts c)
      then show "foldl ?pass F [0..<Suc n] ! (k + q * m) = (if k < Suc n then step k (column p m F k) ! q else F ! (k + q * m))"
        using IH [OF kq] by auto
    qed
  qed simp
  then show ?thesis using i unfolding passes_def by (metis order_refl)
qed

lemma length_passes: "length (passes p m step F) = length F"
proof -
  have "length (foldl (\<lambda>F k. put_column m F k (step k (column p m F k))) F ks) = length F" for ks by (induction ks arbitrary: F) simp_all
  then show ?thesis by (simp add: passes_def)
qed

subsection \<open>Exact arithmetic\<close>

definition exact :: "real kiss_fft_scalar" where
  "exact = \<lparr>plus_s = (+), minus_s = (-), S_MUL = (*), neg_s = uminus, sub_half = (\<lambda>a b. a - b / 2),
     cexp = (\<lambda>inverse i n. let phase = (if inverse then 2 else - 2) * pi * real i / real n in (cos phase, sin phase))\<rparr>"

definition cx :: "real kiss_fft_cpx \<Rightarrow> complex" where
  "cx z = Complex (fst z) (snd z)"

lemma cx_ops:
  "cx (C_MUL exact a b) = cx a * cx b" "cx (C_ADD exact a b) = cx a + cx b" "cx (C_SUB exact a b) = cx a - cx b"
  by (simp_all add: cx_def C_MUL_def C_ADD_def C_SUB_def exact_def complex_eq_iff)

lemma exact_simps:
  "plus_s exact a b = a + b" "minus_s exact a b = a - b" "S_MUL exact a b = a * b" "neg_s exact a = - a" "sub_half exact a b = a - b / 2"
  by (simp_all add: exact_def)

text \<open>A state whose twiddle factors are the powers of a root of unity.\<close>

definition unity :: "real kiss_fft_state \<Rightarrow> complex" where
  "unity st = cis ((if inverse st then 2 else - 2) * pi / real (nfft st))"

definition prepared :: "real kiss_fft_state \<Rightarrow> bool" where
  "prepared st \<longleftrightarrow> 0 < nfft st \<and> length (twiddles st) = nfft st \<and> (\<forall>i < nfft st. cx (twiddles st ! i) = unity st ^ i)"

lemma unity_cycle: "0 < nfft st \<Longrightarrow> unity st ^ nfft st = 1"
  by (simp add: unity_def DeMoivre) (simp add: complex_eq_iff)

text \<open>What a butterfly of radix \<open>p\<close> has to compute from \<open>p\<close> parts of length \<open>m\<close>, in position \<open>k + r * m\<close>.\<close>

definition combined :: "real kiss_fft_state \<Rightarrow> nat \<Rightarrow> nat \<Rightarrow> nat \<Rightarrow> (nat \<Rightarrow> complex) \<Rightarrow> nat \<Rightarrow> nat \<Rightarrow> complex" where
  "combined st fstride p m x k r = (\<Sum>q<p. x q * unity st ^ (fstride * q * (k + r * m)))"

lemma sum_block: "(\<Sum>q<p. g (q + a)) = sum g {a..<a + p}" for g :: "nat \<Rightarrow> complex"
  using sum.shift_bounds_nat_ivl [of g 0 a p] by (simp add: lessThan_atLeast0 add.commute)

lemma length_butterflies [simp]:
  "length (kf_bfly2 A F fstride st m) = length F" "length (kf_bfly3 A F fstride st m) = length F"
  "length (kf_bfly4 A F fstride st m) = length F" "length (kf_bfly5 A F fstride st m) = length F"
  "length (kf_bfly_generic A F fstride st m p) = length F"
  by (simp_all add: kf_bfly2_def kf_bfly3_def kf_bfly4_def kf_bfly5_def kf_bfly_generic_def length_passes Let_def)

locale butterfly =
  fixes p :: nat and bfly :: "real kiss_fft_cpx list \<Rightarrow> nat \<Rightarrow> real kiss_fft_state \<Rightarrow> nat \<Rightarrow> real kiss_fft_cpx list"
  assumes keeps_length: "length (bfly F fstride st m) = length F"
    and combines: "prepared st \<Longrightarrow> nfft st = fstride * (p * m) \<Longrightarrow> length F = p * m \<Longrightarrow> k < m \<Longrightarrow> r < p \<Longrightarrow>
      cx (bfly F fstride st m ! (k + r * m)) = combined st fstride p m (\<lambda>q. cx (F ! (k + q * m))) k r"
begin

text \<open>When the parts hold the transforms of the decimated inputs, the result is the transform of the whole input.\<close>

lemma transforms:
  assumes st: "prepared st" and n: "nfft st = fstride * (p * m)" and F: "length F = p * m"
    and parts: "\<And>k q. k < m \<Longrightarrow> q < p \<Longrightarrow> cx (F ! (k + q * m)) = (\<Sum>j<m. x (q + j * p) * unity st ^ (fstride * p * (j * k)))"
    and i: "i < p * m"
  shows "cx (bfly F fstride st m ! i) = (\<Sum>j<p * m. x j * unity st ^ (fstride * (j * i)))"
proof -
  define k r where "k = i mod m" and "r = i div m"
  have m: "0 < m" using i by (cases m) simp_all
  then have kr: "k < m" "r < p" "i = k + r * m" using i by (simp_all add: k_def r_def less_mult_imp_div_less)
  have w: "unity st ^ (fstride * p * (j * k)) * unity st ^ (fstride * q * i) = unity st ^ (fstride * ((q + j * p) * i))" for j q
  proof -
    have "fstride * ((q + j * p) * i) = fstride * p * (j * k) + fstride * q * i + nfft st * (j * r)"
      unfolding n kr(3) by (simp add: algebra_simps)
    then show ?thesis using st unity_cycle [of st] by (simp add: power_add power_mult prepared_def)
  qed
  have "cx (bfly F fstride st m ! i) = combined st fstride p m (\<lambda>q. cx (F ! (k + q * m))) k r"
    unfolding kr(3) by (rule combines [OF st n F kr(1,2)])
  also have "\<dots> = (\<Sum>q<p. (\<Sum>j<m. x (q + j * p) * unity st ^ (fstride * p * (j * k))) * unity st ^ (fstride * q * i))"
    unfolding combined_def using parts kr by simp
  also have "\<dots> = (\<Sum>q<p. \<Sum>j<m. x (q + j * p) * unity st ^ (fstride * ((q + j * p) * i)))"
    by (intro sum.cong refl) (simp only: sum_distrib_right mult.assoc [of "x _"] w)
  also have "\<dots> = (\<Sum>j<m. \<Sum>q<p. x (q + j * p) * unity st ^ (fstride * ((q + j * p) * i)))" by (rule sum.swap)
  also have "\<dots> = (\<Sum>j<m. \<Sum>l\<in>{j * p..<j * p + p}. x l * unity st ^ (fstride * (l * i)))"
    by (simp only: sum_block [of "\<lambda>l. x l * unity st ^ (fstride * (l * i))"])
  also have "\<dots> = (\<Sum>j<m * p. x j * unity st ^ (fstride * (j * i)))" by (rule sum.nat_group)
  finally show ?thesis by (simp add: mult.commute)
qed

end

lemma combined_powers:
  "combined st fstride p m x k r = (\<Sum>q<p. x q * (unity st ^ (k * fstride)) ^ q * (unity st ^ (fstride * m)) ^ (q * r))"
proof -
  have "fstride * q * (k + r * m) = k * fstride * q + fstride * m * (q * r)" for q by (simp add: algebra_simps)
  then show ?thesis by (simp add: combined_def power_add power_mult mult.assoc)
qed

lemma twiddle_power:
  assumes "prepared st" "nfft st = fstride * (p * m)" "k < m" "q < p"
  shows "cx (twiddles st ! (k * (fstride * q))) = (unity st ^ (k * fstride)) ^ q"
proof -
  have "0 < fstride" using assms(1,2) by (simp add: prepared_def)
  moreover have "k * q < m * p" using assms(3,4) by (intro mult_strict_mono) auto
  ultimately have "k * (fstride * q) < nfft st" using assms(2) by (simp add: mult.left_commute mult.commute)
  then have "cx (twiddles st ! (k * (fstride * q))) = unity st ^ (k * (fstride * q))" using assms(1) by (simp add: prepared_def)
  then show ?thesis by (simp add: power_mult [symmetric] mult.assoc)
qed

lemma twiddle_root:
  assumes "prepared st" "nfft st = fstride * (p * m)" "0 < m" "q < p"
  shows "cx (twiddles st ! (fstride * q * m)) = (unity st ^ (fstride * m)) ^ q"
proof -
  have "0 < fstride" using assms(1,2) by (simp add: prepared_def)
  then have "fstride * q * m < nfft st" using assms(2,3,4) by simp
  then have "cx (twiddles st ! (fstride * q * m)) = unity st ^ (fstride * q * m)" using assms(1) by (simp add: prepared_def)
  then show ?thesis by (simp add: power_mult [symmetric] mult.assoc mult.commute mult.left_commute)
qed

lemma unity_part:
  assumes "prepared st" "nfft st = fstride * (p * m)"
  shows "unity st ^ (fstride * m) = cis ((if inverse st then 2 else - 2) * pi / real p)"
proof -
  have "0 < fstride" "0 < p" "0 < m" using assms by (auto simp: prepared_def)
  then show ?thesis unfolding unity_def DeMoivre assms(2) by (simp add: field_simps)
qed

lemmas sum_small = lessThan_Suc numeral_eq_Suc

text \<open>The twiddle factors of a pass, and the roots of unity of small order.\<close>

lemma twiddle_powers:
  assumes "prepared st" "nfft st = fstride * (p * m)" "k < m" "1 < p"
  shows "cx (twiddles st ! (k * fstride)) = unity st ^ (k * fstride)"
  using twiddle_power [OF assms(1-3), of 1] assms(4) by simp

lemma root_2: "cis ((if b then 2 else - 2) * pi / real 2) = - 1"
  by (simp add: complex_eq_iff)

lemma root_3: "Re (cis ((if b then 2 else - 2) * pi / real 3)) = - 1 / 2"
  using cos_120 by simp

lemma root_4: "cis ((if b then 2 else - 2) * pi / real 4) = (if b then \<i> else - \<i>)"
  by (simp add: complex_eq_iff)

lemma cis_root: "0 < p \<Longrightarrow> cis ((if b then 2 else - 2) * pi / real p) ^ p = 1"
  by (simp add: DeMoivre) (simp add: complex_eq_iff)

lemma cis_cnj_power: "cis a ^ p = 1 \<Longrightarrow> q \<le> p \<Longrightarrow> cis a ^ (p - q) = cnj (cis a ^ q)"
proof -
  assume a: "cis a ^ p = 1" "q \<le> p"
  have "cis a ^ q * cnj (cis a ^ q) = 1" by (simp add: DeMoivre cis_cnj cis_mult)
  moreover have "cis a ^ (p - q) * cis a ^ q = 1" using a by (simp flip: power_add)
  ultimately show ?thesis by (metis mult.assoc mult.commute mult_1)
qed

lemma bfly2_combines:
  assumes st: "prepared st" and n: "nfft st = fstride * (2 * m)" and F: "length F = 2 * m" and i: "k < m" "r < 2"
  shows "cx (kf_bfly2 exact F fstride st m ! (k + r * m)) = combined st fstride 2 m (\<lambda>q. cx (F ! (k + q * m))) k r"
proof -
  have "kf_bfly2 exact F fstride st m ! (k + r * m) =
      (let t = C_MUL exact (F ! (k + m)) (twiddles st ! (k * fstride)) in [C_ADD exact (F ! k) t, C_SUB exact (F ! k) t]) ! r"
    unfolding kf_bfly2_def by (subst passes_nth [OF F _ i]) (simp_all add: Let_def)
  moreover have "r = 0 \<or> r = 1" using i(2) by auto
  moreover have "unity st ^ (fstride * m) = - 1" unfolding unity_part [OF st n] by (rule root_2)
  ultimately show ?thesis using twiddle_powers [OF st n i(1)]
    by (auto simp: combined_powers cx_ops sum_small Let_def)
qed

interpretation radix2: butterfly 2 "kf_bfly2 exact"
  by (unfold_locales, rule length_butterflies, rule bfly2_combines)

lemma bfly4_combines:
  assumes st: "prepared st" and n: "nfft st = fstride * (4 * m)" and F: "length F = 4 * m" and i: "k < m" "r < 4"
  shows "cx (kf_bfly4 exact F fstride st m ! (k + r * m)) = combined st fstride 4 m (\<lambda>q. cx (F ! (k + q * m))) k r"
proof -
  define w where "w = unity st ^ (k * fstride)"
  note t = twiddle_powers [OF st n i(1)] twiddle_power [OF st n i(1), of 2] twiddle_power [OF st n i(1), of 3]
  define s0 s1 s2 where "s0 = C_MUL exact (F ! (k + m)) (twiddles st ! (k * fstride))"
    and "s1 = C_MUL exact (F ! (k + 2 * m)) (twiddles st ! (k * (fstride * 2)))"
    and "s2 = C_MUL exact (F ! (k + 3 * m)) (twiddles st ! (k * (fstride * 3)))"
  have s: "cx s0 = cx (F ! (k + m)) * w" "cx s1 = cx (F ! (k + 2 * m)) * w ^ 2" "cx s2 = cx (F ! (k + 3 * m)) * w ^ 3"
    using t by (simp_all add: s0_def s1_def s2_def w_def cx_ops)
  define s5 s4 where "s5 = C_SUB exact (F ! k) s1" and "s4 = C_SUB exact s0 s2"
  have s45: "cx s5 = cx (F ! k) - cx s1" "cx s4 = cx s0 - cx s2" by (simp_all add: s4_def s5_def cx_ops)
  have y: "kf_bfly4 exact F fstride st m ! (k + r * m) =
      [C_ADD exact (C_ADD exact (F ! k) s1) (C_ADD exact s0 s2),
       if inverse st then (fst s5 - snd s4, snd s5 + fst s4) else (fst s5 + snd s4, snd s5 - fst s4),
       C_SUB exact (C_ADD exact (F ! k) s1) (C_ADD exact s0 s2),
       if inverse st then (fst s5 + snd s4, snd s5 - fst s4) else (fst s5 - snd s4, snd s5 + fst s4)] ! r"
    unfolding kf_bfly4_def by (cases "inverse st"; subst passes_nth [OF F _ i]) (simp_all add: Let_def exact_simps s0_def s1_def s2_def s4_def s5_def)
  have turn: "cx (fst a - snd b, snd a + fst b) = cx a + \<i> * cx b" "cx (fst a + snd b, snd a - fst b) = cx a - \<i> * cx b" for a b
    by (simp_all add: cx_def complex_eq_iff)
  have z: "unity st ^ (fstride * m) = (if inverse st then \<i> else - \<i>)" unfolding unity_part [OF st n] by (rule root_4)
  have "r = 0 \<or> r = 1 \<or> r = 2 \<or> r = 3" using i(2) by auto
  then show ?thesis unfolding y combined_powers z w_def [symmetric]
    using s45 by (auto simp: cx_ops turn s sum_small; simp add: algebra_simps)
qed

interpretation radix4: butterfly 4 "kf_bfly4 exact"
  by (unfold_locales, rule length_butterflies, rule bfly4_combines)

lemma bfly3_combines:
  assumes st: "prepared st" and n: "nfft st = fstride * (3 * m)" and F: "length F = 3 * m" and i: "k < m" "r < 3"
  shows "cx (kf_bfly3 exact F fstride st m ! (k + r * m)) = combined st fstride 3 m (\<lambda>q. cx (F ! (k + q * m))) k r"
proof -
  define w z where "w = unity st ^ (k * fstride)" and "z = unity st ^ (fstride * m)"
  define e where "e = snd (twiddles st ! (fstride * m))"
  have c: "z = cis ((if inverse st then 2 else - 2) * pi / real 3)" unfolding z_def by (rule unity_part [OF st n])
  have "cx (twiddles st ! (fstride * m)) = z" using twiddle_root [OF st n, of 1] i(1) by (simp add: z_def)
  then have z1: "z = Complex (- 1 / 2) e" using root_3 [of "inverse st"] c by (simp add: complex_eq_iff e_def cx_def)
  have zc: "z ^ (3 - q) = cnj (z ^ q)" if "q \<le> 3" for q unfolding c by (rule cis_cnj_power [OF cis_root that]) simp
  have "z ^ 2 = cnj z" using zc [of 1] by simp
  then have z2: "z ^ 2 = Complex (- 1 / 2) (- e)" unfolding z1 by (simp add: complex_eq_iff)
  have z4: "z ^ 4 = z" using cis_root [of 3 "inverse st"] c power_add [of z 3 1] by simp
  define s1 s2 where "s1 = C_MUL exact (F ! (k + m)) (twiddles st ! (k * fstride))"
    and "s2 = C_MUL exact (F ! (k + 2 * m)) (twiddles st ! (k * (fstride * 2)))"
  have s: "cx s1 = cx (F ! (k + m)) * w" "cx s2 = cx (F ! (k + 2 * m)) * w ^ 2"
    using twiddle_powers [OF st n i(1)] twiddle_power [OF st n i(1), of 2] by (simp_all add: s1_def s2_def w_def cx_ops)
  have "cx (kf_bfly3 exact F fstride st m ! (k + r * m)) =
      [cx (F ! k) + (cx s1 + cx s2), cx (F ! k) + cx s1 * Complex (- 1 / 2) e + cx s2 * Complex (- 1 / 2) (- e),
       cx (F ! k) + cx s1 * Complex (- 1 / 2) (- e) + cx s2 * Complex (- 1 / 2) e] ! r"
  proof -
    have "r = 0 \<or> r = 1 \<or> r = 2" using i(2) by auto
    then show ?thesis unfolding kf_bfly3_def Let_def s1_def s2_def
      by (subst passes_nth [OF F _ i])
        (auto simp: exact_simps C_ADD_def C_SUB_def C_MULBYSCALAR_def cx_def complex_eq_iff e_def field_simps)
  qed
  also have "\<dots> = [cx (F ! k) + (cx s1 + cx s2), cx (F ! k) + cx s1 * z + cx s2 * z ^ 2, cx (F ! k) + cx s1 * z ^ 2 + cx s2 * z ^ 4] ! r"
    unfolding z4 z2 unfolding z1 ..
  finally have y: "cx (kf_bfly3 exact F fstride st m ! (k + r * m)) =
      [cx (F ! k) + (cx s1 + cx s2), cx (F ! k) + cx s1 * z + cx s2 * z ^ 2, cx (F ! k) + cx s1 * z ^ 2 + cx s2 * z ^ 4] ! r" .
  have "r = 0 \<or> r = 1 \<or> r = 2" using i(2) by auto
  then show ?thesis unfolding y combined_powers w_def [symmetric] z_def [symmetric]
    by (auto simp: s sum_small; simp add: algebra_simps)
qed

interpretation radix3: butterfly 3 "kf_bfly3 exact"
  by (unfold_locales, rule length_butterflies, rule bfly3_combines)

lemma bfly5_combines:
  assumes st: "prepared st" and n: "nfft st = fstride * (5 * m)" and F: "length F = 5 * m" and i: "k < m" "r < 5"
  shows "cx (kf_bfly5 exact F fstride st m ! (k + r * m)) = combined st fstride 5 m (\<lambda>q. cx (F ! (k + q * m))) k r"
proof -
  define w z where "w = unity st ^ (k * fstride)" and "z = unity st ^ (fstride * m)"
  define ya yb where "ya = twiddles st ! (fstride * m)" and "yb = twiddles st ! (fstride * 2 * m)"
  have c: "z = cis ((if inverse st then 2 else - 2) * pi / real 5)" unfolding z_def by (rule unity_part [OF st n])
  have z5: "z ^ 5 = 1" unfolding c by (rule cis_root) simp
  have zc: "z ^ (5 - q) = cnj (z ^ q)" if "q \<le> 5" for q unfolding c by (rule cis_cnj_power [OF cis_root that]) simp
  have z1: "z = Complex (fst ya) (snd ya)" "z ^ 2 = Complex (fst yb) (snd yb)"
    using twiddle_root [OF st n, of 1] twiddle_root [OF st n, of 2] i(1) by (simp_all add: z_def ya_def yb_def cx_def)
  have "z ^ 3 = cnj (z ^ 2)" "z ^ 4 = cnj z" using zc [of 2] zc [of 1] by simp_all
  then have z34: "z ^ 3 = Complex (fst yb) (- snd yb)" "z ^ 4 = Complex (fst ya) (- snd ya)"
    by (metis z1(2) complex_cnj, metis z1(1) complex_cnj)
  have zmod: "z ^ (5 + q) = z ^ q" for q using z5 by (simp add: power_add)
  define s1 s2 s3 s4 where "s1 = C_MUL exact (F ! (k + m)) (twiddles st ! (k * fstride))"
    and "s2 = C_MUL exact (F ! (k + 2 * m)) (twiddles st ! (2 * k * fstride))"
    and "s3 = C_MUL exact (F ! (k + 3 * m)) (twiddles st ! (3 * k * fstride))"
    and "s4 = C_MUL exact (F ! (k + 4 * m)) (twiddles st ! (4 * k * fstride))"
  have t: "cx (twiddles st ! (q * k * fstride)) = w ^ q" if "q < 5" for q
    using twiddle_power [OF st n i(1) that] by (simp add: w_def ac_simps)
  have s: "cx s1 = cx (F ! (k + m)) * w" "cx s2 = cx (F ! (k + 2 * m)) * w ^ 2" "cx s3 = cx (F ! (k + 3 * m)) * w ^ 3" "cx s4 = cx (F ! (k + 4 * m)) * w ^ 4"
    using t [of 1] t [of 2] t [of 3] t [of 4] by (simp_all add: s1_def s2_def s3_def s4_def cx_ops)
  have r: "r = 0 \<or> r = 1 \<or> r = 2 \<or> r = 3 \<or> r = 4" using i(2) by auto
  define step where "step = (\<lambda>a b c d.
      [cx (F ! k) + cx s1 + cx s2 + cx s3 + cx s4, cx (F ! k) + cx s1 * a + cx s2 * b + cx s3 * c + cx s4 * d,
       cx (F ! k) + cx s1 * b + cx s2 * d + cx s3 * a + cx s4 * c, cx (F ! k) + cx s1 * c + cx s2 * a + cx s3 * d + cx s4 * b,
       cx (F ! k) + cx s1 * d + cx s2 * c + cx s3 * b + cx s4 * a])"
  have "cx (kf_bfly5 exact F fstride st m ! (k + r * m)) =
      step (Complex (fst ya) (snd ya)) (Complex (fst yb) (snd yb)) (Complex (fst yb) (- snd yb)) (Complex (fst ya) (- snd ya)) ! r"
    unfolding kf_bfly5_def Let_def ya_def [symmetric] yb_def [symmetric]
    by (subst passes_nth [OF F _ i], simp)
      (use r in \<open>auto simp: step_def s1_def s2_def s3_def s4_def exact_simps C_ADD_def C_SUB_def cx_def complex_eq_iff algebra_simps\<close>)
  also have "\<dots> = step z (z ^ 2) (z ^ 3) (z ^ 4) ! r" unfolding z34 z1(2) unfolding z1(1) ..
  finally have y: "cx (kf_bfly5 exact F fstride st m ! (k + r * m)) = step z (z ^ 2) (z ^ 3) (z ^ 4) ! r" .
  have "z ^ 6 = z" "z ^ 8 = z ^ 3" "z ^ 9 = z ^ 4" "z ^ 12 = z ^ 2" "z ^ 16 = z"
    using zmod [of 1] zmod [of 3] zmod [of 4] zmod [of 7] zmod [of 2] zmod [of 11] zmod [of 6] by simp_all
  then show ?thesis using r unfolding y combined_powers w_def [symmetric] z_def [symmetric]
    by (auto simp: step_def s lessThan_nat_numeral lessThan_Suc; simp add: algebra_simps)
qed

interpretation radix5: butterfly 5 "kf_bfly5 exact"
  by (unfold_locales, rule length_butterflies, rule bfly5_combines)

lemma generic_entry_sum:
  assumes st: "prepared st" and k: "fstride * k < nfft st" and p: "0 < p"
  shows "cx (generic_entry exact scratch fstride st p k) = (\<Sum>q<p. cx (scratch ! q) * unity st ^ (fstride * q * k))"
proof -
  let ?step = "\<lambda>(twidx, F) q.
      let twidx = twidx + fstride * k;
          twidx = (if nfft st \<le> twidx then twidx - nfft st else twidx);
          t = C_MUL exact (scratch ! q) (twiddles st ! twidx)
      in (twidx, C_ADD exact F t)"
  have "\<exists>twidx F. foldl ?step (0, scratch ! 0) [1..<Suc j] = (twidx, F) \<and> twidx < nfft st \<and> unity st ^ twidx = unity st ^ (fstride * j * k) \<and>
      cx F = (\<Sum>q<Suc j. cx (scratch ! q) * unity st ^ (fstride * q * k))" for j
  proof (induction j)
    case 0
    show ?case using st by (auto simp: prepared_def)
  next
    case (Suc j)
    then obtain twidx F where IH: "foldl ?step (0, scratch ! 0) [1..<Suc j] = (twidx, F)" "twidx < nfft st" "unity st ^ twidx = unity st ^ (fstride * j * k)"
      "cx F = (\<Sum>q<Suc j. cx (scratch ! q) * unity st ^ (fstride * q * k))" by blast
    define t where "t = (if nfft st \<le> twidx + fstride * k then twidx + fstride * k - nfft st else twidx + fstride * k)"
    have l: "t < nfft st" using IH(2) k by (auto simp: t_def)
    have "unity st ^ t = unity st ^ (twidx + fstride * k)"
    proof (cases "nfft st \<le> twidx + fstride * k")
      case True
      then have "twidx + fstride * k = t + nfft st" by (simp add: t_def)
      then show ?thesis using unity_cycle [of st] st by (simp add: power_add prepared_def)
    qed (simp add: t_def)
    also have "\<dots> = unity st ^ (fstride * Suc j * k)" using IH(3) by (simp add: power_add [symmetric] algebra_simps) (simp add: power_add)
    finally have u: "unity st ^ t = unity st ^ (fstride * Suc j * k)" .
    have "foldl ?step (0, scratch ! 0) [1..<Suc (Suc j)] = ?step (twidx, F) (Suc j)" using IH(1) by simp
    also have "\<dots> = (t, C_ADD exact F (C_MUL exact (scratch ! Suc j) (twiddles st ! t)))" by (simp add: t_def Let_def)
    finally show ?case using l u IH(4) st by (simp add: cx_ops prepared_def)
  qed
  from this [of "p - 1"] show ?thesis using p by (auto simp: generic_entry_def)
qed

lemma bfly_generic_combines:
  assumes st: "prepared st" and n: "nfft st = fstride * (p * m)" and F: "length F = p * m" and i: "k < m" "r < p"
  shows "cx (kf_bfly_generic exact F fstride st m p ! (k + r * m)) = combined st fstride p m (\<lambda>q. cx (F ! (k + q * m))) k r"
proof -
  have "kf_bfly_generic exact F fstride st m p ! (k + r * m) = generic_entry exact (column p m F k) fstride st p (k + r * m)"
    unfolding kf_bfly_generic_def using i(2) by (subst passes_nth [OF F _ i]) simp_all
  moreover have "fstride * (k + r * m) < nfft st" using st index_bound [OF i] unfolding n by (simp add: prepared_def n)
  ultimately show ?thesis using generic_entry_sum [OF st] i(2) by (simp add: combined_def)
qed

interpretation radix: butterfly p "kf_bfly exact p" for p
proof
  show "length (kf_bfly exact p F fstride st m) = length F" for F fstride st m by (simp add: kf_bfly_def)
  show "cx (kf_bfly exact p F fstride st m ! (k + r * m)) = combined st fstride p m (\<lambda>q. cx (F ! (k + q * m))) k r"
    if "prepared st" "nfft st = fstride * (p * m)" "length F = p * m" "k < m" "r < p" for F fstride st m k r
    using that radix2.combines radix3.combines radix4.combines radix5.combines bfly_generic_combines by (simp add: kf_bfly_def)
qed

subsection \<open>The recursion computes the transform\<close>

fun chain :: "nat list \<Rightarrow> nat \<Rightarrow> bool" where
  "chain (p # m # fs) n \<longleftrightarrow> n = p * m \<and> (if m = 1 then fs = [] else chain fs m)"
| "chain fs n \<longleftrightarrow> False"

lemma concat_equal:
  assumes "\<And>i. i < p \<Longrightarrow> length (g i) = m"
  shows "length (concat (map g [0..<p])) = p * m" "k < m \<Longrightarrow> q < p \<Longrightarrow> concat (map g [0..<p]) ! (k + q * m) = g q ! k"
  using assms
proof (induction p)
  case (Suc p)
  {
    case 1
    then show ?case using Suc by simp
  next
    case 2
    have l: "length (concat (map g [0..<p])) = p * m" using Suc.IH(1) 2(3) by simp
    show ?case
    proof (cases "q < p")
      case True
      then show ?thesis using Suc.IH(2) 2 l index_bound [OF 2(1) True] by (simp add: nth_append)
    next
      case False
      then have "q = p" using 2(2) by simp
      then show ?thesis using l by (simp add: nth_append)
    qed
  }
qed simp_all

lemma kf_work_transforms:
  assumes "chain fs n" "prepared st" "nfft st = fstride * n" "0 < n" "(n - 1) * (fstride * stride) < length f"
  shows "length (kf_work exact f fstride stride fs st) = n \<and>
    (\<forall>i < n. cx (kf_work exact f fstride stride fs st ! i) = (\<Sum>j<n. cx (f ! (j * (fstride * stride))) * unity st ^ (fstride * (j * i))))"
  using assms
proof (induction fs n arbitrary: f fstride rule: chain.induct)
  case (1 p m fs n)
  have n: "n = p * m" and pm: "0 < p" "0 < m" using 1(2,5) by auto
  define part where "part = (\<lambda>q. if m = 1 then [f ! (q * (fstride * stride))] else kf_work exact (drop (q * (fstride * stride)) f) (fstride * p) stride fs st)"
  define F where "F = concat (map part [0..<p])"
  have F: "F = (if m = 1 then map (\<lambda>i. f ! (i * (fstride * stride))) [0..<p]
      else concat (map (\<lambda>i. kf_work exact (drop (i * (fstride * stride)) f) (fstride * p) stride fs st) [0..<p]))"
    by (simp add: F_def part_def)
  have last: "q + (m - 1) * p \<le> n - 1" if "q < p" for q
  proof -
    have "m * p = (m - 1) * p + p" using pm by (cases m) simp_all
    then show ?thesis using that unfolding n by (simp add: mult.commute)
  qed
  have parts: "length (part q) = m \<and> (\<forall>k < m. cx (part q ! k) = (\<Sum>j<m. cx (f ! ((q + j * p) * (fstride * stride))) * unity st ^ (fstride * p * (j * k))))"
    if q: "q < p" for q
  proof (cases "m = 1")
    case False
    have "(q + (m - 1) * p) * (fstride * stride) \<le> (n - 1) * (fstride * stride)" using last [OF q] by (rule mult_le_mono1)
    then have b: "(q + (m - 1) * p) * (fstride * stride) < length f" using 1(6) by linarith
    then have "q * (fstride * stride) < length f" by (simp add: add_mult_distrib)
    moreover have "(m - 1) * (fstride * p * stride) < length (drop (q * (fstride * stride)) f)" using b by (simp add: algebra_simps)
    moreover have "(q + j * p) * (fstride * stride) = q * (fstride * stride) + j * (fstride * p * stride)" for j by (simp add: algebra_simps)
    ultimately show ?thesis using 1(1) [OF False, of "fstride * p" "drop (q * (fstride * stride)) f"] 1(2-5) False pm n
      by (simp add: part_def mult.assoc)
  qed (simp add: part_def)
  have l: "length F = p * m" unfolding F_def using parts by (intro concat_equal(1)) simp
  have "cx (F ! (k + q * m)) = (\<Sum>j<m. cx (f ! ((q + j * p) * (fstride * stride))) * unity st ^ (fstride * p * (j * k)))" if "k < m" "q < p" for k q
    using concat_equal(2) [of p part m k q] parts that unfolding F_def by simp
  note t = radix.transforms [OF 1(3) _ l this]
  have "kf_work exact f fstride stride (p # m # fs) st = kf_bfly exact p F fstride st m" by (simp add: F Let_def)
  then show ?case using t 1(4) l by (simp add: radix.keeps_length n)
qed simp_all

subsection \<open>The factors\<close>

lemma next_factor_dvd: "0 < n \<Longrightarrow> next_factor rt n p dvd n"
  by (induction rt n p rule: next_factor.induct) (subst next_factor.simps, auto simp: Let_def mod_eq_0_iff_dvd)

lemma next_factor_gt: "1 < n \<Longrightarrow> 1 < p \<Longrightarrow> 1 < next_factor rt n p"
  by (induction rt n p rule: next_factor.induct) (subst next_factor.simps, auto simp: Let_def)

lemma factor_loop_chain:
  assumes "0 < n" "1 < p"
  shows "\<exists>fs j. factor_loop rt n p = Some fs \<and> chain fs n \<and> length fs = 2 * j \<and> (if n = 1 then j = 1 else 2 ^ j \<le> n)"
  using assms
proof (induction n arbitrary: p rule: less_induct)
  case (less n)
  define q where "q = next_factor rt n p"
  have d: "n = q * (n div q)" using next_factor_dvd [OF less(2), of rt p] by (simp add: q_def)
  have m: "0 < n div q" using d less(2) by (metis gr0I mult_0_right)
  show ?case
  proof (cases "1 < n div q")
    case True
    then have n: "1 < n" using d by (metis One_nat_def Suc_lessI less.prems(1) div_less_dividend less_numeral_extra(4) nat_dvd_1_iff_1 dvd_triv_right)
    then have q: "1 < q" using next_factor_gt [OF n less(3)] by (simp add: q_def)
    have "n div q < n" using n q by simp
    from less(1) [OF this m q] obtain fs j where fs: "factor_loop rt (n div q) q = Some fs" "chain fs (n div q)" "length fs = 2 * j" "2 ^ j \<le> n div q"
      using True by auto
    have "2 * 2 ^ j \<le> q * (n div q)" using q fs(4) by (intro mult_le_mono) simp_all
    then have "2 ^ Suc j \<le> n" using d by simp
    then show ?thesis using fs True n d
      by (intro exI [of _ "q # n div q # fs"] exI [of _ "Suc j"]) (simp add: factor_loop.simps [of rt n p] Let_def q_def [symmetric])
  next
    case False
    then have 1: "n div q = 1" using m by simp
    then have "factor_loop rt n p = Some [q, 1]" by (simp add: factor_loop.simps [of rt n p] Let_def q_def [symmetric])
    moreover have "chain [q, 1] n" using d 1 by simp
    ultimately show ?thesis using less(2) by (intro exI [of _ "[q, 1]"] exI [of _ 1]) auto
  qed
qed

abbreviation (input) MAXFACTORS :: nat where "MAXFACTORS \<equiv> 32"

lemma kf_factor_chain:
  assumes "0 < n" "n < 2 ^ 31"
  shows "\<exists>fs. kf_factor n = Some fs \<and> chain fs n \<and> length fs \<le> 2 * MAXFACTORS"
proof -
  obtain fs j where f: "kf_factor n = Some fs" "chain fs n" "length fs = 2 * j" "if n = 1 then j = 1 else 2 ^ j \<le> n"
    using factor_loop_chain [OF assms(1), of 4 "floor_sqrt n"] by (auto simp: kf_factor_def)
  have "j \<le> 31"
  proof (cases "n = 1")
    case False
    then have "(2 :: nat) ^ j < 2 ^ 31" using f(4) assms(2) by simp
    then have "j < 31" by (rule power_less_imp_less_exp [rotated]) simp
    then show ?thesis by simp
  qed (use f in simp)
  then show ?thesis using f by auto
qed

subsection \<open>Transforms\<close>

lemma alloc_prepared:
  assumes "0 < n" "n < 2 ^ 31"
  shows "\<exists>st. kiss_fft_alloc exact True n b mem None = Some (Some st, None) \<and> prepared st \<and> nfft st = n \<and> inverse st = b \<and> chain (factors st) n \<and>
    length (factors st) \<le> 2 * MAXFACTORS"
proof -
  obtain fs where f: "kf_factor n = Some fs" "chain fs n" "length fs \<le> 2 * MAXFACTORS" using kf_factor_chain [OF assms] by blast
  define st where "st = \<lparr>nfft = n, inverse = b, factors = fs, twiddles = map (\<lambda>i. cexp exact b i n) [0..<n]\<rparr>"
  have "cx (cexp exact b i n) = unity st ^ i" for i
    by (simp add: exact_def Let_def cx_def unity_def st_def DeMoivre complex_eq_iff mult.assoc mult.commute mult.left_commute)
  then have "prepared st" using assms(1) by (simp add: prepared_def st_def)
  then show ?thesis using f by (intro exI [of _ st]) (simp add: kiss_fft_alloc_def Let_def st_def)
qed

lemma unity_power: "unity st ^ i = cis ((if inverse st then 2 else - 2) * pi * real i / real (nfft st))"
  by (simp add: unity_def DeMoivre mult.assoc mult.commute mult.left_commute)

lemma kiss_fft_transforms:
  assumes "prepared st" "chain (factors st) (nfft st)" "nfft st \<le> length f"
  shows "length (kiss_fft exact st f) = nfft st"
    "k < nfft st \<Longrightarrow> cx (kiss_fft exact st f ! k) = (\<Sum>j<nfft st. cx (f ! j) * cis ((if inverse st then 2 else - 2) * pi * real (j * k) / real (nfft st)))"
proof -
  have "0 < nfft st" using assms(1) by (simp add: prepared_def)
  then have "(nfft st - 1) * (1 * 1) < length f" using assms(3) by simp
  from kf_work_transforms [OF assms(2,1) _ \<open>0 < nfft st\<close> this]
  show "length (kiss_fft exact st f) = nfft st"
    "k < nfft st \<Longrightarrow> cx (kiss_fft exact st f ! k) = (\<Sum>j<nfft st. cx (f ! j) * cis ((if inverse st then 2 else - 2) * pi * real (j * k) / real (nfft st)))"
    by (simp_all add: kiss_fft_def kiss_fft_stride_def unity_power)
qed

text \<open>The globals before the first call, and after calls of size \<open>n\<close>.\<close>

definition fft_fresh :: "real fft_globals \<Rightarrow> bool" where
  "fft_fresh g \<longleftrightarrow> cfg_forward g = None"

definition fft_ready :: "nat \<Rightarrow> real fft_globals \<Rightarrow> bool" where
  "fft_ready n g \<longleftrightarrow> length (fin g) = n \<and> length (fout g) = n \<and>
     (\<exists>st. cfg_forward g = Some st \<and> prepared st \<and> nfft st = n \<and> \<not> inverse st \<and> chain (factors st) n) \<and>
     (\<exists>st. cfg_reverse g = Some st \<and> prepared st \<and> nfft st = n \<and> inverse st \<and> chain (factors st) n)"

lemma initialize_ready:
  assumes "0 < n" "n < 2 ^ 31" "\<And>i. got i"
  shows "\<exists>g. initialize_fft exact got fill n = Some g \<and> fft_ready n g"
proof -
  obtain f r where "kiss_fft_alloc exact True n False False None = Some (Some f, None)" "prepared f" "nfft f = n" "\<not> inverse f" "chain (factors f) n"
    "kiss_fft_alloc exact True n True False None = Some (Some r, None)" "prepared r" "nfft r = n" "inverse r" "chain (factors r) n"
    using alloc_prepared [OF assms(1,2), of False False] alloc_prepared [OF assms(1,2), of True False] by auto
  then show ?thesis using assms(3) by (simp add: initialize_fft_def fft_ready_def)
qed

definition numbers :: "real list \<Rightarrow> nat \<Rightarrow> complex" where
  "numbers x j = Complex (x ! (2 * j)) (x ! (2 * j + 1))"

lemma interleaved:
  assumes "k < n"
  shows "length (concat (map (\<lambda>c. [f c, h c]) [0..<n])) = 2 * n"
    "concat (map (\<lambda>c. [f c, h c]) [0..<n]) ! (2 * k) = f k" "concat (map (\<lambda>c. [f c, h c]) [0..<n]) ! (2 * k + 1) = h k"
  using concat_equal [of n "\<lambda>c. [f c, h c]" 2] assms concat_equal(2) [of n "\<lambda>c. [f c, h c]" 2 1 k] concat_equal(2) [of n "\<lambda>c. [f c, h c]" 2 0 k]
  by (simp_all add: mult.commute)

lemma fft_ready_transforms:
  assumes g: "fft_ready n g" and n: "0 < n" and x: "length x = 2 * n"
  shows "\<exists>y g'. fft exact got fill g x n isign = Some (y, g') \<and> fft_ready n g' \<and> length y = 2 * n \<and>
    (\<forall>k < n. numbers y k = (\<Sum>j<n. numbers x j * cis ((if isign = - 1 then - 2 else 2) * pi * real (j * k) / real n)))"
proof -
  obtain st where st: "(if isign = - 1 then cfg_reverse g else cfg_forward g) = Some st" "prepared st" "nfft st = n" "inverse st \<longleftrightarrow> isign = - 1"
    "chain (factors st) n" using g unfolding fft_ready_def by (cases "isign = - 1") (simp_all, blast+)
  define f where "f = map (\<lambda>c. (x ! (2 * c), - x ! (2 * c + 1))) [0..<n]"
  define out where "out = kiss_fft exact st f"
  define y where "y = concat (map (\<lambda>c. [fst (out ! c), - snd (out ! c)]) [0..<n])"
  have t: "length out = n" "cx (out ! k) = (\<Sum>j<n. cx (f ! j) * cis ((if isign = - 1 then 2 else - 2) * pi * real (j * k) / real n))" if "k < n" for k
    using kiss_fft_transforms [of st f] st that by (simp_all add: out_def f_def)
  have "fft exact got fill g x n isign = Some (y, g\<lparr>fin := f, fout := out\<rparr>)"
    using g st(1,3) x t(1) [OF n] by (auto simp: fft_def fft_ready_def Let_def f_def out_def y_def exact_simps)
  moreover have "fft_ready n (g\<lparr>fin := f, fout := out\<rparr>)" using g t(1) [OF n] by (simp add: fft_ready_def f_def)
  moreover have "length y = 2 * n" using interleaved(1) [OF n] by (simp add: y_def)
  moreover have "numbers y k = (\<Sum>j<n. numbers x j * cis ((if isign = - 1 then - 2 else 2) * pi * real (j * k) / real n))" if k: "k < n" for k
  proof -
    have "numbers y k = cnj (cx (out ! k))"
      unfolding numbers_def y_def interleaved(2) [OF k, of "\<lambda>c. fst (out ! c)" "\<lambda>c. - snd (out ! c)"]
        interleaved(3) [OF k, of "\<lambda>c. fst (out ! c)" "\<lambda>c. - snd (out ! c)"] by (simp add: cx_def complex_eq_iff)
    also have "\<dots> = (\<Sum>j<n. cnj (cx (f ! j)) * cnj (cis ((if isign = - 1 then 2 else - 2) * pi * real (j * k) / real n)))"
      unfolding t(2) [OF k] by simp
    also have "\<dots> = (\<Sum>j<n. numbers x j * cis ((if isign = - 1 then - 2 else 2) * pi * real (j * k) / real n))"
      by (intro sum.cong arg_cong2 [where f = "(*)"] refl) (simp_all add: f_def numbers_def cx_def cis_cnj complex_eq_iff)
    finally show ?thesis .
  qed
  ultimately show ?thesis by blast
qed

text \<open>
  C32: the fast transform is the discrete Fourier transform. In exact arithmetic, for every size below \<open>2 ^ 31\<close> whatever its
  prime factors are, and for the first call as for later calls of the same size, \<^verbatim>\<open>fft\<close> replaces the complex numbers of
  its array by their transform: the sum over the inputs with the powers of a root of unity of positive angle, or of
  negative angle when \<open>isign\<close> is \<open>- 1\<close>. It does not leave its arrays, and the state is ready for the next call.
\<close>

theorem fft_is_fourier_transform:
  assumes "0 < n" "n < 2 ^ 31" and "length x = 2 * n" and "fft_fresh g \<or> fft_ready n g" and "\<And>i. got i"
  shows "\<exists>y g'. fft exact got fill g x n isign = Some (y, g') \<and> fft_ready n g' \<and> length y = 2 * n \<and>
    (\<forall>k < n. numbers y k = (\<Sum>j<n. numbers x j * cis ((if isign = - 1 then - 2 else 2) * pi * real (j * k) / real n)))"
proof (cases "cfg_forward g = None")
  case True
  obtain h where h: "initialize_fft exact got fill n = Some h" "fft_ready n h" using initialize_ready [OF assms(1,2), of got fill] assms(5) by blast
  then have "fft exact got fill g x n isign = fft exact got fill h x n isign" using True by (auto simp: fft_def fft_ready_def)
  then show ?thesis using fft_ready_transforms [OF h(2) assms(1,3)] by simp
next
  case False
  then have "fft_ready n g" using assms(4) unfolding fft_fresh_def by (elim disjE) simp_all
  then show ?thesis by (rule fft_ready_transforms [OF _ assms(1,3)])
qed

theorem fft_is_fourier_transform_witness:
  "\<exists>y g'. fft exact (\<lambda>_. True) (0, 0) \<lparr>fin = [], fout = [], cfg_forward = None, cfg_reverse = None\<rparr> [1, 0, 2, 0, 3, 0, 4, 0, 5, 0, 6, 0] 6 1 = Some (y, g') \<and>
    fft_ready 6 g' \<and> length y = 2 * 6 \<and>
    (\<forall>k < 6. numbers y k = (\<Sum>j<6. numbers [1, 0, 2, 0, 3, 0, 4, 0, 5, 0, 6, 0] j * cis ((if (1 :: int) = - 1 then - 2 else 2) * pi * real (j * k) / real 6)))"
  by (rule fft_is_fourier_transform) (simp_all add: fft_fresh_def)

end
