(* ===== verification/Aes_Generator.thy ===== *)
theory Aes_Generator
  imports Aes_Tables
begin

text \<open>
  The program that computes the tables of AES, \<^verbatim>\<open>tables/aes_tables.c\<close>, with the affine map
  \<^verbatim>\<open>A_times_x_plus_b\<close> of \<^verbatim>\<open>crypto/math/math.c\<close>. The lemmas complete the arithmetic of the field (multiplication is
  bilinear, commutative and associative, so that inverses are unique) and show that the program computes exactly the
  tables that \<^verbatim>\<open>aes.c\<close> contains. Printing is not modelled.
\<close>

subsection \<open>The program\<close>

text \<open>The loop over the mask; the columns of the matrix are added up.\<close>

definition A_times_x_plus_b :: "u8 list \<Rightarrow> u8 \<Rightarrow> u8 \<Rightarrow> u8" where
  "A_times_x_plus_b A x b = foldl (\<lambda>b index. if x AND push_bit index 1 \<noteq> 0 then b XOR A ! index else b) b [0..<8]"

definition affine_A :: "u8 list" where "affine_A = [31, 62, 124, 248, 241, 227, 199, 143]"
definition affine_b :: u8 where "affine_b = 99"

text \<open>The two arrays of the substitution box, written entry by entry.\<close>

definition sbox_entry :: "nat \<Rightarrow> u8" where
  "sbox_entry i = A_times_x_plus_b affine_A (gf2_8_compute_inverse (of_nat i)) affine_b"

definition aes_init_sbox :: "u8 list \<times> u8 list \<Rightarrow> u8 list \<times> u8 list" where
  "aes_init_sbox boxes =
     foldl (\<lambda>(sbox, inv_sbox) i. let x = sbox_entry i in (sbox[i := x], inv_sbox[unat x := of_nat i])) boxes [0..<256]"

text \<open>The four tables from the substitution box.\<close>

definition aes_compute_tables :: "u8 list \<times> u8 list \<Rightarrow> u32 list \<times> u32 list \<times> u32 list \<times> u32 list" where
  "aes_compute_tables boxes =
     (let (sbox, inv_sbox) = aes_init_sbox boxes;
          row = (\<lambda>g. map (\<lambda>i. let x1 = sbox ! i; x2 = gf2_8_shift x1; x3 = x2 XOR x1 in g x1 x2 x3) [0..<256])
      in (row (\<lambda>x1 x2 x3. le32_of x2 x1 x1 x3), row (\<lambda>x1 x2 x3. le32_of x3 x2 x1 x1),
          row (\<lambda>x1 x2 x3. le32_of x1 x3 x2 x1), row (\<lambda>x1 x2 x3. le32_of x1 x1 x3 x2)))"

definition aes_compute_inv_tables :: "u8 list \<Rightarrow> u32 list \<times> u32 list \<times> u32 list \<times> u32 list \<times> u32 list" where
  "aes_compute_inv_tables inv_sbox =
     (let row = (\<lambda>g. map (\<lambda>i. let x = inv_sbox ! i; xe = gf2_8_multiply 0x0e x; x9 = gf2_8_multiply 0x09 x;
                    xd = gf2_8_multiply 0x0d x; xb = gf2_8_multiply 0x0b x in g x xe x9 xd xb) [0..<256])
      in (row (\<lambda>x xe x9 xd xb. le32_of xe x9 xd xb), row (\<lambda>x xe x9 xd xb. le32_of xb xe x9 xd),
          row (\<lambda>x xe x9 xd xb. le32_of xd xb xe x9), row (\<lambda>x xe x9 xd xb. le32_of x9 xd xb xe),
          row (\<lambda>x xe x9 xd xb. le32_of x x x x)))"

text \<open>The table for the last round of decryption, which \<^verbatim>\<open>aes.c\<close> has for processors without fast octet access.\<close>

definition U4 :: "u32 list" where
  "U4 =
   [0x52525252, 0x9090909, 0x6a6a6a6a, 0xd5d5d5d5, 0x30303030, 0x36363636, 0xa5a5a5a5, 0x38383838,
    0xbfbfbfbf, 0x40404040, 0xa3a3a3a3, 0x9e9e9e9e, 0x81818181, 0xf3f3f3f3, 0xd7d7d7d7, 0xfbfbfbfb,
    0x7c7c7c7c, 0xe3e3e3e3, 0x39393939, 0x82828282, 0x9b9b9b9b, 0x2f2f2f2f, 0xffffffff, 0x87878787,
    0x34343434, 0x8e8e8e8e, 0x43434343, 0x44444444, 0xc4c4c4c4, 0xdededede, 0xe9e9e9e9, 0xcbcbcbcb,
    0x54545454, 0x7b7b7b7b, 0x94949494, 0x32323232, 0xa6a6a6a6, 0xc2c2c2c2, 0x23232323, 0x3d3d3d3d,
    0xeeeeeeee, 0x4c4c4c4c, 0x95959595, 0xb0b0b0b, 0x42424242, 0xfafafafa, 0xc3c3c3c3, 0x4e4e4e4e,
    0x8080808, 0x2e2e2e2e, 0xa1a1a1a1, 0x66666666, 0x28282828, 0xd9d9d9d9, 0x24242424, 0xb2b2b2b2,
    0x76767676, 0x5b5b5b5b, 0xa2a2a2a2, 0x49494949, 0x6d6d6d6d, 0x8b8b8b8b, 0xd1d1d1d1, 0x25252525,
    0x72727272, 0xf8f8f8f8, 0xf6f6f6f6, 0x64646464, 0x86868686, 0x68686868, 0x98989898, 0x16161616,
    0xd4d4d4d4, 0xa4a4a4a4, 0x5c5c5c5c, 0xcccccccc, 0x5d5d5d5d, 0x65656565, 0xb6b6b6b6, 0x92929292,
    0x6c6c6c6c, 0x70707070, 0x48484848, 0x50505050, 0xfdfdfdfd, 0xedededed, 0xb9b9b9b9, 0xdadadada,
    0x5e5e5e5e, 0x15151515, 0x46464646, 0x57575757, 0xa7a7a7a7, 0x8d8d8d8d, 0x9d9d9d9d, 0x84848484,
    0x90909090, 0xd8d8d8d8, 0xabababab, 0x0, 0x8c8c8c8c, 0xbcbcbcbc, 0xd3d3d3d3, 0xa0a0a0a,
    0xf7f7f7f7, 0xe4e4e4e4, 0x58585858, 0x5050505, 0xb8b8b8b8, 0xb3b3b3b3, 0x45454545, 0x6060606,
    0xd0d0d0d0, 0x2c2c2c2c, 0x1e1e1e1e, 0x8f8f8f8f, 0xcacacaca, 0x3f3f3f3f, 0xf0f0f0f, 0x2020202,
    0xc1c1c1c1, 0xafafafaf, 0xbdbdbdbd, 0x3030303, 0x1010101, 0x13131313, 0x8a8a8a8a, 0x6b6b6b6b,
    0x3a3a3a3a, 0x91919191, 0x11111111, 0x41414141, 0x4f4f4f4f, 0x67676767, 0xdcdcdcdc, 0xeaeaeaea,
    0x97979797, 0xf2f2f2f2, 0xcfcfcfcf, 0xcececece, 0xf0f0f0f0, 0xb4b4b4b4, 0xe6e6e6e6, 0x73737373,
    0x96969696, 0xacacacac, 0x74747474, 0x22222222, 0xe7e7e7e7, 0xadadadad, 0x35353535, 0x85858585,
    0xe2e2e2e2, 0xf9f9f9f9, 0x37373737, 0xe8e8e8e8, 0x1c1c1c1c, 0x75757575, 0xdfdfdfdf, 0x6e6e6e6e,
    0x47474747, 0xf1f1f1f1, 0x1a1a1a1a, 0x71717171, 0x1d1d1d1d, 0x29292929, 0xc5c5c5c5, 0x89898989,
    0x6f6f6f6f, 0xb7b7b7b7, 0x62626262, 0xe0e0e0e, 0xaaaaaaaa, 0x18181818, 0xbebebebe, 0x1b1b1b1b,
    0xfcfcfcfc, 0x56565656, 0x3e3e3e3e, 0x4b4b4b4b, 0xc6c6c6c6, 0xd2d2d2d2, 0x79797979, 0x20202020,
    0x9a9a9a9a, 0xdbdbdbdb, 0xc0c0c0c0, 0xfefefefe, 0x78787878, 0xcdcdcdcd, 0x5a5a5a5a, 0xf4f4f4f4,
    0x1f1f1f1f, 0xdddddddd, 0xa8a8a8a8, 0x33333333, 0x88888888, 0x7070707, 0xc7c7c7c7, 0x31313131,
    0xb1b1b1b1, 0x12121212, 0x10101010, 0x59595959, 0x27272727, 0x80808080, 0xecececec, 0x5f5f5f5f,
    0x60606060, 0x51515151, 0x7f7f7f7f, 0xa9a9a9a9, 0x19191919, 0xb5b5b5b5, 0x4a4a4a4a, 0xd0d0d0d,
    0x2d2d2d2d, 0xe5e5e5e5, 0x7a7a7a7a, 0x9f9f9f9f, 0x93939393, 0xc9c9c9c9, 0x9c9c9c9c, 0xefefefef,
    0xa0a0a0a0, 0xe0e0e0e0, 0x3b3b3b3b, 0x4d4d4d4d, 0xaeaeaeae, 0x2a2a2a2a, 0xf5f5f5f5, 0xb0b0b0b0,
    0xc8c8c8c8, 0xebebebeb, 0xbbbbbbbb, 0x3c3c3c3c, 0x83838383, 0x53535353, 0x99999999, 0x61616161,
    0x17171717, 0x2b2b2b2b, 0x4040404, 0x7e7e7e7e, 0xbabababa, 0x77777777, 0xd6d6d6d6, 0x26262626,
    0xe1e1e1e1, 0x69696969, 0x14141414, 0x63636363, 0x55555555, 0x21212121, 0xc0c0c0c, 0x7d7d7d7d]"

subsection \<open>Additive functions on octets\<close>

definition additive :: "(u8 \<Rightarrow> u8) \<Rightarrow> bool" where
  "additive f \<longleftrightarrow> (\<forall>x y. f (x XOR y) = f x XOR f y)"

lemma octet_sum:
  "x = (if bit x 0 then 1 else 0) XOR (if bit x 1 then 2 else 0) XOR (if bit x 2 then 4 else 0) XOR (if bit x 3 then 8 else 0) XOR
    (if bit x 4 then 16 else 0) XOR (if bit x 5 then 32 else 0) XOR (if bit x 6 then 64 else 0) XOR (if bit x 7 then 128 else 0 :: u8)"
proof -
  have "list_all (\<lambda>x :: u8. x = (if bit x 0 then 1 else 0) XOR (if bit x 1 then 2 else 0) XOR (if bit x 2 then 4 else 0) XOR (if bit x 3 then 8 else 0) XOR
    (if bit x 4 then 16 else 0) XOR (if bit x 5 then 32 else 0) XOR (if bit x 6 then 64 else 0) XOR (if bit x 7 then 128 else 0)) all_octets"
    by code_simp
  then show ?thesis by (rule all_octetsI)
qed

text \<open>Two additive functions are equal when they agree on the powers of two.\<close>

abbreviation (input) octet_basis :: "u8 list" where "octet_basis \<equiv> [1, 2, 4, 8, 16, 32, 64, 128]"

lemma additive_eq:
  assumes f: "additive f" and g: "additive g" and b: "list_all (\<lambda>e. f e = g e) octet_basis"
  shows "f x = g x"
proof -
  have z: "h 0 = 0" if "additive h" for h using that [unfolded additive_def, rule_format, of 0 0] by simp
  have i: "h (if c then e else 0) = (if c then h e else 0)" if "additive h" for h c e using z [OF that] by simp
  have "h x = (if bit x 0 then h 1 else 0) XOR (if bit x 1 then h 2 else 0) XOR (if bit x 2 then h 4 else 0) XOR (if bit x 3 then h 8 else 0) XOR
    (if bit x 4 then h 16 else 0) XOR (if bit x 5 then h 32 else 0) XOR (if bit x 6 then h 64 else 0) XOR (if bit x 7 then h 128 else 0)" if a: "additive h" for h
    using i [OF a] by (subst octet_sum) (simp only: a [unfolded additive_def, rule_format])
  from this [OF f] this [OF g] b show ?thesis by simp
qed

subsection \<open>The field\<close>

lemma multiply_additive_left: "additive (\<lambda>x. gf2_8_multiply x y)"
  by (simp add: additive_def gf2_8_multiply_xor)

lemma multiply_additive_right: "additive (gf2_8_multiply x)"
proof -
  have m: "y AND 1 \<noteq> 0 \<longleftrightarrow> bit y 0" "y AND 2 \<noteq> 0 \<longleftrightarrow> bit y 1" "y AND 4 \<noteq> 0 \<longleftrightarrow> bit y 2" "y AND 8 \<noteq> 0 \<longleftrightarrow> bit y 3"
    "y AND 16 \<noteq> 0 \<longleftrightarrow> bit y 4" "y AND 32 \<noteq> 0 \<longleftrightarrow> bit y 5" "y AND 64 \<noteq> 0 \<longleftrightarrow> bit y 6" "y AND 128 \<noteq> 0 \<longleftrightarrow> bit y 7" for y :: u8
    using and_exp_eq_0_iff_not_bit [of y 0] and_exp_eq_0_iff_not_bit [of y 1] and_exp_eq_0_iff_not_bit [of y 2] and_exp_eq_0_iff_not_bit [of y 3]
      and_exp_eq_0_iff_not_bit [of y 4] and_exp_eq_0_iff_not_bit [of y 5] and_exp_eq_0_iff_not_bit [of y 6] and_exp_eq_0_iff_not_bit [of y 7] by simp_all
  have add: "(if b then z XOR u else z) = z XOR (if b then u else 0)" for b and z u :: u8 by simp
  have dist: "(if b \<noteq> c then u else 0) = (if b then u else 0) XOR (if c then u else 0)" for b c and u :: u8 by simp
  show ?thesis unfolding additive_def gf2_8_multiply_def Let_def m bit_xor_iff add dist
    by (simp only: xor.left_neutral xor.assoc xor.left_commute xor.commute) simp
qed

lemma additive_compose: "additive f \<Longrightarrow> additive g \<Longrightarrow> additive (\<lambda>x. f (g x))"
  by (simp add: additive_def)

lemma multiply_commute: "gf2_8_multiply x y = gf2_8_multiply y x"
proof (rule additive_eq [OF multiply_additive_right multiply_additive_left])
  have "list_all (\<lambda>e. \<forall>x. gf2_8_multiply x e = gf2_8_multiply e x) octet_basis"
  proof -
    have "list_all (\<lambda>e. list_all (\<lambda>x. gf2_8_multiply x e = gf2_8_multiply e x) octet_basis) octet_basis" by code_simp
    then show ?thesis
      by (rule list.pred_mono_strong) (blast intro: additive_eq [OF multiply_additive_left multiply_additive_right])
  qed
  then show "list_all (\<lambda>e. gf2_8_multiply x e = gf2_8_multiply e x) octet_basis" by (rule list.pred_mono_strong) blast
qed

text \<open>Multiplication by a power of two is repeated shifting, and shifting passes through a product.\<close>

lemma multiply_basis:
  "gf2_8_multiply x 1 = x" "gf2_8_multiply x 2 = gf2_8_shift x" "gf2_8_multiply x 4 = gf2_8_shift (gf2_8_shift x)"
  "gf2_8_multiply x 8 = (gf2_8_shift ^^ 3) x" "gf2_8_multiply x 16 = (gf2_8_shift ^^ 4) x" "gf2_8_multiply x 32 = (gf2_8_shift ^^ 5) x"
  "gf2_8_multiply x 64 = (gf2_8_shift ^^ 6) x" "gf2_8_multiply x 128 = (gf2_8_shift ^^ 7) x"
proof -
  have p: "(g ^^ 3) x = g (g (g x))" "(g ^^ 4) x = g (g (g (g x)))" "(g ^^ 5) x = g (g (g (g (g x))))"
    "(g ^^ 6) x = g (g (g (g (g (g x)))))" "(g ^^ 7) x = g (g (g (g (g (g (g x))))))" for g :: "u8 \<Rightarrow> u8"
    by (simp_all add: numeral_eq_Suc)
  show "gf2_8_multiply x 1 = x" "gf2_8_multiply x 2 = gf2_8_shift x" "gf2_8_multiply x 4 = gf2_8_shift (gf2_8_shift x)"
    "gf2_8_multiply x 8 = (gf2_8_shift ^^ 3) x" "gf2_8_multiply x 16 = (gf2_8_shift ^^ 4) x" "gf2_8_multiply x 32 = (gf2_8_shift ^^ 5) x"
    "gf2_8_multiply x 64 = (gf2_8_shift ^^ 6) x" "gf2_8_multiply x 128 = (gf2_8_shift ^^ 7) x"
    unfolding p by (simp_all add: gf2_8_multiply_def Let_def)
qed

lemma shift_multiply: "gf2_8_multiply (gf2_8_shift x) y = gf2_8_shift (gf2_8_multiply x y)"
proof -
  have sh: "additive gf2_8_shift" by (simp add: additive_def gf2_8_shift_xor)
  show ?thesis
    by (rule additive_eq [OF multiply_additive_right additive_compose [OF sh multiply_additive_right]]) (simp add: multiply_basis funpow_swap1)
qed

lemma multiply_shift: "gf2_8_multiply x ((gf2_8_shift ^^ n) y) = (gf2_8_shift ^^ n) (gf2_8_multiply x y)"
  by (induction n) (simp_all add: shift_multiply multiply_commute [of x])

lemma multiply_assoc: "gf2_8_multiply (gf2_8_multiply x y) z = gf2_8_multiply x (gf2_8_multiply y z)"
  by (rule additive_eq [OF multiply_additive_right additive_compose [OF multiply_additive_right multiply_additive_right]])
    (use multiply_shift [of x 1] multiply_shift [of x 2] in \<open>simp add: multiply_basis multiply_shift numeral_2_eq_2\<close>)

lemma inverse_unique:
  assumes "gf2_8_multiply i x = 1" "gf2_8_multiply y x = 1"
  shows "i = y"
proof -
  have "i = gf2_8_multiply i (gf2_8_multiply y x)" using assms(2) by (simp add: multiply_basis)
  also have "\<dots> = gf2_8_multiply y (gf2_8_multiply i x)" by (metis multiply_assoc multiply_commute)
  finally show ?thesis using assms(1) by (simp add: multiply_basis)
qed

text \<open>The search finds the inverse.\<close>

lemma inverse_from:
  assumes "gf2_8_multiply y x = 1" "i \<le> unat y"
  shows "gf2_8_inverse_from i x = y"
  using assms(2)
proof (induction "unat y - i" arbitrary: i)
  case 0
  then have "i = unat y" by simp
  then have "of_nat i = y" "i < 256" using unat_octet_less [of y] by simp_all
  then show ?case using assms(1) by (subst gf2_8_inverse_from.simps) simp
next
  case (Suc k)
  have i: "i < 256" "i < unat y" using Suc.hyps(2) unat_octet_less [of y] by simp_all
  have "(of_nat i :: u8) \<noteq> y" using i by (auto simp: unsigned_of_nat take_bit_nat_eq_self)
  then have "gf2_8_multiply (of_nat i) x \<noteq> 1" using inverse_unique assms(1) by blast
  then show ?case using Suc i by (subst gf2_8_inverse_from.simps) simp
qed

lemma compute_inverse: "gf2_8_multiply y x = 1 \<Longrightarrow> gf2_8_compute_inverse x = y"
  using inverse_from [of y x 0] by (auto simp: gf2_8_compute_inverse_def multiply_commute [of _ 0])

text \<open>The inverses, checked by multiplication.\<close>

definition inverses :: "u8 list" where
  "inverses =
   [0x00, 0x01, 0x8d, 0xf6, 0xcb, 0x52, 0x7b, 0xd1, 0xe8, 0x4f, 0x29, 0xc0, 0xb0, 0xe1, 0xe5, 0xc7,
    0x74, 0xb4, 0xaa, 0x4b, 0x99, 0x2b, 0x60, 0x5f, 0x58, 0x3f, 0xfd, 0xcc, 0xff, 0x40, 0xee, 0xb2,
    0x3a, 0x6e, 0x5a, 0xf1, 0x55, 0x4d, 0xa8, 0xc9, 0xc1, 0x0a, 0x98, 0x15, 0x30, 0x44, 0xa2, 0xc2,
    0x2c, 0x45, 0x92, 0x6c, 0xf3, 0x39, 0x66, 0x42, 0xf2, 0x35, 0x20, 0x6f, 0x77, 0xbb, 0x59, 0x19,
    0x1d, 0xfe, 0x37, 0x67, 0x2d, 0x31, 0xf5, 0x69, 0xa7, 0x64, 0xab, 0x13, 0x54, 0x25, 0xe9, 0x09,
    0xed, 0x5c, 0x05, 0xca, 0x4c, 0x24, 0x87, 0xbf, 0x18, 0x3e, 0x22, 0xf0, 0x51, 0xec, 0x61, 0x17,
    0x16, 0x5e, 0xaf, 0xd3, 0x49, 0xa6, 0x36, 0x43, 0xf4, 0x47, 0x91, 0xdf, 0x33, 0x93, 0x21, 0x3b,
    0x79, 0xb7, 0x97, 0x85, 0x10, 0xb5, 0xba, 0x3c, 0xb6, 0x70, 0xd0, 0x06, 0xa1, 0xfa, 0x81, 0x82,
    0x83, 0x7e, 0x7f, 0x80, 0x96, 0x73, 0xbe, 0x56, 0x9b, 0x9e, 0x95, 0xd9, 0xf7, 0x02, 0xb9, 0xa4,
    0xde, 0x6a, 0x32, 0x6d, 0xd8, 0x8a, 0x84, 0x72, 0x2a, 0x14, 0x9f, 0x88, 0xf9, 0xdc, 0x89, 0x9a,
    0xfb, 0x7c, 0x2e, 0xc3, 0x8f, 0xb8, 0x65, 0x48, 0x26, 0xc8, 0x12, 0x4a, 0xce, 0xe7, 0xd2, 0x62,
    0x0c, 0xe0, 0x1f, 0xef, 0x11, 0x75, 0x78, 0x71, 0xa5, 0x8e, 0x76, 0x3d, 0xbd, 0xbc, 0x86, 0x57,
    0x0b, 0x28, 0x2f, 0xa3, 0xda, 0xd4, 0xe4, 0x0f, 0xa9, 0x27, 0x53, 0x04, 0x1b, 0xfc, 0xac, 0xe6,
    0x7a, 0x07, 0xae, 0x63, 0xc5, 0xdb, 0xe2, 0xea, 0x94, 0x8b, 0xc4, 0xd5, 0x9d, 0xf8, 0x90, 0x6b,
    0xb1, 0x0d, 0xd6, 0xeb, 0xc6, 0x0e, 0xcf, 0xad, 0x08, 0x4e, 0xd7, 0xe3, 0x5d, 0x50, 0x1e, 0xb3,
    0x5b, 0x23, 0x38, 0x34, 0x68, 0x46, 0x03, 0x8c, 0xdd, 0x9c, 0x7d, 0xa0, 0xcd, 0x1a, 0x41, 0x1c]"

lemma inverses_ok: "list_all (\<lambda>x. x = 0 \<or> gf2_8_multiply (inverses ! unat x) x = 1) all_octets"
  by code_simp

lemma compute_inverse_eq: "gf2_8_compute_inverse x = inverses ! unat x"
proof (cases "x = 0")
  case True
  then show ?thesis by (simp add: gf2_8_compute_inverse_def inverses_def)
next
  case False
  then show ?thesis using all_octetsI [OF inverses_ok, of x] by (intro compute_inverse) simp
qed

subsection \<open>The tables\<close>

lemma sbox_entry_eq: "sbox_entry (unat x) = sub_byte x"
proof -
  have "map (\<lambda>y. A_times_x_plus_b affine_A y affine_b) inverses = aes_sbox" by code_simp
  moreover have "length inverses = 256" by (simp add: inverses_def)
  ultimately have "A_times_x_plus_b affine_A (inverses ! unat x) affine_b = aes_sbox ! unat x"
    using unat_octet_less [of x] by (metis nth_map)
  then show ?thesis by (simp add: sbox_entry_def compute_inverse_eq sub_byte_def)
qed

lemma sbox_entry_nth: "i < 256 \<Longrightarrow> sbox_entry i = aes_sbox ! i"
  using sbox_entry_eq [of "of_nat i"] by (simp add: sub_byte_def unsigned_of_nat take_bit_nat_eq_self)

text \<open>The entries already written, when the box is injective.\<close>

lemma init_sbox_prefix:
  fixes s v :: "u8 list"
  assumes "length s = 256" "length v = 256" "n \<le> 256"
  shows "\<exists>s' v'. foldl (\<lambda>(sbox, inv_sbox) i. let x = sbox_entry i in (sbox[i := x], inv_sbox[unat x := of_nat i])) (s, v) [0..<n] = (s', v') \<and>
    length s' = 256 \<and> length v' = 256 \<and> (\<forall>i < n. s' ! i = sbox_entry i) \<and> (\<forall>i < n. v' ! unat (sbox_entry i) = of_nat i)"
  using assms(3)
proof (induction n)
  case (Suc n)
  then obtain s' v' where IH: "foldl (\<lambda>(sbox, inv_sbox) i. let x = sbox_entry i in (sbox[i := x], inv_sbox[unat x := of_nat i])) (s, v) [0..<n] = (s', v')"
    "length s' = 256" "length v' = 256" "\<forall>i < n. s' ! i = sbox_entry i" "\<forall>i < n. v' ! unat (sbox_entry i) = of_nat i" by auto
  have inj: "unat (sbox_entry i) \<noteq> unat (sbox_entry n)" if "i < n" for i
  proof
    assume "unat (sbox_entry i) = unat (sbox_entry n)"
    then have "sbox_entry i = sbox_entry n" by (simp only: word_unat_eq_iff)
    then have "sub_byte (of_nat i) = sub_byte (of_nat n)" using that Suc.prems sbox_entry_eq [of "of_nat i"] sbox_entry_eq [of "of_nat n"]
      by (simp add: unsigned_of_nat take_bit_nat_eq_self)
    then have "(of_nat i :: u8) = of_nat n" by (metis inv_sub_byte_sub_byte)
    then have "unat (of_nat i :: u8) = unat (of_nat n :: u8)" by simp
    then show False using that Suc.prems by (simp add: unsigned_of_nat take_bit_nat_eq_self)
  qed
  show ?case using IH(1-5) inj not_sym [OF inj] Suc.prems unat_octet_less [of "sbox_entry n"]
    by (intro exI [of _ "s'[n := sbox_entry n]"] exI [of _ "v'[unat (sbox_entry n) := of_nat n]"]) (auto simp: Let_def nth_list_update less_Suc_eq)
qed (use assms in simp)

lemma init_sbox_eq:
  assumes "length s = 256" "length v = 256"
  shows "aes_init_sbox (s, v) = (aes_sbox, aes_inv_sbox)"
proof -
  obtain s' v' where r: "aes_init_sbox (s, v) = (s', v')" "length s' = 256" "length v' = 256" "\<forall>i < 256. s' ! i = sbox_entry i"
      "\<forall>i < 256. v' ! unat (sbox_entry i) = of_nat i"
    using init_sbox_prefix [OF assms, of 256] unfolding aes_init_sbox_def by auto
  have "s' = aes_sbox" using r(2,4) by (intro nth_equalityI) (simp_all add: length_tables sbox_entry_nth)
  moreover have "v' ! j = aes_inv_sbox ! j" if "j < 256" for j
  proof -
    let ?x = "inv_sub_byte (of_nat j)"
    have "list_all (\<lambda>b. sub_byte (inv_sub_byte b) = b) all_octets"
      unfolding all_octets_def sub_byte_def inv_sub_byte_def aes_sbox_def aes_inv_sbox_def by simp
    then have "sub_byte ?x = of_nat j" by (rule all_octetsI)
    then have "unat (sbox_entry (unat ?x)) = j" using that by (simp add: sbox_entry_eq unsigned_of_nat take_bit_nat_eq_self)
    then have "v' ! j = of_nat (unat ?x)" using r(5) unat_octet_less [of ?x] by metis
    then show ?thesis using that by (simp add: inv_sub_byte_def unsigned_of_nat take_bit_nat_eq_self)
  qed
  then have "v' = aes_inv_sbox" using r(3) by (intro nth_equalityI) (simp_all add: length_tables)
  ultimately show ?thesis using r(1) by simp
qed

lemma U4_entries: "U4 = map (\<lambda>x. le32_of x x x x) aes_inv_sbox"
  unfolding U4_def aes_inv_sbox_def by (simp add: le32_of_def)

text \<open>
  C38: the tables of AES are the ones that the generator computes. Whatever its arrays hold at the start, the search for
  inverses and the affine map give the substitution box of \<^verbatim>\<open>aes.c\<close> and its inverse, and the combined tables are
  \<open>T0\<close> to \<open>T3\<close> and \<open>U0\<close> to \<open>U4\<close> of \<^verbatim>\<open>aes.c\<close>, entry by entry.
\<close>

theorem generated_tables:
  assumes "length s = 256" and "length v = 256"
  shows "aes_init_sbox (s, v) = (aes_sbox, aes_inv_sbox) \<and> aes_compute_tables (s, v) = (T0, T1, T2, T3) \<and>
    aes_compute_inv_tables (snd (aes_init_sbox (s, v))) = (U0, U1, U2, U3, U4)"
proof -
  note i = init_sbox_eq [OF assms]
  have "aes_compute_tables (s, v) = (T0, T1, T2, T3)"
    unfolding aes_compute_tables_def i Let_def T0_entries T1_entries T2_entries T3_entries
    by (simp add: list_eq_iff_nth_eq length_tables gf2_8_products xor.commute del: upt_Suc)
  moreover have "aes_compute_inv_tables aes_inv_sbox = (U0, U1, U2, U3, U4)"
    unfolding aes_compute_inv_tables_def Let_def U0_entries U1_entries U2_entries U3_entries U4_entries multiply_commute [of 14] multiply_commute [of 9] multiply_commute [of 13] multiply_commute [of 11]
    by (simp add: list_eq_iff_nth_eq length_tables del: upt_Suc)
  ultimately show ?thesis using i by simp
qed

theorem generated_tables_witness:
  "aes_init_sbox (replicate 256 0, replicate 256 0) = (aes_sbox, aes_inv_sbox) \<and> aes_compute_tables (replicate 256 0, replicate 256 0) = (T0, T1, T2, T3) \<and>
    aes_compute_inv_tables (snd (aes_init_sbox (replicate 256 0, replicate 256 0))) = (U0, U1, U2, U3, U4)"
  by (rule generated_tables) simp_all

end
