(* ===== verification/Crypto_Math.thy ===== *)
theory Crypto_Math
  imports Datatypes
begin

text \<open>
  The functions of \<^verbatim>\<open>crypto/math/math.c\<close> that \<^verbatim>\<open>crypto/math/datatypes.c\<close> does not have as well: weights, lowest
  bits, printing and parsing of short vectors, the second left shift and bit vectors. The file belongs to the library
  for the table generator. The lemmas give the meaning of the table look-ups and the round trips, and describe the
  bit vector functions, which the source marks as untested.
\<close>

subsection \<open>Weights and lowest bits\<close>

definition low_bit :: "int list" where
  "low_bit = [
  - 1, 0, 1, 0, 2, 0, 1, 0, 3, 0, 1, 0, 2, 0, 1, 0, 4, 0, 1, 0, 2, 0, 1, 0, 3, 0, 1, 0, 2, 0, 1, 0,
  5, 0, 1, 0, 2, 0, 1, 0, 3, 0, 1, 0, 2, 0, 1, 0, 4, 0, 1, 0, 2, 0, 1, 0, 3, 0, 1, 0, 2, 0, 1, 0,
  6, 0, 1, 0, 2, 0, 1, 0, 3, 0, 1, 0, 2, 0, 1, 0, 4, 0, 1, 0, 2, 0, 1, 0, 3, 0, 1, 0, 2, 0, 1, 0,
  5, 0, 1, 0, 2, 0, 1, 0, 3, 0, 1, 0, 2, 0, 1, 0, 4, 0, 1, 0, 2, 0, 1, 0, 3, 0, 1, 0, 2, 0, 1, 0,
  7, 0, 1, 0, 2, 0, 1, 0, 3, 0, 1, 0, 2, 0, 1, 0, 4, 0, 1, 0, 2, 0, 1, 0, 3, 0, 1, 0, 2, 0, 1, 0,
  5, 0, 1, 0, 2, 0, 1, 0, 3, 0, 1, 0, 2, 0, 1, 0, 4, 0, 1, 0, 2, 0, 1, 0, 3, 0, 1, 0, 2, 0, 1, 0,
  6, 0, 1, 0, 2, 0, 1, 0, 3, 0, 1, 0, 2, 0, 1, 0, 4, 0, 1, 0, 2, 0, 1, 0, 3, 0, 1, 0, 2, 0, 1, 0,
  5, 0, 1, 0, 2, 0, 1, 0, 3, 0, 1, 0, 2, 0, 1, 0, 4, 0, 1, 0, 2, 0, 1, 0, 3, 0, 1, 0, 2, 0, 1, 0]"

definition high_bit :: "int list" where
  "high_bit = [
  - 1, 0, 1, 1, 2, 2, 2, 2, 3, 3, 3, 3, 3, 3, 3, 3, 4, 4, 4, 4, 4, 4, 4, 4, 4, 4, 4, 4, 4, 4, 4, 4,
  5, 5, 5, 5, 5, 5, 5, 5, 5, 5, 5, 5, 5, 5, 5, 5, 5, 5, 5, 5, 5, 5, 5, 5, 5, 5, 5, 5, 5, 5, 5, 5,
  6, 6, 6, 6, 6, 6, 6, 6, 6, 6, 6, 6, 6, 6, 6, 6, 6, 6, 6, 6, 6, 6, 6, 6, 6, 6, 6, 6, 6, 6, 6, 6,
  6, 6, 6, 6, 6, 6, 6, 6, 6, 6, 6, 6, 6, 6, 6, 6, 6, 6, 6, 6, 6, 6, 6, 6, 6, 6, 6, 6, 6, 6, 6, 6,
  7, 7, 7, 7, 7, 7, 7, 7, 7, 7, 7, 7, 7, 7, 7, 7, 7, 7, 7, 7, 7, 7, 7, 7, 7, 7, 7, 7, 7, 7, 7, 7,
  7, 7, 7, 7, 7, 7, 7, 7, 7, 7, 7, 7, 7, 7, 7, 7, 7, 7, 7, 7, 7, 7, 7, 7, 7, 7, 7, 7, 7, 7, 7, 7,
  7, 7, 7, 7, 7, 7, 7, 7, 7, 7, 7, 7, 7, 7, 7, 7, 7, 7, 7, 7, 7, 7, 7, 7, 7, 7, 7, 7, 7, 7, 7, 7,
  7, 7, 7, 7, 7, 7, 7, 7, 7, 7, 7, 7, 7, 7, 7, 7, 7, 7, 7, 7, 7, 7, 7, 7, 7, 7, 7, 7, 7, 7, 7, 7]"

definition v32_weight :: "u32 \<Rightarrow> u8" where
  "v32_weight a = of_nat (sum_list (map octet_get_weight (le32_bytes a)))"

definition v32_distance :: "u32 \<Rightarrow> u32 \<Rightarrow> u8" where
  "v32_distance x y = v32_weight (x XOR y)"

definition v32_dot_product :: "u32 \<Rightarrow> u32 \<Rightarrow> u32" where
  "v32_dot_product a b = ucast (v32_weight (a AND b)) AND 1"

definition v32_low_bit :: "u32 \<Rightarrow> int" where
  "v32_low_bit w =
     (let v = (\<lambda>i. low_bit ! unat (le32_bytes w ! i))
      in if v 0 \<noteq> - 1 then v 0
         else if v 1 \<noteq> - 1 then v 1 + 8
         else if v 2 \<noteq> - 1 then v 2 + 16
         else if v 3 = - 1 then - 1 else v 3 + 24)"

subsection \<open>Printing\<close>

definition v16_bytes :: "u16 \<Rightarrow> octets" where
  "v16_bytes x = [ucast x, ucast (drop_bit 8 x)]"

definition v64_bytes :: "u64 \<Rightarrow> octets" where
  "v64_bytes x = le32_bytes (ucast x) @ le32_bytes (ucast (drop_bit 32 x))"

text \<open>The string before the terminating zero. \<^verbatim>\<open>v32_bit_string\<close> starts each octet at its highest bit, the others at its lowest.\<close>

definition octet_bit_string :: "u8 \<Rightarrow> octets" where
  "octet_bit_string x = map (\<lambda>k. if x AND push_bit k 1 = 0 then 0x30 else 0x31) [0..<8]"

definition v16_bit_string :: "u16 \<Rightarrow> octets" where
  "v16_bit_string x = concat (map octet_bit_string (v16_bytes x))"

definition v32_bit_string :: "u32 \<Rightarrow> octets" where
  "v32_bit_string x = concat (map (\<lambda>b. map (\<lambda>k. if b AND drop_bit k 128 = 0 then 0x30 else 0x31) [0..<8]) (le32_bytes x))"

definition v64_bit_string :: "u64 \<Rightarrow> octets" where
  "v64_bit_string x = concat (map octet_bit_string (v64_bytes x))"

definition octet_hex_string :: "u8 \<Rightarrow> octets" where
  "octet_hex_string x = [nibble_to_hex_char (drop_bit 4 x), nibble_to_hex_char (x AND 0xF)]"

definition v16_hex_string :: "u16 \<Rightarrow> octets" where
  "v16_hex_string x = concat (map octet_hex_string (v16_bytes x))"

definition v32_hex_string :: "u32 \<Rightarrow> octets" where
  "v32_hex_string x = concat (map octet_hex_string (le32_bytes x))"

definition v64_hex_string :: "u64 \<Rightarrow> octets" where
  "v64_hex_string x = concat (map octet_hex_string (v64_bytes x))"

definition char_to_hex_string :: "octets \<Rightarrow> nat \<Rightarrow> octets option" where
  "char_to_hex_string x num_char =
     (let n = (if 16 \<le> num_char then 16 else num_char)
      in if length x < n then None else Some (concat (map octet_hex_string (take n x))))"

subsection \<open>Parsing\<close>

text \<open>
  A character that is not a digit gives \<open>- 1\<close>, that is, an octet of ones. \<open>None\<close> is a read past the string.
\<close>

definition hex_string_to_octet :: "octets \<Rightarrow> u8 option" where
  "hex_string_to_octet s =
     (case s of c0 # c1 # _ \<Rightarrow> Some (push_bit 4 (word_of_int (hex_char_to_nibble c0)) OR word_of_int (hex_char_to_nibble c1)) | _ \<Rightarrow> None)"

fun hex_octets :: "octets \<Rightarrow> nat \<Rightarrow> octets option" where
  "hex_octets s 0 = Some []"
| "hex_octets s (Suc n) = Option.bind (hex_string_to_octet s) (\<lambda>x. map_option ((#) x) (hex_octets (drop 2 s) n))"

definition hex_string_to_v16 :: "octets \<Rightarrow> u16 option" where
  "hex_string_to_v16 s = map_option (\<lambda>v. ucast (v ! 0) OR push_bit 8 (ucast (v ! 1))) (hex_octets s 2)"

definition hex_string_to_v32 :: "octets \<Rightarrow> u32 option" where
  "hex_string_to_v32 s = map_option (\<lambda>v. le32_of (v ! 0) (v ! 1) (v ! 2) (v ! 3)) (hex_octets s 4)"

definition hex_string_to_v64 :: "octets \<Rightarrow> u64 option" where
  "hex_string_to_v64 s =
     map_option (\<lambda>v. ucast (le32_of (v ! 0) (v ! 1) (v ! 2) (v ! 3)) OR push_bit 32 (ucast (le32_of (v ! 4) (v ! 5) (v ! 6) (v ! 7)))) (hex_octets s 8)"

definition hex_string_to_v128 :: "octets \<Rightarrow> v128_t option" where
  "hex_string_to_v128 s = map_option v128_of_octets (hex_octets s 16)"

text \<open>\<open>None\<close> is a string without its terminating zero.\<close>

fun hex_digits :: "octets \<Rightarrow> int \<Rightarrow> int option" where
  "hex_digits [] count = None"
| "hex_digits (c # s) count = (if c = 0 then Some count else if hex_char_to_nibble c = - 1 then Some (- 1) else hex_digits s (count + 1))"

definition hex_string_length :: "octets \<Rightarrow> int option" where
  "hex_string_length s = hex_digits (dropWhile (\<lambda>c. c = 0x30) s) 0"

subsection \<open>The second left shift\<close>

definition v128_left_shift2 :: "v128_t \<Rightarrow> nat \<Rightarrow> v128_t" where
  "v128_left_shift2 x num_bits =
     (let word_shift = num_bits div 32; bit_shift = num_bits mod 32;
          x = foldl (\<lambda>x i. set_v32 x i (push_bit bit_shift (v32 x (i + word_shift)))) x [0..<4 - word_shift]
      in foldl (\<lambda>x i. set_v32 x i 0) x [4 - word_shift..<word_shift])"

subsection \<open>Bit vectors\<close>

text \<open>
  A pointer is null or the words of its block; \<^verbatim>\<open>bitvector_alloc\<close> asks for as many octets as there may be words, so that
  only the first word lies inside the block. The words are not initialised.
\<close>

record bitvector_t =
  bv_length :: u32
  bv_word :: "u32 list option"

abbreviation (input) BITVECTOR_MAX_WORDS :: nat where "BITVECTOR_MAX_WORDS \<equiv> 5"

definition bitvector_alloc :: "u32 list option \<Rightarrow> bitvector_t \<Rightarrow> nat \<Rightarrow> int \<times> bitvector_t" where
  "bitvector_alloc block v len =
     (if BITVECTOR_MAX_WORDS < (len + 4 - 1) div 4 then (- 1, v)
      else
        (case map_option (take (BITVECTOR_MAX_WORDS div 4)) block of
           None \<Rightarrow> (- 1, v\<lparr>bv_word := None\<rparr>)
         | Some w \<Rightarrow> (0, v\<lparr>bv_length := of_nat len, bv_word := (if 0 < len div 32 then None else Some w)\<rparr>)))"

definition bitvector_set_bit :: "bitvector_t \<Rightarrow> nat \<Rightarrow> bitvector_t option" where
  "bitvector_set_bit v bit_index =
     Option.bind (bv_word v) (\<lambda>w. if bit_index div 32 < length w
        then Some (v\<lparr>bv_word := Some (w[bit_index div 32 := w ! (bit_index div 32) OR push_bit (bit_index mod 32) 1])\<rparr>) else None)"

definition bitvector_get_bit :: "bitvector_t \<Rightarrow> nat \<Rightarrow> u32 option" where
  "bitvector_get_bit v bit_index =
     Option.bind (bv_word v) (\<lambda>w. if bit_index div 32 < length w then Some (drop_bit (bit_index mod 32) (w ! (bit_index div 32)) AND 1) else None)"

text \<open>The loop of \<^verbatim>\<open>bitvector_print_hex\<close> counts up from the last word; \<open>None\<close> is a read outside the block.\<close>

function print_words :: "u32 list \<Rightarrow> nat \<Rightarrow> octets option" where
  "print_words w i =
     (if 0 < i then
        (if i < length w
         then map_option (\<lambda>r. map (\<lambda>k. nibble_to_hex_char (ucast (drop_bit (4 * (7 - k)) (w ! i) AND 0xF))) [0..<8] @ r) (print_words w (i + 1))
         else None)
      else Some [])"
  by auto
termination by (relation "measure (\<lambda>(w, i). length w - i)") auto

declare print_words.simps [simp del]

definition bitvector_print_hex :: "bitvector_t \<Rightarrow> (int \<times> octets) option" where
  "bitvector_print_hex v =
     (let m = unat (bv_length v) div 32; n = unat (bv_length v) mod 32
      in if n mod 4 \<noteq> 0 then Some (- 1, [])
         else if bv_length v = 0 then Some (0, [])
         else if m = 0 then Some (0, [])
         else Option.bind (bv_word v) (\<lambda>w. map_option (Pair 0) (print_words w m)))"

text \<open>The value that the loops of \<^verbatim>\<open>bitvector_set_from_hex\<close> compute from a run of digits, and what is left of the string.\<close>

fun hex_word :: "octets \<Rightarrow> nat \<Rightarrow> u32 \<Rightarrow> (u32 \<times> octets) option" where
  "hex_word s 0 tmp = Some (tmp, s)"
| "hex_word [] (Suc n) tmp = None"
| "hex_word (c # s) (Suc n) tmp = (let tmp = word_of_int (hex_char_to_nibble c); tmp = push_bit 4 tmp in hex_word s n tmp)"

fun hex_words :: "octets \<Rightarrow> nat list \<Rightarrow> u32 list \<Rightarrow> u32 list option" where
  "hex_words s [] w = Some w"
| "hex_words s (i # is) w = Option.bind (hex_word s 8 0) (\<lambda>(tmp, s). if i < length w then hex_words s is (w[i := tmp]) else None)"

definition bitvector_set_from_hex :: "bitvector_t \<Rightarrow> octets \<Rightarrow> (int \<times> bitvector_t) option" where
  "bitvector_set_from_hex v s =
     Option.bind (hex_string_length s) (\<lambda>num_hex_chars.
     if num_hex_chars = - 1 then Some (- 1, v)
     else
       (let v = v\<lparr>bv_length := word_of_int (num_hex_chars * 4)\<rparr>;
            m = nat num_hex_chars div 8; n = nat num_hex_chars mod 8
        in if BITVECTOR_MAX_WORDS < m then Some (- 1, v)
           else
             Option.bind (if n = 0 then Some (bv_word v, s)
               else Option.bind (hex_word s n 0) (\<lambda>(tmp, s). Option.bind (bv_word v) (\<lambda>w. if m < length w then Some (Some (w[m := tmp]), s) else None)))
               (\<lambda>(w, s). if m = 0 then Some (0, v\<lparr>bv_word := w\<rparr>)
                  else Option.bind w (\<lambda>w. map_option (\<lambda>w. (0, v\<lparr>bv_word := Some w\<rparr>)) (hex_words s (rev [0..<m]) w)))))"

subsection \<open>Meaning of the tables\<close>

lemma low_bit_octet:
  fixes b :: u8
  shows "low_bit ! unat b = (if b = 0 then - 1 else int (length (takeWhile (\<lambda>k. \<not> bit b k) [0..<8])))"
  by (rule table_lookup [of "\<lambda>b. if b = 0 then - 1 else int (length (takeWhile (\<lambda>k. \<not> bit b k) [0..<8]))"]) code_simp

lemma high_bit_octet:
  fixes b :: u8
  shows "high_bit ! unat b = (if b = 0 then - 1 else 7 - int (length (takeWhile (\<lambda>k. \<not> bit b (7 - k)) [0..<8])))"
  by (rule table_lookup [of "\<lambda>b. if b = 0 then - 1 else 7 - int (length (takeWhile (\<lambda>k. \<not> bit b (7 - k)) [0..<8]))"]) code_simp

text \<open>The first bit that is set.\<close>

definition lowest :: "nat \<Rightarrow> (nat \<Rightarrow> bool) \<Rightarrow> nat \<Rightarrow> bool" where
  "lowest len p n \<longleftrightarrow> n < len \<and> p n \<and> (\<forall>k < n. \<not> p k)"

lemma octet_lowest:
  fixes b :: u8
  assumes "b \<noteq> 0"
  shows "\<exists>n. low_bit ! unat b = int n \<and> lowest 8 (bit b) n"
proof -
  have "list_all (\<lambda>b :: u8. let n = length (takeWhile (\<lambda>k. \<not> bit b k) [0..<8]) in b = 0 \<or> n < 8 \<and> bit b n \<and> list_all (\<lambda>k. \<not> bit b k) [0..<n]) all_octets"
    by code_simp
  moreover define n where "n = length (takeWhile (\<lambda>k. \<not> bit b k) [0..<8])"
  ultimately have n: "b = 0 \<or> n < 8 \<and> bit b n \<and> list_all (\<lambda>k. \<not> bit b k) [0..<n]" using all_octetsI [where w = b] unfolding Let_def n_def by blast
  then have "lowest 8 (bit b) n" using assms by (simp add: lowest_def list_all_iff del: upt_Suc)
  then show ?thesis using assms low_bit_octet [of b, folded n_def] by auto
qed

lemma low_bit_zero: "low_bit ! 0 = - 1"
  by (simp add: low_bit_def)

lemma bit_byte: "i < 4 \<Longrightarrow> k < 8 \<Longrightarrow> bit (le32_bytes w ! i) k = bit w (8 * i + k)"
  by (auto simp: le32_bytes_def bit_simps less_Suc_eq numeral_eq_Suc)

lemma byte_lowest:
  fixes w :: u32
  assumes "i < 4" "\<forall>j < i. le32_bytes w ! j = 0" "le32_bytes w ! i \<noteq> 0"
  shows "\<exists>n < 32. low_bit ! unat (le32_bytes w ! i) + 8 * int i = int n \<and> bit w n \<and> (\<forall>k < n. \<not> bit w k)"
proof -
  obtain m where m: "low_bit ! unat (le32_bytes w ! i) = int m" "lowest 8 (bit (le32_bytes w ! i)) m" using octet_lowest [OF assms(3)] by blast
  have "bit w (8 * i + m)" using m(2) bit_byte [OF assms(1), of m w] by (simp add: lowest_def)
  moreover have "\<not> bit w k" if k: "k < 8 * i + m" for k
  proof -
    have d: "k = 8 * (k div 8) + k mod 8" "k mod 8 < 8" by simp_all
    then have le: "k div 8 \<le> i" using k m(2) unfolding lowest_def by linarith
    have "\<not> bit (le32_bytes w ! (k div 8)) (k mod 8)"
    proof (cases "k div 8 = i")
      case True
      then have "k mod 8 < m" using d k by linarith
      then show ?thesis using True m(2) by (simp add: lowest_def)
    next
      case False
      then show ?thesis using le assms(2) by simp
    qed
    then show ?thesis using bit_byte [of "k div 8" "k mod 8" w] le assms(1) d by simp
  qed
  moreover have "8 * i + m < 32" using m(2) assms(1) unfolding lowest_def by linarith
  ultimately show ?thesis using m(1) by (intro exI [of _ "8 * i + m"]) simp
qed

lemma bytes_zero: "\<forall>i < 4. le32_bytes w ! i = 0 \<Longrightarrow> w = 0"
proof (rule bit_word_eqI)
  fix n assume z: "\<forall>i < 4. le32_bytes w ! i = 0" and "n < LENGTH(32)"
  then have "n div 8 < 4" by simp
  then show "bit w n = bit 0 n" using bit_byte [of "n div 8" "n mod 8" w] z by simp
qed

lemma low_bit_none: "low_bit ! unat b = - 1 \<longleftrightarrow> b = (0 :: u8)"
  using octet_lowest [of b] low_bit_zero by (cases "b = 0") auto

text \<open>The weight of a word is the number of its bits; the scalar product is the parity of the common bits.\<close>

lemma filter_bytes: "length (filter (bit w) [0..<32]) = sum_list (map (\<lambda>b. length (filter (bit b) [0..<8])) (le32_bytes (w :: u32)))"
proof -
  have f: "length (filter (bit w) [a..<c]) = length (filter (bit (le32_bytes w ! i)) [0..<8])" if "i < 4" "a = 8 * i" "c = 8 * i + 8" for i a c
  proof -
    have "[a..<c] = map (\<lambda>k. 8 * i + k) [0..<8]" unfolding that(2,3) by (simp add: map_add_upt add.commute)
    moreover have "filter (\<lambda>k. bit w (8 * i + k)) [0..<8] = filter (bit (le32_bytes w ! i)) [0..<8]"
      using bit_byte [OF that(1), of _ w] by (intro filter_cong) simp_all
    ultimately show ?thesis by (simp add: filter_map comp_def)
  qed
  have "length (filter (bit w) [0..<32]) = length (filter (bit w) [0..<8]) + length (filter (bit w) [8..<16]) +
      length (filter (bit w) [16..<24]) + length (filter (bit w) [24..<32])"
  proof -
    have "[0..<32] = [0..<8] @ [8..<16] @ [16..<24] @ [24..<32 :: nat]" by code_simp
    then show ?thesis by (simp only: filter_append length_append add.assoc)
  qed
  also have "\<dots> = length (filter (bit (le32_bytes w ! 0)) [0..<8]) + length (filter (bit (le32_bytes w ! 1)) [0..<8]) +
      length (filter (bit (le32_bytes w ! 2)) [0..<8]) + length (filter (bit (le32_bytes w ! 3)) [0..<8])"
    by (intro arg_cong2 [of _ _ _ _ "(+)"] f) simp_all
  also have "\<dots> = sum_list (map (\<lambda>b. length (filter (bit b) [0..<8])) [le32_bytes w ! 0, le32_bytes w ! 1, le32_bytes w ! 2, le32_bytes w ! 3])"
    by (simp only: list.map sum_list.Cons sum_list.Nil add.assoc add_0_right)
  also have "[le32_bytes w ! 0, le32_bytes w ! 1, le32_bytes w ! 2, le32_bytes w ! 3] = le32_bytes w" by (simp add: le32_bytes_def)
  finally show ?thesis .
qed

lemma v32_weight_popcount: "unat (v32_weight a) = length (filter (bit a) [0..<32])"
proof -
  have "length (filter (bit a) [0..<32]) \<le> 32" using length_filter_le [of "bit a" "[0..<32]"] by simp
  moreover have "octet_get_weight = (\<lambda>b. length (filter (bit b) [0..<8]))" by (rule ext) (rule octet_weight_popcount)
  then have "sum_list (map octet_get_weight (le32_bytes a)) = length (filter (bit a) [0..<32])" unfolding filter_bytes by (rule arg_cong)
  ultimately show ?thesis by (simp add: v32_weight_def unsigned_of_nat take_bit_nat_eq_self del: upt_Suc)
qed

lemma hex_octets_print: "hex_octets (concat (map octet_hex_string bs) @ rest) (length bs) = Some bs"
proof (induction bs)
  case (Cons b bs)
  have "push_bit 4 (word_of_int (uint (drop_bit 4 b AND 0xF))) OR word_of_int (uint (b AND 0xF AND 0xF)) = b"
  proof (rule all_octetsI [where w = b])
    show "list_all (\<lambda>b :: u8. push_bit 4 (word_of_int (uint (drop_bit 4 b AND 0xF))) OR word_of_int (uint (b AND 0xF AND 0xF)) = b) all_octets"
      by (simp add: all_octets_def)
  qed
  then show ?case using Cons by (simp add: octet_hex_string_def hex_string_to_octet_def nibble_of_hex_char del: word_of_int_uint)
qed simp

text \<open>What is printed in hexadecimal is parsed back, whatever follows.\<close>

lemma v32_hex_roundtrip: "hex_string_to_v32 (v32_hex_string x @ rest) = Some x"
  using hex_octets_print [of "le32_bytes x" rest] le32_of_inverse [of x]
  by (simp add: hex_string_to_v32_def v32_hex_string_def le32_bytes_def numeral_eq_Suc del: hex_octets.simps)

lemma v128_hex_roundtrip: "hex_string_to_v128 (v128_hex_string x @ rest) = Some x"
proof -
  have "map (v8 x) [0..<16] = v128_octets x" using map_nth [of "v128_octets x"] by (simp add: v8_def [abs_def] del: upt_Suc)
  moreover have "v128_hex_string x = concat (map octet_hex_string (map (v8 x) [0..<16]))"
    by (simp only: v128_hex_string_def octet_hex_string_def map_map comp_def)
  ultimately have "v128_hex_string x = concat (map octet_hex_string (v128_octets x))" by simp
  then show ?thesis using hex_octets_print [of "v128_octets x" rest] by (simp add: hex_string_to_v128_def del: hex_octets.simps)
qed

text \<open>
  The bit vector functions: nothing is ever printed; a vector of a word or more makes printing leave the block; each
  word of a hexadecimal string keeps its last digit only.
\<close>

lemma print_words_runs_off: "0 < i \<Longrightarrow> print_words w i = None"
proof (induction "length w - i" arbitrary: i)
  case 0
  then show ?case by (simp add: print_words.simps)
next
  case (Suc k)
  then show ?case by (simp add: print_words.simps [of w i])
qed

lemma print_hex_never_prints: "bitvector_print_hex v = Some (r, out) \<Longrightarrow> out = []"
  by (auto simp: bitvector_print_hex_def Let_def print_words_runs_off Option.bind_eq_Some_conv split: if_splits)

lemma hex_word_last_digit: "hex_word (s @ [c] @ rest) (Suc (length s)) tmp = Some (push_bit 4 (word_of_int (hex_char_to_nibble c)), rest)"
  by (induction s arbitrary: tmp) (simp_all add: Let_def)

lemma bitvector_alloc_short: "fst (bitvector_alloc block v len) = 0 \<Longrightarrow> len \<le> 20"
  by (auto simp: bitvector_alloc_def split: if_splits)

text \<open>
  \<^verbatim>\<open>v32_low_bit\<close> finds the lowest bit of a word. It returns \<open>- 1\<close> for zero and otherwise the least position of a bit
  that is set.
\<close>

theorem v32_low_bit_least:
  "v32_low_bit 0 = - 1 \<and> (\<forall>w. w \<noteq> 0 \<longrightarrow> (\<exists>n < 32. v32_low_bit w = int n \<and> bit w n \<and> (\<forall>k < n. \<not> bit w k)))"
proof (intro conjI allI impI)
  show "v32_low_bit 0 = - 1" by (simp add: v32_low_bit_def le32_bytes_def low_bit_zero)
  fix w :: u32 assume "w \<noteq> 0"
  then have "\<not> (\<forall>i < 4. le32_bytes w ! i = 0)" using bytes_zero by blast
  then have nz: "\<not> (le32_bytes w ! 0 = 0 \<and> le32_bytes w ! 1 = 0 \<and> le32_bytes w ! 2 = 0 \<and> le32_bytes w ! 3 = 0)" by (simp only: all_less_4) blast
  have small: "(\<forall>j < 1. P j) \<longleftrightarrow> P 0" "(\<forall>j < 2. P j) \<longleftrightarrow> P 0 \<and> P 1" "(\<forall>j < 3. P j) \<longleftrightarrow> P 0 \<and> P 1 \<and> P (2 :: nat)" for P
    by (auto simp: numeral_eq_Suc less_Suc_eq)
  note b = byte_lowest [of 0 w] byte_lowest [of 1 w] byte_lowest [of 2 w] byte_lowest [of 3 w]
  show "\<exists>n < 32. v32_low_bit w = int n \<and> bit w n \<and> (\<forall>k < n. \<not> bit w k)"
    unfolding v32_low_bit_def Let_def low_bit_none using b nz unfolding small by auto
qed

theorem v32_low_bit_least_witness:
  "\<exists>n < 32. v32_low_bit 0x50 = int n \<and> bit (0x50 :: u32) n \<and> (\<forall>k < n. \<not> bit (0x50 :: u32) k)"
  using conjunct2 [OF v32_low_bit_least, rule_format, of "0x50"] by simp

end
