(* ===== verification/Ut_Sim.thy ===== *)
theory Ut_Sim
  imports Prelude "HOL-Library.Multiset"
begin

text \<open>
  The simulator of an unreliable connection, \<^verbatim>\<open>crypto/replay/ut_sim.c\<close>, with which the replay databases are tested: a
  buffer of indices that is shuffled before each delivery. \<^verbatim>\<open>qsort\<close> of the C library is a parameter, one function for
  each call, since the comparison is random; what is used of it is that it permutes the array. The lemmas show that
  the simulator loses and repeats nothing and bounds how far it may reorder.
\<close>

abbreviation (input) UT_BUF :: nat where "UT_BUF \<equiv> 160"

record ut_connection =
  ut_index :: u32
  buffer :: "u32 list"

definition ut_init :: "(u32 list \<Rightarrow> u32 list) \<Rightarrow> ut_connection" where
  "ut_init qsort = \<lparr>ut_index = of_nat UT_BUF - 1, buffer = qsort (map of_nat [0..<UT_BUF])\<rparr>"

definition ut_next_index :: "(u32 list \<Rightarrow> u32 list) \<Rightarrow> ut_connection \<Rightarrow> u32 \<times> ut_connection" where
  "ut_next_index qsort utc =
     (let tmp = buffer utc ! 0; i = ut_index utc + 1
      in (tmp, \<lparr>ut_index = i, buffer = qsort ((buffer utc)[0 := i])\<rparr>))"

text \<open>The first indices that a connection delivers; \<open>qs\<close> are the calls of \<^verbatim>\<open>qsort\<close> in order.\<close>

fun deliveries :: "(nat \<Rightarrow> u32 list \<Rightarrow> u32 list) \<Rightarrow> nat \<Rightarrow> u32 list \<times> ut_connection" where
  "deliveries qs 0 = ([], ut_init (qs 0))"
| "deliveries qs (Suc n) = (let (out, utc) = deliveries qs n; (i, utc) = ut_next_index (qs (Suc n)) utc in (out @ [i], utc))"

lemma mset_update_head: "xs \<noteq> [] \<Longrightarrow> add_mset (xs ! 0) (mset (xs[0 := y])) = add_mset y (mset xs)"
  by (cases xs) simp_all

lemma mset_map_snoc: "mset (map f (xs @ [x])) = add_mset (f x) (mset (map f xs))"
  by simp

lemma deliveries_invariant:
  assumes q: "\<And>n xs. mset (qs n xs) = mset xs"
  shows "let (out, utc) = deliveries qs n in
    length out = n \<and> length (buffer utc) = UT_BUF \<and> ut_index utc = of_nat (n + UT_BUF - 1) \<and>
    mset out + mset (buffer utc) = mset (map of_nat [0..<n + UT_BUF])"
proof (induction n)
  case 0
  show ?case using mset_eq_length [OF q [of 0 "map of_nat [0..<UT_BUF]"]] by (simp add: ut_init_def q del: upt_Suc)
next
  case (Suc n)
  obtain out utc where d: "deliveries qs n = (out, utc)" by fastforce
  let ?b = "(buffer utc)[0 := of_nat (n + UT_BUF) :: u32]"
  have IH: "length out = n" "length (buffer utc) = UT_BUF" "ut_index utc = of_nat (n + UT_BUF - 1)"
    "mset out + mset (buffer utc) = mset (map of_nat [0..<n + UT_BUF])" using Suc d by simp_all
  have i: "ut_index utc + 1 = of_nat (n + UT_BUF)" unfolding IH(3) by (simp flip: of_nat_Suc)
  have "buffer utc \<noteq> []" using IH(2) by auto
  then have step: "mset (out @ [buffer utc ! 0]) + mset ?b = add_mset (of_nat (n + UT_BUF)) (mset out + mset (buffer utc))"
    using mset_update_head [of "buffer utc" "of_nat (n + UT_BUF)"] by simp
  have "[0..<Suc n + UT_BUF] = [0..<n + UT_BUF] @ [n + UT_BUF]" using upt_Suc_append [of 0 "n + UT_BUF"] by (simp only: add_Suc zero_le)
  then have next_range: "add_mset (of_nat (n + UT_BUF)) (mset out + mset (buffer utc)) = mset (map of_nat [0..<Suc n + UT_BUF] :: u32 list)"
    unfolding IH(4) by (simp only: mset_map_snoc)
  from step have "mset (out @ [buffer utc ! 0]) + mset (qs (Suc n) ?b) = mset (map of_nat [0..<Suc n + UT_BUF])" unfolding q next_range .
  moreover have "length (qs (Suc n) ?b) = UT_BUF" using mset_eq_length [OF q [of "Suc n" ?b]] IH(2) by simp
  moreover have "ut_next_index (qs (Suc n)) utc = (buffer utc ! 0, \<lparr>ut_index = of_nat (n + UT_BUF), buffer = qs (Suc n) ?b\<rparr>)"
    unfolding ut_next_index_def Let_def i ..
  then have "deliveries qs (Suc n) = (out @ [buffer utc ! 0], \<lparr>ut_index = of_nat (n + UT_BUF), buffer = qs (Suc n) ?b\<rparr>)"
    by (simp only: deliveries.simps d Let_def prod.case)
  ultimately show ?case using IH(1)
    by (simp only: Let_def prod.case ut_connection.select_convs length_append_singleton simp_thms add_Suc diff_Suc_1)
qed

text \<open>
  The simulated connection neither repeats nor loses a packet. For every behaviour of \<^verbatim>\<open>qsort\<close> that permutes the
  array, the first \<open>n\<close> indices it delivers are distinct, each is below \<open>n + 160\<close>, and every index below that
  bound that was not delivered is still in the buffer, as long as the 32-bit counter does not wrap.
\<close>

theorem deliveries_distinct:
  assumes q: "\<And>n xs. mset (qs n xs) = mset xs" and n: "n + UT_BUF \<le> 2 ^ 32"
  defines "out \<equiv> fst (deliveries qs n)" and "rest \<equiv> buffer (snd (deliveries qs n))"
  shows "length out = n \<and> distinct (out @ rest) \<and> unat ` set (out @ rest) = {0..<n + UT_BUF}"
proof -
  have i: "length out = n" "mset (out @ rest) = mset (map of_nat [0..<n + UT_BUF] :: u32 list)"
    using deliveries_invariant [of qs n] q unfolding out_def rest_def by (simp_all add: case_prod_unfold Let_def)
  have u: "unat (of_nat k :: u32) = k" if "k < n + UT_BUF" for k
    using that n by (simp add: unsigned_of_nat take_bit_nat_eq_self)
  have "inj_on (of_nat :: nat \<Rightarrow> u32) {0..<n + UT_BUF}" by (rule inj_onI) (metis u atLeastLessThan_iff)
  then have "distinct (map of_nat [0..<n + UT_BUF] :: u32 list)" by (simp add: distinct_map)
  then have d: "distinct (out @ rest)" using i(2) by (metis mset_eq_imp_distinct_iff)
  have "set (out @ rest) = of_nat ` {0..<n + UT_BUF}" using mset_eq_setD [OF i(2)] by simp
  then have "unat ` set (out @ rest) = (\<lambda>k. unat (of_nat k :: u32)) ` {0..<n + UT_BUF}" by (simp only: image_image)
  also have "\<dots> = {0..<n + UT_BUF}" using u by force
  finally show ?thesis using i(1) d by blast
qed

theorem deliveries_distinct_witness:
  "length (fst (deliveries (\<lambda>n. rev) 3)) = 3 \<and> distinct (fst (deliveries (\<lambda>n. rev) 3) @ buffer (snd (deliveries (\<lambda>n. rev) 3))) \<and>
    unat ` set (fst (deliveries (\<lambda>n. rev) 3) @ buffer (snd (deliveries (\<lambda>n. rev) 3))) = {0..<3 + UT_BUF}"
  by (rule deliveries_distinct) simp_all

end
