(* ===== verification/Spec2Isabelle.thy ===== *)
theory Spec2Isabelle
  imports Srtp_Jni Srtp_Traffic Ae_Xfm Codec2_Codec Codec2_Jni Kiss_Fft Aes_Generator Crypto_Math Ut_Sim
begin

text \<open>
  \<^bold>\<open>The Onion Phone: the native code.\<close>

  The application is an Android telephone. Its native part under \<^verbatim>\<open>src/jni\<close> wraps frames of a speech codec
  into RTP packets (\<^verbatim>\<open>srtp_jni.c\<close>, \<^verbatim>\<open>simple_rtp\<close>) and protects them with the SRTP library that is compiled with
  it (\<^verbatim>\<open>srtp/sources\<close>); the codec itself is \<^verbatim>\<open>codec2\<close> (\<^verbatim>\<open>codec2_jni.c\<close>, \<^verbatim>\<open>codec2/sources\<close>). This development models that
  code as it is configured for the application: a little-endian target with the table-driven AES of \<^verbatim>\<open>CPU_CISC\<close>, 64-bit
  arithmetic, and no random device, so that random octets come from \<^verbatim>\<open>rand()\<close>.

  \<^bold>\<open>Parts and theories.\<close> Names of definitions are the names of the C functions; a helper is a stage or a
  loop of the function that the manifest names.

  \<^item> \<^verbatim>\<open>Prelude\<close>: octets, byte order, buffers, error codes (\<^verbatim>\<open>crypto/include/err.h\<close>), collections of
    simplification rules. \<^verbatim>\<open>Datatypes\<close>: 128-bit vectors and octet strings (\<^verbatim>\<open>crypto/math/datatypes.c\<close>); parsing
    of printed hexadecimal strings.
  \<^item> \<^verbatim>\<open>Replay\<close>: the interface of a replay database as a locale over a check, an addition and the set of
    received indices. \<^verbatim>\<open>Rdb\<close> and \<^verbatim>\<open>Rdbx\<close> (\<^verbatim>\<open>crypto/replay\<close>) interpret it: refinement of the set, no
    replay for SRTCP, estimation of the 48-bit index, replays of SRTP refused up to the next rollover and accepted
    behind it, and the late packets that \<^verbatim>\<open>rdbx_add_index\<close> does not record.
  \<^item> \<^verbatim>\<open>Key_Limit\<close> (\<^verbatim>\<open>crypto/kernel/key.c\<close>): the life of a key, packet by packet.
  \<^item> \<^verbatim>\<open>Streaming\<close>: the interface of an incremental digest; \<^verbatim>\<open>Sha1\<close> and \<^verbatim>\<open>Hmac\<close> (\<^verbatim>\<open>crypto/hash\<close>) interpret it and
    compute what the standards define.
  \<^item> \<^verbatim>\<open>Gf2_8\<close>, \<^verbatim>\<open>Aes_Tables\<close>, \<^verbatim>\<open>Aes\<close> (\<^verbatim>\<open>crypto/math/gf2_8.c\<close>, \<^verbatim>\<open>crypto/cipher/aes.c\<close>): the table-driven cipher equals the
    cipher of the standard and is inverted by decryption. \<^verbatim>\<open>Aes_Icm\<close> and \<^verbatim>\<open>Aes_Cbc\<close>: the two modes, as
    streams and round trips. \<^verbatim>\<open>Ae_Xfm\<close> (\<^verbatim>\<open>crypto/ae_xfm/xfm.c\<close>): authenticated encryption with CBC and HMAC, from
    end to end and against forgeries.
  \<^item> \<^verbatim>\<open>Cipher_Auth\<close> (\<^verbatim>\<open>crypto/include/cipher.h\<close>, \<^verbatim>\<open>auth.h\<close> and the null types): objects behind addresses of a heap
    whose allocations may fail, function tables as cases on the type, reference counts.
  \<^item> \<^verbatim>\<open>Crypto_Kernel\<close>, \<^verbatim>\<open>Stat\<close>, \<^verbatim>\<open>Rng\<close>, \<^verbatim>\<open>Known_Answers\<close>, \<^verbatim>\<open>Self_Test\<close>, \<^verbatim>\<open>Kernel_Life\<close>
    (\<^verbatim>\<open>crypto/kernel/crypto_kernel.c\<close>, \<^verbatim>\<open>crypto/math/stat.c\<close>, \<^verbatim>\<open>crypto/rng\<close>, and the self-tests of \<^verbatim>\<open>cipher.c\<close> and
    \<^verbatim>\<open>auth.c\<close>): the kernel as a state machine \<open>kernel_step\<close> with an invariant, what initialisation can return, the
    statistical tests over any source that meets the locale \<open>octet_source\<close>, the generators, and that the
    self-tests pass for every type that meets the locale \<open>tested_cipher\<close>.
  \<^item> \<^verbatim>\<open>Srtp_Stream\<close>, \<^verbatim>\<open>Srtp_Packet\<close> (\<^verbatim>\<open>srtp/srtp.c\<close>): policies, streams, key derivation and sessions; protect and
    unprotect for RTP and RTCP as sequences of stages on the packet buffer and the global state.
    \<^verbatim>\<open>Srtp_Refine\<close>: an abstract view of a stream (\<open>stream_view\<close>) and the packet format over it
    (\<open>rtp_packet\<close>), and that the packet functions implement it. \<^verbatim>\<open>Srtp_Roundtrip\<close>: two ends of a stream,
    transcripts with losses, refusals and replays. \<^verbatim>\<open>Srtp_Session\<close>: sessions created from a policy and the theorems
    about them. \<^verbatim>\<open>Srtcp\<close>: the same for RTCP, where the channel may lose, reorder and repeat packets.
    \<^verbatim>\<open>Srtp_Traffic\<close>: whatever the packets hold, processing them keeps the objects of a session (a Hoare-style
    predicate \<open>keeps\<close> on stages), so that a session gives back its memory after any traffic (the relation
    \<open>traffic\<close>); and the stream that \<^verbatim>\<open>srtp_remove_stream\<close> leaves dangling.
  \<^item> \<^verbatim>\<open>Simple_Rtp\<close> (\<^verbatim>\<open>simple_rtp.c\<close>): the headers of a call. \<^verbatim>\<open>Srtp_Jni\<close> (\<^verbatim>\<open>srtp_jni.c\<close>): the native methods, which
    compose the headers, the kernel and the sessions; the functions of the Java environment and
    \<^verbatim>\<open>/dev/urandom\<close> are parameters, with the documented behaviour of the former as \<open>jni_contract\<close>. A call
    from initialisation to the last payload, and what a second call in one process does.
  \<^item> \<^verbatim>\<open>Codec2_Jni\<close> (\<^verbatim>\<open>codec2_jni.c\<close>, \<^verbatim>\<open>codec2.c\<close>, creation and destruction in \<^verbatim>\<open>nlp.c\<close>, the allocations of \<^verbatim>\<open>fft.c\<close>): the native
    methods of the codec over a memory whose allocations may fail. What the sinusoidal analysis found and what the
    synthesis made are inputs of each call, which may be any, also undefined. What sessions leave in memory, what a call
    after the release does, and that a session does not survive two frames of silence.
  \<^item> \<^verbatim>\<open>Ieee\<close>: the types \<^verbatim>\<open>float\<close> and \<^verbatim>\<open>double\<close>, with rounding to nearest, infinities and what is not a number, as functions that
    can be run, and bounds for their rounding. \<^verbatim>\<open>Codec2_Lsp\<close> (\<^verbatim>\<open>lsp.c\<close>): line spectrum pairs; the root search ends.
    \<^verbatim>\<open>Codec2_Lpc\<close> (\<^verbatim>\<open>lpc.c\<close>): linear prediction, and what it makes of silence.
  \<^item> \<^verbatim>\<open>Codec2_Pack\<close> (\<^verbatim>\<open>pack.c\<close> and the bit streams of \<^verbatim>\<open>codec2.c\<close>): fields in Gray code and the frame of the speech codec,
    read back as written. \<^verbatim>\<open>Codec2_Quantise\<close> (\<^verbatim>\<open>quantise.c\<close>, \<^verbatim>\<open>generated/codebook.c\<close>): the quantisers. \<^verbatim>\<open>Codec2_Codec\<close>
    (\<^verbatim>\<open>codec2.c\<close>): what the encoder sends is what the decoder reads, and no received frame leads the decoder outside
    its tables; every bound goes through the rounding of each operation.
  \<^item> \<^verbatim>\<open>Kiss_Fft\<close> (\<^verbatim>\<open>kiss_fft.c\<close>, \<^verbatim>\<open>fft.c\<close>): the mixed radix transform over any type of scalars. The locale \<open>butterfly\<close> says what
    the butterfly of a radix computes and gives the step of the recursion; every butterfly of the source interprets it,
    so that in exact arithmetic the algorithm is the discrete Fourier transform, for every size.
  \<^item> \<^verbatim>\<open>Aes_Generator\<close> (\<^verbatim>\<open>tables/aes_tables.c\<close>): the program that computes the tables of \<^verbatim>\<open>aes.c\<close> computes those tables.
    \<^verbatim>\<open>Crypto_Math\<close> (\<^verbatim>\<open>crypto/math/math.c\<close>): weights, lowest bits, printing, parsing and bit vectors. \<^verbatim>\<open>Ut_Sim\<close>
    (\<^verbatim>\<open>crypto/replay/ut_sim.c\<close>): the simulator of an unreliable connection loses and repeats nothing.

  \<^bold>\<open>State and errors.\<close> Objects behind pointers live in a heap of partial maps; a list of streams is a list of
  addresses. Every status of the C code is a value of \<open>err_status_t\<close>; an access outside a buffer or to an
  unallocated object is \<open>None\<close>, and \<^verbatim>\<open>exit\<close> is a value of \<open>outcome\<close>. Machine words keep their width wherever they
  wrap around. An expression of type \<^verbatim>\<open>float\<close> or \<^verbatim>\<open>double\<close> is evaluated in the type of its operands, each operation
  rounded once; operations are not contracted, and no wider format is used in between. The functions of \<^verbatim>\<open>math.h\<close> are
  parameters on which the theorems put no condition, apart from a logarithm that maps what is not a number to itself
  and a cosine and square root for which the analysis window is finite.
  A conversion to an integer type that is out of range is \<open>None\<close>.

  \<^bold>\<open>Bounds.\<close> No model uses fuel: every loop is structural or has a measure, except the root search of the line
  spectrum pairs and the factorisation of a transform size, which are option-valued and proved to return. Theorems about transcripts are limited
  by the 48-bit packet index and the key limit of the library (\<open>2 ^ 47\<close> packets are below both), by losses
  of fewer than 32767 packets in a row (half of the sequence number space), and by packets of at most 65500
  octets (one counter mode segment).

  \<^bold>\<open>Not modelled.\<close> The signal processing of the speech codec between the window of speech and the model (pitch
  estimation, spectra, voicing) and between the model and the synthesised speech (phases, post filter, overlap);
  the quantisers that only the simulation program uses; the printing of debug messages, which has no effect on the
  state; the random device; test and command line programs, the Java code and \<^verbatim>\<open>cipher_bits_per_second\<close>, which
  measures time.
\<close>

end
